(* ===== verification/Mk_Prelude.thy ===== *)
theory Mk_Prelude
  imports Main
begin

text \<open>
  Shared vocabulary of the development: the C bytes, strings and integers that every
  component of the server reads, and the parts of the C library that the sources call.

  A \<^verbatim>\<open>char *\<close> that the code only reads is the list of bytes from the pointer to the end of
  the object it points into (a \<open>view\<close>). Pointer arithmetic is \<^const>\<open>drop\<close>, a difference
  of two pointers into the same object is a difference of offsets. Bytes after a terminator
  stay in the view, so \<open>memchr\<close> can look past it while \<open>strstr\<close> stops at it. The
  terminator of a string literal is left implicit: reading the byte right after the view's
  last one gives NUL.

  C errors that no return code reports (a store outside its object, a NULL dereference, the
  \<open>abort\<close> of the macro \<open>mk_bug\<close>, a use of freed memory, a loop that does not end) are values of
  \<open>cerr\<close>.
\<close>

named_theorems mk_clib "unfoldings of the modelled C library"
named_theorems mk_const "constants of the program's headers"

section \<open>Bytes\<close>

type_synonym cstr = "char list"

abbreviation NUL :: char where "NUL \<equiv> CHR 0x00"
abbreviation CR :: char where "CR \<equiv> CHR 0x0D"
abbreviation LF :: char where "LF \<equiv> CHR 0x0A"
abbreviation SP :: char where "SP \<equiv> CHR '' ''"

datatype cerr = OutOfBounds | NullDeref | BugAbort | ExitFailure | UseAfterFree | Diverges

definition byte :: "char \<Rightarrow> nat" where
  "byte c = of_char c"

definition mkchar :: "nat \<Rightarrow> char" where
  "mkchar n = char_of n"

lemma byte_mkchar [simp]: "n < 256 \<Longrightarrow> byte (mkchar n) = n"
  by (simp add: byte_def mkchar_def)

lemma mkchar_byte [simp]: "mkchar (byte c) = c"
  by (simp add: byte_def mkchar_def)

lemma byte_less [simp]: "byte c < 256"
  by (simp add: byte_def)

text \<open>The byte a pointer designates, and the suffix one step further.\<close>

definition rd :: "cstr \<Rightarrow> char" where
  "rd v = (case v of [] \<Rightarrow> NUL | c # _ \<Rightarrow> c)"

definition rd_at :: "cstr \<Rightarrow> nat \<Rightarrow> char" where
  "rd_at v i = (if i < length v then v ! i else NUL)"

lemma rd_simps [simp]: "rd [] = NUL" "rd (c # cs) = c"
  by (simp_all add: rd_def)

lemma rd_drop: "rd (drop i v) = rd_at v i"
  by (induction v arbitrary: i) (auto simp: rd_at_def drop_Cons' nth_Cons')

section \<open>Character classes (C locale)\<close>

definition c_isdigit :: "char \<Rightarrow> bool" where
  "c_isdigit c \<longleftrightarrow> 48 \<le> byte c \<and> byte c \<le> 57"

definition c_isspace :: "char \<Rightarrow> bool" where
  "c_isspace c \<longleftrightarrow> byte c = 32 \<or> (9 \<le> byte c \<and> byte c \<le> 13)"

definition c_toupper :: "char \<Rightarrow> char" where
  "c_toupper c = (if 97 \<le> byte c \<and> byte c \<le> 122 then mkchar (byte c - 32) else c)"

definition c_tolower :: "char \<Rightarrow> char" where
  "c_tolower c = (if 65 \<le> byte c \<and> byte c \<le> 90 then mkchar (byte c + 32) else c)"

lemma byte_eq_iff: "byte c = byte d \<longleftrightarrow> c = d"
  by (metis mkchar_byte)

lemma byte_NUL [simp]: "byte NUL = 0"
  by (simp add: byte_def)

lemma byte_0_iff [simp]: "byte c = 0 \<longleftrightarrow> c = NUL"
  by (metis byte_NUL byte_eq_iff)

lemma mkchar_eq_iff [simp]: "m < 256 \<Longrightarrow> n < 256 \<Longrightarrow> mkchar m = mkchar n \<longleftrightarrow> m = n"
  by (metis byte_mkchar)

lemma mkchar_NUL_iff [simp]: "n < 256 \<Longrightarrow> mkchar n = NUL \<longleftrightarrow> n = 0"
  by (metis byte_NUL byte_mkchar byte_0_iff)

lemma c_tolower_NUL [simp]: "c_tolower c = NUL \<longleftrightarrow> c = NUL"
  by (auto simp: c_tolower_def)

lemma c_toupper_NUL [simp]: "c_toupper c = NUL \<longleftrightarrow> c = NUL"
  by (auto simp: c_toupper_def)

lemma c_tolower_idem [simp]: "c_tolower (c_tolower c) = c_tolower c"
  by (simp add: c_tolower_def)

lemma byte_c_tolower:
  "byte (c_tolower c) = (if 65 \<le> byte c \<and> byte c \<le> 90 then byte c + 32 else byte c)"
  by (simp add: c_tolower_def)

lemma byte_c_toupper:
  "byte (c_toupper c) = (if 97 \<le> byte c \<and> byte c \<le> 122 then byte c - 32 else byte c)"
proof -
  have "byte c - 32 < 256" by (rule less_imp_diff_less) simp
  then show ?thesis by (simp add: c_toupper_def)
qed

lemma c_toupper_eq_iff_tolower: "c_toupper c = c_toupper d \<longleftrightarrow> c_tolower c = c_tolower d"
  unfolding byte_eq_iff [symmetric] byte_c_tolower byte_c_toupper
  by (cases "97 \<le> byte c"; cases "byte c \<le> 122"; cases "97 \<le> byte d"; cases "byte d \<le> 122") auto

section \<open>NUL-terminated strings\<close>

text \<open>The C string a pointer designates: the bytes before the terminator.\<close>

definition cstring :: "cstr \<Rightarrow> cstr" where
  "cstring v = takeWhile (\<lambda>c. c \<noteq> NUL) v"

definition strlen :: "cstr \<Rightarrow> nat" where
  "strlen v = length (cstring v)"

lemma cstring_Nil [simp]: "cstring [] = []"
  by (simp add: cstring_def)

lemma cstring_Cons [simp]: "cstring (c # v) = (if c = NUL then [] else c # cstring v)"
  by (simp add: cstring_def)

lemma cstring_no_NUL: "NUL \<notin> set v \<Longrightarrow> cstring v = v"
  by (induction v) auto

lemma cstring_append_NUL: "NUL \<notin> set v \<Longrightarrow> cstring (v @ NUL # w) = v"
  by (induction v) auto

lemma NUL_notin_cstring [simp]: "NUL \<notin> set (cstring v)"
  by (auto simp: cstring_def dest: set_takeWhileD)

lemma strlen_le [simp]: "strlen v \<le> length v"
  by (simp add: strlen_def cstring_def length_takeWhile_le)

text \<open>\<open>memchr\<close> and \<open>memrchr\<close>: first and last index of a byte among the first \<open>n\<close>.\<close>

fun find_index :: "('a \<Rightarrow> bool) \<Rightarrow> 'a list \<Rightarrow> nat option" where
  "find_index P [] = None"
| "find_index P (x # xs) = (if P x then Some 0 else map_option Suc (find_index P xs))"

definition memchr :: "cstr \<Rightarrow> char \<Rightarrow> nat \<Rightarrow> nat option" where
  "memchr v c n = find_index ((=) c) (take n v)"

fun find_last :: "('a \<Rightarrow> bool) \<Rightarrow> 'a list \<Rightarrow> nat option" where
  "find_last P [] = None"
| "find_last P (x # xs) =
     (case find_last P xs of Some k \<Rightarrow> Some (Suc k)
      | None \<Rightarrow> if P x then Some 0 else None)"

definition memrchr :: "cstr \<Rightarrow> char \<Rightarrow> nat \<Rightarrow> nat option" where
  "memrchr v c n = find_last ((=) c) (take n v)"

lemma find_index_SomeD:
  "find_index P xs = Some k \<Longrightarrow> k < length xs \<and> P (xs ! k) \<and> (\<forall>j<k. \<not> P (xs ! j))"
proof (induction xs arbitrary: k)
  case Nil
  then show ?case by simp
next
  case (Cons x xs)
  show ?case
  proof (cases "P x")
    case True
    with Cons.prems show ?thesis by simp
  next
    case False
    with Cons.prems obtain j where j: "find_index P xs = Some j" "k = Suc j" by auto
    from Cons.IH [OF j(1)] j(2) False show ?thesis
      by (auto simp: nth_Cons split: nat.splits)
  qed
qed

lemma find_index_None_iff [simp]: "find_index P xs = None \<longleftrightarrow> (\<forall>x\<in>set xs. \<not> P x)"
  by (induction xs) auto

lemma find_index_SomeI:
  "k < length xs \<Longrightarrow> P (xs ! k) \<Longrightarrow> \<forall>j<k. \<not> P (xs ! j) \<Longrightarrow> find_index P xs = Some k"
proof (induction xs arbitrary: k)
  case Nil
  then show ?case by simp
next
  case (Cons x xs)
  show ?case
  proof (cases k)
    case 0
    with Cons.prems show ?thesis by simp
  next
    case (Suc j)
    with Cons.prems have "\<not> P x" by (metis nth_Cons_0 zero_less_Suc)
    moreover from Cons.prems Suc have "find_index P xs = Some j"
      by (intro Cons.IH) auto
    ultimately show ?thesis using Suc by simp
  qed
qed

lemma find_index_Some_iff:
  "find_index P xs = Some k \<longleftrightarrow> k < length xs \<and> P (xs ! k) \<and> (\<forall>j<k. \<not> P (xs ! j))"
  by (blast dest: find_index_SomeD intro: find_index_SomeI)

lemma find_index_take_drop:
  "find_index P xs = Some k \<Longrightarrow>
     xs = take k xs @ (xs ! k) # drop (Suc k) xs \<and> (\<forall>x\<in>set (take k xs). \<not> P x)"
  using find_index_SomeD [of P xs k]
  by (auto simp: in_set_conv_nth id_take_nth_drop)

lemma memchr_Some_iff:
  "memchr v c n = Some k \<longleftrightarrow> k < n \<and> k < length v \<and> v ! k = c \<and> (\<forall>j<k. v ! j \<noteq> c)"
  unfolding memchr_def find_index_Some_iff by auto

lemma memchr_None_iff: "memchr v c n = None \<longleftrightarrow> c \<notin> set (take n v)"
  by (auto simp: memchr_def)

lemma find_last_None_iff [simp]: "find_last P xs = None \<longleftrightarrow> (\<forall>x\<in>set xs. \<not> P x)"
  by (induction xs) (auto split: option.splits)

lemma find_last_SomeD:
  "find_last P xs = Some k \<Longrightarrow>
     k < length xs \<and> P (xs ! k) \<and> (\<forall>j. k < j \<and> j < length xs \<longrightarrow> \<not> P (xs ! j))"
proof (induction xs arbitrary: k)
  case Nil
  then show ?case by simp
next
  case (Cons x xs)
  show ?case
  proof (cases "find_last P xs")
    case None
    then have "\<not> P (xs ! j)" if "j < length xs" for j using that by simp
    with Cons.prems None show ?thesis
      by (auto simp: nth_Cons simp del: find_last_None_iff split: nat.splits if_splits)
  next
    case (Some i)
    with Cons.prems have "k = Suc i" by simp
    with Cons.IH [OF Some] show ?thesis by (auto simp: nth_Cons split: nat.splits)
  qed
qed

lemma find_last_Some_iff:
  "find_last P xs = Some k \<longleftrightarrow>
     k < length xs \<and> P (xs ! k) \<and> (\<forall>j. k < j \<and> j < length xs \<longrightarrow> \<not> P (xs ! j))"
  (is "_ \<longleftrightarrow> ?R")
proof
  assume R: ?R
  then have "find_last P xs \<noteq> None" by (metis find_last_None_iff nth_mem)
  then obtain i where i: "find_last P xs = Some i" by blast
  with R find_last_SomeD [OF i] show "find_last P xs = Some k"
    by (metis linorder_neqE_nat)
qed (rule find_last_SomeD)

lemma memrchr_Some_iff:
  "memrchr v c n = Some k \<longleftrightarrow>
     k < n \<and> k < length v \<and> v ! k = c \<and> (\<forall>j. k < j \<and> j < n \<and> j < length v \<longrightarrow> v ! j \<noteq> c)"
  unfolding memrchr_def find_last_Some_iff by auto

lemma memrchr_None_iff: "memrchr v c n = None \<longleftrightarrow> c \<notin> set (take n v)"
  by (auto simp: memrchr_def)

text \<open>Position results of the search routines: the offset, or \<open>-1\<close>.\<close>

definition pos_of :: "nat option \<Rightarrow> int" where
  "pos_of r = (case r of None \<Rightarrow> -1 | Some k \<Rightarrow> int k)"

lemma pos_of_simps [simp]: "pos_of None = -1" "pos_of (Some k) = int k"
  by (simp_all add: pos_of_def)

lemma pos_of_ge_0 [simp]: "0 \<le> pos_of r \<longleftrightarrow> r \<noteq> None"
  by (cases r) auto

lemma pos_of_less_0 [simp]: "pos_of r < 0 \<longleftrightarrow> r = None"
  by (cases r) auto

lemma find_spec: "case find P js of Some i \<Rightarrow> i \<in> set js \<and> P i | None \<Rightarrow> \<forall>i\<in>set js. \<not> P i"
  by (induction js) (auto split: option.splits)

section \<open>Comparison of C strings\<close>

text \<open>
  \<open>strncmp (a, b, n) == 0\<close>: equal up to \<open>n\<close> bytes or up to a common terminator;
  \<open>strncasecmp\<close> compares after folding the case.
\<close>

fun strn_eq :: "(char \<Rightarrow> char) \<Rightarrow> nat \<Rightarrow> cstr \<Rightarrow> cstr \<Rightarrow> bool" where
  "strn_eq f 0 a b = True"
| "strn_eq f (Suc n) a b =
     (f (rd a) = f (rd b) \<and> (rd a = NUL \<or> strn_eq f n (tl a) (tl b)))"

definition strncmp_eq :: "cstr \<Rightarrow> cstr \<Rightarrow> nat \<Rightarrow> bool" where
  "strncmp_eq a b n = strn_eq (\<lambda>c. c) n a b"

definition strncasecmp_eq :: "cstr \<Rightarrow> cstr \<Rightarrow> nat \<Rightarrow> bool" where
  "strncasecmp_eq a b n = strn_eq c_tolower n a b"

definition strcmp_eq :: "cstr \<Rightarrow> cstr \<Rightarrow> bool" where
  "strcmp_eq a b \<longleftrightarrow> cstring a = cstring b"

definition strcasecmp_eq :: "cstr \<Rightarrow> cstr \<Rightarrow> bool" where
  "strcasecmp_eq a b \<longleftrightarrow> map c_tolower (cstring a) = map c_tolower (cstring b)"

lemma strn_eq_iff:
  assumes "\<And>c. f c = NUL \<longleftrightarrow> c = NUL"
  shows "strn_eq f n a b \<longleftrightarrow> map f (take n (cstring a)) = map f (take n (cstring b))"
proof (induction n arbitrary: a b)
  case 0
  then show ?case by simp
next
  case (Suc n)
  have f: "f NUL = NUL" using assms by blast
  have z: "f c = NUL \<longleftrightarrow> c = NUL" "NUL = f c \<longleftrightarrow> c = NUL" for c
    using assms [of c] by auto
  show ?case
    using Suc.IH [of "tl a" "tl b"]
    by (cases a; cases b) (auto simp: z f)
qed

lemma strncmp_eq_iff: "strncmp_eq a b n \<longleftrightarrow> take n (cstring a) = take n (cstring b)"
  by (simp add: strncmp_eq_def strn_eq_iff)

lemma strncasecmp_eq_iff:
  "strncasecmp_eq a b n \<longleftrightarrow>
     map c_tolower (take n (cstring a)) = map c_tolower (take n (cstring b))"
  by (simp add: strncasecmp_eq_def strn_eq_iff)

section \<open>Substring search\<close>

text \<open>
  \<open>match_at eq needle v\<close>: the bytes of \<open>needle\<close> are found at the start of \<open>v\<close>, up to
  \<open>eq\<close>. \<open>find_sub\<close> is \<open>strstr\<close>/\<open>strcasestr\<close>: the first offset where it matches.
\<close>

fun match_at :: "(char \<Rightarrow> char \<Rightarrow> bool) \<Rightarrow> cstr \<Rightarrow> cstr \<Rightarrow> bool" where
  "match_at eq [] v = True"
| "match_at eq (s # ss) [] = False"
| "match_at eq (s # ss) (c # v) = (eq s c \<and> match_at eq ss v)"

fun find_sub :: "(char \<Rightarrow> char \<Rightarrow> bool) \<Rightarrow> cstr \<Rightarrow> cstr \<Rightarrow> nat option" where
  "find_sub eq n [] = (if n = [] then Some 0 else None)"
| "find_sub eq n (c # v) =
     (if match_at eq n (c # v) then Some 0 else map_option Suc (find_sub eq n v))"

definition case_eq :: "char \<Rightarrow> char \<Rightarrow> bool" where
  "case_eq a b \<longleftrightarrow> c_toupper a = c_toupper b"

definition strstr :: "cstr \<Rightarrow> cstr \<Rightarrow> nat option" where
  "strstr h n = find_sub (=) (cstring n) (cstring h)"

definition strcasestr :: "cstr \<Rightarrow> cstr \<Rightarrow> nat option" where
  "strcasestr h n = find_sub case_eq (cstring n) (cstring h)"

text \<open>\<open>memmem\<close>: the haystack is a counted block, terminators do not stop it.\<close>

definition memmem :: "cstr \<Rightarrow> nat \<Rightarrow> cstr \<Rightarrow> nat option" where
  "memmem h n s = find_sub (=) s (take n h)"

lemma match_at_iff:
  "match_at eq n v \<longleftrightarrow> length n \<le> length v \<and> (\<forall>i<length n. eq (n ! i) (v ! i))"
proof (induction eq n v rule: match_at.induct)
  case (3 eq s ss c v)
  then show ?case by (auto simp: All_less_Suc2)
qed auto

lemma match_at_eq_prefix: "match_at (=) n v \<longleftrightarrow> (\<exists>w. v = n @ w)"
  by (induction "(=) :: char \<Rightarrow> char \<Rightarrow> bool" n v rule: match_at.induct) auto

lemma match_at_take: "match_at (=) n v \<longleftrightarrow> take (length n) v = n"
  unfolding match_at_eq_prefix by (metis append_eq_conv_conj append_take_drop_id)

lemma find_sub_Nil [simp]: "find_sub eq [] v = Some 0"
  by (cases v) auto

lemma find_sub_Some_iff:
  "find_sub eq n v = Some k \<longleftrightarrow>
     k \<le> length v \<and> match_at eq n (drop k v) \<and> (\<forall>j<k. \<not> match_at eq n (drop j v))"
proof (induction v arbitrary: k)
  case Nil
  then show ?case by (cases n) auto
next
  case (Cons c v)
  show ?case
  proof (cases k)
    case 0
    then show ?thesis by (auto split: if_splits)
  next
    case (Suc j)
    then show ?thesis
      using Cons.IH [of j] by (auto simp: All_less_Suc2)
  qed
qed

lemma find_sub_None_iff:
  "find_sub eq n v = None \<longleftrightarrow> (\<forall>k\<le>length v. \<not> match_at eq n (drop k v))"
proof
  assume None: "find_sub eq n v = None"
  show "\<forall>k\<le>length v. \<not> match_at eq n (drop k v)"
  proof (intro allI impI notI)
    fix k assume "k \<le> length v" "match_at eq n (drop k v)"
    then obtain j where "match_at eq n (drop j v)" "j \<le> length v"
      "\<forall>i<j. \<not> match_at eq n (drop i v)"
      using exists_least_iff [of "\<lambda>i. match_at eq n (drop i v)"]
      by (metis (no_types, lifting) le_trans linorder_not_less order_less_imp_le)
    then have "find_sub eq n v = Some j" by (simp add: find_sub_Some_iff)
    with None show False by simp
  qed
next
  assume "\<forall>k\<le>length v. \<not> match_at eq n (drop k v)"
  then show "find_sub eq n v = None"
    by (metis find_sub_Some_iff not_None_eq)
qed

lemma find_sub_le: "find_sub eq n v = Some k \<Longrightarrow> k + length n \<le> length v"
  by (auto simp: find_sub_Some_iff match_at_iff)

section \<open>Integers\<close>

text \<open>
  A C \<open>int\<close> is a 32-bit two's complement number; a conversion to it wraps around.
  \<open>strtol\<close> (base 10) skips white space, reads a sign and digits, and saturates at the
  limits of a 64-bit \<open>long\<close>.
\<close>

definition int32 :: "int \<Rightarrow> int" where
  "int32 x = (x + 2147483648) mod 4294967296 - 2147483648"

definition LONG_MAX :: int where "LONG_MAX = 9223372036854775807"
definition LONG_MIN :: int where "LONG_MIN = -9223372036854775808"

lemma int32_range: "-2147483648 \<le> int32 x \<and> int32 x < 2147483648"
  by (simp add: int32_def)

lemma int32_id: "-2147483648 \<le> x \<Longrightarrow> x < 2147483648 \<Longrightarrow> int32 x = x"
  by (simp add: int32_def)

lemma int32_idem [simp]: "int32 (int32 x) = int32 x"
  by (rule int32_id) (use int32_range [of x] in auto)

fun digits_val :: "int \<Rightarrow> cstr \<Rightarrow> int" where
  "digits_val acc [] = acc"
| "digits_val acc (c # v) =
     (if c_isdigit c then digits_val (10 * acc + (int (byte c) - 48)) v else acc)"

definition clamp_long :: "int \<Rightarrow> int" where
  "clamp_long x = max LONG_MIN (min LONG_MAX x)"

definition strtol10 :: "cstr \<Rightarrow> int" where
  "strtol10 v =
     (let w = dropWhile c_isspace (cstring v) in
      if rd w = CHR ''-'' then clamp_long (- digits_val 0 (tl w))
      else if rd w = CHR ''+'' then clamp_long (digits_val 0 (tl w))
      else clamp_long (digits_val 0 w))"

lemma digits_val_ge: "0 \<le> acc \<Longrightarrow> acc \<le> digits_val acc v"
proof (induction v arbitrary: acc)
  case Nil
  then show ?case by simp
next
  case (Cons c v)
  have "acc \<le> 10 * acc + (int (byte c) - 48)" if "c_isdigit c"
    using that Cons.prems by (simp add: c_isdigit_def)
  with Cons.IH [of "10 * acc + (int (byte c) - 48)"] Cons.prems show ?case by fastforce
qed

lemma clamp_long_range: "LONG_MIN \<le> clamp_long x \<and> clamp_long x \<le> LONG_MAX"
  by (auto simp: clamp_long_def LONG_MIN_def LONG_MAX_def)

lemma strtol10_range: "LONG_MIN \<le> strtol10 v \<and> strtol10 v \<le> LONG_MAX"
  using clamp_long_range by (simp add: strtol10_def Let_def)

section \<open>Stores into an object\<close>

text \<open>A store is defined only inside the object.\<close>

definition store :: "cstr \<Rightarrow> nat \<Rightarrow> char \<Rightarrow> cerr + cstr" where
  "store b i c = (if i < length b then Inr (b[i := c]) else Inl OutOfBounds)"

definition bindE :: "'err + 'x \<Rightarrow> ('x \<Rightarrow> 'err + 'y) \<Rightarrow> 'err + 'y" where
  "bindE m f = (case m of Inl e \<Rightarrow> Inl e | Inr a \<Rightarrow> f a)"

lemma bindE_simps [simp]: "bindE (Inl e) f = Inl e" "bindE (Inr a) f = f a"
  by (simp_all add: bindE_def)

lemma bindE_Inr_iff: "bindE m f = Inr b \<longleftrightarrow> (\<exists>a. m = Inr a \<and> f a = Inr b)"
  by (cases m) auto

lemma store_Inr_iff: "store b i c = Inr b' \<longleftrightarrow> i < length b \<and> b' = b[i := c]"
  by (auto simp: store_def)

lemma store_Inl_iff: "store b i c = Inl e \<longleftrightarrow> length b \<le> i \<and> e = OutOfBounds"
  by (auto simp: store_def)

lemmas store_iffs = store_Inr_iff store_Inl_iff bindE_Inr_iff

end
