(* ===== verification/Mk_List.thy ===== *)
theory Mk_List
  imports Mk_Prelude
begin

text \<open>
  The intrusive circular list of \<^verbatim>\<open>src/include/mk_list.h\<close>, on an explicit heap: a node is an
  address, the heap gives the \<open>prev\<close> and \<open>next\<close> field of every address, address 0 is NULL.
  \<open>mk_list_rep h head xs\<close> says that the nodes linked behind \<open>head\<close> are \<open>xs\<close>, in order.
  The interface locale \<open>dlink\<close> states what users of the list rely on; it is interpreted on
  the heap operations at the end.
\<close>

section \<open>The heap of links and the operations\<close>

type_synonym addr = nat

record mk_list =
  l_prev :: "addr \<Rightarrow> addr"
  l_next :: "addr \<Rightarrow> addr"

definition set_prev :: "addr \<Rightarrow> addr \<Rightarrow> mk_list \<Rightarrow> mk_list" where
  "set_prev a v h = h\<lparr>l_prev := (l_prev h)(a := v)\<rparr>"

definition set_next :: "addr \<Rightarrow> addr \<Rightarrow> mk_list \<Rightarrow> mk_list" where
  "set_next a v h = h\<lparr>l_next := (l_next h)(a := v)\<rparr>"

definition mk_list_init :: "addr \<Rightarrow> mk_list \<Rightarrow> mk_list" where
  "mk_list_init list h = set_prev list list (set_next list list h)"

definition list_link_between :: "addr \<Rightarrow> addr \<Rightarrow> addr \<Rightarrow> mk_list \<Rightarrow> mk_list" where
  "list_link_between new prev next h =
     (let h1 = set_prev next new h;
          h2 = set_next new next h1;
          h3 = set_prev new prev h2
      in set_next prev new h3)"

definition mk_list_add :: "addr \<Rightarrow> addr \<Rightarrow> mk_list \<Rightarrow> mk_list" where
  "mk_list_add new head h = list_link_between new (l_prev h head) head h"

definition list_unlink_between :: "addr \<Rightarrow> addr \<Rightarrow> mk_list \<Rightarrow> mk_list" where
  "list_unlink_between prev next h = set_prev next prev (set_next prev next h)"

definition mk_list_del :: "addr \<Rightarrow> mk_list \<Rightarrow> mk_list" where
  "mk_list_del entry h =
     (let h1 = list_unlink_between (l_prev h entry) (l_next h entry) h
      in set_next entry 0 (set_prev entry 0 h1))"

definition mk_list_is_empty :: "mk_list \<Rightarrow> addr \<Rightarrow> int" where
  "mk_list_is_empty h head = (if l_next h head = head then 0 else -1)"

definition mk_list_entry_first :: "mk_list \<Rightarrow> addr \<Rightarrow> addr" where
  "mk_list_entry_first h head = l_next h head"

definition mk_list_entry_last :: "mk_list \<Rightarrow> addr \<Rightarrow> addr" where
  "mk_list_entry_last h head = l_prev h head"

definition mk_list_entry_next :: "mk_list \<Rightarrow> addr \<Rightarrow> addr \<Rightarrow> addr" where
  "mk_list_entry_next h p head = (if l_next h p = head then l_next h head else l_next h p)"

text \<open>
  \<open>mk_list_foreach\<close> visits \<open>cur\<close> and follows \<open>next\<close> until it is back at the head. The
  loop ends only on a well-formed ring, so it carries fuel; \<open>None\<close> is "still running".
  \<open>mk_list_foreach_safe\<close> reads the successor before the body runs; the body is a heap
  transformer.
\<close>

fun foreach_from :: "nat \<Rightarrow> mk_list \<Rightarrow> addr \<Rightarrow> addr \<Rightarrow> addr list option" where
  "foreach_from 0 h head cur = None"
| "foreach_from (Suc fuel) h head cur =
     (if cur = head then Some []
      else map_option ((#) cur) (foreach_from fuel h head (l_next h cur)))"

definition mk_list_foreach :: "nat \<Rightarrow> mk_list \<Rightarrow> addr \<Rightarrow> addr list option" where
  "mk_list_foreach fuel h head = foreach_from fuel h head (l_next h head)"

fun foreach_safe_from ::
  "nat \<Rightarrow> (addr \<Rightarrow> mk_list \<Rightarrow> mk_list) \<Rightarrow> mk_list \<Rightarrow> addr \<Rightarrow> addr \<Rightarrow> addr \<Rightarrow> mk_list option" where
  "foreach_safe_from 0 body h head cur n = None"
| "foreach_safe_from (Suc fuel) body h head cur n =
     (if cur = head then Some h
      else let h' = body cur h in foreach_safe_from fuel body h' head n (l_next h' n))"

definition mk_list_foreach_safe ::
  "nat \<Rightarrow> (addr \<Rightarrow> mk_list \<Rightarrow> mk_list) \<Rightarrow> mk_list \<Rightarrow> addr \<Rightarrow> mk_list option" where
  "mk_list_foreach_safe fuel body h head =
     (let cur = l_next h head in foreach_safe_from fuel body h head cur (l_next h cur))"

section \<open>Well-formed rings\<close>

fun chain :: "mk_list \<Rightarrow> addr list \<Rightarrow> bool" where
  "chain h [] = True"
| "chain h [x] = True"
| "chain h (x # y # r) = (l_next h x = y \<and> l_prev h y = x \<and> chain h (y # r))"

definition mk_list_rep :: "mk_list \<Rightarrow> addr \<Rightarrow> addr list \<Rightarrow> bool" where
  "mk_list_rep h head xs \<longleftrightarrow>
     distinct (head # xs) \<and> 0 \<notin> set (head # xs) \<and> chain h (head # xs @ [head])"

lemma links_simps [simp]:
  "l_next (set_next a v h) x = (if x = a then v else l_next h x)"
  "l_prev (set_prev a v h) x = (if x = a then v else l_prev h x)"
  "l_next (set_prev a v h) = l_next h"
  "l_prev (set_next a v h) = l_prev h"
  by (simp_all add: set_next_def set_prev_def)

lemma chain_append:
  "chain h (as @ p # n # bs) \<longleftrightarrow>
     chain h (as @ [p]) \<and> l_next h p = n \<and> l_prev h n = p \<and> chain h (n # bs)"
proof (induction as)
  case Nil
  then show ?case by auto
next
  case (Cons a as)
  then show ?case by (cases as) auto
qed

lemma chain_split: "chain h (as @ x # bs) \<longleftrightarrow> chain h (as @ [x]) \<and> chain h (x # bs)"
  by (cases bs) (auto simp: chain_append)

lemma chain_set_next: "a \<notin> set (butlast ns) \<Longrightarrow> chain (set_next a v h) ns = chain h ns"
  by (induction h ns rule: chain.induct) auto

lemma chain_set_prev: "a \<notin> set (tl ns) \<Longrightarrow> chain (set_prev a v h) ns = chain h ns"
  by (induction h ns rule: chain.induct) auto

lemmas chain_frame = chain_set_next chain_set_prev

lemma rep_last: "mk_list_rep h head xs \<Longrightarrow> l_prev h head = last (head # xs)"
proof (cases xs rule: rev_cases)
  case Nil
  assume "mk_list_rep h head xs"
  with Nil show ?thesis by (simp add: mk_list_rep_def)
next
  case (snoc ys y)
  assume "mk_list_rep h head xs"
  with snoc have "chain h ((head # ys) @ y # head # [])" by (simp add: mk_list_rep_def)
  then show ?thesis using snoc by (simp only: chain_append) simp
qed

lemma rep_first: "mk_list_rep h head xs \<Longrightarrow> l_next h head = hd (xs @ [head])"
  by (cases xs) (auto simp: mk_list_rep_def)

lemma mk_list_init_rep: "head \<noteq> 0 \<Longrightarrow> mk_list_rep (mk_list_init head h) head []"
  by (simp add: mk_list_rep_def mk_list_init_def)

lemma mk_list_is_empty_iff: "mk_list_rep h head xs \<Longrightarrow> mk_list_is_empty h head = 0 \<longleftrightarrow> xs = []"
  using rep_first [of h head xs] by (cases xs) (auto simp: mk_list_is_empty_def mk_list_rep_def)

lemma mk_list_add_rep:
  assumes rep: "mk_list_rep h head xs" and new: "new \<notin> set (head # xs)" "new \<noteq> 0"
  shows "mk_list_rep (mk_list_add new head h) head (xs @ [new])"
proof -
  define as where "as = butlast (head # xs)"
  define p where "p = last (head # xs)"
  have ring: "head # xs = as @ [p]" by (simp add: as_def p_def)
  from rep have d: "distinct (as @ [p])" "0 \<notin> set (as @ [p])"
    and c: "chain h ((as @ [p]) @ [head])"
    by (auto simp: mk_list_rep_def simp flip: ring)
  have new': "new \<noteq> p" "new \<notin> set as" using new ring by (metis Un_iff list.set_intros(1) set_append)+
  have head_tl: "head \<notin> set (tl (as @ [p]))"
    using rep unfolding ring [symmetric] by (simp add: mk_list_rep_def)
  let ?h = "mk_list_add new head h"
  have eq: "?h = set_next p new (set_prev new p (set_next new head (set_prev head new h)))"
    using rep_last [OF rep] by (simp add: mk_list_add_def list_link_between_def p_def Let_def)
  have "new \<notin> set (tl (as @ [p]))" using new' by (cases as) auto
  then have "chain ?h (as @ [p])"
    using c d new' head_tl unfolding eq
    by (simp add: chain_frame chain_append)
  moreover have "l_next ?h p = new" "l_prev ?h new = p" "l_next ?h new = head" "l_prev ?h head = new"
    using new new' by (auto simp: eq)
  ultimately have "chain ?h (as @ p # new # [head])"
    by (simp add: chain_append)
  then have "chain ?h ((head # xs) @ [new, head])" unfolding ring by simp
  then show ?thesis using rep new by (auto simp: mk_list_rep_def)
qed

lemma mk_list_del_rep:
  assumes rep: "mk_list_rep h head (us @ e # vs)"
  shows "mk_list_rep (mk_list_del e h) head (us @ vs)"
proof -
  define as where "as = butlast (head # us)"
  define p where "p = last (head # us)"
  define n where "n = hd (vs @ [head])"
  define bs where "bs = tl (vs @ [head])"
  have ring: "head # us = as @ [p]" "vs @ [head] = n # bs"
    by (simp_all add: as_def p_def n_def bs_def)
  have "chain h ((head # us) @ e # (vs @ [head]))"
    using rep by (simp add: mk_list_rep_def)
  then have c: "chain h (as @ p # e # n # bs)"
    unfolding ring by simp
  then have links: "l_prev h e = p" "l_next h e = n"
    and c1: "chain h (as @ [p])" and c2: "chain h (n # bs)"
    by (simp_all add: chain_append)
  have "distinct ((head # us) @ e # vs)" using rep by (auto simp: mk_list_rep_def)
  then have d: "distinct (as @ p # e # vs)" unfolding ring by simp
  let ?h = "mk_list_del e h"
  have eq: "?h = set_next e 0 (set_prev e 0 (set_prev n p (set_next p n h)))"
    by (simp add: mk_list_del_def list_unlink_between_def links)
  have n_in: "n \<in> set (head # vs)" using ring(2) by (cases vs) auto
  have head_hd: "head = hd (as @ [p])" using ring(1) by (metis list.sel(1))
  have ne: "e \<noteq> head" "e \<notin> set us" "e \<notin> set vs" "head \<notin> set us" "head \<notin> set vs"
    "set us \<inter> set vs = {}" "distinct us" "distinct vs"
    using rep by (auto simp: mk_list_rep_def)
  have tl_as: "set (tl (as @ [p])) = set us" using ring(1) by (metis list.sel(3))
  have p_in: "p \<in> set (head # us)" by (simp add: p_def)
  have but_bs: "set (butlast (n # bs)) = set vs" using ring(2) by (metis butlast_snoc)
  have tl_bs: "n \<notin> set bs" "e \<notin> set bs"
    using ring(2) ne by (cases vs; auto)+
  have "chain ?h (as @ [p])"
    unfolding eq using c1 d ne n_in tl_as
    by (subst chain_frame, force simp: butlast_append)+ (auto)
  moreover have "chain ?h (n # bs)"
    unfolding eq using c2 ne p_in but_bs tl_bs
    by (subst chain_frame, force)+ auto
  moreover have "l_next ?h p = n" "l_prev ?h n = p"
    unfolding eq using ne p_in n_in by auto
  ultimately have "chain ?h (as @ p # n # bs)" by (simp add: chain_append)
  then have "chain ?h ((head # us) @ (vs @ [head]))"
    unfolding ring by simp
  then show ?thesis using rep by (auto simp: mk_list_rep_def)
qed

lemma chain_cong:
  "(\<And>x. x \<in> set ns \<Longrightarrow> l_next h' x = l_next h x \<and> l_prev h' x = l_prev h x) \<Longrightarrow>
     chain h' ns = chain h ns"
  by (induction h ns rule: chain.induct) auto

lemma mk_list_rep_cong:
  "(\<And>x. x \<in> set (head # xs) \<Longrightarrow> l_next h' x = l_next h x \<and> l_prev h' x = l_prev h x) \<Longrightarrow>
     mk_list_rep h' head xs = mk_list_rep h head xs"
  unfolding mk_list_rep_def by (subst chain_cong [of _ h' h]) auto

text \<open>An operation on one ring leaves every disjoint ring as it was.\<close>

lemma mk_list_add_other:
  assumes "mk_list_rep h head xs" "mk_list_rep h other ys"
    and "set (head # xs) \<inter> set (other # ys) = {}" "new \<notin> set (other # ys)"
  shows "mk_list_rep (mk_list_add new head h) other ys"
proof -
  have "l_prev h head \<in> set (head # xs)"
    using rep_last [OF assms(1)] by simp
  with assms(3,4) show ?thesis
    by (subst mk_list_rep_cong [of _ _ _ h]) (use assms(2) in
        \<open>auto simp: mk_list_add_def list_link_between_def Let_def\<close>)
qed

lemma rep_neighbours:
  assumes "mk_list_rep h head xs" "e \<in> set xs"
  shows "l_prev h e \<in> set (head # xs)" "l_next h e \<in> set (head # xs)"
proof -
  obtain us vs where xs: "xs = us @ e # vs" using assms(2) by (metis split_list)
  have "chain h ((head # us) @ e # (vs @ [head]))"
    using assms(1) xs by (simp add: mk_list_rep_def)
  then have c: "chain h (butlast (head # us) @ last (head # us) # e # (vs @ [head]))"
    by (metis append.assoc append_Cons append_Nil append_butlast_last_id list.distinct(1))
  then have "l_prev h e = last (head # us)" "chain h (e # vs @ [head])"
    by (simp_all only: chain_append)
  moreover from this(2) have "l_next h e = hd (vs @ [head])" by (cases vs) auto
  ultimately have "l_prev h e = last (head # us)" "l_next h e = hd (vs @ [head])" by simp_all
  then show "l_prev h e \<in> set (head # xs)" "l_next h e \<in> set (head # xs)"
    by (cases vs; auto simp: xs)+
qed

lemma mk_list_del_other:
  assumes "mk_list_rep h head xs" "e \<in> set xs" "mk_list_rep h other ys"
    and "set (head # xs) \<inter> set (other # ys) = {}"
  shows "mk_list_rep (mk_list_del e h) other ys"
  using rep_neighbours [OF assms(1,2)] assms
  by (subst mk_list_rep_cong [of _ _ _ h])
     (auto simp: mk_list_del_def list_unlink_between_def Let_def)

lemma mk_list_del_unlinks: "l_prev (mk_list_del e h) e = 0 \<and> l_next (mk_list_del e h) e = 0"
  by (simp add: mk_list_del_def Let_def)

subsection \<open>Traversal\<close>

lemma foreach_from_chain:
  "chain h (ys @ [head]) \<Longrightarrow> head \<notin> set ys \<Longrightarrow> length ys < fuel \<Longrightarrow>
     foreach_from fuel h head (hd (ys @ [head])) = Some ys"
proof (induction ys arbitrary: fuel)
  case Nil
  then show ?case by (cases fuel) auto
next
  case (Cons y ys)
  then obtain f where f: "fuel = Suc f" by (cases fuel) auto
  have "chain h (ys @ [head])" "l_next h y = hd (ys @ [head])"
    using Cons.prems(1) by (cases ys; auto)+
  with Cons f show ?case by auto
qed

lemma mk_list_foreach_rep:
  assumes "mk_list_rep h head xs" "length xs < fuel"
  shows "mk_list_foreach fuel h head = Some xs"
proof -
  have "chain h (xs @ [head])" using assms(1) by (cases xs) (auto simp: mk_list_rep_def)
  with assms foreach_from_chain [of h xs head fuel] rep_first [OF assms(1)] show ?thesis
    by (auto simp: mk_list_foreach_def mk_list_rep_def)
qed

lemma foreach_safe_del:
  "mk_list_rep h head xs \<Longrightarrow> length xs < fuel \<Longrightarrow>
     \<exists>h'. foreach_safe_from fuel mk_list_del h head (hd (xs @ [head])) (hd (tl (xs @ [head]) @ [l_next h head]))
            = Some h' \<and> mk_list_rep h' head []"
proof (induction xs arbitrary: h fuel)
  case Nil
  then obtain f where "fuel = Suc f" by (cases fuel) auto
  with Nil show ?case by simp
next
  case (Cons x xs)
  then obtain f where f: "fuel = Suc f" "length xs < f" by (cases fuel) auto
  have rep': "mk_list_rep (mk_list_del x h) head xs"
    using mk_list_del_rep [of h head "[]" x xs] Cons.prems(1) by simp
  have x: "x \<noteq> head" using Cons.prems(1) by (auto simp: mk_list_rep_def)
  have nx: "hd (tl ((x # xs) @ [head]) @ [l_next h head]) = hd (xs @ [head])"
    by (cases xs) auto
  have nn: "l_next (mk_list_del x h) (hd (xs @ [head]))
      = hd (tl (xs @ [head]) @ [l_next (mk_list_del x h) head])"
  proof (cases xs)
    case Nil
    then show ?thesis by simp
  next
    case (Cons y ys)
    then have "chain (mk_list_del x h) (head # y # ys @ [head])"
      using rep' by (simp add: mk_list_rep_def)
    then show ?thesis using Cons by (cases ys) auto
  qed
  have "foreach_safe_from fuel mk_list_del h head (hd ((x # xs) @ [head]))
      (hd (tl ((x # xs) @ [head]) @ [l_next h head]))
    = foreach_safe_from f mk_list_del (mk_list_del x h) head (hd (xs @ [head]))
        (hd (tl (xs @ [head]) @ [l_next (mk_list_del x h) head]))"
    unfolding nx f(1) using x by (simp add: Let_def nn)
  then show ?case using Cons.IH [OF rep' f(2)] by simp
qed

section \<open>The interface\<close>

text \<open>
  What the users of the list rely on. \<open>move\<close> is the scheduler's idiom (unlink a node from
  one queue, append it to another), \<open>fill\<close> the way every list of the server is built.
\<close>

locale dlink =
  fixes rep :: "'h \<Rightarrow> 'a \<Rightarrow> 'a list \<Rightarrow> bool"
    and add :: "'a \<Rightarrow> 'a \<Rightarrow> 'h \<Rightarrow> 'h"
    and del :: "'a \<Rightarrow> 'h \<Rightarrow> 'h"
    and walk :: "nat \<Rightarrow> 'h \<Rightarrow> 'a \<Rightarrow> 'a list option"
    and valid :: "'a \<Rightarrow> bool"
  assumes rep_distinct: "rep h l xs \<Longrightarrow> distinct (l # xs)"
    and rep_add: "rep h l xs \<Longrightarrow> new \<notin> set (l # xs) \<Longrightarrow> valid new \<Longrightarrow> rep (add new l h) l (xs @ [new])"
    and rep_del: "rep h l (us @ e # vs) \<Longrightarrow> rep (del e h) l (us @ vs)"
    and rep_add_other: "rep h l xs \<Longrightarrow> rep h other ys \<Longrightarrow>
      set (l # xs) \<inter> set (other # ys) = {} \<Longrightarrow> new \<notin> set (other # ys) \<Longrightarrow>
      rep (add new l h) other ys"
    and rep_del_other: "rep h l xs \<Longrightarrow> e \<in> set xs \<Longrightarrow> rep h other ys \<Longrightarrow>
      set (l # xs) \<inter> set (other # ys) = {} \<Longrightarrow> rep (del e h) other ys"
    and rep_valid: "rep h l xs \<Longrightarrow> x \<in> set xs \<Longrightarrow> valid x"
    and rep_walk: "rep h l xs \<Longrightarrow> length xs < fuel \<Longrightarrow> walk fuel h l = Some xs"
begin

lemma walk_after_add:
  assumes "rep h l xs" "new \<notin> set (l # xs)" "valid new" "Suc (length xs) < fuel"
  shows "walk fuel (add new l h) l = Some (xs @ [new])"
  using rep_walk [OF rep_add [OF assms(1-3)], of fuel] assms(4) by simp

lemma del_added:
  assumes "rep h l xs" "new \<notin> set (l # xs)" "valid new"
  shows "rep (del new (add new l h)) l xs"
  using rep_del [of "add new l h" l xs new "[]"] rep_add [OF assms] by simp

lemma move:
  assumes a: "rep h A (us @ e # vs)" and b: "rep h B ys"
    and disj: "set (A # us @ e # vs) \<inter> set (B # ys) = {}"
  shows "rep (add e B (del e h)) A (us @ vs) \<and> rep (add e B (del e h)) B (ys @ [e])"
proof -
  have va: "rep (del e h) A (us @ vs)" by (rule rep_del [OF a])
  have vb: "rep (del e h) B ys"
    by (rule rep_del_other [OF a _ b disj]) simp
  have e: "e \<notin> set (A # us @ vs)" "e \<notin> set (B # ys)"
    using rep_distinct [OF a] disj by auto
  have "valid e" using rep_valid [OF a] by simp
  then show ?thesis
    using rep_add [OF vb e(2)] rep_add_other [OF vb va] disj e(1) by auto
qed

lemma fill:
  "rep h l xs \<Longrightarrow> distinct ns \<Longrightarrow> set ns \<inter> set (l # xs) = {} \<Longrightarrow> \<forall>n\<in>set ns. valid n \<Longrightarrow>
     rep (fold (\<lambda>n. add n l) ns h) l (xs @ ns)"
proof (induction ns arbitrary: h xs)
  case Nil
  then show ?case by simp
next
  case (Cons n ns)
  then have "rep (add n l h) l (xs @ [n])" by (auto intro: rep_add)
  from Cons.IH [OF this] Cons.prems show ?case by auto
qed

end

interpretation heap_list: dlink mk_list_rep mk_list_add mk_list_del mk_list_foreach "\<lambda>a. a \<noteq> 0"
proof unfold_locales
  show "distinct (l # xs)" if "mk_list_rep h l xs" for h l xs
    using that by (simp add: mk_list_rep_def)
  show "x \<noteq> 0" if "mk_list_rep h l xs" "x \<in> set xs" for h l xs x
    using that by (metis list.set_intros(2) mk_list_rep_def)
qed (fact mk_list_add_rep mk_list_del_rep mk_list_add_other mk_list_del_other mk_list_foreach_rep)+

section \<open>Properties\<close>

text \<open>
  Building a list with \<open>mk_list_init\<close> and any sequence of \<open>mk_list_add\<close> of distinct
  fresh nodes, then walking it with \<open>mk_list_foreach\<close>, visits exactly those nodes in
  insertion order; and \<open>mk_list_is_empty\<close> returns 0 exactly when none was added.
\<close>

theorem mk_list_build_walk:
  assumes "distinct (head # ns)" "0 \<notin> set (head # ns)" "length ns < fuel"
  shows "mk_list_foreach fuel (fold (\<lambda>n. mk_list_add n head) ns (mk_list_init head h)) head = Some ns
    \<and> (mk_list_is_empty (fold (\<lambda>n. mk_list_add n head) ns (mk_list_init head h)) head = 0 \<longleftrightarrow> ns = [])"
proof -
  have "mk_list_rep (fold (\<lambda>n. mk_list_add n head) ns (mk_list_init head h)) head ([] @ ns)"
    by (rule heap_list.fill [OF mk_list_init_rep]) (use assms in \<open>auto intro: gr0I\<close>)
  then show ?thesis
    using heap_list.rep_walk assms(3) mk_list_is_empty_iff by simp
qed

theorem mk_list_build_walk_witness:
  "mk_list_foreach 5 (fold (\<lambda>n. mk_list_add n 1) [2, 3, 4]
     (mk_list_init 1 \<lparr>l_prev = (\<lambda>_. 0), l_next = (\<lambda>_. 0)\<rparr>)) 1 = Some [2, 3, 4]"
  using mk_list_build_walk [of 1 "[2, 3, 4]" 5 "\<lparr>l_prev = (\<lambda>_. 0), l_next = (\<lambda>_. 0)\<rparr>"] by simp

text \<open>
  C7: moving a node between two disjoint lists, the scheduler's idiom of \<open>mk_list_del\<close>
  followed by \<open>mk_list_add\<close>, removes it from the first list, appends it to the second and
  keeps both rings well formed.
\<close>

theorem mk_list_move:
  assumes "mk_list_rep h A (us @ e # vs)" "mk_list_rep h B ys"
    and "set (A # us @ e # vs) \<inter> set (B # ys) = {}"
  shows "mk_list_rep (mk_list_add e B (mk_list_del e h)) A (us @ vs)
    \<and> mk_list_rep (mk_list_add e B (mk_list_del e h)) B (ys @ [e])"
  by (rule heap_list.move [OF assms])

definition two_rings :: mk_list where
  "two_rings = fold (\<lambda>n. mk_list_add n 1) [2, 3] (mk_list_init 1 (mk_list_init 10
     \<lparr>l_prev = (\<lambda>_. 0), l_next = (\<lambda>_. 0)\<rparr>))"

theorem mk_list_move_witness:
  "mk_list_rep (mk_list_add 2 10 (mk_list_del 2 two_rings)) 1 [3]
    \<and> mk_list_rep (mk_list_add 2 10 (mk_list_del 2 two_rings)) 10 [2]"
proof -
  have "mk_list_rep two_rings 1 [2, 3]" "mk_list_rep two_rings 10 []"
    by (simp_all add: two_rings_def mk_list_rep_def mk_list_add_def mk_list_init_def
        list_link_between_def Let_def)
  then show ?thesis using mk_list_move [of two_rings 1 "[]" 2 "[3]" 10 "[]"] by simp
qed

text \<open>
  C13: \<open>mk_list_foreach_safe\<close> with a body that unlinks the visited node (the loop of
  \<open>mk_request_free_list\<close> and \<open>mk_string_split_free\<close>) terminates and empties the list.
\<close>

theorem mk_list_foreach_safe_empties:
  assumes "mk_list_rep h head xs" "length xs < fuel"
  shows "\<exists>h'. mk_list_foreach_safe fuel mk_list_del h head = Some h' \<and> mk_list_rep h' head []"
proof -
  have "l_next h (l_next h head) = hd (tl (xs @ [head]) @ [l_next h head])"
    using assms(1) by (cases xs; cases "tl xs") (auto simp: mk_list_rep_def)
  with foreach_safe_del [OF assms] rep_first [OF assms(1)] show ?thesis
    by (simp add: mk_list_foreach_safe_def Let_def)
qed

theorem mk_list_foreach_safe_empties_witness:
  "\<exists>h'. mk_list_foreach_safe 3 mk_list_del two_rings 1 = Some h' \<and> mk_list_rep h' 1 []"
proof -
  have "mk_list_rep two_rings 1 [2, 3]"
    by (simp add: two_rings_def mk_list_rep_def mk_list_add_def mk_list_init_def
        list_link_between_def Let_def)
  then show ?thesis using mk_list_foreach_safe_empties [of two_rings 1 "[2, 3]" 3] by simp
qed

end
