(* ===== verification/Mk_Memory.thy ===== *)
theory Mk_Memory
  imports Mk_Prelude
begin

text \<open>
  The counted pointers of \<^verbatim>\<open>src/mk_memory.c\<close> and \<^verbatim>\<open>src/include/mk_memory.h\<close>: \<open>p_data\<close> is
  the view the pointer gives (\<open>None\<close> for NULL), \<open>p_len\<close> the length field, an unsigned 64-bit
  number that need not fit the view.
\<close>

record mk_pointer =
  p_data :: "cstr option"
  p_len :: nat

definition ulong :: "int \<Rightarrow> nat" where
  "ulong x = nat (x mod 18446744073709551616)"

definition mk_pointer_reset :: mk_pointer where
  "mk_pointer_reset = \<lparr>p_data = None, p_len = 0\<rparr>"

definition mk_pointer_create :: "cstr \<Rightarrow> nat \<Rightarrow> int \<Rightarrow> mk_pointer" where
  "mk_pointer_create buf init end =
     \<lparr>p_data = Some (drop init buf),
      p_len = (if int init \<noteq> end then ulong (end - int init) else 1)\<rparr>"

definition mk_pointer_set :: "cstr \<Rightarrow> mk_pointer" where
  "mk_pointer_set s = \<lparr>p_data = Some s, p_len = strlen s\<rparr>"

text \<open>\<open>mk_pointer_init\<close> of a literal, which holds no NUL of its own.\<close>

definition mk_pointer_init :: "cstr \<Rightarrow> mk_pointer" where
  "mk_pointer_init s = \<lparr>p_data = Some s, p_len = length s\<rparr>"

definition view :: "mk_pointer \<Rightarrow> cstr" where
  "view p = (case p_data p of None \<Rightarrow> [] | Some d \<Rightarrow> d)"

text \<open>The bytes a counted pointer covers.\<close>

definition p_bytes :: "mk_pointer \<Rightarrow> cstr" where
  "p_bytes p = take (p_len p) (view p)"

text \<open>A copy of the covered bytes, terminated: \<open>p_len + 1\<close> bytes of new memory.\<close>

definition mk_pointer_to_buf :: "mk_pointer \<Rightarrow> cstr" where
  "mk_pointer_to_buf p = p_bytes p @ [NUL]"

definition mk_pointer_free :: "mk_pointer \<Rightarrow> mk_pointer" where
  "mk_pointer_free p = p\<lparr>p_len := 0\<rparr>"

lemma view_simps [simp]:
  "view \<lparr>p_data = Some d, p_len = n\<rparr> = d" "view \<lparr>p_data = None, p_len = n\<rparr> = []"
  by (simp_all add: view_def)

lemma p_bytes_init [simp]: "p_bytes (mk_pointer_init s) = s"
  by (simp add: p_bytes_def mk_pointer_init_def)

lemma ulong_id: "0 \<le> x \<Longrightarrow> x < 18446744073709551616 \<Longrightarrow> ulong x = nat x"
  by (simp add: ulong_def)

lemma p_bytes_create:
  assumes "int init < end" "end \<le> int (length buf)" "length buf < 18446744073709551616"
  shows "p_bytes (mk_pointer_create buf init end) = take (nat end - init) (drop init buf)"
  using assms by (simp add: p_bytes_def mk_pointer_create_def ulong_id nat_diff_distrib)

end
