(* ===== verification/Mk_String.thy ===== *)
theory Mk_String
  imports Mk_Memory
begin

text \<open>
  \<^verbatim>\<open>src/mk_string.c\<close>: the search routines, the word splitter, trimming, number printing and
  substring copies. Searches return an offset or \<open>-1\<close>; a function that may return NULL
  returns an option; a function that rewrites its buffer returns the new buffer.
\<close>

section \<open>Searching\<close>

datatype str_case = MK_STR_SENSITIVE | MK_STR_INSENSITIVE

definition eq_of :: "str_case \<Rightarrow> char \<Rightarrow> char \<Rightarrow> bool" where
  "eq_of sensitive = (case sensitive of MK_STR_SENSITIVE \<Rightarrow> (=) | MK_STR_INSENSITIVE \<Rightarrow> case_eq)"

text \<open>
  The \<open>do ... while\<close> loop of \<open>_mk_string_search\<close>: \<open>i\<close> counts the positions tried, \<open>p\<close> is the
  view of the haystack at position \<open>i\<close>.
\<close>

fun search_loop :: "str_case \<Rightarrow> cstr \<Rightarrow> nat \<Rightarrow> cstr \<Rightarrow> nat \<Rightarrow> int" where
  "search_loop sensitive search len [] i =
     (if match_at (eq_of sensitive) (cstring search) [] then int i else -1)"
| "search_loop sensitive search len (c # p) i =
     (if match_at (eq_of sensitive) (cstring search) (c # p) then int i
      else if len \<le> i + 1 then -1
      else if c = NUL then -1
      else search_loop sensitive search len p (i + 1))"

definition string_search_base :: "cstr \<Rightarrow> cstr \<Rightarrow> str_case \<Rightarrow> int \<Rightarrow> int" where
  "string_search_base string search sensitive len =
     (if len \<le> 0 then
        (case sensitive of
           MK_STR_SENSITIVE \<Rightarrow> pos_of (strstr string search)
         | MK_STR_INSENSITIVE \<Rightarrow> pos_of (strcasestr string search))
      else search_loop sensitive search (nat len) string 0)"

definition mk_string_char_search :: "cstr \<Rightarrow> char \<Rightarrow> int \<Rightarrow> int" where
  "mk_string_char_search string c len =
     pos_of (memchr string c (if len < 0 then strlen string else nat len))"

definition mk_string_char_search_r :: "cstr \<Rightarrow> char \<Rightarrow> int \<Rightarrow> int" where
  "mk_string_char_search_r string c len =
     pos_of (memrchr string c (if len \<le> 0 then strlen string else nat len))"

definition mk_string_search :: "cstr \<Rightarrow> cstr \<Rightarrow> str_case \<Rightarrow> int" where
  "mk_string_search haystack needle sensitive =
     string_search_base haystack needle sensitive (-1)"

definition mk_string_search_n :: "cstr \<Rightarrow> cstr \<Rightarrow> str_case \<Rightarrow> int \<Rightarrow> int" where
  "mk_string_search_n haystack needle sensitive len =
     string_search_base haystack needle sensitive len"

definition mk_string_casestr :: "cstr option \<Rightarrow> cstr option \<Rightarrow> cstr option" where
  "mk_string_casestr heystack needle =
     (case (heystack, needle) of
        (Some h, Some n) \<Rightarrow> map_option (\<lambda>k. drop k h) (strcasestr h n)
      | _ \<Rightarrow> None)"

definition mk_string_dup :: "cstr option \<Rightarrow> cstr option" where
  "mk_string_dup s = map_option cstring s"

section \<open>Substrings and words\<close>

text \<open>
  \<open>mk_string_copy_substr\<close>: NULL when the range is reversed; otherwise \<open>pos_end - pos_init\<close>
  bytes and a terminator, in an allocation of at least four bytes.
\<close>

definition mk_string_copy_substr :: "cstr \<Rightarrow> int \<Rightarrow> int \<Rightarrow> cstr option" where
  "mk_string_copy_substr string pos_init pos_end =
     (if pos_init > pos_end then None
      else Some (take (nat (pos_end - pos_init)) (drop (nat pos_init) string)))"

record mk_string_line =
  sl_val :: cstr
  sl_len :: nat

function split_loop :: "cstr \<Rightarrow> nat \<Rightarrow> nat \<Rightarrow> mk_string_line list" where
  "split_loop line len i =
     (if i < len then
        (let end = mk_string_char_search (drop i line) SP (int (len - i)) in
         if 0 \<le> end \<and> end + int i < int len then
           (if int i = end + int i then split_loop line len (i + 1)
            else \<lparr>sl_val = the (mk_string_copy_substr line (int i) (end + int i)),
                   sl_len = nat (end + int i) - i\<rparr>
                   # split_loop line len (nat (end + int i) + 1))
         else [\<lparr>sl_val = the (mk_string_copy_substr line (int i) (int len)), sl_len = len - i\<rparr>])
      else [])"
  by pat_completeness auto
termination
  by (relation "measure (\<lambda>(line, len, i). len - i)") auto

declare split_loop.simps [simp del]

definition mk_string_split_line :: "cstr option \<Rightarrow> mk_string_line list option" where
  "mk_string_split_line line = map_option (\<lambda>l. split_loop l (strlen l) 0) line"

section \<open>Buffers\<close>

text \<open>\<open>vsnprintf\<close> into \<open>alloc\<close> bytes: what fits, terminated; the return value is the full length.\<close>

definition vsnprintf :: "nat \<Rightarrow> cstr \<Rightarrow> cstr \<times> nat" where
  "vsnprintf alloc text = (take (alloc - 1) text @ [NUL], length text)"

text \<open>
  \<open>mk_string_build\<close>, given the text its format and arguments denote: 64 bytes first, a second
  pass after \<open>realloc\<close> when they do not hold the text.
\<close>

definition mk_string_build :: "cstr \<Rightarrow> cstr \<times> nat" where
  "mk_string_build text =
     (let (buffer, length1) = vsnprintf 64 text in
      if 64 \<le> length1 then vsnprintf (length1 + 1) text else (buffer, length1))"

text \<open>
  \<open>mk_string_trim\<close>: the return value and the buffer after it ran. \<open>left\<close> is the first byte
  that is not white space, \<open>right\<close> moves back from the last byte.
\<close>

fun trim_right :: "cstr \<Rightarrow> nat \<Rightarrow> nat" where
  "trim_right buf 0 = 0"
| "trim_right buf (Suc r) = (if c_isspace (rd_at buf (Suc r)) then trim_right buf r else Suc r)"

definition mk_string_trim :: "cstr option \<Rightarrow> int \<times> cstr option" where
  "mk_string_trim str =
     (case str of None \<Rightarrow> (-1, None)
      | Some buf \<Rightarrow>
          (let len = strlen buf in
           if len = 0 then (0, Some buf)
           else
             let left = length (takeWhile c_isspace buf);
                 right = len - 1
             in if right < left then (-1, Some (NUL # drop 1 buf))
                else
                  let r = trim_right buf right;
                      n = r - left + 1
                  in (0, Some (take n (drop left buf) @ NUL # drop (n + 1) buf))))"

text \<open>
  \<open>mk_string_itop\<close>: the digits least significant first, the sign, an in-place reversal by
  swapping from both ends, and CRLF. The result is the new text of the pointer.
\<close>

fun itop_digits :: "nat \<Rightarrow> cstr" where
  "itop_digits u =
     mkchar (48 + u mod 10) # (if u div 10 = 0 then [] else itop_digits (u div 10))"

declare itop_digits.simps [simp del]

function swap_ends :: "cstr \<Rightarrow> nat \<Rightarrow> nat \<Rightarrow> cstr" where
  "swap_ends b i j = (if i < j then swap_ends (b[j := b ! i, i := b ! j]) (i + 1) (j - 1) else b)"
  by pat_completeness auto
termination
  by (relation "measure (\<lambda>(b, i, j). j - i)") auto

declare swap_ends.simps [simp del]

definition mk_string_itop :: "int \<Rightarrow> mk_pointer" where
  "mk_string_itop value =
     (let w = itop_digits (nat \<bar>value\<bar>) @ (if value < 0 then ''-'' else []);
          s = swap_ends w 0 (length w - 1) @ [CR, LF]
      in \<lparr>p_data = Some (s @ [NUL]), p_len = length s\<rparr>)"

definition mk_string_tolower :: "cstr \<Rightarrow> cstr" where
  "mk_string_tolower s = map c_tolower (cstring s)"

section \<open>Lemmas\<close>

lemma eq_of_simps [simp]:
  "eq_of MK_STR_SENSITIVE = (=)" "eq_of MK_STR_INSENSITIVE = case_eq"
  by (simp_all add: eq_of_def)

lemma eq_of_NUL: "s \<noteq> NUL \<Longrightarrow> \<not> eq_of m s NUL"
  by (cases m) (auto simp: case_eq_def, metis c_toupper_NUL)

lemma match_at_cstring:
  "NUL \<notin> set s \<Longrightarrow> match_at (eq_of m) s v \<longleftrightarrow> match_at (eq_of m) s (cstring v)"
  by (induction "eq_of m" s v rule: match_at.induct) (auto simp: eq_of_NUL)

text \<open>
  The reference for every search routine: the least position of the C string where the needle
  matches.
\<close>

definition first_match :: "str_case \<Rightarrow> cstr \<Rightarrow> cstr \<Rightarrow> nat option" where
  "first_match m h n = find_sub (eq_of m) (cstring n) (cstring h)"

lemma search_loop_first_match:
  "search_loop m n len h i =
     (case first_match m h n of
        Some k \<Rightarrow> if k = 0 \<or> i + k < len then int (i + k) else -1
      | None \<Rightarrow> -1)"
proof (induction m n len h i rule: search_loop.induct)
  case (1 m n len i)
  then show ?case by (cases "cstring n") (auto simp: first_match_def)
next
  case (2 m n len c p i)
  let ?M = "match_at (eq_of m) (cstring n)"
  have M: "?M (c # p) = ?M (cstring (c # p))" by (rule match_at_cstring) simp
  show ?case
  proof (cases "c = NUL")
    case True
    with M show ?thesis by (cases "cstring n") (auto simp: first_match_def eq_of_NUL)
  next
    case False
    then have fm: "first_match m (c # p) n =
        (if ?M (c # p) then Some 0 else map_option Suc (first_match m p n))"
      using M by (simp add: first_match_def)
    show ?thesis
    proof (cases "?M (c # p) \<or> len \<le> i + 1")
      case True
      then show ?thesis using fm by (auto split: option.splits)
    next
      case False
      with 2 \<open>c \<noteq> NUL\<close> fm show ?thesis by (auto split: option.splits)
    qed
  qed
qed

lemma mk_string_search_first_match:
  "mk_string_search h n m = pos_of (first_match m h n)"
  by (cases m) (simp_all add: mk_string_search_def string_search_base_def strstr_def
      strcasestr_def first_match_def)

lemma mk_string_search_n_first_match:
  "0 < len \<Longrightarrow> mk_string_search_n h n m len =
     (case first_match m h n of
        Some k \<Rightarrow> if k = 0 \<or> int k < len then int k else -1
      | None \<Rightarrow> -1)"
  by (auto simp: mk_string_search_n_def string_search_base_def search_loop_first_match
      split: option.splits)

subsection \<open>Splitting\<close>

fun split_on :: "char \<Rightarrow> cstr \<Rightarrow> cstr list" where
  "split_on c [] = [[]]"
| "split_on c (x # xs) =
     (if x = c then [] # split_on c xs
      else case split_on c xs of [] \<Rightarrow> [[x]] | w # ws \<Rightarrow> (x # w) # ws)"

lemma split_on_ne [simp]: "split_on c s \<noteq> []"
  by (induction s) (auto split: list.splits)

lemma split_on_None: "c \<notin> set s \<Longrightarrow> split_on c s = [s]"
  by (induction s) auto

lemma split_on_Some:
  "find_index ((=) c) s = Some k \<Longrightarrow> split_on c s = take k s # split_on c (drop (Suc k) s)"
proof (induction s arbitrary: k)
  case Nil
  then show ?case by simp
next
  case (Cons x xs)
  show ?case
  proof (cases "x = c")
    case True
    with Cons.prems show ?thesis by auto
  next
    case False
    with Cons.prems obtain j where "find_index ((=) c) xs = Some j" "k = Suc j" by auto
    with Cons.IH False show ?thesis by auto
  qed
qed

lemma split_on_no_sep: "w \<in> set (split_on c s) \<Longrightarrow> c \<notin> set w"
  by (induction s arbitrary: w) (auto split: list.splits if_splits)

lemma split_loop_words:
  "len \<le> length line \<Longrightarrow>
     map sl_val (split_loop line len i) = filter (\<lambda>w. w \<noteq> []) (split_on SP (drop i (take len line)))
     \<and> (\<forall>x\<in>set (split_loop line len i). sl_len x = length (sl_val x))"
proof (induction line len i rule: split_loop.induct)
  case (1 line len i)
  let ?w = "drop i (take len line)"
  show ?case
  proof (cases "i < len")
    case False
    then show ?thesis by (simp add: split_loop.simps)
  next
    case i: True
    define r where "r = find_index ((=) SP) ?w"
    have e: "mk_string_char_search (drop i line) SP (int (len - i)) = pos_of r"
      by (simp add: mk_string_char_search_def memchr_def r_def drop_take)
    show ?thesis
    proof (cases r)
      case None
      then have "split_on SP ?w = [?w]" by (auto simp: r_def intro!: split_on_None)
      moreover have "?w \<noteq> []" using i "1.prems" by simp
      ultimately show ?thesis using i "1.prems" e None
        by (simp add: split_loop.simps [of line len i] Let_def mk_string_copy_substr_def
            drop_take nat_diff_distrib)
    next
      case (Some k)
      then have k: "k < length ?w" and sp: "split_on SP ?w = take k ?w # split_on SP (drop (Suc k) ?w)"
        using find_index_SomeD [of "(=) SP" ?w k] split_on_Some [of SP ?w k] by (auto simp: r_def)
      then have kl: "i + k < len" using "1.prems" by simp
      show ?thesis
      proof (cases "k = 0")
        case True
        have "split_loop line len i = split_loop line len (i + 1)"
          using i e Some kl True by (simp add: split_loop.simps [of line len i] Let_def)
        moreover have "drop (Suc k) ?w = drop (i + 1) (take len line)" using True by simp
        ultimately show ?thesis
          using "1.IH"(1) [OF i refl] e Some kl True sp "1.prems" by simp
      next
        case False
        have eq: "split_loop line len i =
            \<lparr>sl_val = take k (drop i line), sl_len = k\<rparr> # split_loop line len (i + k + 1)"
          using i e Some kl False
          by (simp add: split_loop.simps [of line len i] Let_def mk_string_copy_substr_def
              nat_add_distrib ac_simps)
        have tk: "take k ?w = take k (drop i line)" using kl by (simp add: drop_take)
        have ne: "take k (drop i line) \<noteq> []" using False kl "1.prems" by simp
        have ln: "length (take k (drop i line)) = k" using kl "1.prems" by simp
        have dr: "drop (Suc k) ?w = drop (i + k + 1) (take len line)" by (simp add: ac_simps)
        have ih: "map sl_val (split_loop line len (i + k + 1)) =
            filter (\<lambda>w. w \<noteq> []) (split_on SP (drop (i + k + 1) (take len line)))
            \<and> (\<forall>x\<in>set (split_loop line len (i + k + 1)). sl_len x = length (sl_val x))"
          using "1.IH"(2) [OF i refl] e Some kl False "1.prems"
          by (simp add: nat_add_distrib ac_simps)
        show ?thesis unfolding eq sp tk dr using ih ne ln by auto
      qed
    qed
  qed
qed

lemma take_strlen: "take (strlen l) l = cstring l"
  by (induction l) (auto simp: strlen_def)

subsection \<open>Printing numbers\<close>

lemma swap_ends_rev:
  "swap_ends (xs @ m @ ys) (length xs) (length xs + length m - 1) = xs @ rev m @ ys"
proof (induction m arbitrary: xs ys rule: length_induct)
  case (1 m)
  show ?case
  proof (cases "length m \<le> 1")
    case True
    then have "rev m = m" "\<not> length xs < length xs + length m - 1" by (cases m; auto)+
    then show ?thesis by (subst swap_ends.simps) simp
  next
    case False
    then obtain a m1 where m1: "m = a # m1" "m1 \<noteq> []" by (cases m) auto
    then obtain m' z where m: "m = a # m' @ [z]" by (cases m1 rule: rev_cases) auto
    have ih: "swap_ends ((xs @ [z]) @ m' @ (a # ys)) (length (xs @ [z]))
        (length (xs @ [z]) + length m' - 1) = (xs @ [z]) @ rev m' @ a # ys"
      by (rule "1.IH" [rule_format]) (simp add: m)
    have j: "length xs + length m - 1 = Suc (length xs + length m')" by (simp add: m)
    have "(xs @ m @ ys)[Suc (length xs + length m') := (xs @ m @ ys) ! length xs,
        length xs := (xs @ m @ ys) ! Suc (length xs + length m')] = (xs @ [z]) @ m' @ (a # ys)"
      by (simp add: m list_update_append nth_append)
    then show ?thesis
      unfolding j using ih by (subst swap_ends.simps) (simp add: m)
  qed
qed

lemma swap_ends_all: "swap_ends w 0 (length w - 1) = rev w"
  using swap_ends_rev [of "[]" w "[]"] by simp

lemma itop_digits_val:
  "digits_val acc (rev (itop_digits u) @ r) =
     digits_val (acc * 10 ^ length (itop_digits u) + int u) r"
proof (induction u arbitrary: acc r rule: itop_digits.induct)
  case (1 u)
  have d: "c_isdigit (mkchar (48 + u mod 10))" "byte (mkchar (48 + u mod 10)) = 48 + u mod 10"
    by (auto simp: c_isdigit_def)
  have u: "int u = 10 * int (u div 10) + int (u mod 10)"
    by (metis mult_div_mod_eq of_nat_add of_nat_mult of_nat_numeral)
  show ?case
  proof (cases "u div 10 = 0")
    case True
    then have "u mod 10 = u" by simp
    with True d show ?thesis by (simp add: itop_digits.simps [of u] ac_simps)
  next
    case False
    then show ?thesis
      using 1 [of acc "mkchar (48 + u mod 10) # r"] d
      by (simp add: itop_digits.simps [of u] u algebra_simps)
  qed
qed

lemma itop_digits_set: "set (itop_digits u) \<subseteq> {c. c_isdigit c}"
proof (induction u rule: itop_digits.induct)
  case (1 u)
  then show ?case by (subst itop_digits.simps) (auto simp: c_isdigit_def)
qed

lemma itop_digits_length: "0 < n \<Longrightarrow> u < 10 ^ n \<Longrightarrow> length (itop_digits u) \<le> n"
proof (induction u arbitrary: n rule: itop_digits.induct)
  case (1 u)
  show ?case
  proof (cases "u div 10 = 0")
    case True
    with "1.prems" show ?thesis by (simp add: itop_digits.simps [of u])
  next
    case False
    then have "n \<noteq> 1" using "1.prems" by auto
    then obtain m where m: "n = Suc m" "0 < m" using "1.prems" by (cases n) auto
    then have "u div 10 < 10 ^ m" using "1.prems" by (simp add: less_mult_imp_div_less mult.commute)
    with "1.IH" [OF False m(2)] m False show ?thesis by (simp add: itop_digits.simps [of u])
  qed
qed

lemma itop_ne: "itop_digits u \<noteq> []"
  by (simp add: itop_digits.simps [of u])

lemma cstring_append: "NUL \<notin> set a \<Longrightarrow> cstring (a @ b) = a @ cstring b"
  by (induction a) auto

lemma c_isdigit_facts:
  "c_isdigit c \<Longrightarrow> \<not> c_isspace c \<and> c \<noteq> NUL \<and> c \<noteq> CHR ''-'' \<and> c \<noteq> CHR ''+''"
  by (auto simp: c_isdigit_def c_isspace_def) (simp_all add: byte_def)

lemma not_digit_CR: "\<not> c_isdigit CR" "CR \<noteq> NUL"
  by (simp_all add: c_isdigit_def byte_def)

text \<open>The text of \<open>mk_string_itop\<close>: the decimal numeral and CRLF.\<close>

definition dec_text :: "int \<Rightarrow> cstr" where
  "dec_text v = (if v < 0 then ''-'' else []) @ rev (itop_digits (nat \<bar>v\<bar>))"

lemma mk_string_itop_eq:
  "mk_string_itop v =
     \<lparr>p_data = Some (dec_text v @ [CR, LF, NUL]), p_len = length (dec_text v) + 2\<rparr>"
  unfolding mk_string_itop_def Let_def swap_ends_all by (simp add: dec_text_def)

lemma p_bytes_itop: "p_bytes (mk_string_itop v) = dec_text v @ [CR, LF]"
  by (simp add: mk_string_itop_eq p_bytes_def)

lemma view_itop: "view (mk_string_itop v) = dec_text v @ [CR, LF, NUL]"
  by (simp add: mk_string_itop_eq)

lemma strtol10_dec_append:
  assumes "LONG_MIN \<le> v" "v \<le> LONG_MAX" "\<not> c_isdigit (rd r)"
  shows "strtol10 (dec_text v @ r) = v"
proof -
  let ?d = "rev (itop_digits (nat \<bar>v\<bar>))"
  have dig: "set ?d \<subseteq> {c. c_isdigit c}" using itop_digits_set by simp
  then have nn: "NUL \<notin> set ?d" using c_isdigit_facts by blast
  have cs: "cstring (?d @ r) = ?d @ cstring r" using nn by (simp add: cstring_append)
  obtain h t where h: "?d = h # t" using itop_ne by (metis list.exhaust rev_is_Nil_conv)
  then have hd: "c_isdigit h" using dig by auto
  have "digits_val x (cstring r) = x" for x using assms(3) by (cases r) auto
  then have val: "digits_val 0 (?d @ cstring r) = \<bar>v\<bar>"
    using itop_digits_val [of 0 "nat \<bar>v\<bar>" "cstring r"] by simp
  have cl: "clamp_long v = v" using assms by (simp add: clamp_long_def)
  have nd: "\<not> c_isspace (CHR ''-'')" by (simp add: c_isspace_def byte_def)
  show ?thesis
  proof (cases "v < 0")
    case True
    then have "cstring (dec_text v @ r) = CHR ''-'' # ?d @ cstring r"
      using cs by (simp add: dec_text_def)
    then show ?thesis using val True cl nd by (simp add: strtol10_def)
  next
    case False
    then have "cstring (dec_text v @ r) = ?d @ cstring r"
      using cs by (simp add: dec_text_def)
    then show ?thesis using val False cl hd c_isdigit_facts [OF hd] h
      by (simp add: strtol10_def Let_def)
  qed
qed

lemma strtol10_dec_text:
  assumes "LONG_MIN \<le> v" "v \<le> LONG_MAX" "\<not> c_isdigit c" "c \<noteq> NUL"
  shows "strtol10 (dec_text v @ c # r) = v"
  using strtol10_dec_append [OF assms(1,2), of "c # r"] assms(3) by simp

lemma dec_text_digits: "0 \<le> v \<Longrightarrow> set (dec_text v) \<subseteq> {c. c_isdigit c}"
  using itop_digits_set [of "nat \<bar>v\<bar>"] by (simp add: dec_text_def)

lemma dec_text_ne: "dec_text v \<noteq> []"
  by (simp add: dec_text_def itop_ne)

subsection \<open>Trimming\<close>

definition trim_ref :: "cstr \<Rightarrow> cstr" where
  "trim_ref s = rev (dropWhile c_isspace (rev (dropWhile c_isspace s)))"

lemma trim_right_eq:
  "k \<le> r \<Longrightarrow> \<not> c_isspace (rd_at buf k) \<or> k = 0 \<Longrightarrow> \<forall>j. k < j \<and> j \<le> r \<longrightarrow> c_isspace (rd_at buf j) \<Longrightarrow>
     trim_right buf r = k"
proof (induction r)
  case 0
  then show ?case by simp
next
  case (Suc r)
  then show ?case by (cases "k = Suc r") auto
qed

lemma not_space_NUL [simp]: "\<not> c_isspace NUL"
  by (simp add: c_isspace_def)

lemma takeWhile_space_cstring: "takeWhile c_isspace buf = takeWhile c_isspace (cstring buf)"
  by (induction buf) auto

lemma trim_ref_split:
  assumes "\<exists>c\<in>set s. \<not> c_isspace c"
  obtains pre post where "s = pre @ trim_ref s @ post" "pre = takeWhile c_isspace s"
    "trim_ref s \<noteq> []" "\<not> c_isspace (last (trim_ref s))" "\<forall>c\<in>set post. c_isspace c"
proof -
  define w where "w = dropWhile c_isspace s"
  have "\<not> (\<forall>c\<in>set s. c_isspace c)" using assms by blast
  then have "w \<noteq> []" unfolding w_def by simp
  moreover from this have "\<not> c_isspace (hd w)" unfolding w_def using hd_dropWhile by blast
  ultimately have ex: "\<exists>c\<in>set (rev w). \<not> c_isspace c" by (cases w) auto
  define post where "post = rev (takeWhile c_isspace (rev w))"
  have "rev w = takeWhile c_isspace (rev w) @ dropWhile c_isspace (rev w)" by simp
  then have "w = rev (takeWhile c_isspace (rev w) @ dropWhile c_isspace (rev w))"
    by (metis rev_rev_ident)
  then have "w = rev (dropWhile c_isspace (rev w)) @ post"
    unfolding post_def by (simp only: rev_append)
  then have w: "w = trim_ref s @ post" by (metis trim_ref_def w_def)
  have ne: "dropWhile c_isspace (rev w) \<noteq> []" using ex by auto
  then have "\<not> c_isspace (hd (dropWhile c_isspace (rev w)))" using hd_dropWhile by blast
  then have "\<not> c_isspace (last (trim_ref s))"
    using ne by (simp add: trim_ref_def w_def last_rev)
  moreover have "\<forall>c\<in>set post. c_isspace c" by (auto simp: post_def dest: set_takeWhileD)
  moreover have "s = takeWhile c_isspace s @ trim_ref s @ post"
    using w by (metis w_def takeWhile_dropWhile_id)
  moreover have "trim_ref s \<noteq> []" using ne by (simp add: trim_ref_def w_def)
  ultimately show thesis using that by blast
qed

lemma mk_string_trim_spec:
  assumes "\<exists>c\<in>set (cstring buf). \<not> c_isspace c"
  shows "\<exists>rest. mk_string_trim (Some buf) = (0, Some (trim_ref (cstring buf) @ NUL # rest))"
proof -
  let ?s = "cstring buf"
  obtain pre post where s: "?s = pre @ trim_ref ?s @ post" and pre: "pre = takeWhile c_isspace ?s"
    and ne: "trim_ref ?s \<noteq> []" and lst: "\<not> c_isspace (last (trim_ref ?s))"
    and post: "\<forall>c\<in>set post. c_isspace c"
    using trim_ref_split [OF assms] by blast
  let ?t = "trim_ref ?s"
  have bs: "take (strlen buf) buf = pre @ ?t @ post" using s by (simp add: take_strlen)
  have len: "strlen buf = length pre + length ?t + length post" using s by (metis strlen_def length_append add.assoc)
  have le: "strlen buf \<le> length buf" by simp
  have rd: "rd_at buf j = (pre @ ?t @ post) ! j" if "j < strlen buf" for j
    using order_less_le_trans [OF that le] bs nth_take [OF that, of buf] by (simp add: rd_at_def)
  define k where "k = length pre + length ?t - 1"
  have k: "k < strlen buf" using ne len by (cases ?t) (auto simp: k_def)
  have "rd_at buf k = last ?t"
    using ne rd [OF k] by (cases ?t rule: rev_cases) (auto simp: k_def nth_append)
  moreover have "c_isspace (rd_at buf j)" if "k < j" "j \<le> strlen buf - 1" for j
  proof -
    have j: "j < strlen buf" "length pre + length ?t \<le> j" using that k by (auto simp: k_def)
    then have "rd_at buf j = post ! (j - length pre - length ?t)"
      using rd [OF j(1)] by (auto simp: nth_append)
    then show ?thesis using post j len by simp
  qed
  ultimately have tr: "trim_right buf (strlen buf - 1) = k"
    using lst k by (intro trim_right_eq) auto
  have left: "length (takeWhile c_isspace buf) = length pre"
    using pre takeWhile_space_cstring [of buf] by simp
  have n: "k - length pre + 1 = length ?t" using ne by (cases ?t) (auto simp: k_def)
  define rest where "rest = post @ drop (strlen buf) buf"
  have "buf = take (strlen buf) buf @ drop (strlen buf) buf" by simp
  then have split: "buf = pre @ ?t @ rest" unfolding bs rest_def by simp
  have "take (length ?t) (drop (length pre) buf) = ?t"
    by (subst split) simp
  then show ?thesis
    using k tr left n by (simp add: mk_string_trim_def Let_def) (auto simp: k_def)
qed

section \<open>Properties\<close>

text \<open>
  C14: \<open>mk_string_search_n\<close> with a positive length returns the least position at which the
  needle matches (comparing bytes, or bytes folded to upper case), provided that position is
  among the first \<open>len\<close>, and \<open>-1\<close> when there is none: the hand-written loop agrees with
  \<open>strstr\<close>/\<open>strcasestr\<close> up to the bound on the start position.
\<close>

theorem mk_string_search_n_correct:
  assumes "0 < len"
  shows "mk_string_search_n h n m len =
    (if \<exists>k. int k < len \<and> k \<le> strlen h \<and> match_at (eq_of m) (cstring n) (drop k (cstring h))
     then int (LEAST k. match_at (eq_of m) (cstring n) (drop k (cstring h))) else -1)"
proof -
  let ?P = "\<lambda>k. match_at (eq_of m) (cstring n) (drop k (cstring h))"
  show ?thesis
  proof (cases "first_match m h n")
    case None
    then have "\<forall>k\<le>strlen h. \<not> ?P k" by (simp add: first_match_def find_sub_None_iff strlen_def)
    with None assms show ?thesis by (auto simp: mk_string_search_n_first_match)
  next
    case (Some k)
    then have k: "k \<le> strlen h" "?P k" "\<forall>j<k. \<not> ?P j"
      by (auto simp: first_match_def find_sub_Some_iff strlen_def)
    then have L: "(LEAST k. ?P k) = k" by (intro Least_equality) (auto simp: not_less [symmetric])
    have ex: "(\<exists>j. int j < len \<and> j \<le> strlen h \<and> ?P j) \<longleftrightarrow> int k < len"
    proof
      assume "\<exists>j. int j < len \<and> j \<le> strlen h \<and> ?P j"
      then obtain j where "int j < len" "?P j" by blast
      with k(3) have "k \<le> j" by (auto simp: not_less [symmetric])
      with \<open>int j < len\<close> show "int k < len" by simp
    qed (use k in blast)
    have z: "(k = 0 \<or> int k < len) = (int k < len)" using assms by auto
    show ?thesis
      unfolding mk_string_search_n_first_match [OF assms] Some L option.case z ex ..
  qed
qed

theorem mk_string_search_n_correct_witness:
  "mk_string_search_n ''aClose'' ''CLOSE'' MK_STR_INSENSITIVE 6 = 1"
proof -
  define P where
    "P k = match_at (eq_of MK_STR_INSENSITIVE) (cstring ''CLOSE'') (drop k (cstring ''aClose''))" for k
  have "P 1" "\<not> P 0" unfolding P_def by code_simp+
  moreover from this have "(LEAST k. P k) = 1"
    by (intro Least_equality) (auto intro: Suc_leI gr0I)
  moreover have "\<exists>k. int k < 6 \<and> k \<le> strlen ''aClose'' \<and> P k"
    using \<open>P 1\<close> by (intro exI [of _ 1]) (simp add: strlen_def)
  ultimately show ?thesis
    using mk_string_search_n_correct [of 6 "''aClose''" "''CLOSE''" MK_STR_INSENSITIVE]
    unfolding P_def by simp
qed

text \<open>
  C15: \<open>mk_string_split_line\<close> returns exactly the maximal space-free words of the line, in
  order, each with its own length.
\<close>

theorem mk_string_split_line_words:
  "mk_string_split_line (Some line) =
     Some (map (\<lambda>w. \<lparr>sl_val = w, sl_len = length w\<rparr>)
             (filter (\<lambda>w. w \<noteq> []) (split_on SP (cstring line))))"
proof -
  let ?r = "split_loop line (strlen line) 0"
  have v: "map sl_val ?r = filter (\<lambda>w. w \<noteq> []) (split_on SP (cstring line))"
    and l: "\<forall>x\<in>set ?r. sl_len x = length (sl_val x)"
    using split_loop_words [of "strlen line" line 0] by (simp_all add: take_strlen)
  have "?r = map (\<lambda>w. \<lparr>sl_val = w, sl_len = length w\<rparr>) (map sl_val ?r)"
    using l by (induction ?r) (auto simp: map_idI)
  then show ?thesis using v by (simp add: mk_string_split_line_def)
qed

text \<open>
  C16: \<open>mk_string_itop\<close> and \<open>strtol\<close> are inverse: the text printed for any \<open>long\<close> value
  reads back as that value, it ends with CRLF, and for an \<open>int\<close> it takes at most 13 bytes of
  the pointer's buffer plus the terminator.
\<close>

theorem mk_string_itop_roundtrip:
  assumes "- 2147483648 \<le> v" "v < 2147483648"
  shows "strtol10 (view (mk_string_itop v)) = v
    \<and> drop (p_len (mk_string_itop v) - 2) (p_bytes (mk_string_itop v)) = [CR, LF]
    \<and> p_len (mk_string_itop v) \<le> 13 \<and> length (view (mk_string_itop v)) = p_len (mk_string_itop v) + 1"
proof -
  have "nat \<bar>v\<bar> < 10 ^ 10" using assms by auto
  then have "length (itop_digits (nat \<bar>v\<bar>)) \<le> 10" by (intro itop_digits_length) auto
  then have "length (dec_text v) \<le> 11" by (auto simp: dec_text_def)
  moreover have "strtol10 (dec_text v @ [CR, LF, NUL]) = v"
    by (rule strtol10_dec_text) (use assms in \<open>auto simp: LONG_MIN_def LONG_MAX_def not_digit_CR\<close>)
  ultimately show ?thesis by (simp add: mk_string_itop_eq p_bytes_def)
qed

theorem mk_string_itop_roundtrip_witness: "strtol10 (view (mk_string_itop (-42))) = -42"
  using mk_string_itop_roundtrip [of "-42"] by simp

text \<open>
  \<open>mk_string_trim\<close> strips the white space from both ends of any string that holds another
  character, and returns 0; a string of white space only becomes empty with \<open>-1\<close>.
\<close>

theorem mk_string_trim_correct:
  "(\<exists>c\<in>set (cstring buf). \<not> c_isspace c) \<Longrightarrow>
     map_prod id (map_option cstring) (mk_string_trim (Some buf)) = (0, Some (trim_ref (cstring buf)))"
proof -
  assume a: "\<exists>c\<in>set (cstring buf). \<not> c_isspace c"
  have "NUL \<notin> set (trim_ref (cstring buf))"
    unfolding trim_ref_def
    by (metis NUL_notin_cstring set_dropWhileD set_rev)
  then show ?thesis
    using mk_string_trim_spec [OF a] by (auto simp: cstring_append)
qed

theorem mk_string_trim_correct_witness:
  "map_prod id (map_option cstring) (mk_string_trim (Some ''  a b  '')) = (0, Some ''a b'')"
proof -
  have "\<exists>c\<in>set (cstring ''  a b  ''). \<not> c_isspace c" "trim_ref (cstring ''  a b  '') = ''a b''"
    by code_simp+
  then show ?thesis using mk_string_trim_correct [of "''  a b  ''"] by simp
qed

end
