(* ===== verification/Mk_Utils.thy ===== *)
theory Mk_Utils
  imports Mk_String
begin

text \<open>
  \<^verbatim>\<open>src/mk_utils.c\<close>: percent decoding of the request URI, concatenation of buffers, and the
  conversion of a Unix time to the RFC 1123 text with its per-thread cache. The decoder keeps
  its output buffer explicit, with every store checked against the allocation.
\<close>

section \<open>Hexadecimal numbers and URL decoding\<close>

definition hexdigit :: "char \<Rightarrow> int option" where
  "hexdigit c =
     (if 97 \<le> byte c \<and> byte c \<le> 102 then Some (int (byte c) - 87)
      else if 65 \<le> byte c \<and> byte c \<le> 70 then Some (int (byte c) - 55)
      else if 48 \<le> byte c \<and> byte c \<le> 57 then Some (int (byte c) - 48)
      else None)"

fun hex_loop :: "nat \<Rightarrow> cstr \<Rightarrow> int \<Rightarrow> int" where
  "hex_loop 0 v res = (if res < 0 then -1 else res)"
| "hex_loop (Suc n) v res =
     (if rd v = NUL then (if res < 0 then -1 else res)
      else case hexdigit (rd v) of
             None \<Rightarrow> -1
           | Some d \<Rightarrow> hex_loop n (tl v) (int32 (int32 (res * 16) + d)))"

definition mk_utils_hex2int :: "cstr \<Rightarrow> nat \<Rightarrow> int" where
  "mk_utils_hex2int hex len = hex_loop len hex 0"

text \<open>\<open>strncpy\<close> of \<open>n\<close> bytes: the string, padded with NUL.\<close>

definition strncpy :: "cstr \<Rightarrow> nat \<Rightarrow> cstr" where
  "strncpy src n = take n (cstring src) @ replicate (n - strlen src) NUL"

function url_decode_loop :: "cstr \<Rightarrow> nat \<Rightarrow> nat \<Rightarrow> nat \<Rightarrow> cstr \<Rightarrow> cerr + cstr option" where
  "url_decode_loop d len i idx buf =
     (if i < len then
        if rd_at d i = CHR ''%'' \<and> i + 2 < len then
          (let hex_result = mk_utils_hex2int (strncpy (drop (i + 1) d) 2) 2 in
           if hex_result \<noteq> -1 then
             bindE (store buf idx (mkchar (nat hex_result)))
               (\<lambda>b. url_decode_loop d len (i + 3) (idx + 1) b)
           else Inr None)
        else
          bindE (store buf idx (rd_at d i)) (\<lambda>b. url_decode_loop d len (i + 1) (idx + 1) b)
      else bindE (store buf idx NUL) (\<lambda>b. Inr (Some b)))"
  by pat_completeness auto
termination
  by (relation "measure (\<lambda>(d, len, i, idx, buf). len - i)") auto

declare url_decode_loop.simps [simp del]

text \<open>
  \<open>mk_utils_url_decode\<close>: NULL (\<open>None\<close>) when the URI has no percent sign or a malformed escape,
  else the decoded buffer, \<open>uri.len\<close> bytes of zeroed memory.
\<close>

definition mk_utils_url_decode :: "mk_pointer \<Rightarrow> cerr + cstr option" where
  "mk_utils_url_decode uri =
     (case memchr (view uri) (CHR ''%'') (p_len uri) of
        None \<Rightarrow> Inr None
      | Some tmp \<Rightarrow>
          (let buf = replicate (p_len uri) NUL;
               buf' = (if 0 < tmp then strncpy (view uri) tmp @ drop tmp buf else buf)
           in url_decode_loop (view uri) (p_len uri) tmp tmp buf'))"

definition mk_buffer_cat :: "cstr \<Rightarrow> int \<Rightarrow> cstr \<Rightarrow> int \<Rightarrow> mk_pointer option" where
  "mk_buffer_cat buf1 len1 buf2 len2 =
     (if len1 < 0 \<or> len2 < 0 then None
      else Some \<lparr>p_data = Some (take (nat len1) buf1 @ take (nat len2) buf2 @ [NUL]),
                 p_len = nat (len1 + len2)\<rparr>)"

subsection \<open>The decoder against its specification\<close>

text \<open>
  Percent decoding as a function on the URI's bytes: a percent sign with two bytes after it is
  an escape and must be followed by two hexadecimal digits; any other byte stands for itself.
\<close>

fun pct_decode :: "cstr \<Rightarrow> cstr option" where
  "pct_decode [] = Some []"
| "pct_decode (c # r) =
     (if c = CHR ''%'' \<and> 2 \<le> length r then
        (case (hexdigit (r ! 0), hexdigit (r ! 1)) of
           (Some x, Some y) \<Rightarrow> map_option ((#) (mkchar (nat (16 * x + y)))) (pct_decode (drop 2 r))
         | _ \<Rightarrow> None)
      else map_option ((#) c) (pct_decode r))"

lemma hexdigit_range: "hexdigit c = Some d \<Longrightarrow> 0 \<le> d \<and> d < 16"
  by (auto simp: hexdigit_def split: if_splits)

lemma hexdigit_NUL [simp]: "hexdigit NUL = None"
  by (simp add: hexdigit_def)

lemma mk_utils_hex2int_pair:
  assumes "a \<noteq> NUL" "b \<noteq> NUL"
  shows "mk_utils_hex2int [a, b] 2 =
    (case (hexdigit a, hexdigit b) of (Some x, Some y) \<Rightarrow> 16 * x + y | _ \<Rightarrow> -1)"
proof (cases "hexdigit a")
  case None
  then show ?thesis using assms by (simp add: mk_utils_hex2int_def numeral_2_eq_2)
next
  case (Some x)
  show ?thesis
  proof (cases "hexdigit b")
    case None
    then show ?thesis using assms Some by (simp add: mk_utils_hex2int_def numeral_2_eq_2)
  next
    case b: (Some y)
    have "0 \<le> x" "x < 16" "0 \<le> y" "y < 16"
      using Some b hexdigit_range by blast+
    then have "int32 (int32 (int32 (int32 (0 * 16) + x) * 16) + y) = 16 * x + y"
      by (simp add: int32_id)
    with Some b assms \<open>0 \<le> x\<close> \<open>0 \<le> y\<close> show ?thesis
      by (simp add: mk_utils_hex2int_def numeral_2_eq_2)
  qed
qed

lemma strncpy_exact:
  "NUL \<notin> set (take n v) \<Longrightarrow> n \<le> length v \<Longrightarrow> strncpy v n = take n v"
proof (induction n arbitrary: v)
  case 0
  then show ?case by (simp add: strncpy_def)
next
  case (Suc n)
  then obtain c w where v: "v = c # w" by (cases v) auto
  with Suc.prems Suc.IH [of w] show ?case by (auto simp: strncpy_def strlen_def)
qed

lemma pct_decode_length: "pct_decode u = Some out \<Longrightarrow> length out \<le> length u"
proof (induction u arbitrary: out rule: pct_decode.induct)
  case 1
  then show ?case by simp
next
  case (2 c r)
  then show ?case by (fastforce split: if_splits option.splits)
qed

lemma url_decode_loop_spec:
  assumes "len \<le> length d" "NUL \<notin> set (take len d)" "i \<le> len" "length pre \<le> i"
  shows "url_decode_loop d len i (length pre) (pre @ replicate (len - length pre) NUL) =
    (case pct_decode (drop i (take len d)) of
       None \<Rightarrow> Inr None
     | Some out \<Rightarrow>
         if length pre + length out < len
         then Inr (Some (pre @ out @ replicate (len - length pre - length out) NUL))
         else Inl OutOfBounds)"
  using assms(3,4)
proof (induction "len - i" arbitrary: i pre rule: less_induct)
  case less
  let ?buf = "pre @ replicate (len - length pre) NUL"
  show ?case
  proof (cases "i < len")
    case False
    then have "i = len" using less.prems by simp
    moreover have "(pre @ replicate n NUL)[length pre := NUL] = pre @ replicate n NUL" for n
      by (cases n) (auto simp: list_update_append list_update_beyond)
    ultimately show ?thesis
      by (subst url_decode_loop.simps) (auto simp: store_def)
  next
    case i: True
    then have il: "i < length d" using assms(1) by simp
    have u: "drop i (take len d) = d ! i # drop (Suc i) (take len d)"
      using i il by (simp add: Cons_nth_drop_Suc [symmetric])
    have st: "store ?buf (length pre) c = Inr ((pre @ [c]) @ replicate (len - length (pre @ [c])) NUL)" for c
    proof -
      obtain n where "len - length pre = Suc n" using i less.prems by (cases "len - length pre") auto
      then show ?thesis using i less.prems by (auto simp: store_def list_update_append)
    qed
    have IH: "url_decode_loop d len i' (length (pre @ [c]))
        ((pre @ [c]) @ replicate (len - length (pre @ [c])) NUL) =
      (case pct_decode (drop i' (take len d)) of
         None \<Rightarrow> Inr None
       | Some out \<Rightarrow>
           if length (pre @ [c]) + length out < len
           then Inr (Some ((pre @ [c]) @ out @ replicate (len - length (pre @ [c]) - length out) NUL))
           else Inl OutOfBounds)" if "i < i'" "i' \<le> len" for i' c
      using that less.prems less.hyps [of i' "pre @ [c]"] i by simp
    show ?thesis
    proof (cases "d ! i = CHR ''%'' \<and> i + 2 < len")
      case False
      have "pct_decode (drop i (take len d)) = map_option ((#) (d ! i)) (pct_decode (drop (Suc i) (take len d)))"
        using False assms(1) unfolding u by auto
      moreover have "url_decode_loop d len i (length pre) ?buf =
          url_decode_loop d len (i + 1) (length (pre @ [d ! i]))
            ((pre @ [d ! i]) @ replicate (len - length (pre @ [d ! i])) NUL)"
        using False i il st by (subst url_decode_loop.simps) (auto simp: rd_at_def)
      ultimately show ?thesis using IH [of "i + 1" "d ! i"] i by (auto split: option.splits)
    next
      case esc: True
      define a where "a = d ! (i + 1)"
      define b where "b = d ! (i + 2)"
      have len3: "i + 2 < length d" using esc assms(1) by simp
      have ab: "take 2 (drop (i + 1) d) = [a, b]"
        using len3 by (simp add: a_def b_def numeral_2_eq_2 take_Suc_conv_app_nth)
      have nn: "a \<noteq> NUL" "b \<noteq> NUL"
        using assms(2) esc len3 by (auto simp: a_def b_def in_set_conv_nth dest!: spec)
      have hex: "strncpy (drop (i + 1) d) 2 = [a, b]"
        using ab nn len3 strncpy_exact [of 2 "drop (i + 1) d"] by simp
      have r: "drop (Suc i) (take len d) ! 0 = a" "drop (Suc i) (take len d) ! 1 = b"
        using esc len3 by (auto simp: a_def b_def)
      have dd: "drop 2 (drop (Suc i) (take len d)) = drop (i + 3) (take len d)"
        by (simp add: numeral_3_eq_3)
      have pd: "pct_decode (drop i (take len d)) =
        (case (hexdigit a, hexdigit b) of
           (Some x, Some y) \<Rightarrow> map_option ((#) (mkchar (nat (16 * x + y)))) (pct_decode (drop (i + 3) (take len d)))
         | _ \<Rightarrow> None)"
        unfolding u pct_decode.simps r dd using esc assms(1) by auto
      show ?thesis
      proof (cases "hexdigit a = None \<or> hexdigit b = None")
        case True
        then have "mk_utils_hex2int [a, b] 2 = -1" using mk_utils_hex2int_pair [OF nn] by (auto split: option.splits)
        moreover have "pct_decode (drop i (take len d)) = None" using pd True by (auto split: option.splits)
        ultimately show ?thesis using esc i il hex
          by (subst url_decode_loop.simps) (simp add: rd_at_def)
      next
        case False
        then obtain x y where xy: "hexdigit a = Some x" "hexdigit b = Some y" by auto
        then have h: "mk_utils_hex2int [a, b] 2 = 16 * x + y" "16 * x + y \<noteq> -1"
          using mk_utils_hex2int_pair [OF nn] hexdigit_range [of a x] hexdigit_range [of b y] by auto
        let ?c = "mkchar (nat (16 * x + y))"
        have "url_decode_loop d len i (length pre) ?buf =
            url_decode_loop d len (i + 3) (length (pre @ [?c]))
              ((pre @ [?c]) @ replicate (len - length (pre @ [?c])) NUL)"
          using esc i il hex h st by (subst url_decode_loop.simps) (simp add: rd_at_def)
        then show ?thesis using IH [of "i + 3" ?c] esc xy pd by (auto split: option.splits)
      qed
    qed
  qed
qed

lemma pct_decode_prefix:
  "CHR ''%'' \<notin> set p \<Longrightarrow> pct_decode (p @ r) = map_option ((@) p) (pct_decode r)"
proof (induction p)
  case Nil
  then show ?case by (cases "pct_decode r") auto
next
  case (Cons a p)
  then show ?case by (cases "pct_decode r") auto
qed

lemma pct_decode_no_percent: "CHR ''%'' \<notin> set u \<Longrightarrow> pct_decode u = Some u"
  using pct_decode_prefix [of u "[]"] by simp

section \<open>Properties of the decoder\<close>

text \<open>
  C6: \<open>mk_utils_url_decode\<close> on a URI without NUL bytes. It returns NULL when the URI has no
  percent sign or some escape is malformed. Otherwise it returns the percent-decoded text,
  padded with NUL up to the URI's length; but when no escape was decoded (the text is as long as
  the URI) its final terminator is stored one byte past the allocation.
\<close>

theorem mk_utils_url_decode_correct:
  assumes "p_len uri \<le> length (view uri)" "NUL \<notin> set (p_bytes uri)"
  shows "mk_utils_url_decode uri =
    (if CHR ''%'' \<notin> set (p_bytes uri) then Inr None
     else case pct_decode (p_bytes uri) of
            None \<Rightarrow> Inr None
          | Some out \<Rightarrow>
              if length out < p_len uri
              then Inr (Some (out @ replicate (p_len uri - length out) NUL))
              else Inl OutOfBounds)"
proof (cases "memchr (view uri) (CHR ''%'') (p_len uri)")
  case None
  then have "CHR ''%'' \<notin> set (p_bytes uri)" by (simp add: memchr_None_iff p_bytes_def)
  with None show ?thesis by (simp add: mk_utils_url_decode_def)
next
  case (Some t)
  let ?d = "view uri" let ?n = "p_len uri"
  from Some have t: "t < ?n" "?d ! t = CHR ''%''" "\<forall>j<t. ?d ! j \<noteq> CHR ''%''"
    by (auto simp: memchr_Some_iff)
  have mem: "CHR ''%'' \<in> set (take ?n ?d)"
    using t assms(1) by (metis length_take min.absorb2 nth_mem nth_take)
  have lt: "length (take t ?d) = t" using t assms(1) by simp
  have pre: "strncpy ?d t = take t ?d"
  proof (rule strncpy_exact)
    have "set (take t ?d) \<subseteq> set (take ?n ?d)" using t by (simp add: set_take_subset_set_take)
    then show "NUL \<notin> set (take t ?d)" using assms(2) by (auto simp: p_bytes_def)
  qed (use t assms in simp)
  have "mk_utils_url_decode uri =
      url_decode_loop ?d ?n t (length (take t ?d)) (take t ?d @ replicate (?n - length (take t ?d)) NUL)"
    using Some t assms(1) by (auto simp: mk_utils_url_decode_def Let_def pre)
  also have "\<dots> = (case pct_decode (drop t (take ?n ?d)) of
       None \<Rightarrow> Inr None
     | Some out \<Rightarrow>
         if t + length out < ?n
         then Inr (Some (take t ?d @ out @ replicate (?n - t - length out) NUL))
         else Inl OutOfBounds)"
    using url_decode_loop_spec [of ?n ?d t "take t ?d"] t assms unfolding lt by (simp add: p_bytes_def)
  finally have loop: "mk_utils_url_decode uri = \<dots>" .
  have "p_bytes uri = take t ?d @ drop t (take ?n ?d)"
    using t by (metis append_take_drop_id min.absorb1 order_less_imp_le p_bytes_def take_take)
  moreover have "CHR ''%'' \<notin> set (take t ?d)"
    using t assms(1) by (auto simp: in_set_conv_nth)
  ultimately have "pct_decode (p_bytes uri) = map_option ((@) (take t ?d)) (pct_decode (drop t (take ?n ?d)))"
    by (metis pct_decode_prefix)
  then show ?thesis
    using loop mem t assms(1) by (auto simp: p_bytes_def split: option.splits)
qed

theorem mk_utils_url_decode_correct_witness:
  "mk_utils_url_decode (mk_pointer_init ''/a%20b'') = Inr (Some (''/a b'' @ [NUL, NUL]))"
proof -
  let ?u = "mk_pointer_init ''/a%20b''"
  have "pct_decode ''/a%20b'' = Some ''/a b''" by code_simp
  then show ?thesis
    using mk_utils_url_decode_correct [of ?u] by (simp add: mk_pointer_init_def p_bytes_def numeral_2_eq_2)
qed

text \<open>
  The store past the allocation happens for real requests: the URI \<^verbatim>\<open>/100%\<close>, whose only
  percent sign is too close to the end to start an escape, overruns its buffer by one byte.
\<close>

theorem mk_utils_url_decode_overrun:
  "mk_utils_url_decode (mk_pointer_init ''/100%'') = Inl OutOfBounds"
  by code_simp

end
