(* ===== verification/Mk_Config.thy ===== *)
theory Mk_Config
  imports Mk_Utils
begin

text \<open>
  \<^verbatim>\<open>src/mk_config.c\<close>: the parser of the indented configuration files, the typed lookup of a
  section's keys, the construction of the virtual hosts and of the server configuration, and the
  virtual host lookup of the request path. The contents of a file are a parameter (\<open>None\<close> when
  \<open>fopen\<close> fails); \<open>exit(EXIT_FAILURE)\<close> is the error \<open>ExitFailure\<close>. Lists of sections, entries,
  hosts and aliases are HOL lists, which is what the list operations of \<open>Mk_List\<close> maintain.
\<close>

section \<open>Sections and entries\<close>

record mk_config_entry =
  ce_key :: cstr
  ce_val :: cstr

record mk_config_section =
  sec_name :: cstr
  sec_entries :: "mk_config_entry list"

definition mk_config_section_get ::
  "mk_config_section list \<Rightarrow> cstr \<Rightarrow> mk_config_section option" where
  "mk_config_section_get sections section_name =
     find (\<lambda>s. strcasecmp_eq (sec_name s) section_name) sections"

definition mk_config_section_add ::
  "mk_config_section list \<Rightarrow> cstr \<Rightarrow> mk_config_section list" where
  "mk_config_section_add sections section_name =
     sections @ [\<lparr>sec_name = cstring section_name, sec_entries = []\<rparr>]"

text \<open>
  \<open>mk_config_entry_add\<close> appends to the last section. Without any section it only prints an error
  and then uses the list head as a section: an access outside every object.
\<close>

definition mk_config_entry_add ::
  "mk_config_section list \<Rightarrow> cstr \<Rightarrow> cstr \<Rightarrow> cerr + mk_config_section list" where
  "mk_config_entry_add sections key val =
     (if sections = [] then Inl OutOfBounds
      else let s = last sections in
           Inr (butlast sections
                @ [s\<lparr>sec_entries := sec_entries s @ [\<lparr>ce_key = cstring key, ce_val = cstring val\<rparr>]\<rparr>]))"

section \<open>The parser\<close>

text \<open>\<open>fgets(buf, 255, f)\<close>: up to and including a newline, at most 254 bytes.\<close>

definition fgets_chunk :: "cstr \<Rightarrow> cstr \<times> cstr" where
  "fgets_chunk s =
     (let n = (case find_index ((=) LF) (take 254 s) of
                 None \<Rightarrow> length (take 254 s) | Some k \<Rightarrow> Suc k)
      in (take n s, drop n s))"

record cfg_parser =
  pr_line :: nat
  pr_indent :: "cstr option"
  pr_nkeys :: nat
  pr_current :: bool
  pr_sections :: "mk_config_section list"

definition cfg_parser_init :: cfg_parser where
  "cfg_parser_init =
     \<lparr>pr_line = 0, pr_indent = None, pr_nkeys = 0, pr_current = False, pr_sections = []\<rparr>"

definition c_isblank :: "char \<Rightarrow> bool" where
  "c_isblank c \<longleftrightarrow> c = SP \<or> c = CHR 0x09"

text \<open>The newline and a carriage return before it are cut off the line.\<close>

definition strip_eol :: "cstr \<Rightarrow> cstr" where
  "strip_eol s =
     (if last s = LF then
        (let t = butlast s in if t \<noteq> [] \<and> last t = CR then butlast t else t)
      else s)"

text \<open>\<open>do { i++; } while (i < len && isblank(buf[i]));\<close> from \<open>i = 0\<close>.\<close>

definition indent_width :: "cstr \<Rightarrow> nat" where
  "indent_width buf = 1 + length (takeWhile c_isblank (drop 1 buf))"

text \<open>The key and value of an indented line, from \<open>/* Get key and val */\<close> on.\<close>

definition cfg_key_val :: "cfg_parser \<Rightarrow> cstr \<Rightarrow> nat \<Rightarrow> cerr + cfg_parser" where
  "cfg_key_val st buf indent_len =
     (let len = length buf;
          i = mk_string_char_search (drop indent_len buf) SP (int (len - indent_len)) in
      if i < 0 then Inl ExitFailure
      else if 255 < len + nat i then Inl OutOfBounds
      else
        let key = the (mk_string_copy_substr (drop indent_len buf) 0 i);
            val = cstring (take (len - indent_len - 1) (drop (indent_len + nat i + 1) buf));
            key' = the (snd (mk_string_trim (Some key)));
            val' = the (snd (mk_string_trim (Some val)))
        in bindE (mk_config_entry_add (pr_sections st) key' val')
             (\<lambda>secs. Inr (st\<lparr>pr_sections := secs, pr_nkeys := pr_nkeys st + 1\<rparr>)))"

text \<open>One round of the loop of \<open>mk_config_create\<close> on the line in \<open>buf\<close>.\<close>

definition cfg_indented :: "cfg_parser \<Rightarrow> cstr \<Rightarrow> cerr + cfg_parser" where
  "cfg_indented st buf =
     (let len = length buf;
          fresh = (pr_indent st = None);
          i = indent_width buf;
          indent = (case pr_indent st of Some w \<Rightarrow> w | None \<Rightarrow> take i buf);
          st1 = st\<lparr>pr_indent := Some indent\<rparr>;
          indent_len = length indent
      in if fresh \<and> i = len then Inr st1
         else if \<not> strncmp_eq buf indent indent_len \<or> c_isblank (rd_at buf indent_len)
         then Inl ExitFailure
         else if rd_at buf indent_len = CHR ''#'' \<or> indent_len = len then Inr st1
         else cfg_key_val st1 buf indent_len)"

definition cfg_line :: "cfg_parser \<Rightarrow> cstr \<Rightarrow> cerr + cfg_parser" where
  "cfg_line st0 chunk =
     (if cstring chunk = [] then Inl OutOfBounds
      else
        let buf = strip_eol (cstring chunk);
            st = st0\<lparr>pr_line := pr_line st0 + 1\<rparr>
        in if rd buf = NUL then Inr st
           else if rd buf = CHR ''#'' then Inr st
           else if rd buf = CHR ''['' then
             (let end = mk_string_char_search buf (CHR '']'') (int (length buf)) in
              if 0 < end then
                if pr_current st \<and> pr_nkeys st = 0 then Inl ExitFailure
                else Inr (st\<lparr>pr_sections := mk_config_section_add (pr_sections st)
                                 (the (mk_string_copy_substr buf 1 end)),
                             pr_current := True, pr_nkeys := 0\<rparr>)
              else Inl ExitFailure)
           else cfg_indented st buf)"

function cfg_loop :: "cfg_parser \<Rightarrow> cstr \<Rightarrow> cerr + cfg_parser" where
  "cfg_loop st s =
     (if s = [] then Inr st
      else case cfg_line st (fst (fgets_chunk s)) of
             Inl e \<Rightarrow> Inl e
           | Inr st' \<Rightarrow> cfg_loop st' (snd (fgets_chunk s)))"
  by pat_completeness auto
termination
proof (relation "measure (\<lambda>(st, s). length s)")
  fix st :: cfg_parser and s :: cstr and st'
  assume s: "s \<noteq> []"
  define n where "n = (case find_index ((=) LF) (take 254 s) of
                 None \<Rightarrow> length (take 254 s) | Some k \<Rightarrow> Suc k)"
  have "0 < n" using s by (auto simp: n_def split: option.splits)
  then show "((st', snd (fgets_chunk s)), st, s) \<in> measure (\<lambda>(st, s). length s)"
    using s by (simp add: fgets_chunk_def Let_def n_def [symmetric])
qed simp

declare cfg_loop.simps [simp del]

text \<open>\<open>mk_config_create\<close>: NULL (\<open>Inr None\<close>) when the file cannot be opened.\<close>

definition mk_config_create :: "cstr option \<Rightarrow> cerr + mk_config_section list option" where
  "mk_config_create file =
     (case file of
        None \<Rightarrow> Inr None
      | Some s \<Rightarrow>
          (case cfg_loop cfg_parser_init s of
             Inl e \<Rightarrow> Inl e
           | Inr st \<Rightarrow> if pr_nkeys st = 0 then Inl ExitFailure else Inr (Some (pr_sections st))))"

section \<open>Typed lookup\<close>

datatype cfg_mode = MK_CONFIG_VAL_STR | MK_CONFIG_VAL_NUM | MK_CONFIG_VAL_BOOL | MK_CONFIG_VAL_LIST

datatype cfg_val = VNull | VStr cstr | VNum int | VList "mk_string_line list"

definition mk_config_section_getval :: "mk_config_section \<Rightarrow> cstr \<Rightarrow> cfg_mode \<Rightarrow> cfg_val" where
  "mk_config_section_getval section key mode =
     (case find (\<lambda>e. strcasecmp_eq (ce_key e) key) (sec_entries section) of
        None \<Rightarrow> VNull
      | Some entry \<Rightarrow>
          (case mode of
             MK_CONFIG_VAL_STR \<Rightarrow> VStr (ce_val entry)
           | MK_CONFIG_VAL_NUM \<Rightarrow> VNum (strtol10 (ce_val entry))
           | MK_CONFIG_VAL_BOOL \<Rightarrow>
               (let on = strcasecmp_eq (ce_val entry) ''on'';
                    off = strcasecmp_eq (ce_val entry) ''off''
                in if \<not> on \<and> \<not> off then VNum (-1) else if on then VNum 1 else VNum 0)
           | MK_CONFIG_VAL_LIST \<Rightarrow>
               (case mk_string_split_line (Some (ce_val entry)) of
                  None \<Rightarrow> VNull | Some l \<Rightarrow> VList l)))"

text \<open>The \<open>void *\<close> result as the callers read it: a string, a number, a list.\<close>

definition val_str :: "cfg_val \<Rightarrow> cstr option" where
  "val_str v = (case v of VStr s \<Rightarrow> Some s | _ \<Rightarrow> None)"

definition val_num :: "cfg_val \<Rightarrow> int" where
  "val_num v = (case v of VNum n \<Rightarrow> n | _ \<Rightarrow> 0)"

definition val_list :: "cfg_val \<Rightarrow> mk_string_line list option" where
  "val_list v = (case v of VList l \<Rightarrow> Some l | _ \<Rightarrow> None)"

section \<open>Virtual hosts\<close>

record error_page =
  ep_status :: int
  ep_file :: cstr
  ep_real_path :: cstr

record host_alias =
  ha_name :: cstr
  ha_len :: nat

record host =
  h_file :: cstr
  h_server_names :: "host_alias list"
  h_documentroot :: mk_pointer
  h_signature :: cstr
  h_header_signature :: mk_pointer
  h_error_pages :: "error_page list"

definition MK_HOSTNAME_LEN :: nat where "MK_HOSTNAME_LEN = 64"

definition host_aliases :: "mk_string_line list \<Rightarrow> host_alias list" where
  "host_aliases names =
     map (\<lambda>e. \<lparr>ha_name = mk_string_tolower (sl_val e), ha_len = sl_len e\<rparr>)
       (filter (\<lambda>e. \<not> MK_HOSTNAME_LEN - 1 < sl_len e) names)"

definition host_error_pages :: "cstr \<Rightarrow> mk_config_section option \<Rightarrow> error_page list" where
  "host_error_pages docroot section_ep =
     (case section_ep of None \<Rightarrow> []
      | Some sec \<Rightarrow>
          map (\<lambda>e. \<lparr>ep_status = int32 (strtol10 (ce_key e)), ep_file = ce_val e,
                    ep_real_path = docroot @ ''/'' @ ce_val e\<rparr>)
            (filter (\<lambda>e. 400 \<le> int32 (strtol10 (ce_key e)) \<and> int32 (strtol10 (ce_key e)) \<le> 505)
               (sec_entries sec)))"

text \<open>
  \<open>mk_config_get_host\<close>: \<open>Inr None\<close> for a file without a HOST section or without a usable name;
  a missing file or document root is a NULL dereference, a missing Servername ends the server.
\<close>

definition mk_config_get_host ::
  "cstr \<Rightarrow> bool \<Rightarrow> cstr \<Rightarrow> cstr option \<Rightarrow> cerr + host option" where
  "mk_config_get_host version hideversion path contents =
     bindE (mk_config_create contents) (\<lambda>cnf_opt.
       case cnf_opt of
         None \<Rightarrow> Inl NullDeref
       | Some cnf \<Rightarrow>
           (case mk_config_section_get cnf ''HOST'' of
              None \<Rightarrow> Inr None
            | Some section_host \<Rightarrow>
                (case val_list (mk_config_section_getval section_host ''Servername'' MK_CONFIG_VAL_LIST) of
                   None \<Rightarrow> Inl ExitFailure
                 | Some names \<Rightarrow>
                     (case val_str (mk_config_section_getval section_host ''DocumentRoot'' MK_CONFIG_VAL_STR) of
                        None \<Rightarrow> Inl NullDeref
                      | Some docroot \<Rightarrow>
                          if host_aliases names = [] then Inr None
                          else
                            let sig = (if hideversion then ''Monkey'' else ''Monkey/'' @ version)
                            in Inr (Some \<lparr>h_file = path, h_server_names = host_aliases names,
                                          h_documentroot = mk_pointer_set docroot,
                                          h_signature = sig,
                                          h_header_signature = mk_pointer_init (''Server: '' @ sig),
                                          h_error_pages = host_error_pages docroot
                                             (mk_config_section_get cnf ''ERROR_PAGES'')\<rparr>)))))"

text \<open>
  \<open>mk_config_read_hosts\<close>: the default host first, then the other files of the directory in the
  order \<open>readdir\<close> lists them. A default file without a HOST section leaves a NULL pointer to link.
\<close>

fun read_other_hosts ::
  "cstr \<Rightarrow> bool \<Rightarrow> cstr \<Rightarrow> (cstr \<Rightarrow> cstr option) \<Rightarrow> cstr list \<Rightarrow> host list \<Rightarrow> cerr + host list" where
  "read_other_hosts version hide path fs [] acc = Inr acc"
| "read_other_hosts version hide path fs (n # ns) acc =
     (if strcmp_eq n ''.'' \<or> strcmp_eq n ''..'' \<or> strcasecmp_eq n ''default''
      then read_other_hosts version hide path fs ns acc
      else
        let file = path @ ''/sites/'' @ n in
        case mk_config_get_host version hide file (fs file) of
          Inl e \<Rightarrow> Inl e
        | Inr None \<Rightarrow> read_other_hosts version hide path fs ns acc
        | Inr (Some h) \<Rightarrow> read_other_hosts version hide path fs ns (acc @ [h]))"

definition mk_config_read_hosts ::
  "cstr \<Rightarrow> bool \<Rightarrow> cstr \<Rightarrow> (cstr \<Rightarrow> cstr option) \<Rightarrow> cstr list option \<Rightarrow> cerr + host list" where
  "mk_config_read_hosts version hide path fs dir =
     (let file = path @ ''/sites/default'' in
      bindE (mk_config_get_host version hide file (fs file)) (\<lambda>h.
        case h of
          None \<Rightarrow> Inl NullDeref
        | Some p_host \<Rightarrow>
            (case dir of
               None \<Rightarrow> Inl ExitFailure
             | Some names \<Rightarrow> read_other_hosts version hide path fs names [p_host])))"

text \<open>\<open>mk_config_host_find\<close>: the first host and alias whose name has the length and bytes asked for.\<close>

definition alias_matches :: "mk_pointer \<Rightarrow> host_alias \<Rightarrow> bool" where
  "alias_matches p a \<longleftrightarrow> ha_len a = p_len p \<and> strncmp_eq (ha_name a) (view p) (p_len p)"

fun mk_config_host_find :: "mk_pointer \<Rightarrow> host list \<Rightarrow> (host \<times> host_alias) option" where
  "mk_config_host_find p [] = None"
| "mk_config_host_find p (h # hs) =
     (case find (alias_matches p) (h_server_names h) of
        Some a \<Rightarrow> Some (h, a)
      | None \<Rightarrow> mk_config_host_find p hs)"

section \<open>The server configuration\<close>

record server_config =
  worker_capacity :: int
  max_load :: int
  workers :: int
  listen_addr :: cstr
  user :: "cstr option"
  user_dir :: "cstr option"
  pid_file_path :: "cstr option"
  serverport :: int
  timeout :: int
  standard_port :: int
  hideversion :: bool
  resume :: bool
  symlink :: bool
  keep_alive :: bool
  max_keep_alive_request :: int
  keep_alive_timeout :: int
  max_request_size :: int
  index_files :: "cstr list option"
  hosts :: "host list"
  transport :: cstr
  transport_layer :: "cstr option"
  default_mimetype :: cstr

definition mk_config_set_init_values :: "server_config" where
  "mk_config_set_init_values =
     \<lparr>worker_capacity = 0, max_load = 0, workers = 1, listen_addr = ''0.0.0.0'', user = None,
      user_dir = None, pid_file_path = None, serverport = 2001, timeout = 15, standard_port = 80,
      hideversion = False, resume = True, symlink = False, keep_alive = True,
      max_keep_alive_request = 50, keep_alive_timeout = 15, max_request_size = 4096 * 8,
      index_files = None, hosts = [], transport = ''http'', transport_layer = None,
      default_mimetype = []\<rparr>"

text \<open>
  \<open>mk_server_worker_capacity\<close> (\<^verbatim>\<open>src/mk_server.c\<close>), unsigned 32-bit arithmetic; \<open>rlim\<close> is the soft
  limit of open files.
\<close>

definition uint32 :: "int \<Rightarrow> int" where
  "uint32 x = x mod 4294967296"

definition mk_server_worker_capacity :: "int \<Rightarrow> int \<Rightarrow> int" where
  "mk_server_worker_capacity rlim nworkers =
     uint32 (uint32 rlim - (3 + 1 + nworkers + 1 + 2)) div 2 div nworkers"

text \<open>A short as the \<open>workers\<close> field, an 8-bit boolean or error.\<close>

definition int16 :: "int \<Rightarrow> int" where
  "int16 x = (x + 32768) mod 65536 - 32768"

text \<open>
  \<open>mk_config_read_files\<close>: the SERVER section of \<^verbatim>\<open>monkey.conf\<close> over the initial values. \<open>nproc\<close> is
  \<open>sysconf(_SC_NPROCESSORS_ONLN)\<close>. Every check that fails ends the server.
\<close>

definition mk_config_read_server ::
  "int \<Rightarrow> int \<Rightarrow> mk_config_section \<Rightarrow> server_config \<Rightarrow> cerr + server_config" where
  "mk_config_read_server rlim nproc section config =
     (let str = (\<lambda>k. val_str (mk_config_section_getval section k MK_CONFIG_VAL_STR));
          num = (\<lambda>k. val_num (mk_config_section_getval section k MK_CONFIG_VAL_NUM));
          bol = (\<lambda>k. val_num (mk_config_section_getval section k MK_CONFIG_VAL_BOOL));
          listen = (case str ''Listen'' of None \<Rightarrow> ''0.0.0.0'' | Some a \<Rightarrow> a);
          port = int32 (num ''Port'');
          wrk0 = int16 (num ''Workers'');
          wrk = (if wrk0 < 1 then int16 nproc else wrk0);
          cap = mk_server_worker_capacity rlim wrk;
          tmo = int32 (num ''Timeout'');
          ka = bol ''KeepAlive'';
          mka = int32 (num ''MaxKeepAliveRequest'');
          kat = int32 (num ''KeepAliveTimeout'');
          hv = bol ''HideVersion'';
          res = bol ''Resume'';
          mrs = int32 (num ''MaxRequestSize'');
          sym = bol ''SymLink''
      in if port \<le> 1 \<or> 65535 \<le> port then Inl ExitFailure
         else if wrk < 1 then Inl ExitFailure
         else if tmo < 1 then Inl ExitFailure
         else if ka = -1 then Inl ExitFailure
         else if mka = 0 then Inl ExitFailure
         else if kat = 0 then Inl ExitFailure
         else if hv = -1 then Inl ExitFailure
         else if res = -1 then Inl ExitFailure
         else if mrs \<le> 0 then Inl ExitFailure
         else if sym = -1 then Inl ExitFailure
         else Inr (config\<lparr>
           listen_addr := listen, serverport := port, workers := wrk, worker_capacity := cap,
           max_load := uint32 (cap * wrk), timeout := tmo, keep_alive := (ka \<noteq> 0),
           max_keep_alive_request := mka, keep_alive_timeout := kat,
           pid_file_path := str ''PidFile'', user_dir := str ''UserDir'',
           index_files := map_option (map sl_val)
             (val_list (mk_config_section_getval section ''Indexfile'' MK_CONFIG_VAL_LIST)),
           hideversion := (hv \<noteq> 0), user := str ''User'', resume := (res \<noteq> 0),
           max_request_size := int32 (mrs * 1024), symlink := (sym \<noteq> 0),
           transport_layer := str ''TransportLayer'',
           default_mimetype := (case str ''DefaultMimeType'' of
               None \<Rightarrow> ''text/plain'' @ [CR, LF] | Some t \<Rightarrow> t @ [CR, LF])\<rparr>))"

definition mk_config_read_files ::
  "int \<Rightarrow> int \<Rightarrow> cstr \<Rightarrow> (cstr \<Rightarrow> cstr option) \<Rightarrow> cstr \<Rightarrow> cstr list option \<Rightarrow> server_config \<Rightarrow>
     cerr + server_config" where
  "mk_config_read_files rlim nproc version fs path_conf dir config =
     bindE (mk_config_create (fs (path_conf @ ''/monkey.conf''))) (\<lambda>cnf_opt.
       case cnf_opt of
         None \<Rightarrow> Inl ExitFailure
       | Some cnf \<Rightarrow>
           (case mk_config_section_get cnf ''SERVER'' of
              None \<Rightarrow> Inl NullDeref
            | Some section \<Rightarrow>
                bindE (mk_config_read_server rlim nproc section config) (\<lambda>c.
                  bindE (mk_config_read_hosts version (hideversion c) path_conf fs dir) (\<lambda>hs.
                    Inr (c\<lparr>hosts := hosts c @ hs\<rparr>)))))"

section \<open>Invariant of the parser\<close>

text \<open>
  Every section but the last has an entry, and \<open>n_keys\<close> counts the entries of the last one.
\<close>

definition cfg_inv :: "cfg_parser \<Rightarrow> bool" where
  "cfg_inv st \<longleftrightarrow>
     (pr_current st \<longleftrightarrow> pr_sections st \<noteq> []) \<and>
     (\<forall>s\<in>set (butlast (pr_sections st)). sec_entries s \<noteq> []) \<and>
     (pr_nkeys st = (if pr_sections st = [] then 0 else length (sec_entries (last (pr_sections st)))))"

lemma cfg_inv_init: "cfg_inv cfg_parser_init"
  by (simp add: cfg_inv_def cfg_parser_init_def)

lemma cfg_inv_frame [simp]:
  "cfg_inv (st\<lparr>pr_line := n\<rparr>) = cfg_inv st" "cfg_inv (st\<lparr>pr_indent := w\<rparr>) = cfg_inv st"
  by (simp_all add: cfg_inv_def)

lemma cfg_inv_section:
  assumes "cfg_inv st" "\<not> (pr_current st \<and> pr_nkeys st = 0)"
  shows "cfg_inv (st\<lparr>pr_line := k, pr_sections := mk_config_section_add (pr_sections st) n,
                     pr_current := True, pr_nkeys := 0\<rparr>)"
proof -
  have "sec_entries s \<noteq> []" if "s \<in> set (pr_sections st)" for s
  proof (cases "s \<in> set (butlast (pr_sections st))")
    case True
    with assms(1) show ?thesis by (simp add: cfg_inv_def)
  next
    case False
    with that have "s = last (pr_sections st)"
      by (metis append_butlast_last_id empty_iff empty_set in_set_conv_decomp_last set_append
          Un_iff insert_iff list.set(1,2))
    with that assms show ?thesis by (auto simp: cfg_inv_def)
  qed
  then show ?thesis by (simp add: cfg_inv_def mk_config_section_add_def)
qed

lemma cfg_inv_key_val:
  "cfg_inv st \<Longrightarrow> cfg_key_val st buf w = Inr st' \<Longrightarrow> cfg_inv st'"
  by (auto simp: cfg_key_val_def Let_def mk_config_entry_add_def cfg_inv_def bindE_Inr_iff
      split: if_splits)

lemma cfg_inv_line: "cfg_inv st \<Longrightarrow> cfg_line st c = Inr st' \<Longrightarrow> cfg_inv st'"
  unfolding cfg_line_def cfg_indented_def Let_def
  by (auto split: if_splits option.splits dest: cfg_inv_key_val [rotated] intro!: cfg_inv_section)

lemma cfg_inv_loop: "cfg_inv st \<Longrightarrow> cfg_loop st s = Inr st' \<Longrightarrow> cfg_inv st'"
proof (induction st s rule: cfg_loop.induct)
  case (1 st s)
  show ?case
  proof (cases "s = []")
    case True
    with "1.prems" show ?thesis by (simp add: cfg_loop.simps)
  next
    case False
    with "1.prems"(2) obtain st1 where st1: "cfg_line st (fst (fgets_chunk s)) = Inr st1"
      and rest: "cfg_loop st1 (snd (fgets_chunk s)) = Inr st'"
      by (subst (asm) cfg_loop.simps) (auto split: sum.splits)
    from "1.IH" [OF False st1 cfg_inv_line [OF "1.prems"(1) st1] rest] show ?thesis .
  qed
qed

section \<open>Printing and parsing\<close>

text \<open>A configuration written in the indented style, four blanks deep.\<close>

definition print_entry :: "mk_config_entry \<Rightarrow> cstr" where
  "print_entry e = ''    '' @ ce_key e @ [SP] @ ce_val e @ [LF]"

definition print_section :: "mk_config_section \<Rightarrow> cstr" where
  "print_section s = ''['' @ sec_name s @ '']'' @ [LF] @ concat (map print_entry (sec_entries s))"

definition print_config :: "mk_config_section list \<Rightarrow> cstr" where
  "print_config secs = concat (map print_section secs)"

definition entry_wf :: "mk_config_entry \<Rightarrow> bool" where
  "entry_wf e \<longleftrightarrow>
     ce_key e \<noteq> [] \<and> (\<forall>c\<in>set (ce_key e). \<not> c_isspace c \<and> c \<noteq> NUL) \<and> hd (ce_key e) \<noteq> CHR ''#'' \<and>
     ce_val e \<noteq> [] \<and> (\<forall>c\<in>set (ce_val e). c \<noteq> LF \<and> c \<noteq> NUL) \<and>
     \<not> c_isspace (hd (ce_val e)) \<and> \<not> c_isspace (last (ce_val e)) \<and>
     2 * length (ce_key e) + length (ce_val e) \<le> 248"

definition section_wf :: "mk_config_section \<Rightarrow> bool" where
  "section_wf s \<longleftrightarrow>
     sec_name s \<noteq> [] \<and> (\<forall>c\<in>set (sec_name s). c \<noteq> LF \<and> c \<noteq> NUL \<and> c \<noteq> CHR '']'') \<and>
     length (sec_name s) \<le> 250 \<and> sec_entries s \<noteq> [] \<and> (\<forall>e\<in>set (sec_entries s). entry_wf e)"

lemma isspace_chars: "c_isspace SP" "c_isspace LF" "c_isspace CR" "c_isspace (CHR 0x09)"
  by (simp_all add: c_isspace_def byte_def)

lemma fgets_chunk_line:
  assumes "LF \<notin> set l" "length l \<le> 253"
  shows "fgets_chunk (l @ LF # rest) = (l @ [LF], rest)"
proof -
  have "find_index ((=) LF) (take 254 (l @ LF # rest)) = Some (length l)"
    using assms by (auto simp: find_index_Some_iff nth_append in_set_conv_nth)
  then show ?thesis by (simp add: fgets_chunk_def)
qed

lemma cfg_loop_line:
  assumes "LF \<notin> set l" "length l \<le> 253" "cfg_line st (l @ [LF]) = Inr st'"
  shows "cfg_loop st (l @ LF # rest) = cfg_loop st' rest"
  using assms by (subst cfg_loop.simps) (simp add: fgets_chunk_line)

lemma strip_eol_line:
  "NUL \<notin> set l \<Longrightarrow> l \<noteq> [] \<Longrightarrow> last l \<noteq> CR \<Longrightarrow> strip_eol (cstring (l @ [LF])) = l \<and> cstring (l @ [LF]) \<noteq> []"
  by (auto simp: strip_eol_def cstring_append)

lemma trim_ref_id:
  assumes "s \<noteq> []" "\<not> c_isspace (hd s)" "\<not> c_isspace (last s)"
  shows "trim_ref s = s"
proof -
  have "dropWhile c_isspace s = s" using assms by (cases s) auto
  moreover have "dropWhile c_isspace (rev s) = rev s"
    using assms by (cases s rule: rev_cases) auto
  ultimately show ?thesis by (simp add: trim_ref_def)
qed

lemma trim_id:
  assumes "s \<noteq> []" "\<not> c_isspace (hd s)" "\<not> c_isspace (last s)" "NUL \<notin> set s"
  shows "cstring (the (snd (mk_string_trim (Some s)))) = s"
proof -
  have "\<exists>c\<in>set (cstring s). \<not> c_isspace c"
    using assms by (intro bexI [of _ "hd s"]) (simp_all add: cstring_no_NUL)
  from mk_string_trim_spec [OF this] assms show ?thesis
    by (auto simp: cstring_no_NUL trim_ref_id cstring_append)
qed

lemma cfg_line_section:
  assumes "section_wf s" "pr_current st \<longrightarrow> pr_nkeys st \<noteq> 0"
  shows "cfg_line st (''['' @ sec_name s @ '']'' @ [LF]) =
    Inr (st\<lparr>pr_line := pr_line st + 1,
            pr_sections := pr_sections st @ [\<lparr>sec_name = sec_name s, sec_entries = []\<rparr>],
            pr_current := True, pr_nkeys := 0\<rparr>)"
proof -
  let ?n = "sec_name s" let ?l = "''['' @ ?n @ '']''"
  have nn: "NUL \<notin> set ?n" "CHR '']'' \<notin> set ?n" using assms(1) by (auto simp: section_wf_def)
  have eol: "strip_eol (cstring (?l @ [LF])) = ?l" "cstring (?l @ [LF]) \<noteq> []"
    using strip_eol_line [of ?l] nn by auto
  have srch: "mk_string_char_search ?l (CHR '']'') (int (length ?l)) = int (length ?n + 1)"
  proof -
    have "find_index ((=) (CHR '']'')) ?l = Some (length ?n + 1)"
      using nn by (auto simp: find_index_Some_iff nth_append nth_Cons' in_set_conv_nth)
    then show ?thesis by (simp add: mk_string_char_search_def memchr_def)
  qed
  have name: "the (mk_string_copy_substr ?l 1 (int (length ?n + 1))) = ?n"
    by (simp add: mk_string_copy_substr_def)
  have ck: "\<not> (pr_current (st\<lparr>pr_line := pr_line st + 1\<rparr>) \<and> pr_nkeys (st\<lparr>pr_line := pr_line st + 1\<rparr>) = 0)"
    using assms(2) by simp
  show ?thesis
    unfolding cfg_line_def append_assoc [symmetric] Let_def
    using eol srch name ck nn
    by (simp add: mk_config_section_add_def cstring_no_NUL)
qed

lemma cfg_line_entry:
  assumes e: "entry_wf e" and ind: "pr_indent st = None \<or> pr_indent st = Some ''    ''"
    and sec: "pr_sections st = ss @ [s]"
  shows "cfg_line st (''    '' @ ce_key e @ [SP] @ ce_val e @ [LF]) =
    Inr (st\<lparr>pr_line := pr_line st + 1, pr_indent := Some ''    '',
            pr_sections := ss @ [s\<lparr>sec_entries := sec_entries s @ [e]\<rparr>],
            pr_nkeys := pr_nkeys st + 1\<rparr>)"
proof -
  let ?k = "ce_key e" let ?v = "ce_val e"
  define l where "l = ''    '' @ ?k @ [SP] @ ?v"
  from e have k: "?k \<noteq> []" "\<forall>c\<in>set ?k. \<not> c_isspace c" "NUL \<notin> set ?k" "hd ?k \<noteq> CHR ''#''"
    and v: "?v \<noteq> []" "NUL \<notin> set ?v" "\<not> c_isspace (hd ?v)" "\<not> c_isspace (last ?v)"
    and len: "2 * length ?k + length ?v \<le> 248"
    by (auto simp: entry_wf_def)
  have ln: "NUL \<notin> set l" "l \<noteq> []" "last l \<noteq> CR"
    using k v isspace_chars by (auto simp: l_def)
  have eol: "strip_eol (cstring (l @ [LF])) = l" "cstring (l @ [LF]) \<noteq> []"
    using strip_eol_line [OF ln] by auto
  have hk: "\<not> c_isblank (hd ?k)"
    using k(2) hd_in_set [OF k(1)] isspace_chars unfolding c_isblank_def by metis
  have "takeWhile c_isblank (drop 1 l) = ''   ''"
    using hk k(1) by (cases ?k) (auto simp: l_def c_isblank_def)
  then have iw: "indent_width l = 4" by (simp add: indent_width_def)
  have r4: "rd_at l 4 = hd ?k" using k(1) by (cases ?k) (auto simp: l_def rd_at_def)
  have ll: "length l = 5 + length ?k + length ?v" by (simp add: l_def)
  have cmp: "strncmp_eq l ''    '' 4"
    using ln(1) by (simp add: strncmp_eq_iff cstring_no_NUL l_def)
  have indent: "(case pr_indent st of Some w \<Rightarrow> w | None \<Rightarrow> take (indent_width l) l) = ''    ''"
    using ind iw by (auto simp: l_def)
  have "SP \<notin> set ?k" using k(2) isspace_chars by blast
  then have "find_index ((=) SP) (?k @ [SP] @ ?v) = Some (length ?k)"
    by (auto simp: find_index_Some_iff nth_append in_set_conv_nth)
  then have srch: "mk_string_char_search (drop 4 l) SP (int (length l - 4)) = int (length ?k)"
    by (simp add: mk_string_char_search_def memchr_def l_def)
  have key: "the (mk_string_copy_substr (drop 4 l) 0 (int (length ?k))) = ?k"
    by (simp add: mk_string_copy_substr_def l_def)
  have "l = (''    '' @ ?k @ [SP]) @ ?v" by (simp add: l_def)
  moreover have "length (''    '' @ ?k @ [SP]) = 4 + nat (int (length ?k)) + 1" by simp
  ultimately have "drop (4 + nat (int (length ?k)) + 1) l = ?v"
    by (metis append_eq_conv_conj)
  then have val: "cstring (take (length l - 4 - 1) (drop (4 + nat (int (length ?k)) + 1) l)) = ?v"
    using v(2) ll by (simp add: cstring_no_NUL)
  have kv: "cfg_key_val (st\<lparr>pr_line := n, pr_indent := Some ''    ''\<rparr>) l 4 =
      Inr (st\<lparr>pr_line := n, pr_indent := Some ''    '',
              pr_sections := ss @ [s\<lparr>sec_entries := sec_entries s @ [e]\<rparr>],
              pr_nkeys := pr_nkeys st + 1\<rparr>)" for n
    unfolding cfg_key_val_def Let_def srch key val
    using k v len ll sec trim_id [of ?k] trim_id [of ?v]
    by (simp add: mk_config_entry_add_def)
  have ci: "cfg_indented (st\<lparr>pr_line := pr_line st + 1\<rparr>) l =
      cfg_key_val (st\<lparr>pr_line := pr_line st + 1, pr_indent := Some ''    ''\<rparr>) l 4"
  proof -
    define st1 where "st1 = st\<lparr>pr_line := pr_line st + 1\<rparr>"
    define wd where "wd = (case pr_indent st1 of Some w \<Rightarrow> w | None \<Rightarrow> take (indent_width l) l)"
    have wd: "wd = ''    ''" "length wd = 4" using indent by (simp_all add: wd_def st1_def)
    have "cfg_indented st1 l = cfg_key_val (st1\<lparr>pr_indent := Some wd\<rparr>) l (length wd)"
      unfolding cfg_indented_def Let_def wd_def [symmetric] wd(2)
      using iw ll cmp r4 hk k(4) by (simp add: wd(1))
    then show ?thesis unfolding wd(2) by (simp add: wd(1) st1_def)
  qed
  have "rd l = SP" by (simp add: l_def)
  then have "cfg_line st (l @ [LF]) =
      cfg_indented (st\<lparr>pr_line := pr_line st + 1\<rparr>) l"
    using eol by (simp add: cfg_line_def Let_def)
  then show ?thesis using ci kv [of "pr_line st + 1"] by (simp add: l_def)
qed

lemma cfg_loop_entries:
  "\<forall>e\<in>set es. entry_wf e \<Longrightarrow> pr_indent st = None \<or> pr_indent st = Some ''    '' \<Longrightarrow>
     pr_sections st = ss @ [s] \<Longrightarrow>
     \<exists>n w. (w = None \<or> w = Some ''    '') \<and>
       cfg_loop st (concat (map print_entry es) @ rest) =
       cfg_loop (st\<lparr>pr_line := n, pr_indent := w,
                    pr_sections := ss @ [s\<lparr>sec_entries := sec_entries s @ es\<rparr>],
                    pr_nkeys := pr_nkeys st + length es\<rparr>) rest"
proof (induction es arbitrary: st s)
  case Nil
  have eq: "st\<lparr>pr_line := pr_line st, pr_indent := pr_indent st,
      pr_sections := ss @ [s\<lparr>sec_entries := sec_entries s @ []\<rparr>],
      pr_nkeys := pr_nkeys st + length []\<rparr> = st"
    using Nil.prems(3) by (cases st) simp
  show ?case
    by (rule exI [of _ "pr_line st"], rule exI [of _ "pr_indent st"], subst eq)
      (use Nil.prems(2) in simp)
next
  case (Cons e es)
  let ?l = "''    '' @ ce_key e @ [SP] @ ce_val e"
  let ?st = "st\<lparr>pr_line := pr_line st + 1, pr_indent := Some ''    '',
            pr_sections := ss @ [s\<lparr>sec_entries := sec_entries s @ [e]\<rparr>],
            pr_nkeys := pr_nkeys st + 1\<rparr>"
  have e: "entry_wf e" using Cons.prems(1) by simp
  have lf: "LF \<notin> set ?l" "length ?l \<le> 253"
    using e isspace_chars by (auto simp: entry_wf_def)
  have "cfg_loop st (?l @ LF # (concat (map print_entry es) @ rest)) =
      cfg_loop ?st (concat (map print_entry es) @ rest)"
    by (rule cfg_loop_line [OF lf]) (use cfg_line_entry [OF e Cons.prems(2,3)] in simp)
  moreover have "\<exists>n w. (w = None \<or> w = Some ''    '') \<and>
     cfg_loop ?st (concat (map print_entry es) @ rest) =
     cfg_loop (?st\<lparr>pr_line := n, pr_indent := w,
        pr_sections := ss @ [(s\<lparr>sec_entries := sec_entries s @ [e]\<rparr>)
           \<lparr>sec_entries := sec_entries (s\<lparr>sec_entries := sec_entries s @ [e]\<rparr>) @ es\<rparr>],
        pr_nkeys := pr_nkeys ?st + length es\<rparr>) rest"
    by (rule Cons.IH) (use Cons.prems in auto)
  moreover have "print_entry e @ x = ?l @ LF # x" for x by (simp add: print_entry_def)
  ultimately show ?case by simp
qed

lemma cfg_loop_sections:
  "\<forall>s\<in>set secs. section_wf s \<Longrightarrow> pr_indent st = None \<or> pr_indent st = Some ''    '' \<Longrightarrow>
     pr_current st \<longrightarrow> pr_nkeys st \<noteq> 0 \<Longrightarrow>
     \<exists>st'. cfg_loop st (print_config secs) = Inr st' \<and> pr_sections st' = pr_sections st @ secs
       \<and> (secs \<noteq> [] \<longrightarrow> pr_nkeys st' \<noteq> 0)"
proof (induction secs arbitrary: st)
  case Nil
  then show ?case by (simp add: print_config_def cfg_loop.simps)
next
  case (Cons s secs)
  let ?l = "''['' @ sec_name s @ '']''"
  let ?st = "st\<lparr>pr_line := pr_line st + 1,
            pr_sections := pr_sections st @ [\<lparr>sec_name = sec_name s, sec_entries = []\<rparr>],
            pr_current := True, pr_nkeys := 0\<rparr>"
  have s: "section_wf s" using Cons.prems(1) by simp
  have lf: "LF \<notin> set ?l" "length ?l \<le> 253" using s by (auto simp: section_wf_def)
  have first: "cfg_loop st (print_config (s # secs)) =
      cfg_loop ?st (concat (map print_entry (sec_entries s)) @ print_config secs)"
    using cfg_loop_line [OF lf, of st ?st] cfg_line_section [OF s Cons.prems(3)]
    by (simp add: print_config_def print_section_def)
  obtain n w where w: "w = None \<or> w = Some ''    ''"
    and ents: "cfg_loop ?st (concat (map print_entry (sec_entries s)) @ print_config secs) =
      cfg_loop (?st\<lparr>pr_line := n, pr_indent := w, pr_sections := pr_sections st @ [s],
                    pr_nkeys := length (sec_entries s)\<rparr>) (print_config secs)"
  proof -
    let ?e = "\<lparr>sec_name = sec_name s, sec_entries = []\<rparr>"
    have "\<exists>n w. (w = None \<or> w = Some ''    '') \<and>
       cfg_loop ?st (concat (map print_entry (sec_entries s)) @ print_config secs) =
       cfg_loop (?st\<lparr>pr_line := n, pr_indent := w,
         pr_sections := pr_sections st @ [?e\<lparr>sec_entries := sec_entries ?e @ sec_entries s\<rparr>],
         pr_nkeys := pr_nkeys ?st + length (sec_entries s)\<rparr>) (print_config secs)"
      by (rule cfg_loop_entries) (use s Cons.prems(2) in \<open>simp_all add: section_wf_def\<close>)
    moreover have "?e\<lparr>sec_entries := sec_entries ?e @ sec_entries s\<rparr> = s" by simp
    moreover have "pr_nkeys ?st + length (sec_entries s) = length (sec_entries s)" by simp
    ultimately show ?thesis using that by metis
  qed
  let ?st2 = "?st\<lparr>pr_line := n, pr_indent := w, pr_sections := pr_sections st @ [s],
                    pr_nkeys := length (sec_entries s)\<rparr>"
  have "sec_entries s \<noteq> []" using s by (simp add: section_wf_def)
  with Cons.IH [of ?st2] Cons.prems(1) w obtain st' where
    "cfg_loop ?st2 (print_config secs) = Inr st'" "pr_sections st' = pr_sections st @ s # secs"
    "secs \<noteq> [] \<longrightarrow> pr_nkeys st' \<noteq> 0" by auto
  moreover have "pr_nkeys st' \<noteq> 0" if "secs = []"
    using calculation(1) that \<open>sec_entries s \<noteq> []\<close> by (auto simp: print_config_def cfg_loop.simps)
  ultimately show ?case using first ents by auto
qed

section \<open>Properties\<close>

text \<open>
  C19: parsing a printed configuration returns it: for sections with names, keys and trimmed
  values that fit the parser's line buffer, printing them in the indented style and running
  \<open>mk_config_create\<close> on the text gives back the same sections with the same entries in order.
\<close>

theorem mk_config_create_roundtrip:
  assumes "secs \<noteq> []" "\<forall>s\<in>set secs. section_wf s"
  shows "mk_config_create (Some (print_config secs)) = Inr (Some secs)"
  using cfg_loop_sections [OF assms(2), of cfg_parser_init] assms(1)
  by (auto simp: mk_config_create_def cfg_parser_init_def)

theorem mk_config_create_roundtrip_witness:
  "mk_config_create (Some (print_config
     [\<lparr>sec_name = ''SERVER'', sec_entries = [\<lparr>ce_key = ''Port'', ce_val = ''2001''\<rparr>]\<rparr>]))
   = Inr (Some [\<lparr>sec_name = ''SERVER'', sec_entries = [\<lparr>ce_key = ''Port'', ce_val = ''2001''\<rparr>]\<rparr>])"
proof -
  have "section_wf \<lparr>sec_name = ''SERVER'', sec_entries = [\<lparr>ce_key = ''Port'', ce_val = ''2001''\<rparr>]\<rparr>"
    by code_simp
  then show ?thesis by (intro mk_config_create_roundtrip) auto
qed

text \<open>
  Whatever the file holds, if \<open>mk_config_create\<close> returns a configuration then it has at
  least one section and every section has at least one key.
\<close>

theorem mk_config_create_no_empty_section:
  assumes "mk_config_create (Some text) = Inr (Some secs)"
  shows "secs \<noteq> [] \<and> (\<forall>s\<in>set secs. sec_entries s \<noteq> [])"
proof -
  from assms obtain st where st: "cfg_loop cfg_parser_init text = Inr st" "pr_nkeys st \<noteq> 0"
    and secs: "secs = pr_sections st"
    by (auto simp: mk_config_create_def split: sum.splits if_splits)
  from cfg_inv_loop [OF cfg_inv_init st(1)] st(2) have
    "secs \<noteq> []" "\<forall>s\<in>set (butlast secs). sec_entries s \<noteq> []" "sec_entries (last secs) \<noteq> []"
    by (auto simp: cfg_inv_def secs split: if_splits)
  moreover from this(1) have "set secs = set (butlast secs) \<union> {last secs}"
    by (metis append_butlast_last_id empty_set list.simps(15) set_append)
  ultimately show ?thesis by auto
qed

theorem mk_config_create_no_empty_section_witness:
  "sec_entries \<lparr>sec_name = ''S'', sec_entries = [\<lparr>ce_key = ''k'', ce_val = ''v''\<rparr>]\<rparr> \<noteq> []"
proof -
  let ?s = "\<lparr>sec_name = ''S'', sec_entries = [\<lparr>ce_key = ''k'', ce_val = ''v''\<rparr>]\<rparr>"
  have "mk_config_create (Some (print_config [?s])) = Inr (Some [?s])"
    by code_simp
  from mk_config_create_no_empty_section [OF this] show ?thesis by simp
qed

text \<open>
  C20: the virtual host lookup returns the first host, and its first alias, whose name is exactly
  the requested bytes, and fails exactly when no alias has that name.
\<close>

theorem mk_config_host_find_spec:
  assumes "\<forall>h\<in>set hs. \<forall>a\<in>set (h_server_names h). ha_len a = length (ha_name a) \<and> NUL \<notin> set (ha_name a)"
    and "p_len p \<le> length (view p)" "NUL \<notin> set (p_bytes p)"
  shows "(case mk_config_host_find p hs of
     None \<Rightarrow> \<forall>h\<in>set hs. \<forall>a\<in>set (h_server_names h). ha_name a \<noteq> p_bytes p
   | Some (h, a) \<Rightarrow> \<exists>before after. hs = before @ h # after \<and> a \<in> set (h_server_names h) \<and> ha_name a = p_bytes p
       \<and> (\<forall>h'\<in>set before. \<forall>a'\<in>set (h_server_names h'). ha_name a' \<noteq> p_bytes p))"
proof -
  have cs: "take (p_len p) (cstring (view p)) = p_bytes p"
  proof -
    have "view p = p_bytes p @ drop (p_len p) (view p)" by (simp add: p_bytes_def)
    then have "cstring (view p) = p_bytes p @ cstring (drop (p_len p) (view p))"
      using assms(3) by (metis cstring_append)
    then show ?thesis using assms(2) by (simp add: p_bytes_def)
  qed
  have m: "alias_matches p a \<longleftrightarrow> ha_name a = p_bytes p"
    if "ha_len a = length (ha_name a)" "NUL \<notin> set (ha_name a)" for a
    using that cs assms(2) by (auto simp: alias_matches_def strncmp_eq_iff cstring_no_NUL p_bytes_def)
  show ?thesis using assms(1)
  proof (induction hs)
    case Nil
    then show ?case by simp
  next
    case (Cons h hs)
    show ?case
    proof (cases "find (alias_matches p) (h_server_names h)")
      case None
      then have no: "\<forall>a\<in>set (h_server_names h). ha_name a \<noteq> p_bytes p"
        using Cons.prems m by (auto simp: find_None_iff)
      have ih: "case mk_config_host_find p hs of
          None \<Rightarrow> \<forall>h\<in>set hs. \<forall>a\<in>set (h_server_names h). ha_name a \<noteq> p_bytes p
        | Some (h, a) \<Rightarrow> \<exists>before after. hs = before @ h # after \<and> a \<in> set (h_server_names h) \<and> ha_name a = p_bytes p
            \<and> (\<forall>h'\<in>set before. \<forall>a'\<in>set (h_server_names h'). ha_name a' \<noteq> p_bytes p)"
        using Cons by simp
      show ?thesis
      proof (cases "mk_config_host_find p hs")
        case None
        with ih no \<open>find _ _ = None\<close> show ?thesis by simp
      next
        case (Some r)
        obtain h' a where r: "r = (h', a)" by fastforce
        with ih Some obtain b c where bc: "hs = b @ h' # c" "a \<in> set (h_server_names h')" "ha_name a = p_bytes p"
          "\<forall>x\<in>set b. \<forall>a'\<in>set (h_server_names x). ha_name a' \<noteq> p_bytes p" by auto
        have "h # hs = (h # b) @ h' # c \<and> a \<in> set (h_server_names h') \<and> ha_name a = p_bytes p
            \<and> (\<forall>x\<in>set (h # b). \<forall>a'\<in>set (h_server_names x). ha_name a' \<noteq> p_bytes p)"
          using bc no by auto
        then have "\<exists>before after. h # hs = before @ h' # after \<and> a \<in> set (h_server_names h')
            \<and> ha_name a = p_bytes p
            \<and> (\<forall>x\<in>set before. \<forall>a'\<in>set (h_server_names x). ha_name a' \<noteq> p_bytes p)"
          by (intro exI [of _ "h # b"] exI [of _ c])
        moreover have "mk_config_host_find p (h # hs) = Some (h', a)"
          using Some r \<open>find _ _ = None\<close> by simp
        ultimately show ?thesis by simp
      qed
    next
      case (Some a)
      then have "a \<in> set (h_server_names h)" "alias_matches p a"
        by (auto simp: find_Some_iff)
      then have "h # hs = [] @ h # hs \<and> a \<in> set (h_server_names h) \<and> ha_name a = p_bytes p
          \<and> (\<forall>h'\<in>set []. \<forall>a'\<in>set (h_server_names h'). ha_name a' \<noteq> p_bytes p)"
        using Cons.prems m by simp
      then have ex: "\<exists>before after. h # hs = before @ h # after \<and> a \<in> set (h_server_names h)
          \<and> ha_name a = p_bytes p
          \<and> (\<forall>h'\<in>set before. \<forall>a'\<in>set (h_server_names h'). ha_name a' \<noteq> p_bytes p)"
        by (intro exI [of _ "[]"] exI [of _ hs])
      have "mk_config_host_find p (h # hs) = Some (h, a)" using Some by simp
      then show ?thesis unfolding \<open>mk_config_host_find p (h # hs) = _\<close> option.case prod.case
        by (intro ex)
    qed
  qed
qed

definition demo_host :: host where
  "demo_host = \<lparr>h_file = ''x'', h_server_names = [\<lparr>ha_name = ''monkey'', ha_len = 6\<rparr>],
     h_documentroot = mk_pointer_set ''/srv'', h_signature = ''Monkey'',
     h_header_signature = mk_pointer_init ''Server: Monkey'', h_error_pages = []\<rparr>"

theorem mk_config_host_find_spec_witness:
  "\<exists>h a. mk_config_host_find (mk_pointer_init ''monkey'') [demo_host] = Some (h, a) \<and> ha_name a = ''monkey''"
proof -
  let ?p = "mk_pointer_init ''monkey''" let ?a = "\<lparr>ha_name = ''monkey'', ha_len = 6\<rparr>"
  have a: "h_server_names demo_host = [?a]" by (simp add: demo_host_def)
  have pb: "p_bytes ?p = ''monkey''" "p_len ?p \<le> length (view ?p)"
    by (simp_all add: mk_pointer_init_def p_bytes_def)
  have c: "(case mk_config_host_find ?p [demo_host] of
     None \<Rightarrow> \<forall>h\<in>set [demo_host]. \<forall>a\<in>set (h_server_names h). ha_name a \<noteq> p_bytes ?p
   | Some (h, a) \<Rightarrow> \<exists>before after. [demo_host] = before @ h # after \<and> a \<in> set (h_server_names h)
       \<and> ha_name a = p_bytes ?p
       \<and> (\<forall>h'\<in>set before. \<forall>a'\<in>set (h_server_names h'). ha_name a' \<noteq> p_bytes ?p))"
    by (rule mk_config_host_find_spec) (use a pb in simp_all)
  show ?thesis
  proof (cases "mk_config_host_find ?p [demo_host]")
    case None
    with c a pb(1) show ?thesis by simp
  next
    case (Some r)
    obtain h b where r: "r = (h, b)" by fastforce
    from c have "ha_name b = p_bytes ?p" unfolding Some r option.case prod.case by blast
    with Some r pb(1) show ?thesis by simp
  qed
qed

text \<open>
  C21: a host name is matched case-sensitively against aliases stored in lower case: no host built
  by \<open>mk_config_get_host\<close> answers to a Host header with an upper-case letter.
\<close>

theorem mk_config_host_upper_case_unmatched:
  assumes "mk_config_get_host version hide path contents = Inr (Some h)"
    and "p_len p \<le> length (view p)" "NUL \<notin> set (p_bytes p)" "\<exists>c\<in>set (p_bytes p). c_tolower c \<noteq> c"
  shows "mk_config_host_find p [h] = None"
proof -
  from assms(1) obtain names where h: "h_server_names h = host_aliases names"
    by (auto simp: mk_config_get_host_def bindE_def Let_def
        split: sum.splits option.splits if_splits)
  have "\<not> alias_matches p a" if "a \<in> set (h_server_names h)" for a
  proof
    assume m: "alias_matches p a"
    note mem = that
    obtain e :: mk_string_line where e: "ha_name a = map c_tolower (cstring (sl_val e))"
    proof -
      from mem obtain e where "a = \<lparr>ha_name = mk_string_tolower (sl_val e), ha_len = sl_len e\<rparr>"
          "e \<in> set (filter (\<lambda>e. \<not> MK_HOSTNAME_LEN - 1 < sl_len e) names)"
        unfolding h host_aliases_def set_map by (rule imageE)
      from this(1) have "ha_name a = mk_string_tolower (sl_val e)" by simp
      then show ?thesis using that unfolding mk_string_tolower_def by blast
    qed
    then have low: "\<forall>c\<in>set (cstring (ha_name a)). c_tolower c = c"
      by (auto simp: cstring_def dest!: set_takeWhileD)
    have "view p = p_bytes p @ drop (p_len p) (view p)" by (simp add: p_bytes_def)
    then have "cstring (view p) = p_bytes p @ cstring (drop (p_len p) (view p))"
      using assms(3) by (metis cstring_append)
    then have "take (p_len p) (cstring (view p)) = p_bytes p"
      using assms(2) by (simp add: p_bytes_def)
    then have "p_bytes p = take (p_len p) (cstring (ha_name a))"
      using m by (simp add: alias_matches_def strncmp_eq_iff)
    then have "\<forall>c\<in>set (p_bytes p). c_tolower c = c" using low by (auto dest: in_set_takeD)
    with assms(4) show False by blast
  qed
  then have "find (alias_matches p) (h_server_names h) = None" by (auto simp: find_None_iff)
  then show ?thesis by simp
qed

theorem mk_config_host_upper_case_unmatched_witness:
  "\<exists>h. mk_config_get_host ''1.2'' False ''f'' (Some (print_config [\<lparr>sec_name = ''HOST'', sec_entries =
       [\<lparr>ce_key = ''Servername'', ce_val = ''monkey''\<rparr>, \<lparr>ce_key = ''DocumentRoot'', ce_val = ''/srv''\<rparr>]\<rparr>]))
       = Inr (Some h)
     \<and> mk_config_host_find (mk_pointer_init ''Monkey'') [h] = None"
proof -
  let ?c = "Some (print_config [\<lparr>sec_name = ''HOST'', sec_entries =
       [\<lparr>ce_key = ''Servername'', ce_val = ''monkey''\<rparr>, \<lparr>ce_key = ''DocumentRoot'', ce_val = ''/srv''\<rparr>]\<rparr>])"
  have "case mk_config_get_host ''1.2'' False ''f'' ?c of Inr (Some h) \<Rightarrow> True | _ \<Rightarrow> False"
    by code_simp
  then obtain h where h: "mk_config_get_host ''1.2'' False ''f'' ?c = Inr (Some h)"
    by (auto split: sum.splits option.splits)
  have "\<exists>c\<in>set ''Monkey''. c_tolower c \<noteq> c" by code_simp
  then show ?thesis
    using mk_config_host_upper_case_unmatched [OF h, of "mk_pointer_init ''Monkey''"] h
    by (simp add: mk_pointer_init_def p_bytes_def)
qed

text \<open>
  C22: which SERVER sections the server accepts, exactly, and the numbers it then runs with. The
  section is accepted if and only if the port is one of 2 to 65534, there is a worker (the
  configured number, or the number of processors when that is below one), the timeout is at least
  one second, the two keep-alive numbers are not zero, the request size is positive and the four
  switches are well formed; every other section ends the server. Each number, read at the width of
  its field, is what the server runs with; the request size becomes a number of bytes, which is
  the configured number of kilobytes up to 2097151 of them and wraps around from there on. This is
  not the range that the comments of \<^verbatim>\<open>lang/en/mconf\<close> give: the ports 1 and 65535 are refused, and
  negative keep-alive values are accepted.
\<close>

theorem mk_config_read_server_bounds:
  fixes sec :: mk_config_section and nproc :: int
  defines "num \<equiv> \<lambda>k. val_num (mk_config_section_getval sec k MK_CONFIG_VAL_NUM)"
    and "bool \<equiv> \<lambda>k. val_num (mk_config_section_getval sec k MK_CONFIG_VAL_BOOL)"
  defines "wrk \<equiv> (if int16 (num ''Workers'') < 1 then int16 nproc else int16 (num ''Workers''))"
    and "kb \<equiv> int32 (num ''MaxRequestSize'')"
  shows "case mk_config_read_server rlim nproc sec cfg of
      Inl e \<Rightarrow> e = ExitFailure
        \<and> (int32 (num ''Port'') < 2 \<or> 65534 < int32 (num ''Port'') \<or> wrk < 1
          \<or> int32 (num ''Timeout'') < 1 \<or> int32 (num ''MaxKeepAliveRequest'') = 0
          \<or> int32 (num ''KeepAliveTimeout'') = 0 \<or> kb < 1
          \<or> (\<exists>k \<in> {''KeepAlive'', ''HideVersion'', ''Resume'', ''SymLink''}. bool k = -1))
    | Inr c \<Rightarrow>
        serverport c = int32 (num ''Port'') \<and> serverport c \<in> {2..65534}
        \<and> workers c = wrk \<and> 1 \<le> workers c
        \<and> timeout c = int32 (num ''Timeout'') \<and> 1 \<le> timeout c
        \<and> max_keep_alive_request c = int32 (num ''MaxKeepAliveRequest'')
        \<and> max_keep_alive_request c \<noteq> 0
        \<and> keep_alive_timeout c = int32 (num ''KeepAliveTimeout'') \<and> keep_alive_timeout c \<noteq> 0
        \<and> 0 < kb \<and> max_request_size c = int32 (kb * 1024)
        \<and> (max_request_size c = kb * 1024 \<longleftrightarrow> kb < 2097152)
        \<and> (\<forall>k \<in> {''KeepAlive'', ''HideVersion'', ''Resume'', ''SymLink''}. bool k \<noteq> -1)"
proof (cases "mk_config_read_server rlim nproc sec cfg")
  case (Inl e)
  then have "e = ExitFailure
        \<and> (int32 (num ''Port'') < 2 \<or> 65534 < int32 (num ''Port'') \<or> wrk < 1
          \<or> int32 (num ''Timeout'') < 1 \<or> int32 (num ''MaxKeepAliveRequest'') = 0
          \<or> int32 (num ''KeepAliveTimeout'') = 0 \<or> kb < 1
          \<or> bool ''KeepAlive'' = -1 \<or> bool ''HideVersion'' = -1 \<or> bool ''Resume'' = -1
          \<or> bool ''SymLink'' = -1)"
    unfolding mk_config_read_server_def num_def [symmetric] bool_def [symmetric] Let_def
      wrk_def [symmetric] kb_def [symmetric]
    by (auto split: if_split_asm)
  with Inl show ?thesis by auto
next
  case (Inr c)
  then have ok: "\<not> (int32 (num ''Port'') \<le> 1 \<or> 65535 \<le> int32 (num ''Port''))" "\<not> wrk < 1"
      "\<not> int32 (num ''Timeout'') < 1" "int32 (num ''MaxKeepAliveRequest'') \<noteq> 0"
      "int32 (num ''KeepAliveTimeout'') \<noteq> 0" "\<not> kb \<le> 0" "bool ''KeepAlive'' \<noteq> -1"
      "bool ''HideVersion'' \<noteq> -1" "bool ''Resume'' \<noteq> -1" "bool ''SymLink'' \<noteq> -1"
    unfolding mk_config_read_server_def num_def [symmetric] bool_def [symmetric] Let_def
      wrk_def [symmetric] kb_def [symmetric]
    by (simp_all split: if_split_asm)
  from Inr have c: "serverport c = int32 (num ''Port'')" "workers c = wrk"
      "timeout c = int32 (num ''Timeout'')"
      "max_keep_alive_request c = int32 (num ''MaxKeepAliveRequest'')"
      "keep_alive_timeout c = int32 (num ''KeepAliveTimeout'')"
      "max_request_size c = int32 (kb * 1024)"
    unfolding mk_config_read_server_def num_def [symmetric] bool_def [symmetric] Let_def
      wrk_def [symmetric] kb_def [symmetric]
    by (simp_all only: ok if_False sum.inject) auto
  have "int32 (kb * 1024) = kb * 1024 \<longleftrightarrow> kb < 2097152"
  proof
    assume "int32 (kb * 1024) = kb * 1024"
    with int32_range [of "kb * 1024"] show "kb < 2097152" by linarith
  next
    assume "kb < 2097152"
    with ok(6) show "int32 (kb * 1024) = kb * 1024" by (intro int32_id) auto
  qed
  with c ok Inr show ?thesis by auto
qed

definition demo_server :: mk_config_section where
  "demo_server = \<lparr>sec_name = ''SERVER'', sec_entries =
     [\<lparr>ce_key = ''Port'', ce_val = ''2001''\<rparr>, \<lparr>ce_key = ''Workers'', ce_val = ''4''\<rparr>,
      \<lparr>ce_key = ''Timeout'', ce_val = ''15''\<rparr>, \<lparr>ce_key = ''KeepAlive'', ce_val = ''on''\<rparr>,
      \<lparr>ce_key = ''MaxKeepAliveRequest'', ce_val = ''50''\<rparr>, \<lparr>ce_key = ''KeepAliveTimeout'', ce_val = ''-5''\<rparr>,
      \<lparr>ce_key = ''MaxRequestSize'', ce_val = ''4194304''\<rparr>]\<rparr>"

lemma demo_server_num:
  "val_num (mk_config_section_getval demo_server ''Port'' MK_CONFIG_VAL_NUM) = 2001"
  "val_num (mk_config_section_getval demo_server ''Workers'' MK_CONFIG_VAL_NUM) = 4"
  "val_num (mk_config_section_getval demo_server ''Timeout'' MK_CONFIG_VAL_NUM) = 15"
  "val_num (mk_config_section_getval demo_server ''MaxKeepAliveRequest'' MK_CONFIG_VAL_NUM) = 50"
  "val_num (mk_config_section_getval demo_server ''KeepAliveTimeout'' MK_CONFIG_VAL_NUM) = -5"
  "val_num (mk_config_section_getval demo_server ''MaxRequestSize'' MK_CONFIG_VAL_NUM) = 4194304"
  by code_simp+

lemma demo_server_bool:
  "val_num (mk_config_section_getval demo_server ''KeepAlive'' MK_CONFIG_VAL_BOOL) = 1"
  "val_num (mk_config_section_getval demo_server ''HideVersion'' MK_CONFIG_VAL_BOOL) = 0"
  "val_num (mk_config_section_getval demo_server ''Resume'' MK_CONFIG_VAL_BOOL) = 0"
  "val_num (mk_config_section_getval demo_server ''SymLink'' MK_CONFIG_VAL_BOOL) = 0"
  by code_simp+

theorem mk_config_read_server_bounds_witness:
  "\<exists>c. mk_config_read_server 1024 4 demo_server mk_config_set_init_values = Inr c
     \<and> serverport c \<in> {2..65534} \<and> keep_alive_timeout c = -5 \<and> max_request_size c \<noteq> 4194304 * 1024"
  using mk_config_read_server_bounds [where rlim = 1024 and nproc = 4 and sec = demo_server
    and cfg = mk_config_set_init_values]
  by (auto simp: demo_server_num demo_server_bool int32_id int16_def split: sum.splits)

end
