(* ===== verification/Mk_Gmt.thy ===== *)
theory Mk_Gmt
  imports Mk_Utils
begin

text \<open>
  The date texts of the server: \<open>mk_utils_utime2gmt\<close> with its cache of ten texts per thread
  (\<^verbatim>\<open>src/mk_utils.c\<close>) and the double-buffered current time (\<^verbatim>\<open>src/mk_clock.c\<close>). The C library's
  \<open>gmtime_r\<close> is the proleptic Gregorian calendar, computed by whole 400-year cycles, then
  years, then months.
\<close>

section \<open>\<open>gmtime_r\<close>\<close>

record tm =
  tm_sec :: nat
  tm_min :: nat
  tm_hour :: nat
  tm_mday :: nat
  tm_mon :: nat
  tm_year :: int
  tm_wday :: nat

definition is_leap :: "int \<Rightarrow> bool" where
  "is_leap y \<longleftrightarrow> y mod 4 = 0 \<and> (y mod 100 \<noteq> 0 \<or> y mod 400 = 0)"

definition year_len :: "int \<Rightarrow> nat" where
  "year_len y = (if is_leap y then 366 else 365)"

function year_search :: "int \<Rightarrow> nat \<Rightarrow> int \<times> nat" where
  "year_search y d = (if d < year_len y then (y, d) else year_search (y + 1) (d - year_len y))"
  by pat_completeness auto
termination
  by (relation "measure snd") (auto simp: year_len_def)

declare year_search.simps [simp del]

definition month_lens :: "int \<Rightarrow> nat list" where
  "month_lens y = [31, if is_leap y then 29 else 28, 31, 30, 31, 30, 31, 31, 30, 31, 30, 31]"

fun month_search :: "nat list \<Rightarrow> nat \<Rightarrow> nat \<Rightarrow> nat \<times> nat" where
  "month_search [] m d = (m, d)"
| "month_search (l # ls) m d = (if d < l then (m, d) else month_search ls (m + 1) (d - l))"

definition gmtime :: "int \<Rightarrow> tm" where
  "gmtime date =
     (let days = date div 86400; secs = nat (date mod 86400);
          cycle = days div 146097; (y, yd) = year_search 1970 (nat (days mod 146097));
          (m, md) = month_search (month_lens y) 0 yd
      in \<lparr>tm_sec = secs mod 60, tm_min = secs div 60 mod 60, tm_hour = secs div 3600,
          tm_mday = md + 1, tm_mon = m, tm_year = y + 400 * cycle - 1900,
          tm_wday = nat ((days + 4) mod 7)\<rparr>)"

text \<open>NULL when the year does not fit the \<open>int\<close> field.\<close>

definition gmtime_r :: "int \<Rightarrow> tm option" where
  "gmtime_r date =
     (let t = gmtime date in
      if - 2147483648 \<le> tm_year t \<and> tm_year t < 2147483648 then Some t else None)"

section \<open>The text of a date\<close>

definition mk_date_wd :: "cstr list" where
  "mk_date_wd = [''Sun, '', ''Mon, '', ''Tue, '', ''Wed, '', ''Thu, '', ''Fri, '', ''Sat, '']"

definition mk_date_ym :: "cstr list" where
  "mk_date_ym = [''Jan '', ''Feb '', ''Mar '', ''Apr '', ''May '', ''Jun '', ''Jul '',
                 ''Aug '', ''Sep '', ''Oct '', ''Nov '', ''Dec '']"

definition ushort :: "int \<Rightarrow> nat" where
  "ushort x = nat (x mod 65536)"

definition dig :: "nat \<Rightarrow> char" where
  "dig n = mkchar ((48 + n) mod 256)"

definition gmt_compose :: "tm \<Rightarrow> cstr" where
  "gmt_compose gtm =
     (let year = ushort (tm_year gtm + 1900); mday = tm_mday gtm; hour = tm_hour gtm;
          mi = tm_min gtm; sec = tm_sec gtm
      in mk_date_wd ! tm_wday gtm
         @ [dig (mday div 10), dig (mday mod 10), SP]
         @ mk_date_ym ! tm_mon gtm
         @ [dig (year div 1000 mod 10), dig (year div 100 mod 10), dig (year div 10 mod 10),
            dig (year mod 10), SP]
         @ [dig (hour div 10), dig (hour mod 10), CHR '':'']
         @ [dig (mi div 10), dig (mi mod 10), CHR '':'']
         @ [dig (sec div 10), dig (sec mod 10)]
         @ '' GMT'' @ [CR, LF, NUL])"

section \<open>The cache\<close>

definition MK_GMT_CACHES :: nat where "MK_GMT_CACHES = 10"

record mk_gmt_cache =
  gc_time :: int
  gc_text :: cstr
  gc_hits :: nat

definition gmt_cache_init :: "mk_gmt_cache list" where
  "gmt_cache_init =
     replicate MK_GMT_CACHES \<lparr>gc_time = 0, gc_text = replicate 32 NUL, gc_hits = 0\<rparr>"

text \<open>A hit returns the stored text and counts the hit, an unsigned 64-bit counter.\<close>

definition mk_utils_gmt_cache_get ::
  "mk_gmt_cache list \<Rightarrow> int \<Rightarrow> (cstr \<times> mk_gmt_cache list) option" where
  "mk_utils_gmt_cache_get gcache date =
     (case find_index (\<lambda>e. date = gc_time e) gcache of
        None \<Rightarrow> None
      | Some i \<Rightarrow>
          Some (gc_text (gcache ! i),
                gcache[i := (gcache ! i)\<lparr>gc_hits := (gc_hits (gcache ! i) + 1) mod 2 ^ 64\<rparr>]))"

fun min_hits_from :: "mk_gmt_cache list \<Rightarrow> nat \<Rightarrow> nat \<Rightarrow> nat \<Rightarrow> nat" where
  "min_hits_from g i 0 mi = mi"
| "min_hits_from g i (Suc n) mi =
     min_hits_from g (i + 1) n (if gc_hits (g ! i) < gc_hits (g ! mi) then i else mi)"

definition mk_utils_gmt_cache_add :: "mk_gmt_cache list \<Rightarrow> cstr \<Rightarrow> int \<Rightarrow> mk_gmt_cache list" where
  "mk_utils_gmt_cache_add gcache data time =
     (let mi = min_hits_from gcache 1 (MK_GMT_CACHES - 1) 0
      in gcache[mi := \<lparr>gc_time = time, gc_text = take 32 data, gc_hits = 1\<rparr>])"

text \<open>
  \<open>mk_utils_utime2gmt\<close>: the returned length (\<open>-1\<close> on error), the text written to \<open>*data\<close> and the
  cache after the call; \<open>now\<close> is what \<open>time(NULL)\<close> returns, used when \<open>date\<close> is 0.
\<close>

definition utime2gmt_fresh :: "mk_gmt_cache list \<Rightarrow> int \<Rightarrow> int \<times> cstr option \<times> mk_gmt_cache list" where
  "utime2gmt_fresh g date =
     (case gmtime_r date of
        None \<Rightarrow> (-1, None, g)
      | Some gtm \<Rightarrow>
          (let buf = gmt_compose gtm in (31, Some buf, mk_utils_gmt_cache_add g buf date)))"

definition mk_utils_utime2gmt ::
  "mk_gmt_cache list \<Rightarrow> int \<Rightarrow> int \<Rightarrow> int \<times> cstr option \<times> mk_gmt_cache list" where
  "mk_utils_utime2gmt g now date =
     (if date = 0 then (if now = -1 then (-1, None, g) else utime2gmt_fresh g now)
      else case mk_utils_gmt_cache_get g date of
             Some (text, g') \<Rightarrow> (31, Some text, g')
           | None \<Rightarrow> utime2gmt_fresh g date)"

section \<open>The clock\<close>

text \<open>
  Two buffers per text; readers take the published one. \<open>clk_next_buffer\<close> picks the buffer that is
  not published; a tick writes that buffer and then publishes it.
\<close>

record clock_text =
  clk_buf0 :: cstr
  clk_buf1 :: cstr
  clk_pub :: "nat option"

definition clk_next_buffer :: "clock_text \<Rightarrow> nat" where
  "clk_next_buffer c = (if clk_pub c = Some 0 then 1 else 0)"

definition clk_write :: "clock_text \<Rightarrow> nat \<Rightarrow> cstr \<Rightarrow> clock_text" where
  "clk_write c i t = (if i = 0 then c\<lparr>clk_buf0 := t\<rparr> else c\<lparr>clk_buf1 := t\<rparr>)"

definition clk_published :: "clock_text \<Rightarrow> cstr option" where
  "clk_published c = map_option (\<lambda>i. if i = 0 then clk_buf0 c else clk_buf1 c) (clk_pub c)"

text \<open>The two halves of a tick: the \<open>strftime\<close> into the free buffer, and the publication.\<close>

definition clk_format :: "clock_text \<Rightarrow> cstr \<Rightarrow> clock_text" where
  "clk_format c t = clk_write c (clk_next_buffer c) t"

definition mk_clock_header_set_time :: "clock_text \<Rightarrow> int \<Rightarrow> clock_text" where
  "mk_clock_header_set_time c utime =
     (case gmtime_r utime of
        None \<Rightarrow> c
      | Some t \<Rightarrow> (clk_format c (gmt_compose t))\<lparr>clk_pub := Some (clk_next_buffer c)\<rparr>)"

definition clock_tick :: "clock_text \<Rightarrow> int \<Rightarrow> clock_text" where
  "clock_tick c cur_time = (if cur_time \<noteq> -1 then mk_clock_header_set_time c cur_time else c)"

definition mk_clock_sequential_init :: "int \<Rightarrow> clock_text" where
  "mk_clock_sequential_init cur_time =
     clock_tick \<lparr>clk_buf0 = replicate 32 NUL, clk_buf1 = replicate 32 NUL, clk_pub = None\<rparr> cur_time"

section \<open>Lemmas\<close>

lemma year_search_bound: "snd (year_search y d) < year_len (fst (year_search y d))"
proof (induction y d rule: year_search.induct)
  case (1 y d)
  then show ?case by (cases "d < year_len y") (auto simp: year_search.simps [of y d])
qed

lemma month_search_bound:
  "d < sum_list ls \<Longrightarrow>
     fst (month_search ls m d) < m + length ls \<and>
     snd (month_search ls m d) < ls ! (fst (month_search ls m d) - m) \<and> m \<le> fst (month_search ls m d)"
proof (induction ls m d rule: month_search.induct)
  case (1 m d)
  then show ?case by simp
next
  case (2 l ls m d)
  show ?case
  proof (cases "d < l")
    case False
    then have "d - l < sum_list ls" using "2.prems" by simp
    from "2.IH" [OF False this] False show ?thesis by (auto simp: nth_Cons')
  qed simp
qed

lemma month_lens_sum: "sum_list (month_lens y) = year_len y"
  by (simp add: month_lens_def year_len_def)

lemma month_lens_length: "length (month_lens y) = 12"
  by (simp add: month_lens_def)

lemma month_lens_le: "i < 12 \<Longrightarrow> month_lens y ! i \<le> 31"
  by (auto simp: month_lens_def nth_Cons' )

lemma gmtime_fields:
  "tm_mon (gmtime t) < 12 \<and> 1 \<le> tm_mday (gmtime t) \<and> tm_mday (gmtime t) \<le> 31 \<and> tm_hour (gmtime t) < 24
   \<and> tm_min (gmtime t) < 60 \<and> tm_sec (gmtime t) < 60 \<and> tm_wday (gmtime t) < 7"
proof -
  obtain y yd where y: "year_search 1970 (nat (t div 86400 mod 146097)) = (y, yd)" by fastforce
  obtain m md where m: "month_search (month_lens y) 0 yd = (m, md)" by fastforce
  have "yd < sum_list (month_lens y)"
    using year_search_bound [of 1970 "nat (t div 86400 mod 146097)"] y by (simp add: month_lens_sum)
  from month_search_bound [OF this, of 0] m have md: "m < 12" "md < month_lens y ! m"
    by (simp_all add: month_lens_length)
  have "md < 31" using md(2) month_lens_le [OF md(1), of y] by linarith
  define secs where "secs = nat (t mod 86400)"
  define wd where "wd = nat ((t div 86400 + 4) mod 7)"
  have eq: "gmtime t = \<lparr>tm_sec = secs mod 60, tm_min = secs div 60 mod 60, tm_hour = secs div 3600,
      tm_mday = md + 1, tm_mon = m, tm_year = y + 400 * (t div 86400 div 146097) - 1900, tm_wday = wd\<rparr>"
    unfolding gmtime_def by (simp only: Let_def y m split_conv secs_def wd_def)
  have "secs < 86400" "wd < 7" by (simp_all add: secs_def wd_def)
  moreover from this have "secs div 3600 < 24" by (simp add: div_less_iff_less_mult)
  ultimately show ?thesis using md \<open>md < 31\<close> by (simp add: eq)
qed

lemma gmt_compose_length: "length (gmt_compose (gmtime t)) = 32"
proof -
  have "length (mk_date_wd ! i) = 5" if "i < 7" for i
    using that by (auto simp: mk_date_wd_def nth_Cons' )
  moreover have "length (mk_date_ym ! i) = 4" if "i < 12" for i
    using that by (auto simp: mk_date_ym_def nth_Cons' )
  ultimately show ?thesis using gmtime_fields [of t] by (simp add: gmt_compose_def Let_def)
qed

lemma gmtime_r_Some: "gmtime_r t = Some g \<Longrightarrow> g = gmtime t"
  by (auto simp: gmtime_r_def Let_def split: if_splits)

lemma min_hits_from_spec:
  "mi < i \<Longrightarrow> i + n = length g \<Longrightarrow> (\<forall>j<i. gc_hits (g ! mi) \<le> gc_hits (g ! j)) \<Longrightarrow>
     min_hits_from g i n mi < length g \<and>
     (\<forall>j<length g. gc_hits (g ! min_hits_from g i n mi) \<le> gc_hits (g ! j))"
proof (induction g i n mi rule: min_hits_from.induct)
  case (1 g i mi)
  then show ?case by simp
next
  case (2 g i n mi)
  show ?case
    unfolding min_hits_from.simps
  proof (rule "2.IH")
    show "\<forall>j<i + 1. gc_hits (g ! (if gc_hits (g ! i) < gc_hits (g ! mi) then i else mi)) \<le> gc_hits (g ! j)"
      using "2.prems"(3) by (auto simp: less_Suc_eq intro: order.trans order_less_imp_le)
  qed (use "2.prems" in auto)
qed

text \<open>
  The coherence of the cache: every slot that holds a date holds that date's text. The zero date
  marks the empty slots; the cache is never asked for it.
\<close>

definition gmt_cache_ok :: "mk_gmt_cache list \<Rightarrow> bool" where
  "gmt_cache_ok g \<longleftrightarrow>
     length g = MK_GMT_CACHES \<and>
     (\<forall>e\<in>set g. gc_time e \<noteq> 0 \<longrightarrow> map_option gmt_compose (gmtime_r (gc_time e)) = Some (gc_text e))"

lemma gmt_cache_ok_update:
  "gmt_cache_ok g \<Longrightarrow>
     (gc_time e \<noteq> 0 \<longrightarrow> map_option gmt_compose (gmtime_r (gc_time e)) = Some (gc_text e)) \<Longrightarrow>
     gmt_cache_ok (g[i := e])"
  by (auto simp: gmt_cache_ok_def dest!: set_update_subset_insert [THEN subsetD])

lemma gmt_cache_get_ok:
  assumes ok: "gmt_cache_ok g" and get: "mk_utils_gmt_cache_get g date = Some (text, g')" and "date \<noteq> 0"
  shows "map_option gmt_compose (gmtime_r date) = Some text \<and> gmt_cache_ok g'"
proof -
  from get obtain i where i: "find_index (\<lambda>e. date = gc_time e) g = Some i"
    and t: "text = gc_text (g ! i)"
    and g': "g' = g[i := (g ! i)\<lparr>gc_hits := (gc_hits (g ! i) + 1) mod 2 ^ 64\<rparr>]"
    by (auto simp: mk_utils_gmt_cache_get_def split: option.splits)
  from find_index_SomeD [OF i] have "g ! i \<in> set g" "gc_time (g ! i) = date" by auto
  with ok assms(3) have e: "map_option gmt_compose (gmtime_r (gc_time (g ! i))) = Some (gc_text (g ! i))"
    unfolding gmt_cache_ok_def by blast
  with \<open>gc_time (g ! i) = date\<close> t show ?thesis
    unfolding g' using gmt_cache_ok_update [OF ok, of "(g ! i)\<lparr>gc_hits := (gc_hits (g ! i) + 1) mod 2 ^ 64\<rparr>" i]
    by simp
qed

lemma utime2gmt_fresh_ok:
  assumes "gmt_cache_ok g"
  shows "case gmtime_r date of
      None \<Rightarrow> utime2gmt_fresh g date = (-1, None, g)
    | Some t \<Rightarrow> \<exists>g'. utime2gmt_fresh g date = (31, Some (gmt_compose t), g') \<and> gmt_cache_ok g'"
proof (cases "gmtime_r date")
  case None
  then show ?thesis by (simp add: utime2gmt_fresh_def)
next
  case (Some t)
  then have "length (gmt_compose t) = 32" using gmtime_r_Some [OF Some] gmt_compose_length by simp
  then have "gmt_cache_ok (mk_utils_gmt_cache_add g (gmt_compose t) date)"
    using Some by (simp add: mk_utils_gmt_cache_add_def Let_def gmt_cache_ok_update [OF assms])
  with Some show ?thesis by (simp add: utime2gmt_fresh_def Let_def)
qed

lemmas gmt_eval =
  gmtime_r_def gmtime_def gmt_compose_def Let_def year_search.simps year_len_def is_leap_def
  month_lens_def mk_date_wd_def mk_date_ym_def ushort_def dig_def mkchar_def char_of_def bit_0

section \<open>Properties\<close>

text \<open>
  C17: \<open>mk_utils_utime2gmt\<close> is transparent to its cache: from a coherent cache it returns the
  length 31 with exactly the text that the date (or, for 0, the current time) has without a
  cache, whether the text was cached or not, and leaves the cache coherent. It returns \<open>-1\<close>
  only when the date has no representable year or the clock fails.
\<close>

theorem mk_utils_utime2gmt_transparent:
  assumes "gmt_cache_ok g" "now \<noteq> -1" "gmtime_r (if date = 0 then now else date) = Some t"
  shows "\<exists>g'. mk_utils_utime2gmt g now date = (31, Some (gmt_compose t), g') \<and> gmt_cache_ok g'"
proof (cases "date = 0")
  case True
  then show ?thesis
    using utime2gmt_fresh_ok [OF assms(1), of now] assms by (simp add: mk_utils_utime2gmt_def)
next
  case False
  show ?thesis
  proof (cases "mk_utils_gmt_cache_get g date")
    case None
    with False show ?thesis
      using utime2gmt_fresh_ok [OF assms(1), of date] assms by (simp add: mk_utils_utime2gmt_def)
  next
    case (Some r)
    then obtain tx g' where r: "mk_utils_gmt_cache_get g date = Some (tx, g')" by (cases r) auto
    from gmt_cache_get_ok [OF assms(1) r False] False r assms(3) show ?thesis
      by (simp add: mk_utils_utime2gmt_def)
  qed
qed

lemma gmt_cache_init_ok: "gmt_cache_ok gmt_cache_init"
  by (simp add: gmt_cache_ok_def gmt_cache_init_def)

theorem mk_utils_utime2gmt_transparent_witness:
  "\<exists>g'. mk_utils_utime2gmt gmt_cache_init 5 1277332321
     = (31, Some (''Wed, 23 Jun 2010 22:32:01 GMT'' @ [CR, LF, NUL]), g') \<and> gmt_cache_ok g'"
proof -
  have "gmtime_r 1277332321 = Some (gmtime 1277332321)"
    "gmt_compose (gmtime 1277332321) = ''Wed, 23 Jun 2010 22:32:01 GMT'' @ [CR, LF, NUL]"
    by (simp_all add: gmt_eval)
  then show ?thesis
    using mk_utils_utime2gmt_transparent [of gmt_cache_init 5 1277332321 "gmtime 1277332321"]
      gmt_cache_init_ok by simp
qed

text \<open>
  A new text replaces a least used slot: the slot \<open>mk_utils_gmt_cache_add\<close> overwrites has the
  smallest hit count of the ten, every other slot is kept, and the new date can be found at once.
\<close>

theorem mk_utils_gmt_cache_add_evicts_min:
  assumes "length g = MK_GMT_CACHES"
  shows "\<exists>i<MK_GMT_CACHES. (\<forall>j<MK_GMT_CACHES. gc_hits (g ! i) \<le> gc_hits (g ! j))
    \<and> mk_utils_gmt_cache_add g data time = g[i := \<lparr>gc_time = time, gc_text = take 32 data, gc_hits = 1\<rparr>]
    \<and> mk_utils_gmt_cache_get (mk_utils_gmt_cache_add g data time) time \<noteq> None"
proof -
  define i where "i = min_hits_from g 1 (MK_GMT_CACHES - 1) 0"
  have i: "i < length g" "\<forall>j<length g. gc_hits (g ! i) \<le> gc_hits (g ! j)"
    using min_hits_from_spec [of 0 1 "MK_GMT_CACHES - 1" g] assms by (auto simp: i_def MK_GMT_CACHES_def)
  let ?e = "\<lparr>gc_time = time, gc_text = take 32 data, gc_hits = 1\<rparr>"
  have add: "mk_utils_gmt_cache_add g data time = g[i := ?e]"
    by (simp add: mk_utils_gmt_cache_add_def i_def)
  have "?e \<in> set (g[i := ?e])" using i(1) by (rule set_update_memI)
  then have "find_index (\<lambda>e. time = gc_time e) (g[i := ?e]) \<noteq> None"
    unfolding find_index_None_iff by (auto intro: bexI [of _ ?e])
  then obtain k where "find_index (\<lambda>e. time = gc_time e) (g[i := ?e]) = Some k" by blast
  then have "mk_utils_gmt_cache_get (g[i := ?e]) time \<noteq> None"
    by (simp add: mk_utils_gmt_cache_get_def)
  with i add assms show ?thesis by auto
qed

theorem mk_utils_gmt_cache_add_evicts_min_witness:
  "\<exists>i<MK_GMT_CACHES. mk_utils_gmt_cache_add gmt_cache_init ''x'' 7
     = gmt_cache_init[i := \<lparr>gc_time = 7, gc_text = ''x'', gc_hits = 1\<rparr>]"
  using mk_utils_gmt_cache_add_evicts_min [of gmt_cache_init "''x''" 7] by (auto simp: gmt_cache_init_def)

text \<open>
  C18: readers of the clock never see a text in the middle of being written: formatting the next
  text leaves the published text unchanged, for every state of the buffers, and after the tick the
  published text is the one of the new time.
\<close>

theorem clock_published_stable:
  "clk_published (clk_format c t) = clk_published c
   \<and> (gmtime_r now = Some g \<longrightarrow> now \<noteq> -1 \<longrightarrow> clk_published (clock_tick c now) = Some (gmt_compose g))"
proof
  show "clk_published (clk_format c t) = clk_published c"
    by (cases "clk_pub c")
      (auto simp: clk_published_def clk_format_def clk_next_buffer_def clk_write_def)
  show "gmtime_r now = Some g \<longrightarrow> now \<noteq> -1 \<longrightarrow> clk_published (clock_tick c now) = Some (gmt_compose g)"
    by (auto simp: clock_tick_def mk_clock_header_set_time_def clk_published_def clk_format_def
        clk_next_buffer_def clk_write_def)
qed

theorem clock_published_stable_witness:
  "clk_published (clock_tick (mk_clock_sequential_init 5) 86400)
     = Some (''Fri, 02 Jan 1970 00:00:00 GMT'' @ [CR, LF, NUL])"
proof -
  have "gmtime_r 86400 = Some (gmtime 86400)"
    "gmt_compose (gmtime 86400) = ''Fri, 02 Jan 1970 00:00:00 GMT'' @ [CR, LF, NUL]"
    by (simp_all add: gmt_eval)
  then show ?thesis
    using clock_published_stable [of "mk_clock_sequential_init 5" "[]" 86400 "gmtime 86400"] by simp
qed

end
