(* ===== verification/Mk_Types.thy ===== *)
theory Mk_Types
  imports Mk_Config Mk_Gmt
begin

text \<open>
  The data the request path works on, from \<^verbatim>\<open>src/include/mk_request.h\<close>,
  \<^verbatim>\<open>src/include/mk_file.h\<close> and \<^verbatim>\<open>src/include/mk_iov.h\<close>, and the shape of its computations:
  an action takes the state of a request (its client session, the thread's date cache and the
  effects so far) and gives an error or a result and the state after it. Every system call that
  the outside world can see is an entry of the effect trace.
\<close>

section \<open>Constants\<close>

definition MK_REQUEST_CHUNK :: nat where [mk_const]: "MK_REQUEST_CHUNK = 4096"
definition MK_HEADERS_TOC_LEN :: nat where [mk_const]: "MK_HEADERS_TOC_LEN = 32"
definition MK_PATH_BASE :: nat where [mk_const]: "MK_PATH_BASE = 128"
definition MAX_PATH :: nat where [mk_const]: "MAX_PATH = 1024"

abbreviation CRLF :: cstr where "CRLF \<equiv> [CR, LF]"
abbreviation ENDBLOCK :: cstr where "ENDBLOCK \<equiv> [CR, LF, CR, LF]"

text \<open>Return values of the request handlers and of the plugins, statuses and methods.\<close>

definition EXIT_NORMAL :: int where [mk_const]: "EXIT_NORMAL = 0"
definition EXIT_ERROR :: int where [mk_const]: "EXIT_ERROR = -1"
definition EXIT_ABORT :: int where [mk_const]: "EXIT_ABORT = -2"

definition MK_REQUEST_STATUS_INCOMPLETE :: int where [mk_const]: "MK_REQUEST_STATUS_INCOMPLETE = -1"
definition MK_REQUEST_STATUS_COMPLETED :: int where [mk_const]: "MK_REQUEST_STATUS_COMPLETED = 0"

definition HTTP_METHOD_UNKNOWN :: int where [mk_const]: "HTTP_METHOD_UNKNOWN = -1"
definition HTTP_METHOD_GET :: int where [mk_const]: "HTTP_METHOD_GET = 0"
definition HTTP_METHOD_POST :: int where [mk_const]: "HTTP_METHOD_POST = 1"
definition HTTP_METHOD_HEAD :: int where [mk_const]: "HTTP_METHOD_HEAD = 2"
definition HTTP_METHOD_PUT :: int where [mk_const]: "HTTP_METHOD_PUT = 3"
definition HTTP_METHOD_DELETE :: int where [mk_const]: "HTTP_METHOD_DELETE = 4"

definition HTTP_PROTOCOL_UNKNOWN :: int where [mk_const]: "HTTP_PROTOCOL_UNKNOWN = -1"
definition HTTP_PROTOCOL_09 :: int where [mk_const]: "HTTP_PROTOCOL_09 = 9"
definition HTTP_PROTOCOL_10 :: int where [mk_const]: "HTTP_PROTOCOL_10 = 10"
definition HTTP_PROTOCOL_11 :: int where [mk_const]: "HTTP_PROTOCOL_11 = 11"

section \<open>Files and vectors\<close>

record file_info =
  fi_size :: int
  fi_last_modification :: int
  fi_flags_read_only :: nat
  fi_exists :: bool
  fi_is_file :: bool
  fi_is_link :: bool
  fi_is_directory :: bool
  fi_exec_access :: bool
  fi_read_access :: bool

text \<open>
  \<open>struct mk_iov\<close>: the array of entries (a base and a length each), the number of entries in
  use, the buffers to free, the size of both arrays and the byte count.
\<close>

record mk_iov =
  io_vec :: "mk_pointer list"
  io_idx :: nat
  io_to_free :: "cstr list"
  io_size :: nat
  io_total_len :: nat

section \<open>Requests\<close>

record response_headers =
  rh_status :: int
  rh_custom_status :: mk_pointer
  rh_content_length :: int
  rh_real_length :: int
  rh_cgi :: int
  rh_pconnections_left :: int
  rh_range0 :: int
  rh_range1 :: int
  rh_transfer_encoding :: int
  rh_breakline :: int
  rh_connection :: int
  rh_last_modified :: int
  rh_content_type :: mk_pointer
  rh_content_encoding :: mk_pointer
  rh_location :: "cstr option"
  rh_extra_rows :: "mk_iov option"

text \<open>
  A row of the table of contents of the headers: the two pointers of the source are offsets into
  the text the table was made from.
\<close>

record header_toc_row =
  row_init :: nat
  row_end :: nat
  row_status :: int

record headers_toc =
  toc_base :: cstr
  toc_rows :: "header_toc_row list"

text \<open>
  \<open>struct session_request\<close> without the fields no code of the core reads
  (\<open>last_modified_since\<close>, \<open>virtual_user\<close>). \<open>sr_real_path_static\<close> tells whether
  \<open>real_path\<close> points into the fixed array of the structure; a plugin that owns the request is
  known by a number.
\<close>

record session_request =
  sr_status :: bool
  sr_body :: mk_pointer
  sr_headers_toc :: headers_toc
  sr_headers_len :: int
  sr_method :: int
  sr_method_p :: mk_pointer
  sr_uri :: mk_pointer
  sr_uri_processed :: mk_pointer
  sr_protocol :: int
  sr_protocol_p :: mk_pointer
  sr_close_now :: bool
  sr_content_length :: int
  sr_content_type :: mk_pointer
  sr_connection :: mk_pointer
  sr_host :: mk_pointer
  sr_host_port :: mk_pointer
  sr_if_modified_since :: mk_pointer
  sr_range :: mk_pointer
  sr_data :: mk_pointer
  sr_real_path :: mk_pointer
  sr_real_path_static :: bool
  sr_query_string :: mk_pointer
  sr_keep_alive :: bool
  sr_user_home :: bool
  sr_port :: int
  sr_fd_file :: int
  sr_stage30_blocked :: bool
  sr_loop :: int
  sr_bytes_to_send :: int
  sr_bytes_offset :: int
  sr_file_info :: file_info
  sr_host_conf :: "host option"
  sr_host_alias :: "host_alias option"
  sr_headers :: response_headers
  sr_handled_by :: "nat option"

text \<open>
  \<open>struct client_session\<close>: \<open>cs_body\<close> is the whole buffer that \<open>body\<close> points to, which is the
  array \<open>body_fixed\<close> as long as \<open>cs_is_fixed\<close> holds.
\<close>

record client_session =
  cs_pipelined :: bool
  cs_socket :: int
  cs_counter_connections :: int
  cs_status :: int
  cs_body :: cstr
  cs_is_fixed :: bool
  cs_body_size :: nat
  cs_body_length :: nat
  cs_body_pos_end :: int
  cs_first_method :: int
  cs_init_time :: int
  cs_request_list :: "session_request list"

section \<open>Effects and actions\<close>

datatype effect =
    ESendv int "cstr list"
  | ESend int cstr
  | ESendFile int int int int
  | ECork int bool
  | EOpen cstr nat int
  | ESeek int int
  | EClose int
  | EEpollMode int int
  | EEpollCtl int int nat
  | EStage50 int

record req_state =
  rs_cs :: client_session
  rs_gmt :: "mk_gmt_cache list"
  rs_trace :: "effect list"

type_synonym 'a action = "req_state \<Rightarrow> cerr + 'a \<times> req_state"

definition returnA :: "'a \<Rightarrow> 'a action" where
  "returnA x s = Inr (x, s)"

definition failA :: "cerr \<Rightarrow> 'a action" where
  "failA e s = Inl e"

definition bindA :: "'a action \<Rightarrow> ('a \<Rightarrow> 'b action) \<Rightarrow> 'b action" where
  "bindA m f s = (case m s of Inl e \<Rightarrow> Inl e | Inr (x, s') \<Rightarrow> f x s')"

definition thenA :: "'a action \<Rightarrow> 'b action \<Rightarrow> 'b action" where
  "thenA m n = bindA m (\<lambda>_. n)"

definition getsA :: "(req_state \<Rightarrow> 'a) \<Rightarrow> 'a action" where
  "getsA f s = Inr (f s, s)"

definition modifyA :: "(req_state \<Rightarrow> req_state) \<Rightarrow> unit action" where
  "modifyA f s = Inr ((), f s)"

definition liftE :: "cerr + 'a \<Rightarrow> 'a action" where
  "liftE m s = (case m of Inl e \<Rightarrow> Inl e | Inr x \<Rightarrow> Inr (x, s))"

definition emit :: "effect \<Rightarrow> unit action" where
  "emit e = modifyA (\<lambda>s. s\<lparr>rs_trace := rs_trace s @ [e]\<rparr>)"

text \<open>The request with index \<open>i\<close> of the session's list: what a \<open>struct session_request *\<close> denotes.\<close>

definition sr_of :: "nat \<Rightarrow> req_state \<Rightarrow> session_request" where
  "sr_of i s = cs_request_list (rs_cs s) ! i"

definition set_sr :: "nat \<Rightarrow> (session_request \<Rightarrow> session_request) \<Rightarrow> req_state \<Rightarrow> req_state" where
  "set_sr i f s =
     s\<lparr>rs_cs := (rs_cs s)\<lparr>cs_request_list :=
        (cs_request_list (rs_cs s))[i := f (cs_request_list (rs_cs s) ! i)]\<rparr>\<rparr>"

definition get_sr :: "nat \<Rightarrow> session_request action" where
  "get_sr i = getsA (sr_of i)"

definition upd_sr :: "nat \<Rightarrow> (session_request \<Rightarrow> session_request) \<Rightarrow> unit action" where
  "upd_sr i f = modifyA (set_sr i f)"

definition upd_headers :: "nat \<Rightarrow> (response_headers \<Rightarrow> response_headers) \<Rightarrow> unit action" where
  "upd_headers i f = upd_sr i (\<lambda>sr. sr\<lparr>sr_headers := f (sr_headers sr)\<rparr>)"

definition get_cs :: "client_session action" where
  "get_cs = getsA rs_cs"

section \<open>Rules of the actions\<close>

named_theorems act_simps "evaluation of actions"

lemma bindA_Inr_iff:
  "bindA m f s = Inr (y, s'') \<longleftrightarrow> (\<exists>x s'. m s = Inr (x, s') \<and> f x s' = Inr (y, s''))"
  by (auto simp: bindA_def split: sum.splits)

lemma thenA_Inr_iff:
  "thenA m n s = Inr (y, s'') \<longleftrightarrow> (\<exists>x s'. m s = Inr (x, s') \<and> n s' = Inr (y, s''))"
  by (auto simp: thenA_def bindA_Inr_iff)

lemma returnA_apply [act_simps, simp]: "returnA x s = Inr (x, s)"
  by (simp add: returnA_def)

lemma getsA_apply [act_simps, simp]: "getsA f s = Inr (f s, s)"
  by (simp add: getsA_def)

lemma modifyA_apply [act_simps, simp]: "modifyA f s = Inr ((), f s)"
  by (simp add: modifyA_def)

lemma failA_apply [act_simps, simp]: "failA e s = Inl e"
  by (simp add: failA_def)

lemma emit_apply [act_simps, simp]: "emit e s = Inr ((), s\<lparr>rs_trace := rs_trace s @ [e]\<rparr>)"
  by (simp add: emit_def)

lemma get_sr_apply [act_simps, simp]: "get_sr i s = Inr (sr_of i s, s)"
  by (simp add: get_sr_def)

lemma upd_sr_apply [act_simps, simp]: "upd_sr i f s = Inr ((), set_sr i f s)"
  by (simp add: upd_sr_def)

lemma upd_headers_apply [act_simps, simp]:
  "upd_headers i f s = Inr ((), set_sr i (\<lambda>sr. sr\<lparr>sr_headers := f (sr_headers sr)\<rparr>) s)"
  by (simp add: upd_headers_def)

lemma get_cs_apply [act_simps, simp]: "get_cs s = Inr (rs_cs s, s)"
  by (simp add: get_cs_def)

lemma bindA_Inr [act_simps]: "m s = Inr (x, s') \<Longrightarrow> bindA m f s = f x s'"
  by (simp add: bindA_def)

lemma thenA_Inr [act_simps]: "m s = Inr (x, s') \<Longrightarrow> thenA m n s = n s'"
  by (simp add: thenA_def bindA_def)

lemma sr_of_frame [simp]:
  "sr_of i (s\<lparr>rs_trace := t\<rparr>) = sr_of i s" "sr_of i (s\<lparr>rs_gmt := g\<rparr>) = sr_of i s"
  by (simp_all add: sr_of_def)

lemma sr_of_set_sr [simp]:
  "i < length (cs_request_list (rs_cs s)) \<Longrightarrow> sr_of i (set_sr i f s) = f (sr_of i s)"
  by (simp add: sr_of_def set_sr_def)

lemma set_sr_frame [simp]:
  "rs_trace (set_sr i f s) = rs_trace s" "rs_gmt (set_sr i f s) = rs_gmt s"
  "length (cs_request_list (rs_cs (set_sr i f s))) = length (cs_request_list (rs_cs s))"
  "cs_socket (rs_cs (set_sr i f s)) = cs_socket (rs_cs s)"
  "cs_counter_connections (rs_cs (set_sr i f s)) = cs_counter_connections (rs_cs s)"
  "cs_body (rs_cs (set_sr i f s)) = cs_body (rs_cs s)"
  by (simp_all add: set_sr_def)

section \<open>Triples\<close>

text \<open>
  Partial-correctness triples over actions: when the action succeeds from a state that satisfies
  the precondition, result and state satisfy the postcondition.
\<close>

definition triple :: "(req_state \<Rightarrow> bool) \<Rightarrow> 'a action \<Rightarrow> ('a \<Rightarrow> req_state \<Rightarrow> bool) \<Rightarrow> bool" where
  "triple P m Q \<longleftrightarrow> (\<forall>s x s'. P s \<longrightarrow> m s = Inr (x, s') \<longrightarrow> Q x s')"

lemma tripleI: "(\<And>s x s'. P s \<Longrightarrow> m s = Inr (x, s') \<Longrightarrow> Q x s') \<Longrightarrow> triple P m Q"
  by (simp add: triple_def)

lemma tripleD: "triple P m Q \<Longrightarrow> P s \<Longrightarrow> m s = Inr (x, s') \<Longrightarrow> Q x s'"
  by (simp add: triple_def)

lemma triple_weaken: "triple P' m Q \<Longrightarrow> (\<And>s. P s \<Longrightarrow> P' s) \<Longrightarrow> triple P m Q"
  by (auto simp: triple_def)

lemma triple_bind:
  "triple P m R \<Longrightarrow> (\<And>x. triple (R x) (f x) Q) \<Longrightarrow> triple P (bindA m f) Q"
  by (auto simp: triple_def bindA_Inr_iff)

lemma triple_then: "triple P m (\<lambda>_. R) \<Longrightarrow> triple R n Q \<Longrightarrow> triple P (thenA m n) Q"
  unfolding thenA_def by (rule triple_bind)

lemma triple_return: "(\<And>s. P s \<Longrightarrow> Q x s) \<Longrightarrow> triple P (returnA x) Q"
  by (auto simp: triple_def)

lemma triple_fail: "triple P (failA e) Q"
  by (simp add: triple_def)

lemma triple_liftE: "(\<And>x s. m = Inr x \<Longrightarrow> P s \<Longrightarrow> Q x s) \<Longrightarrow> triple P (liftE m) Q"
  by (auto simp: triple_def liftE_def split: sum.splits)

lemma triple_if:
  "(c \<Longrightarrow> triple P a Q) \<Longrightarrow> (\<not> c \<Longrightarrow> triple P b Q) \<Longrightarrow> triple P (if c then a else b) Q"
  by simp

lemma triple_get_sr:
  "(\<And>sr. triple (\<lambda>s. P s \<and> sr_of i s = sr) (f sr) Q) \<Longrightarrow> triple P (bindA (get_sr i) f) Q"
  by (auto simp: triple_def bindA_Inr_iff)

lemma triple_get_cs:
  "(\<And>cs. triple P (f cs) Q) \<Longrightarrow> triple P (bindA get_cs f) Q"
  by (auto simp: triple_def bindA_Inr_iff)

end
