(* ===== verification/Mk_Toc.thy ===== *)
theory Mk_Toc
  imports Mk_Types
begin

text \<open>
  The table of contents of the request headers (\<open>mk_request_header_toc_parse\<close> and
  \<open>mk_request_header_get\<close> of \<^verbatim>\<open>src/mk_request.c\<close>) and the content length of a request
  (\<open>mk_method_validate_content_length\<close> of \<^verbatim>\<open>src/mk_method.c\<close>). The specification is a list of
  named headers as a client prints it.
\<close>

section \<open>The table of contents\<close>

text \<open>
  The loop of \<open>mk_request_header_toc_parse\<close>: \<open>k\<close> rows are left, \<open>p\<close> is the offset of the line,
  \<open>l\<close> the end of the line before (NULL at first, which is below every address).
\<close>

definition ptr_below :: "nat option \<Rightarrow> int \<Rightarrow> bool" where
  "ptr_below l len = (case l of None \<Rightarrow> True | Some e \<Rightarrow> int e < len)"

fun toc_loop :: "cstr \<Rightarrow> int \<Rightarrow> nat \<Rightarrow> nat \<Rightarrow> nat option \<Rightarrow> header_toc_row list" where
  "toc_loop data len 0 p l = []"
| "toc_loop data len (Suc k) p l =
     (if ptr_below l len then
        (case strstr (drop p data) CRLF of
           Some n \<Rightarrow>
             \<lparr>row_init = p, row_end = p + n, row_status = 0\<rparr>
             # toc_loop data len k (p + n + 2) (Some (p + n))
         | None \<Rightarrow> [])
      else [])"

definition mk_request_header_toc_parse :: "cstr \<Rightarrow> int \<Rightarrow> headers_toc" where
  "mk_request_header_toc_parse data len =
     \<lparr>toc_base = data, toc_rows = toc_loop data len MK_HEADERS_TOC_LEN 0 None\<rparr>"

definition row_matches :: "headers_toc \<Rightarrow> cstr \<Rightarrow> nat \<Rightarrow> header_toc_row \<Rightarrow> bool" where
  "row_matches toc key_name key_len r \<longleftrightarrow>
     row_status r \<noteq> 1 \<and> strncasecmp_eq (drop (row_init r) (toc_base toc)) key_name key_len"

definition mk_request_header_get :: "headers_toc \<Rightarrow> cstr \<Rightarrow> nat \<Rightarrow> mk_pointer \<times> headers_toc" where
  "mk_request_header_get toc key_name key_len =
     (case find_index (row_matches toc key_name key_len) (toc_rows toc) of
        None \<Rightarrow> (\<lparr>p_data = None, p_len = 0\<rparr>, toc)
      | Some i \<Rightarrow>
          let r = toc_rows toc ! i; d = row_init r + key_len + 1 in
          (\<lparr>p_data = Some (drop d (toc_base toc)), p_len = ulong (int (row_end r) - int d)\<rparr>,
           toc\<lparr>toc_rows := (toc_rows toc)[i := r\<lparr>row_status := 1\<rparr>]\<rparr>))"

section \<open>The content length\<close>

abbreviation RH_CONTENT_LENGTH :: cstr where "RH_CONTENT_LENGTH \<equiv> ''Content-Length:''"

definition mk_method_validate_content_length :: "cstr \<Rightarrow> int \<Rightarrow> int" where
  "mk_method_validate_content_length body body_len =
     (let toc = mk_request_header_toc_parse body body_len;
          tmp = fst (mk_request_header_get toc RH_CONTENT_LENGTH 15)
      in case p_data tmp of
           Some d \<Rightarrow> strtol10 d
         | None \<Rightarrow>
             (let pos_header = mk_string_search body RH_CONTENT_LENGTH MK_STR_INSENSITIVE in
              if pos_header \<le> 0 then -1
              else
                let pos_crlf = mk_string_search (drop (nat pos_header) body) CRLF MK_STR_SENSITIVE in
                if pos_crlf \<le> 0 then -1
                else strtol10 (the (mk_string_copy_substr
                       (drop (nat pos_header + 15 + 1) body) 0 (pos_header + pos_crlf)))))"

section \<open>Printed headers\<close>

definition print_lines :: "cstr list \<Rightarrow> cstr" where
  "print_lines hs = concat (map (\<lambda>h. h @ CRLF) hs)"

section \<open>Parsing printed lines\<close>

lemma find_sub_CRLF:
  "CR \<notin> set h \<Longrightarrow> find_sub (=) CRLF (h @ CR # LF # r) = Some (length h)"
  by (induction h) auto

lemma strstr_CRLF:
  assumes "NUL \<notin> set h" "CR \<notin> set h"
  shows "strstr (h @ CR # LF # r) CRLF = Some (length h)"
  using assms by (simp add: strstr_def cstring_append find_sub_CRLF)

lemma print_lines_simps [simp]:
  "print_lines [] = []" "print_lines (h # hs) = h @ CRLF @ print_lines hs"
  by (simp_all add: print_lines_def)

definition same_name :: "cstr \<Rightarrow> cstr \<Rightarrow> bool" where
  "same_name a b \<longleftrightarrow> map c_tolower a = map c_tolower b"

lemma same_name_length: "same_name a b \<Longrightarrow> length a = length b"
  unfolding same_name_def by (rule map_eq_imp_length_eq)

section \<open>Lookup as a refinement\<close>

text \<open>
  The abstract table: the lines, each with a mark that tells whether it was handed out. A lookup
  finds the first unmarked line that begins with the name and a colon, and marks it.
\<close>

definition line_has :: "cstr \<Rightarrow> cstr \<Rightarrow> bool" where
  "line_has key l \<longleftrightarrow> map c_tolower (take (length key + 1) l) = map c_tolower (key @ '':'')"

definition spec_header_get ::
  "(cstr \<times> bool) list \<Rightarrow> cstr \<Rightarrow> cstr option \<times> (cstr \<times> bool) list" where
  "spec_header_get lbs key =
     (case find_index (\<lambda>(l, used). \<not> used \<and> line_has key l) lbs of
        None \<Rightarrow> (None, lbs)
      | Some i \<Rightarrow> (Some (fst (lbs ! i)), lbs[i := (fst (lbs ! i), True)]))"

definition line_wf :: "cstr \<Rightarrow> bool" where
  "line_wf l \<longleftrightarrow> NUL \<notin> set l \<and> CR \<notin> set l"

definition row_rep :: "cstr \<Rightarrow> header_toc_row \<Rightarrow> cstr \<times> bool \<Rightarrow> bool" where
  "row_rep base r lb \<longleftrightarrow>
     line_wf (fst lb) \<and> row_status r = (if snd lb then 1 else 0) \<and>
     row_end r = row_init r + length (fst lb) \<and>
     (\<exists>x. drop (row_init r) base = fst lb @ CR # LF # x)"

definition toc_rep :: "headers_toc \<Rightarrow> (cstr \<times> bool) list \<Rightarrow> bool" where
  "toc_rep toc lbs \<longleftrightarrow> list_all2 (row_rep (toc_base toc)) (toc_rows toc) lbs"

text \<open>A pointer to what follows the name, the colon and one byte in a line.\<close>

definition value_of :: "cstr \<Rightarrow> cstr \<Rightarrow> mk_pointer \<Rightarrow> bool" where
  "value_of key l p \<longleftrightarrow>
     p_len p = ulong (int (length l) - int (length key + 2)) \<and>
     (\<exists>x. p_data p = Some (drop (length key + 2) (l @ CR # LF # x)))"

text \<open>The end of every row but the last is below the length, so the loop takes every line.\<close>

lemma toc_loop_lines:
  "\<forall>l\<in>set ls. line_wf l \<Longrightarrow> length ls \<le> k \<Longrightarrow>
   data = pre @ print_lines ls @ rest \<Longrightarrow>
   len + 2 = int (length pre + length (print_lines ls)) \<Longrightarrow>
   (if ls = [] then \<exists>e. p = Some e \<and> len \<le> int e else \<forall>e. p = Some e \<longrightarrow> int e < len) \<Longrightarrow>
     list_all2 (\<lambda>r l. row_rep data r (l, False)) (toc_loop data len k (length pre) p) ls"
proof (induction ls arbitrary: k pre p)
  case Nil
  from Nil.prems(5) obtain e where "p = Some e" "\<not> int e < len" by auto
  then have "toc_loop data len k (length pre) p = []" by (cases k) (simp_all add: ptr_below_def)
  then show ?case by simp
next
  case (Cons l ls)
  obtain k' where k: "k = Suc k'" using Cons.prems(2) by (cases k) auto
  have l: "NUL \<notin> set l" "CR \<notin> set l" using Cons.prems(1) by (auto simp: line_wf_def)
  have d: "drop (length pre) data = l @ CR # LF # (print_lines ls @ rest)"
    using Cons.prems(3) by simp
  have st: "strstr (drop (length pre) data) CRLF = Some (length l)"
    unfolding d by (rule strstr_CRLF [OF l])
  let ?pre = "pre @ l @ CRLF"
  let ?p = "Some (length pre + length l)"
  let ?r = "\<lparr>row_init = length pre, row_end = length pre + length l, row_status = 0\<rparr>"
  have step: "toc_loop data len k (length pre) p = ?r # toc_loop data len k' (length ?pre) ?p"
    using Cons.prems(5) st by (auto simp: k ptr_below_def split: option.splits)
  have "list_all2 (\<lambda>r l. row_rep data r (l, False)) (toc_loop data len k' (length ?pre) ?p) ls"
  proof (rule Cons.IH)
    show "if ls = [] then \<exists>e. ?p = Some e \<and> len \<le> int e else \<forall>e. ?p = Some e \<longrightarrow> int e < len"
      using Cons.prems(4) by (cases ls) auto
  qed (use Cons.prems k in auto)
  moreover have "row_rep data ?r (l, False)"
    using l d by (auto simp: row_rep_def line_wf_def)
  ultimately show ?case unfolding step by simp
qed

lemma find_index_list_all2:
  "list_all2 R xs ys \<Longrightarrow> (\<And>x y. R x y \<Longrightarrow> P x \<longleftrightarrow> Q y) \<Longrightarrow> find_index P xs = find_index Q ys"
  by (induction xs ys rule: list_all2_induct) auto

lemma tolower_CR: "c_tolower c = c_tolower CR \<longleftrightarrow> c = CR"
proof -
  have b: "byte CR = 13" by (simp add: byte_def)
  show ?thesis unfolding byte_eq_iff [symmetric] byte_c_tolower b by auto
qed

text \<open>A prefix without CR that fits the line and its CR fits the line.\<close>

lemma prefix_stops_at_CR:
  "CR \<notin> set l \<Longrightarrow> CR \<notin> set k \<Longrightarrow>
     map c_tolower (take (length k) (l @ CR # x)) = map c_tolower k \<longleftrightarrow>
     map c_tolower (take (length k) l) = map c_tolower k"
proof (induction l arbitrary: k)
  case Nil
  show ?case
  proof (cases k)
    case (Cons c k')
    with Nil.prems have "c_tolower CR \<noteq> c_tolower c" using tolower_CR [of c] by auto
    then show ?thesis by (simp add: Cons)
  qed simp
next
  case (Cons c l)
  then show ?case by (cases k) auto
qed

lemma row_matches_iff:
  assumes "row_rep (toc_base toc) r (l, b)" "NUL \<notin> set key" "CR \<notin> set key"
  shows "row_matches toc (key @ '':'') (length key + 1) r \<longleftrightarrow> \<not> b \<and> line_has key l"
proof -
  from assms(1) obtain x where v: "drop (row_init r) (toc_base toc) = l @ CR # LF # x"
    and wf: "NUL \<notin> set l" "CR \<notin> set l" by (auto simp: row_rep_def line_wf_def)
  have "cstring (drop (row_init r) (toc_base toc)) = l @ CR # cstring (LF # x)"
    unfolding v using wf by (simp add: cstring_append)
  moreover have "cstring (key @ '':'') = key @ '':''" using assms(2) by (simp add: cstring_append)
  ultimately have "strncasecmp_eq (drop (row_init r) (toc_base toc)) (key @ '':'') (length key + 1)
      \<longleftrightarrow> line_has key l"
    unfolding strncasecmp_eq_iff line_has_def
    using prefix_stops_at_CR [OF wf(2), of "key @ '':''"] assms(3) by simp
  then show ?thesis using assms(1) by (auto simp: row_matches_def row_rep_def)
qed

lemma header_get_refines:
  assumes rep: "toc_rep toc lbs" and key: "NUL \<notin> set key" "CR \<notin> set key"
    and get: "mk_request_header_get toc (key @ '':'') (length key + 1) = (p, toc')"
  shows "toc_rep toc' (snd (spec_header_get lbs key)) \<and>
    (case fst (spec_header_get lbs key) of
       None \<Rightarrow> p = \<lparr>p_data = None, p_len = 0\<rparr>
     | Some l \<Rightarrow> value_of key l p)"
proof -
  let ?Q = "\<lambda>(l, used). \<not> used \<and> line_has key l"
  have all2: "list_all2 (row_rep (toc_base toc)) (toc_rows toc) lbs" using rep by (simp add: toc_rep_def)
  have fi: "find_index (row_matches toc (key @ '':'') (length key + 1)) (toc_rows toc)
      = find_index ?Q lbs"
    using row_matches_iff [OF _ key] by (intro find_index_list_all2 [OF all2]) auto
  show ?thesis
  proof (cases "find_index ?Q lbs")
    case None
    with get fi have "p = \<lparr>p_data = None, p_len = 0\<rparr>" "toc' = toc"
      unfolding mk_request_header_get_def by (simp_all del: find_index_None_iff)
    moreover have "spec_header_get lbs key = (None, lbs)"
      unfolding spec_header_get_def None by simp
    ultimately show ?thesis using rep by simp
  next
    case (Some i)
    define r where "r = toc_rows toc ! i"
    obtain l b where lb: "lbs ! i = (l, b)" by fastforce
    have i: "i < length lbs" using find_index_SomeD [OF Some] by blast
    have rr: "row_rep (toc_base toc) r (l, b)"
      using list_all2_nthD2 [OF all2 i] lb by (simp add: r_def)
    then obtain x where v: "drop (row_init r) (toc_base toc) = l @ CR # LF # x"
      and re: "row_end r = row_init r + length l" by (auto simp: row_rep_def)
    let ?d = "row_init r + (length key + 1) + 1"
    have p: "p = \<lparr>p_data = Some (drop ?d (toc_base toc)), p_len = ulong (int (row_end r) - int ?d)\<rparr>"
      and t: "toc' = toc\<lparr>toc_rows := (toc_rows toc)[i := r\<lparr>row_status := 1\<rparr>]\<rparr>"
      using get fi Some by (auto simp: mk_request_header_get_def r_def Let_def)
    have "drop ?d (toc_base toc) = drop (length key + 2) (drop (row_init r) (toc_base toc))"
      by (simp add: add.commute)
    moreover have "int (row_end r) - int ?d = int (length l) - int (length key + 2)"
      using re by simp
    ultimately have "value_of key l p" unfolding value_of_def p v mk_pointer.simps
      by (simp only: simp_thms) blast
    moreover have "row_rep (toc_base toc) (r\<lparr>row_status := 1\<rparr>) (l, True)"
      using rr by (simp add: row_rep_def)
    then have "toc_rep toc' (lbs[i := (l, True)])"
      using list_all2_update_cong [OF all2, of "r\<lparr>row_status := 1\<rparr>" "(l, True)" i]
      by (simp add: toc_rep_def t)
    moreover have "spec_header_get lbs key = (Some l, lbs[i := (l, True)])"
      unfolding spec_header_get_def Some by (simp add: lb)
    ultimately show ?thesis by simp
  qed
qed

lemma toc_parse_rep:
  assumes "ls \<noteq> []" "\<forall>l\<in>set ls. line_wf l" "length ls \<le> 32"
    "len + 2 = int (length (print_lines ls))"
  shows "toc_rep (mk_request_header_toc_parse (print_lines ls @ rest) len) (map (\<lambda>l. (l, False)) ls)"
  using toc_loop_lines [of ls 32 "print_lines ls @ rest" "[]" rest len None] assms
  by (simp add: mk_request_header_toc_parse_def MK_HEADERS_TOC_LEN_def toc_rep_def list_all2_map2)

section \<open>Properties\<close>

text \<open>The answers of successive lookups, as the code and as the specification give them.\<close>

fun toc_gets :: "headers_toc \<Rightarrow> cstr list \<Rightarrow> mk_pointer list" where
  "toc_gets toc [] = []"
| "toc_gets toc (k # ks) =
     (let (p, toc') = mk_request_header_get toc (k @ '':'') (length k + 1) in p # toc_gets toc' ks)"

fun spec_gets :: "(cstr \<times> bool) list \<Rightarrow> cstr list \<Rightarrow> (cstr \<times> cstr option) list" where
  "spec_gets lbs [] = []"
| "spec_gets lbs (k # ks) =
     (let (v, lbs') = spec_header_get lbs k in (k, v) # spec_gets lbs' ks)"

definition answers :: "mk_pointer \<Rightarrow> cstr \<times> cstr option \<Rightarrow> bool" where
  "answers p q \<longleftrightarrow>
     (case snd q of None \<Rightarrow> p = \<lparr>p_data = None, p_len = 0\<rparr> | Some l \<Rightarrow> value_of (fst q) l p)"

lemma toc_gets_refines:
  "toc_rep toc lbs \<Longrightarrow> \<forall>k\<in>set ks. NUL \<notin> set k \<and> CR \<notin> set k \<Longrightarrow>
     list_all2 answers (toc_gets toc ks) (spec_gets lbs ks)"
proof (induction ks arbitrary: toc lbs)
  case (Cons k ks)
  obtain p toc' where g: "mk_request_header_get toc (k @ '':'') (length k + 1) = (p, toc')"
    by fastforce
  obtain v lbs' where v: "spec_header_get lbs k = (v, lbs')" by fastforce
  have "NUL \<notin> set k" "CR \<notin> set k" using Cons.prems(2) by auto
  from header_get_refines [OF Cons.prems(1) this g] v
  have "toc_rep toc' lbs'" "answers p (k, v)" by (simp_all add: answers_def split: option.splits)
  moreover have "\<forall>k\<in>set ks. NUL \<notin> set k \<and> CR \<notin> set k" using Cons.prems(2) by simp
  ultimately show ?case using Cons.IH [of toc' lbs'] g v by simp
qed simp

text \<open>
  C23: the header table refines a list of lines. For at most 32 header lines printed with CRLF,
  whatever follows them, parsing the table and looking up any sequence of names gives for each
  lookup what the specification gives: nothing, or a pointer to the rest of the first line with
  that name (in any letter case) that no earlier lookup has returned.
\<close>

theorem mk_request_header_toc_refines:
  assumes "ls \<noteq> []" "\<forall>l\<in>set ls. line_wf l" "length ls \<le> 32"
    and "len + 2 = int (length (print_lines ls))"
    and "\<forall>k\<in>set ks. NUL \<notin> set k \<and> CR \<notin> set k"
  shows "list_all2 answers (toc_gets (mk_request_header_toc_parse (print_lines ls @ rest) len) ks)
    (spec_gets (map (\<lambda>l. (l, False)) ls) ks)"
  using toc_gets_refines [OF toc_parse_rep [OF assms(1-4)] assms(5)] .

theorem mk_request_header_toc_refines_witness:
  "list_all2 answers
     (toc_gets (mk_request_header_toc_parse (print_lines [''Host: a'', ''Range: b''] @ CRLF) 17) [''range''])
     (spec_gets (map (\<lambda>l. (l, False)) [''Host: a'', ''Range: b'']) [''range''])
   \<and> spec_gets (map (\<lambda>l. (l, False)) [''Host: a'', ''Range: b'']) [''range''] = [(''range'', Some ''Range: b'')]"
proof
  show "list_all2 answers
     (toc_gets (mk_request_header_toc_parse (print_lines [''Host: a'', ''Range: b''] @ CRLF) 17) [''range''])
     (spec_gets (map (\<lambda>l. (l, False)) [''Host: a'', ''Range: b'']) [''range''])"
    by (rule mk_request_header_toc_refines) (auto simp: line_wf_def)
  show "spec_gets (map (\<lambda>l. (l, False)) [''Host: a'', ''Range: b'']) [''range''] = [(''range'', Some ''Range: b'')]"
    by code_simp
qed

text \<open>
  The declared content length of a request is the number its client printed: when the first
  line named Content-Length carries the decimal text of \<open>n\<close>, the code reads \<open>n\<close>.
\<close>

theorem mk_method_validate_content_length_correct:
  assumes "ls = before @ (name @ '': '' @ dec_text n) # after"
    and "same_name name ''Content-Length''" "\<forall>l\<in>set before. \<not> line_has ''Content-Length'' l"
    and "\<forall>l\<in>set ls. line_wf l" "length ls \<le> 32" "LONG_MIN \<le> n" "n \<le> LONG_MAX"
  shows "mk_method_validate_content_length (print_lines ls @ rest) (int (length (print_lines ls)) - 2) = n"
proof -
  let ?key = "''Content-Length''" let ?l = "name @ '': '' @ dec_text n"
  let ?toc = "mk_request_header_toc_parse (print_lines ls @ rest) (int (length (print_lines ls)) - 2)"
  have rep: "toc_rep ?toc (map (\<lambda>l. (l, False)) ls)"
    by (rule toc_parse_rep) (use assms(1,4,5) in auto)
  have ln: "length name = length ?key" by (rule same_name_length [OF assms(2)])
  have "take (length name + 1) ?l = name @ '':''" by simp
  then have has: "line_has ?key ?l"
    using assms(2) unfolding line_has_def same_name_def ln by simp
  have "find_index (\<lambda>(l, used). \<not> used \<and> line_has ?key l) (map (\<lambda>l. (l, False)) ls) = Some (length before)"
    unfolding find_index_Some_iff using has assms(3) by (auto simp: assms(1) nth_append)
  then have sp: "fst (spec_header_get (map (\<lambda>l. (l, False)) ls) ?key) = Some ?l"
    unfolding spec_header_get_def by (simp add: assms(1) nth_append)
  obtain p toc' where g: "mk_request_header_get ?toc (?key @ '':'') (length ?key + 1) = (p, toc')"
    by fastforce
  have "value_of ?key ?l p"
    using header_get_refines [OF rep _ _ g] sp by simp
  then obtain x where "p_data p = Some (drop (length ?key + 2) (?l @ CR # LF # x))"
    by (auto simp: value_of_def)
  moreover have "drop (length name + 2) (?l @ CR # LF # x) = dec_text n @ CR # LF # x" by simp
  ultimately have pd: "p_data p = Some (dec_text n @ CR # LF # x)" unfolding ln by simp
  have "fst (mk_request_header_get ?toc RH_CONTENT_LENGTH 15) = p" using g by (simp add: eval_nat_numeral)
  then have "mk_method_validate_content_length (print_lines ls @ rest) (int (length (print_lines ls)) - 2)
      = strtol10 (dec_text n @ CR # LF # x)"
    unfolding mk_method_validate_content_length_def Let_def by (simp add: pd)
  then show ?thesis using strtol10_dec_text [OF assms(6,7) not_digit_CR] by simp
qed

theorem mk_method_validate_content_length_correct_witness:
  "mk_method_validate_content_length (print_lines [''POST / HTTP/1.1'', ''content-length: 12''] @ CRLF)
     (int (length (print_lines [''POST / HTTP/1.1'', ''content-length: 12''])) - 2) = 12"
proof (rule mk_method_validate_content_length_correct)
  have "dec_text 12 = ''12''" by code_simp
  then show "[''POST / HTTP/1.1'', ''content-length: 12''] =
    [''POST / HTTP/1.1''] @ (''content-length'' @ '': '' @ dec_text 12) # []" by simp
  show "same_name ''content-length'' ''Content-Length''" by code_simp
  show "\<forall>l\<in>set [''POST / HTTP/1.1'']. \<not> line_has ''Content-Length'' l" by code_simp
qed (auto simp: line_wf_def LONG_MIN_def LONG_MAX_def)

end
