(* ===== verification/Mk_Http.thy ===== *)
theory Mk_Http
  imports Mk_Toc
begin

text \<open>
  The decisions of \<^verbatim>\<open>src/mk_http.c\<close> that need no system call: method and protocol recognition,
  byte ranges, the keep-alive decision and the test whether a request is complete; and the reset
  of a request and of its response headers (\<^verbatim>\<open>src/mk_request.c\<close>, \<^verbatim>\<open>src/mk_header.c\<close>).
\<close>

section \<open>Methods and protocols\<close>

definition mk_http_method_check :: "mk_pointer \<Rightarrow> int" where
  "mk_http_method_check method =
     (if strncmp_eq (view method) ''GET'' (p_len method) then HTTP_METHOD_GET
      else if strncmp_eq (view method) ''POST'' (p_len method) then HTTP_METHOD_POST
      else if strncmp_eq (view method) ''HEAD'' (p_len method) then HTTP_METHOD_HEAD
      else if strncmp_eq (view method) ''PUT'' (p_len method) then HTTP_METHOD_PUT
      else if strncmp_eq (view method) ''DELETE'' (p_len method) then HTTP_METHOD_DELETE
      else HTTP_METHOD_UNKNOWN)"

definition mk_http_method_check_str :: "int \<Rightarrow> mk_pointer" where
  "mk_http_method_check_str method =
     (if method = HTTP_METHOD_GET then mk_pointer_init ''GET''
      else if method = HTTP_METHOD_POST then mk_pointer_init ''POST''
      else if method = HTTP_METHOD_HEAD then mk_pointer_init ''HEAD''
      else if method = HTTP_METHOD_PUT then mk_pointer_init ''PUT''
      else if method = HTTP_METHOD_DELETE then mk_pointer_init ''DELETE''
      else \<lparr>p_data = None, p_len = 0\<rparr>)"

definition mk_http_method_get :: "cstr \<Rightarrow> int" where
  "mk_http_method_get body =
     (let pos = mk_string_char_search body SP 7 in
      if pos \<le> 2 \<or> 7 \<le> pos then HTTP_METHOD_UNKNOWN
      else mk_http_method_check \<lparr>p_data = Some body, p_len = nat pos\<rparr>)"

text \<open>A negative length of \<open>strncmp\<close> is a huge unsigned one: the whole strings are compared.\<close>

definition mk_http_protocol_check :: "cstr \<Rightarrow> int \<Rightarrow> int" where
  "mk_http_protocol_check protocol len =
     (let eq = (\<lambda>s. if len < 0 then strcmp_eq protocol s else strncmp_eq protocol s (nat len)) in
      if eq ''HTTP/1.1'' then HTTP_PROTOCOL_11
      else if eq ''HTTP/1.0'' then HTTP_PROTOCOL_10
      else if eq ''HTTP/0.9'' then HTTP_PROTOCOL_09
      else HTTP_PROTOCOL_UNKNOWN)"

definition mk_http_protocol_check_str :: "int \<Rightarrow> mk_pointer" where
  "mk_http_protocol_check_str protocol =
     (if protocol = HTTP_PROTOCOL_11 then mk_pointer_init ''HTTP/1.1''
      else if protocol = HTTP_PROTOCOL_10 then mk_pointer_init ''HTTP/1.0''
      else if protocol = HTTP_PROTOCOL_09 then mk_pointer_init ''HTTP/0.9''
      else \<lparr>p_data = None, p_len = 0\<rparr>)"

section \<open>Reset\<close>

definition mk_header_response_reset :: "response_headers \<Rightarrow> response_headers" where
  "mk_header_response_reset h =
     h\<lparr>rh_status := 0, rh_range0 := -1, rh_range1 := -1, rh_content_length := -1,
       rh_connection := 0, rh_transfer_encoding := -1, rh_last_modified := -1, rh_cgi := 0,
       rh_content_type := mk_pointer_reset, rh_content_encoding := mk_pointer_reset,
       rh_location := None, rh_extra_rows := None\<rparr>"

text \<open>The all-zero structures that \<open>memset\<close> leaves.\<close>

definition zero_headers :: response_headers where
  "zero_headers =
     \<lparr>rh_status = 0, rh_custom_status = mk_pointer_reset, rh_content_length = 0,
      rh_real_length = 0, rh_cgi = 0, rh_pconnections_left = 0, rh_range0 = 0, rh_range1 = 0,
      rh_transfer_encoding = 0, rh_breakline = 0, rh_connection = 0, rh_last_modified = 0,
      rh_content_type = mk_pointer_reset, rh_content_encoding = mk_pointer_reset,
      rh_location = None, rh_extra_rows = None\<rparr>"

definition zero_file_info :: file_info where
  "zero_file_info =
     \<lparr>fi_size = 0, fi_last_modification = 0, fi_flags_read_only = 0, fi_exists = False,
      fi_is_file = False, fi_is_link = False, fi_is_directory = False, fi_exec_access = False,
      fi_read_access = False\<rparr>"

definition mk_request_init :: session_request where
  "mk_request_init =
     \<lparr>sr_status = True, sr_body = mk_pointer_reset,
      sr_headers_toc = \<lparr>toc_base = [], toc_rows = []\<rparr>, sr_headers_len = 0,
      sr_method = HTTP_METHOD_UNKNOWN, sr_method_p = mk_pointer_reset, sr_uri = mk_pointer_reset,
      sr_uri_processed = mk_pointer_reset, sr_protocol = 0, sr_protocol_p = mk_pointer_reset,
      sr_close_now = False, sr_content_length = 0, sr_content_type = mk_pointer_reset,
      sr_connection = mk_pointer_reset, sr_host = mk_pointer_reset, sr_host_port = mk_pointer_reset,
      sr_if_modified_since = mk_pointer_reset, sr_range = mk_pointer_reset,
      sr_data = mk_pointer_reset, sr_real_path = mk_pointer_reset, sr_real_path_static = False,
      sr_query_string = mk_pointer_reset, sr_keep_alive = False, sr_user_home = False, sr_port = 0,
      sr_fd_file = -1, sr_stage30_blocked = False, sr_loop = 0, sr_bytes_to_send = -1,
      sr_bytes_offset = 0, sr_file_info = zero_file_info\<lparr>fi_size := -1\<rparr>, sr_host_conf = None,
      sr_host_alias = None, sr_headers = mk_header_response_reset zero_headers,
      sr_handled_by = None\<rparr>"

definition mk_header_set_http_status :: "session_request \<Rightarrow> int \<Rightarrow> session_request" where
  "mk_header_set_http_status sr status =
     sr\<lparr>sr_headers := (sr_headers sr)\<lparr>rh_status := status\<rparr>\<rparr>"

section \<open>Ranges\<close>

text \<open>
  \<open>mk_http_range_parse\<close>: the two ends are \<open>int\<close> fields, so the \<open>long\<close> of \<open>atol\<close> is cut to 32
  bits; the difference in \<open>abs\<close> is computed in \<open>int\<close> as well.
\<close>

definition atoi32 :: "cstr \<Rightarrow> int" where
  "atoi32 s = int32 (strtol10 s)"

definition mk_http_range_parse :: "session_request \<Rightarrow> int \<times> session_request" where
  "mk_http_range_parse sr =
     (case p_data (sr_range sr) of
        None \<Rightarrow> (-1, sr)
      | Some d \<Rightarrow>
          let len = int32 (int (p_len (sr_range sr)));
              eq_pos = mk_string_char_search d (CHR ''='') len;
              sep_pos = mk_string_char_search d (CHR ''-'') len;
              sh = sr_headers sr
          in if eq_pos < 0 then (-1, sr)
             else if \<not> strncasecmp_eq d ''Bytes'' (nat eq_pos) then (-1, sr)
             else if sep_pos < 0 then (-1, sr)
             else if eq_pos + 1 = sep_pos then
               let r1 = atoi32 (drop (nat (sep_pos + 1)) d);
                   sh1 = sh\<lparr>rh_range0 := -1, rh_range1 := r1\<rparr>
               in if r1 \<le> 0 then (-1, sr\<lparr>sr_headers := sh1\<rparr>)
                  else (0, sr\<lparr>sr_headers := sh1\<lparr>rh_content_length := r1\<rparr>\<rparr>)
             else if sep_pos + 1 < len then
               let r0 = atoi32 (the (mk_string_copy_substr d (eq_pos + 1) sep_pos));
                   r1 = atoi32 (the (mk_string_copy_substr d (sep_pos + 1) len));
                   sh1 = sh\<lparr>rh_range0 := r0, rh_range1 := r1\<rparr>
               in if r1 \<le> 0 \<or> r1 < r0 then (-1, sr\<lparr>sr_headers := sh1\<rparr>)
                  else (0, sr\<lparr>sr_headers := sh1\<lparr>rh_content_length := \<bar>int32 (r1 - r0)\<bar> + 1\<rparr>\<rparr>)
             else if len = sep_pos + 1 then
               let r0 = atoi32 (the (mk_string_copy_substr d (eq_pos + 1) len))
               in (0, sr\<lparr>sr_headers := sh\<lparr>rh_range0 := r0,
                          rh_content_length := rh_content_length sh - r0\<rparr>\<rparr>)
             else (-1, sr))"

text \<open>\<open>mk_http_range_set\<close>: the return value, the request and the effect (the \<open>lseek\<close>).\<close>

definition mk_http_range_set ::
  "bool \<Rightarrow> session_request \<Rightarrow> int \<Rightarrow> int \<times> session_request \<times> effect list" where
  "mk_http_range_set resume_on sr file_size =
     (let r0 = rh_range0 (sr_headers sr); r1 = rh_range1 (sr_headers sr);
          put = (\<lambda>(bytes, offset). sr\<lparr>sr_bytes_to_send := bytes, sr_bytes_offset := offset\<rparr>)
      in if resume_on \<and> p_data (sr_range sr) \<noteq> None then
           let p1 = (if 0 \<le> r0 \<and> r1 = -1 then (file_size - r0, r0) else (file_size, 0));
               p2 = (if 0 \<le> r0 \<and> 0 \<le> r1 then (\<bar>r1 - r0\<bar> + 1, r0) else p1);
               p3 = (if r0 = -1 \<and> 0 < r1 then (r1, file_size - r1) else p2)
           in if file_size < snd p3 \<or> file_size < fst p3 then (-1, put p3, [])
              else (0, put p3, [ESeek (sr_fd_file sr) (snd p3)])
         else (0, put (file_size, 0), []))"

section \<open>Keep-alive and pending requests\<close>

text \<open>
  \<open>mk_http_keepalive_check\<close>: \<open>connection.len\<close> is unsigned, so \<open>connection.len <= 0\<close> tests for
  zero.
\<close>

definition mk_http_keepalive_check :: "server_config \<Rightarrow> client_session \<Rightarrow> int" where
  "mk_http_keepalive_check config cs =
     (if cs_request_list cs = [] then -1
      else
        let sr = last (cs_request_list cs) in
        if \<not> keep_alive config \<or> \<not> sr_keep_alive sr then -1
        else if sr_protocol sr < HTTP_PROTOCOL_11 \<and> p_len (sr_connection sr) = 0 then -1
        else if sr_protocol sr < HTTP_PROTOCOL_11 \<and> rh_content_length (sr_headers sr) \<le> 0 then -1
        else if sr_close_now sr then -1
        else if max_keep_alive_request config \<le> cs_counter_connections cs then -1
        else 0)"

definition mk_http_pending_request :: "server_config \<Rightarrow> client_session \<Rightarrow> int \<times> client_session" where
  "mk_http_pending_request config cs =
     (if \<not> 4 \<le> cs_body_length cs then (-1, cs)
      else
        let e = cs_body_length cs - 4;
            n = mk_string_search (cs_body cs) ENDBLOCK MK_STR_SENSITIVE;
            pos = (if cs_body_pos_end cs < 0 then
                     if strncmp_eq (drop e (cs_body cs)) ENDBLOCK 4 then Some (int e)
                     else if 0 \<le> n then Some n
                     else None
                   else Some (cs_body_pos_end cs))
        in case pos of
             None \<Rightarrow> (-1, cs)
           | Some p \<Rightarrow>
               let m = (if cs_first_method cs = HTTP_METHOD_UNKNOWN
                        then mk_http_method_get (cs_body cs) else cs_first_method cs);
                   cs1 = cs\<lparr>cs_body_pos_end := p, cs_first_method := m\<rparr>;
                   done = (0, cs1\<lparr>cs_status := MK_REQUEST_STATUS_COMPLETED\<rparr>)
               in if m = HTTP_METHOD_POST \<or> m = HTTP_METHOD_PUT then
                    if 0 < p then
                      let cur = int (cs_body_length cs) - p - 4;
                          content_length = int32 (mk_method_validate_content_length (cs_body cs) cur)
                      in if max_request_size config \<le> content_length then (0, cs1)
                         else if p = int (cs_body_length cs) - 4 then
                           if content_length \<le> 0 then done else (-1, cs1)
                         else if cur < content_length then (-1, cs1)
                         else done
                    else (-1, cs1)
                  else done)"

text \<open>\<open>mk_request_ka_next\<close>: the session is ready for the next request; \<open>now\<close> is \<open>log_current_utime\<close>.\<close>

definition mk_request_ka_next :: "int \<Rightarrow> client_session \<Rightarrow> client_session" where
  "mk_request_ka_next now cs =
     cs\<lparr>cs_first_method := -1, cs_body_pos_end := -1, cs_body_length := 0,
        cs_counter_connections := cs_counter_connections cs + 1,
        cs_init_time := now, cs_status := MK_REQUEST_STATUS_INCOMPLETE\<rparr>"

section \<open>Lemmas\<close>

lemma take_cstring_prefix: "NUL \<notin> set (take n v) \<Longrightarrow> take n (cstring v) = take n v"
  by (induction v arbitrary: n) (auto simp: take_Cons' split: if_splits)

text \<open>
  The specification of the methods: the word before the first blank, of three to six bytes, is
  looked up among the names; it stands for the first name it is an initial segment of.
\<close>

definition http_methods :: "(cstr \<times> int) list" where
  "http_methods =
     [(''GET'', HTTP_METHOD_GET), (''POST'', HTTP_METHOD_POST), (''HEAD'', HTTP_METHOD_HEAD),
      (''PUT'', HTTP_METHOD_PUT), (''DELETE'', HTTP_METHOD_DELETE)]"

definition method_of_word :: "cstr \<Rightarrow> int" where
  "method_of_word w =
     (case find (\<lambda>(n, m). take (length w) n = w) http_methods of
        Some (n, m) \<Rightarrow> m | None \<Rightarrow> HTTP_METHOD_UNKNOWN)"

lemma strncmp_word:
  assumes "NUL \<notin> set (take k v)" "k \<le> length v" "NUL \<notin> set n"
  shows "strncmp_eq v n k \<longleftrightarrow> take k n = take k v"
  using take_cstring_prefix [OF assms(1)] cstring_no_NUL [OF assms(3)]
  by (auto simp: strncmp_eq_iff)

lemma method_check_word:
  assumes "NUL \<notin> set (take k v)" "k \<le> length v"
  shows "mk_http_method_check \<lparr>p_data = Some v, p_len = k\<rparr> = method_of_word (take k v)"
proof -
  have l: "length (take k v) = k" using assms(2) by simp
  show ?thesis
    unfolding mk_http_method_check_def method_of_word_def http_methods_def find.simps l
    by (simp add: strncmp_word [OF assms])
qed

section \<open>Properties\<close>

text \<open>
  C24: the method of a request. With no blank after three to six bytes the method is unknown;
  otherwise it is the first method whose name begins with the word before the blank.
\<close>

theorem mk_http_method_get_correct:
  assumes "NUL \<notin> set (take 7 body)"
  shows "mk_http_method_get body =
    (case find_index ((=) SP) (take 7 body) of
       None \<Rightarrow> HTTP_METHOD_UNKNOWN
     | Some k \<Rightarrow> if 3 \<le> k then method_of_word (take k body) else HTTP_METHOD_UNKNOWN)"
proof (cases "memchr body SP 7")
  case None
  then show ?thesis
    by (simp add: mk_http_method_get_def mk_string_char_search_def memchr_def del: find_index_None_iff)
next
  case (Some k)
  then have k: "k < 7" "k \<le> length body" by (auto simp: memchr_Some_iff)
  have "set (take k body) \<subseteq> set (take 7 body)" using k(1) by (intro set_take_subset_set_take) simp
  then have "NUL \<notin> set (take k body)" using assms by blast
  then show ?thesis
    using Some k method_check_word [OF _ k(2)]
    by (simp add: mk_http_method_get_def mk_string_char_search_def memchr_def)
qed

theorem mk_http_method_get_correct_witness:
  "mk_http_method_get ''HEAD / HTTP/1.1'' = HTTP_METHOD_HEAD"
proof -
  have "NUL \<notin> set (take 7 ''HEAD / HTTP/1.1'')" by code_simp
  from mk_http_method_get_correct [OF this] show ?thesis by code_simp
qed

text \<open>
  A truncated method name is taken for the whole name: a request line that begins with a
  proper initial segment of POST, HEAD or DELETE of at least three letters is a POST, HEAD or
  DELETE request.
\<close>

theorem mk_http_method_get_truncated:
  "mk_http_method_get (''POS '' @ r) = HTTP_METHOD_POST
   \<and> mk_http_method_get (''HEA '' @ r) = HTTP_METHOD_HEAD
   \<and> mk_http_method_get (''DELET '' @ r) = HTTP_METHOD_DELETE"
  by (simp add: mk_http_method_get_def mk_string_char_search_def memchr_def
      mk_http_method_check_def strncmp_eq_def eval_nat_numeral)

section \<open>Properties of ranges\<close>

lemma range_parse_ends:
  assumes "mk_http_range_parse sr = (0, sr1)"
  shows "rh_range1 (sr_headers sr1) = rh_range1 (sr_headers sr) \<or>
    0 < rh_range1 (sr_headers sr1) \<and>
      (rh_range0 (sr_headers sr1) = -1 \<or> rh_range0 (sr_headers sr1) \<le> rh_range1 (sr_headers sr1))"
proof (cases "p_data (sr_range sr)")
  case None
  with assms show ?thesis by (simp add: mk_http_range_parse_def)
next
  case (Some d)
  define len eq_pos sep_pos where "len = int32 (int (p_len (sr_range sr)))"
    and "eq_pos = mk_string_char_search d (CHR ''='') len"
    and "sep_pos = mk_string_char_search d (CHR ''-'') len"
  define bytes where "bytes = strncasecmp_eq d ''Bytes'' (nat eq_pos)"
  show ?thesis
    using assms
    unfolding mk_http_range_parse_def Some option.case Let_def len_def [symmetric]
      eq_pos_def [symmetric] sep_pos_def [symmetric] bytes_def [symmetric]
    by (simp split: if_splits) auto
qed

text \<open>
  C25: what the range code hands to the file sender. When a Range header was parsed and accepted
  for a file of \<open>fsize\<close> bytes, the offset and the byte count are within the file one by one, and
  together as well unless the range has two ends and the last position lies beyond the file.
\<close>

theorem mk_http_range_set_bounds:
  assumes "mk_http_range_parse sr = (0, sr1)" "mk_http_range_set resume_on sr1 fsize = (0, sr2, effs)"
    and "rh_range1 (sr_headers sr) = -1" "0 \<le> fsize"
  shows "0 \<le> sr_bytes_offset sr2 \<and> sr_bytes_offset sr2 \<le> fsize
    \<and> 0 \<le> sr_bytes_to_send sr2 \<and> sr_bytes_to_send sr2 \<le> fsize
    \<and> (sr_bytes_offset sr2 + sr_bytes_to_send sr2 \<le> fsize
       \<or> (0 \<le> rh_range0 (sr_headers sr2) \<and> fsize \<le> rh_range1 (sr_headers sr2)))"
proof -
  define r0 r1 where "r0 = rh_range0 (sr_headers sr1)" and "r1 = rh_range1 (sr_headers sr1)"
  have ends: "r1 = -1 \<or> (0 < r1 \<and> (r0 = -1 \<or> r0 \<le> r1))"
    using range_parse_ends [OF assms(1)] assms(3) by (auto simp: r0_def r1_def)
  define on where "on \<longleftrightarrow> resume_on \<and> p_data (sr_range sr1) \<noteq> None"
  define p3 where "p3 = (if \<not> on then (fsize, 0)
      else if r0 = -1 \<and> 0 < r1 then (r1, fsize - r1)
      else if 0 \<le> r0 \<and> 0 \<le> r1 then (\<bar>r1 - r0\<bar> + 1, r0)
      else if 0 \<le> r0 \<and> r1 = -1 then (fsize - r0, r0) else (fsize, 0))"
  have set: "mk_http_range_set resume_on sr1 fsize =
      (let sr' = sr1\<lparr>sr_bytes_to_send := fst p3, sr_bytes_offset := snd p3\<rparr> in
       if \<not> on then (0, sr', [])
       else if fsize < snd p3 \<or> fsize < fst p3 then (-1, sr', [])
       else (0, sr', [ESeek (sr_fd_file sr1) (snd p3)]))"
    unfolding mk_http_range_set_def Let_def on_def [symmetric] r0_def [symmetric] r1_def [symmetric]
      case_prod_beta p3_def
    by (cases on) simp_all
  have "sr2 = sr1\<lparr>sr_bytes_to_send := fst p3, sr_bytes_offset := snd p3\<rparr>"
    and "on \<longrightarrow> snd p3 \<le> fsize \<and> fst p3 \<le> fsize"
    using assms(2) unfolding set Let_def by (cases on; simp split: if_split_asm)+
  moreover have "p3 = (fsize, 0) \<or> on \<and>
      (0 \<le> r0 \<and> r1 = -1 \<and> p3 = (fsize - r0, r0) \<or> 0 \<le> r0 \<and> 0 \<le> r1 \<and> p3 = (\<bar>r1 - r0\<bar> + 1, r0)
       \<or> r0 = -1 \<and> 0 < r1 \<and> p3 = (r1, fsize - r1))"
    by (auto simp: p3_def)
  ultimately show ?thesis using ends assms(4) r0_def r1_def by auto
qed

theorem mk_http_range_set_bounds_witness:
  "let sr = mk_request_init\<lparr>sr_range := mk_pointer_init ''bytes=5-14''\<rparr>;
       sr2 = fst (snd (mk_http_range_set True (snd (mk_http_range_parse sr)) 10))
   in fst (mk_http_range_parse sr) = 0 \<and> sr_bytes_offset sr2 = 5 \<and> sr_bytes_to_send sr2 = 10
      \<and> sr_bytes_offset sr2 \<le> 10"
proof -
  define sr where "sr = mk_request_init\<lparr>sr_range := mk_pointer_init ''bytes=5-14''\<rparr>"
  define sr1 where "sr1 = snd (mk_http_range_parse sr)"
  define r where "r = mk_http_range_set True sr1 10"
  have p: "fst (mk_http_range_parse sr) = 0" unfolding sr_def by code_simp
  have e: "rh_range1 (sr_headers sr) = -1" unfolding sr_def by code_simp
  have q: "fst r = 0" "sr_bytes_offset (fst (snd r)) = 5" "sr_bytes_to_send (fst (snd r)) = 10"
    unfolding r_def sr1_def sr_def by code_simp+
  have "mk_http_range_parse sr = (0, sr1)" using p by (metis prod.collapse sr1_def)
  moreover have "mk_http_range_set True sr1 10 = (0, fst (snd r), snd (snd r))"
    using q(1) by (metis prod.collapse r_def)
  ultimately have "sr_bytes_offset (fst (snd r)) \<le> 10"
    using mk_http_range_set_bounds [of sr sr1 True 10 "fst (snd r)" "snd (snd r)"] e by simp
  with p q show ?thesis by (simp add: Let_def sr_def [symmetric] sr1_def [symmetric] r_def [symmetric])
qed

lemma dec_text_length: "0 \<le> v \<Longrightarrow> v < 2147483648 \<Longrightarrow> length (dec_text v) \<le> 10"
  using itop_digits_length [of 10 "nat v"] by (simp add: dec_text_def nat_less_iff)

lemma dec_text_no_sep:
  "0 \<le> v \<Longrightarrow> CHR ''='' \<notin> set (dec_text v) \<and> CHR ''-'' \<notin> set (dec_text v)"
  using dec_text_digits [of v] by (auto simp: c_isdigit_def byte_def)

lemma find_index_append_first:
  "\<forall>y\<in>set xs. \<not> P y \<Longrightarrow> P z \<Longrightarrow> find_index P (xs @ z # ys) = Some (length xs)"
  by (induction xs) auto

text \<open>
  A satisfiable two-ended range is served exactly. For \<open>bytes=a-b\<close> with \<open>a \<le> b\<close>, \<open>0 < b\<close>
  and \<open>b\<close> inside the file, the response announces \<open>b - a + 1\<close> bytes, the file is positioned at
  \<open>a\<close> and that many bytes are to be sent.
\<close>

theorem mk_http_range_two_ends:
  assumes "0 \<le> a" "a \<le> b" "0 < b" "b < fsize" "fsize < 2147483648"
    and "sr_range sr = \<lparr>p_data = Some (''bytes='' @ dec_text a @ ''-'' @ dec_text b @ x),
                         p_len = 7 + length (dec_text a) + length (dec_text b)\<rparr>"
  shows "\<exists>sr1 sr2. mk_http_range_parse sr = (0, sr1)
    \<and> mk_http_range_set True sr1 fsize = (0, sr2, [ESeek (sr_fd_file sr) a])
    \<and> rh_content_length (sr_headers sr2) = b - a + 1
    \<and> sr_bytes_offset sr2 = a \<and> sr_bytes_to_send sr2 = b - a + 1"
proof -
  let ?A = "dec_text a" let ?B = "dec_text b"
  let ?d = "''bytes='' @ ?A @ ''-'' @ ?B @ x"
  let ?L = "7 + length ?A + length ?B"
  have lA: "length ?A \<le> 10" "length ?B \<le> 10" using assms by (simp_all add: dec_text_length)
  have L: "int32 (int ?L) = int ?L" by (rule int32_id) (use lA in auto)
  have "?d = (''bytes='' @ ?A @ ''-'' @ ?B) @ x" "length (''bytes='' @ ?A @ ''-'' @ ?B) = ?L"
    by simp_all
  then have tk: "take ?L ?d = ''bytes='' @ ?A @ ''-'' @ ?B" by (metis append_eq_conv_conj)
  have search: "mk_string_char_search ?d c (int ?L) =
      pos_of (find_index ((=) c) (''bytes='' @ ?A @ ''-'' @ ?B))" for c
  proof -
    have "(if int ?L < 0 then strlen ?d else nat (int ?L)) = ?L" by simp
    then show ?thesis unfolding mk_string_char_search_def memchr_def using tk by (simp only:)
  qed
  have eq: "mk_string_char_search ?d (CHR ''='') (int ?L) = 5" unfolding search by simp
  have sep: "mk_string_char_search ?d (CHR ''-'') (int ?L) = 6 + int (length ?A)"
  proof -
    have "find_index ((=) (CHR ''-'')) ((''bytes='' @ ?A) @ CHR ''-'' # ?B) = Some (length (''bytes='' @ ?A))"
      by (rule find_index_append_first) (use dec_text_no_sep [OF assms(1)] in auto)
    then show ?thesis unfolding search by simp
  qed
  have c1: "mk_string_copy_substr ?d (5 + 1) (6 + int (length ?A)) = Some ?A"
    by (simp add: mk_string_copy_substr_def)
  have "?d = (''bytes='' @ ?A @ ''-'') @ ?B @ x"
    "nat (6 + int (length ?A) + 1) = length (''bytes='' @ ?A @ ''-'')" by simp_all
  then have "drop (nat (6 + int (length ?A) + 1)) ?d = ?B @ x" by (metis append_eq_conv_conj)
  then have c2: "mk_string_copy_substr ?d (6 + int (length ?A) + 1) (int ?L) = Some ?B"
    unfolding mk_string_copy_substr_def by simp
  have st: "strtol10 (dec_text v) = v" if "0 \<le> v" "v < 2147483648" for v
    using strtol10_dec_append [of v "[]"] that by (simp add: LONG_MIN_def LONG_MAX_def c_isdigit_def)
  have v: "atoi32 ?A = a" "atoi32 ?B = b" "int32 (b - a) = b - a"
    using assms st by (simp_all add: atoi32_def int32_id)
  have cmp: "strncasecmp_eq ?d ''Bytes'' (nat 5)"
  proof -
    have "take (nat 5) (cstring ?d) = ''bytes''" by simp
    moreover have "map c_tolower ''bytes'' = map c_tolower (take (nat 5) (cstring ''Bytes''))"
      by code_simp
    ultimately show ?thesis unfolding strncasecmp_eq_iff by (simp only:)
  qed
  define sr1 where "sr1 = sr\<lparr>sr_headers := (sr_headers sr)\<lparr>rh_range0 := a, rh_range1 := b,
      rh_content_length := \<bar>b - a\<bar> + 1\<rparr>\<rparr>"
  have "0 < length ?A" "0 < length ?B" using dec_text_ne by auto
  then have "mk_http_range_parse sr = (0, sr1)"
    unfolding mk_http_range_parse_def assms(6) mk_pointer.simps option.case Let_def L eq sep c1 c2 option.sel v sr1_def
    using cmp assms(1-3) by simp
  moreover have "mk_http_range_set True sr1 fsize = (0,
      sr1\<lparr>sr_bytes_to_send := b - a + 1, sr_bytes_offset := a\<rparr>, [ESeek (sr_fd_file sr) a])"
    unfolding mk_http_range_set_def sr1_def using assms by simp
  ultimately show ?thesis using assms(2) by (auto simp: sr1_def)
qed

theorem mk_http_range_two_ends_witness:
  "\<exists>sr1. mk_http_range_parse (mk_request_init\<lparr>sr_range := mk_pointer_init ''bytes=2-5''\<rparr>) = (0, sr1)"
proof -
  let ?sr = "mk_request_init\<lparr>sr_range := mk_pointer_init ''bytes=2-5''\<rparr>"
  have d: "dec_text 2 = ''2''" "dec_text 5 = ''5''" by code_simp+
  have "sr_range ?sr = \<lparr>p_data = Some (''bytes='' @ dec_text 2 @ ''-'' @ dec_text 5 @ []),
      p_len = 7 + length (dec_text 2) + length (dec_text 5)\<rparr>"
    unfolding d by (simp add: mk_pointer_init_def)
  from mk_http_range_two_ends [OF _ _ _ _ _ this, of 10] show ?thesis by auto
qed

text \<open>
  The one-byte range \<open>bytes=0-0\<close> and every other range that ends at position 0 is rejected,
  although it is satisfiable for a file that is not empty.
\<close>

theorem mk_http_range_rejects_first_byte:
  "sr_range sr = mk_pointer_init ''bytes=0-0'' \<Longrightarrow> fst (mk_http_range_parse sr) = -1"
proof -
  assume r: "sr_range sr = mk_pointer_init ''bytes=0-0''"
  then have r': "sr_range sr = \<lparr>p_data = Some ''bytes=0-0'', p_len = 9\<rparr>"
    by (simp add: mk_pointer_init_def)
  have s: "int32 (int 9) = 9"
    "mk_string_char_search ''bytes=0-0'' (CHR ''='') 9 = 5"
    "mk_string_char_search ''bytes=0-0'' (CHR ''-'') 9 = 7"
    "mk_string_copy_substr ''bytes=0-0'' (7 + 1) 9 = Some ''0''"
    "atoi32 ''0'' = 0" "strncasecmp_eq ''bytes=0-0'' ''Bytes'' (nat 5)" by code_simp+
  show ?thesis
    unfolding mk_http_range_parse_def r' mk_pointer.simps option.case Let_def s(1-5) option.sel
    using s(6) by simp
qed

theorem mk_http_range_rejects_first_byte_witness:
  "fst (mk_http_range_parse (mk_request_init\<lparr>sr_range := mk_pointer_init ''bytes=0-0''\<rparr>)) = -1"
  by (rule mk_http_range_rejects_first_byte) simp

section \<open>Complete requests\<close>

lemma find_sub_occurs: "find_sub (=) n v \<noteq> None \<longleftrightarrow> (\<exists>a b. v = a @ n @ b)"
proof
  assume "find_sub (=) n v \<noteq> None"
  then obtain k where "match_at (=) n (drop k v)" by (auto simp: find_sub_Some_iff)
  then obtain w where "drop k v = n @ w" by (auto simp: match_at_eq_prefix)
  then have "v = take k v @ n @ w" by (metis append_take_drop_id)
  then show "\<exists>a b. v = a @ n @ b" by blast
next
  assume "\<exists>a b. v = a @ n @ b"
  then obtain a b where v: "v = a @ n @ b" by blast
  then have "match_at (=) n (drop (length a) v)" by (auto simp: match_at_eq_prefix)
  moreover have "length a \<le> length v" using v by simp
  ultimately show "find_sub (=) n v \<noteq> None" by (auto simp: find_sub_None_iff simp del: not_None_eq)
qed

lemma mk_string_search_bytes:
  assumes "NUL \<notin> set v" "NUL \<notin> set n"
  shows "mk_string_search (v @ NUL # x) n MK_STR_SENSITIVE = pos_of (find_sub (=) n v)"
  using assms
  by (simp add: mk_string_search_def string_search_base_def strstr_def cstring_append_NUL cstring_no_NUL)

lemma strncmp_at_end:
  assumes "NUL \<notin> set v" "NUL \<notin> set n" "length n \<le> length v"
  shows "strncmp_eq (drop (length v - length n) (v @ NUL # x)) n (length n)
    \<longleftrightarrow> drop (length v - length n) v = n"
proof -
  have "NUL \<notin> set (drop (length v - length n) v)" using assms(1) in_set_dropD by metis
  then have "cstring (drop (length v - length n) (v @ NUL # x)) = drop (length v - length n) v"
    by (simp add: cstring_append_NUL)
  then show ?thesis using assms(2,3) by (simp add: strncmp_eq_iff cstring_no_NUL)
qed

text \<open>Where the header block of the received bytes ends, as \<open>mk_http_pending_request\<close> finds it.\<close>

definition block_end :: "cstr \<Rightarrow> nat option" where
  "block_end bytes =
     (if 4 \<le> length bytes \<and> drop (length bytes - 4) bytes = ENDBLOCK then Some (length bytes - 4)
      else find_sub (=) ENDBLOCK bytes)"

lemma block_end_correct:
  "block_end bytes = Some p \<Longrightarrow> take 4 (drop p bytes) = ENDBLOCK"
  "block_end bytes = None \<longleftrightarrow> (\<nexists>a b. bytes = a @ ENDBLOCK @ b)"
proof -
  show "take 4 (drop p bytes) = ENDBLOCK" if "block_end bytes = Some p"
    using that unfolding block_end_def
    by (auto simp: find_sub_Some_iff match_at_take eval_nat_numeral split: if_splits)
  have "\<exists>a b. bytes = a @ ENDBLOCK @ b" if "drop (length bytes - 4) bytes = ENDBLOCK"
    using that by (metis append_Nil2 append_take_drop_id)
  then show "block_end bytes = None \<longleftrightarrow> (\<nexists>a b. bytes = a @ ENDBLOCK @ b)"
    unfolding block_end_def using find_sub_occurs [of ENDBLOCK bytes] by auto
qed

text \<open>
  C26: a request without a body is complete exactly when a blank line has arrived. For a session
  whose buffer holds the received bytes, terminated, and whose method is neither POST nor PUT, the
  test succeeds iff CRLFCRLF occurs in them; it then marks the session complete and records a
  position at which CRLFCRLF stands.
\<close>

theorem mk_http_pending_request_no_body:
  assumes "cs_body cs = bytes @ NUL # junk" "cs_body_length cs = length bytes" "NUL \<notin> set bytes"
    and "cs_body_pos_end cs < 0"
    and "m = (if cs_first_method cs = HTTP_METHOD_UNKNOWN then mk_http_method_get (cs_body cs)
              else cs_first_method cs)"
    and "m \<noteq> HTTP_METHOD_POST" "m \<noteq> HTTP_METHOD_PUT"
    and "mk_http_pending_request config cs = (r, cs')"
  shows "if \<exists>a b. bytes = a @ ENDBLOCK @ b
    then r = 0 \<and> cs_status cs' = MK_REQUEST_STATUS_COMPLETED \<and> cs_first_method cs' = m
      \<and> (\<exists>p. cs_body_pos_end cs' = int p \<and> take 4 (drop p bytes) = ENDBLOCK)
    else r = -1 \<and> cs' = cs"
proof -
  have s: "mk_string_search (cs_body cs) ENDBLOCK MK_STR_SENSITIVE = pos_of (find_sub (=) ENDBLOCK bytes)"
    unfolding assms(1) using assms(3) by (intro mk_string_search_bytes) auto
  have c: "strncmp_eq (drop (length bytes - 4) (cs_body cs)) ENDBLOCK 4
      \<longleftrightarrow> drop (length bytes - 4) bytes = ENDBLOCK" if "4 \<le> length bytes"
    using strncmp_at_end [OF assms(3), of ENDBLOCK junk] that by (simp add: assms(1) eval_nat_numeral)
  have short: "block_end bytes = None" if "\<not> 4 \<le> length bytes"
  proof -
    have "\<nexists>a b. bytes = a @ ENDBLOCK @ b" using that by auto
    then show ?thesis using block_end_correct(2) by blast
  qed
  have pend: "mk_http_pending_request config cs =
      (case block_end bytes of None \<Rightarrow> (-1, cs)
       | Some p \<Rightarrow> (0, cs\<lparr>cs_body_pos_end := int p, cs_first_method := m,
                          cs_status := MK_REQUEST_STATUS_COMPLETED\<rparr>))"
  proof (cases "4 \<le> length bytes")
    case True
    then show ?thesis
      unfolding mk_http_pending_request_def Let_def s assms(2) assms(5) [symmetric]
      using assms(4,6,7) c [OF True] by (auto simp: block_end_def pos_of_def split: option.splits)
  next
    case False
    then show ?thesis using short assms(2) by (simp add: mk_http_pending_request_def)
  qed
  show ?thesis
  proof (cases "block_end bytes")
    case None
    with pend assms(8) block_end_correct(2) [of bytes] show ?thesis by auto
  next
    case (Some p)
    with pend assms(8) block_end_correct [of bytes] show ?thesis by auto
  qed
qed

definition demo_session :: "cstr \<Rightarrow> client_session" where
  "demo_session bytes =
     \<lparr>cs_pipelined = False, cs_socket = 7, cs_counter_connections = 0,
      cs_status = MK_REQUEST_STATUS_INCOMPLETE, cs_body = bytes @ [NUL], cs_is_fixed = False,
      cs_body_size = length bytes, cs_body_length = length bytes, cs_body_pos_end = -1,
      cs_first_method = HTTP_METHOD_UNKNOWN, cs_init_time = 0, cs_request_list = []\<rparr>"

theorem mk_http_pending_request_no_body_witness:
  "fst (mk_http_pending_request mk_config_set_init_values
          (demo_session (''GET / HTTP/1.0'' @ ENDBLOCK))) = 0"
proof -
  let ?b = "''GET / HTTP/1.0'' @ ENDBLOCK" let ?cs = "demo_session ?b"
  let ?m = "if cs_first_method ?cs = HTTP_METHOD_UNKNOWN then mk_http_method_get (cs_body ?cs)
            else cs_first_method ?cs"
  obtain r cs' where p: "mk_http_pending_request mk_config_set_init_values ?cs = (r, cs')" by fastforce
  have m: "?m \<noteq> HTTP_METHOD_POST" "?m \<noteq> HTTP_METHOD_PUT" by code_simp+
  have b: "cs_body ?cs = ?b @ NUL # []" "cs_body_length ?cs = length ?b" "NUL \<notin> set ?b"
    "cs_body_pos_end ?cs < 0" by (simp_all add: demo_session_def)
  have "\<exists>a b. ?b = a @ ENDBLOCK @ b" by (rule exI [of _ "''GET / HTTP/1.0''"], rule exI [of _ "[]"]) simp
  with mk_http_pending_request_no_body [OF b refl m p] p show ?thesis by (simp only: if_True) simp
qed

end
