(* ===== verification/Mk_Mimetype.thy ===== *)
theory Mk_Mimetype
  imports Mk_Config "HOL-Library.List_Lexorder"
begin

text \<open>
  \<^verbatim>\<open>src/mk_mimetype.c\<close>: the table of MIME types, ten common ones searched in order and the rest
  sorted for a binary search, and the extension of a file name. \<open>strcmp\<close> orders by the bytes of
  the strings; \<open>bsearch\<close> is the halving loop of the C library.
\<close>

record mimetype =
  mt_name :: cstr
  mt_type :: mk_pointer

record mime_tables =
  mimecommon :: "mimetype list"
  mimearr :: "mimetype list"
  mimetype_default :: mimetype

definition MIME_COMMON :: nat where [mk_const]: "MIME_COMMON = 10"

definition strkey :: "cstr \<Rightarrow> nat list" where
  "strkey s = map byte (cstring s)"

definition mime_key :: "mimetype \<Rightarrow> nat list" where
  "mime_key m = strkey (mt_name m)"

text \<open>\<open>mk_mimetype_add\<close> builds the entry; the caller appends it to one of the two arrays.\<close>

definition mk_mimetype_add :: "cstr \<Rightarrow> cstr \<Rightarrow> mimetype list \<Rightarrow> mimetype list" where
  "mk_mimetype_add name type arr =
     arr @ [\<lparr>mt_name = cstring name,
             mt_type = \<lparr>p_data = Some (cstring type @ [CR, LF]), p_len = strlen type + 2\<rparr>\<rparr>]"

function bsearch_loop :: "nat list \<Rightarrow> mimetype list \<Rightarrow> nat \<Rightarrow> nat \<Rightarrow> mimetype option" where
  "bsearch_loop key arr l u =
     (if l < u then
        let idx = (l + u) div 2 in
        if key < mime_key (arr ! idx) then bsearch_loop key arr l idx
        else if mime_key (arr ! idx) < key then bsearch_loop key arr (idx + 1) u
        else Some (arr ! idx)
      else None)"
  by pat_completeness auto
termination
  by (relation "measure (\<lambda>(key, arr, l, u). u - l)") auto

declare bsearch_loop.simps [simp del]

text \<open>
  \<open>mk_mimetype_lookup\<close>: the linear search runs over ten entries, present or not.
\<close>

definition mk_mimetype_lookup :: "mime_tables \<Rightarrow> cstr \<Rightarrow> cerr + mimetype option" where
  "mk_mimetype_lookup t name =
     (case find (\<lambda>m. strcasecmp_eq name (mt_name m)) (take MIME_COMMON (mimecommon t)) of
        Some m \<Rightarrow> Inr (Some m)
      | None \<Rightarrow>
          if length (mimecommon t) < MIME_COMMON then Inl OutOfBounds
          else Inr (bsearch_loop (strkey name) (mimearr t) 0 (length (mimearr t))))"

definition mk_mimearr_sort :: "mimetype list \<Rightarrow> mimetype list" where
  "mk_mimearr_sort arr = sort_key mime_key arr"

text \<open>
  \<open>mk_mimetype_read_config\<close>: with ten entries or fewer \<open>mimearr\<close> stays NULL but the counter is
  not reset, and the sort reads through it.
\<close>

fun mime_load :: "nat \<Rightarrow> mk_config_entry list \<Rightarrow> mimetype list \<Rightarrow> mimetype list \<Rightarrow>
    mimetype list \<times> mimetype list" where
  "mime_load i [] common arr = (common, arr)"
| "mime_load i (e # es) common arr =
     (if i < MIME_COMMON then mime_load (i + 1) es (mk_mimetype_add (ce_key e) (ce_val e) common) arr
      else mime_load (i + 1) es common (mk_mimetype_add (ce_key e) (ce_val e) arr))"

definition mk_mimetype_read_config :: "server_config \<Rightarrow> cstr option \<Rightarrow> cerr + mime_tables" where
  "mk_mimetype_read_config config file =
     bindE (mk_config_create file) (\<lambda>cnf_opt.
       case cnf_opt of
         None \<Rightarrow> Inl NullDeref
       | Some cnf \<Rightarrow>
           (case mk_config_section_get cnf ''MIMETYPES'' of
              None \<Rightarrow> Inl ExitFailure
            | Some section \<Rightarrow>
                let (common, arr) = mime_load 0 (sec_entries section) [] [] in
                if arr = [] \<and> common \<noteq> [] then Inl NullDeref
                else Inr \<lparr>mimecommon = common, mimearr = mk_mimearr_sort arr,
                          mimetype_default = \<lparr>mt_name = ''text/plain'' @ [CR, LF],
                                              mt_type = mk_pointer_set (default_mimetype config)\<rparr>\<rparr>))"

text \<open>
  \<open>mk_mimetype_find\<close>: the scan goes from \<open>data[len]\<close> down to a dot; without one it reads
  \<open>data[-1]\<close>, which does not change the result, and stops at \<open>-1\<close>.
\<close>

fun mime_scan :: "cstr \<Rightarrow> nat \<Rightarrow> int" where
  "mime_scan data 0 = (if rd_at data 0 = CHR ''.'' then 0 else -1)"
| "mime_scan data (Suc j) = (if rd_at data (Suc j) = CHR ''.'' then int (Suc j) else mime_scan data j)"

definition mk_mimetype_find :: "mime_tables \<Rightarrow> mk_pointer \<Rightarrow> cerr + mimetype option" where
  "mk_mimetype_find t filename =
     (let j = mime_scan (view filename) (p_len filename) in
      if j = 0 then Inr None
      else mk_mimetype_lookup t (drop (nat (j + 1)) (view filename)))"

section \<open>Lemmas\<close>

lemma bsearch_sound:
  "bsearch_loop key arr l u = Some m \<Longrightarrow> u \<le> length arr \<Longrightarrow> m \<in> set arr \<and> mime_key m = key"
proof (induction key arr l u rule: bsearch_loop.induct)
  case (1 key arr l u)
  show ?case
  proof (cases "l < u")
    case True
    let ?i = "(l + u) div 2"
    have i: "?i < u" using True by simp
    show ?thesis
    proof (cases "key < mime_key (arr ! ?i)")
      case less: True
      with "1.prems" True i show ?thesis
        by (intro "1.IH"(1) [OF True refl]) (simp_all add: bsearch_loop.simps [of key arr l u])
    next
      case nl: False
      show ?thesis
      proof (cases "mime_key (arr ! ?i) < key")
        case gr: True
        with "1.prems" True nl show ?thesis
          by (intro "1.IH"(2) [OF True refl]) (simp_all add: bsearch_loop.simps [of key arr l u])
      next
        case ng: False
        with "1.prems" True nl i have "m = arr ! ?i" by (simp add: bsearch_loop.simps [of key arr l u])
        with nl ng i "1.prems"(2) show ?thesis by auto
      qed
    qed
  next
    case False
    with "1.prems" show ?thesis by (simp add: bsearch_loop.simps [of key arr l u])
  qed
qed

lemma bsearch_complete:
  "bsearch_loop key arr l u = None \<Longrightarrow> sorted (map mime_key arr) \<Longrightarrow> u \<le> length arr \<Longrightarrow>
     l \<le> i \<Longrightarrow> i < u \<Longrightarrow> mime_key (arr ! i) \<noteq> key"
proof (induction key arr l u rule: bsearch_loop.induct)
  case (1 key arr l u)
  let ?m = "(l + u) div 2"
  have lu: "l < u" using "1.prems" by simp
  have mono: "mime_key (arr ! a) \<le> mime_key (arr ! b)" if "a \<le> b" "b < length arr" for a b
    using "1.prems"(2) that by (simp add: sorted_iff_nth_mono)
  have m: "?m < u" using lu by simp
  consider "key < mime_key (arr ! ?m)" | "mime_key (arr ! ?m) < key" | "mime_key (arr ! ?m) = key"
    by force
  then show ?case
  proof cases
    case 1
    then have b: "bsearch_loop key arr l ?m = None"
      using "1.prems"(1) lu by (simp add: bsearch_loop.simps [of key arr l u])
    show ?thesis
    proof (cases "i < ?m")
      case True
      show ?thesis by (rule "1.IH"(1) [OF lu refl 1 b "1.prems"(2) _ "1.prems"(4) True])
          (use m "1.prems"(3) in simp)
    next
      case False
      with mono [of ?m i] "1.prems" 1 show ?thesis by auto
    qed
  next
    case 2
    then have ng: "\<not> key < mime_key (arr ! ?m)" by (rule order_less_not_sym)
    have b: "bsearch_loop key arr (?m + 1) u = None"
      using "1.prems"(1) lu 2 ng by (simp add: bsearch_loop.simps [of key arr l u] Let_def)
    show ?thesis
    proof (cases "?m < i")
      case True
      show ?thesis
        by (rule "1.IH"(2) [OF lu refl ng 2 b "1.prems"(2,3) _ "1.prems"(5)]) (use True in simp)
    next
      case False
      with mono [of i ?m] "1.prems" 2 m show ?thesis by auto
    qed
  next
    case 3
    then show ?thesis using "1.prems"(1) lu by (simp add: bsearch_loop.simps [of key arr l u])
  qed
qed

lemma strkey_eq_iff: "strkey a = strkey b \<longleftrightarrow> strcmp_eq a b"
  unfolding strkey_def strcmp_eq_def by (metis inj_map_eq_map injI mkchar_byte)

lemma bsearch_sorted:
  assumes "sorted (map mime_key arr)"
  shows "case bsearch_loop (strkey name) arr 0 (length arr) of
     None \<Rightarrow> \<forall>m\<in>set arr. \<not> strcmp_eq (mt_name m) name
   | Some m \<Rightarrow> m \<in> set arr \<and> strcmp_eq (mt_name m) name"
proof (cases "bsearch_loop (strkey name) arr 0 (length arr)")
  case None
  then have "mime_key m \<noteq> strkey name" if "m \<in> set arr" for m
    using bsearch_complete [OF None assms] that by (metis in_set_conv_nth le0 order_refl)
  with None show ?thesis by (simp add: mime_key_def strkey_eq_iff)
next
  case (Some m)
  with bsearch_sound [OF Some] show ?thesis by (simp add: mime_key_def strkey_eq_iff)
qed

definition entry_mime :: "mk_config_entry \<Rightarrow> mimetype" where
  "entry_mime e = \<lparr>mt_name = cstring (ce_key e),
     mt_type = \<lparr>p_data = Some (cstring (ce_val e) @ [CR, LF]), p_len = strlen (ce_val e) + 2\<rparr>\<rparr>"

lemma find_mime:
  "find (\<lambda>m. strcasecmp_eq name (mt_name m)) (map entry_mime es) =
     map_option entry_mime (find (\<lambda>e. strcasecmp_eq name (cstring (ce_key e))) es)"
  by (induction es) (auto simp: entry_mime_def)

lemma mime_load_eq:
  "mime_load i es common arr =
     (common @ map entry_mime (take (MIME_COMMON - i) es), arr @ map entry_mime (drop (MIME_COMMON - i) es))"
proof (induction es arbitrary: i common arr)
  case (Cons e es)
  show ?case
  proof (cases "i < MIME_COMMON")
    case True
    then have "MIME_COMMON - i = Suc (MIME_COMMON - (i + 1))" by simp
    then show ?thesis using True Cons.IH [of "i + 1"] by (simp add: mk_mimetype_add_def entry_mime_def)
  next
    case False
    then show ?thesis using Cons.IH [of "i + 1"] by (simp add: mk_mimetype_add_def entry_mime_def)
  qed
qed simp

section \<open>Properties\<close>

text \<open>
  C27: the type lookup agrees with a search of the configured entries. With more than ten entries
  in the MIMETYPES section, loading succeeds, and the lookup of an extension returns the first of
  the ten leading entries with that name in any letter case, or else an entry among the others
  with exactly that name, and nothing only if there is none.
\<close>

theorem mk_mimetype_lookup_correct:
  assumes "mk_config_create file = Inr (Some cnf)"
    and "mk_config_section_get cnf ''MIMETYPES'' = Some sec" "10 < length (sec_entries sec)"
  shows "\<exists>t. mk_mimetype_read_config config file = Inr t \<and>
    (case find (\<lambda>e. strcasecmp_eq name (cstring (ce_key e))) (take 10 (sec_entries sec)) of
       Some e \<Rightarrow> mk_mimetype_lookup t name = Inr (Some (entry_mime e))
     | None \<Rightarrow>
         if \<exists>e\<in>set (drop 10 (sec_entries sec)). strcmp_eq (ce_key e) name
         then \<exists>e\<in>set (drop 10 (sec_entries sec)).
           strcmp_eq (ce_key e) name \<and> mk_mimetype_lookup t name = Inr (Some (entry_mime e))
         else mk_mimetype_lookup t name = Inr None)"
proof -
  let ?es = "sec_entries sec"
  define t where "t = \<lparr>mimecommon = map entry_mime (take 10 ?es),
    mimearr = mk_mimearr_sort (map entry_mime (drop 10 ?es)),
    mimetype_default = \<lparr>mt_name = ''text/plain'' @ [CR, LF],
                        mt_type = mk_pointer_set (default_mimetype config)\<rparr>\<rparr>"
  have "mk_mimetype_read_config config file = Inr t"
    using assms by (simp add: mk_mimetype_read_config_def mime_load_eq MIME_COMMON_def t_def)
  moreover have len: "length (mimecommon t) = 10" using assms(3) by (simp add: t_def)
  moreover have comm: "find (\<lambda>m. strcasecmp_eq name (mt_name m)) (take MIME_COMMON (mimecommon t)) =
      map_option entry_mime (find (\<lambda>e. strcasecmp_eq name (cstring (ce_key e))) (take 10 ?es))"
    using assms(3) by (simp add: t_def MIME_COMMON_def find_mime)
  moreover have "sorted (map mime_key (mimearr t))" by (simp add: t_def mk_mimearr_sort_def)
  note bs = bsearch_sorted [OF this, of name]
  have arr: "set (mimearr t) = entry_mime ` set (drop 10 ?es)"
    by (simp add: t_def mk_mimearr_sort_def)
  have nm: "strcmp_eq (mt_name (entry_mime e)) name \<longleftrightarrow> strcmp_eq (ce_key e) name" for e
    by (simp add: entry_mime_def strcmp_eq_def cstring_no_NUL)
  have rest: "if \<exists>e\<in>set (drop 10 ?es). strcmp_eq (ce_key e) name
     then \<exists>e\<in>set (drop 10 ?es). strcmp_eq (ce_key e) name
       \<and> bsearch_loop (strkey name) (mimearr t) 0 (length (mimearr t)) = Some (entry_mime e)
     else bsearch_loop (strkey name) (mimearr t) 0 (length (mimearr t)) = None"
    using bs unfolding arr by (auto simp: nm split: option.splits)
  show ?thesis
  proof (intro exI [of _ t] conjI)
    show "mk_mimetype_read_config config file = Inr t" by fact
    show "case find (\<lambda>e. strcasecmp_eq name (cstring (ce_key e))) (take 10 ?es) of
       Some e \<Rightarrow> mk_mimetype_lookup t name = Inr (Some (entry_mime e))
     | None \<Rightarrow>
         if \<exists>e\<in>set (drop 10 ?es). strcmp_eq (ce_key e) name
         then \<exists>e\<in>set (drop 10 ?es).
           strcmp_eq (ce_key e) name \<and> mk_mimetype_lookup t name = Inr (Some (entry_mime e))
         else mk_mimetype_lookup t name = Inr None"
      unfolding mk_mimetype_lookup_def comm
      using rest len by (auto simp: MIME_COMMON_def split: option.splits if_splits)
  qed
qed

definition demo_mime :: mk_config_section where
  "demo_mime = \<lparr>sec_name = ''MIMETYPES'', sec_entries =
     map (\<lambda>k. \<lparr>ce_key = k, ce_val = ''t/'' @ k\<rparr>)
       [''a'', ''b'', ''c'', ''d'', ''e'', ''f'', ''g'', ''h'', ''i'', ''j'', ''z'', ''k'']\<rparr>"

theorem mk_mimetype_lookup_correct_witness:
  "\<exists>t. mk_mimetype_read_config mk_config_set_init_values (Some (print_config [demo_mime])) = Inr t
     \<and> mk_mimetype_lookup t ''q'' = Inr None"
proof -
  have wf: "section_wf demo_mime" by code_simp
  obtain st where st: "cfg_loop cfg_parser_init (print_config [demo_mime]) = Inr st"
    "pr_sections st = [demo_mime]" "pr_nkeys st \<noteq> 0"
    using cfg_loop_sections [of "[demo_mime]" cfg_parser_init] wf by (auto simp: cfg_parser_init_def)
  then have cnf: "mk_config_create (Some (print_config [demo_mime])) = Inr (Some [demo_mime])"
    by (simp add: mk_config_create_def)
  have sec: "mk_config_section_get [demo_mime] ''MIMETYPES'' = Some demo_mime" by code_simp
  have len: "10 < length (sec_entries demo_mime)" by code_simp
  have no: "find (\<lambda>e. strcasecmp_eq ''q'' (cstring (ce_key e))) (take 10 (sec_entries demo_mime)) = None"
    "\<not> (\<exists>e\<in>set (drop 10 (sec_entries demo_mime)). strcmp_eq (ce_key e) ''q'')" by code_simp+
  from mk_mimetype_lookup_correct [OF cnf sec len, of mk_config_set_init_values "''q''"] no(2)
  show ?thesis unfolding no(1) by (simp del: set_drop_subset)
qed

end
