(* ===== verification/Mk_Plugin.thy ===== *)
theory Mk_Plugin
  imports Mk_Http Mk_Mimetype
begin

text \<open>
  \<^verbatim>\<open>src/mk_plugin.c\<close>: registration of plugins in the stage map, the stages of a request and the
  event hooks. The callbacks are code loaded at run time and stay parameters: functions from the
  state they are given to a return value and a state. The environment of a request collects them
  with the configuration and the answers of the operating system; an answer may depend on the
  arguments of the call and on everything that was done before it.
\<close>

section \<open>Plugins\<close>

definition MK_PLUGIN_STAGE_10 :: nat where [mk_const]: "MK_PLUGIN_STAGE_10 = 4"
definition MK_PLUGIN_STAGE_20 :: nat where [mk_const]: "MK_PLUGIN_STAGE_20 = 8"
definition MK_PLUGIN_STAGE_30 :: nat where [mk_const]: "MK_PLUGIN_STAGE_30 = 16"
definition MK_PLUGIN_STAGE_40 :: nat where [mk_const]: "MK_PLUGIN_STAGE_40 = 32"
definition MK_PLUGIN_STAGE_50 :: nat where [mk_const]: "MK_PLUGIN_STAGE_50 = 64"

definition MK_PLUGIN_RET_NOT_ME :: int where [mk_const]: "MK_PLUGIN_RET_NOT_ME = -1"
definition MK_PLUGIN_RET_CONTINUE :: int where [mk_const]: "MK_PLUGIN_RET_CONTINUE = 100"
definition MK_PLUGIN_RET_END :: int where [mk_const]: "MK_PLUGIN_RET_END = 200"
definition MK_PLUGIN_RET_CLOSE_CONX :: int where [mk_const]: "MK_PLUGIN_RET_CLOSE_CONX = 300"
definition MK_PLUGIN_RET_EVENT_NEXT :: int where [mk_const]: "MK_PLUGIN_RET_EVENT_NEXT = -300"
definition MK_PLUGIN_RET_EVENT_OWNED :: int where [mk_const]: "MK_PLUGIN_RET_EVENT_OWNED = -400"
definition MK_PLUGIN_RET_EVENT_CLOSE :: int where [mk_const]: "MK_PLUGIN_RET_EVENT_CLOSE = -500"
definition MK_PLUGIN_RET_EVENT_CONTINUE :: int where [mk_const]: "MK_PLUGIN_RET_EVENT_CONTINUE = -600"

text \<open>
  \<open>struct plugin\<close>, with the callbacks of the stages (of a socket, or of the request with an index
  in the state) and of the socket events. A handler of stage 30 may run into undefined behaviour.
\<close>

record plugin =
  pl_id :: nat
  pl_shortname :: cstr
  pl_hooks :: nat
  pl_s10 :: "int \<Rightarrow> int"
  pl_s20 :: "nat \<Rightarrow> req_state \<Rightarrow> int \<times> req_state"
  pl_s30 :: "nat \<Rightarrow> int action"
  pl_s40 :: "nat \<Rightarrow> req_state \<Rightarrow> int \<times> req_state"
  pl_s50 :: "int \<Rightarrow> int"
  pl_event_read :: "(int \<Rightarrow> int) option"
  pl_event_write :: "(int \<Rightarrow> int) option"
  pl_event_error :: "(int \<Rightarrow> int) option"
  pl_event_close :: "(int \<Rightarrow> int) option"
  pl_event_timeout :: "(int \<Rightarrow> int) option"

record plugin_stagemap =
  stage_10 :: "plugin list"
  stage_20 :: "plugin list"
  stage_30 :: "plugin list"
  stage_40 :: "plugin list"
  stage_50 :: "plugin list"

definition has_hook :: "plugin \<Rightarrow> nat \<Rightarrow> bool" where
  "has_hook p stage = odd (pl_hooks p div stage)"

text \<open>The singly linked lists of the stage map grow at the end.\<close>

definition mk_plugin_register_stagemap_add :: "plugin list \<Rightarrow> plugin \<Rightarrow> plugin list" where
  "mk_plugin_register_stagemap_add stm p = stm @ [p]"

definition mk_plugin_register_stagemap :: "plugin_stagemap \<Rightarrow> plugin \<Rightarrow> plugin_stagemap" where
  "mk_plugin_register_stagemap sm p =
     (let sm1 = (if has_hook p MK_PLUGIN_STAGE_10
                 then sm\<lparr>stage_10 := mk_plugin_register_stagemap_add (stage_10 sm) p\<rparr> else sm);
          sm2 = (if has_hook p MK_PLUGIN_STAGE_20
                 then sm1\<lparr>stage_20 := mk_plugin_register_stagemap_add (stage_20 sm1) p\<rparr> else sm1);
          sm3 = (if has_hook p MK_PLUGIN_STAGE_30
                 then sm2\<lparr>stage_30 := mk_plugin_register_stagemap_add (stage_30 sm2) p\<rparr> else sm2);
          sm4 = (if has_hook p MK_PLUGIN_STAGE_40
                 then sm3\<lparr>stage_40 := mk_plugin_register_stagemap_add (stage_40 sm3) p\<rparr> else sm3)
      in if has_hook p MK_PLUGIN_STAGE_50
         then sm4\<lparr>stage_50 := mk_plugin_register_stagemap_add (stage_50 sm4) p\<rparr> else sm4)"

text \<open>The list of plugins and the stage map: what registering and unregistering change.\<close>

record plugin_table =
  pt_plugins :: "plugin list"
  pt_stagemap :: plugin_stagemap

definition mk_plugin_register :: "plugin_table \<Rightarrow> plugin \<Rightarrow> plugin_table option" where
  "mk_plugin_register t p =
     (if pl_hooks p = 0 then None
      else Some \<lparr>pt_plugins = pt_plugins t @ [p],
                 pt_stagemap = mk_plugin_register_stagemap (pt_stagemap t) p\<rparr>)"

definition mk_plugin_unregister :: "plugin_table \<Rightarrow> plugin \<Rightarrow> plugin_table" where
  "mk_plugin_unregister t p = t\<lparr>pt_plugins := filter (\<lambda>q. pl_id q \<noteq> pl_id p) (pt_plugins t)\<rparr>"

section \<open>The environment\<close>

record stat_buf =
  st_islnk :: bool
  st_isdir :: bool
  st_size :: int
  st_mtime :: int
  st_mode :: nat
  st_uid :: int
  st_gid :: int

text \<open>\<open>lstat\<close> fails with \<open>EACCES\<close> (\<open>Inl True\<close>) or another error; \<open>open\<close> returns \<open>-1\<close> on failure.\<close>

record env =
  en_config :: server_config
  en_now :: int
  en_header_time :: mk_pointer
  en_safe_event_write :: bool
  en_euid :: int
  en_egid :: int
  en_open_flags :: nat
  en_mime :: mime_tables
  en_stagemap :: plugin_stagemap
  en_lstat :: "effect list \<Rightarrow> cstr \<Rightarrow> bool + stat_buf"
  en_stat :: "effect list \<Rightarrow> cstr \<Rightarrow> stat_buf option"
  en_access :: "effect list \<Rightarrow> cstr \<Rightarrow> bool"
  en_readlink :: "effect list \<Rightarrow> cstr \<Rightarrow> int"
  en_open :: "effect list \<Rightarrow> cstr \<Rightarrow> nat \<Rightarrow> int"
  en_send_file :: "effect list \<Rightarrow> int \<Rightarrow> int \<Rightarrow> int \<Rightarrow> int \<Rightarrow> int \<times> int"
  en_getpwnam :: "cstr \<Rightarrow> cstr option"
  en_gmt2utime :: "cstr \<Rightarrow> int"

section \<open>Stages\<close>

text \<open>
  \<open>mk_plugin_stage_run\<close> runs the part of its hook; the five parts. Without a plugin that ends the
  stage the result is \<open>-1\<close>.
\<close>

fun stage10_run :: "plugin list \<Rightarrow> int \<Rightarrow> int" where
  "stage10_run [] socket = -1"
| "stage10_run (p # stm) socket =
     (if pl_s10 p socket = MK_PLUGIN_RET_CLOSE_CONX then MK_PLUGIN_RET_CLOSE_CONX
      else stage10_run stm socket)"

fun stage20_run :: "plugin list \<Rightarrow> nat \<Rightarrow> int action" where
  "stage20_run [] i s = Inr (-1, s)"
| "stage20_run (p # stm) i s =
     (let (ret, s') = pl_s20 p i s in
      if ret = MK_PLUGIN_RET_CLOSE_CONX then Inr (MK_PLUGIN_RET_CLOSE_CONX, s')
      else stage20_run stm i s')"

fun stage30_loop :: "plugin list \<Rightarrow> nat \<Rightarrow> int action" where
  "stage30_loop [] i s = Inr (-1, s)"
| "stage30_loop (p # stm) i s =
     bindA (pl_s30 p i) (\<lambda>ret s'.
       if ret = MK_PLUGIN_RET_NOT_ME then stage30_loop stm i s'
       else if ret = MK_PLUGIN_RET_END \<or> ret = MK_PLUGIN_RET_CLOSE_CONX \<or> ret = MK_PLUGIN_RET_CONTINUE
       then Inr (ret, s')
       else Inl ExitFailure) s"

definition stage30_run :: "plugin list \<Rightarrow> nat \<Rightarrow> int action" where
  "stage30_run stm i s = (if sr_handled_by (sr_of i s) = None then stage30_loop stm i s else Inr (-1, s))"

fun stage40_run :: "plugin list \<Rightarrow> nat \<Rightarrow> int action" where
  "stage40_run [] i s = Inr (-1, s)"
| "stage40_run (p # stm) i s = stage40_run stm i (snd (pl_s40 p i s))"

fun stage50_run :: "plugin list \<Rightarrow> int \<Rightarrow> int" where
  "stage50_run [] socket = -1"
| "stage50_run (p # stm) socket =
     (if pl_s50 p socket = MK_PLUGIN_RET_CONTINUE then MK_PLUGIN_RET_CONTINUE
      else stage50_run stm socket)"

section \<open>Socket events\<close>

text \<open>
  A socket registered by a plugin is handled by that plugin when it has the hook; otherwise the
  plugins are asked in order until one does not pass the event on.
\<close>

definition mk_plugin_event_get :: "(int \<times> plugin) list \<Rightarrow> int \<Rightarrow> plugin option" where
  "mk_plugin_event_get evs socket = map_option snd (find (\<lambda>(fd, p). fd = socket) evs)"

fun event_chain :: "(plugin \<Rightarrow> (int \<Rightarrow> int) option) \<Rightarrow> int \<Rightarrow> plugin list \<Rightarrow> int \<Rightarrow> int" where
  "event_chain hook dflt [] socket = dflt"
| "event_chain hook dflt (p # ps) socket =
     (case hook p of
        None \<Rightarrow> event_chain hook dflt ps socket
      | Some f \<Rightarrow> if f socket = MK_PLUGIN_RET_EVENT_NEXT then event_chain hook dflt ps socket
                  else f socket)"

definition event_hook ::
  "(plugin \<Rightarrow> (int \<Rightarrow> int) option) \<Rightarrow> int \<Rightarrow> (int \<times> plugin) list \<Rightarrow> plugin list \<Rightarrow> int \<Rightarrow> int" where
  "event_hook hook dflt evs ps socket =
     (case mk_plugin_event_get evs socket of
        Some p \<Rightarrow> (case hook p of Some f \<Rightarrow> f socket | None \<Rightarrow> event_chain hook dflt ps socket)
      | None \<Rightarrow> event_chain hook dflt ps socket)"

definition mk_plugin_event_read :: "(int \<times> plugin) list \<Rightarrow> plugin list \<Rightarrow> int \<Rightarrow> int" where
  "mk_plugin_event_read = event_hook pl_event_read MK_PLUGIN_RET_EVENT_CONTINUE"

definition mk_plugin_event_write :: "(int \<times> plugin) list \<Rightarrow> plugin list \<Rightarrow> int \<Rightarrow> int" where
  "mk_plugin_event_write = event_hook pl_event_write MK_PLUGIN_RET_CONTINUE"

definition mk_plugin_event_error :: "(int \<times> plugin) list \<Rightarrow> plugin list \<Rightarrow> int \<Rightarrow> int" where
  "mk_plugin_event_error = event_hook pl_event_error MK_PLUGIN_RET_CONTINUE"

definition mk_plugin_event_close :: "(int \<times> plugin) list \<Rightarrow> plugin list \<Rightarrow> int \<Rightarrow> int" where
  "mk_plugin_event_close = event_hook pl_event_close MK_PLUGIN_RET_CONTINUE"

definition mk_plugin_event_timeout :: "(int \<times> plugin) list \<Rightarrow> plugin list \<Rightarrow> int \<Rightarrow> int" where
  "mk_plugin_event_timeout = event_hook pl_event_timeout MK_PLUGIN_RET_CONTINUE"

section \<open>Files\<close>

text \<open>\<open>mk_file_get_info\<close> (\<^verbatim>\<open>src/mk_file.c\<close>); the structure keeps its old fields on the error paths.\<close>

definition mode_bit :: "nat \<Rightarrow> nat \<Rightarrow> bool" where
  "mode_bit m b = odd (m div b)"

definition O_RDONLY_NONBLOCK :: nat where [mk_const]: "O_RDONLY_NONBLOCK = 2048"
definition O_NOATIME :: nat where [mk_const]: "O_NOATIME = 262144"

definition mk_file_get_info :: "env \<Rightarrow> effect list \<Rightarrow> cstr \<Rightarrow> file_info \<Rightarrow> int \<times> file_info" where
  "mk_file_get_info en tr path fi0 =
     (case en_lstat en tr path of
        Inl eacces \<Rightarrow> (-1, fi0\<lparr>fi_exists := eacces\<rparr>)
      | Inr f \<Rightarrow>
          let fi1 = fi0\<lparr>fi_exists := True, fi_is_file := \<not> st_islnk f, fi_is_link := st_islnk f,
                        fi_is_directory := False, fi_exec_access := False, fi_read_access := False\<rparr>
          in case (if st_islnk f then en_stat en tr path else Some f) of
               None \<Rightarrow> (-1, fi1)
             | Some target \<Rightarrow>
                 let own = (st_uid target = en_euid en); grp = (st_gid target = en_egid en);
                     m = st_mode target
                 in (0, fi1\<lparr>fi_size := st_size target, fi_last_modification := st_mtime target,
                            fi_is_directory := st_isdir target,
                            fi_is_file := (fi_is_file fi1 \<and> \<not> st_isdir target),
                            fi_read_access := ((mode_bit m 256 \<and> own) \<or> (mode_bit m 32 \<and> grp) \<or> mode_bit m 4),
                            fi_exec_access := ((mode_bit m 64 \<and> own) \<or> (mode_bit m 8 \<and> grp) \<or> mode_bit m 1),
                            fi_flags_read_only := O_RDONLY_NONBLOCK
                              + (if own \<or> en_euid en = 0 then O_NOATIME else 0)\<rparr>))"

section \<open>Sockets\<close>

text \<open>
  \<^verbatim>\<open>src/mk_socket.c\<close>: the calls go to the network plugin; with \<open>safe_event_write\<close> a write also
  asks for write events.
\<close>

definition MK_EPOLL_WRITE :: int where [mk_const]: "MK_EPOLL_WRITE = 1"

definition safe_write :: "env \<Rightarrow> int \<Rightarrow> unit action" where
  "safe_write en fd = (if en_safe_event_write en then emit (EEpollMode fd MK_EPOLL_WRITE) else returnA ())"

definition mk_socket_set_cork_flag :: "int \<Rightarrow> bool \<Rightarrow> unit action" where
  "mk_socket_set_cork_flag fd state = emit (ECork fd state)"

definition mk_socket_sendv :: "env \<Rightarrow> int \<Rightarrow> cstr list \<Rightarrow> unit action" where
  "mk_socket_sendv en fd parts = thenA (emit (ESendv fd parts)) (safe_write en fd)"

definition mk_socket_send :: "env \<Rightarrow> int \<Rightarrow> cstr \<Rightarrow> unit action" where
  "mk_socket_send en fd bytes = thenA (emit (ESend fd bytes)) (safe_write en fd)"

definition mk_socket_send_file :: "env \<Rightarrow> int \<Rightarrow> int \<Rightarrow> int \<Rightarrow> int \<Rightarrow> (int \<times> int) action" where
  "mk_socket_send_file en fd file_fd offset count s =
     (let r = en_send_file en (rs_trace s) fd file_fd offset count in
      bindA (emit (ESendFile fd file_fd offset count))
        (\<lambda>_. thenA (safe_write en fd) (returnA r)) s)"

end
