(* ===== verification/Mk_Header.thy ===== *)
theory Mk_Header
  imports Mk_Plugin
begin

text \<open>
  The I/O vectors of \<^verbatim>\<open>src/mk_iov.c\<close> and \<^verbatim>\<open>src/include/mk_iov.h\<close> with checked stores, and the
  response header of \<^verbatim>\<open>src/mk_header.c\<close> that is composed in one of them: which lines it has, that
  it always fits the vector of 32 entries, and that it is a sequence of lines closed by an empty
  one.
\<close>

section \<open>I/O vectors\<close>

definition MK_PLUGIN_HEADER_EXTRA_ROWS :: nat where [mk_const]: "MK_PLUGIN_HEADER_EXTRA_ROWS = 18"

definition mk_iov_create :: "nat \<Rightarrow> nat \<Rightarrow> mk_iov" where
  "mk_iov_create n offset =
     \<lparr>io_vec = replicate n mk_pointer_reset, io_idx = offset, io_to_free = [], io_size = n,
      io_total_len = 0\<rparr>"

definition mk_iov_realloc :: "mk_iov \<Rightarrow> nat \<Rightarrow> mk_iov" where
  "mk_iov_realloc io new_size =
     io\<lparr>io_vec := take new_size (io_vec io)
          @ replicate (new_size - length (io_vec io)) mk_pointer_reset,
        io_size := new_size\<rparr>"

definition mk_iov_set_free :: "mk_iov \<Rightarrow> cstr \<Rightarrow> cerr + mk_iov" where
  "mk_iov_set_free io buf =
     (if length (io_to_free io) < io_size io then Inr (io\<lparr>io_to_free := io_to_free io @ [buf]\<rparr>)
      else Inl OutOfBounds)"

text \<open>One store into the array, at the index given.\<close>

definition iov_put :: "mk_iov \<Rightarrow> nat \<Rightarrow> mk_pointer \<Rightarrow> cerr + mk_iov" where
  "iov_put io i p =
     (if i < length (io_vec io)
      then Inr (io\<lparr>io_vec := (io_vec io)[i := p], io_total_len := io_total_len io + p_len p\<rparr>)
      else Inl OutOfBounds)"

definition mk_iov_set_entry :: "mk_iov \<Rightarrow> mk_pointer \<Rightarrow> bool \<Rightarrow> nat \<Rightarrow> cerr + mk_iov" where
  "mk_iov_set_entry io p fr idx =
     bindE (iov_put io idx p) (\<lambda>io1. if fr then mk_iov_set_free io1 (view p) else Inr io1)"

text \<open>\<open>mk_iov_add_entry\<close>: the entry, its separator unless empty, and the check after the fact.\<close>

definition mk_iov_add_entry :: "mk_iov \<Rightarrow> mk_pointer \<Rightarrow> mk_pointer \<Rightarrow> bool \<Rightarrow> cerr + mk_iov" where
  "mk_iov_add_entry io p sep fr =
     bindE (iov_put io (io_idx io) p) (\<lambda>io1.
       let io2 = io1\<lparr>io_idx := io_idx io + 1\<rparr> in
       bindE (if 0 < p_len sep
              then map_sum id (\<lambda>x. x\<lparr>io_idx := io_idx io2 + 1\<rparr>) (iov_put io2 (io_idx io2) sep)
              else Inr io2) (\<lambda>io3.
         bindE (if fr then mk_iov_set_free io3 (view p) else Inr io3) (\<lambda>io4.
           if io_size io4 < io_idx io4 then Inl BugAbort else Inr io4)))"

definition mk_iov_free_marked :: "mk_iov \<Rightarrow> mk_iov" where
  "mk_iov_free_marked io = io\<lparr>io_idx := 0, io_to_free := []\<rparr>"

text \<open>What \<open>writev\<close> sends: the bytes of the entries in use.\<close>

definition iov_parts :: "mk_iov \<Rightarrow> cstr list" where
  "iov_parts io = map p_bytes (take (io_idx io) (io_vec io))"

text \<open>A sequence of calls of \<open>mk_iov_add_entry\<close>.\<close>

type_synonym iov_call = "mk_pointer \<times> mk_pointer \<times> bool"

fun iov_adds :: "mk_iov \<Rightarrow> iov_call list \<Rightarrow> cerr + mk_iov" where
  "iov_adds io [] = Inr io"
| "iov_adds io ((p, sep, fr) # cs) = bindE (mk_iov_add_entry io p sep fr) (\<lambda>io1. iov_adds io1 cs)"

definition mk_iov_none :: mk_pointer where "mk_iov_none = mk_pointer_init []"
definition mk_iov_crlf :: mk_pointer where "mk_iov_crlf = mk_pointer_init CRLF"

definition entries_of :: "iov_call list \<Rightarrow> mk_pointer list" where
  "entries_of cs = concat (map (\<lambda>(p, sep, fr). if 0 < p_len sep then [p, sep] else [p]) cs)"

definition iov_wf :: "mk_iov \<Rightarrow> bool" where
  "iov_wf io \<longleftrightarrow> length (io_vec io) = io_size io \<and> io_idx io \<le> io_size io
     \<and> length (io_to_free io) \<le> io_idx io"

lemma iov_wf_create: "iov_wf (mk_iov_create n 0)"
  by (simp add: iov_wf_def mk_iov_create_def)

lemma take_update_append: "i < length v \<Longrightarrow> take (Suc i) (v[i := p]) = take i v @ [p]"
  by (simp add: take_Suc_conv_app_nth)

lemma mk_iov_add_entry_spec:
  assumes "iov_wf io" "io_idx io + length (entries_of [(p, sep, fr)]) \<le> io_size io"
  shows "\<exists>io'. mk_iov_add_entry io p sep fr = Inr io' \<and> iov_wf io' \<and> io_size io' = io_size io
    \<and> io_idx io' = io_idx io + length (entries_of [(p, sep, fr)])
    \<and> take (io_idx io') (io_vec io') = take (io_idx io) (io_vec io) @ entries_of [(p, sep, fr)]"
proof -
  have len: "length (io_vec io) = io_size io" "length (io_to_free io) \<le> io_idx io"
    using assms(1) by (auto simp: iov_wf_def)
  show ?thesis
  proof (cases "0 < p_len sep")
    case True
    then have b: "io_idx io + 1 < length (io_vec io)" using assms(2) len by (simp add: entries_of_def)
    have t: "take (Suc (Suc (io_idx io))) ((io_vec io)[io_idx io := p, Suc (io_idx io) := sep]) =
        take (io_idx io) (io_vec io) @ [p, sep]"
      using b by (subst take_update_append) (simp_all add: take_update_append)
    show ?thesis
      using True b len assms t
      by (auto simp: mk_iov_add_entry_def iov_put_def mk_iov_set_free_def entries_of_def iov_wf_def Let_def)
  next
    case False
    then have b: "io_idx io < length (io_vec io)" using assms(2) len by (simp add: entries_of_def)
    show ?thesis
      using False b len assms take_update_append [OF b, of p]
      by (auto simp: mk_iov_add_entry_def iov_put_def mk_iov_set_free_def entries_of_def iov_wf_def Let_def)
  qed
qed

lemma entries_of_Cons: "entries_of (c # cs) = entries_of [c] @ entries_of cs"
  by (simp add: entries_of_def)

lemma entries_of_append [simp]: "entries_of (a @ b) = entries_of a @ entries_of b"
  by (simp add: entries_of_def)

lemma iov_adds_spec:
  "iov_wf io \<Longrightarrow> io_idx io + length (entries_of cs) \<le> io_size io \<Longrightarrow>
     \<exists>io'. iov_adds io cs = Inr io' \<and> iov_wf io'
       \<and> iov_parts io' = iov_parts io @ map p_bytes (entries_of cs)"
proof (induction cs arbitrary: io)
  case Nil
  then show ?case by (simp add: entries_of_def)
next
  case (Cons c cs)
  obtain p sep fr where c: "c = (p, sep, fr)" by (cases c)
  have "io_idx io + length (entries_of [(p, sep, fr)]) \<le> io_size io"
    using Cons.prems(2) by (simp add: c entries_of_Cons [of _ cs])
  from mk_iov_add_entry_spec [OF Cons.prems(1) this] obtain io1 where
    add: "mk_iov_add_entry io p sep fr = Inr io1" "iov_wf io1" "io_size io1 = io_size io"
    "io_idx io1 = io_idx io + length (entries_of [c])"
    "take (io_idx io1) (io_vec io1) = take (io_idx io) (io_vec io) @ entries_of [c]"
    unfolding c by blast
  have "io_idx io1 + length (entries_of cs) \<le> io_size io1"
    using Cons.prems(2) add by (simp add: entries_of_Cons [of _ cs])
  from Cons.IH [OF add(2) this] obtain io' where "iov_adds io1 cs = Inr io'" "iov_wf io'"
    "iov_parts io' = iov_parts io1 @ map p_bytes (entries_of cs)" by blast
  then show ?case using add by (auto simp: c iov_parts_def entries_of_Cons [of _ cs])
qed

section \<open>Status lines\<close>

definition MK_CUSTOM_STATUS :: int where [mk_const]: "MK_CUSTOM_STATUS = 7"

definition status_response :: "(int \<times> cstr) list" where
  "status_response =
     [(200, ''HTTP/1.1 200 OK''), (404, ''HTTP/1.1 404 Not Found''),
      (100, ''HTTP/1.1 100 Continue''), (101, ''HTTP/1.1 101 Switching Protocols''),
      (201, ''HTTP/1.1 201 Created''), (202, ''HTTP/1.1 202 Accepted''),
      (203, ''HTTP/1.1 203 Non-Authoritative Information''), (204, ''HTTP/1.1 204 No Content''),
      (205, ''HTTP/1.1 205 Reset Content''), (206, ''HTTP/1.1 206 Partial Content''),
      (300, ''HTTP/1.1 300 Multiple Choices''), (301, ''HTTP/1.1 301 Moved Permanently''),
      (302, ''HTTP/1.1 302 Found''), (303, ''HTTP/1.1 303 See Other''),
      (304, ''HTTP/1.1 304 Not Modified''), (305, ''HTTP/1.1 305 Use Proxy''),
      (400, ''HTTP/1.1 400 Bad Request''), (401, ''HTTP/1.1 401 Unauthorized''),
      (402, ''HTTP/1.1 402 Payment Required''), (403, ''HTTP/1.1 403 Forbidden''),
      (405, ''HTTP/1.1 405 Method Not Allowed''), (406, ''HTTP/1.1 406 Not Acceptable''),
      (407, ''HTTP/1.1 407 Proxy Authentication Required''),
      (408, ''HTTP/1.1 408 Request Timeout''), (409, ''HTTP/1.1 409 Conflict''),
      (410, ''HTTP/1.1 410 Gone''), (411, ''HTTP/1.1 411 Length Required''),
      (412, ''HTTP/1.1 412 Precondition Failed''),
      (413, ''HTTP/1.1 413 Request Entity Too Large''),
      (414, ''HTTP/1.1 414 Request-URI Too Long''), (415, ''HTTP/1.1 415 Unsupported Media Type''),
      (500, ''HTTP/1.1 500 Internal Server Error''), (501, ''HTTP/1.1 501 Not Implemented''),
      (502, ''HTTP/1.1 502 Bad Gateway''), (503, ''HTTP/1.1 503 Service Unavailable''),
      (504, ''HTTP/1.1 504 Gateway Timeout''), (505, ''HTTP/1.1 505 HTTP Version Not Supported'')]"

text \<open>The status line of \<open>mk_header_send\<close>; \<open>mk_bug\<close> stops the server on a status without one.\<close>

definition header_status :: "response_headers \<Rightarrow> cerr + mk_pointer" where
  "header_status sh =
     (if rh_status sh = MK_CUSTOM_STATUS then Inr (rh_custom_status sh)
      else case map_of status_response (rh_status sh) of
             None \<Rightarrow> Inl BugAbort
           | Some t \<Rightarrow> Inr (mk_pointer_init (t @ CRLF)))"

section \<open>The header lines\<close>

definition hdr_base :: "env \<Rightarrow> host \<Rightarrow> mk_pointer \<Rightarrow> iov_call list" where
  "hdr_base en h response =
     [(response, mk_iov_none, False),
      (h_header_signature h, mk_iov_crlf, False),
      (mk_pointer_init ''Date: '', en_header_time en, False)]"

definition hdr_last_modified :: "response_headers \<Rightarrow> mk_pointer \<Rightarrow> iov_call list" where
  "hdr_last_modified sh lm =
     (if 0 < rh_last_modified sh then [(mk_pointer_init ''Last-Modified: '', lm, False)] else [])"

definition built :: "cstr \<Rightarrow> mk_pointer" where
  "built t = \<lparr>p_data = Some (fst (mk_string_build t)), p_len = snd (mk_string_build t)\<rparr>"

definition ka_format :: "server_config \<Rightarrow> mk_pointer" where
  "ka_format config =
     built (''Keep-Alive: timeout='' @ dec_text (keep_alive_timeout config) @ '', max='')"

definition hdr_connection :: "env \<Rightarrow> client_session \<Rightarrow> session_request \<Rightarrow> iov_call list" where
  "hdr_connection en cs sr =
     (if rh_connection (sr_headers sr) = 0 then
        if mk_http_keepalive_check (en_config en) cs = 0 then
          if 0 < p_len (sr_connection sr) then
            [(ka_format (en_config en), mk_iov_none, False),
             (mk_string_itop (int32 (max_keep_alive_request (en_config en) - cs_counter_connections cs)),
              mk_pointer_init (''Connection: Keep-Alive'' @ CRLF), False)]
          else []
        else [(mk_pointer_init (''Connection: Close'' @ CRLF), mk_iov_none, False)]
      else [])"

definition hdr_location :: "response_headers \<Rightarrow> iov_call list" where
  "hdr_location sh =
     (case rh_location sh of None \<Rightarrow> []
      | Some loc \<Rightarrow> [(mk_pointer_init ''Location: '', mk_iov_none, False),
                     (mk_pointer_set loc, mk_iov_crlf, True)])"

definition hdr_content :: "response_headers \<Rightarrow> iov_call list" where
  "hdr_content sh =
     (if 0 < p_len (rh_content_type sh)
      then [(mk_pointer_init ''Content-Type: '', rh_content_type sh, False)] else [])
     @ (if (rh_status sh < 300 \<or> 305 < rh_status sh) \<and> rh_transfer_encoding sh = 0
        then [(mk_pointer_init (''Transfer-Encoding: Chunked'' @ CRLF), mk_iov_none, False)] else [])
     @ (if 0 < p_len (rh_content_encoding sh)
        then [(mk_pointer_init ''Content-Encoding: '', mk_iov_none, False),
              (rh_content_encoding sh, mk_iov_none, False)] else [])"

text \<open>The \<open>long\<close> content length is passed to \<open>mk_string_itop\<close> as an \<open>int\<close>.\<close>

definition hdr_length :: "response_headers \<Rightarrow> iov_call list" where
  "hdr_length sh =
     (if 0 \<le> rh_content_length sh
      then [(mk_pointer_init ''Content-Length: '', mk_string_itop (int32 (rh_content_length sh)), False)]
      else [])"

definition range_text :: "int \<Rightarrow> int \<Rightarrow> int \<Rightarrow> cstr" where
  "range_text a b tot =
     ''Content-Range: bytes '' @ dec_text a @ ''-'' @ dec_text b @ ''/'' @ dec_text tot"

definition hdr_range :: "server_config \<Rightarrow> response_headers \<Rightarrow> iov_call list" where
  "hdr_range config sh =
     (let r0 = rh_range0 sh; r1 = rh_range1 sh; tot = rh_real_length sh in
      if rh_content_length sh \<noteq> 0 \<and> (0 \<le> r0 \<or> 0 \<le> r1) \<and> resume config then
        (if 0 \<le> r0 \<and> r1 = -1 then [(built (range_text r0 (tot - 1) tot), mk_iov_crlf, True)] else [])
        @ (if 0 \<le> r0 \<and> 0 \<le> r1 then [(built (range_text r0 r1 tot), mk_iov_crlf, True)] else [])
        @ (if r0 = -1 \<and> 0 < r1
           then [(built (range_text (tot - r1) (tot - 1) tot), mk_iov_crlf, True)] else [])
      else [])"

definition header_calls ::
  "env \<Rightarrow> client_session \<Rightarrow> session_request \<Rightarrow> host \<Rightarrow> mk_pointer \<Rightarrow> mk_pointer \<Rightarrow> iov_call list" where
  "header_calls en cs sr h response lm =
     hdr_base en h response @ hdr_last_modified (sr_headers sr) lm @ hdr_connection en cs sr
     @ hdr_location (sr_headers sr) @ hdr_content (sr_headers sr) @ hdr_length (sr_headers sr)
     @ hdr_range (en_config en) (sr_headers sr)"

text \<open>The Last-Modified text comes from the thread's date cache.\<close>

definition last_modified_text :: "env \<Rightarrow> response_headers \<Rightarrow> mk_pointer action" where
  "last_modified_text en sh s =
     (if 0 < rh_last_modified sh then
        let (len, t, g') = mk_utils_utime2gmt (rs_gmt s) (en_now en) (rh_last_modified sh)
        in Inr (\<lparr>p_data = t, p_len = ulong len\<rparr>, s\<lparr>rs_gmt := g'\<rparr>)
      else Inr (mk_pointer_reset, s))"

text \<open>
  \<open>mk_header_send\<close>. The vector is the thread's cached one, which \<open>mk_iov_free_marked\<close> leaves
  empty after every use.
\<close>

definition header_close :: "env \<Rightarrow> int \<Rightarrow> nat \<Rightarrow> mk_iov \<Rightarrow> unit action" where
  "header_close en fd i io =
     bindA (get_sr i) (\<lambda>sr.
       let nl = (rh_cgi (sr_headers sr) = 0 \<or> rh_breakline (sr_headers sr) = 1) in
       case rh_extra_rows (sr_headers sr) of
         None \<Rightarrow>
           bindA (liftE (if nl then mk_iov_add_entry io mk_iov_crlf mk_iov_none False else Inr io))
             (\<lambda>io1. mk_socket_sendv en fd (iov_parts io1))
       | Some rows \<Rightarrow>
           bindA (liftE (if nl then mk_iov_add_entry rows mk_iov_crlf mk_iov_none False else Inr rows))
             (\<lambda>rows1. thenA (mk_socket_sendv en fd (iov_parts io))
               (thenA (mk_socket_sendv en fd (iov_parts rows1))
                 (upd_headers i (\<lambda>sh. sh\<lparr>rh_extra_rows := None\<rparr>)))))"

definition mk_header_send :: "env \<Rightarrow> int \<Rightarrow> nat \<Rightarrow> int action" where
  "mk_header_send en fd i =
     bindA get_cs (\<lambda>cs. bindA (get_sr i) (\<lambda>sr.
       bindA (liftE (header_status (sr_headers sr))) (\<lambda>response.
         case sr_host_conf sr of
           None \<Rightarrow> failA NullDeref
         | Some h \<Rightarrow>
             bindA (last_modified_text en (sr_headers sr)) (\<lambda>lm.
               bindA (liftE (iov_adds (mk_iov_create 32 0) (header_calls en cs sr h response lm)))
                 (\<lambda>io. thenA (mk_socket_set_cork_flag fd True)
                   (thenA (header_close en fd i io) (returnA 0)))))))"

section \<open>The header is a block of lines\<close>

definition lines_ok :: "iov_call list \<Rightarrow> bool" where
  "lines_ok cs \<longleftrightarrow> (\<exists>ls. concat (map p_bytes (entries_of cs)) = print_lines ls \<and> (\<forall>l\<in>set ls. line_wf l))"

lemma print_lines_append: "print_lines (a @ b) = print_lines a @ print_lines b"
  by (simp add: print_lines_def)

lemma lines_ok_Nil [simp]: "lines_ok []"
  unfolding lines_ok_def by (rule exI [of _ "[]"]) (simp add: entries_of_def)

lemma lines_ok_append: "lines_ok a \<Longrightarrow> lines_ok b \<Longrightarrow> lines_ok (a @ b)"
proof -
  assume "lines_ok a" "lines_ok b"
  then obtain la lb where
    "concat (map p_bytes (entries_of a)) = print_lines la" "\<forall>l\<in>set la. line_wf l"
    "concat (map p_bytes (entries_of b)) = print_lines lb" "\<forall>l\<in>set lb. line_wf l"
    by (auto simp: lines_ok_def)
  then show ?thesis unfolding lines_ok_def
    by (intro exI [of _ "la @ lb"]) (auto simp: print_lines_append)
qed

lemma lines_okI:
  "concat (map p_bytes (entries_of cs)) = l @ CRLF \<Longrightarrow> line_wf l \<Longrightarrow> lines_ok cs"
  unfolding lines_ok_def by (rule exI [of _ "[l]"]) simp

lemma line_wf_append [simp]: "line_wf (a @ b) \<longleftrightarrow> line_wf a \<and> line_wf b"
  by (auto simp: line_wf_def)

lemma line_wf_Cons [simp]:
  "line_wf []" "line_wf (c # l) \<longleftrightarrow> c \<noteq> NUL \<and> c \<noteq> CR \<and> line_wf l"
  by (auto simp: line_wf_def)

lemma line_wf_digits: "set l \<subseteq> {c. c_isdigit c} \<Longrightarrow> line_wf l"
  using c_isdigit_facts not_digit_CR(1) by (auto simp: line_wf_def)

lemma line_wf_dec_text [simp]: "line_wf (dec_text v)"
proof -
  have "line_wf (rev (itop_digits n))" for n
    by (rule line_wf_digits) (use itop_digits_set in simp)
  then show ?thesis by (simp add: dec_text_def)
qed

lemma p_bytes_built [simp]: "p_bytes (built t) = t"
  by (auto simp: built_def p_bytes_def mk_string_build_def vsnprintf_def Let_def)

lemma p_len_simps [simp]:
  "p_len (mk_pointer_init t) = length t" "p_len mk_iov_none = 0" "p_len mk_iov_crlf = 2"
  "p_bytes mk_iov_crlf = CRLF" "p_bytes mk_iov_none = []"
  "p_len (mk_string_itop v) = length (dec_text v) + 2"
  by (simp_all add: mk_pointer_init_def mk_iov_none_def mk_iov_crlf_def p_bytes_def mk_string_itop_eq)

lemma p_bytes_set [simp]: "p_bytes (mk_pointer_set t) = cstring t"
  by (simp add: p_bytes_def mk_pointer_set_def take_strlen)

lemma entries_of_simps [simp]:
  "entries_of [] = []"
  "entries_of ((p, sep, fr) # cs) = (if 0 < p_len sep then [p, sep] else [p]) @ entries_of cs"
  by (simp_all add: entries_of_def)

text \<open>A pointer to a line and its CRLF.\<close>

definition crlf_line :: "mk_pointer \<Rightarrow> bool" where
  "crlf_line p \<longleftrightarrow> (\<exists>l. p_bytes p = l @ CRLF \<and> line_wf l)"

lemma crlf_line_len: "crlf_line p \<Longrightarrow> 0 < p_len p"
  by (auto simp: crlf_line_def p_bytes_def) (metis append_is_Nil_conv list.distinct(1) neq0_conv take_0)

lemma hdr_base_ok:
  assumes "crlf_line response" "line_wf (p_bytes (h_header_signature h))" "crlf_line (en_header_time en)"
  shows "lines_ok (hdr_base en h response)"
proof -
  obtain l t where "p_bytes response = l @ CRLF" "line_wf l"
    "p_bytes (en_header_time en) = t @ CRLF" "line_wf t" using assms by (auto simp: crlf_line_def)
  then show ?thesis using assms(2) crlf_line_len [OF assms(3)] unfolding lines_ok_def
    by (intro exI [of _ "[l, p_bytes (h_header_signature h), ''Date: '' @ t]"])
      (auto simp: hdr_base_def)
qed

lemma named_line_ok:
  assumes "crlf_line p" "line_wf n"
  shows "lines_ok [(mk_pointer_init n, p, False)]"
proof -
  obtain l where "p_bytes p = l @ CRLF" "line_wf l" using assms by (auto simp: crlf_line_def)
  then show ?thesis using assms crlf_line_len [OF assms(1)]
    by (intro lines_okI [of _ "n @ l"]) auto
qed

lemma itop_crlf_line: "crlf_line (mk_string_itop v)"
  by (auto simp: crlf_line_def p_bytes_itop)

lemma hdr_connection_ok: "lines_ok (hdr_connection en cs sr)"
proof -
  let ?k = "''Keep-Alive: timeout='' @ dec_text (keep_alive_timeout (en_config en)) @ '', max=''"
  have "lines_ok [(built ?k, mk_iov_none, False),
      (mk_string_itop v, mk_pointer_init (''Connection: Keep-Alive'' @ CRLF), False)]" for v
    unfolding lines_ok_def
    by (rule exI [of _ "[?k @ dec_text v, ''Connection: Keep-Alive'']"])
      (auto simp: p_bytes_itop)
  moreover have "lines_ok [(mk_pointer_init (''Connection: Close'' @ CRLF), mk_iov_none, False)]"
    by (rule lines_okI [of _ "''Connection: Close''"]) simp_all
  ultimately show ?thesis by (simp add: hdr_connection_def ka_format_def)
qed

lemma hdr_location_ok:
  assumes "\<forall>loc. rh_location sh = Some loc \<longrightarrow> line_wf (cstring loc)"
  shows "lines_ok (hdr_location sh)"
proof (cases "rh_location sh")
  case (Some loc)
  with assms have "line_wf (cstring loc)" by simp
  then show ?thesis unfolding hdr_location_def Some option.case
    by (intro lines_okI [of _ "''Location: '' @ cstring loc"]) simp_all
qed (simp add: hdr_location_def)

lemma hdr_content_ok:
  assumes "p_len (rh_content_type sh) = 0 \<or> crlf_line (rh_content_type sh)"
    and "p_len (rh_content_encoding sh) = 0 \<or> crlf_line (rh_content_encoding sh)"
  shows "lines_ok (hdr_content sh)"
proof -
  have "lines_ok (if 0 < p_len (rh_content_type sh)
      then [(mk_pointer_init ''Content-Type: '', rh_content_type sh, False)] else [])"
    using assms(1) by (auto intro!: named_line_ok)
  moreover have "lines_ok (if (rh_status sh < 300 \<or> 305 < rh_status sh) \<and> rh_transfer_encoding sh = 0
      then [(mk_pointer_init (''Transfer-Encoding: Chunked'' @ CRLF), mk_iov_none, False)] else [])"
    by (auto intro!: lines_okI [of _ "''Transfer-Encoding: Chunked''"])
  moreover have "lines_ok (if 0 < p_len (rh_content_encoding sh)
      then [(mk_pointer_init ''Content-Encoding: '', mk_iov_none, False),
            (rh_content_encoding sh, mk_iov_none, False)] else [])"
  proof (cases "0 < p_len (rh_content_encoding sh)")
    case True
    with assms(2) obtain l where "p_bytes (rh_content_encoding sh) = l @ CRLF" "line_wf l"
      by (auto simp: crlf_line_def)
    with True show ?thesis by (auto intro!: lines_okI [of _ "''Content-Encoding: '' @ l"])
  qed simp
  ultimately show ?thesis unfolding hdr_content_def by (intro lines_ok_append)
qed

lemma hdr_length_ok: "lines_ok (hdr_length sh)"
  unfolding hdr_length_def by (auto intro!: named_line_ok itop_crlf_line)

lemma hdr_range_ok: "lines_ok (hdr_range config sh)"
proof -
  have "lines_ok [(built (range_text a b c), mk_iov_crlf, True)]" for a b c
    by (rule lines_okI [of _ "range_text a b c"]) (simp_all add: range_text_def)
  then show ?thesis unfolding hdr_range_def Let_def by (auto intro!: lines_ok_append)
qed

lemma iov_adds_append: "iov_adds io (a @ b) = bindE (iov_adds io a) (\<lambda>io1. iov_adds io1 b)"
proof (induction a arbitrary: io)
  case (Cons c a)
  then show ?case by (cases c) (auto simp: bindE_def split: sum.splits)
qed simp

text \<open>The date of the Last-Modified line.\<close>

lemma dig_wf: "n < 10 \<Longrightarrow> dig n \<noteq> NUL \<and> dig n \<noteq> CR"
  by (auto simp: dig_def byte_eq_iff [symmetric] byte_def [of CR])

lemma gmt_compose_line:
  "\<exists>t. gmt_compose (gmtime d) = t @ [CR, LF, NUL] \<and> line_wf t \<and> length t = 29"
proof -
  have f: "tm_mday (gmtime d) div 10 < 10" "tm_hour (gmtime d) div 10 < 10"
    "tm_min (gmtime d) div 10 < 10" "tm_sec (gmtime d) div 10 < 10"
    "tm_wday (gmtime d) < 7" "tm_mon (gmtime d) < 12"
    using gmtime_fields [of d] by auto
  have wd: "line_wf (mk_date_wd ! i)" if "i < 7" for i
    using that by (auto simp: mk_date_wd_def nth_Cons')
  have ym: "line_wf (mk_date_ym ! i)" if "i < 12" for i
    using that by (auto simp: mk_date_ym_def nth_Cons')
  let ?g = "gmtime d" let ?y = "ushort (tm_year (gmtime d) + 1900)"
  define t where "t = mk_date_wd ! tm_wday ?g @ [dig (tm_mday ?g div 10), dig (tm_mday ?g mod 10), SP]
     @ mk_date_ym ! tm_mon ?g
     @ [dig (?y div 1000 mod 10), dig (?y div 100 mod 10), dig (?y div 10 mod 10), dig (?y mod 10), SP]
     @ [dig (tm_hour ?g div 10), dig (tm_hour ?g mod 10), CHR '':'']
     @ [dig (tm_min ?g div 10), dig (tm_min ?g mod 10), CHR '':'']
     @ [dig (tm_sec ?g div 10), dig (tm_sec ?g mod 10)] @ '' GMT''"
  have t: "gmt_compose ?g = t @ [CR, LF, NUL]" by (simp add: gmt_compose_def Let_def t_def)
  moreover have "line_wf t" unfolding t_def by (simp add: wd ym f dig_wf)
  moreover have "length t = 29" using t gmt_compose_length [of d] by simp
  ultimately show ?thesis by blast
qed

lemma utime2gmt_line:
  assumes "gmt_cache_ok g" "date \<noteq> 0" "gmtime_r date \<noteq> None"
  shows "\<exists>t g'. mk_utils_utime2gmt g now date = (31, Some (t @ [CR, LF, NUL]), g')
    \<and> line_wf t \<and> length t = 29 \<and> gmt_cache_ok g'"
proof -
  from assms(3) obtain tm where tm: "gmtime_r date = Some tm" by blast
  with gmtime_r_Some have "tm = gmtime date" by blast
  then obtain t where t: "gmt_compose tm = t @ [CR, LF, NUL]" "line_wf t" "length t = 29"
    using gmt_compose_line by blast
  have "\<exists>g'. mk_utils_utime2gmt g now date = (31, Some (gmt_compose tm), g') \<and> gmt_cache_ok g'"
  proof (cases "mk_utils_gmt_cache_get g date")
    case None
    with utime2gmt_fresh_ok [OF assms(1), of date] tm assms(2) show ?thesis
      by (simp add: mk_utils_utime2gmt_def)
  next
    case (Some r)
    obtain x g' where r: "r = (x, g')" by fastforce
    from gmt_cache_get_ok [OF assms(1) Some [unfolded r] assms(2)] tm Some r assms(2)
    show ?thesis by (simp add: mk_utils_utime2gmt_def)
  qed
  with t show ?thesis by auto
qed

lemma last_modified_ok:
  assumes "gmt_cache_ok (rs_gmt s)" "0 < rh_last_modified sh \<longrightarrow> gmtime_r (rh_last_modified sh) \<noteq> None"
  shows "\<exists>lm g. last_modified_text en sh s = Inr (lm, s\<lparr>rs_gmt := g\<rparr>) \<and> gmt_cache_ok g
    \<and> lines_ok (hdr_last_modified sh lm)"
proof (cases "0 < rh_last_modified sh")
  case True
  then obtain t g' where g: "mk_utils_utime2gmt (rs_gmt s) (en_now en) (rh_last_modified sh)
      = (31, Some (t @ [CR, LF, NUL]), g')" "line_wf t" "length t = 29" "gmt_cache_ok g'"
    using utime2gmt_line [OF assms(1), of "rh_last_modified sh" "en_now en"] assms(2) by auto
  let ?lm = "\<lparr>p_data = Some (t @ [CR, LF, NUL]), p_len = ulong 31\<rparr>"
  have "p_bytes ?lm = t @ CRLF" using g(3) by (simp add: p_bytes_def ulong_id)
  then have "crlf_line ?lm" using g(2) by (auto simp: crlf_line_def)
  then have "lines_ok (hdr_last_modified sh ?lm)"
    using True by (auto simp: hdr_last_modified_def intro!: named_line_ok)
  then show ?thesis using True g by (auto simp: last_modified_text_def)
next
  case False
  then show ?thesis using assms(1)
    by (auto simp: last_modified_text_def hdr_last_modified_def intro!: exI [of _ "rs_gmt s"])
qed

lemma header_calls_fit: "length (entries_of (header_calls en cs sr h response lm)) \<le> 22"
proof -
  let ?sh = "sr_headers sr"
  have "length (entries_of (hdr_base en h response)) \<le> 5" by (simp add: hdr_base_def)
  moreover have "length (entries_of (hdr_last_modified ?sh lm)) \<le> 2" by (simp add: hdr_last_modified_def)
  moreover have "length (entries_of (hdr_connection en cs sr)) \<le> 3" by (simp add: hdr_connection_def)
  moreover have "length (entries_of (hdr_location ?sh)) \<le> 3"
    by (simp add: hdr_location_def split: option.splits)
  moreover have "length (entries_of (hdr_content ?sh)) \<le> 5" by (simp add: hdr_content_def)
  moreover have "length (entries_of (hdr_length ?sh)) \<le> 2" by (simp add: hdr_length_def)
  moreover have "length (entries_of (hdr_range (en_config en) ?sh)) \<le> 2"
    by (simp add: hdr_range_def Let_def)
  ultimately show ?thesis unfolding header_calls_def entries_of_append length_append by linarith
qed

definition header_ready :: "env \<Rightarrow> session_request \<Rightarrow> host \<Rightarrow> bool" where
  "header_ready en sr h \<longleftrightarrow>
     map_of status_response (rh_status (sr_headers sr)) \<noteq> None \<and> rh_status (sr_headers sr) \<noteq> MK_CUSTOM_STATUS \<and>
     line_wf (p_bytes (h_header_signature h)) \<and> crlf_line (en_header_time en) \<and>
     (0 < rh_last_modified (sr_headers sr) \<longrightarrow> gmtime_r (rh_last_modified (sr_headers sr)) \<noteq> None) \<and>
     (\<forall>loc. rh_location (sr_headers sr) = Some loc \<longrightarrow> line_wf (cstring loc)) \<and>
     (p_len (rh_content_type (sr_headers sr)) = 0 \<or> crlf_line (rh_content_type (sr_headers sr))) \<and>
     (p_len (rh_content_encoding (sr_headers sr)) = 0 \<or> crlf_line (rh_content_encoding (sr_headers sr)))"

lemma status_lines_wf: "map_of status_response st = Some t \<Longrightarrow> line_wf t"
proof -
  have "\<forall>(st, t)\<in>set status_response. line_wf t" by (simp add: status_response_def)
  then show "map_of status_response st = Some t \<Longrightarrow> line_wf t" by (auto dest!: map_of_SomeD)
qed

section \<open>Properties\<close>

text \<open>
  C5: a response header is always sent whole and well formed. When the status is one of the known
  ones and the texts that the configuration and the plugins contributed are single lines,
  \<open>mk_header_send\<close> does not fail, no store leaves the 32 entries of the vector, and what it writes
  is the status line of the status, further lines without stray CR or NUL, each ended by CRLF, and
  one empty line. The date cache stays coherent and the request is unchanged.
\<close>

theorem mk_header_send_wellformed:
  assumes "sr_host_conf (sr_of i s) = Some h" "header_ready en (sr_of i s) h"
    and "gmt_cache_ok (rs_gmt s)" "rh_extra_rows (sr_headers (sr_of i s)) = None"
    and "rh_cgi (sr_headers (sr_of i s)) = 0" "\<not> en_safe_event_write en"
  shows "\<exists>parts ls g. mk_header_send en fd i s =
      Inr (0, s\<lparr>rs_gmt := g, rs_trace := rs_trace s @ [ECork fd True, ESendv fd parts]\<rparr>)
    \<and> concat parts = print_lines (the (map_of status_response (rh_status (sr_headers (sr_of i s)))) # ls) @ CRLF
    \<and> (\<forall>l\<in>set ls. line_wf l) \<and> gmt_cache_ok g"
proof -
  let ?sr = "sr_of i s" let ?sh = "sr_headers ?sr"
  from assms(2) obtain t where t: "map_of status_response (rh_status ?sh) = Some t"
    by (auto simp: header_ready_def)
  have tw: "line_wf t" by (rule status_lines_wf [OF t])
  have resp: "header_status ?sh = Inr (mk_pointer_init (t @ CRLF))"
    using assms(2) t by (simp add: header_status_def header_ready_def)
  obtain lm g where lm: "last_modified_text en ?sh s = Inr (lm, s\<lparr>rs_gmt := g\<rparr>)" "gmt_cache_ok g"
    "lines_ok (hdr_last_modified ?sh lm)"
    using last_modified_ok [OF assms(3), of ?sh en] assms(2) by (auto simp: header_ready_def)
  let ?resp = "mk_pointer_init (t @ CRLF)"
  let ?calls = "header_calls en (rs_cs s) ?sr h ?resp lm"
  let ?tail = "[(h_header_signature h, mk_iov_crlf, False),
      (mk_pointer_init ''Date: '', en_header_time en, False)] @ hdr_last_modified ?sh lm
      @ hdr_connection en (rs_cs s) ?sr @ hdr_location ?sh @ hdr_content ?sh @ hdr_length ?sh
      @ hdr_range (en_config en) ?sh"
  have calls: "?calls = (?resp, mk_iov_none, False) # ?tail"
    by (simp add: header_calls_def hdr_base_def)
  have "lines_ok [(h_header_signature h, mk_iov_crlf, False)]"
    using assms(2) by (intro lines_okI [of _ "p_bytes (h_header_signature h)"]) (auto simp: header_ready_def)
  moreover have "lines_ok [(mk_pointer_init ''Date: '', en_header_time en, False)]"
    using assms(2) by (intro named_line_ok) (auto simp: header_ready_def)
  ultimately have "lines_ok ([(h_header_signature h, mk_iov_crlf, False)]
      @ [(mk_pointer_init ''Date: '', en_header_time en, False)] @ hdr_last_modified ?sh lm
      @ hdr_connection en (rs_cs s) ?sr @ hdr_location ?sh @ hdr_content ?sh @ hdr_length ?sh
      @ hdr_range (en_config en) ?sh)"
    using assms(2) lm(3)
    by (intro lines_ok_append hdr_connection_ok hdr_location_ok hdr_content_ok hdr_length_ok hdr_range_ok)
      (auto simp: header_ready_def)
  then obtain ls where ls: "concat (map p_bytes (entries_of ?tail)) = print_lines ls" "\<forall>l\<in>set ls. line_wf l"
    by (auto simp: lines_ok_def)
  have fit: "io_idx (mk_iov_create 32 0) + length (entries_of (?calls @ [(mk_iov_crlf, mk_iov_none, False)]))
      \<le> io_size (mk_iov_create 32 0)"
    using header_calls_fit [of en "rs_cs s" ?sr h ?resp lm] by (simp add: mk_iov_create_def)
  from iov_adds_spec [OF iov_wf_create fit] obtain io2 where
    all: "iov_adds (mk_iov_create 32 0) (?calls @ [(mk_iov_crlf, mk_iov_none, False)]) = Inr io2"
    and parts: "iov_parts io2 = map p_bytes (entries_of (?calls @ [(mk_iov_crlf, mk_iov_none, False)]))"
    by (auto simp: iov_parts_def mk_iov_create_def)
  from all obtain io1 where io1: "iov_adds (mk_iov_create 32 0) ?calls = Inr io1"
    "mk_iov_add_entry io1 mk_iov_crlf mk_iov_none False = Inr io2"
    by (auto simp: iov_adds_append bindE_Inr_iff)
  have "mk_header_send en fd i s =
      Inr (0, s\<lparr>rs_gmt := g, rs_trace := rs_trace s @ [ECork fd True, ESendv fd (iov_parts io2)]\<rparr>)"
    using assms(1,4,5,6) resp lm(1) io1
    by (simp add: mk_header_send_def bindA_def thenA_def liftE_def mk_socket_set_cork_flag_def
        header_close_def mk_socket_sendv_def safe_write_def)
  moreover have "concat (iov_parts io2) = print_lines (t # ls) @ CRLF"
    unfolding parts calls using ls(1) by simp
  ultimately show ?thesis using t ls(2) lm(2) by auto
qed

text \<open>An environment without plugins whose file system has one regular file.\<close>

definition demo_env :: env where
  "demo_env = \<lparr>en_config = mk_config_set_init_values\<lparr>hosts := [demo_host]\<rparr>, en_now = 1000,
     en_header_time = mk_pointer_init (''Thu, 01 Jan 1970 00:16:40 GMT'' @ CRLF),
     en_safe_event_write = False, en_euid = 1, en_egid = 1, en_open_flags = 0,
     en_mime = \<lparr>mimecommon = replicate 10 \<lparr>mt_name = ''html'', mt_type = mk_pointer_init (''text/html'' @ CRLF)\<rparr>,
       mimearr = [], mimetype_default = \<lparr>mt_name = ''default'', mt_type = mk_pointer_init (''text/plain'' @ CRLF)\<rparr>\<rparr>,
     en_stagemap = \<lparr>stage_10 = [], stage_20 = [], stage_30 = [], stage_40 = [], stage_50 = []\<rparr>,
     en_lstat = (\<lambda>_ path. if path = ''/srv/a.html'' then
        Inr \<lparr>st_islnk = False, st_isdir = False, st_size = 5, st_mtime = 900, st_mode = 292, st_uid = 0, st_gid = 0\<rparr>
        else Inl False),
     en_stat = (\<lambda>_ _. None), en_access = (\<lambda>_ _. False), en_readlink = (\<lambda>_ _. -1),
     en_open = (\<lambda>_ _ _. 9), en_send_file = (\<lambda>_ _ _ offset count. (count, offset + count)),
     en_getpwnam = (\<lambda>_. None), en_gmt2utime = (\<lambda>_. -1)\<rparr>"

definition demo_state :: "session_request \<Rightarrow> req_state" where
  "demo_state sr = \<lparr>rs_cs = (demo_session [])\<lparr>cs_request_list := [sr]\<rparr>, rs_gmt = gmt_cache_init, rs_trace = []\<rparr>"

theorem mk_header_send_wellformed_witness:
  "\<exists>parts ls g. mk_header_send demo_env 7 0
       (demo_state (mk_header_set_http_status (mk_request_init\<lparr>sr_host_conf := Some demo_host\<rparr>) 404)) =
     Inr (0, (demo_state (mk_header_set_http_status (mk_request_init\<lparr>sr_host_conf := Some demo_host\<rparr>) 404))
       \<lparr>rs_gmt := g, rs_trace := [ECork 7 True, ESendv 7 parts]\<rparr>)
   \<and> concat parts = print_lines (''HTTP/1.1 404 Not Found'' # ls) @ CRLF"
proof -
  let ?sr = "mk_header_set_http_status (mk_request_init\<lparr>sr_host_conf := Some demo_host\<rparr>) 404"
  let ?s = "demo_state ?sr"
  have sr: "sr_of 0 ?s = ?sr" "rs_trace ?s = []" "gmt_cache_ok (rs_gmt ?s)"
    using gmt_cache_init_ok by (simp_all add: demo_state_def sr_of_def)
  have h: "sr_host_conf ?sr = Some demo_host" "rh_status (sr_headers ?sr) = 404"
    "rh_extra_rows (sr_headers ?sr) = None" "rh_cgi (sr_headers ?sr) = 0"
    "rh_last_modified (sr_headers ?sr) = -1" "rh_location (sr_headers ?sr) = None"
    "p_len (rh_content_type (sr_headers ?sr)) = 0" "p_len (rh_content_encoding (sr_headers ?sr)) = 0"
    by (simp_all add: mk_header_set_http_status_def mk_request_init_def mk_header_response_reset_def
        mk_pointer_reset_def)
  have st: "map_of status_response 404 = Some ''HTTP/1.1 404 Not Found''" by code_simp
  have "crlf_line (en_header_time demo_env)" unfolding crlf_line_def
    by (rule exI [of _ "''Thu, 01 Jan 1970 00:16:40 GMT''"]) (simp add: demo_env_def)
  moreover have "line_wf (p_bytes (h_header_signature demo_host))" by (simp add: demo_host_def)
  ultimately have "header_ready demo_env ?sr demo_host"
    unfolding header_ready_def h st by (simp add: MK_CUSTOM_STATUS_def)
  moreover have "\<not> en_safe_event_write demo_env" by (simp add: demo_env_def)
  ultimately show ?thesis
    using mk_header_send_wellformed [of 0 ?s demo_host demo_env 7] sr h st by auto
qed

end
