(* ===== verification/Mk_Serve.thy ===== *)
theory Mk_Serve
  imports Mk_Header
begin

text \<open>
  How a parsed request is answered: the file sender and the error pages (\<^verbatim>\<open>src/mk_http.c\<close>,
  \<^verbatim>\<open>src/mk_request.c\<close>), home directories (\<^verbatim>\<open>src/mk_user.c\<close>), POST data (\<^verbatim>\<open>src/mk_method.c\<close>) and
  \<open>mk_http_init\<close>, which maps the URI to a file and serves it. The index \<open>i\<close> names the request in
  the session's list.
\<close>

section \<open>Sending a file\<close>

text \<open>The number of bytes left is a \<open>long\<close> that is returned as an \<open>int\<close>.\<close>

definition mk_http_send_file :: "env \<Rightarrow> nat \<Rightarrow> int action" where
  "mk_http_send_file en i =
     bindA get_cs (\<lambda>cs. bindA (get_sr i) (\<lambda>sr.
       bindA (mk_socket_send_file en (cs_socket cs) (sr_fd_file sr) (sr_bytes_offset sr) (sr_bytes_to_send sr))
         (\<lambda>(nbytes, offset').
           let left = (if 0 < nbytes then sr_bytes_to_send sr - nbytes else sr_bytes_to_send sr) in
           thenA (upd_sr i (\<lambda>r. r\<lparr>sr_bytes_offset := offset', sr_bytes_to_send := left\<rparr>))
             (thenA (if 0 < nbytes \<and> left = 0 then mk_socket_set_cork_flag (cs_socket cs) False else returnA ())
               (thenA (upd_sr i (\<lambda>r. r\<lparr>sr_loop := sr_loop r + 1\<rparr>))
                 (returnA (if nbytes < 0 then EXIT_ABORT else int32 left)))))))"

text \<open>\<open>open(2)\<close>, entered in the trace with the descriptor it returned.\<close>

definition open_file :: "env \<Rightarrow> cstr \<Rightarrow> nat \<Rightarrow> int action" where
  "open_file en path flags s =
     (let fd = en_open en (rs_trace s) path flags in
      thenA (emit (EOpen path flags fd)) (returnA fd) s)"

section \<open>Error responses\<close>

definition set_status :: "nat \<Rightarrow> int \<Rightarrow> unit action" where
  "set_status i status = upd_sr i (\<lambda>sr. mk_header_set_http_status sr status)"

text \<open>\<open>mk_request_set_default_page\<close>: the page text.\<close>

definition mk_request_set_default_page :: "cstr \<Rightarrow> mk_pointer \<Rightarrow> cstr \<Rightarrow> cstr" where
  "mk_request_set_default_page title message signature =
     ''<HTML><HEAD><STYLE type=\"text/css\"> body {font-size: 12px;} </STYLE></HEAD><BODY><H1>'' @ title
     @ ''</H1>'' @ cstring (mk_pointer_to_buf message) @ ''<BR><HR><ADDRESS>Powered by '' @ cstring signature
     @ ''</ADDRESS></BODY></HTML>''"

text \<open>The page for a status; NULL for the statuses without one.\<close>

definition error_page_text :: "int \<Rightarrow> session_request \<Rightarrow> host \<Rightarrow> cstr option" where
  "error_page_text http_status sr h =
     (let page = (\<lambda>title message. Some (mk_request_set_default_page title message (h_signature h))) in
      if http_status = 400 then page ''Bad Request'' (sr_uri sr)
      else if http_status = 403 then page ''Forbidden'' (sr_uri sr)
      else if http_status = 404
      then page ''Not Found'' (built ''The requested URL was not found on this server.'')
      else if http_status = 413 then page ''Entity too large'' (built ''The request entity is too large.'')
      else if http_status = 405 then page ''Method Not Allowed'' (sr_uri sr)
      else if http_status = 501 then page ''Method Not Implemented'' (sr_uri sr)
      else if http_status = 500 then page ''Internal Server Error'' (sr_uri sr)
      else if http_status = 505 then page ''HTTP Version Not Supported'' mk_pointer_reset
      else None)"

text \<open>The built-in page: header, page unless the method is HEAD, and the cork is pulled.\<close>

definition error_builtin :: "env \<Rightarrow> int \<Rightarrow> nat \<Rightarrow> int action" where
  "error_builtin en http_status i =
     bindA get_cs (\<lambda>cs. bindA (get_sr i) (\<lambda>sr.
       case sr_host_conf sr of
         None \<Rightarrow> failA NullDeref
       | Some h \<Rightarrow>
           let page = error_page_text http_status sr h in
           thenA (upd_headers i (\<lambda>sh. sh\<lparr>
               rh_content_length := (case page of None \<Rightarrow> rh_content_length sh | Some t \<Rightarrow> int (length t)),
               rh_location := None, rh_cgi := 0, rh_pconnections_left := 0, rh_last_modified := -1,
               rh_content_type := (case page of None \<Rightarrow> mk_pointer_reset
                                   | Some t \<Rightarrow> mk_pointer_set (''text/html'' @ CRLF))\<rparr>))
             (thenA (mk_header_send en (cs_socket cs) i)
               (thenA (case page of
                         None \<Rightarrow> returnA ()
                       | Some t \<Rightarrow> if sr_method sr \<noteq> HTTP_METHOD_HEAD then mk_socket_send en (cs_socket cs) t
                                   else returnA ())
                 (thenA (mk_socket_set_cork_flag (cs_socket cs) False) (returnA EXIT_ERROR))))))"

text \<open>The first configured page for the status, when its file can be examined and opened.\<close>

definition error_custom :: "env \<Rightarrow> nat \<Rightarrow> error_page \<Rightarrow> int action \<Rightarrow> int action" where
  "error_custom en i entry builtin s =
     (let (ret, finfo) = mk_file_get_info en (rs_trace s) (ep_real_path entry) zero_file_info in
      if ret = -1 then builtin s
      else bindA (open_file en (ep_real_path entry) (en_open_flags en)) (\<lambda>fd.
        if fd = -1 then builtin
        else thenA (upd_sr i (\<lambda>sr. sr\<lparr>sr_fd_file := fd, sr_bytes_to_send := fi_size finfo,
               sr_headers := (sr_headers sr)\<lparr>rh_content_length := fi_size finfo, rh_real_length := fi_size finfo\<rparr>,
               sr_file_info := finfo\<rparr>))
          (bindA get_cs (\<lambda>cs. thenA (mk_header_send en (cs_socket cs) i) (mk_http_send_file en i)))) s)"

definition mk_request_error :: "env \<Rightarrow> int \<Rightarrow> nat \<Rightarrow> int action" where
  "mk_request_error en http_status i =
     thenA (set_status i http_status)
       (bindA (get_sr i) (\<lambda>sr.
         if http_status \<noteq> 411 \<and> http_status \<noteq> 400 \<and> http_status \<noteq> 413 then
           (case sr_host_conf sr of
              None \<Rightarrow> failA NullDeref
            | Some h \<Rightarrow>
                (case find (\<lambda>e. ep_status e = http_status) (h_error_pages h) of
                   None \<Rightarrow> error_builtin en http_status i
                 | Some entry \<Rightarrow> error_custom en i entry (error_builtin en http_status i)))
         else error_builtin en http_status i))"

section \<open>Index files and redirections\<close>

text \<open>
  \<open>mk_request_index\<close>: the first index file that exists, with the length field it gets:
  \<open>snprintf\<close> truncates at \<open>flen - 1\<close> bytes, the length at \<open>flen\<close>.
\<close>

definition mk_request_index :: "env \<Rightarrow> effect list \<Rightarrow> cstr \<Rightarrow> nat \<Rightarrow> mk_pointer" where
  "mk_request_index en tr pathfile flen =
     (case index_files (en_config en) of
        None \<Rightarrow> mk_pointer_reset
      | Some names \<Rightarrow>
          (case find (\<lambda>n. en_access en tr (take (flen - 1) (cstring pathfile @ cstring n))) names of
             None \<Rightarrow> mk_pointer_reset
           | Some n \<Rightarrow>
               let full = cstring pathfile @ cstring n in
               \<lparr>p_data = Some (take (flen - 1) full), p_len = min (length full) flen\<rparr>))"

definition mk_http_directory_redirect_check :: "env \<Rightarrow> nat \<Rightarrow> int action" where
  "mk_http_directory_redirect_check en i =
     bindA get_cs (\<lambda>cs. bindA (get_sr i) (\<lambda>sr.
       let uri = sr_uri_processed sr; config = en_config en in
       if p_len uri = 0 then failA OutOfBounds
       else if rd_at (view uri) (p_len uri - 1) = CHR ''/'' then returnA 0
       else
         let hname = cstring (mk_pointer_to_buf (sr_host sr));
             location = cstring (p_bytes uri @ ''/'');
             port_redirect = (if p_data (sr_host sr) \<noteq> None \<and> 0 < sr_port sr \<and> sr_port sr \<noteq> standard_port config
                              then int32 (sr_port sr) else 0);
             real_location = transport config @ ''://'' @ hname
               @ (if 0 < port_redirect then '':'' @ dec_text port_redirect else []) @ location
         in thenA (set_status i 301)
              (thenA (upd_headers i (\<lambda>sh. sh\<lparr>rh_content_length := 0, rh_content_type := mk_pointer_reset,
                 rh_location := Some real_location, rh_cgi := 0,
                 rh_pconnections_left := int32 (max_keep_alive_request config - cs_counter_connections cs)\<rparr>))
                (thenA (mk_header_send en (cs_socket cs) i)
                  (thenA (mk_socket_set_cork_flag (cs_socket cs) False)
                    (thenA (upd_headers i (\<lambda>sh. sh\<lparr>rh_location := None\<rparr>)) (returnA (-1))))))))"

section \<open>Home directories and POST data\<close>

text \<open>
  \<open>mk_user_init\<close>: \<open>/~user/rest\<close> becomes the user's directory. The uri is not terminated at
  \<open>len\<close>, so the search for the slash may run past it.
\<close>

definition mk_user_init :: "env \<Rightarrow> nat \<Rightarrow> int action" where
  "mk_user_init en i =
     bindA (get_sr i) (\<lambda>sr.
       let uri = sr_uri_processed sr; d = view uri; n = p_len uri in
       if n \<le> 2 then returnA (-1)
       else
         let lim = mk_string_char_search (drop 2 d) (CHR ''/'') (int n);
             limit = (if lim = -1 then n - 2 else nat lim)
         in if 255 \<le> limit + 2 then returnA (-1)
            else
              let user_name = cstring (take limit (drop 2 d)) in
              case en_getpwnam en user_name of
                None \<Rightarrow> thenA (mk_request_error en 404 i) (returnA (-1))
              | Some pw_dir \<Rightarrow>
                  (case user_dir (en_config en) of
                     None \<Rightarrow> failA NullDeref
                   | Some udir \<Rightarrow>
                       let path = (if 2 + limit < n
                                   then pw_dir @ ''/'' @ udir
                                        @ cstring (take (n - 2 - limit) (drop (2 + limit) d))
                                   else pw_dir @ ''/'' @ udir)
                       in thenA (upd_sr i (\<lambda>r. r\<lparr>sr_real_path := built path, sr_real_path_static := False,
                                                 sr_user_home := True\<rparr>))
                            (returnA 0)))"

definition mk_method_parse_data :: "env \<Rightarrow> nat \<Rightarrow> int action" where
  "mk_method_parse_data en i =
     bindA get_cs (\<lambda>cs. bindA (get_sr i) (\<lambda>sr.
       let content_length_post = mk_method_validate_content_length (cs_body cs) (int (cs_body_length cs)) in
       if content_length_post = -1 then thenA (mk_request_error en 411 i) (returnA (-1))
       else if content_length_post \<le> 0 then thenA (mk_request_error en 400 i) (returnA (-1))
       else if int (cs_body_size cs) \<le> content_length_post then thenA (mk_request_error en 413 i) (returnA (-1))
       else
         let (tmp, toc') = mk_request_header_get (sr_headers_toc sr) ''Content-type:'' 13 in
         thenA (upd_sr i (\<lambda>r. r\<lparr>sr_headers_toc := toc'\<rparr>))
           (if p_data tmp = None then thenA (mk_request_error en 400 i) (returnA (-1))
            else thenA (upd_sr i (\<lambda>r. r\<lparr>sr_content_type := tmp,
                                        sr_content_length := int32 content_length_post\<rparr>))
                   (returnA 0))))"

definition mk_method_get_data :: "cstr \<Rightarrow> int \<Rightarrow> mk_pointer" where
  "mk_method_get_data data n = \<lparr>p_data = Some data, p_len = ulong n\<rparr>"

section \<open>Serving a URI\<close>

text \<open>\<open>mk_http_init\<close>, first part: the path of the file.\<close>

definition http_compose_path :: "nat \<Rightarrow> int action" where
  "http_compose_path i =
     bindA (get_sr i) (\<lambda>sr.
       case sr_host_conf sr of
         None \<Rightarrow> failA NullDeref
       | Some h \<Rightarrow>
           let uri = sr_uri_processed sr; root = h_documentroot h; len = p_len root + p_len uri in
           thenA (if p_len uri = 1 \<and> rd (view uri) = CHR ''/''
                  then upd_sr i (\<lambda>r. r\<lparr>sr_real_path := root, sr_real_path_static := False\<rparr>) else returnA ())
             (if sr_user_home sr then returnA 0
              else if len < MK_PATH_BASE
              then thenA (upd_sr i (\<lambda>r. r\<lparr>
                     sr_real_path := \<lparr>p_data = Some (p_bytes root @ p_bytes uri @ [NUL]), p_len = len\<rparr>,
                     sr_real_path_static := True\<rparr>)) (returnA 0)
              else
                case mk_buffer_cat (view root) (int32 (int (p_len root))) (view uri) (int32 (int (p_len uri))) of
                  None \<Rightarrow> returnA EXIT_ERROR
                | Some p \<Rightarrow> thenA (upd_sr i (\<lambda>r. r\<lparr>sr_real_path := p, sr_real_path_static := False\<rparr>))
                              (returnA 0)))"

definition real_path_str :: "session_request \<Rightarrow> cstr" where
  "real_path_str sr = cstring (view (sr_real_path sr))"

text \<open>Examine the file; the result is the return value of \<open>mk_file_get_info\<close>.\<close>

definition http_file_info :: "env \<Rightarrow> nat \<Rightarrow> int action" where
  "http_file_info en i s =
     (let sr = sr_of i s;
          (ret, fi) = mk_file_get_info en (rs_trace s) (real_path_str sr) (sr_file_info sr)
      in thenA (upd_sr i (\<lambda>r. r\<lparr>sr_file_info := fi\<rparr>)) (returnA ret) s)"

text \<open>
  What a stage 30 result means: \<open>Some\<close> action when the request is settled. A status set by the
  plugin is used for the error response.
\<close>

definition stage30_result :: "env \<Rightarrow> nat \<Rightarrow> int \<Rightarrow> int action option" where
  "stage30_result en i ret =
     (if ret = MK_PLUGIN_RET_CLOSE_CONX then
        Some (bindA (get_sr i) (\<lambda>sr.
          if 0 < rh_status (sr_headers sr) then mk_request_error en (rh_status (sr_headers sr)) i
          else mk_request_error en 403 i))
      else if ret = MK_PLUGIN_RET_CONTINUE then Some (returnA MK_PLUGIN_RET_CONTINUE)
      else if ret = MK_PLUGIN_RET_END then Some (returnA EXIT_NORMAL)
      else None)"

text \<open>The index file of a directory replaces the path.\<close>

definition http_index :: "env \<Rightarrow> nat \<Rightarrow> unit action" where
  "http_index en i s =
     (let sr = sr_of i s;
          f = mk_request_index en (rs_trace s) (real_path_str sr) MAX_PATH
      in case p_data f of
           None \<Rightarrow> Inr ((), s)
         | Some d \<Rightarrow>
             let st = (sr_real_path_static sr \<and> p_len f < MK_PATH_BASE) in
             thenA (upd_sr i (\<lambda>r. r\<lparr>sr_real_path := f, sr_real_path_static := st\<rparr>))
               (thenA (http_file_info en i) (returnA ())) s)"

text \<open>The last part: headers and content of a regular file.\<close>

definition http_send_content :: "env \<Rightarrow> nat \<Rightarrow> int action" where
  "http_send_content en i =
     bindA get_cs (\<lambda>cs. thenA (mk_header_send en (cs_socket cs) i)
       (bindA (get_sr i) (\<lambda>sr.
         if rh_content_length (sr_headers sr) = 0 then returnA 0
         else if sr_method sr = HTTP_METHOD_GET \<or> sr_method sr = HTTP_METHOD_POST then
           let (ret, sr', effs) = mk_http_range_set (resume (en_config en)) sr (fi_size (sr_file_info sr)) in
           thenA (upd_sr i (\<lambda>_. sr'))
             (thenA (modifyA (\<lambda>s. s\<lparr>rs_trace := rs_trace s @ effs\<rparr>))
               (if ret \<noteq> 0 then mk_request_error en 400 i else mk_http_send_file en i))
         else returnA 0)))"

definition http_open :: "env \<Rightarrow> nat \<Rightarrow> int action" where
  "http_open en i =
     bindA (get_sr i) (\<lambda>sr.
       if 0 < fi_size (sr_file_info sr) then
         bindA (open_file en (real_path_str sr) (fi_flags_read_only (sr_file_info sr))) (\<lambda>fd.
           thenA (upd_sr i (\<lambda>r. r\<lparr>sr_fd_file := fd\<rparr>))
             (if fd = -1 then mk_request_error en 403 i else http_send_content en i))
       else http_send_content en i)"

text \<open>Ranges are honoured for GET and HEAD; other methods get no content type.\<close>

definition http_range :: "env \<Rightarrow> nat \<Rightarrow> mimetype \<Rightarrow> int action" where
  "http_range en i mime =
     bindA (get_sr i) (\<lambda>sr.
       if sr_method sr = HTTP_METHOD_GET \<or> sr_method sr = HTTP_METHOD_HEAD then
         thenA (upd_headers i (\<lambda>sh. sh\<lparr>rh_content_type := mt_type mime\<rparr>))
           (bindA (get_sr i) (\<lambda>sr1.
             if p_data (sr_range sr1) \<noteq> None \<and> resume (en_config en) then
               let (ret, sr2) = mk_http_range_parse sr1 in
               thenA (upd_sr i (\<lambda>_. sr2))
                 (if ret < 0 then mk_request_error en 400 i
                  else thenA (if 0 \<le> rh_range0 (sr_headers sr2) \<or> 0 \<le> rh_range1 (sr_headers sr2)
                              then set_status i 206 else returnA ())
                         (http_open en i))
             else http_open en i))
       else thenA (upd_headers i (\<lambda>sh. sh\<lparr>rh_content_type := mk_pointer_reset\<rparr>)) (http_open en i))"

text \<open>Conditional requests, then the 200 response.\<close>

definition http_respond :: "env \<Rightarrow> nat \<Rightarrow> mimetype \<Rightarrow> int action" where
  "http_respond en i mime =
     bindA get_cs (\<lambda>cs. bindA (get_sr i) (\<lambda>sr.
       let fi = sr_file_info sr;
           date_client = (case p_data (sr_if_modified_since sr) of None \<Rightarrow> 0 | Some d \<Rightarrow> en_gmt2utime en d)
       in thenA (upd_headers i (\<lambda>sh. sh\<lparr>
              rh_pconnections_left := int32 (max_keep_alive_request (en_config en) - cs_counter_connections cs),
              rh_last_modified := fi_last_modification fi\<rparr>))
            (if p_data (sr_if_modified_since sr) \<noteq> None \<and> sr_method sr = HTTP_METHOD_GET
                \<and> fi_last_modification fi \<le> date_client \<and> 0 < date_client \<and> date_client \<le> en_now en
             then thenA (set_status i 304)
                    (thenA (mk_header_send en (cs_socket cs) i) (returnA EXIT_NORMAL))
             else thenA (set_status i 200)
                    (thenA (upd_headers i (\<lambda>sh. sh\<lparr>rh_location := None, rh_content_length := fi_size fi,
                                                  rh_real_length := fi_size fi\<rparr>))
                      (http_range en i mime)))))"

text \<open>From the check of the method to the MIME type.\<close>

definition http_static :: "env \<Rightarrow> nat \<Rightarrow> int action" where
  "http_static en i =
     bindA (get_sr i) (\<lambda>sr.
       let fi = sr_file_info sr in
       if sr_method sr = HTTP_METHOD_PUT \<or> sr_method sr = HTTP_METHOD_DELETE
          \<or> sr_method sr = HTTP_METHOD_UNKNOWN
       then mk_request_error en 501 i
       else if \<not> fi_read_access fi then mk_request_error en 403 i
       else bindA (liftE (mk_mimetype_find (en_mime en) (sr_real_path sr))) (\<lambda>m.
         let mime = (case m of None \<Rightarrow> mimetype_default (en_mime en) | Some t \<Rightarrow> t) in
         if fi_is_directory fi then mk_request_error en 403 i
         else if fi_size fi < 0 then mk_request_error en 404 i
         else http_respond en i mime))"

text \<open>Symbolic links, then the handlers of stage 30.\<close>

definition http_handlers :: "env \<Rightarrow> nat \<Rightarrow> int action" where
  "http_handlers en i =
     bindA (get_sr i) (\<lambda>sr.
       if sr_stage30_blocked sr then http_static en i
       else bindA (stage30_run (stage_30 (en_stagemap en)) i) (\<lambda>ret.
         case stage30_result en i ret of Some a \<Rightarrow> a | None \<Rightarrow> http_static en i))"

definition http_links :: "env \<Rightarrow> nat \<Rightarrow> int action" where
  "http_links en i s =
     (let sr = sr_of i s in
      if fi_is_link (sr_file_info sr) then
        if \<not> symlink (en_config en) then mk_request_error en 403 i s
        else if en_readlink en (rs_trace s) (real_path_str sr) < 0 then mk_request_error en 403 i s
        else http_handlers en i s
      else http_handlers en i s)"

definition http_directory :: "env \<Rightarrow> nat \<Rightarrow> int action" where
  "http_directory en i =
     bindA (get_sr i) (\<lambda>sr.
       if fi_is_directory (sr_file_info sr) then
         bindA (mk_http_directory_redirect_check en i) (\<lambda>r.
           if r = -1 then returnA (-1) else thenA (http_index en i) (http_links en i))
       else http_links en i)"

text \<open>A missing file is offered to the handlers first.\<close>

definition http_missing :: "env \<Rightarrow> nat \<Rightarrow> int action" where
  "http_missing en i =
     bindA (stage30_run (stage_30 (en_stagemap en)) i) (\<lambda>ret.
       case stage30_result en i ret of
         Some a \<Rightarrow> a
       | None \<Rightarrow>
           bindA (get_sr i) (\<lambda>sr.
             if \<not> fi_exists (sr_file_info sr) then mk_request_error en 404 i
             else if \<not> sr_stage30_blocked sr then mk_request_error en 403 i
             else http_directory en i))"

definition mk_http_init :: "env \<Rightarrow> nat \<Rightarrow> int action" where
  "mk_http_init en i =
     bindA (http_compose_path i) (\<lambda>r. if r < 0 then returnA EXIT_ERROR else
       bindA (get_sr i) (\<lambda>sr.
         if memmem (view (sr_uri_processed sr)) (p_len (sr_uri_processed sr)) ''..'' \<noteq> None
         then mk_request_error en 403 i
         else bindA (http_file_info en i) (\<lambda>ret.
           if ret \<noteq> 0 then http_missing en i else http_directory en i)))"

end
