(* ===== verification/Mk_Request.thy ===== *)
theory Mk_Request
  imports Mk_Serve
begin

text \<open>
  \<^verbatim>\<open>src/mk_request.c\<close>: from the bytes of a connection to the requests of its session. Reading into
  the growing buffer, splitting it into pipelined requests, the first line and the headers of a
  request, its processing up to \<open>mk_http_init\<close>, the write handler that works off the list of
  requests, and the list of sessions of a worker.
\<close>

section \<open>The first line and the headers\<close>

text \<open>
  \<open>index(3)\<close> on the string at \<open>v\<close>. A result of NULL is subtracted from a pointer in the source,
  which has no defined value: an error of the model.
\<close>

definition c_index :: "cstr \<Rightarrow> char \<Rightarrow> nat option" where
  "c_index v c = find_index ((=) c) (cstring v)"

text \<open>Where URI and line end: \<open>uri_init\<close>, \<open>uri_end\<close> and \<open>fh_limit\<close>, or a malformed line.\<close>

definition req_positions :: "cstr \<Rightarrow> cerr + (nat \<times> int \<times> nat) option" where
  "req_positions d =
     (case (c_index d SP, c_index d LF) of
        (Some sp, Some fh_limit) \<Rightarrow>
          let uri_init = sp + 1; uri_end = mk_string_char_search_r d SP (int fh_limit) - 1 in
          if uri_end \<le> 0 \<or> uri_end < int uri_init then Inr None
          else Inr (Some (uri_init, uri_end, fh_limit))
      | _ \<Rightarrow> Inl NullDeref)"

text \<open>The query string cuts the URI; the result is the new end of the URI.\<close>

definition req_query :: "nat \<Rightarrow> int \<Rightarrow> session_request \<Rightarrow> int \<times> session_request" where
  "req_query uri_init uri_end sr =
     (let d = view (sr_body sr);
          q = mk_string_char_search (drop uri_init d) (CHR ''?'') (uri_end + 2);
          init = q + int uri_init
      in if 0 < q \<and> init \<le> uri_end
         then (init - 1, sr\<lparr>sr_query_string := mk_pointer_create d (nat (init + 1)) (uri_end + 1)\<rparr>)
         else (uri_end, sr))"

definition req_protocol :: "int \<Rightarrow> int \<Rightarrow> session_request \<Rightarrow> session_request" where
  "req_protocol prot_init prot_end sr =
     (if prot_end \<noteq> prot_init \<and> 0 < prot_end then
        let p = mk_http_protocol_check (drop (nat prot_init) (view (sr_body sr))) (prot_end - prot_init)
        in sr\<lparr>sr_protocol := p, sr_protocol_p := mk_http_protocol_check_str p\<rparr>
      else sr)"

definition req_decode :: "session_request \<Rightarrow> cerr + session_request" where
  "req_decode sr =
     bindE (mk_utils_url_decode (sr_uri sr)) (\<lambda>temp.
       Inr (sr\<lparr>sr_uri_processed := (case temp of
              Some t \<Rightarrow> \<lparr>p_data = Some t, p_len = strlen t\<rparr> | None \<Rightarrow> sr_uri sr)\<rparr>))"

text \<open>The table of contents is made of what follows the first line.\<close>

definition req_toc :: "int \<Rightarrow> session_request \<Rightarrow> session_request" where
  "req_toc prot_end sr =
     (let n = int32 (int (p_len (sr_body sr)) - (prot_end + 2)) in
      sr\<lparr>sr_headers_len := n,
         sr_headers_toc := mk_request_header_toc_parse (drop (nat (prot_end + 2)) (view (sr_body sr))) n\<rparr>)"

text \<open>A header looked up and marked in the table.\<close>

definition req_get :: "cstr \<Rightarrow> session_request \<Rightarrow> mk_pointer \<times> session_request" where
  "req_get name sr =
     (let (v, toc') = mk_request_header_get (sr_headers_toc sr) name (length name) in
      (v, sr\<lparr>sr_headers_toc := toc'\<rparr>))"

text \<open>
  The port of \<open>Host: name:port\<close>; \<open>port_len\<close> is a \<open>short\<close>, and a negative one makes the copy run
  over the buffer. The result is \<open>None\<close> where the source returns \<open>-1\<close>.
\<close>

definition int16 :: "int \<Rightarrow> int" where
  "int16 x = (x + 32768) mod 65536 - 32768"

definition req_port :: "mk_pointer \<Rightarrow> int \<Rightarrow> cerr + int option" where
  "req_port h pos_sep =
     (let port_len = int16 (int (p_len h) - pos_sep - 1) in
      if 6 \<le> port_len then Inr None
      else if port_len < 0 then Inl OutOfBounds
      else
        let port = cstring (take (nat port_len) (drop (nat (pos_sep + 1)) (view h))) in
        if list_all c_isdigit port \<and> strtol10 port \<noteq> 0 then Inr (Some (strtol10 port)) else Inr None)"

definition req_host :: "server_config \<Rightarrow> session_request \<Rightarrow> cerr + int \<times> session_request" where
  "req_host config sr0 =
     (let (h, sr) = req_get ''Host:'' sr0 in
      case p_data h of
        None \<Rightarrow> Inr (0, sr\<lparr>sr_host := (sr_host sr)\<lparr>p_data := None\<rparr>\<rparr>)
      | Some d \<Rightarrow>
          let pos_sep = mk_string_char_search_r d (CHR '':'') (int32 (int (p_len h))) in
          if 0 \<le> pos_sep then
            let sr1 = sr\<lparr>sr_host := \<lparr>p_data = Some d, p_len = nat pos_sep\<rparr>, sr_host_port := h\<rparr> in
            bindE (req_port h pos_sep) (\<lambda>p. case p of None \<Rightarrow> Inr (-1, sr1) | Some n \<Rightarrow> Inr (0, sr1\<lparr>sr_port := n\<rparr>))
          else Inr (0, sr\<lparr>sr_host := h, sr_port := standard_port config\<rparr>))"

definition req_lookups :: "session_request \<Rightarrow> session_request" where
  "req_lookups sr0 =
     (let (c, sr1) = req_get ''Connection:'' sr0; (r, sr2) = req_get ''Range:'' sr1;
          (m, sr3) = req_get ''If-Modified-Since:'' sr2
      in sr3\<lparr>sr_connection := c, sr_range := r, sr_if_modified_since := m\<rparr>)"

definition keep :: "bool \<Rightarrow> session_request \<Rightarrow> session_request" where
  "keep b sr = sr\<lparr>sr_keep_alive := b, sr_close_now := \<not> b\<rparr>"

definition req_connection :: "session_request \<Rightarrow> session_request" where
  "req_connection sr =
     (let sr1 = (if sr_protocol sr = HTTP_PROTOCOL_10 then keep False sr
                 else if sr_protocol sr = HTTP_PROTOCOL_11 then keep True sr else sr);
          c = sr_connection sr; n = int32 (int (p_len c))
      in case p_data c of
           None \<Rightarrow> sr1
         | Some d \<Rightarrow>
             if 0 \<le> mk_string_search_n d ''Keep-Alive'' MK_STR_INSENSITIVE n then keep True sr1
             else if 0 \<le> mk_string_search_n d ''Close'' MK_STR_INSENSITIVE n then keep False sr1
             else sr1\<lparr>sr_connection := c\<lparr>p_len := 0\<rparr>\<rparr>)"

definition mk_request_header_process :: "server_config \<Rightarrow> session_request \<Rightarrow> cerr + int \<times> session_request" where
  "mk_request_header_process config sr0 =
     (let sr = sr0\<lparr>sr_method_p := mk_http_method_check_str (sr_method sr0)\<rparr>; d = view (sr_body sr) in
      bindE (req_positions d) (\<lambda>pos. case pos of
        None \<Rightarrow> Inr (-1, sr)
      | Some (uri_init, uri_end0, fh_limit) \<Rightarrow>
          let (uri_end, sr1) = req_query uri_init uri_end0 sr;
              sr2 = sr1\<lparr>sr_uri := mk_pointer_create d uri_init (uri_end + 1)\<rparr>;
              prot_init = uri_end0 + 2; prot_end = int fh_limit - 1
          in if p_len (sr_uri sr2) < 1 \<or> prot_init = prot_end then Inr (-1, sr2)
             else
               bindE (req_decode (req_protocol prot_init prot_end sr2)) (\<lambda>sr3.
                 bindE (req_host config (req_toc prot_end sr3)) (\<lambda>(ret, sr4).
                   if ret < 0 then Inr (-1, sr4)
                   else Inr (0, req_connection (req_lookups sr4))))))"

section \<open>Splitting the buffer\<close>

text \<open>One request of the buffer: the node made for the block from \<open>i\<close> to \<open>end\<close>.\<close>

definition parse_block :: "client_session \<Rightarrow> nat \<Rightarrow> int \<Rightarrow> session_request" where
  "parse_block cs i end =
     (let body = drop i (cs_body cs);
          method = (if i = 0 then cs_first_method cs else mk_http_method_get body);
          sr = mk_request_init\<lparr>sr_body := \<lparr>p_data = Some body, p_len = ulong (end - int i)\<rparr>, sr_method := method\<rparr>;
          offset = end + 4
      in if method = HTTP_METHOD_POST
         then sr\<lparr>sr_data := mk_method_get_data (drop (nat offset) (cs_body cs))
                               (int32 (int (cs_body_length cs) - offset))\<rparr>
         else sr)"

definition block_end :: "client_session \<Rightarrow> nat \<Rightarrow> int" where
  "block_end cs i =
     (if 0 < cs_counter_connections cs
      then mk_string_search (drop i (cs_body cs)) ENDBLOCK MK_STR_SENSITIVE + int i
      else cs_body_pos_end cs)"

lemma mk_string_search_ge: "-1 \<le> mk_string_search v n m"
  by (auto simp: mk_string_search_def string_search_base_def pos_of_def split: str_case.split option.split)

lemma block_end_ge: "int i \<le> cs_body_pos_end cs \<Longrightarrow> int i - 1 \<le> block_end cs i"
  using mk_string_search_ge [of "drop i (cs_body cs)" ENDBLOCK MK_STR_SENSITIVE]
  by (simp add: block_end_def)

function parse_loop :: "nat \<Rightarrow> nat \<Rightarrow> client_session \<Rightarrow> int \<times> nat \<times> client_session" where
  "parse_loop i blocks cs =
     (if int i \<le> cs_body_pos_end cs then
        if block_end cs i < 0 then (-1, blocks, cs)
        else parse_loop (nat (block_end cs i + 4)) (blocks + 1)
               (cs\<lparr>cs_request_list := cs_request_list cs @ [parse_block cs i (block_end cs i)]\<rparr>)
      else (0, blocks, cs))"
  by pat_completeness auto
termination
proof (relation "measure (\<lambda>(i, blocks, cs). nat (cs_body_pos_end cs + 1 - int i))", goal_cases)
  case 1
  show ?case by simp
next
  case (2 i blocks cs)
  then show ?case using block_end_ge [of i cs] by auto
qed

declare parse_loop.simps [simp del]

definition pipelines :: "session_request \<Rightarrow> bool" where
  "pipelines sr \<longleftrightarrow> sr_method sr = HTTP_METHOD_GET \<or> sr_method sr = HTTP_METHOD_HEAD"

definition mk_request_parse :: "client_session \<Rightarrow> int \<times> client_session" where
  "mk_request_parse cs =
     (let (ret, blocks, cs') = parse_loop 0 0 cs in
      if ret < 0 then (-1, cs')
      else if 1 < blocks then
        if list_all pipelines (cs_request_list cs') then (0, cs'\<lparr>cs_pipelined := True\<rparr>) else (-1, cs')
      else (0, cs'))"

section \<open>Processing a request\<close>

definition put_sr :: "nat \<Rightarrow> session_request \<Rightarrow> unit action" where
  "put_sr i sr = upd_sr i (\<lambda>_. sr)"

text \<open>From the header line on: home directories, bodies, stage 20, then \<open>mk_http_init\<close>.\<close>

definition req_dispatch :: "env \<Rightarrow> nat \<Rightarrow> int action" where
  "req_dispatch en i =
     bindA (get_sr i) (\<lambda>sr.
       bindA (if sr_method sr = HTTP_METHOD_POST \<or> sr_method sr = HTTP_METHOD_PUT
              then mk_method_parse_data en i else returnA 0) (\<lambda>status.
         if status \<noteq> 0 then returnA status
         else bindA (stage20_run (stage_20 (en_stagemap en)) i) (\<lambda>ret.
           if ret = MK_PLUGIN_RET_CLOSE_CONX then returnA EXIT_ABORT else mk_http_init en i)))"

definition req_home :: "env \<Rightarrow> nat \<Rightarrow> int action" where
  "req_home en i =
     bindA (get_sr i) (\<lambda>sr.
       let uri = sr_uri_processed sr in
       if user_dir (en_config en) \<noteq> None \<and> 2 < p_len uri \<and> rd_at (view uri) 1 = CHR ''~'' then
         bindA (mk_user_init en i) (\<lambda>r.
           if r \<noteq> 0 then thenA (mk_request_error en 404 i) (returnA EXIT_ABORT) else req_dispatch en i)
       else req_dispatch en i)"

text \<open>The virtual host and its alias: the first ones unless the Host header names others.\<close>

definition req_vhost :: "server_config \<Rightarrow> host \<Rightarrow> session_request \<Rightarrow> cerr + session_request" where
  "req_vhost config dflt sr =
     (case h_server_names dflt of
        [] \<Rightarrow> Inl NullDeref
      | a # _ \<Rightarrow>
          let sr1 = sr\<lparr>sr_host_alias := Some a\<rparr> in
          Inr (case p_data (sr_host sr) of
                 None \<Rightarrow> sr1
               | Some d \<Rightarrow>
                   (case mk_config_host_find (sr_host sr) (hosts config) of
                      None \<Rightarrow> sr1
                    | Some (h, al) \<Rightarrow> sr1\<lparr>sr_host_conf := Some h, sr_host_alias := Some al\<rparr>)))"

definition req_validate :: "env \<Rightarrow> host \<Rightarrow> nat \<Rightarrow> int action" where
  "req_validate en dflt i =
     thenA (upd_sr i (\<lambda>r. r\<lparr>sr_user_home := False\<rparr>))
       (bindA (get_sr i) (\<lambda>sr.
         if rd (view (sr_uri_processed sr)) \<noteq> CHR ''/''
         then thenA (mk_request_error en 400 i) (returnA EXIT_NORMAL)
         else if p_data (sr_host sr) = None \<and> sr_protocol sr = HTTP_PROTOCOL_11
         then thenA (mk_request_error en 400 i) (returnA EXIT_NORMAL)
         else if sr_protocol sr = HTTP_PROTOCOL_UNKNOWN
         then thenA (mk_request_error en 505 i) (returnA EXIT_ABORT)
         else bindA (liftE (req_vhost (en_config en) dflt sr)) (\<lambda>sr1.
           thenA (put_sr i sr1) (req_home en i))))"

definition mk_request_process :: "env \<Rightarrow> nat \<Rightarrow> int action" where
  "mk_request_process en i =
     (case hosts (en_config en) of
        [] \<Rightarrow> failA NullDeref
      | dflt # _ \<Rightarrow>
          thenA (upd_sr i (\<lambda>r. r\<lparr>sr_host_conf := Some dflt\<rparr>))
            (bindA (get_sr i) (\<lambda>sr.
              bindA (liftE (mk_request_header_process (en_config en) sr)) (\<lambda>(status, sr1).
                thenA (put_sr i sr1)
                  (if status < 0
                   then thenA (set_status i 400) (thenA (mk_request_error en 400 i) (returnA EXIT_ABORT))
                   else req_validate en dflt i)))))"

section \<open>The write handler\<close>

text \<open>
  The loop over the list of requests; \<open>final_status\<close> keeps its value from one request to the
  next where a request is in the hands of a plugin.
\<close>

definition write_step :: "env \<Rightarrow> nat \<Rightarrow> int \<Rightarrow> int action" where
  "write_step en i final_status =
     bindA (get_sr i) (\<lambda>sr.
       if sr_handled_by sr = None then
         if 0 < sr_bytes_to_send sr then mk_http_send_file en i
         else if sr_bytes_to_send sr < 0 then mk_request_process en i
         else returnA final_status
       else returnA final_status)"

fun write_loop :: "env \<Rightarrow> nat \<Rightarrow> nat \<Rightarrow> int \<Rightarrow> int action" where
  "write_loop en 0 i final_status = returnA 0"
| "write_loop en (Suc k) i final_status =
     bindA (write_step en i final_status) (\<lambda>st.
       if 0 < st then returnA st
       else thenA (stage40_run (stage_40 (en_stagemap en)) i)
         (bindA (get_sr i) (\<lambda>sr.
           if (st = EXIT_NORMAL \<or> st = EXIT_ERROR) \<and> sr_close_now sr then returnA (-1)
           else if st = EXIT_ABORT then returnA (-1)
           else write_loop en k (i + 1) st)))"

definition mk_handler_write :: "env \<Rightarrow> int action" where
  "mk_handler_write en =
     bindA get_cs (\<lambda>cs.
       let (ret, cs1) = (if cs_request_list cs = [] then mk_request_parse cs else (0, cs)) in
       thenA (modifyA (\<lambda>s. s\<lparr>rs_cs := cs1\<rparr>))
         (if ret \<noteq> 0 then returnA (-1) else write_loop en (length (cs_request_list cs1)) 0 0))"

section \<open>The read handler\<close>

text \<open>
  \<open>mk_request_premature_close\<close> up to the removal of the session, which its caller reports.
\<close>

definition mk_request_premature_close :: "env \<Rightarrow> int \<Rightarrow> unit action" where
  "mk_request_premature_close en http_status =
     thenA (modifyA (\<lambda>s. if cs_request_list (rs_cs s) = []
              then s\<lparr>rs_cs := (rs_cs s)\<lparr>cs_request_list := [mk_request_init]\<rparr>\<rparr> else s))
       (bindA get_cs (\<lambda>cs. thenA
         (if 0 < http_status then
            thenA (upd_sr 0 (\<lambda>r. r\<lparr>sr_host_conf := (case sr_host_conf r of
                     Some h \<Rightarrow> Some h
                   | None \<Rightarrow> (case hosts (en_config en) of [] \<Rightarrow> None | h # _ \<Rightarrow> Some h))\<rparr>))
              (thenA (mk_request_error en http_status 0)
                (thenA (stage40_run (stage_40 (en_stagemap en)) 0) (returnA ())))
          else returnA ())
         (emit (EStage50 (cs_socket cs)))))"

datatype read_result = RAgain | RFail | RData cstr

text \<open>Room for more data: \<open>None\<close> when the request is too large.\<close>

definition grow_body :: "server_config \<Rightarrow> client_session \<Rightarrow> client_session option" where
  "grow_body config cs =
     (if cs_body_size cs \<le> cs_body_length cs then
        let new_size = int32 (int (cs_body_size cs) + int MK_REQUEST_CHUNK) in
        if max_request_size config \<le> new_size then None
        else
          let n = nat new_size;
              old = (if cs_is_fixed cs then take (cs_body_length cs) (cs_body cs) else take (n + 1) (cs_body cs))
          in Some (cs\<lparr>cs_body := old @ replicate (n + 1 - length old) NUL, cs_is_fixed := False, cs_body_size := n\<rparr>)
      else Some cs)"

text \<open>The bytes are stored behind the ones present, and a terminator behind them.\<close>

definition append_body :: "cstr \<Rightarrow> client_session \<Rightarrow> cerr + client_session" where
  "append_body bytes cs =
     (let n = cs_body_length cs; m = n + length bytes in
      if cs_body_size cs - n < length bytes then Inl OutOfBounds
      else bindE (store (take n (cs_body cs) @ bytes @ drop m (cs_body cs)) m NUL)
             (\<lambda>b. Inr (cs\<lparr>cs_body := b, cs_body_length := m\<rparr>)))"

text \<open>
  \<open>mk_handler_read\<close>: the result and whether the session was removed. The answer of \<open>read(2)\<close> is
  an argument.
\<close>

definition mk_handler_read :: "env \<Rightarrow> read_result \<Rightarrow> (int \<times> bool) action" where
  "mk_handler_read en res =
     bindA get_cs (\<lambda>cs.
       case grow_body (en_config en) cs of
         None \<Rightarrow> thenA (mk_request_premature_close en 413) (returnA (-1, True))
       | Some cs1 \<Rightarrow>
           (case res of
              RAgain \<Rightarrow> thenA (modifyA (\<lambda>s. s\<lparr>rs_cs := cs1\<rparr>)) (returnA (1, False))
            | RFail \<Rightarrow> thenA (modifyA (\<lambda>s. s\<lparr>rs_cs := cs1\<rparr>)) (returnA (-1, True))
            | RData bytes \<Rightarrow>
                if bytes = [] then thenA (modifyA (\<lambda>s. s\<lparr>rs_cs := cs1\<rparr>)) (returnA (-1, True))
                else bindA (liftE (append_body bytes cs1)) (\<lambda>cs2.
                  thenA (modifyA (\<lambda>s. s\<lparr>rs_cs := cs2\<rparr>)) (returnA (int (length bytes), False)))))"

section \<open>Sessions\<close>

text \<open>The sessions of a worker, in the order of its list.\<close>

text \<open>\<open>mk_request_free\<close> and \<open>mk_request_free_list\<close>: the files of the requests are closed.\<close>

definition mk_request_free :: "session_request \<Rightarrow> effect list" where
  "mk_request_free sr = (if 0 < sr_fd_file sr then [EClose (sr_fd_file sr)] else [])"

definition mk_request_free_list :: "client_session \<Rightarrow> effect list \<times> client_session" where
  "mk_request_free_list cs =
     (concat (map mk_request_free (cs_request_list cs)), cs\<lparr>cs_request_list := []\<rparr>)"

definition new_session :: "int \<Rightarrow> int \<Rightarrow> client_session" where
  "new_session socket t =
     \<lparr>cs_pipelined = False, cs_socket = socket, cs_counter_connections = 0,
      cs_status = MK_REQUEST_STATUS_INCOMPLETE, cs_body = replicate MK_REQUEST_CHUNK NUL,
      cs_is_fixed = True, cs_body_size = MK_REQUEST_CHUNK, cs_body_length = 0,
      cs_body_pos_end = -1, cs_first_method = HTTP_METHOD_UNKNOWN, cs_init_time = t,
      cs_request_list = []\<rparr>"

text \<open>\<open>arrive\<close> is the arrival time of the connection, when the scheduler knows it.\<close>

definition mk_session_create :: "int \<Rightarrow> int option \<Rightarrow> client_session list \<Rightarrow>
    client_session option \<times> client_session list" where
  "mk_session_create socket arrive sessions =
     (case arrive of
        None \<Rightarrow> (None, sessions)
      | Some t \<Rightarrow> (Some (new_session socket t), sessions @ [new_session socket t]))"

definition mk_session_get :: "int \<Rightarrow> client_session list \<Rightarrow> client_session option" where
  "mk_session_get socket sessions = find (\<lambda>cs. cs_socket cs = socket) sessions"

fun mk_session_remove :: "int \<Rightarrow> client_session list \<Rightarrow> client_session list" where
  "mk_session_remove socket [] = []"
| "mk_session_remove socket (cs # css) =
     (if cs_socket cs = socket then css else cs # mk_session_remove socket css)"

section \<open>The buffer\<close>

text \<open>The buffer of a session: the array of the structure, or a block with room for a terminator.\<close>

definition session_wf :: "server_config \<Rightarrow> client_session \<Rightarrow> bool" where
  "session_wf config cs \<longleftrightarrow>
     cs_body_length cs \<le> cs_body_size cs
     \<and> (if cs_is_fixed cs then cs_body_size cs = MK_REQUEST_CHUNK \<and> length (cs_body cs) = MK_REQUEST_CHUNK
        else length (cs_body cs) = cs_body_size cs + 1 \<and> int (cs_body_size cs) < max_request_size config)"

text \<open>The size the buffer has when the next bytes are read.\<close>

definition room :: "client_session \<Rightarrow> nat" where
  "room cs = (if cs_body_length cs < cs_body_size cs then cs_body_size cs else cs_body_size cs + MK_REQUEST_CHUNK)"

lemma new_session_wf: "session_wf config (new_session socket t)"
  by (simp add: new_session_def session_wf_def)

lemma grow_body_spec:
  assumes wf: "session_wf config cs" and small: "max_request_size config + int MK_REQUEST_CHUNK < 2 ^ 31"
    and fits: "cs_body_length cs < cs_body_size cs \<or> int (room cs) < max_request_size config"
  shows "\<exists>b f. grow_body config cs = Some (cs\<lparr>cs_body := b, cs_is_fixed := f, cs_body_size := room cs\<rparr>)
    \<and> session_wf config (cs\<lparr>cs_body := b, cs_is_fixed := f, cs_body_size := room cs\<rparr>)
    \<and> take (cs_body_length cs) b = take (cs_body_length cs) (cs_body cs)
    \<and> f = (cs_is_fixed cs \<and> cs_body_length cs < cs_body_size cs)"
proof (cases "cs_body_length cs < cs_body_size cs")
  case True
  then show ?thesis using wf
    by (intro exI [of _ "cs_body cs"] exI [of _ "cs_is_fixed cs"]) (simp add: grow_body_def room_def)
next
  case False
  then have full: "cs_body_length cs = cs_body_size cs" using wf by (simp add: session_wf_def)
  have max: "int (cs_body_size cs) + int MK_REQUEST_CHUNK < max_request_size config"
    using fits False by (simp add: room_def)
  then have ns: "int32 (int (cs_body_size cs) + int MK_REQUEST_CHUNK) = int (cs_body_size cs + MK_REQUEST_CHUNK)"
    using small int32_id [of "int (cs_body_size cs) + int MK_REQUEST_CHUNK"] by simp
  define old where "old = (if cs_is_fixed cs then take (cs_body_length cs) (cs_body cs)
      else take (cs_body_size cs + MK_REQUEST_CHUNK + 1) (cs_body cs))"
  have old: "length old \<le> cs_body_size cs + MK_REQUEST_CHUNK + 1"
    "take (cs_body_length cs) old = take (cs_body_length cs) (cs_body cs)"
    using wf full by (auto simp: old_def session_wf_def)
  have ol: "cs_body_length cs \<le> length old" using wf full by (auto simp: old_def session_wf_def)
  show ?thesis
    using False max full old ol
    by (intro exI [of _ "old @ replicate (cs_body_size cs + MK_REQUEST_CHUNK + 1 - length old) NUL"] exI [of _ False])
      (simp add: grow_body_def ns Let_def room_def session_wf_def nat_int_add old_def [symmetric])
qed

lemma append_body_spec:
  assumes "session_wf config cs" "cs_body_length cs + length bytes \<le> cs_body_size cs"
    "\<not> (cs_is_fixed cs \<and> cs_body_length cs + length bytes = cs_body_size cs)"
  shows "\<exists>b. append_body bytes cs = Inr (cs\<lparr>cs_body := b, cs_body_length := cs_body_length cs + length bytes\<rparr>)
    \<and> session_wf config (cs\<lparr>cs_body := b, cs_body_length := cs_body_length cs + length bytes\<rparr>)
    \<and> take (cs_body_length cs + length bytes) b = take (cs_body_length cs) (cs_body cs) @ bytes
    \<and> b ! (cs_body_length cs + length bytes) = NUL"
proof -
  let ?n = "cs_body_length cs" and ?m = "cs_body_length cs + length bytes"
  let ?b = "take ?n (cs_body cs) @ bytes @ drop ?m (cs_body cs)"
  have n: "?n \<le> length (cs_body cs)" "?m < length (cs_body cs)"
    using assms by (auto simp: session_wf_def split: if_splits)
  then have l: "length ?b = length (cs_body cs)" "?m < length ?b" by simp_all
  define b where "b = ?b[?m := NUL]"
  have b: "length b = length (cs_body cs)" "b ! ?m = NUL" using l by (simp_all add: b_def del: length_append)
  have "take ?m b = take ?n (cs_body cs) @ bytes" using n by (simp add: b_def)
  moreover have "session_wf config (cs\<lparr>cs_body := b, cs_body_length := ?m\<rparr>)"
    using assms(1,2) b by (simp add: session_wf_def)
  moreover have "append_body bytes cs = Inr (cs\<lparr>cs_body := b, cs_body_length := ?m\<rparr>)"
    using assms(2) l by (simp add: append_body_def Let_def store_def b_def del: length_append)
  ultimately show ?thesis using b by blast
qed

text \<open>
  C28: \<open>mk_handler_read\<close> on data of at most the size asked for. While the request is not too large,
  the bytes are appended to the buffer behind the ones present and terminated, and the buffer is
  well formed again, unless the data fills the fixed array of the session to the last byte: then
  the terminator is stored outside the array. When the buffer is full and one more chunk would
  reach the configured maximum, the handler closes the session instead.
\<close>

theorem mk_handler_read_data:
  assumes "session_wf (en_config en) (rs_cs s)" "max_request_size (en_config en) + int MK_REQUEST_CHUNK < 2 ^ 31"
    and "bytes \<noteq> []" "cs_body_length (rs_cs s) + length bytes \<le> room (rs_cs s)"
    and "cs_body_length (rs_cs s) < cs_body_size (rs_cs s) \<or> int (room (rs_cs s)) < max_request_size (en_config en)"
  shows "if cs_is_fixed (rs_cs s) \<and> cs_body_length (rs_cs s) + length bytes = MK_REQUEST_CHUNK
     then mk_handler_read en (RData bytes) s = Inl OutOfBounds
     else \<exists>cs'. mk_handler_read en (RData bytes) s = Inr ((int (length bytes), False), s\<lparr>rs_cs := cs'\<rparr>)
       \<and> session_wf (en_config en) cs' \<and> cs_body_length cs' = cs_body_length (rs_cs s) + length bytes
       \<and> take (cs_body_length cs') (cs_body cs') = take (cs_body_length (rs_cs s)) (cs_body (rs_cs s)) @ bytes
       \<and> cs_body cs' ! cs_body_length cs' = NUL"
proof -
  let ?cs = "rs_cs s" and ?m = "cs_body_length (rs_cs s) + length bytes"
  from grow_body_spec [OF assms(1,2,5)] obtain b f where
    g: "grow_body (en_config en) ?cs = Some (?cs\<lparr>cs_body := b, cs_is_fixed := f, cs_body_size := room ?cs\<rparr>)"
    and wf1: "session_wf (en_config en) (?cs\<lparr>cs_body := b, cs_is_fixed := f, cs_body_size := room ?cs\<rparr>)"
    and b: "take (cs_body_length ?cs) b = take (cs_body_length ?cs) (cs_body ?cs)"
    and f: "f = (cs_is_fixed ?cs \<and> cs_body_length ?cs < cs_body_size ?cs)" by blast
  define cs1 where "cs1 = ?cs\<lparr>cs_body := b, cs_is_fixed := f, cs_body_size := room ?cs\<rparr>"
  have run: "mk_handler_read en (RData bytes) s =
      (case append_body bytes cs1 of Inl e \<Rightarrow> Inl e
       | Inr cs2 \<Rightarrow> Inr ((int (length bytes), False), s\<lparr>rs_cs := cs2\<rparr>))"
    using assms(3) g by (simp add: mk_handler_read_def bindA_def thenA_def liftE_def cs1_def split: sum.split)
  have pos: "0 < length bytes" using assms(3) by simp
  show ?thesis
  proof (cases "cs_is_fixed ?cs \<and> ?m = MK_REQUEST_CHUNK")
    case True
    have "cs_body_size ?cs = MK_REQUEST_CHUNK" using True assms(1) by (simp add: session_wf_def)
    then have less: "cs_body_length ?cs < cs_body_size ?cs" using True pos by linarith
    then have "f" "length b = ?m" "room ?cs = ?m"
      using True assms(1) wf1 f by (simp_all add: session_wf_def room_def)
    then have "append_body bytes cs1 = Inl OutOfBounds"
      by (simp add: append_body_def cs1_def Let_def store_def)
    then show ?thesis using True run by simp
  next
    case False
    have "\<not> (cs_is_fixed cs1 \<and> cs_body_length cs1 + length bytes = cs_body_size cs1)"
      using False f assms(1) by (auto simp: cs1_def session_wf_def room_def split: if_splits)
    moreover have "cs_body_length cs1 + length bytes \<le> cs_body_size cs1" using assms(4) by (simp add: cs1_def)
    ultimately obtain b2 where
      "append_body bytes cs1 = Inr (cs1\<lparr>cs_body := b2, cs_body_length := cs_body_length cs1 + length bytes\<rparr>)"
      "session_wf (en_config en) (cs1\<lparr>cs_body := b2, cs_body_length := cs_body_length cs1 + length bytes\<rparr>)"
      "take (cs_body_length cs1 + length bytes) b2 = take (cs_body_length cs1) (cs_body cs1) @ bytes"
      "b2 ! (cs_body_length cs1 + length bytes) = NUL"
      using append_body_spec wf1 unfolding cs1_def [symmetric] by blast
    note a = this
    let ?cs2 = "cs1\<lparr>cs_body := b2, cs_body_length := cs_body_length cs1 + length bytes\<rparr>"
    have l: "cs_body_length cs1 = cs_body_length ?cs" "cs_body cs1 = b" by (simp_all add: cs1_def)
    have "mk_handler_read en (RData bytes) s = Inr ((int (length bytes), False), s\<lparr>rs_cs := ?cs2\<rparr>)"
      using run a(1) by simp
    moreover have "cs_body_length ?cs2 = ?m" "cs_body ?cs2 = b2" using l by simp_all
    ultimately have "\<exists>cs'. mk_handler_read en (RData bytes) s = Inr ((int (length bytes), False), s\<lparr>rs_cs := cs'\<rparr>)
       \<and> session_wf (en_config en) cs' \<and> cs_body_length cs' = ?m
       \<and> take (cs_body_length cs') (cs_body cs') = take (cs_body_length ?cs) (cs_body ?cs) @ bytes
       \<and> cs_body cs' ! cs_body_length cs' = NUL"
      using a(2-4) b l by (intro exI [of _ ?cs2]) simp
    then show ?thesis using False by (simp only: if_False)
  qed
qed

definition demo_read :: req_state where
  "demo_read = \<lparr>rs_cs = new_session 7 0, rs_gmt = gmt_cache_init, rs_trace = []\<rparr>"

theorem mk_handler_read_data_witness:
  "\<exists>cs'. mk_handler_read demo_env (RData ''GET'') demo_read = Inr ((3, False), demo_read\<lparr>rs_cs := cs'\<rparr>)
     \<and> cs_body_length cs' = 3 \<and> take 3 (cs_body cs') = ''GET''"
proof -
  have cs: "rs_cs demo_read = new_session 7 0" by (simp add: demo_read_def)
  have n: "cs_is_fixed (new_session 7 0)" "cs_body_length (new_session 7 0) = 0"
    "cs_body_size (new_session 7 0) = 4096" by (simp_all add: new_session_def MK_REQUEST_CHUNK_def)
  have m: "max_request_size (en_config demo_env) = 32768"
    by (simp add: demo_env_def mk_config_set_init_values_def)
  have "\<exists>cs'. mk_handler_read demo_env (RData ''GET'') demo_read = Inr ((3, False), demo_read\<lparr>rs_cs := cs'\<rparr>)
      \<and> cs_body_length cs' = Suc (Suc (Suc 0)) \<and> take (cs_body_length cs') (cs_body cs') = ''GET''"
    using mk_handler_read_data [of demo_env demo_read "''GET''"] new_session_wf
    by (simp add: cs n m room_def MK_REQUEST_CHUNK_def) blast
  then show ?thesis unfolding numeral_3_eq_3 [symmetric] by fastforce
qed

section \<open>Pipelined requests\<close>

text \<open>A request without its final blank line; the first blank line of the printed request is that one.\<close>

definition block_wf :: "cstr \<Rightarrow> bool" where
  "block_wf b \<longleftrightarrow> NUL \<notin> set b \<and> find_sub (=) ENDBLOCK (b @ ENDBLOCK) = Some (length b)"

definition print_blocks :: "cstr list \<Rightarrow> cstr" where
  "print_blocks bs = concat (map (\<lambda>b. b @ ENDBLOCK) bs)"

lemma match_at_append: "length n \<le> length v \<Longrightarrow> match_at (=) n (v @ w) = match_at (=) n v"
  by (induction "(=) :: char \<Rightarrow> char \<Rightarrow> bool" n v rule: match_at.induct) auto

lemma find_sub_append:
  assumes "find_sub (=) n v = Some k"
  shows "find_sub (=) n (v @ w) = Some k"
proof -
  have k: "k + length n \<le> length v" using assms by (rule find_sub_le)
  then have "match_at (=) n (drop j (v @ w)) = match_at (=) n (drop j v)" if "j \<le> k" for j
    using that match_at_append [of n "drop j v" "drop (j - length v) w"] by (simp add: drop_append)
  with assms k show ?thesis by (auto simp: find_sub_Some_iff)
qed

lemma print_blocks_simps [simp]:
  "print_blocks [] = []" "print_blocks (b # bs) = b @ ENDBLOCK @ print_blocks bs"
  by (simp_all add: print_blocks_def)

lemma print_blocks_no_NUL: "list_all block_wf bs \<Longrightarrow> NUL \<notin> set (print_blocks bs)"
  by (induction bs) (auto simp: block_wf_def)

lemma search_first_block:
  assumes "block_wf b" "NUL \<notin> set w"
  shows "mk_string_search (b @ ENDBLOCK @ w @ NUL # junk) ENDBLOCK MK_STR_SENSITIVE = int (length b)"
proof -
  have "cstring (b @ ENDBLOCK @ w @ NUL # junk) = b @ ENDBLOCK @ w"
    using cstring_append_NUL [of "b @ ENDBLOCK @ w" junk] assms by (simp add: block_wf_def)
  moreover have "cstring ENDBLOCK = ENDBLOCK" by simp
  moreover have "find_sub (=) ENDBLOCK (b @ ENDBLOCK @ w) = Some (length b)"
    using find_sub_append [of ENDBLOCK "b @ ENDBLOCK" "length b" w] assms(1) by (simp add: block_wf_def)
  ultimately show ?thesis by (simp add: mk_string_search_def string_search_base_def strstr_def)
qed

lemma parse_block_body:
  "i + n \<le> length (cs_body cs) \<Longrightarrow> length (cs_body cs) < 2 ^ 64 \<Longrightarrow>
     p_bytes (sr_body (parse_block cs i (int (i + n)))) = take n (drop i (cs_body cs))"
  by (simp add: parse_block_def Let_def p_bytes_def view_def ulong_def)

lemma parse_loop_blocks:
  assumes "list_all block_wf bs" "0 < cs_counter_connections cs" "length (cs_body cs) < 2 ^ 64"
    "cs_body cs = pre @ print_blocks bs @ NUL # junk"
    "cs_body_pos_end cs = int (length pre + length (print_blocks bs)) - 4"
  shows "\<exists>srs. parse_loop (length pre) n cs = (0, n + length bs, cs\<lparr>cs_request_list := cs_request_list cs @ srs\<rparr>)
    \<and> map (\<lambda>sr. p_bytes (sr_body sr)) srs = bs"
  using assms
proof (induction bs arbitrary: pre n cs)
  case Nil
  then show ?case by (subst parse_loop.simps) (simp add: exI [of _ "[]"])
next
  case (Cons b bs)
  let ?i = "length pre"
  have d: "drop ?i (cs_body cs) = b @ ENDBLOCK @ print_blocks bs @ NUL # junk" using Cons.prems(4) by simp
  have wf: "block_wf b" "list_all block_wf bs" using Cons.prems(1) by simp_all
  have e: "block_end cs ?i = int (?i + length b)"
    using search_first_block [OF wf(1) print_blocks_no_NUL [OF wf(2)], of junk] Cons.prems(2)
    by (simp add: block_end_def d)
  define sr where "sr = parse_block cs ?i (int (?i + length b))"
  define cs1 where "cs1 = cs\<lparr>cs_request_list := cs_request_list cs @ [sr]\<rparr>"
  have body: "p_bytes (sr_body sr) = b"
    using parse_block_body [of ?i "length b" cs] Cons.prems(3,4) d by (simp add: sr_def)
  have "\<exists>srs. parse_loop (length (pre @ b @ ENDBLOCK)) (n + 1) cs1 =
      (0, n + 1 + length bs, cs1\<lparr>cs_request_list := cs_request_list cs1 @ srs\<rparr>)
    \<and> map (\<lambda>sr. p_bytes (sr_body sr)) srs = bs"
    using Cons.prems wf(2) by (intro Cons.IH) (simp_all add: cs1_def)
  moreover have len_pre: "length (pre @ b @ ENDBLOCK) = ?i + length b + 4" by simp
  ultimately obtain srs where srs: "parse_loop (?i + length b + 4) (n + 1) cs1 =
      (0, n + 1 + length bs, cs1\<lparr>cs_request_list := cs_request_list cs1 @ srs\<rparr>)"
    "map (\<lambda>sr. p_bytes (sr_body sr)) srs = bs" unfolding len_pre by blast
  have "nat (int ?i + int (length b) + 4) = ?i + length b + 4" by linarith
  then have "parse_loop ?i n cs = parse_loop (?i + length b + 4) (n + 1) cs1"
    by (subst parse_loop.simps) (simp add: Cons.prems(5) e sr_def cs1_def)
  then show ?case using srs body by (intro exI [of _ "sr # srs"]) (simp add: cs1_def)
qed

text \<open>
  C9: Pipelining. On a kept-alive connection whose buffer holds the requests \<open>bs\<close>, each closed by
  its blank line, \<open>mk_request_parse\<close> links exactly these requests in this order, and accepts them
  unless there are several and one of them is neither GET nor HEAD.
\<close>

theorem mk_request_parse_pipelined:
  assumes "bs \<noteq> []" "list_all block_wf bs" "0 < cs_counter_connections cs" "cs_request_list cs = []"
    and "cs_body cs = print_blocks bs @ NUL # junk" "length (cs_body cs) < 2 ^ 64"
    and "cs_body_pos_end cs = int (length (print_blocks bs)) - 4"
  shows "\<exists>cs'. mk_request_parse cs = (if length bs = 1 \<or> list_all pipelines (cs_request_list cs') then 0 else -1, cs')
    \<and> map (\<lambda>sr. p_bytes (sr_body sr)) (cs_request_list cs') = bs"
proof -
  obtain srs where srs: "parse_loop 0 0 cs = (0, length bs, cs\<lparr>cs_request_list := srs\<rparr>)"
    "map (\<lambda>sr. p_bytes (sr_body sr)) srs = bs"
    using parse_loop_blocks [of bs cs "[]" junk 0] assms by auto
  have len: "length bs = 1 \<or> 1 < length bs" using assms(1) by (cases bs) auto
  define cs' where "cs' = (if 1 < length bs \<and> list_all pipelines srs
    then cs\<lparr>cs_request_list := srs, cs_pipelined := True\<rparr> else cs\<lparr>cs_request_list := srs\<rparr>)"
  have "cs_request_list cs' = srs" by (simp add: cs'_def)
  moreover have "mk_request_parse cs = (if length bs = 1 \<or> list_all pipelines srs then 0 else -1, cs')"
    using len srs(1) by (auto simp: mk_request_parse_def cs'_def)
  ultimately show ?thesis using srs(2) by (intro exI [of _ cs']) simp
qed

theorem mk_request_parse_pipelined_witness:
  "\<exists>cs'. mk_request_parse ((demo_session (print_blocks [''GET /a HTTP/1.1'', ''GET /b HTTP/1.1'']))
       \<lparr>cs_counter_connections := 1, cs_body_pos_end := 34, cs_first_method := HTTP_METHOD_GET\<rparr>) = (0, cs')
     \<and> map (\<lambda>sr. p_bytes (sr_body sr)) (cs_request_list cs') = [''GET /a HTTP/1.1'', ''GET /b HTTP/1.1'']"
proof -
  let ?bs = "[''GET /a HTTP/1.1'', ''GET /b HTTP/1.1'']"
  let ?cs = "(demo_session (print_blocks ?bs))
       \<lparr>cs_counter_connections := 1, cs_body_pos_end := 34, cs_first_method := HTTP_METHOD_GET\<rparr>"
  have "list_all block_wf ?bs" by code_simp
  then obtain cs' where cs': "mk_request_parse ?cs = (if length ?bs = 1 \<or> list_all pipelines (cs_request_list cs') then 0 else -1, cs')"
    "map (\<lambda>sr. p_bytes (sr_body sr)) (cs_request_list cs') = ?bs"
    using mk_request_parse_pipelined [of ?bs ?cs "[]"] by (auto simp: demo_session_def)
  moreover have "fst (mk_request_parse ?cs) = 0" by code_simp
  ultimately show ?thesis by (metis fst_conv)
qed

end
