(* ===== verification/Mk_Confine.thy ===== *)
theory Mk_Confine
  imports Mk_Serve "HOL-Library.Sublist"
begin

text \<open>
  Which files a response can open. The locale \<open>response_inv\<close> states what an invariant of the
  request state has to tolerate for every action that composes a response to keep it; its
  extension \<open>serve_inv\<close> adds the opening of the request's own path and covers the serving of a
  file. The interpretation is the invariant that only the mapped path and the configured error
  pages are opened.
\<close>

section \<open>The interface of an invariant\<close>

definition quiet :: "effect \<Rightarrow> bool" where
  "quiet e \<longleftrightarrow> (case e of EOpen p fl fd \<Rightarrow> False | _ \<Rightarrow> True)"

text \<open>A change of a request that leaves its host, path, URI, header table and handlers alone.\<close>

definition sr_same :: "session_request \<Rightarrow> session_request \<Rightarrow> bool" where
  "sr_same a b \<longleftrightarrow> sr_host_conf b = sr_host_conf a \<and> sr_real_path b = sr_real_path a
     \<and> sr_uri_processed b = sr_uri_processed a \<and> sr_headers_toc b = sr_headers_toc a
     \<and> sr_handled_by b = sr_handled_by a \<and> sr_stage30_blocked b = sr_stage30_blocked a"

locale response_inv =
  fixes en :: env and i :: nat and I :: "req_state \<Rightarrow> bool"
  assumes emit_inv: "\<And>s e. I s \<Longrightarrow> quiet e \<Longrightarrow> I (s\<lparr>rs_trace := rs_trace s @ [e]\<rparr>)"
    and gmt_inv: "\<And>s g. I s \<Longrightarrow> I (s\<lparr>rs_gmt := g\<rparr>)"
    and sr_inv: "\<And>s f. I s \<Longrightarrow> sr_same (sr_of i s) (f (sr_of i s)) \<Longrightarrow> I (set_sr i f s)"
    and error_page_inv: "\<And>s h e fl fd. I s \<Longrightarrow> sr_host_conf (sr_of i s) = Some h \<Longrightarrow>
      e \<in> set (h_error_pages h) \<Longrightarrow> I (s\<lparr>rs_trace := rs_trace s @ [EOpen (ep_real_path e) fl fd]\<rparr>)"
begin

lemma keeps_emit: "quiet e \<Longrightarrow> triple I (emit e) (\<lambda>_. I)"
  by (rule tripleI) (auto intro: emit_inv)

lemma keeps_upd_sr: "(\<And>sr. sr_same sr (f sr)) \<Longrightarrow> triple I (upd_sr i f) (\<lambda>_. I)"
  by (rule tripleI) (auto intro: sr_inv)

lemma keeps_upd_headers: "triple I (upd_headers i f) (\<lambda>_. I)"
  unfolding upd_headers_def by (rule keeps_upd_sr) (simp add: sr_same_def)

lemma keeps_set_status: "triple I (set_status i st) (\<lambda>_. I)"
  unfolding set_status_def by (rule keeps_upd_sr) (simp add: sr_same_def mk_header_set_http_status_def)

lemma keeps_get_sr: "(\<And>sr. triple I (f sr) (\<lambda>_. I)) \<Longrightarrow> triple I (bindA (get_sr i) f) (\<lambda>_. I)"
  by (rule triple_get_sr) (auto intro: triple_weaken)

lemma keeps_return: "triple I (returnA x) (\<lambda>_. I)"
  by (rule triple_return)

lemma keeps_liftE: "triple I (liftE m) (\<lambda>_. I)"
  by (rule triple_liftE)

lemma keeps_bind:
  "triple I m (\<lambda>_. I) \<Longrightarrow> (\<And>x. triple I (f x) (\<lambda>_. I)) \<Longrightarrow> triple I (bindA m f) (\<lambda>_. I)"
  by (rule triple_bind)

lemma keeps_then: "triple I m (\<lambda>_. I) \<Longrightarrow> triple I n (\<lambda>_. I) \<Longrightarrow> triple I (thenA m n) (\<lambda>_. I)"
  by (rule triple_then)

lemmas keeps_rules =
  keeps_get_sr triple_get_cs keeps_bind keeps_then keeps_return triple_fail keeps_liftE
  keeps_upd_headers keeps_set_status

lemma keeps_safe_write: "triple I (safe_write en fd) (\<lambda>_. I)"
  unfolding safe_write_def by (intro triple_if keeps_emit keeps_return) (simp add: quiet_def)

lemma keeps_cork: "triple I (mk_socket_set_cork_flag fd b) (\<lambda>_. I)"
  unfolding mk_socket_set_cork_flag_def by (rule keeps_emit) (simp add: quiet_def)

lemma keeps_sendv: "triple I (mk_socket_sendv en fd parts) (\<lambda>_. I)"
  unfolding mk_socket_sendv_def by (intro keeps_then keeps_emit keeps_safe_write) (simp add: quiet_def)

lemma keeps_send: "triple I (mk_socket_send en fd bytes) (\<lambda>_. I)"
  unfolding mk_socket_send_def by (intro keeps_then keeps_emit keeps_safe_write) (simp add: quiet_def)

lemma keeps_send_file_socket: "triple I (mk_socket_send_file en fd ffd off n) (\<lambda>_. I)"
proof (rule tripleI)
  fix s x s' assume s: "I s" and r: "mk_socket_send_file en fd ffd off n s = Inr (x, s')"
  have "triple I (bindA (emit (ESendFile fd ffd off n))
      (\<lambda>_. thenA (safe_write en fd) (returnA (en_send_file en (rs_trace s) fd ffd off n)))) (\<lambda>_. I)"
    by (intro keeps_bind keeps_then keeps_emit keeps_safe_write keeps_return) (simp add: quiet_def)
  from tripleD [OF this s] r show "I s'" by (simp add: mk_socket_send_file_def Let_def)
qed

lemma keeps_last_modified: "triple I (last_modified_text en sh) (\<lambda>_. I)"
  by (rule tripleI) (auto simp: last_modified_text_def Let_def intro: gmt_inv split: if_splits prod.splits)

lemma keeps_header_close: "triple I (header_close en fd i io) (\<lambda>_. I)"
  unfolding header_close_def Let_def
  by (intro keeps_get_sr) (auto split: option.split intro!: keeps_bind keeps_then keeps_liftE keeps_sendv
      keeps_upd_headers)

lemma keeps_header_send: "triple I (mk_header_send en fd i) (\<lambda>_. I)"
  unfolding mk_header_send_def
  by (intro keeps_rules) (auto split: option.split intro!: keeps_bind keeps_then triple_fail keeps_liftE keeps_return
      keeps_last_modified keeps_cork keeps_header_close)

lemma keeps_http_send_file: "triple I (mk_http_send_file en i) (\<lambda>_. I)"
  unfolding mk_http_send_file_def Let_def case_prod_beta
  by (intro keeps_rules triple_if keeps_upd_sr keeps_cork keeps_send_file_socket) (simp_all add: sr_same_def)

lemma keeps_error_builtin: "triple I (error_builtin en st i) (\<lambda>_. I)"
  unfolding error_builtin_def Let_def
  by (intro keeps_rules) (auto split: option.split intro!: keeps_then triple_fail keeps_return
      keeps_upd_headers keeps_header_send keeps_send keeps_cork)

lemma keeps_error_custom:
  assumes "e \<in> set (h_error_pages h)"
  shows "triple (\<lambda>s. I s \<and> sr_host_conf (sr_of i s) = Some h)
    (error_custom en i e (error_builtin en st i)) (\<lambda>_. I)"
proof (rule tripleI)
  fix s x s'
  assume s: "I s \<and> sr_host_conf (sr_of i s) = Some h"
    and r: "error_custom en i e (error_builtin en st i) s = Inr (x, s')"
  obtain ret finfo where fi: "mk_file_get_info en (rs_trace s) (ep_real_path e) zero_file_info = (ret, finfo)"
    by fastforce
  show "I s'"
  proof (cases "ret = -1")
    case True
    with r fi have "error_builtin en st i s = Inr (x, s')" by (simp add: error_custom_def)
    then show ?thesis using tripleD [OF keeps_error_builtin] s by blast
  next
    case False
    let ?fd = "en_open en (rs_trace s) (ep_real_path e) (en_open_flags en)"
    let ?s1 = "s\<lparr>rs_trace := rs_trace s @ [EOpen (ep_real_path e) (en_open_flags en) ?fd]\<rparr>"
    define rest where "rest = (if ?fd = -1 then error_builtin en st i
        else thenA (upd_sr i (\<lambda>sr. sr\<lparr>sr_fd_file := ?fd, sr_bytes_to_send := fi_size finfo,
               sr_headers := (sr_headers sr)\<lparr>rh_content_length := fi_size finfo, rh_real_length := fi_size finfo\<rparr>,
               sr_file_info := finfo\<rparr>))
          (bindA get_cs (\<lambda>cs. thenA (mk_header_send en (cs_socket cs) i) (mk_http_send_file en i))))"
    have "rest ?s1 = Inr (x, s')"
      using r fi False by (simp add: error_custom_def rest_def open_file_def bindA_def thenA_def Let_def
          del: upd_sr_apply)
    moreover have "triple I rest (\<lambda>_. I)" unfolding rest_def
      by (intro triple_if keeps_then triple_get_cs keeps_error_builtin keeps_upd_sr keeps_header_send
          keeps_http_send_file) (simp_all add: sr_same_def)
    moreover have "I ?s1" using s assms by (intro error_page_inv) auto
    ultimately show ?thesis using tripleD by metis
  qed
qed

lemma keeps_request_error: "triple I (mk_request_error en st i) (\<lambda>_. I)"
  unfolding mk_request_error_def
proof (rule triple_then [OF keeps_set_status], rule triple_get_sr)
  fix sr
  show "triple (\<lambda>s. I s \<and> sr_of i s = sr)
     (if st \<noteq> 411 \<and> st \<noteq> 400 \<and> st \<noteq> 413 then
        (case sr_host_conf sr of None \<Rightarrow> failA NullDeref
         | Some h \<Rightarrow> (case find (\<lambda>e. ep_status e = st) (h_error_pages h) of
              None \<Rightarrow> error_builtin en st i
            | Some entry \<Rightarrow> error_custom en i entry (error_builtin en st i)))
      else error_builtin en st i) (\<lambda>_. I)"
  proof -
    have b: "triple (\<lambda>s. I s \<and> sr_of i s = sr) (error_builtin en st i) (\<lambda>_. I)"
      by (rule triple_weaken [OF keeps_error_builtin]) simp
    moreover have "triple (\<lambda>s. I s \<and> sr_of i s = sr) (error_custom en i e (error_builtin en st i)) (\<lambda>_. I)"
      if "sr_host_conf sr = Some h" "find (\<lambda>e. ep_status e = st) (h_error_pages h) = Some e" for h e
    proof -
      have "e \<in> set (h_error_pages h)" using that(2) by (auto simp: find_Some_iff)
      then show ?thesis
        by (rule triple_weaken [OF keeps_error_custom]) (use that(1) in auto)
    qed
    ultimately show ?thesis by (auto split: option.split intro!: triple_fail)
  qed
qed

lemma keeps_redirect: "triple I (mk_http_directory_redirect_check en i) (\<lambda>_. I)"
  unfolding mk_http_directory_redirect_check_def Let_def
  by (intro keeps_rules triple_if keeps_header_send keeps_cork)

end

section \<open>Serving a file\<close>

locale serve_inv = response_inv +
  assumes real_path_inv: "\<And>s fl fd. I s \<Longrightarrow>
      I (s\<lparr>rs_trace := rs_trace s @ [EOpen (real_path_str (sr_of i s)) fl fd]\<rparr>)"
begin

lemma keeps_open_file:
  "triple (\<lambda>s. I s \<and> sr_of i s = sr) (open_file en (real_path_str sr) fl) (\<lambda>_. I)"
  by (rule tripleI) (auto simp: open_file_def Let_def thenA_def bindA_def intro: real_path_inv)

lemma keeps_seek: "(\<And>e. e \<in> set effs \<Longrightarrow> quiet e) \<Longrightarrow> triple I (modifyA (\<lambda>s. s\<lparr>rs_trace := rs_trace s @ effs\<rparr>)) (\<lambda>_. I)"
proof (rule tripleI)
  fix s x s'
  assume q: "\<And>e. e \<in> set effs \<Longrightarrow> quiet e" and s: "I s"
    and r: "modifyA (\<lambda>s. s\<lparr>rs_trace := rs_trace s @ effs\<rparr>) s = Inr (x, s')"
  have "I (s\<lparr>rs_trace := rs_trace s @ effs\<rparr>)" using q s
  proof (induction effs rule: rev_induct)
    case Nil
    then show ?case by simp
  next
    case (snoc e effs)
    then have "I (s\<lparr>rs_trace := rs_trace s @ effs\<rparr>)" "quiet e" by auto
    from emit_inv [OF this] show ?case by simp
  qed
  with r show "I s'" by simp
qed

lemma keeps_put_sr:
  assumes "sr_same sr sr'"
  shows "triple (\<lambda>s. I s \<and> sr_of i s = sr) (upd_sr i (\<lambda>_. sr')) (\<lambda>_. I)"
proof (rule tripleI)
  fix s x s' assume s: "I s \<and> sr_of i s = sr" and r: "upd_sr i (\<lambda>_. sr') s = Inr (x, s')"
  have "I (set_sr i (\<lambda>_. sr') s)" using s assms by (intro sr_inv) auto
  with r show "I s'" by simp
qed

lemma keeps_known: "triple I m (\<lambda>_. I) \<Longrightarrow> triple (\<lambda>s. I s \<and> sr_of i s = sr) m (\<lambda>_. I)"
  by (erule triple_weaken) simp

lemma keeps_send_content: "triple I (http_send_content en i) (\<lambda>_. I)"
  unfolding http_send_content_def
proof (intro triple_get_cs keeps_then keeps_header_send, rule triple_get_sr)
  fix cs sr
  obtain ret sr' effs where rs: "mk_http_range_set (resume (en_config en)) sr (fi_size (sr_file_info sr)) = (ret, sr', effs)"
    by (metis prod_cases3)
  have same: "sr_same sr sr'" and q: "\<And>e. e \<in> set effs \<Longrightarrow> quiet e"
    using rs by (auto simp: mk_http_range_set_def Let_def sr_same_def quiet_def split: if_splits)
  have "triple (\<lambda>s. I s \<and> sr_of i s = sr) (thenA (upd_sr i (\<lambda>_. sr'))
      (thenA (modifyA (\<lambda>s. s\<lparr>rs_trace := rs_trace s @ effs\<rparr>))
        (if ret \<noteq> 0 then mk_request_error en 400 i else mk_http_send_file en i))) (\<lambda>_. I)"
    by (rule triple_then [OF keeps_put_sr [OF same]])
      (intro keeps_then triple_if keeps_seek q keeps_request_error keeps_http_send_file)
  then show "triple (\<lambda>s. I s \<and> sr_of i s = sr)
     (if rh_content_length (sr_headers sr) = 0 then returnA 0
      else if sr_method sr = HTTP_METHOD_GET \<or> sr_method sr = HTTP_METHOD_POST then
        let (ret, sr', effs) = mk_http_range_set (resume (en_config en)) sr (fi_size (sr_file_info sr)) in
        thenA (upd_sr i (\<lambda>_. sr')) (thenA (modifyA (\<lambda>s. s\<lparr>rs_trace := rs_trace s @ effs\<rparr>))
          (if ret \<noteq> 0 then mk_request_error en 400 i else mk_http_send_file en i))
      else returnA 0) (\<lambda>_. I)"
    unfolding rs Let_def prod.case by (intro triple_if keeps_known [OF keeps_return]) auto
qed

lemma keeps_http_open: "triple I (http_open en i) (\<lambda>_. I)"
  unfolding http_open_def
proof (rule triple_get_sr, rule triple_if)
  fix sr
  have "triple I (thenA (upd_sr i (\<lambda>r. r\<lparr>sr_fd_file := fd\<rparr>))
      (if fd = -1 then mk_request_error en 403 i else http_send_content en i)) (\<lambda>_. I)" for fd
    by (intro keeps_then keeps_upd_sr triple_if keeps_request_error keeps_send_content) (simp add: sr_same_def)
  then show "triple (\<lambda>s. I s \<and> sr_of i s = sr)
     (bindA (open_file en (real_path_str sr) (fi_flags_read_only (sr_file_info sr))) (\<lambda>fd.
        thenA (upd_sr i (\<lambda>r. r\<lparr>sr_fd_file := fd\<rparr>))
          (if fd = -1 then mk_request_error en 403 i else http_send_content en i))) (\<lambda>_. I)"
    by (rule triple_bind [OF keeps_open_file])
  show "triple (\<lambda>s. I s \<and> sr_of i s = sr) (http_send_content en i) (\<lambda>_. I)"
    by (rule keeps_known [OF keeps_send_content])
qed

lemma keeps_http_range_header:
  "triple (\<lambda>s. I s \<and> sr_of i s = sr)
     (if p_data (sr_range sr) \<noteq> None \<and> resume (en_config en) then
        let (ret, sr2) = mk_http_range_parse sr in
        thenA (upd_sr i (\<lambda>_. sr2))
          (if ret < 0 then mk_request_error en 400 i
           else thenA (if 0 \<le> rh_range0 (sr_headers sr2) \<or> 0 \<le> rh_range1 (sr_headers sr2)
                       then set_status i 206 else returnA ()) (http_open en i))
      else http_open en i) (\<lambda>_. I)"
proof -
  obtain ret sr2 where rp: "mk_http_range_parse sr = (ret, sr2)" by fastforce
  have same: "sr_same sr sr2"
    using rp by (auto simp: mk_http_range_parse_def Let_def sr_same_def split: if_splits option.splits)
  have "triple (\<lambda>s. I s \<and> sr_of i s = sr) (thenA (upd_sr i (\<lambda>_. sr2))
      (if ret < 0 then mk_request_error en 400 i
       else thenA (if 0 \<le> rh_range0 (sr_headers sr2) \<or> 0 \<le> rh_range1 (sr_headers sr2)
                   then set_status i 206 else returnA ()) (http_open en i))) (\<lambda>_. I)"
    by (rule triple_then [OF keeps_put_sr [OF same]])
      (intro keeps_then triple_if keeps_set_status keeps_return keeps_request_error keeps_http_open)
  then show ?thesis
    unfolding rp Let_def prod.case by (intro triple_if keeps_known [OF keeps_http_open]) auto
qed

lemma keeps_http_range: "triple I (http_range en i mime) (\<lambda>_. I)"
  unfolding http_range_def
proof (rule keeps_get_sr, rule triple_if)
  show "triple I (thenA (upd_headers i (\<lambda>sh. sh\<lparr>rh_content_type := mk_pointer_reset\<rparr>)) (http_open en i)) (\<lambda>_. I)"
    by (intro keeps_then keeps_upd_headers keeps_http_open)
qed (rule keeps_then [OF keeps_upd_headers], rule triple_get_sr, rule keeps_http_range_header)

lemma keeps_http_respond: "triple I (http_respond en i mime) (\<lambda>_. I)"
  unfolding http_respond_def Let_def
  by (intro keeps_rules triple_if keeps_header_send keeps_http_range)

lemma keeps_http_static: "triple I (http_static en i) (\<lambda>_. I)"
  unfolding http_static_def Let_def
  by (intro keeps_rules triple_if keeps_request_error keeps_http_respond)

lemma keeps_stage30_result: "stage30_result en i ret = Some a \<Longrightarrow> triple I a (\<lambda>_. I)"
  unfolding stage30_result_def
  by (auto split: if_splits intro!: keeps_get_sr triple_if keeps_request_error keeps_return)

text \<open>The handlers of stage 30 are plugin code: that they keep the invariant is a premise.\<close>

lemma keeps_http_handlers:
  assumes "triple I (stage30_run (stage_30 (en_stagemap en)) i) (\<lambda>_. I)"
  shows "triple I (http_handlers en i) (\<lambda>_. I)"
  unfolding http_handlers_def
  by (intro keeps_get_sr triple_if keeps_http_static keeps_bind assms)
    (auto split: option.split intro: keeps_http_static keeps_stage30_result)

lemma keeps_http_links:
  assumes "triple I (stage30_run (stage_30 (en_stagemap en)) i) (\<lambda>_. I)"
  shows "triple I (http_links en i) (\<lambda>_. I)"
proof (rule tripleI)
  fix s x s' assume s: "I s" and r: "http_links en i s = Inr (x, s')"
  from r consider "mk_request_error en 403 i s = Inr (x, s')" | "http_handlers en i s = Inr (x, s')"
    unfolding http_links_def Let_def by (auto split: if_splits)
  then show "I s'"
    using tripleD [OF keeps_request_error s] tripleD [OF keeps_http_handlers [OF assms] s] by cases auto
qed

end

section \<open>The confinement invariant\<close>

definition opened :: "effect list \<Rightarrow> cstr set" where
  "opened tr = {p. \<exists>fl fd. EOpen p fl fd \<in> set tr}"

lemma opened_simps [simp]:
  "opened [] = {}" "opened (a @ b) = opened a \<union> opened b" "opened [EOpen p fl fd] = {p}"
  by (auto simp: opened_def)

lemma opened_quiet: "quiet e \<Longrightarrow> opened [e] = {}"
  by (cases e) (auto simp: opened_def quiet_def)

text \<open>Work on the request with index \<open>i\<close> leaves the other requests of the session alone.\<close>

definition frame :: "nat \<Rightarrow> req_state \<Rightarrow> req_state \<Rightarrow> bool" where
  "frame i s0 s \<longleftrightarrow> length (cs_request_list (rs_cs s)) = length (cs_request_list (rs_cs s0))
     \<and> (\<forall>j. j \<noteq> i \<longrightarrow> sr_of j s = sr_of j s0)"

lemma frame_simps [simp]:
  "frame i s s" "frame i s0 (s\<lparr>rs_trace := t\<rparr>) = frame i s0 s" "frame i s0 (s\<lparr>rs_gmt := g\<rparr>) = frame i s0 s"
  "frame i s0 (set_sr i f s) = frame i s0 s"
  by (auto simp: frame_def sr_of_def set_sr_def)

text \<open>
  Since the state \<open>s0\<close>, only paths of \<open>A\<close> were opened, which has the error pages of every host the
  request may have.
\<close>

definition page_inv :: "nat \<Rightarrow> host set \<Rightarrow> cstr set \<Rightarrow> req_state \<Rightarrow> req_state \<Rightarrow> bool" where
  "page_inv i H A s0 s \<longleftrightarrow>
     i < length (cs_request_list (rs_cs s)) \<and> frame i s0 s
     \<and> (\<forall>h. sr_host_conf (sr_of i s) = Some h \<longrightarrow> h \<in> H \<and> ep_real_path ` set (h_error_pages h) \<subseteq> A)
     \<and> (\<exists>new. rs_trace s = rs_trace s0 @ new \<and> opened new \<subseteq> A)"

lemma page_inv_extend:
  assumes "page_inv i H A s0 s" "opened [e] \<subseteq> A"
  shows "page_inv i H A s0 (s\<lparr>rs_trace := rs_trace s @ [e]\<rparr>)"
proof -
  obtain new where new: "rs_trace s = rs_trace s0 @ new" "opened new \<subseteq> A"
    using assms(1) unfolding page_inv_def by blast
  have "rs_trace s @ [e] = rs_trace s0 @ (new @ [e])" using new(1) by simp
  moreover have "opened (new @ [e]) \<subseteq> A" using new(2) assms(2) by simp
  ultimately show ?thesis using assms(1) unfolding page_inv_def by auto
qed

lemma page_inv_set_sr:
  "page_inv i H A s0 s \<Longrightarrow> sr_host_conf (f (sr_of i s)) = sr_host_conf (sr_of i s) \<Longrightarrow> page_inv i H A s0 (set_sr i f s)"
  by (simp add: page_inv_def)

interpretation page: response_inv en i "page_inv i H A s0" for en i H A s0
proof unfold_locales
  fix s e assume "page_inv i H A s0 s" "quiet e"
  then show "page_inv i H A s0 (s\<lparr>rs_trace := rs_trace s @ [e]\<rparr>)"
    using page_inv_extend opened_quiet by auto
next
  fix s g assume "page_inv i H A s0 s"
  then show "page_inv i H A s0 (s\<lparr>rs_gmt := g\<rparr>)" by (simp add: page_inv_def)
next
  fix s f assume "page_inv i H A s0 s" "sr_same (sr_of i s) (f (sr_of i s))"
  then show "page_inv i H A s0 (set_sr i f s)" by (auto simp: sr_same_def intro: page_inv_set_sr)
next
  fix s h e fl fd
  assume s: "page_inv i H A s0 s" and h: "sr_host_conf (sr_of i s) = Some h" "e \<in> set (h_error_pages h)"
  have "ep_real_path e \<in> A" using s h unfolding page_inv_def by blast
  with s show "page_inv i H A s0 (s\<lparr>rs_trace := rs_trace s @ [EOpen (ep_real_path e) fl fd]\<rparr>)"
    by (intro page_inv_extend) auto
qed

text \<open>In addition, the request is mapped to a path of \<open>R\<close>, and these paths may be opened as well.\<close>

definition conf_inv :: "nat \<Rightarrow> host \<Rightarrow> cstr set \<Rightarrow> req_state \<Rightarrow> req_state \<Rightarrow> bool" where
  "conf_inv i h R s0 s \<longleftrightarrow>
     page_inv i {h} (R \<union> ep_real_path ` set (h_error_pages h)) s0 s \<and> real_path_str (sr_of i s) \<in> R"

interpretation conf: serve_inv en i "conf_inv i h R s0" for en i h R s0
proof unfold_locales
  fix s e assume "conf_inv i h R s0 s" "quiet e"
  then show "conf_inv i h R s0 (s\<lparr>rs_trace := rs_trace s @ [e]\<rparr>)"
    by (simp add: conf_inv_def page.emit_inv)
next
  fix s g assume "conf_inv i h R s0 s"
  then show "conf_inv i h R s0 (s\<lparr>rs_gmt := g\<rparr>)" by (simp add: conf_inv_def page.gmt_inv)
next
  fix s f assume s: "conf_inv i h R s0 s" and f: "sr_same (sr_of i s) (f (sr_of i s))"
  then have "real_path_str (f (sr_of i s)) \<in> R" by (simp add: conf_inv_def sr_same_def real_path_str_def)
  moreover have "i < length (cs_request_list (rs_cs s))" using s by (simp add: conf_inv_def page_inv_def)
  ultimately show "conf_inv i h R s0 (set_sr i f s)" using s f by (simp add: conf_inv_def page.sr_inv)
next
  fix s h' e fl fd
  assume "conf_inv i h R s0 s" "sr_host_conf (sr_of i s) = Some h'" "e \<in> set (h_error_pages h')"
  then show "conf_inv i h R s0 (s\<lparr>rs_trace := rs_trace s @ [EOpen (ep_real_path e) fl fd]\<rparr>)"
    by (simp add: conf_inv_def page.error_page_inv)
next
  fix s fl fd assume "conf_inv i h R s0 s"
  then show "conf_inv i h R s0 (s\<lparr>rs_trace := rs_trace s @ [EOpen (real_path_str (sr_of i s)) fl fd]\<rparr>)"
    by (auto simp: conf_inv_def intro!: page_inv_extend)
qed

lemma page_inv_mono: "page_inv i H A s0 s \<Longrightarrow> A \<subseteq> A' \<Longrightarrow> page_inv i H A' s0 s"
  unfolding page_inv_def by (meson subset_trans)

lemma conf_inv_mono: "conf_inv i h R s0 s \<Longrightarrow> R \<subseteq> R' \<Longrightarrow> conf_inv i h R' s0 s"
  unfolding conf_inv_def by (blast intro: page_inv_mono)

section \<open>From the URI to the file\<close>

text \<open>The paths a mapped path stands for: itself and the index files of the directory.\<close>

definition served :: "env \<Rightarrow> cstr \<Rightarrow> cstr set" where
  "served en base = insert base
     ((\<lambda>n. take (MAX_PATH - 1) (base @ cstring n)) ` (case index_files (en_config en) of None \<Rightarrow> {} | Some ns \<Rightarrow> set ns))"

lemma find_in_set: "find P xs = Some x \<Longrightarrow> x \<in> set xs"
  by (auto simp: find_Some_iff)

lemma mk_request_index_served:
  assumes "p_data (mk_request_index en tr base MAX_PATH) = Some d" "NUL \<notin> set base"
  shows "cstring d \<in> served en base"
proof -
  obtain names n where n: "index_files (en_config en) = Some names" "n \<in> set names"
    "d = take (MAX_PATH - 1) (base @ cstring n)"
    using assms by (auto simp: mk_request_index_def Let_def mk_pointer_reset_def cstring_no_NUL
        simp del: take_append dest: find_in_set split: option.splits)
  have "NUL \<notin> set d" using assms(2) in_set_takeD [of NUL "MAX_PATH - 1" "base @ cstring n"] n(3)
    by auto
  then have "cstring d = d" by (rule cstring_no_NUL)
  then show ?thesis using n by (auto simp: served_def)
qed

lemma real_path_str_no_NUL: "NUL \<notin> set (real_path_str sr)"
  by (simp add: real_path_str_def)

lemma http_file_info_keeps: "triple (conf_inv i h R s0) (http_file_info en i) (\<lambda>_. conf_inv i h R s0)"
proof (rule tripleI)
  fix s x s' assume s: "conf_inv i h R s0 s" and r: "http_file_info en i s = Inr (x, s')"
  obtain fi where "s' = set_sr i (\<lambda>r. r\<lparr>sr_file_info := fi\<rparr>) s"
    using r by (auto simp: http_file_info_def Let_def thenA_def bindA_def split: prod.splits)
  then show "conf_inv i h R s0 s'" using s by (auto intro!: conf.sr_inv simp: sr_same_def)
qed

lemma http_index_keeps:
  "triple (conf_inv i h {base} s0) (http_index en i) (\<lambda>_. conf_inv i h (served en base) s0)"
proof (rule tripleI)
  fix s x s' assume s: "conf_inv i h {base} s0 s" and r: "http_index en i s = Inr (x, s')"
  have base: "real_path_str (sr_of i s) = base" using s by (simp add: conf_inv_def)
  have s2: "conf_inv i h (served en base) s0 s" using s by (rule conf_inv_mono) (simp add: served_def)
  define f where "f = mk_request_index en (rs_trace s) (real_path_str (sr_of i s)) MAX_PATH"
  show "conf_inv i h (served en base) s0 s'"
  proof (cases "p_data f")
    case None
    then show ?thesis using r s2 by (simp add: http_index_def Let_def f_def)
  next
    case (Some d)
    have d: "cstring d \<in> served en base"
      using mk_request_index_served [of en "rs_trace s" base d] Some base real_path_str_no_NUL [of "sr_of i s"]
      by (simp add: f_def)
    define st where "st = (sr_real_path_static (sr_of i s) \<and> p_len f < MK_PATH_BASE)"
    let ?s1 = "set_sr i (\<lambda>r. r\<lparr>sr_real_path := f, sr_real_path_static := st\<rparr>) s"
    obtain y where "http_file_info en i ?s1 = Inr (y, s')"
      using r Some unfolding http_index_def Let_def f_def [symmetric] st_def [symmetric]
      by (auto simp: thenA_Inr_iff)
    moreover have "i < length (cs_request_list (rs_cs s))" using s2 by (simp add: conf_inv_def page_inv_def)
    moreover have "conf_inv i h (served en base) s0 ?s1" if "i < length (cs_request_list (rs_cs s))"
      using s2 d Some that by (simp add: conf_inv_def real_path_str_def view_def page_inv_set_sr)
    ultimately show ?thesis using tripleD [OF http_file_info_keeps] by blast
  qed
qed

text \<open>The path the code composes when the request is not for a home directory.\<close>

definition mapped_path :: "host \<Rightarrow> session_request \<Rightarrow> cstr" where
  "mapped_path h sr = cstring (p_bytes (h_documentroot h) @ p_bytes (sr_uri_processed sr))"

text \<open>The lengths the path composition needs: both fit in an \<open>int\<close>.\<close>

definition short_ptr :: "mk_pointer \<Rightarrow> bool" where
  "short_ptr p \<longleftrightarrow> p_len p < 2 ^ 31"

lemma int32_short: "short_ptr p \<Longrightarrow> int32 (int (p_len p)) = int (p_len p)"
  by (rule int32_id) (auto simp: short_ptr_def)

lemma cstring_snoc_NUL: "cstring (v @ [NUL]) = cstring v"
  by (induction v) auto

lemma http_compose_path_maps:
  assumes "i < length (cs_request_list (rs_cs s))" "sr_host_conf (sr_of i s) = Some h"
    "\<not> sr_user_home (sr_of i s)" "short_ptr (h_documentroot h)" "short_ptr (sr_uri_processed (sr_of i s))"
    "http_compose_path i s = Inr (r, s')"
  shows "conf_inv i h {mapped_path h (sr_of i s)} s s'
    \<and> sr_uri_processed (sr_of i s') = sr_uri_processed (sr_of i s) \<and> rs_trace s' = rs_trace s"
proof -
  define uri root where "uri = sr_uri_processed (sr_of i s)" and "root = h_documentroot h"
  define s1 where "s1 = (if p_len uri = 1 \<and> rd (view uri) = CHR ''/''
    then set_sr i (\<lambda>r. r\<lparr>sr_real_path := root, sr_real_path_static := False\<rparr>) s else s)"
  have s1: "i < length (cs_request_list (rs_cs s1))" "sr_host_conf (sr_of i s1) = Some h"
    "sr_uri_processed (sr_of i s1) = uri" "rs_trace s1 = rs_trace s" "frame i s s1"
    using assms(1,2) by (simp_all add: s1_def uri_def)
  have "\<exists>p st. s' = set_sr i (\<lambda>r. r\<lparr>sr_real_path := p, sr_real_path_static := st\<rparr>) s1
      \<and> p_data p = Some (p_bytes root @ p_bytes uri @ [NUL])"
  proof (cases "p_len root + p_len uri < MK_PATH_BASE")
    case True
    have "s' = set_sr i (\<lambda>r. r\<lparr>sr_real_path := \<lparr>p_data = Some (p_bytes root @ p_bytes uri @ [NUL]),
        p_len = p_len root + p_len uri\<rparr>, sr_real_path_static := True\<rparr>) s1"
      using assms(2,3,6) True
      by (auto simp: http_compose_path_def bindA_def thenA_def Let_def s1_def uri_def root_def split: if_splits)
    then show ?thesis by fastforce
  next
    case False
    define p where "p = \<lparr>p_data = Some (p_bytes root @ p_bytes uri @ [NUL]), p_len = p_len root + p_len uri\<rparr>"
    have "mk_buffer_cat (view root) (int32 (int (p_len root))) (view uri) (int32 (int (p_len uri))) = Some p"
      using assms(4,5) by (simp add: mk_buffer_cat_def int32_short root_def uri_def p_bytes_def p_def nat_add_distrib)
    then have "s' = set_sr i (\<lambda>r. r\<lparr>sr_real_path := p, sr_real_path_static := False\<rparr>) s1"
      using assms(2,3,6) False
      by (auto simp: http_compose_path_def bindA_def thenA_def Let_def s1_def uri_def root_def split: if_splits)
    then show ?thesis by (auto simp: p_def)
  qed
  then show ?thesis
    using s1 by (auto simp: conf_inv_def page_inv_def real_path_str_def view_def mapped_path_def root_def uri_def
        simp flip: append_assoc simp: cstring_snoc_NUL)
qed

lemma no_handlers: "stage30_run [] i s = Inr (-1, s)"
  by (simp add: stage30_run_def)

lemma http_directory_keeps:
  assumes "stage_30 (en_stagemap en) = []"
  shows "triple (conf_inv i h {base} s0) (http_directory en i) (\<lambda>_. conf_inv i h (served en base) s0)"
proof -
  have "triple (conf_inv i h (served en base) s0) (stage30_run (stage_30 (en_stagemap en)) i)
      (\<lambda>_. conf_inv i h (served en base) s0)"
    by (rule tripleI) (simp add: assms no_handlers)
  note links = conf.keeps_http_links [OF this]
  have mono: "conf_inv i h {base} s0 s \<Longrightarrow> conf_inv i h (served en base) s0 s" for s
    by (erule conf_inv_mono) (simp add: served_def)
  show ?thesis unfolding http_directory_def
  proof (rule triple_get_sr, rule triple_if)
    fix sr
    show "triple (\<lambda>s. conf_inv i h {base} s0 s \<and> sr_of i s = sr) (http_links en i)
        (\<lambda>_. conf_inv i h (served en base) s0)"
      by (rule triple_weaken [OF links]) (simp add: mono)
    have "triple (\<lambda>s. conf_inv i h {base} s0 s \<and> sr_of i s = sr) (mk_http_directory_redirect_check en i)
        (\<lambda>_. conf_inv i h {base} s0)"
      by (rule triple_weaken [OF conf.keeps_redirect]) simp
    then show "triple (\<lambda>s. conf_inv i h {base} s0 s \<and> sr_of i s = sr)
        (bindA (mk_http_directory_redirect_check en i) (\<lambda>r.
           if r = -1 then returnA (-1) else thenA (http_index en i) (http_links en i)))
        (\<lambda>_. conf_inv i h (served en base) s0)"
      by (rule triple_bind) (intro triple_if triple_return triple_then [OF http_index_keeps links] mono)
  qed
qed

lemma http_missing_keeps:
  assumes "stage_30 (en_stagemap en) = []"
  shows "triple (conf_inv i h {base} s0) (http_missing en i) (\<lambda>_. conf_inv i h (served en base) s0)"
proof -
  have run: "http_missing en i s =
     bindA (get_sr i) (\<lambda>sr.
       if \<not> fi_exists (sr_file_info sr) then mk_request_error en 404 i
       else if \<not> sr_stage30_blocked sr then mk_request_error en 403 i
       else http_directory en i) s" for s
    unfolding http_missing_def by (subst bindA_Inr [OF no_handlers [folded assms]])
      (simp add: stage30_result_def mk_const)
  have err: "triple (\<lambda>s. conf_inv i h {base} s0 s \<and> sr_of i s = sr) (mk_request_error en st i)
      (\<lambda>_. conf_inv i h (served en base) s0)" for sr st
  proof (rule triple_weaken [OF conf.keeps_request_error])
    fix s assume "conf_inv i h {base} s0 s \<and> sr_of i s = sr"
    then show "conf_inv i h (served en base) s0 s" by (auto intro: conf_inv_mono simp: served_def)
  qed
  have dir: "triple (\<lambda>s. conf_inv i h {base} s0 s \<and> sr_of i s = sr) (http_directory en i)
      (\<lambda>_. conf_inv i h (served en base) s0)" for sr
    by (rule triple_weaken [OF http_directory_keeps [OF assms]]) simp
  show ?thesis unfolding run [abs_def]
    by (rule triple_get_sr) (intro triple_if err dir)
qed

lemma mk_http_init_opens:
  assumes s: "i < length (cs_request_list (rs_cs s))" "sr_host_conf (sr_of i s) = Some h"
      "\<not> sr_user_home (sr_of i s)" "short_ptr (h_documentroot h)" "short_ptr (sr_uri_processed (sr_of i s))"
    and plugins: "stage_30 (en_stagemap en) = []"
    and run: "mk_http_init en i s = Inr (r, s')"
  shows "page_inv i {h} (ep_real_path ` set (h_error_pages h) \<union>
       (if memmem (view (sr_uri_processed (sr_of i s))) (p_len (sr_uri_processed (sr_of i s))) ''..'' = None
        then served en (mapped_path h (sr_of i s)) else {})) s s'"
proof -
  let ?base = "mapped_path h (sr_of i s)" and ?u = "sr_uri_processed (sr_of i s)"
  let ?ep = "ep_real_path ` set (h_error_pages h)"
  obtain c s1 where c: "http_compose_path i s = Inr (c, s1)"
    using run unfolding mk_http_init_def bindA_Inr_iff by blast
  note k1 = http_compose_path_maps [OF s c]
  let ?rest = "if c < 0 then returnA EXIT_ERROR else
       bindA (get_sr i) (\<lambda>sr.
         if memmem (view (sr_uri_processed sr)) (p_len (sr_uri_processed sr)) ''..'' \<noteq> None
         then mk_request_error en 403 i
         else bindA (http_file_info en i) (\<lambda>ret.
           if ret \<noteq> 0 then http_missing en i else http_directory en i))"
  have rest: "?rest s1 = Inr (r, s')" using run c unfolding mk_http_init_def by (simp only: bindA_Inr)
  show ?thesis
  proof (cases "memmem (view ?u) (p_len ?u) ''..'' = None")
    case True
    have d: "triple (conf_inv i h {?base} s) (bindA (http_file_info en i) (\<lambda>ret.
           if ret \<noteq> 0 then http_missing en i else http_directory en i))
        (\<lambda>_. conf_inv i h (served en ?base) s)"
      by (rule triple_bind [OF http_file_info_keeps])
        (intro triple_if http_missing_keeps http_directory_keeps plugins)
    have "conf_inv i h (served en ?base) s s'"
    proof (cases "c < 0")
      case True
      then show ?thesis using rest k1 conf_inv_mono by (auto simp: served_def)
    next
      case False
      then have "bindA (http_file_info en i) (\<lambda>ret.
           if ret \<noteq> 0 then http_missing en i else http_directory en i) s1 = Inr (r, s')"
        using rest True k1 by (simp add: bindA_Inr)
      then show ?thesis using tripleD [OF d] k1 by blast
    qed
    then show ?thesis using True by (simp add: conf_inv_def Un_commute)
  next
    case False
    then have "c < 0 \<and> s' = s1 \<or> mk_request_error en 403 i s1 = Inr (r, s')"
      using rest k1 by (cases "c < 0") (auto simp: bindA_Inr)
    moreover have s1: "page_inv i {h} ?ep s s1"
      using k1 by (auto simp: conf_inv_def page_inv_def intro: exI [of _ "[]"])
    ultimately have "page_inv i {h} ?ep s s'" using tripleD [OF page.keeps_request_error s1] by blast
    then show ?thesis using False by (simp only: if_False Un_empty_right)
  qed
qed

section \<open>Confinement\<close>

lemma match_at_prefix: "match_at (=) n v \<longleftrightarrow> prefix n v"
  by (induction "(=) :: char \<Rightarrow> char \<Rightarrow> bool" n v rule: match_at.induct) auto

lemma memmem_None_iff: "memmem h n s = None \<longleftrightarrow> \<not> sublist s (take n h)"
proof -
  have "sublist s v \<longleftrightarrow> (\<exists>k\<le>length v. prefix s (drop k v))" for v :: cstr
  proof
    assume "sublist s v"
    then obtain a b where "v = a @ s @ b" by (auto simp: sublist_def)
    then show "\<exists>k\<le>length v. prefix s (drop k v)" by (intro exI [of _ "length a"]) simp
  next
    assume "\<exists>k\<le>length v. prefix s (drop k v)"
    then obtain k b where "drop k v = s @ b" by (auto simp: prefix_def)
    then have "v = take k v @ s @ b" by (metis append_take_drop_id)
    then show "sublist s v" unfolding sublist_def by blast
  qed
  then show ?thesis by (auto simp: memmem_def find_sub_None_iff match_at_prefix)
qed

text \<open>
  Path confinement. When no stage-30 plugin is loaded and the request is not for a home
  directory, then every file that \<open>mk_http_init\<close> opens is one of the host's configured error pages
  or, provided the decoded URI has no \<open>..\<close> in it, the document root with the URI appended, or an
  index file of that directory (cut at \<open>MAX_PATH - 1\<close> bytes). A URI with \<open>..\<close> in it opens nothing
  but error pages.
\<close>

theorem mk_http_init_confined:
  assumes "i < length (cs_request_list (rs_cs s))" "sr_host_conf (sr_of i s) = Some h"
    and "\<not> sr_user_home (sr_of i s)"
    and "short_ptr (h_documentroot h)" "short_ptr (sr_uri_processed (sr_of i s))"
    and "stage_30 (en_stagemap en) = []"
    and "mk_http_init en i s = Inr (r, s')"
  shows "\<exists>new. rs_trace s' = rs_trace s @ new \<and>
     opened new \<subseteq> ep_real_path ` set (h_error_pages h) \<union>
       (if sublist ''..'' (p_bytes (sr_uri_processed (sr_of i s))) then {}
        else served en (mapped_path h (sr_of i s)))"
proof -
  have "page_inv i {h} (ep_real_path ` set (h_error_pages h) \<union>
       (if sublist ''..'' (p_bytes (sr_uri_processed (sr_of i s))) then {}
        else served en (mapped_path h (sr_of i s)))) s s'"
    using mk_http_init_opens [OF assms] by (simp add: memmem_None_iff p_bytes_def split: if_split_asm)
  then show ?thesis unfolding page_inv_def by blast
qed

definition demo_request :: "cstr \<Rightarrow> session_request" where
  "demo_request path = mk_request_init\<lparr>sr_host_conf := Some demo_host, sr_method := HTTP_METHOD_GET,
     sr_protocol := HTTP_PROTOCOL_11, sr_uri_processed := mk_pointer_set path\<rparr>"

lemma filter_eq_Cons_mem: "filter P xs = x # ys \<Longrightarrow> x \<in> set xs"
  by (auto dest: filter_eq_ConsD)

definition opens_of :: "cerr + int \<times> req_state \<Rightarrow> effect list option" where
  "opens_of r = (case r of Inl e \<Rightarrow> None | Inr (x, s') \<Rightarrow> Some (filter (\<lambda>e. \<not> quiet e) (rs_trace s')))"

theorem mk_http_init_confined_witness:
  "\<exists>r s'. mk_http_init demo_env 0 (demo_state (demo_request ''/a.html'')) = Inr (r, s')
     \<and> opened (rs_trace s') = {''/srv/a.html''}"
proof -
  let ?sr = "demo_request ''/a.html''"
  let ?s = "demo_state ?sr"
  have "opens_of (mk_http_init demo_env 0 ?s) = Some [EOpen ''/srv/a.html'' 2048 9]" by code_simp
  then obtain r s' where run: "mk_http_init demo_env 0 ?s = Inr (r, s')"
    and f: "filter (\<lambda>e. \<not> quiet e) (rs_trace s') = [EOpen ''/srv/a.html'' 2048 9]"
    by (auto simp: opens_of_def split: sum.splits prod.splits)
  have "EOpen ''/srv/a.html'' 2048 9 \<in> set (rs_trace s')" using f by (rule filter_eq_Cons_mem)
  then have 1: "{''/srv/a.html''} \<subseteq> opened (rs_trace s')" by (auto simp: opened_def)
  have sr: "sr_of 0 ?s = ?sr" "length (cs_request_list (rs_cs ?s)) = 1" "rs_trace ?s = []"
    by (simp_all add: demo_state_def sr_of_def)
  have h: "sr_host_conf ?sr = Some demo_host" "sr_uri_processed ?sr = mk_pointer_set ''/a.html''"
    "sr_user_home ?sr = False" by (simp_all add: demo_request_def mk_request_init_def)
  have "short_ptr (h_documentroot demo_host)" "short_ptr (mk_pointer_set ''/a.html'')"
    "stage_30 (en_stagemap demo_env) = []"
    by (simp_all add: short_ptr_def demo_host_def demo_env_def mk_pointer_set_def strlen_def)
  then have "\<exists>new. rs_trace s' = rs_trace ?s @ new \<and>
     opened new \<subseteq> ep_real_path ` set (h_error_pages demo_host) \<union>
       (if sublist ''..'' (p_bytes (sr_uri_processed (sr_of 0 ?s))) then {}
        else served demo_env (mapped_path demo_host (sr_of 0 ?s)))"
    by (intro mk_http_init_confined [OF _ _ _ _ _ _ run]) (simp_all add: sr h)
  moreover have "served demo_env (mapped_path demo_host ?sr) = {''/srv/a.html''}"
    "ep_real_path ` set (h_error_pages demo_host) = {}"
    by (simp_all add: served_def demo_env_def mk_config_set_init_values_def mapped_path_def h demo_host_def)
  ultimately have "opened (rs_trace s') \<subseteq> {''/srv/a.html''}"
    unfolding sr by (auto split: if_splits)
  with 1 run show ?thesis by auto
qed

section \<open>A range behind the end of the file\<close>

text \<open>
  \<open>mk_http_init\<close> sends the response header before it compares the range with the file: for
  \<open>Range: bytes=9-\<close> on a file of five bytes the client gets the header of a 206 response and
  then the one of a 400 response, with no body between them.
\<close>

definition status_lines :: "cerr + int \<times> req_state \<Rightarrow> cstr list" where
  "status_lines r = (case r of Inl e \<Rightarrow> []
     | Inr (x, s') \<Rightarrow> map (\<lambda>e. case e of ESendv fd (p # ps) \<Rightarrow> p | _ \<Rightarrow> [])
         (filter (\<lambda>e. case e of ESendv fd (p # ps) \<Rightarrow> True | _ \<Rightarrow> False) (rs_trace s')))"

lemma range_behind_end_sends_two_headers:
  "status_lines (mk_http_init (demo_env\<lparr>en_config := (en_config demo_env)\<lparr>resume := True\<rparr>\<rparr>) 0
      (demo_state ((demo_request ''/a.html'')\<lparr>sr_range := mk_pointer_set ''bytes=9-''\<rparr>))) =
   [''HTTP/1.1 206 Partial Content'' @ CRLF, ''HTTP/1.1 400 Bad Request'' @ CRLF]"
  by code_simp

end
