(* ===== verification/Mk_Path_Safety.thy ===== *)
theory Mk_Path_Safety
  imports Mk_Request Mk_Confine
begin

text \<open>
  Confinement from the bytes of the connection on: the header parser, the choice of the virtual
  host, the dispatch and the loop of the write handler composed with \<open>mk_http_init\<close>.
\<close>

section \<open>What the header parser leaves alone\<close>

lemma req_query_frame:
  "req_query ui ue sr = (ue', sr') \<Longrightarrow> sr_host_conf sr' = sr_host_conf sr \<and> sr_body sr' = sr_body sr"
  by (auto simp: req_query_def Let_def split: if_splits)

lemma req_protocol_frame [simp]:
  "sr_host_conf (req_protocol a b sr) = sr_host_conf sr" "sr_uri (req_protocol a b sr) = sr_uri sr"
  by (simp_all add: req_protocol_def Let_def)

lemma req_toc_frame [simp]:
  "sr_host_conf (req_toc e sr) = sr_host_conf sr" "sr_uri_processed (req_toc e sr) = sr_uri_processed sr"
  by (simp_all add: req_toc_def Let_def)

lemma req_get_frame:
  "req_get name sr = (v, sr') \<Longrightarrow>
     sr_host_conf sr' = sr_host_conf sr \<and> sr_uri_processed sr' = sr_uri_processed sr"
  by (auto simp: req_get_def Let_def split: prod.splits)

lemma req_host_frame:
  assumes "req_host config sr = Inr (ret, sr')"
  shows "sr_host_conf sr' = sr_host_conf sr \<and> sr_uri_processed sr' = sr_uri_processed sr"
proof -
  obtain h sr1 where g: "req_get ''Host:'' sr = (h, sr1)" by fastforce
  have "sr_host_conf sr' = sr_host_conf sr1 \<and> sr_uri_processed sr' = sr_uri_processed sr1"
    using assms unfolding req_host_def g Let_def prod.case
    by (auto simp: bindE_Inr_iff split: option.splits if_splits)
  then show ?thesis using req_get_frame [OF g] by simp
qed

lemma req_lookups_frame [simp]:
  "sr_host_conf (req_lookups sr) = sr_host_conf sr" "sr_uri_processed (req_lookups sr) = sr_uri_processed sr"
  using req_get_frame by (auto simp: req_lookups_def Let_def split: prod.split)

lemma req_connection_frame [simp]:
  "sr_host_conf (req_connection sr) = sr_host_conf sr"
  "sr_uri_processed (req_connection sr) = sr_uri_processed sr"
  by (simp_all add: req_connection_def Let_def keep_def split: option.split)

lemma url_decode_loop_length: "url_decode_loop d len i idx buf = Inr (Some b) \<Longrightarrow> length b = length buf"
proof (induction d len i idx buf rule: url_decode_loop.induct)
  case (1 d len i idx buf)
  show ?case
  proof (cases "i < len")
    case True
    with "1.prems" "1.IH" show ?thesis
      by (auto simp: url_decode_loop.simps [of d len i idx buf] Let_def store_iffs split: if_splits)
  next
    case False
    with "1.prems" show ?thesis
      by (auto simp: url_decode_loop.simps [of d len i idx buf] store_iffs)
  qed
qed

lemma url_decode_length:
  assumes "mk_utils_url_decode uri = Inr (Some t)"
  shows "strlen t \<le> p_len uri"
proof -
  obtain tmp where tmp: "memchr (view uri) (CHR ''%'') (p_len uri) = Some tmp"
    using assms by (auto simp: mk_utils_url_decode_def split: option.splits)
  have "tmp < p_len uri" using tmp find_index_SomeD by (fastforce simp: memchr_def)
  moreover define buf where "buf = replicate (p_len uri) NUL"
  moreover define buf' where "buf' = (if 0 < tmp then strncpy (view uri) tmp @ drop tmp buf else buf)"
  ultimately have "length buf' = p_len uri" by (auto simp: strncpy_def strlen_def)
  moreover have "url_decode_loop (view uri) (p_len uri) tmp tmp buf' = Inr (Some t)"
    using assms tmp unfolding mk_utils_url_decode_def buf'_def buf_def Let_def by simp
  ultimately have "length t = p_len uri" using url_decode_loop_length by simp
  then show ?thesis using length_takeWhile_le [of _ t] by (simp add: strlen_def cstring_def)
qed

lemma req_positions_bound:
  assumes "req_positions d = Inr (Some (ui, ue, fh))"
  shows "int ui \<le> ue \<and> ue < int (length d)"
proof -
  have ue: "int ui \<le> ue" "ue = mk_string_char_search_r d SP (int fh) - 1"
    using assms by (auto simp: req_positions_def Let_def split: option.splits if_splits)
  then obtain k n where "memrchr d SP n = Some k" "ue = int k - 1"
    by (auto simp: mk_string_char_search_r_def pos_of_def split: option.splits)
  then show ?thesis using ue(1) find_last_SomeD by (fastforce simp: memrchr_def)
qed

lemma mk_request_header_process_frame:
  assumes "mk_request_header_process config sr = Inr (st, sr')"
  shows "(st = 0 \<or> st = -1) \<and> sr_host_conf sr' = sr_host_conf sr
    \<and> (st = 0 \<and> length (view (sr_body sr)) < 2 ^ 31 \<longrightarrow> short_ptr (sr_uri_processed sr'))"
proof -
  let ?sr = "sr\<lparr>sr_method_p := mk_http_method_check_str (sr_method sr)\<rparr>" and ?d = "view (sr_body sr)"
  obtain pos where pos: "req_positions ?d = Inr pos"
    using assms by (auto simp: mk_request_header_process_def Let_def bindE_Inr_iff)
  show ?thesis
  proof (cases pos)
    case None
    then show ?thesis using assms pos by (auto simp: mk_request_header_process_def Let_def)
  next
    case (Some p)
    obtain ui ue fh where p: "p = (ui, ue, fh)" by (cases p)
    obtain ue' sr1 where q: "req_query ui ue ?sr = (ue', sr1)" by fastforce
    define sr2 where "sr2 = sr1\<lparr>sr_uri := mk_pointer_create ?d ui (ue' + 1)\<rparr>"
    have ue: "int ui \<le> ue" "ue < int (length ?d)" using req_positions_bound pos Some p by auto
    have ue': "ue' \<le> ue" "int ui \<le> ue'" using q ue by (auto simp: req_query_def Let_def split: if_splits)
    have host2: "sr_host_conf sr2 = sr_host_conf sr" using req_query_frame [OF q] by (simp add: sr2_def)
    have run: "mk_request_header_process config sr =
      (if p_len (sr_uri sr2) < 1 \<or> ue + 2 = int fh - 1 then Inr (-1, sr2)
       else bindE (req_decode (req_protocol (ue + 2) (int fh - 1) sr2)) (\<lambda>sr3.
              bindE (req_host config (req_toc (int fh - 1) sr3)) (\<lambda>(ret, sr4).
                if ret < 0 then Inr (-1, sr4) else Inr (0, req_connection (req_lookups sr4)))))"
      using pos Some p q by (simp add: mk_request_header_process_def Let_def sr2_def)
    show ?thesis
    proof (cases "p_len (sr_uri sr2) < 1 \<or> ue + 2 = int fh - 1")
      case True
      then show ?thesis using assms run host2 by auto
    next
      case False
      then obtain sr3 ret sr4 where
        d: "req_decode (req_protocol (ue + 2) (int fh - 1) sr2) = Inr sr3"
        and h: "req_host config (req_toc (int fh - 1) sr3) = Inr (ret, sr4)"
        and r: "(if ret < 0 then Inr (-1, sr4) else Inr (0, req_connection (req_lookups sr4))) = (Inr (st, sr') :: cerr + _)"
        using assms unfolding run by (auto simp: bindE_Inr_iff)
      have sr': "sr_host_conf sr' = sr_host_conf sr3" "sr_uri_processed sr' = sr_uri_processed sr3"
        using r req_host_frame [OF h] by (auto split: if_splits)
      have "sr_host_conf sr3 = sr_host_conf sr2" "p_len (sr_uri_processed sr3) \<le> p_len (sr_uri sr2)"
        using d url_decode_length [of "sr_uri sr2"] by (auto simp: req_decode_def bindE_Inr_iff split: option.splits)
      moreover have "p_len (sr_uri sr2) \<le> length ?d" if "length ?d < 2 ^ 31"
        using ue ue' that by (simp add: sr2_def mk_pointer_create_def ulong_id)
      moreover have "st = 0 \<or> st = -1" using r by (auto split: if_splits)
      ultimately show ?thesis using sr' host2 by (auto simp: short_ptr_def)
    qed
  qed
qed

section \<open>From the connection to the file\<close>

text \<open>What a server may open: the error pages of its hosts, and what lies under their document roots.\<close>

definition allowed :: "env \<Rightarrow> cstr set" where
  "allowed en = (\<Union>h\<in>set (hosts (en_config en)). ep_real_path ` set (h_error_pages h)
     \<union> {p. \<exists>u. \<not> sublist ''..'' u \<and> p \<in> served en (cstring (p_bytes (h_documentroot h) @ u))})"

text \<open>The server of the statement: no home directories and no plugin in the stages of a request.\<close>

definition static_server :: "env \<Rightarrow> bool" where
  "static_server en \<longleftrightarrow> user_dir (en_config en) = None \<and> stage_20 (en_stagemap en) = []
     \<and> stage_30 (en_stagemap en) = [] \<and> stage_40 (en_stagemap en) = []
     \<and> list_all (\<lambda>h. short_ptr (h_documentroot h)) (hosts (en_config en))"

lemma allowed_pages: "h \<in> set (hosts (en_config en)) \<Longrightarrow> ep_real_path ` set (h_error_pages h) \<subseteq> allowed en"
  unfolding allowed_def by blast

lemma page_inv_trans:
  assumes "page_inv i H A s0 s" "page_inv i {h} A' s s'" "A' \<subseteq> A" "h \<in> H"
    "ep_real_path ` set (h_error_pages h) \<subseteq> A"
  shows "page_inv i H A s0 s'"
proof -
  obtain a b where ab: "rs_trace s = rs_trace s0 @ a" "opened a \<subseteq> A" "rs_trace s' = rs_trace s @ b" "opened b \<subseteq> A'"
    using assms(1,2) unfolding page_inv_def by blast
  have "rs_trace s' = rs_trace s0 @ (a @ b)" "opened (a @ b) \<subseteq> A" using ab assms(3) by auto
  moreover have "frame i s0 s'" using assms(1,2) unfolding page_inv_def frame_def by simp
  ultimately show ?thesis using assms unfolding page_inv_def by auto
qed

definition net_inv :: "env \<Rightarrow> nat \<Rightarrow> req_state \<Rightarrow> req_state \<Rightarrow> bool" where
  "net_inv en i s0 s \<longleftrightarrow> page_inv i (set (hosts (en_config en))) (allowed en) s0 s"

definition ready_inv :: "env \<Rightarrow> nat \<Rightarrow> req_state \<Rightarrow> req_state \<Rightarrow> bool" where
  "ready_inv en i s0 s \<longleftrightarrow> net_inv en i s0 s \<and> sr_host_conf (sr_of i s) \<noteq> None
     \<and> \<not> sr_user_home (sr_of i s) \<and> short_ptr (sr_uri_processed (sr_of i s))"

interpretation net: response_inv en i "net_inv en i s0" for en i s0
  unfolding net_inv_def by unfold_locales

lemma net_inv_set_sr:
  assumes "net_inv en i s0 s" "\<And>h. sr_host_conf (f (sr_of i s)) = Some h \<Longrightarrow> h \<in> set (hosts (en_config en))"
  shows "net_inv en i s0 (set_sr i f s)"
  using assms allowed_pages unfolding net_inv_def page_inv_def by simp

lemma ready_inv_set_sr:
  assumes "ready_inv en i s0 s" "sr_host_conf (f (sr_of i s)) = sr_host_conf (sr_of i s)"
    "sr_user_home (f (sr_of i s)) = sr_user_home (sr_of i s)"
    "sr_uri_processed (f (sr_of i s)) = sr_uri_processed (sr_of i s)"
  shows "ready_inv en i s0 (set_sr i f s)"
proof -
  have "net_inv en i s0 (set_sr i f s)"
    using assms(1,2) by (intro net_inv_set_sr) (auto simp: ready_inv_def net_inv_def page_inv_def)
  moreover have "i < length (cs_request_list (rs_cs s))"
    using assms(1) by (simp add: ready_inv_def net_inv_def page_inv_def)
  ultimately show ?thesis using assms by (simp add: ready_inv_def)
qed

lemma ready_net: "ready_inv en i s0 s \<Longrightarrow> net_inv en i s0 s"
  by (simp add: ready_inv_def)

lemma mk_http_init_net:
  assumes "static_server en"
  shows "triple (ready_inv en i s0) (mk_http_init en i) (\<lambda>_. net_inv en i s0)"
proof (rule tripleI)
  fix s x s' assume s: "ready_inv en i s0 s" and run: "mk_http_init en i s = Inr (x, s')"
  from s obtain h where h: "sr_host_conf (sr_of i s) = Some h" by (auto simp: ready_inv_def)
  with s have hosts: "h \<in> set (hosts (en_config en))" "i < length (cs_request_list (rs_cs s))"
    by (auto simp: ready_inv_def net_inv_def page_inv_def)
  let ?u = "sr_uri_processed (sr_of i s)"
  define A where "A = ep_real_path ` set (h_error_pages h) \<union>
    (if memmem (view ?u) (p_len ?u) ''..'' = None then served en (mapped_path h (sr_of i s)) else {})"
  have "page_inv i {h} A s s'" unfolding A_def
    using s h hosts assms run
    by (intro mk_http_init_opens) (auto simp: ready_inv_def static_server_def list_all_iff)
  moreover have "A \<subseteq> allowed en"
    unfolding A_def using hosts(1) by (auto simp: allowed_def memmem_None_iff p_bytes_def mapped_path_def)
  ultimately show "net_inv en i s0 s'"
    using s hosts(1) allowed_pages page_inv_trans unfolding ready_inv_def net_inv_def by metis
qed

lemma triple_known: "triple P m Q \<Longrightarrow> triple (\<lambda>s. P s \<and> R s) m Q"
  by (erule triple_weaken) simp

lemma triple_post: "triple P m Q \<Longrightarrow> (\<And>x s. Q x s \<Longrightarrow> Q' x s) \<Longrightarrow> triple P m Q'"
  by (auto simp: triple_def)

lemma net_error: "triple (ready_inv en i s0) (mk_request_error en st i) (\<lambda>_. net_inv en i s0)"
  by (rule triple_weaken [OF net.keeps_request_error]) (rule ready_net)

lemma ready_upd:
  assumes "\<And>r. sr_host_conf (f r) = sr_host_conf r" "\<And>r. sr_user_home (f r) = sr_user_home r"
    "\<And>r. sr_uri_processed (f r) = sr_uri_processed r"
  shows "triple (ready_inv en i s0) (upd_sr i f) (\<lambda>_. ready_inv en i s0)"
  by (rule tripleI) (auto intro: ready_inv_set_sr simp: assms)

text \<open>A request body: after an error response the request is not ready any more.\<close>

lemma mk_method_parse_data_ready:
  "triple (ready_inv en i s0) (mk_method_parse_data en i)
     (\<lambda>r s. if r = 0 then ready_inv en i s0 s else net_inv en i s0 s)"
proof -
  let ?Q = "\<lambda>(r::int) s. if r = 0 then ready_inv en i s0 s else net_inv en i s0 s"
  have err: "triple (ready_inv en i s0) (thenA (mk_request_error en st i) (returnA (-1))) ?Q" for st
    by (rule triple_then [OF net_error]) (rule triple_return, simp)
  have err': "triple (\<lambda>s. ready_inv en i s0 s \<and> sr_of i s = sr) (thenA (mk_request_error en st i) (returnA (-1))) ?Q"
    for st sr by (rule triple_known [OF err])
  have toc: "triple (\<lambda>s. ready_inv en i s0 s \<and> sr_of i s = sr) (upd_sr i (\<lambda>r. r\<lparr>sr_headers_toc := t\<rparr>))
      (\<lambda>_. ready_inv en i s0)" for sr t
    by (rule triple_known [OF ready_upd]) simp_all
  have ok: "triple (ready_inv en i s0) (thenA (upd_sr i (\<lambda>r. r\<lparr>sr_content_type := c, sr_content_length := n\<rparr>)) (returnA 0)) ?Q"
    for c n
    by (rule triple_then [OF ready_upd]) (simp_all add: triple_return)
  show ?thesis unfolding mk_method_parse_data_def Let_def case_prod_beta
    by (rule triple_get_cs, rule triple_get_sr)
      (intro triple_if err' triple_then [OF toc] err ok)
qed

lemma req_dispatch_net:
  assumes "static_server en"
  shows "triple (ready_inv en i s0) (req_dispatch en i) (\<lambda>_. net_inv en i s0)"
proof -
  let ?Q = "\<lambda>(r::int) s. if r = 0 then ready_inv en i s0 s else net_inv en i s0 s"
  have stage: "triple (ready_inv en i s0) (bindA (stage20_run (stage_20 (en_stagemap en)) i) (\<lambda>ret.
      if ret = MK_PLUGIN_RET_CLOSE_CONX then returnA EXIT_ABORT else mk_http_init en i)) (\<lambda>_. net_inv en i s0)"
    using mk_http_init_net [OF assms] assms by (auto simp: triple_def static_server_def bindA_def mk_const)
  have "triple (ready_inv en i s0) (if c then mk_method_parse_data en i else returnA 0) ?Q" for c
    by (intro triple_if mk_method_parse_data_ready triple_return) simp
  then have pd: "triple (\<lambda>s. ready_inv en i s0 s \<and> sr_of i s = sr) (if c then mk_method_parse_data en i else returnA 0) ?Q" for c sr
    by (rule triple_known)
  have nxt: "triple (?Q status) (if status \<noteq> 0 then returnA status
      else bindA (stage20_run (stage_20 (en_stagemap en)) i) (\<lambda>ret.
        if ret = MK_PLUGIN_RET_CLOSE_CONX then returnA EXIT_ABORT else mk_http_init en i)) (\<lambda>_. net_inv en i s0)"
    for status using stage by (cases "status = 0") (simp_all add: triple_return)
  show ?thesis unfolding req_dispatch_def
    by (rule triple_get_sr, rule triple_bind [OF pd], rule nxt)
qed

lemma req_home_net:
  assumes "static_server en"
  shows "triple (ready_inv en i s0) (req_home en i) (\<lambda>_. net_inv en i s0)"
  unfolding req_home_def Let_def
  by (rule triple_get_sr)
    (use assms req_dispatch_net [OF assms] in \<open>simp add: static_server_def triple_known\<close>)

lemma host_find_in: "mk_config_host_find p hs = Some (h, a) \<Longrightarrow> h \<in> set hs"
  by (induction hs) (auto split: option.splits)

lemma req_vhost_frame:
  assumes "req_vhost config dflt sr = Inr sr'" "sr_host_conf sr = Some dflt" "dflt \<in> set (hosts config)"
  shows "\<exists>h\<in>set (hosts config). sr_host_conf sr' = Some h"
    and "sr_user_home sr' = sr_user_home sr" "sr_uri_processed sr' = sr_uri_processed sr"
  using assms host_find_in by (auto simp: req_vhost_def Let_def split: list.splits option.splits)

lemma put_vhost_ready:
  assumes v: "req_vhost (en_config en) dflt sr = Inr sr1" and d: "dflt \<in> set (hosts (en_config en))"
    "sr_host_conf sr = Some dflt"
  shows "triple (\<lambda>s. ready_inv en i s0 s \<and> sr_of i s = sr) (put_sr i sr1) (\<lambda>_. ready_inv en i s0)"
proof (rule tripleI)
  fix s x s'
  assume s: "ready_inv en i s0 s \<and> sr_of i s = sr" and r: "put_sr i sr1 s = Inr (x, s')"
  obtain h where h: "h \<in> set (hosts (en_config en))" "sr_host_conf sr1 = Some h"
    using req_vhost_frame(1) [OF v d(2,1)] by blast
  have "net_inv en i s0 (set_sr i (\<lambda>_. sr1) s)"
    using s h by (intro net_inv_set_sr) (auto simp: ready_inv_def)
  moreover have "i < length (cs_request_list (rs_cs s))" using s by (simp add: ready_inv_def net_inv_def page_inv_def)
  ultimately have "ready_inv en i s0 (set_sr i (\<lambda>_. sr1) s)"
    using s h req_vhost_frame(2,3) [OF v d(2,1)] by (auto simp: ready_inv_def)
  with r show "ready_inv en i s0 s'" by (simp add: put_sr_def)
qed

lemma req_validate_net:
  assumes st: "static_server en" and d: "dflt \<in> set (hosts (en_config en))"
  shows "triple (\<lambda>s. net_inv en i s0 s \<and> sr_host_conf (sr_of i s) = Some dflt
      \<and> short_ptr (sr_uri_processed (sr_of i s))) (req_validate en dflt i) (\<lambda>_. net_inv en i s0)"
proof -
  let ?R = "\<lambda>s. ready_inv en i s0 s \<and> sr_host_conf (sr_of i s) = Some dflt"
  have home: "triple (\<lambda>s. net_inv en i s0 s \<and> sr_host_conf (sr_of i s) = Some dflt
      \<and> short_ptr (sr_uri_processed (sr_of i s))) (upd_sr i (\<lambda>r. r\<lparr>sr_user_home := False\<rparr>)) (\<lambda>_. ?R)"
  proof (rule tripleI)
    fix s x s'
    assume s: "net_inv en i s0 s \<and> sr_host_conf (sr_of i s) = Some dflt \<and> short_ptr (sr_uri_processed (sr_of i s))"
      and r: "upd_sr i (\<lambda>r. r\<lparr>sr_user_home := False\<rparr>) s = Inr (x, s')"
    have "net_inv en i s0 (set_sr i (\<lambda>r. r\<lparr>sr_user_home := False\<rparr>) s)"
      using s d by (intro net_inv_set_sr) auto
    moreover have "i < length (cs_request_list (rs_cs s))" using s by (simp add: net_inv_def page_inv_def)
    ultimately show "?R s'" using s r by (auto simp: ready_inv_def)
  qed
  have err: "triple (\<lambda>s. ?R s \<and> sr_of i s = sr) (thenA (mk_request_error en c i) (returnA x)) (\<lambda>_. net_inv en i s0)"
    for c x sr
    by (rule triple_known, rule triple_known, rule triple_then [OF net_error], rule triple_return)
  have vh: "triple (\<lambda>s. ?R s \<and> sr_of i s = sr)
      (bindA (liftE (req_vhost (en_config en) dflt sr)) (\<lambda>sr1. thenA (put_sr i sr1) (req_home en i)))
      (\<lambda>_. net_inv en i s0)" for sr
  proof (rule tripleI)
    fix s x s'
    assume s: "?R s \<and> sr_of i s = sr"
      and r: "bindA (liftE (req_vhost (en_config en) dflt sr)) (\<lambda>sr1. thenA (put_sr i sr1) (req_home en i)) s = Inr (x, s')"
    obtain sr1 where v: "req_vhost (en_config en) dflt sr = Inr sr1" and r1: "thenA (put_sr i sr1) (req_home en i) s = Inr (x, s')"
      using r by (auto simp: bindA_Inr_iff liftE_def split: sum.splits)
    have "triple (\<lambda>s. ready_inv en i s0 s \<and> sr_of i s = sr) (thenA (put_sr i sr1) (req_home en i)) (\<lambda>_. net_inv en i s0)"
      using s d by (intro triple_then [OF put_vhost_ready [OF v] req_home_net [OF st]]) auto
    from tripleD [OF this _ r1] s show "net_inv en i s0 s'" by blast
  qed
  show ?thesis unfolding req_validate_def
    by (rule triple_then [OF home], rule triple_get_sr) (intro triple_if err vh)
qed

lemma put_sr_then: "thenA (put_sr i sr) m s = m (set_sr i (\<lambda>_. sr) s)"
  by (simp add: put_sr_def thenA_def bindA_def)

definition body_short :: "session_request \<Rightarrow> bool" where
  "body_short sr \<longleftrightarrow> length (view (sr_body sr)) < 2 ^ 31"

lemma mk_request_process_net:
  assumes st: "static_server en"
  shows "triple (\<lambda>s. net_inv en i s0 s \<and> body_short (sr_of i s)) (mk_request_process en i) (\<lambda>_. net_inv en i s0)"
proof (cases "hosts (en_config en)")
  case Nil
  then show ?thesis by (simp add: mk_request_process_def triple_fail)
next
  case (Cons dflt hs)
  then have d: "dflt \<in> set (hosts (en_config en))" by simp
  show ?thesis
  proof (rule tripleI)
    fix s x s'
    assume s: "net_inv en i s0 s \<and> body_short (sr_of i s)" and run: "mk_request_process en i s = Inr (x, s')"
    let ?s1 = "set_sr i (\<lambda>r. r\<lparr>sr_host_conf := Some dflt\<rparr>) s"
    have len: "i < length (cs_request_list (rs_cs s))" using s by (simp add: net_inv_def page_inv_def)
    have s1: "net_inv en i s0 ?s1" using s d by (intro net_inv_set_sr) auto
    obtain st1 sr1 where hp: "mk_request_header_process (en_config en) (sr_of i ?s1) = Inr (st1, sr1)"
      and r: "thenA (put_sr i sr1) (if st1 < 0
          then thenA (set_status i 400) (thenA (mk_request_error en 400 i) (returnA EXIT_ABORT))
          else req_validate en dflt i) ?s1 = Inr (x, s')"
      using run by (auto simp: mk_request_process_def Cons bindA_Inr_iff thenA_Inr_iff liftE_def split: sum.splits)
    let ?s2 = "set_sr i (\<lambda>_. sr1) ?s1"
    have host: "sr_host_conf sr1 = Some dflt"
      and short: "st1 = 0 \<Longrightarrow> short_ptr (sr_uri_processed sr1)"
      using mk_request_header_process_frame [OF hp] s len by (auto simp: body_short_def)
    have s2: "net_inv en i s0 ?s2" by (rule net_inv_set_sr [OF s1]) (use host d in auto)
    have "st1 < 0 \<or> st1 = 0" using mk_request_header_process_frame [OF hp] by auto
    then show "net_inv en i s0 s'"
    proof
      assume "st1 < 0"
      with r have "thenA (set_status i 400) (thenA (mk_request_error en 400 i) (returnA EXIT_ABORT)) ?s2 = Inr (x, s')"
        by (simp add: put_sr_then)
      moreover have "triple (net_inv en i s0) (thenA (set_status i 400) (thenA (mk_request_error en 400 i) (returnA EXIT_ABORT)))
          (\<lambda>_. net_inv en i s0)"
        by (intro net.keeps_then net.keeps_set_status net.keeps_request_error net.keeps_return)
      ultimately show ?thesis using tripleD s2 by metis
    next
      assume 0: "st1 = 0"
      with r have "req_validate en dflt i ?s2 = Inr (x, s')" by (simp add: put_sr_then)
      from tripleD [OF req_validate_net [OF st d, of i s0] _ this] show ?thesis
        using s2 host short [OF 0] len by simp
    qed
  qed
qed

text \<open>One round of the write handler.\<close>

lemma write_step_net:
  assumes "static_server en"
  shows "triple (\<lambda>s. net_inv en i s0 s \<and> body_short (sr_of i s)) (write_step en i st) (\<lambda>_. net_inv en i s0)"
  unfolding write_step_def
proof (rule triple_get_sr)
  fix sr
  let ?P = "\<lambda>s. (net_inv en i s0 s \<and> body_short (sr_of i s)) \<and> sr_of i s = sr"
  have "triple ?P (mk_http_send_file en i) (\<lambda>_. net_inv en i s0)"
    by (rule triple_weaken [OF net.keeps_http_send_file]) simp
  moreover have "triple ?P (mk_request_process en i) (\<lambda>_. net_inv en i s0)"
    by (rule triple_known [OF mk_request_process_net [OF assms]])
  ultimately show "triple ?P (if sr_handled_by sr = None then
         if 0 < sr_bytes_to_send sr then mk_http_send_file en i
         else if sr_bytes_to_send sr < 0 then mk_request_process en i
         else returnA st
       else returnA st) (\<lambda>_. net_inv en i s0)"
    by (intro triple_if triple_return) auto
qed

definition req_good :: "env \<Rightarrow> session_request \<Rightarrow> bool" where
  "req_good en sr \<longleftrightarrow> body_short sr \<and> (\<forall>h. sr_host_conf sr = Some h \<longrightarrow> h \<in> set (hosts (en_config en)))"

definition opens_allowed :: "env \<Rightarrow> req_state \<Rightarrow> req_state \<Rightarrow> bool" where
  "opens_allowed en s s' \<longleftrightarrow> (\<exists>new. rs_trace s' = rs_trace s @ new \<and> opened new \<subseteq> allowed en)"

lemma opens_allowed_refl [simp]: "opens_allowed en s s"
  by (simp add: opens_allowed_def)

lemma opens_allowed_trans: "opens_allowed en a b \<Longrightarrow> opens_allowed en b c \<Longrightarrow> opens_allowed en a c"
  unfolding opens_allowed_def by (auto simp: Un_subset_iff)

lemma write_loop_opens:
  assumes st: "static_server en"
  shows "\<forall>j. i \<le> j \<and> j < length (cs_request_list (rs_cs s)) \<longrightarrow> req_good en (sr_of j s) \<Longrightarrow>
    length (cs_request_list (rs_cs s)) = i + k \<Longrightarrow> write_loop en k i fs s = Inr (x, s') \<Longrightarrow> opens_allowed en s s'"
proof (induction k arbitrary: i fs s)
  case 0
  then show ?case by simp
next
  case (Suc k)
  have i: "i < length (cs_request_list (rs_cs s))" using Suc.prems(2) by simp
  have good: "req_good en (sr_of i s)" using Suc.prems(1) i by simp
  obtain st1 s1 where step: "write_step en i fs s = Inr (st1, s1)"
    and r: "(if 0 < st1 then returnA st1
       else thenA (stage40_run (stage_40 (en_stagemap en)) i)
         (bindA (get_sr i) (\<lambda>sr.
           if (st1 = EXIT_NORMAL \<or> st1 = EXIT_ERROR) \<and> sr_close_now sr then returnA (-1)
           else if st1 = EXIT_ABORT then returnA (-1)
           else write_loop en k (i + 1) st1))) s1 = Inr (x, s')"
    using Suc.prems(3) by (auto simp: bindA_Inr_iff)
  have "net_inv en i s s" using i good allowed_pages by (auto simp: net_inv_def page_inv_def req_good_def)
  then have s1: "net_inv en i s s1"
    using tripleD [OF write_step_net [OF st] _ step] good by (auto simp: req_good_def)
  then have open1: "opens_allowed en s s1" and fr: "frame i s s1"
    by (auto simp: net_inv_def page_inv_def opens_allowed_def)
  consider "s' = s1" | "write_loop en k (i + 1) st1 s1 = Inr (x, s')"
    using r st by (auto simp: static_server_def thenA_def bindA_def split: if_splits)
  then show ?case
  proof cases
    case 2
    have "\<forall>j. i + 1 \<le> j \<and> j < length (cs_request_list (rs_cs s1)) \<longrightarrow> req_good en (sr_of j s1)"
      using Suc.prems(1) fr by (auto simp: frame_def)
    then have "opens_allowed en s1 s'"
      using 2 Suc.prems(2) fr by (intro Suc.IH) (auto simp: frame_def)
    then show ?thesis using open1 opens_allowed_trans by blast
  qed (use open1 in simp)
qed

lemma parse_loop_good:
  "parse_loop i n cs = (r, n', cs') \<Longrightarrow> length (cs_body cs) < 2 ^ 31 \<Longrightarrow>
     list_all (req_good en) (cs_request_list cs) \<Longrightarrow> list_all (req_good en) (cs_request_list cs')"
proof (induction i n cs rule: parse_loop.induct)
  case (1 i n cs)
  have "req_good en (parse_block cs i e)" for e
    using "1.prems"(2) by (simp add: req_good_def body_short_def parse_block_def Let_def view_def mk_request_init_def)
  with 1 show ?case by (auto simp: parse_loop.simps [of i n cs] split: if_splits)
qed

text \<open>
  C1: Confinement of a connection. On a server without home directories and without request
  plugins, handling the write event of a session (the requests in its buffer are split off,
  parsed, assigned to a virtual host, validated and served, or continued) opens no file except the
  error pages of the configured hosts and files at a document root followed by a URI without
  \<open>..\<close>, or index files there, whatever bytes the client sent.
\<close>

theorem mk_handler_write_confined:
  assumes "static_server en" "length (cs_body (rs_cs s)) < 2 ^ 31"
    and "list_all (req_good en) (cs_request_list (rs_cs s))"
    and "mk_handler_write en s = Inr (r, s')"
  shows "\<exists>new. rs_trace s' = rs_trace s @ new \<and> opened new \<subseteq> allowed en"
proof -
  let ?cs = "rs_cs s"
  obtain ret cs1 where p: "(if cs_request_list ?cs = [] then mk_request_parse ?cs else (0, ?cs)) = (ret, cs1)"
    by fastforce
  obtain r0 n0 cs0 where l: "parse_loop 0 0 ?cs = (r0, n0, cs0)" by (metis prod_cases3)
  have "cs_request_list cs1 = cs_request_list cs0" if "cs_request_list ?cs = []"
    using p l that by (auto simp: mk_request_parse_def split: if_splits)
  then have good: "list_all (req_good en) (cs_request_list cs1)"
    using p parse_loop_good [OF l assms(2,3)] assms(3) by (cases "cs_request_list ?cs = []") auto
  let ?s1 = "s\<lparr>rs_cs := cs1\<rparr>"
  have "s' = ?s1 \<or> write_loop en (length (cs_request_list cs1)) 0 0 ?s1 = Inr (r, s')"
    using assms(4) unfolding mk_handler_write_def
    by (auto simp: bindA_Inr_iff thenA_Inr_iff p split: if_splits)
  then have "opens_allowed en ?s1 s'"
    using write_loop_opens [OF assms(1), of 0 ?s1] good by (auto simp: list_all_length sr_of_def)
  then show ?thesis by (simp add: opens_allowed_def)
qed

definition demo_bytes :: cstr where
  "demo_bytes = ''GET /a.html HTTP/1.1'' @ CRLF @ ''Host: monkey'' @ ENDBLOCK"

definition demo_conn :: req_state where
  "demo_conn = \<lparr>rs_cs = (demo_session demo_bytes)\<lparr>cs_body_pos_end := 34, cs_first_method := HTTP_METHOD_GET\<rparr>,
     rs_gmt = gmt_cache_init, rs_trace = []\<rparr>"

theorem mk_handler_write_confined_witness:
  "\<exists>r s'. mk_handler_write demo_env demo_conn = Inr (r, s')
     \<and> EOpen ''/srv/a.html'' 2048 9 \<in> set (rs_trace s') \<and> opened (rs_trace s') \<subseteq> allowed demo_env"
proof -
  have "opens_of (mk_handler_write demo_env demo_conn) = Some [EOpen ''/srv/a.html'' 2048 9]" by code_simp
  then obtain r s' where run: "mk_handler_write demo_env demo_conn = Inr (r, s')"
    and f: "filter (\<lambda>e. \<not> quiet e) (rs_trace s') = [EOpen ''/srv/a.html'' 2048 9]"
    by (auto simp: opens_of_def split: sum.splits prod.splits)
  have "static_server demo_env"
    by (simp add: static_server_def demo_env_def mk_config_set_init_values_def demo_host_def short_ptr_def
        mk_pointer_set_def strlen_def)
  moreover have "length (cs_body (rs_cs demo_conn)) < 2 ^ 31" "cs_request_list (rs_cs demo_conn) = []"
    by (simp_all add: demo_conn_def demo_session_def demo_bytes_def)
  ultimately have "\<exists>new. rs_trace s' = rs_trace demo_conn @ new \<and> opened new \<subseteq> allowed demo_env"
    using mk_handler_write_confined [OF _ _ _ run] by simp
  then have "opened (rs_trace s') \<subseteq> allowed demo_env" by (auto simp: demo_conn_def)
  then show ?thesis using run filter_eq_Cons_mem [OF f] by blast
qed

end
