(* ===== verification/Mk_Request_Line.thy ===== *)
theory Mk_Request_Line
  imports Mk_Request
begin

text \<open>
  The request parser against printed requests: a request line and its header lines, printed the
  way a client sends them, are read back by \<open>mk_request_header_process\<close>.
\<close>

section \<open>Positions of the first line\<close>

lemma find_index_first: "(\<And>x. x \<in> set a \<Longrightarrow> \<not> P x) \<Longrightarrow> P y \<Longrightarrow> find_index P (a @ y # r) = Some (length a)"
  by (induction a) auto

lemma c_index_first: "c \<notin> set a \<Longrightarrow> NUL \<notin> set a \<Longrightarrow> c \<noteq> NUL \<Longrightarrow> c_index (a @ c # r) c = Some (length a)"
  unfolding c_index_def by (subst cstring_append) (auto intro: find_index_first)

lemma find_last_unique: "P y \<Longrightarrow> (\<And>x. x \<in> set b \<Longrightarrow> \<not> P x) \<Longrightarrow> find_last P (a @ y # b) = Some (length a)"
proof -
  assume y: "P y" and "\<And>x. x \<in> set b \<Longrightarrow> \<not> P x"
  then have "find_last P b = None" by simp
  with y show ?thesis by (induction a) (simp_all del: find_last_None_iff)
qed

lemma char_search_int: "mk_string_char_search v c (int n) = pos_of (memchr v c n)"
  by (simp add: mk_string_char_search_def)

lemma char_search_r_int: "0 < n \<Longrightarrow> mk_string_char_search_r v c (int n) = pos_of (memrchr v c n)"
  by (simp add: mk_string_char_search_r_def)

text \<open>The target of a request: the path and the query string, if there is one.\<close>

definition print_target :: "cstr \<Rightarrow> cstr option \<Rightarrow> cstr" where
  "print_target u q = u @ (case q of None \<Rightarrow> [] | Some t \<Rightarrow> CHR ''?'' # t)"

definition print_line :: "cstr \<Rightarrow> cstr \<Rightarrow> cstr \<Rightarrow> cstr" where
  "print_line m t v = m @ SP # t @ SP # v @ CRLF"

definition word_wf :: "cstr \<Rightarrow> bool" where
  "word_wf w \<longleftrightarrow> w \<noteq> [] \<and> SP \<notin> set w \<and> LF \<notin> set w \<and> NUL \<notin> set w"

lemma req_positions_print:
  assumes "word_wf m" "word_wf t" "word_wf v"
  shows "req_positions (print_line m t v @ r) =
    Inr (Some (length m + 1, int (length m + length t), length m + length t + length v + 3))"
proof -
  let ?d = "print_line m t v @ r" and ?fh = "length m + length t + length v + 3"
  have 1: "c_index ?d SP = Some (length m)"
    using c_index_first [of SP m] assms(1) by (simp add: print_line_def word_wf_def)
  have d: "?d = (m @ SP # t @ SP # v @ [CR]) @ LF # r" by (simp add: print_line_def)
  moreover have "c_index ((m @ SP # t @ SP # v @ [CR]) @ LF # r) LF = Some (length (m @ SP # t @ SP # v @ [CR]))"
    using assms by (intro c_index_first) (auto simp: word_wf_def)
  ultimately have 2: "c_index ?d LF = Some ?fh" by simp
  have "take ?fh (w @ LF # r) = w" if "length w = ?fh" for w using that by simp
  from this [of "m @ SP # t @ SP # v @ [CR]"] have "take ?fh ?d = (m @ SP # t) @ SP # v @ [CR]"
    unfolding d by simp
  then have "memrchr ?d SP ?fh = Some (length (m @ SP # t))"
    unfolding memrchr_def using assms(3) by (simp only:) (intro find_last_unique, auto simp: word_wf_def)
  then have 3: "mk_string_char_search_r ?d SP (int ?fh) = int (length m + length t + 1)"
    by (subst char_search_r_int) simp_all
  show ?thesis using 1 2 3 assms(2) by (cases t) (simp_all add: req_positions_def Let_def word_wf_def)
qed

lemma req_query_print:
  assumes u: "word_wf u" "CHR ''?'' \<notin> set u" and q: "\<And>t. q = Some t \<Longrightarrow> t \<noteq> []"
    and d: "view (sr_body sr) = m @ SP # print_target u q @ SP # r"
    and short: "length (view (sr_body sr)) < 2 ^ 31"
  shows "\<exists>sr'. req_query (length m + 1) (int (length m + length (print_target u q))) sr = (int (length m + length u), sr')
    \<and> (\<exists>p. sr' = sr\<lparr>sr_query_string := p\<rparr> \<and> (case q of None \<Rightarrow> p = sr_query_string sr | Some t \<Rightarrow> p_bytes p = t))"
proof (cases q)
  case None
  have dr: "drop (length m + 1) (view (sr_body sr)) = u @ SP # r" using d None by (simp add: print_target_def)
  let ?n = "length m + length u + 2"
  define k where "k = mk_string_char_search (u @ SP # r) (CHR ''?'') (int (length m) + int (length u) + 2)"
  have k: "k = pos_of (memchr (u @ SP # r) (CHR ''?'') ?n)"
    using char_search_int [of "u @ SP # r" "CHR ''?''" ?n] by (simp add: k_def algebra_simps)
  have "\<not> (0 < k \<and> k < int (length u))"
  proof (cases "memchr (u @ SP # r) (CHR ''?'') ?n")
    case (Some j)
    then have "(u @ SP # r) ! j = CHR ''?''" by (simp add: memchr_Some_iff)
    then have "\<not> j < length u" using u(2) by (auto simp: nth_append split: if_splits dest: nth_mem)
    then show ?thesis using Some k by simp
  qed (simp add: k del: find_index_None_iff)
  then show ?thesis using None dr
    by (intro exI [of _ sr])
      (auto simp: req_query_def Let_def print_target_def k_def [symmetric] intro!: exI [of _ "sr_query_string sr"])
next
  case (Some t)
  then have t: "t \<noteq> []" using q by simp
  have dr: "drop (length m + 1) (view (sr_body sr)) = u @ CHR ''?'' # t @ SP # r"
    using d Some by (simp add: print_target_def)
  let ?ue = "length m + length u + length t + 1"
  have "take (?ue + 2) (u @ CHR ''?'' # t @ SP # r) = u @ CHR ''?'' # take (?ue + 1 - length u) (t @ SP # r)"
    by (simp add: Suc_diff_le)
  then have "memchr (u @ CHR ''?'' # t @ SP # r) (CHR ''?'') (?ue + 2) = Some (length u)"
    unfolding memchr_def by (simp only:) (rule find_index_first, use u(2) in auto)
  then have "mk_string_char_search (u @ CHR ''?'' # t @ SP # r) (CHR ''?'') (int (?ue + 2)) = int (length u)"
    unfolding char_search_int by simp
  then have s: "mk_string_char_search (u @ CHR ''?'' # t @ SP # r) (CHR ''?'') (int ?ue + 2) = int (length u)" by simp
  let ?p = "mk_pointer_create (view (sr_body sr)) (length m + length u + 2) (int ?ue + 1)"
  have "p_bytes ?p = t"
  proof -
    have "drop (length m + length u + 2) (view (sr_body sr)) = t @ SP # r"
      using dr by (metis (no_types, lifting) drop_drop add.assoc add.commute append_eq_conv_conj drop_Suc_Cons drop0 one_add_one plus_1_eq_Suc)
    moreover have "ulong (int (length t)) = length t"
      using short by (subst ulong_id) (simp_all add: d Some print_target_def)
    ultimately show ?thesis using t by (simp add: mk_pointer_create_def p_bytes_def view_def)
  qed
  moreover have "nat (2 + (int (length u) + int (length m))) = Suc (Suc (length m + length u))" by linarith
  ultimately show ?thesis using Some dr s u(1)
    by (intro exI [of _ "sr\<lparr>sr_query_string := ?p\<rparr>"])
      (auto simp: req_query_def Let_def print_target_def word_wf_def nat_int_add intro!: exI [of _ ?p])
qed

section \<open>The header lines\<close>

lemma spec_get_first:
  assumes "ls = before @ l # after" "line_has key l" "\<forall>l'\<in>set before. \<not> line_has key l'"
  shows "spec_header_get (map (\<lambda>l. (l, False)) ls) key =
    (Some l, (map (\<lambda>l. (l, False)) ls)[length before := (l, True)])"
proof -
  have "find_index (\<lambda>(l, used). \<not> used \<and> line_has key l) (map (\<lambda>l. (l, False)) ls) = Some (length before)"
    unfolding find_index_Some_iff using assms by (auto simp: nth_append)
  then show ?thesis unfolding spec_header_get_def by (simp add: assms(1) nth_append)
qed

lemma spec_get_none: "\<forall>lb\<in>set lbs. \<not> line_has key (fst lb) \<Longrightarrow> spec_header_get lbs key = (None, lbs)"
proof -
  assume "\<forall>lb\<in>set lbs. \<not> line_has key (fst lb)"
  then have "find_index (\<lambda>(l, used). \<not> used \<and> line_has key l) lbs = None" by auto
  then show ?thesis by (simp add: spec_header_get_def del: find_index_None_iff)
qed

lemma req_get_spec:
  assumes "toc_rep (sr_headers_toc sr) lbs" "NUL \<notin> set key" "CR \<notin> set key" "spec_header_get lbs key = (a, lbs')"
  shows "\<exists>p toc'. req_get (key @ '':'') sr = (p, sr\<lparr>sr_headers_toc := toc'\<rparr>) \<and> toc_rep toc' lbs'
    \<and> (case a of None \<Rightarrow> p = \<lparr>p_data = None, p_len = 0\<rparr> | Some l \<Rightarrow> value_of key l p)"
proof -
  obtain p toc' where g: "mk_request_header_get (sr_headers_toc sr) (key @ '':'') (length key + 1) = (p, toc')"
    by fastforce
  then have "req_get (key @ '':'') sr = (p, sr\<lparr>sr_headers_toc := toc'\<rparr>)" by (simp add: req_get_def)
  with header_get_refines [OF assms(1-3) g] assms(4) show ?thesis by auto
qed

lemma value_of_bytes:
  assumes "value_of key (name @ '': '' @ v) p" "length name = length key" "length v < 2 ^ 64"
  shows "p_bytes p = v" "p_len p = length v" "\<exists>x. p_data p = Some (v @ CR # LF # x)"
proof -
  have "drop (length key + 2) ((name @ '': '' @ v) @ CR # LF # x) = v @ CR # LF # x" for x
    using assms(2) by (simp add: drop_append flip: assms(2))
  then show d: "\<exists>x. p_data p = Some (v @ CR # LF # x)" using assms(1) unfolding value_of_def by metis
  show n: "p_len p = length v" using assms by (simp add: value_of_def ulong_id)
  show "p_bytes p = v" using d n by (auto simp: p_bytes_def view_def)
qed

lemma line_has_name: "same_name name key \<Longrightarrow> line_has key (name @ '': '' @ v)"
  using same_name_length [of name key] by (simp add: line_has_def same_name_def)

text \<open>Header lines of a request to the host \<open>hst\<close> that leave the connection as it is by default.\<close>

definition headers_wf :: "cstr list \<Rightarrow> cstr \<Rightarrow> bool" where
  "headers_wf ls hst \<longleftrightarrow> (\<forall>l\<in>set ls. line_wf l \<and> \<not> line_has ''Connection'' l) \<and> length ls \<le> 32
     \<and> hst \<noteq> [] \<and> CHR '':'' \<notin> set hst
     \<and> (\<exists>before name after. ls = before @ (name @ '': '' @ hst) # after \<and> same_name name ''Host''
          \<and> (\<forall>l\<in>set before. \<not> line_has ''Host'' l))"

lemma req_host_plain:
  assumes rep: "toc_rep (sr_headers_toc sr) (map (\<lambda>l. (l, False)) ls)" and wf: "headers_wf ls hst"
    and short: "length hst < 2 ^ 31"
  shows "\<exists>p toc' lbs. req_host config sr = Inr (0, sr\<lparr>sr_headers_toc := toc', sr_host := p, sr_port := standard_port config\<rparr>)
    \<and> p_bytes p = hst \<and> toc_rep toc' lbs \<and> set (map fst lbs) = set ls"
proof -
  obtain before name after where ls: "ls = before @ (name @ '': '' @ hst) # after" and n: "same_name name ''Host''"
    and b: "\<forall>l\<in>set before. \<not> line_has ''Host'' l" using wf by (auto simp: headers_wf_def)
  let ?l = "name @ '': '' @ hst" and ?lbs = "map (\<lambda>l. (l, False)) ls"
  let ?lbs' = "?lbs[length before := (?l, True)]"
  have sp: "spec_header_get ?lbs ''Host'' = (Some ?l, ?lbs')"
    by (rule spec_get_first [OF ls line_has_name [OF n] b])
  obtain p toc' where g: "req_get (''Host'' @ '':'') sr = (p, sr\<lparr>sr_headers_toc := toc'\<rparr>)"
    and t: "toc_rep toc' ?lbs'" and v: "value_of ''Host'' ?l p"
    using req_get_spec [OF rep _ _ sp] by auto
  have len: "length name = length ''Host''" using same_name_length [OF n] .
  note val = value_of_bytes [OF v len]
  obtain x where d: "p_data p = Some (hst @ CR # LF # x)" using val(3) short by auto
  have pl: "p_len p = length hst" "p_bytes p = hst" using val(1,2) short by auto
  have "int32 (int (length hst)) = int (length hst)" using short by (intro int32_id) auto
  moreover have "memrchr (hst @ CR # LF # x) (CHR '':'') (length hst) = None"
    using wf by (auto simp: memrchr_def headers_wf_def)
  moreover have "0 < length hst" using wf by (simp add: headers_wf_def)
  ultimately have sep: "mk_string_char_search_r (hst @ CR # LF # x) (CHR '':'') (int32 (int (p_len p))) = -1"
    using char_search_r_int [of "length hst" "hst @ CR # LF # x"] pl by simp
  have "req_host config sr = Inr (0, sr\<lparr>sr_headers_toc := toc', sr_host := p, sr_port := standard_port config\<rparr>)"
    using g d sep by (simp add: req_host_def)
  moreover have "map fst ?lbs' = ls" by (simp add: ls list_update_append map_update comp_def)
  then have "set (map fst ?lbs') = set ls" by (simp only:)
  ultimately show ?thesis using pl t by blast
qed

lemma req_get_any: "\<exists>v t. req_get name sr = (v, sr\<lparr>sr_headers_toc := t\<rparr>)"
  unfolding req_get_def Let_def case_prod_beta by blast

lemma req_lookups_plain:
  assumes rep: "toc_rep (sr_headers_toc sr) lbs" and no: "\<forall>l\<in>set (map fst lbs). \<not> line_has ''Connection'' l"
  shows "\<exists>t r m. req_lookups sr = sr\<lparr>sr_headers_toc := t, sr_connection := mk_pointer_reset, sr_range := r,
     sr_if_modified_since := m\<rparr>"
proof -
  have sp: "spec_header_get lbs ''Connection'' = (None, lbs)" using no by (intro spec_get_none) auto
  obtain t where g: "req_get (''Connection'' @ '':'') sr = (\<lparr>p_data = None, p_len = 0\<rparr>, sr\<lparr>sr_headers_toc := t\<rparr>)"
    using req_get_spec [OF rep _ _ sp] by auto
  obtain r t2 where g2: "req_get ''Range:'' (sr\<lparr>sr_headers_toc := t\<rparr>) = (r, sr\<lparr>sr_headers_toc := t2\<rparr>)"
    using req_get_any [of "''Range:''" "sr\<lparr>sr_headers_toc := t\<rparr>"] by auto
  obtain m t3 where g3: "req_get ''If-Modified-Since:'' (sr\<lparr>sr_headers_toc := t2\<rparr>) = (m, sr\<lparr>sr_headers_toc := t3\<rparr>)"
    using req_get_any [of "''If-Modified-Since:''" "sr\<lparr>sr_headers_toc := t2\<rparr>"] by auto
  show ?thesis using g g2 g3 by (auto simp: req_lookups_def mk_pointer_reset_def)
qed

section \<open>The whole header\<close>

definition target_wf :: "cstr \<Rightarrow> cstr option \<Rightarrow> bool" where
  "target_wf u q \<longleftrightarrow> word_wf u \<and> CHR ''?'' \<notin> set u \<and> CHR ''%'' \<notin> set u
     \<and> (case q of None \<Rightarrow> True | Some t \<Rightarrow> word_wf t)"

definition print_request :: "cstr \<Rightarrow> cstr \<Rightarrow> cstr option \<Rightarrow> cstr \<Rightarrow> cstr list \<Rightarrow> cstr" where
  "print_request m u q v ls = print_line m (print_target u q) v @ print_lines ls"

lemma target_word: "target_wf u q \<Longrightarrow> word_wf (print_target u q)"
  by (auto simp: target_wf_def print_target_def word_wf_def split: option.splits)

lemma headers_host_length: "headers_wf ls hst \<Longrightarrow> length hst \<le> length (print_lines ls)"
  by (auto simp: headers_wf_def print_lines_def)

lemma protocol_known:
  assumes "v = ''HTTP/1.1'' \<or> v = ''HTTP/1.0''"
  shows "mk_http_protocol_check (v @ r) (int (length v)) = (if v = ''HTTP/1.1'' then HTTP_PROTOCOL_11 else HTTP_PROTOCOL_10)"
  using assms by (elim disjE) (simp_all add: mk_http_protocol_check_def strncmp_eq_iff)

lemma decode_plain: "CHR ''%'' \<notin> set (p_bytes p) \<Longrightarrow> mk_utils_url_decode p = Inr None"
  using memchr_None_iff [of "view p" "CHR ''%''" "p_len p"] by (simp add: mk_utils_url_decode_def p_bytes_def)

text \<open>
  C8: The header of a request is read as it was sent. For a method, a path without escapes, an
  optional query string, one of the protocols HTTP/1.0 and HTTP/1.1, and up to 32 header lines, one
  of them a Host line without a port and none a Connection line, \<open>mk_request_header_process\<close>
  returns 0 and finds path, query, protocol and host; the connection is kept for HTTP/1.1 only.
\<close>

theorem mk_request_header_process_roundtrip:
  assumes m: "word_wf m" and tq: "target_wf u q" and v: "v = ''HTTP/1.1'' \<or> v = ''HTTP/1.0''"
    and ls: "headers_wf ls hst"
    and body: "sr_body sr = \<lparr>p_data = Some (print_request m u q v ls @ CRLF @ rest),
      p_len = length (print_request m u q v ls) - 2\<rparr>"
    and short: "length (view (sr_body sr)) < 2 ^ 31"
  shows "\<exists>sr'. mk_request_header_process config sr = Inr (0, sr')
    \<and> p_bytes (sr_uri sr') = u \<and> sr_uri_processed sr' = sr_uri sr'
    \<and> (case q of None \<Rightarrow> sr_query_string sr' = sr_query_string sr | Some t \<Rightarrow> p_bytes (sr_query_string sr') = t)
    \<and> sr_protocol sr' = (if v = ''HTTP/1.1'' then HTTP_PROTOCOL_11 else HTTP_PROTOCOL_10)
    \<and> p_bytes (sr_host sr') = hst \<and> sr_port sr' = standard_port config
    \<and> sr_keep_alive sr' = (v = ''HTTP/1.1'') \<and> sr_close_now sr' = (v \<noteq> ''HTTP/1.1'')"
proof -
  let ?t = "print_target u q" and ?d = "print_request m u q v ls @ CRLF @ rest"
  let ?ue = "length m + length ?t" and ?fh = "length m + length ?t + length v + 3"
  define sr0 where "sr0 = sr\<lparr>sr_method_p := mk_http_method_check_str (sr_method sr)\<rparr>"
  have vw: "word_wf v" using v by (auto simp: word_wf_def)
  have view0: "view (sr_body sr0) = ?d" "view (sr_body sr) = ?d" by (simp_all add: sr0_def body view_def)
  have d: "?d = print_line m ?t v @ print_lines ls @ CRLF @ rest" by (simp add: print_request_def)
  have pos: "req_positions ?d = Inr (Some (length m + 1, int ?ue, ?fh))"
    using req_positions_print [OF m target_word [OF tq] vw] unfolding d by simp
  have d2: "view (sr_body sr0) = m @ SP # ?t @ SP # v @ CRLF @ print_lines ls @ CRLF @ rest"
    unfolding view0 d print_line_def by simp
  have "word_wf u" "CHR ''?'' \<notin> set u" "\<And>t. q = Some t \<Longrightarrow> t \<noteq> []"
    using tq by (auto simp: target_wf_def word_wf_def)
  then obtain p where rq: "req_query (length m + 1) (int ?ue) sr0 = (int (length m + length u), sr0\<lparr>sr_query_string := p\<rparr>)"
    and q: "case q of None \<Rightarrow> p = sr_query_string sr0 | Some t \<Rightarrow> p_bytes p = t"
    using req_query_print [of u q sr0 m] d2 short view0 by auto
  define uri where "uri = mk_pointer_create ?d (length m + 1) (int (length m + length u) + 1)"
  have "length u \<le> length ?t" by (simp add: print_target_def)
  moreover have "length hst \<le> length (print_lines ls)" using ls by (rule headers_host_length)
  ultimately have ul: "length u < 2 ^ 31" "length hst < 2 ^ 31" using short unfolding view0 d by (auto simp: print_line_def)
  have u0: "u \<noteq> []" using tq by (simp add: target_wf_def word_wf_def)
  have "drop (length m + 1) ?d = u @ drop (length u) (drop (length m + 1) ?d)"
    unfolding d print_line_def print_target_def by simp
  then have ub: "p_bytes uri = u" "\<not> p_len uri < 1"
    using ul u0 by (auto simp: uri_def mk_pointer_create_def p_bytes_def view_def ulong_id)
  define sr2 where "sr2 = sr0\<lparr>sr_query_string := p, sr_uri := uri\<rparr>"
  define prot where "prot = (if v = ''HTTP/1.1'' then HTTP_PROTOCOL_11 else HTTP_PROTOCOL_10)"
  define sr3 where "sr3 = sr2\<lparr>sr_protocol := prot, sr_protocol_p := mk_http_protocol_check_str prot, sr_uri_processed := uri\<rparr>"
  have vl: "length v = 8" using v by auto
  have "drop (nat (int ?ue + 2)) ?d = v @ CRLF @ print_lines ls @ CRLF @ rest"
    unfolding d print_line_def by (simp add: nat_add_distrib)
  then have pr: "req_protocol (int ?ue + 2) (int ?fh - 1) sr2 =
      sr2\<lparr>sr_protocol := prot, sr_protocol_p := mk_http_protocol_check_str prot\<rparr>"
    using protocol_known [OF v, of "CRLF @ print_lines ls @ CRLF @ rest"] view0 vl
    by (simp add: req_protocol_def sr2_def prot_def Let_def)
  have dec: "req_decode (req_protocol (int ?ue + 2) (int ?fh - 1) sr2) = Inr sr3"
    using decode_plain [of uri] ub tq unfolding pr by (simp add: req_decode_def sr2_def sr3_def target_wf_def)
  have "nat (int ?fh - 1 + 2) = length (print_line m ?t v)" by (simp add: print_line_def)
  then have "drop (nat (int ?fh - 1 + 2)) ?d = print_lines ls @ CRLF @ rest" unfolding d by simp
  moreover have "length (print_request m u q v ls) = ?fh + 1 + length (print_lines ls)"
    by (simp add: print_request_def print_line_def)
  moreover have "length ?d < 2 ^ 31" using short view0 by simp
  moreover have "ls \<noteq> []" using ls by (auto simp: headers_wf_def)
  then have "2 \<le> length (print_lines ls)" by (cases ls) auto
  ultimately have toc: "req_toc (int ?fh - 1) sr3 = sr3\<lparr>sr_headers_len := int (length (print_lines ls)) - 2,
      sr_headers_toc := mk_request_header_toc_parse (print_lines ls @ CRLF @ rest) (int (length (print_lines ls)) - 2)\<rparr>"
    using view0 body by (simp add: req_toc_def Let_def sr3_def sr2_def sr0_def int32_id of_nat_diff)
  have "toc_rep (mk_request_header_toc_parse (print_lines ls @ CRLF @ rest) (int (length (print_lines ls)) - 2))
      (map (\<lambda>l. (l, False)) ls)"
    using ls \<open>ls \<noteq> []\<close> by (intro toc_parse_rep) (auto simp: headers_wf_def)
  then obtain hp toc' lbs where
    h: "req_host config (req_toc (int ?fh - 1) sr3) =
      Inr (0, (req_toc (int ?fh - 1) sr3)\<lparr>sr_headers_toc := toc', sr_host := hp, sr_port := standard_port config\<rparr>)"
    and hb: "p_bytes hp = hst" and rep: "toc_rep toc' lbs" and lbs: "set (map fst lbs) = set ls"
    using req_host_plain [of "req_toc (int ?fh - 1) sr3" ls hst config] ls ul(2) toc by auto
  define sr4 where "sr4 = (req_toc (int ?fh - 1) sr3)\<lparr>sr_headers_toc := toc', sr_host := hp, sr_port := standard_port config\<rparr>"
  have "\<forall>l\<in>set (map fst lbs). \<not> line_has ''Connection'' l" unfolding lbs using ls by (simp add: headers_wf_def)
  moreover have "toc_rep (sr_headers_toc sr4) lbs" using rep by (simp add: sr4_def)
  ultimately obtain t r ms where lk: "req_lookups sr4 = sr4\<lparr>sr_headers_toc := t, sr_connection := mk_pointer_reset, sr_range := r,
     sr_if_modified_since := ms\<rparr>"
    using req_lookups_plain by blast
  have sr2: "sr0\<lparr>sr_query_string := p\<rparr>\<lparr>sr_uri := uri\<rparr> = sr2" by (simp add: sr2_def)
  have "mk_request_header_process config sr =
      (if p_len (sr_uri sr2) < 1 \<or> int ?ue + 2 = int ?fh - 1 then Inr (-1, sr2)
       else bindE (req_decode (req_protocol (int ?ue + 2) (int ?fh - 1) sr2)) (\<lambda>sr3.
              bindE (req_host config (req_toc (int ?fh - 1) sr3)) (\<lambda>(ret, sr4).
                if ret < 0 then Inr (-1, sr4) else Inr (0, req_connection (req_lookups sr4)))))"
    unfolding mk_request_header_process_def Let_def sr0_def [symmetric] view0 pos bindE_simps option.case prod.case rq
      uri_def [symmetric] sr2 ..
  also have "\<dots> = Inr (0, req_connection (req_lookups sr4))"
    unfolding dec bindE_simps h sr4_def [symmetric] prod.case using ub vl by (simp add: sr2_def)
  finally have run: "mk_request_header_process config sr = Inr (0, req_connection (req_lookups sr4))" .
  have f: "sr_uri sr4 = uri" "sr_uri_processed sr4 = uri" "sr_query_string sr4 = p" "sr_protocol sr4 = prot"
    "sr_host sr4 = hp" "sr_port sr4 = standard_port config" "sr_query_string sr0 = sr_query_string sr"
    by (simp_all add: sr4_def sr3_def sr2_def req_toc_def Let_def sr0_def)
  show ?thesis unfolding run lk using ub q hb v
    by (auto simp: req_connection_def keep_def Let_def f prot_def mk_const mk_pointer_reset_def split: option.splits)
qed

theorem mk_request_header_process_roundtrip_witness:
  "\<exists>sr'. mk_request_header_process mk_config_set_init_values (mk_request_init\<lparr>sr_body :=
       \<lparr>p_data = Some (print_request ''GET'' ''/a'' (Some ''x=1'') ''HTTP/1.1'' [''Host: monkey''] @ CRLF),
        p_len = length (print_request ''GET'' ''/a'' (Some ''x=1'') ''HTTP/1.1'' [''Host: monkey'']) - 2\<rparr>\<rparr>) = Inr (0, sr')
     \<and> p_bytes (sr_uri sr') = ''/a'' \<and> p_bytes (sr_query_string sr') = ''x=1'' \<and> p_bytes (sr_host sr') = ''monkey''"
proof -
  have "word_wf ''GET''" "target_wf ''/a'' (Some ''x=1'')" by code_simp+
  moreover have "headers_wf [''Host: monkey''] ''monkey''" unfolding headers_wf_def
  proof (intro conjI exI)
    show "[''Host: monkey''] = [] @ (''Host'' @ '': '' @ ''monkey'') # []" by simp
    show "\<forall>l\<in>set [''Host: monkey'']. line_wf l \<and> \<not> line_has ''Connection'' l" by code_simp
    show "same_name ''Host'' ''Host''" by (simp add: same_name_def)
  qed simp_all
  ultimately show ?thesis
    using mk_request_header_process_roundtrip [of "''GET''" "''/a''" "Some ''x=1''" "''HTTP/1.1''" "[''Host: monkey'']"
        "''monkey''" "mk_request_init\<lparr>sr_body :=
       \<lparr>p_data = Some (print_request ''GET'' ''/a'' (Some ''x=1'') ''HTTP/1.1'' [''Host: monkey''] @ CRLF),
        p_len = length (print_request ''GET'' ''/a'' (Some ''x=1'') ''HTTP/1.1'' [''Host: monkey'']) - 2\<rparr>\<rparr>" "[]"
        mk_config_set_init_values]
    by (auto simp: view_def print_request_def print_line_def print_target_def)
qed

end
