(* ===== verification/Mk_Progress.thy ===== *)
theory Mk_Progress
  imports Mk_Request
begin

text \<open>
  Progress of a response: a file that does not fit in one write is sent over several write events,
  and these come to an end.
\<close>

section \<open>Write events\<close>

text \<open>
  Write events on a session while the handler reports data left to send, as \<open>mk_conn_write\<close> and
  the event loop repeat them; \<open>None\<close> when \<open>k\<close> events are not enough.
\<close>

fun write_events :: "env \<Rightarrow> nat \<Rightarrow> req_state \<Rightarrow> (cerr + int \<times> req_state) option" where
  "write_events en 0 s = None"
| "write_events en (Suc k) s =
     (case mk_handler_write en s of
        Inl e \<Rightarrow> Some (Inl e)
      | Inr (r, s') \<Rightarrow> if 0 < r then write_events en k s' else Some (Inr (r, s')))"

text \<open>
  The contract of \<open>sendfile(2)\<close> on a writable socket and a file that is long enough: at least one
  byte is sent and the offset advances by what was sent.
\<close>

definition sendfile_progress :: "env \<Rightarrow> bool" where
  "sendfile_progress en \<longleftrightarrow>
     (\<forall>tr sock f off c. 0 < c \<longrightarrow>
        (\<exists>n. en_send_file en tr sock f off c = (n, off + n) \<and> 0 < n \<and> n \<le> c))"

text \<open>A session with one request whose file is being sent.\<close>

definition sending :: "session_request \<Rightarrow> req_state \<Rightarrow> bool" where
  "sending sr s \<longleftrightarrow> cs_request_list (rs_cs s) = [sr] \<and> sr_handled_by sr = None
     \<and> 0 < sr_bytes_to_send sr \<and> sr_bytes_to_send sr < 2147483648"

lemma socket_send_file_apply:
  "\<exists>t. mk_socket_send_file en sock f off c s = Inr (en_send_file en (rs_trace s) sock f off c, s\<lparr>rs_trace := t\<rparr>)"
  by (auto simp: mk_socket_send_file_def safe_write_def bindA_def thenA_def)

lemma send_file_step:
  assumes prog: "sendfile_progress en" and s: "sending sr s"
  obtains n s' where "mk_http_send_file en 0 s = Inr (sr_bytes_to_send sr - n, s')" "0 < n" "n \<le> sr_bytes_to_send sr"
    "cs_request_list (rs_cs s') = [sr\<lparr>sr_bytes_offset := sr_bytes_offset sr + n,
       sr_bytes_to_send := sr_bytes_to_send sr - n, sr_loop := sr_loop sr + 1\<rparr>]"
proof -
  have sr: "cs_request_list (rs_cs s) = [sr]" "sr_of 0 s = sr" "0 < sr_bytes_to_send sr" "sr_bytes_to_send sr < 2147483648"
    using s by (simp_all add: sending_def sr_of_def)
  obtain n where n: "en_send_file en (rs_trace s) (cs_socket (rs_cs s)) (sr_fd_file sr) (sr_bytes_offset sr) (sr_bytes_to_send sr)
      = (n, sr_bytes_offset sr + n)" "0 < n" "n \<le> sr_bytes_to_send sr"
    using prog sr(3) unfolding sendfile_progress_def by blast
  have i: "int32 (sr_bytes_to_send sr - n) = sr_bytes_to_send sr - n" using n sr(3,4) by (intro int32_id) auto
  obtain t where t: "mk_socket_send_file en (cs_socket (rs_cs s)) (sr_fd_file sr) (sr_bytes_offset sr) (sr_bytes_to_send sr) s
      = Inr ((n, sr_bytes_offset sr + n), s\<lparr>rs_trace := t\<rparr>)" using socket_send_file_apply n(1) by metis
  define r1 where "r1 = sr\<lparr>sr_bytes_offset := sr_bytes_offset sr + n, sr_bytes_to_send := sr_bytes_to_send sr - n\<rparr>"
  define s1 where "s1 = s\<lparr>rs_trace := t, rs_cs := (rs_cs s)\<lparr>cs_request_list := [r1]\<rparr>\<rparr>"
  have s1: "set_sr 0 (\<lambda>r. r\<lparr>sr_bytes_offset := sr_bytes_offset sr + n, sr_bytes_to_send := sr_bytes_to_send sr - n\<rparr>)
      (s\<lparr>rs_trace := t\<rparr>) = s1" using sr(1) by (simp add: set_sr_def s1_def r1_def)
  obtain u where u: "(if 0 < n \<and> sr_bytes_to_send sr - n = 0 then mk_socket_set_cork_flag (cs_socket (rs_cs s)) False
      else returnA ()) s1 = Inr ((), s1\<lparr>rs_trace := u\<rparr>)"
    by (cases "sr_bytes_to_send sr - n = 0") (use n(2) in \<open>auto simp: mk_socket_set_cork_flag_def intro: that [of "rs_trace s1"]\<close>)
  have "mk_http_send_file en 0 s =
      Inr (sr_bytes_to_send sr - n, set_sr 0 (\<lambda>r. r\<lparr>sr_loop := sr_loop r + 1\<rparr>) (s1\<lparr>rs_trace := u\<rparr>))"
    unfolding mk_http_send_file_def bindA_def thenA_def get_cs_apply get_sr_apply sum.case prod.case sr(2) t Let_def if_P [OF n(2)]
      upd_sr_apply s1 u returnA_apply using n(2) i by simp
  moreover have "cs_request_list (rs_cs (set_sr 0 (\<lambda>r. r\<lparr>sr_loop := sr_loop r + 1\<rparr>) (s1\<lparr>rs_trace := u\<rparr>))) =
      [r1\<lparr>sr_loop := sr_loop sr + 1\<rparr>]" by (simp add: set_sr_def s1_def r1_def)
  ultimately show ?thesis using that n(2,3) unfolding r1_def by simp
qed

lemma send_event:
  assumes "sendfile_progress en" "sending sr s" "stage_40 (en_stagemap en) = []"
  obtains n s' sr' where "0 < n" "n \<le> sr_bytes_to_send sr"
    "sr' = sr\<lparr>sr_bytes_offset := sr_bytes_offset sr + n, sr_bytes_to_send := sr_bytes_to_send sr - n, sr_loop := sr_loop sr + 1\<rparr>"
    "cs_request_list (rs_cs s') = [sr']"
    "mk_handler_write en s = Inr (if n < sr_bytes_to_send sr then sr_bytes_to_send sr - n
                                  else if sr_close_now sr then -1 else 0, s')"
proof -
  obtain n s' where n: "mk_http_send_file en 0 s = Inr (sr_bytes_to_send sr - n, s')" "0 < n" "n \<le> sr_bytes_to_send sr"
    "cs_request_list (rs_cs s') = [sr\<lparr>sr_bytes_offset := sr_bytes_offset sr + n,
       sr_bytes_to_send := sr_bytes_to_send sr - n, sr_loop := sr_loop sr + 1\<rparr>]"
    using send_file_step [OF assms(1,2)] .
  have sr: "cs_request_list (rs_cs s) = [sr]" "sr_of 0 s = sr" "0 < sr_bytes_to_send sr" "sr_handled_by sr = None"
    using assms(2) by (simp_all add: sending_def sr_of_def)
  have st: "write_step en 0 0 s = Inr (sr_bytes_to_send sr - n, s')"
    unfolding write_step_def bindA_def get_sr_apply sum.case prod.case sr using sr(3) n(1) by simp
  have same: "s\<lparr>rs_cs := rs_cs s\<rparr> = s" by simp
  have cl: "sr_close_now (sr_of 0 s') = sr_close_now sr" using n(4) by (simp add: sr_of_def)
  have st40: "stage40_run [] 0 s' = Inr (-1, s')" by simp
  have w: "mk_handler_write en s = write_loop en (Suc 0) 0 0 s"
    unfolding mk_handler_write_def bindA_def thenA_def get_cs_apply sum.case prod.case Let_def sr(1)
    by (simp add: same sr(1))
  have "mk_handler_write en s = Inr (if n < sr_bytes_to_send sr then sr_bytes_to_send sr - n
                                  else if sr_close_now sr then -1 else 0, s')"
    unfolding w write_loop.simps bindA_def thenA_def st sum.case prod.case assms(3) st40 get_sr_apply cl
    using n(3) cl by (auto simp: EXIT_NORMAL_def EXIT_ABORT_def)
  with n(2-4) that show ?thesis by blast
qed


text \<open>
  C10: a response is sent to its end. When every call of \<open>sendfile\<close> makes progress and no plugin
  runs in stage 40, a session whose file has \<open>m\<close> bytes left (less than 2 GB) is finished after at
  most \<open>m\<close> write events: the handler then reports the end of the request, or the end of the
  connection when it has to be closed; nothing is left to send and the offset has moved by exactly
  \<open>m\<close> bytes.
\<close>

theorem write_events_finish:
  assumes "sendfile_progress en" "stage_40 (en_stagemap en) = []" "sending sr s"
  shows "\<exists>k \<le> nat (sr_bytes_to_send sr). \<exists>s' sr'.
    write_events en k s = Some (Inr (if sr_close_now sr then -1 else 0, s'))
    \<and> cs_request_list (rs_cs s') = [sr'] \<and> sr_bytes_to_send sr' = 0
    \<and> sr_bytes_offset sr' = sr_bytes_offset sr + sr_bytes_to_send sr"
  using assms(3)
proof (induction "nat (sr_bytes_to_send sr)" arbitrary: sr s rule: less_induct)
  case less
  obtain n s' sr' where n: "0 < n" "n \<le> sr_bytes_to_send sr"
    and sr': "sr' = sr\<lparr>sr_bytes_offset := sr_bytes_offset sr + n, sr_bytes_to_send := sr_bytes_to_send sr - n, sr_loop := sr_loop sr + 1\<rparr>"
    and rl: "cs_request_list (rs_cs s') = [sr']"
    and h: "mk_handler_write en s = Inr (if n < sr_bytes_to_send sr then sr_bytes_to_send sr - n
                                  else if sr_close_now sr then -1 else 0, s')"
    using send_event [OF assms(1) less(2) assms(2)] .
  show ?case
  proof (cases "n < sr_bytes_to_send sr")
    case True
    have send: "sending sr' s'" and less': "nat (sr_bytes_to_send sr') < nat (sr_bytes_to_send sr)"
      using less(2) rl n True by (simp_all add: sending_def sr')
    from less(1) [OF less' send] obtain k s2 sr2 where k: "k \<le> nat (sr_bytes_to_send sr')"
      "write_events en k s' = Some (Inr (if sr_close_now sr' then -1 else 0, s2))"
      "cs_request_list (rs_cs s2) = [sr2]" "sr_bytes_to_send sr2 = 0"
      "sr_bytes_offset sr2 = sr_bytes_offset sr' + sr_bytes_to_send sr'" by blast
    have "write_events en (Suc k) s = Some (Inr (if sr_close_now sr then -1 else 0, s2))"
      using h True k(2) by (simp add: sr')
    moreover have "sr_bytes_offset sr2 = sr_bytes_offset sr + sr_bytes_to_send sr" using k(5) by (simp add: sr')
    moreover have "Suc k \<le> nat (sr_bytes_to_send sr)" using k(1) less' by linarith
    ultimately show ?thesis using k(3,4) by blast
  next
    case False
    have "write_events en 1 s = Some (Inr (if sr_close_now sr then -1 else 0, s'))"
      using h False by simp
    moreover have "1 \<le> nat (sr_bytes_to_send sr)" using n by linarith
    moreover have "sr_bytes_to_send sr' = 0" "sr_bytes_offset sr' = sr_bytes_offset sr + sr_bytes_to_send sr"
      using False n by (simp_all add: sr')
    ultimately show ?thesis using rl by blast
  qed
qed

text \<open>A file of 1000 bytes on a socket that takes 300 bytes at a time.\<close>

definition demo_slow :: env where
  "demo_slow = demo_env\<lparr>en_send_file := \<lambda>_ _ _ offset count. (min 300 count, offset + min 300 count)\<rparr>"

definition demo_sending :: session_request where
  "demo_sending = mk_request_init\<lparr>sr_fd_file := 9, sr_bytes_offset := 0, sr_bytes_to_send := 1000\<rparr>"

theorem write_events_finish_witness:
  "\<exists>k \<le> 1000. \<exists>s' sr'. write_events demo_slow k (demo_state demo_sending) = Some (Inr (0, s'))
    \<and> cs_request_list (rs_cs s') = [sr'] \<and> sr_bytes_to_send sr' = 0 \<and> sr_bytes_offset sr' = 1000"
proof -
  have p: "sendfile_progress demo_slow" by (auto simp: sendfile_progress_def demo_slow_def)
  have st: "stage_40 (en_stagemap demo_slow) = []" by (simp add: demo_slow_def demo_env_def)
  have s: "sending demo_sending (demo_state demo_sending)"
    by (simp add: sending_def demo_sending_def demo_state_def mk_request_init_def)
  have c: "\<not> sr_close_now demo_sending" by (simp add: demo_sending_def mk_request_init_def)
  have n: "sr_bytes_to_send demo_sending = 1000" "sr_bytes_offset demo_sending = 0" by (simp_all add: demo_sending_def)
  from write_events_finish [OF p st s] show ?thesis unfolding n using c by simp
qed

end
