(* ===== verification/Mk_Epoll.thy ===== *)
theory Mk_Epoll
  imports Mk_Prelude "HOL-Library.Word"
begin

unbundle bit_operations_syntax

text \<open>
  \<^verbatim>\<open>src/mk_epoll.c\<close>: the state every worker keeps for the descriptors in its epoll instance, and the
  calls that change the events a descriptor waits for. The event masks are 32-bit words; mode and
  behaviour are kept in 8 bits. A call of \<open>epoll_ctl\<close> is answered by an argument: the return value
  and whether \<open>errno\<close> is \<open>EEXIST\<close>.
\<close>

section \<open>Interface\<close>

text \<open>
  The contract of the tables a worker keeps per descriptor: an entry put for a key that has none is
  found under it, removing it takes it away, and other keys are not affected.
\<close>

locale fd_table =
  fixes inv :: "'t \<Rightarrow> bool" and get :: "'k \<Rightarrow> 't \<Rightarrow> 'v option"
    and ins :: "'k \<Rightarrow> 'a \<Rightarrow> 't \<Rightarrow> 't" and del :: "'k \<Rightarrow> 't \<Rightarrow> 't"
  assumes inv_ins: "inv t \<Longrightarrow> get k t = None \<Longrightarrow> inv (ins k a t)"
    and get_ins: "inv t \<Longrightarrow> get k t = None \<Longrightarrow> get k (ins k a t) \<noteq> None"
    and get_ins_other: "inv t \<Longrightarrow> get k t = None \<Longrightarrow> k' \<noteq> k \<Longrightarrow> get k' (ins k a t) = get k' t"
    and inv_del: "inv t \<Longrightarrow> inv (del k t)"
    and get_del: "inv t \<Longrightarrow> get k (del k t) = None"
    and get_del_other: "inv t \<Longrightarrow> k' \<noteq> k \<Longrightarrow> get k' (del k t) = get k' t"
begin

lemma dom_ins:
  assumes "inv t" "get k t = None"
  shows "{k'. get k' (ins k a t) \<noteq> None} = insert k {k'. get k' t \<noteq> None}"
proof (rule set_eqI)
  fix k'
  show "k' \<in> {k'. get k' (ins k a t) \<noteq> None} \<longleftrightarrow> k' \<in> insert k {k'. get k' t \<noteq> None}"
    using get_ins [OF assms] get_ins_other [OF assms] by (cases "k' = k") simp_all
qed

lemma dom_del:
  assumes "inv t"
  shows "{k'. get k' (del k t) \<noteq> None} = {k'. get k' t \<noteq> None} - {k}"
proof (rule set_eqI)
  fix k'
  show "k' \<in> {k'. get k' (del k t) \<noteq> None} \<longleftrightarrow> k' \<in> {k'. get k' t \<noteq> None} - {k}"
    using get_del [OF assms] get_del_other [OF assms] by (cases "k' = k") simp_all
qed

lemma dom_del_ins:
  assumes "inv t" "get k t = None"
  shows "{k'. get k' (del k (ins k a t)) \<noteq> None} = {k'. get k' t \<noteq> None}"
  using dom_del [OF inv_ins [OF assms]] dom_ins [OF assms] assms(2) by auto

end

section \<open>Constants\<close>

definition EPOLLIN :: "32 word" where "EPOLLIN = 0x001"
definition EPOLLOUT :: "32 word" where "EPOLLOUT = 0x004"
definition EPOLLERR :: "32 word" where "EPOLLERR = 0x008"
definition EPOLLHUP :: "32 word" where "EPOLLHUP = 0x010"
definition EPOLLRDHUP :: "32 word" where "EPOLLRDHUP = 0x2000"
definition EPOLLET :: "32 word" where "EPOLLET = 0x80000000"

datatype epoll_mode = MK_EPOLL_READ | MK_EPOLL_WRITE | MK_EPOLL_RW | MK_EPOLL_SLEEP | MK_EPOLL_WAKEUP

definition MK_EPOLL_LEVEL_TRIGGERED :: "32 word" where "MK_EPOLL_LEVEL_TRIGGERED = 2"
definition MK_EPOLL_EDGE_TRIGGERED :: "32 word" where "MK_EPOLL_EDGE_TRIGGERED = EPOLLET"

definition MK_EPOLL_STATE_INDEX_CHUNK :: nat where [mk_const]: "MK_EPOLL_STATE_INDEX_CHUNK = 64"

section \<open>The state index\<close>

record epoll_state =
  es_instance :: int
  es_fd :: int
  es_mode :: epoll_mode
  es_behavior :: "8 word"
  es_events :: "32 word"

text \<open>The two queues hold all entries ever allocated; entries keep their old contents when freed.\<close>

record epoll_state_index =
  ix_size :: nat
  ix_busy :: "epoll_state list"
  ix_av :: "epoll_state list"

definition zero_state :: epoll_state where
  "zero_state = \<lparr>es_instance = 0, es_fd = 0, es_mode = MK_EPOLL_READ, es_behavior = 0, es_events = 0\<rparr>"

definition mk_epoll_state_init :: epoll_state_index where
  "mk_epoll_state_init = \<lparr>ix_size = MK_EPOLL_STATE_INDEX_CHUNK, ix_busy = [],
     ix_av = replicate MK_EPOLL_STATE_INDEX_CHUNK zero_state\<rparr>"

definition es_is :: "int \<Rightarrow> int \<Rightarrow> epoll_state \<Rightarrow> bool" where
  "es_is efd fd e \<longleftrightarrow> es_instance e = efd \<and> es_fd e = fd"

fun update_first :: "('a \<Rightarrow> bool) \<Rightarrow> ('a \<Rightarrow> 'a) \<Rightarrow> 'a list \<Rightarrow> 'a list" where
  "update_first P f [] = []"
| "update_first P f (x # xs) = (if P x then f x # xs else x # update_first P f xs)"

text \<open>An empty queue of free entries grows by a chunk.\<close>

definition index_grow :: "epoll_state_index \<Rightarrow> epoll_state_index" where
  "index_grow ix =
     (if ix_av ix = [] then
        ix\<lparr>ix_av := replicate MK_EPOLL_STATE_INDEX_CHUNK zero_state, ix_size := ix_size ix + MK_EPOLL_STATE_INDEX_CHUNK\<rparr>
      else ix)"

text \<open>\<open>mk_epoll_state_set\<close>: outside a worker there is no index and nothing is done.\<close>

definition mk_epoll_state_set ::
  "int \<Rightarrow> int \<Rightarrow> epoll_mode \<Rightarrow> 8 word \<Rightarrow> 32 word \<Rightarrow> epoll_state_index \<Rightarrow> epoll_state_index" where
  "mk_epoll_state_set efd fd mode behavior events ix =
     (case find (es_is efd fd) (ix_busy ix) of
        None \<Rightarrow>
          let ix1 = index_grow ix;
              e = (hd (ix_av ix1))\<lparr>es_instance := efd, es_fd := fd, es_mode := mode,
                                    es_behavior := behavior, es_events := events\<rparr>
          in ix1\<lparr>ix_av := tl (ix_av ix1), ix_busy := ix_busy ix1 @ [e]\<rparr>
      | Some _ \<Rightarrow>
          ix\<lparr>ix_busy := update_first (es_is efd fd) (\<lambda>e.
               (if mode \<noteq> MK_EPOLL_SLEEP then e\<lparr>es_events := events, es_behavior := behavior\<rparr> else e)
                 \<lparr>es_mode := mode\<rparr>) (ix_busy ix)\<rparr>)"

definition mk_epoll_state_get :: "int \<Rightarrow> int \<Rightarrow> epoll_state_index \<Rightarrow> epoll_state option" where
  "mk_epoll_state_get efd fd ix = find (es_is efd fd) (ix_busy ix)"

fun remove_first :: "('a \<Rightarrow> bool) \<Rightarrow> 'a list \<Rightarrow> 'a list" where
  "remove_first P [] = []"
| "remove_first P (x # xs) = (if P x then xs else x # remove_first P xs)"

definition mk_epoll_state_del :: "int \<Rightarrow> int \<Rightarrow> epoll_state_index \<Rightarrow> int \<times> epoll_state_index" where
  "mk_epoll_state_del efd fd ix =
     (case find (es_is efd fd) (ix_busy ix) of
        None \<Rightarrow> (-1, ix)
      | Some e \<Rightarrow> (0, ix\<lparr>ix_busy := remove_first (es_is efd fd) (ix_busy ix), ix_av := ix_av ix @ [e]\<rparr>))"

section \<open>Calls\<close>

definition mode_events :: "epoll_mode \<Rightarrow> 32 word \<Rightarrow> 32 word" where
  "mode_events mode events =
     (case mode of
        MK_EPOLL_READ \<Rightarrow> events OR EPOLLIN
      | MK_EPOLL_WRITE \<Rightarrow> events OR EPOLLOUT
      | MK_EPOLL_RW \<Rightarrow> events OR EPOLLIN OR EPOLLOUT
      | MK_EPOLL_SLEEP \<Rightarrow> 0
      | MK_EPOLL_WAKEUP \<Rightarrow> events)"

text \<open>
  \<open>mk_epoll_add\<close>: the edge trigger is set before the mode, so sleeping clears it. The results are
  the return value, the mask given to \<open>epoll_ctl\<close> and the index (\<open>None\<close> outside a worker).
\<close>

definition mk_epoll_add ::
  "int \<times> bool \<Rightarrow> int \<Rightarrow> int \<Rightarrow> epoll_mode \<Rightarrow> 32 word \<Rightarrow> epoll_state_index option \<Rightarrow>
   int \<times> 32 word \<times> epoll_state_index option" where
  "mk_epoll_add ctl efd fd init_mode behavior ix =
     (let base = EPOLLERR OR EPOLLHUP OR EPOLLRDHUP;
          ev0 = (if behavior = MK_EPOLL_EDGE_TRIGGERED then base OR EPOLLET else base);
          ev = mode_events init_mode ev0; (ret, eexist) = ctl
      in if ret < 0 \<and> \<not> eexist then (ret, ev, ix)
         else (ret, ev, map_option (mk_epoll_state_set efd fd init_mode (ucast behavior) ev) ix))"

definition mk_epoll_del :: "int \<Rightarrow> int \<Rightarrow> int \<Rightarrow> epoll_state_index \<Rightarrow> int \<times> epoll_state_index" where
  "mk_epoll_del ctl efd fd ix = (ctl, snd (mk_epoll_state_del efd fd ix))"

text \<open>
  \<open>mk_epoll_change_mode\<close>: waking up restores the events kept in the state; without a sleeping
  state the server exits.
\<close>

definition mk_epoll_change_mode ::
  "int \<Rightarrow> int \<Rightarrow> int \<Rightarrow> epoll_mode \<Rightarrow> 32 word \<Rightarrow> epoll_state_index \<Rightarrow>
   cerr + int \<times> 32 word \<times> epoll_state_index" where
  "mk_epoll_change_mode ctl efd fd mode behavior ix =
     (let change = (\<lambda>ev0 beh.
        let ev = (if beh = MK_EPOLL_EDGE_TRIGGERED then ev0 OR EPOLLET else ev0)
        in Inr (ctl, ev, mk_epoll_state_set efd fd mode (ucast beh) ev ix))
      in if mode = MK_EPOLL_WAKEUP then
           (case mk_epoll_state_get efd fd ix of
              None \<Rightarrow> Inl ExitFailure
            | Some st \<Rightarrow>
                if es_mode st = MK_EPOLL_SLEEP then change (es_events st) (ucast (es_behavior st))
                else Inl ExitFailure)
         else change (mode_events mode (EPOLLERR OR EPOLLHUP)) behavior)"

section \<open>The index as a table\<close>

definition es_key :: "epoll_state \<Rightarrow> int \<times> int" where
  "es_key e = (es_instance e, es_fd e)"

definition index_wf :: "epoll_state_index \<Rightarrow> bool" where
  "index_wf ix \<longleftrightarrow> length (ix_busy ix) + length (ix_av ix) = ix_size ix \<and> distinct (map es_key (ix_busy ix))"

lemma es_is_key: "es_is efd fd e \<longleftrightarrow> es_key e = (efd, fd)"
  by (auto simp: es_is_def es_key_def)

lemma find_append: "find P (xs @ ys) = (case find P xs of None \<Rightarrow> find P ys | Some x \<Rightarrow> Some x)"
  by (induction xs) auto

lemma find_remove_first_other: "(\<And>x. P x \<Longrightarrow> \<not> Q x) \<Longrightarrow> find Q (remove_first P xs) = find Q xs"
  by (induction xs) auto

lemma find_update_first_other:
  "(\<And>x. P x \<Longrightarrow> \<not> Q x \<and> \<not> Q (f x)) \<Longrightarrow> find Q (update_first P f xs) = find Q xs"
  by (induction xs) auto

lemma find_update_first: "(\<And>x. P x \<Longrightarrow> P (f x)) \<Longrightarrow> find P (update_first P f xs) = map_option f (find P xs)"
  by (induction xs) auto

lemma map_update_first: "(\<And>x. P x \<Longrightarrow> g (f x) = g x) \<Longrightarrow> map g (update_first P f xs) = map g xs"
  by (induction xs) auto

lemma length_remove_first: "find P xs \<noteq> None \<Longrightarrow> Suc (length (remove_first P xs)) = length xs"
  by (induction xs) auto

lemma set_remove_first: "set (remove_first P xs) \<subseteq> set xs"
  by (induction xs) auto

lemma find_remove_first_distinct:
  assumes "distinct (map g xs)"
  shows "find (\<lambda>x. g x = k) (remove_first (\<lambda>x. g x = k) xs) = None"
    and "distinct (map g (remove_first (\<lambda>x. g x = k) xs))"
proof -
  show "find (\<lambda>x. g x = k) (remove_first (\<lambda>x. g x = k) xs) = None" using assms
  proof (induction xs)
    case (Cons a xs)
    then show ?case by (cases "g a = k") (auto simp: find_None_iff rev_image_eqI)
  qed simp
  show "distinct (map g (remove_first (\<lambda>x. g x = k) xs))" using assms
  proof (induction xs)
    case (Cons a xs)
    have "set (map g (remove_first (\<lambda>x. g x = k) xs)) \<subseteq> set (map g xs)" using set_remove_first by fastforce
    with Cons show ?case by auto
  qed simp
qed

lemma find_some_mem: "find P xs = Some x \<Longrightarrow> x \<in> set xs \<and> P x"
  by (auto simp: find_Some_iff)

lemma length_update_first [simp]: "length (update_first P f xs) = length xs"
  by (induction xs) auto

lemma index_grow_spec:
  "index_wf ix \<Longrightarrow> index_wf (index_grow ix) \<and> ix_av (index_grow ix) \<noteq> [] \<and> ix_busy (index_grow ix) = ix_busy ix"
  by (auto simp: index_grow_def index_wf_def MK_EPOLL_STATE_INDEX_CHUNK_def)

lemma state_set_new:
  assumes "index_wf ix" "mk_epoll_state_get efd fd ix = None"
  shows "\<exists>e. ix_busy (mk_epoll_state_set efd fd mode behavior events ix) = ix_busy ix @ [e]
    \<and> es_key e = (efd, fd) \<and> es_mode e = mode \<and> es_behavior e = behavior \<and> es_events e = events
    \<and> index_wf (mk_epoll_state_set efd fd mode behavior events ix)"
proof -
  obtain a as where av: "ix_av (index_grow ix) = a # as" using index_grow_spec [OF assms(1)] by (cases "ix_av (index_grow ix)") auto
  define e where "e = a\<lparr>es_instance := efd, es_fd := fd, es_mode := mode, es_behavior := behavior, es_events := events\<rparr>"
  have f: "find (es_is efd fd) (ix_busy ix) = None" using assms(2) by (simp add: mk_epoll_state_get_def)
  then have set: "mk_epoll_state_set efd fd mode behavior events ix =
      (index_grow ix)\<lparr>ix_av := as, ix_busy := ix_busy ix @ [e]\<rparr>"
    using index_grow_spec [OF assms(1)] by (simp add: mk_epoll_state_set_def av e_def Let_def)
  have "(efd, fd) \<notin> set (map es_key (ix_busy ix))" using f by (auto simp: find_None_iff es_is_key)
  then have "index_wf (mk_epoll_state_set efd fd mode behavior events ix)"
    using index_grow_spec [OF assms(1)] av unfolding set by (auto simp: index_wf_def e_def es_key_def)
  then show ?thesis using set by (auto simp: e_def es_key_def)
qed

lemma state_set_wf: "index_wf ix \<Longrightarrow> index_wf (mk_epoll_state_set efd fd mode behavior events ix)"
proof (cases "mk_epoll_state_get efd fd ix")
  case None
  then show "index_wf ix \<Longrightarrow> ?thesis" using state_set_new by blast
next
  case (Some e)
  then show "index_wf ix \<Longrightarrow> ?thesis"
    by (simp add: mk_epoll_state_get_def mk_epoll_state_set_def index_wf_def map_update_first es_key_def)
qed

interpretation epoll_tab: fd_table index_wf "\<lambda>(efd, fd). mk_epoll_state_get efd fd"
    "\<lambda>(efd, fd) (mode, behavior, events). mk_epoll_state_set efd fd mode behavior events"
    "\<lambda>(efd, fd) ix. snd (mk_epoll_state_del efd fd ix)"
proof (unfold_locales, goal_cases)
  case (1 ix k a)
  then show ?case by (auto intro: state_set_wf split: prod.split)
next
  case (2 ix k a)
  obtain efd fd mode behavior events where k: "k = (efd, fd)" "a = (mode, behavior, events)" by (cases k, cases a) auto
  obtain e where "ix_busy (mk_epoll_state_set efd fd mode behavior events ix) = ix_busy ix @ [e]" "es_key e = (efd, fd)"
    using state_set_new [of ix efd fd mode behavior events] 2 k by auto
  then show ?case using k by (auto simp: mk_epoll_state_get_def find_append es_is_key split: option.splits)
next
  case (3 ix k k' a)
  obtain efd fd mode behavior events where k: "k = (efd, fd)" "a = (mode, behavior, events)" by (cases k, cases a) auto
  obtain e where "ix_busy (mk_epoll_state_set efd fd mode behavior events ix) = ix_busy ix @ [e]" "es_key e = (efd, fd)"
    using state_set_new [of ix efd fd mode behavior events] 3 k by auto
  then show ?case using 3 k by (auto simp: mk_epoll_state_get_def find_append es_is_key split: option.splits prod.splits)
next
  case (4 ix k)
  obtain efd fd where k: "k = (efd, fd)" by (cases k)
  show ?case
  proof (cases "mk_epoll_state_get efd fd ix")
    case (Some e)
    have "distinct (map es_key (remove_first (es_is efd fd) (ix_busy ix)))"
      using find_remove_first_distinct(2) [of es_key "ix_busy ix" "(efd, fd)"] 4
      by (simp add: es_is_key [abs_def] index_wf_def)
    moreover have "Suc (length (remove_first (es_is efd fd) (ix_busy ix))) = length (ix_busy ix)"
      using Some by (intro length_remove_first) (simp add: mk_epoll_state_get_def)
    ultimately show ?thesis using Some 4 k by (simp add: mk_epoll_state_del_def mk_epoll_state_get_def index_wf_def)
  qed (use 4 k in \<open>simp add: mk_epoll_state_del_def mk_epoll_state_get_def\<close>)
next
  case (5 ix k)
  obtain efd fd where k: "k = (efd, fd)" by (cases k)
  have "find (es_is efd fd) (remove_first (es_is efd fd) (ix_busy ix)) = None"
    using find_remove_first_distinct(1) [of es_key "ix_busy ix" "(efd, fd)"] 5 by (simp add: es_is_key [abs_def] index_wf_def)
  then show ?case using k by (simp add: mk_epoll_state_del_def mk_epoll_state_get_def split: option.split)
next
  case (6 ix k' k)
  obtain efd fd efd' fd' where k: "k = (efd, fd)" "k' = (efd', fd')" by (cases k, cases k') auto
  have "find (es_is efd' fd') (remove_first (es_is efd fd) (ix_busy ix)) = find (es_is efd' fd') (ix_busy ix)"
    using 6 k by (intro find_remove_first_other) (auto simp: es_is_key)
  then show ?case using k by (simp add: mk_epoll_state_del_def mk_epoll_state_get_def split: option.split)
qed

section \<open>Sequences of operations\<close>

datatype index_op = ISet int int epoll_mode "8 word" "32 word" | IDel int int

fun index_run :: "index_op list \<Rightarrow> epoll_state_index \<Rightarrow> epoll_state_index" where
  "index_run [] ix = ix"
| "index_run (ISet efd fd m b ev # ops) ix = index_run ops (mk_epoll_state_set efd fd m b ev ix)"
| "index_run (IDel efd fd # ops) ix = index_run ops (snd (mk_epoll_state_del efd fd ix))"

fun index_keys :: "index_op list \<Rightarrow> (int \<times> int) set \<Rightarrow> (int \<times> int) set" where
  "index_keys [] K = K"
| "index_keys (ISet efd fd m b ev # ops) K = index_keys ops (insert (efd, fd) K)"
| "index_keys (IDel efd fd # ops) K = index_keys ops (K - {(efd, fd)})"

definition index_dom :: "epoll_state_index \<Rightarrow> (int \<times> int) set" where
  "index_dom ix = {k. mk_epoll_state_get (fst k) (snd k) ix \<noteq> None}"

lemma index_dom_busy: "index_dom ix = es_key ` set (ix_busy ix)"
proof (rule set_eqI)
  fix k
  have "k \<in> index_dom ix \<longleftrightarrow> \<not> (\<forall>x\<in>set (ix_busy ix). es_key x \<noteq> k)"
    by (cases k) (auto simp: index_dom_def mk_epoll_state_get_def find_None_iff es_is_key simp del: not_None_eq)
  then show "k \<in> index_dom ix \<longleftrightarrow> k \<in> es_key ` set (ix_busy ix)" by auto
qed

lemma state_set_dom:
  assumes "index_wf ix"
  shows "index_dom (mk_epoll_state_set efd fd m b ev ix) = insert (efd, fd) (index_dom ix)"
proof (cases "mk_epoll_state_get efd fd ix")
  case None
  with epoll_tab.dom_ins [OF assms, of "(efd, fd)" "(m, b, ev)"] show ?thesis by (simp add: index_dom_def case_prod_beta)
next
  case (Some e)
  let ?f = "\<lambda>e. (if m \<noteq> MK_EPOLL_SLEEP then e\<lparr>es_events := ev, es_behavior := b\<rparr> else e)\<lparr>es_mode := m\<rparr>"
  have k: "es_key (?f x) = es_key x" for x by (simp add: es_key_def)
  have "map es_key (update_first (es_is efd fd) ?f (ix_busy ix)) = map es_key (ix_busy ix)"
    by (rule map_update_first) (rule k)
  then have "set (map es_key (update_first (es_is efd fd) ?f (ix_busy ix))) = set (map es_key (ix_busy ix))" by (simp only:)
  then have "index_dom (mk_epoll_state_set efd fd m b ev ix) = index_dom ix"
    using Some by (simp add: index_dom_busy mk_epoll_state_set_def mk_epoll_state_get_def)
  moreover have "(efd, fd) \<in> index_dom ix" using Some by (simp add: index_dom_def)
  ultimately show ?thesis by auto
qed

lemma state_del_dom: "index_wf ix \<Longrightarrow> index_dom (snd (mk_epoll_state_del efd fd ix)) = index_dom ix - {(efd, fd)}"
  using epoll_tab.dom_del [of ix "(efd, fd)"] by (simp add: index_dom_def case_prod_beta)

lemma index_run_invariant:
  "index_wf ix \<Longrightarrow> index_wf (index_run ops ix) \<and> index_dom (index_run ops ix) = index_keys ops (index_dom ix)"
proof (induction ops ix rule: index_run.induct)
  case (1 ix)
  then show ?case by simp
next
  case (2 efd fd m b ev ops ix)
  then show ?case using state_set_wf state_set_dom by simp
next
  case (3 efd fd ops ix)
  then show ?case using epoll_tab.inv_del [of ix "(efd, fd)"] state_del_dom by simp
qed

text \<open>
  C29: A table that grows on demand. Starting from the initial index, whatever entries are set and
  deleted, the index stays well formed (the two queues hold exactly the allocated entries, no key
  twice), and the keys present are exactly those that were set after they were last deleted.
\<close>

theorem mk_epoll_index_invariant:
  "index_wf (index_run ops mk_epoll_state_init) \<and> index_dom (index_run ops mk_epoll_state_init) = index_keys ops {}"
proof -
  have "index_wf mk_epoll_state_init" "index_dom mk_epoll_state_init = {}"
    by (simp_all add: mk_epoll_state_init_def index_wf_def index_dom_def mk_epoll_state_get_def)
  then show ?thesis using index_run_invariant by simp
qed

section \<open>Sleeping and waking up\<close>

lemma state_set_get:
  assumes "index_wf ix"
  shows "\<exists>e. mk_epoll_state_get efd fd (mk_epoll_state_set efd fd m b ev ix) = Some e \<and> es_mode e = m
    \<and> (m \<noteq> MK_EPOLL_SLEEP \<longrightarrow> es_events e = ev \<and> es_behavior e = b)
    \<and> (m = MK_EPOLL_SLEEP \<longrightarrow> (case mk_epoll_state_get efd fd ix of None \<Rightarrow> es_events e = ev \<and> es_behavior e = b
         | Some e0 \<Rightarrow> es_events e = es_events e0 \<and> es_behavior e = es_behavior e0))"
proof (cases "mk_epoll_state_get efd fd ix")
  case None
  from state_set_new [OF assms None, of m b ev] obtain e where
    "ix_busy (mk_epoll_state_set efd fd m b ev ix) = ix_busy ix @ [e]" "es_key e = (efd, fd)" "es_mode e = m"
    "es_behavior e = b" "es_events e = ev" by blast
  then show ?thesis using None by (auto simp: mk_epoll_state_get_def find_append es_is_key)
next
  case (Some e0)
  let ?f = "\<lambda>e. (if m \<noteq> MK_EPOLL_SLEEP then e\<lparr>es_events := ev, es_behavior := b\<rparr> else e)\<lparr>es_mode := m\<rparr>"
  have "find (es_is efd fd) (update_first (es_is efd fd) ?f (ix_busy ix)) = map_option ?f (find (es_is efd fd) (ix_busy ix))"
    by (rule find_update_first) (simp add: es_is_def)
  then have "mk_epoll_state_get efd fd (mk_epoll_state_set efd fd m b ev ix) = Some (?f e0)"
    using Some by (simp add: mk_epoll_state_get_def mk_epoll_state_set_def)
  then show ?thesis using Some by (cases "m = MK_EPOLL_SLEEP") simp_all
qed

lemma ucast_8_not_edge: "ucast (w :: 8 word) \<noteq> MK_EPOLL_EDGE_TRIGGERED"
proof
  assume "ucast w = MK_EPOLL_EDGE_TRIGGERED"
  then have "unat (ucast w :: 32 word) = 2147483648" by (simp add: MK_EPOLL_EDGE_TRIGGERED_def EPOLLET_def)
  moreover have "unat (ucast w :: 32 word) \<le> unat w" by (simp add: unsigned_ucast_eq take_bit_nat_less_eq_self)
  moreover have "unat w < 2 ^ 8" using unsigned_less [of w, where 'a=nat] by simp
  ultimately show False by simp
qed

text \<open>
  C30: Sleep and wake up. When the events of a descriptor have been set in some mode and behaviour,
  putting it to sleep asks the kernel for no events, and waking it up asks for exactly the events it
  had before, even for the edge-triggered behaviour, which does not survive in the 8 bits kept of
  it; waking up a descriptor that does not sleep ends the server.
\<close>

theorem mk_epoll_sleep_wakeup:
  assumes "index_wf ix" "mode \<noteq> MK_EPOLL_WAKEUP" "mode \<noteq> MK_EPOLL_SLEEP"
    and "mk_epoll_change_mode c1 efd fd mode behavior ix = Inr (r1, ev1, ix1)"
    and "mk_epoll_change_mode c2 efd fd MK_EPOLL_SLEEP MK_EPOLL_LEVEL_TRIGGERED ix1 = Inr (r2, ev2, ix2)"
  shows "ev2 = 0 \<and> (\<exists>ix3. mk_epoll_change_mode c3 efd fd MK_EPOLL_WAKEUP b3 ix2 = Inr (c3, ev1, ix3))
    \<and> mk_epoll_change_mode c3 efd fd MK_EPOLL_WAKEUP b3 ix1 = Inl ExitFailure"
proof -
  have ev1: "ix1 = mk_epoll_state_set efd fd mode (ucast behavior) ev1 ix"
    and edge: "behavior = MK_EPOLL_EDGE_TRIGGERED \<Longrightarrow> ev1 = ev1 OR EPOLLET"
    using assms(2,4) by (auto simp: mk_epoll_change_mode_def Let_def or.assoc)
  obtain e1 where e1: "mk_epoll_state_get efd fd ix1 = Some e1" "es_mode e1 = mode" "es_events e1 = ev1"
      "es_behavior e1 = ucast behavior"
    using state_set_get [OF assms(1), of efd fd mode "ucast behavior" ev1] assms(3) ev1 by auto
  have wf1: "index_wf ix1" using ev1 state_set_wf assms(1) by simp
  have ev2: "ev2 = 0" "ix2 = mk_epoll_state_set efd fd MK_EPOLL_SLEEP (ucast MK_EPOLL_LEVEL_TRIGGERED) 0 ix1"
    using assms(5) by (auto simp: mk_epoll_change_mode_def mode_events_def Let_def MK_EPOLL_LEVEL_TRIGGERED_def
        MK_EPOLL_EDGE_TRIGGERED_def EPOLLET_def)
  obtain e2 where e2: "mk_epoll_state_get efd fd ix2 = Some e2" "es_mode e2 = MK_EPOLL_SLEEP"
      "es_events e2 = ev1" "es_behavior e2 = ucast behavior"
    using state_set_get [OF wf1, of efd fd MK_EPOLL_SLEEP "ucast MK_EPOLL_LEVEL_TRIGGERED" 0] e1 ev2 by auto
  have "(if ucast (ucast behavior :: 8 word) = MK_EPOLL_EDGE_TRIGGERED then ev1 OR EPOLLET else ev1) = ev1"
    using edge ucast_8_not_edge by simp
  then show ?thesis using e1 e2 ev2(1) assms(3) by (simp add: mk_epoll_change_mode_def Let_def)
qed

theorem mk_epoll_sleep_wakeup_witness:
  "\<exists>ev ix1 ix2 ix3. mk_epoll_change_mode 0 3 5 MK_EPOLL_READ MK_EPOLL_EDGE_TRIGGERED mk_epoll_state_init = Inr (0, ev, ix1)
     \<and> mk_epoll_change_mode 0 3 5 MK_EPOLL_SLEEP MK_EPOLL_LEVEL_TRIGGERED ix1 = Inr (0, 0, ix2)
     \<and> mk_epoll_change_mode 0 3 5 MK_EPOLL_WAKEUP MK_EPOLL_LEVEL_TRIGGERED ix2 = Inr (0, ev, ix3)"
proof -
  have wf: "index_wf mk_epoll_state_init" by (simp add: mk_epoll_state_init_def index_wf_def)
  obtain ev ix1 where 1: "mk_epoll_change_mode 0 3 5 MK_EPOLL_READ MK_EPOLL_EDGE_TRIGGERED mk_epoll_state_init = Inr (0, ev, ix1)"
    by (simp add: mk_epoll_change_mode_def Let_def)
  obtain ev2 ix2 where 2: "mk_epoll_change_mode 0 3 5 MK_EPOLL_SLEEP MK_EPOLL_LEVEL_TRIGGERED ix1 = Inr (0, ev2, ix2)"
    by (simp add: mk_epoll_change_mode_def Let_def)
  show ?thesis using mk_epoll_sleep_wakeup [OF wf _ _ 1 2, of 0 MK_EPOLL_LEVEL_TRIGGERED] 1 2 by auto
qed

end
