(* ===== verification/Mk_Scheduler.thy ===== *)
theory Mk_Scheduler
  imports Mk_Request Mk_Epoll
begin

text \<open>
  \<^verbatim>\<open>src/mk_scheduler.c\<close> and \<^verbatim>\<open>src/mk_server.c\<close>: the choice of the worker for a new connection, the two
  queues of connections of a worker, and the timeouts. The counters are 64-bit words. A worker is
  the state of its thread: its scheduler node, its epoll index, its sessions and its effects.
\<close>

section \<open>State\<close>

definition MK_SCHEDULER_CONN_AVAILABLE :: int where [mk_const]: "MK_SCHEDULER_CONN_AVAILABLE = -1"
definition MK_SCHEDULER_CONN_PENDING :: int where [mk_const]: "MK_SCHEDULER_CONN_PENDING = 0"
definition MK_SCHEDULER_CONN_PROCESS :: int where [mk_const]: "MK_SCHEDULER_CONN_PROCESS = 1"

record sched_connection =
  sc_socket :: int
  sc_status :: int
  sc_arrive_time :: int

record sched_list_node =
  sn_accepted :: "64 word"
  sn_closed :: "64 word"
  sn_busy :: "sched_connection list"
  sn_av :: "sched_connection list"
  sn_idx :: nat
  sn_epoll_fd :: int

record worker =
  wk_node :: sched_list_node
  wk_index :: epoll_state_index
  wk_sessions :: "client_session list"
  wk_events :: "(int \<times> plugin) list"
  wk_gmt :: "mk_gmt_cache list"
  wk_trace :: "effect list"

text \<open>
  What a worker is given: the environment of the requests, the plugins, and the answers of
  \<open>epoll_ctl\<close> (return value, and whether \<open>errno\<close> is \<open>EEXIST\<close>) and \<open>read\<close> to a call after a
  sequence of effects.
\<close>

record worker_env =
  we_env :: env
  we_plugins :: "plugin list"
  we_ctl :: "effect list \<Rightarrow> int \<Rightarrow> int \<Rightarrow> int \<times> bool"
  we_read :: "effect list \<Rightarrow> int \<Rightarrow> nat \<Rightarrow> read_result"

section \<open>Balancing\<close>

definition load :: "sched_list_node \<Rightarrow> 64 word" where
  "load n = sn_accepted n - sn_closed n"

text \<open>The loop over the workers from \<open>i\<close> on, with the best worker and its load so far.\<close>

fun target_loop :: "sched_list_node list \<Rightarrow> nat \<Rightarrow> nat \<Rightarrow> 64 word \<Rightarrow> nat \<times> 64 word" where
  "target_loop [] i target cur = (target, cur)"
| "target_loop (n # ns) i target cur =
     (if load n < cur then if load n = 0 then (i, load n) else target_loop ns (i + 1) i (load n)
      else target_loop ns (i + 1) target cur)"

definition next_target :: "64 word \<Rightarrow> sched_list_node list \<Rightarrow> int" where
  "next_target capacity nodes =
     (case nodes of
        [] \<Rightarrow> -1
      | n # ns \<Rightarrow>
          if load n = 0 then 0
          else let (target, cur) = target_loop ns 1 0 (load n) in
               if capacity \<le> cur then -1 else int target)"

text \<open>
  \<open>mk_sched_add_client\<close>, in the thread of the server loop: the chosen worker counts the connection
  when the descriptor could be added to its epoll instance. \<open>ctl\<close> is the answer of \<open>epoll_ctl\<close>.
\<close>

definition mk_sched_add_client ::
  "64 word \<Rightarrow> (int \<Rightarrow> int \<times> bool) \<Rightarrow> int \<Rightarrow> sched_list_node list \<Rightarrow> int \<times> sched_list_node list" where
  "mk_sched_add_client capacity ctl remote_fd nodes =
     (let t = next_target capacity nodes in
      if t = -1 then (-1, nodes)
      else
        let n = nodes ! nat t;
            (r, ev, ix) = mk_epoll_add (ctl (sn_epoll_fd n)) (sn_epoll_fd n) remote_fd MK_EPOLL_READ
                            MK_EPOLL_LEVEL_TRIGGERED None
        in if r = 0 then (r, nodes[nat t := n\<lparr>sn_accepted := sn_accepted n + 1\<rparr>]) else (r, nodes))"

text \<open>\<open>mk_server_worker_capacity\<close>: unsigned arithmetic, so a small limit wraps around.\<close>

definition mk_server_worker_capacity :: "32 word \<Rightarrow> 16 word \<Rightarrow> 32 word" where
  "mk_server_worker_capacity limit nworkers =
     (let avl = limit - (3 + 1 + ucast nworkers + 1 + 2) in (avl div 2) div ucast nworkers)"

text \<open>\<open>mk_sched_init\<close> and \<open>mk_sched_register_thread\<close>: the nodes, and the queue of free connections.\<close>

definition zero_node :: sched_list_node where
  "zero_node = \<lparr>sn_accepted = 0, sn_closed = 0, sn_busy = [], sn_av = [], sn_idx = 0, sn_epoll_fd = 0\<rparr>"

definition mk_sched_init :: "nat \<Rightarrow> sched_list_node list" where
  "mk_sched_init nworkers = replicate nworkers zero_node"

definition free_connection :: sched_connection where
  "free_connection = \<lparr>sc_socket = -1, sc_status = MK_SCHEDULER_CONN_AVAILABLE, sc_arrive_time = 0\<rparr>"

definition mk_sched_register_thread :: "nat \<Rightarrow> nat \<Rightarrow> int \<Rightarrow> sched_list_node list \<Rightarrow> sched_list_node list" where
  "mk_sched_register_thread capacity wid efd nodes =
     nodes[wid := (nodes ! wid)\<lparr>sn_idx := wid, sn_epoll_fd := efd, sn_busy := [],
                    sn_av := replicate capacity free_connection\<rparr>]"

section \<open>Connections of a worker\<close>

definition mk_sched_get_connection :: "int \<Rightarrow> sched_list_node \<Rightarrow> sched_connection option" where
  "mk_sched_get_connection remote_fd n = find (\<lambda>c. sc_socket c = remote_fd) (sn_busy n)"

text \<open>The queue operations of registering and removing a client.\<close>

definition node_take :: "int \<Rightarrow> int \<Rightarrow> sched_list_node \<Rightarrow> sched_list_node" where
  "node_take remote_fd now n =
     n\<lparr>sn_av := tl (sn_av n),
       sn_busy := sn_busy n @ [(hd (sn_av n))\<lparr>sc_socket := remote_fd, sc_status := MK_SCHEDULER_CONN_PENDING,
                                              sc_arrive_time := now\<rparr>]\<rparr>"

definition node_release :: "int \<Rightarrow> sched_list_node \<Rightarrow> sched_list_node" where
  "node_release remote_fd n =
     (case mk_sched_get_connection remote_fd n of
        None \<Rightarrow> n
      | Some c \<Rightarrow>
          n\<lparr>sn_closed := sn_closed n + 1,
            sn_busy := remove_first (\<lambda>c. sc_socket c = remote_fd) (sn_busy n),
            sn_av := sn_av n @ [c\<lparr>sc_status := MK_SCHEDULER_CONN_AVAILABLE, sc_socket := -1\<rparr>]\<rparr>)"

text \<open>An effect of the worker.\<close>

definition wemit :: "effect \<Rightarrow> worker \<Rightarrow> worker" where
  "wemit e w = w\<lparr>wk_trace := wk_trace w @ [e]\<rparr>"

definition mk_sched_remove_client :: "worker_env \<Rightarrow> int \<Rightarrow> worker \<Rightarrow> int \<times> worker" where
  "mk_sched_remove_client we remote_fd w =
     (let (r, ix) = mk_epoll_del (fst (we_ctl we (wk_trace w) 2 remote_fd)) (sn_epoll_fd (wk_node w)) remote_fd (wk_index w);
          w1 = wemit (EClose remote_fd) (wemit (EEpollCtl 2 remote_fd 0) (w\<lparr>wk_index := ix\<rparr>))
      in case mk_sched_get_connection remote_fd (wk_node w1) of
           None \<Rightarrow> (-1, w1)
         | Some c \<Rightarrow>
             (0, (wemit (EStage50 remote_fd) w1)\<lparr>wk_node := node_release remote_fd (wk_node w1)\<rparr>))"

definition mk_conn_close :: "worker_env \<Rightarrow> int \<Rightarrow> worker \<Rightarrow> int \<times> worker" where
  "mk_conn_close we socket w =
     (let ret = mk_plugin_event_close (wk_events w) (we_plugins we) socket in
      if ret = MK_PLUGIN_RET_EVENT_OWNED then (MK_PLUGIN_RET_CONTINUE, w)
      else if ret = MK_PLUGIN_RET_EVENT_CLOSE then (-1, w)
      else (0, snd (mk_sched_remove_client we socket w)))"

text \<open>
  \<open>mk_sched_register_client\<close>: with no free connection the first entry of the empty queue is the
  queue itself.
\<close>

definition mk_sched_register_client :: "worker_env \<Rightarrow> int \<Rightarrow> worker \<Rightarrow> cerr + int \<times> worker" where
  "mk_sched_register_client we remote_fd w =
     (if stage10_run (stage_10 (en_stagemap (we_env we))) remote_fd = MK_PLUGIN_RET_CLOSE_CONX
      then Inr (-1, snd (mk_conn_close we remote_fd w))
      else if sn_av (wk_node w) = [] then Inl OutOfBounds
      else Inr (0, w\<lparr>wk_node := node_take remote_fd (en_now (we_env we)) (wk_node w)\<rparr>))"

definition mk_sched_update_conn_status :: "int \<Rightarrow> int \<Rightarrow> sched_list_node \<Rightarrow> int \<times> sched_list_node" where
  "mk_sched_update_conn_status remote_fd status n =
     (case mk_sched_get_connection remote_fd n of
        None \<Rightarrow> (-1, n)
      | Some c \<Rightarrow> (0, n\<lparr>sn_busy := update_first (\<lambda>c. sc_socket c = remote_fd) (\<lambda>c. c\<lparr>sc_status := status\<rparr>) (sn_busy n)\<rparr>))"

section \<open>Timeouts\<close>

text \<open>
  The two loops of \<open>mk_sched_check_timeouts\<close>, over the entries that were in the lists when the
  loop reached them: the body only removes the current entry. Sums of times are \<open>int\<close> values.
\<close>

definition conn_expired :: "env \<Rightarrow> sched_connection \<Rightarrow> bool" where
  "conn_expired en c \<longleftrightarrow> sc_status c = MK_SCHEDULER_CONN_PENDING
     \<and> int32 (sc_arrive_time c + timeout (en_config en)) \<le> en_now en"

fun timeout_conns :: "worker_env \<Rightarrow> sched_connection list \<Rightarrow> worker \<Rightarrow> worker" where
  "timeout_conns we [] w = w"
| "timeout_conns we (c # cs) w =
     timeout_conns we cs (if conn_expired (we_env we) c then snd (mk_sched_remove_client we (sc_socket c) w) else w)"

definition session_expired :: "env \<Rightarrow> client_session \<Rightarrow> bool" where
  "session_expired en cs \<longleftrightarrow> cs_status cs = MK_REQUEST_STATUS_INCOMPLETE
     \<and> int32 (cs_init_time cs + (if cs_counter_connections cs = 0 then timeout (en_config en)
                                 else keep_alive_timeout (en_config en))) \<le> en_now en"

fun timeout_sessions :: "worker_env \<Rightarrow> client_session list \<Rightarrow> worker \<Rightarrow> worker" where
  "timeout_sessions we [] w = w"
| "timeout_sessions we (cs # css) w =
     timeout_sessions we css
       (if session_expired (we_env we) cs then
          let w1 = snd (mk_sched_remove_client we (cs_socket cs) w)
          in w1\<lparr>wk_sessions := mk_session_remove (cs_socket cs) (wk_sessions w1)\<rparr>
        else w)"

definition mk_sched_check_timeouts :: "worker_env \<Rightarrow> worker \<Rightarrow> worker" where
  "mk_sched_check_timeouts we w =
     (let w1 = timeout_conns we (sn_busy (wk_node w)) w in timeout_sessions we (wk_sessions w1) w1)"

section \<open>The tables of a worker\<close>

text \<open>The sessions and the busy connections of a worker keep the contract of a table by descriptor.\<close>

lemma mk_session_remove_first: "mk_session_remove k ss = remove_first (\<lambda>cs. cs_socket cs = k) ss"
  by (induction ss) auto

interpretation sessions: fd_table "\<lambda>ss. distinct (map cs_socket ss)" mk_session_get
    "\<lambda>k t ss. snd (mk_session_create k (Some t) ss)" mk_session_remove
proof unfold_locales
  fix ss :: "client_session list" and k t k'
  assume inv: "distinct (map cs_socket ss)"
  show "distinct (map cs_socket (mk_session_remove k ss))"
    and "mk_session_get k (mk_session_remove k ss) = None"
    using find_remove_first_distinct [OF inv, of k] by (simp_all add: mk_session_remove_first mk_session_get_def)
  show "mk_session_get k' (mk_session_remove k ss) = mk_session_get k' ss" if "k' \<noteq> k"
    unfolding mk_session_remove_first mk_session_get_def using that by (intro find_remove_first_other) simp
  assume none: "mk_session_get k ss = None"
  then show "distinct (map cs_socket (snd (mk_session_create k (Some t) ss)))" using inv
    by (auto simp: mk_session_create_def mk_session_get_def find_None_iff new_session_def)
  show "mk_session_get k (snd (mk_session_create k (Some t) ss)) \<noteq> None" using none
    by (simp add: mk_session_create_def mk_session_get_def find_append new_session_def)
  show "mk_session_get k' (snd (mk_session_create k (Some t) ss)) = mk_session_get k' ss" if "k' \<noteq> k"
    using that by (simp add: mk_session_create_def mk_session_get_def find_append new_session_def split: option.split)
qed

lemma node_release_None: "mk_sched_get_connection k n = None \<Longrightarrow> node_release k n = n"
  by (simp add: node_release_def)

lemma node_release_Some:
  "mk_sched_get_connection k n = Some c \<Longrightarrow>
   sn_busy (node_release k n) = remove_first (\<lambda>c. sc_socket c = k) (sn_busy n)
   \<and> length (sn_av (node_release k n)) = Suc (length (sn_av n))
   \<and> load (node_release k n) = load n - 1"
  by (simp add: node_release_def load_def)

lemma remove_first_None: "find P xs = None \<Longrightarrow> remove_first P xs = xs"
  by (induction xs) (auto split: if_splits)

lemma node_release_busy: "sn_busy (node_release k n) = remove_first (\<lambda>c. sc_socket c = k) (sn_busy n)"
  by (cases "mk_sched_get_connection k n")
    (auto simp: node_release_def mk_sched_get_connection_def remove_first_None)

lemma node_take_busy:
  "\<exists>c. sn_busy (node_take k now n) = sn_busy n @ [c] \<and> sc_socket c = k
     \<and> sc_status c = MK_SCHEDULER_CONN_PENDING \<and> sc_arrive_time c = now"
  by (simp add: node_take_def)

interpretation conns: fd_table "\<lambda>n. distinct (map sc_socket (sn_busy n))" mk_sched_get_connection
    node_take node_release
proof unfold_locales
  fix n :: sched_list_node and k now k'
  assume inv: "distinct (map sc_socket (sn_busy n))"
  show "distinct (map sc_socket (sn_busy (node_release k n)))"
    and "mk_sched_get_connection k (node_release k n) = None"
    using find_remove_first_distinct [OF inv, of k] by (simp_all add: node_release_busy mk_sched_get_connection_def)
  show "mk_sched_get_connection k' (node_release k n) = mk_sched_get_connection k' n" if "k' \<noteq> k"
    unfolding node_release_busy mk_sched_get_connection_def using that by (intro find_remove_first_other) simp
  assume none: "mk_sched_get_connection k n = None"
  then show "distinct (map sc_socket (sn_busy (node_take k now n)))" using inv
    by (auto simp: node_take_def mk_sched_get_connection_def find_None_iff)
  show "mk_sched_get_connection k (node_take k now n) \<noteq> None" using none
    by (simp add: node_take_def mk_sched_get_connection_def find_append)
  show "mk_sched_get_connection k' (node_take k now n) = mk_sched_get_connection k' n" if "k' \<noteq> k"
    using that by (simp add: node_take_def mk_sched_get_connection_def find_append split: option.split)
qed

section \<open>The choice of a worker\<close>

text \<open>The first worker of least load.\<close>

definition first_least :: "nat \<Rightarrow> sched_list_node list \<Rightarrow> bool" where
  "first_least t ns \<longleftrightarrow> t < length ns \<and> (\<forall>j < length ns. load (ns ! t) \<le> load (ns ! j))
     \<and> (\<forall>j < t. load (ns ! t) < load (ns ! j))"

lemma first_least_keep:
  assumes "first_least t ns" "load (ns ! t) \<le> load n"
  shows "first_least t (ns @ [n])"
  using assms unfolding first_least_def by (simp add: nth_append less_Suc_eq)

lemma first_least_new:
  assumes "first_least t ns" "load n < load (ns ! t)"
  shows "first_least (length ns) (ns @ [n])"
  using assms unfolding first_least_def by (auto simp: nth_append less_Suc_eq intro: less_le_trans)

lemma first_least_zero:
  assumes "first_least t ns" "load (ns ! t) = 0"
  shows "first_least t (ns @ ms)"
  using assms unfolding first_least_def by (auto simp: nth_append)

lemma target_loop_least:
  assumes "target_loop ns (length pre) t c = (t', c')" "first_least t pre" "c = load (pre ! t)"
  shows "first_least t' (pre @ ns) \<and> c' = load ((pre @ ns) ! t')"
  using assms
proof (induction ns arbitrary: pre t c)
  case (Cons n ns)
  have t: "t < length pre" using Cons(3) by (simp add: first_least_def)
  consider "load n < c" "load n = 0" | "load n < c" "load n \<noteq> 0" | "\<not> load n < c" by blast
  then show ?case
  proof cases
    case 1
    with Cons(2) have "t' = length pre" "c' = load n" by auto
    moreover have "first_least (length pre) ((pre @ [n]) @ ns)"
      by (rule first_least_zero) (use first_least_new [OF Cons(3)] 1 Cons(4) in \<open>simp_all add: nth_append\<close>)
    ultimately show ?thesis by (simp add: nth_append)
  next
    case 2
    with Cons(2) have "target_loop ns (length (pre @ [n])) (length pre) (load n) = (t', c')" by simp
    moreover have "first_least (length pre) (pre @ [n])" by (rule first_least_new [OF Cons(3)]) (use 2(1) Cons(4) in simp)
    ultimately have "first_least t' ((pre @ [n]) @ ns) \<and> c' = load (((pre @ [n]) @ ns) ! t')"
      by (rule Cons(1)) simp
    then show ?thesis by simp
  next
    case 3
    with Cons(2) have "target_loop ns (length (pre @ [n])) t c = (t', c')" by simp
    moreover have "first_least t (pre @ [n])" by (rule first_least_keep [OF Cons(3)]) (use 3 Cons(4) in simp)
    ultimately have "first_least t' ((pre @ [n]) @ ns) \<and> c' = load (((pre @ [n]) @ ns) ! t')"
      by (rule Cons(1)) (use t Cons(4) in \<open>simp add: nth_append\<close>)
    then show ?thesis by simp
  qed
qed auto

lemma next_target_cases:
  assumes "ns \<noteq> []" "0 < capacity"
  obtains t where "first_least t ns"
    "next_target capacity ns = (if load (ns ! t) < capacity then int t else -1)"
proof (cases ns)
  case (Cons n ms)
  have one: "first_least 0 [n]" by (simp add: first_least_def)
  show ?thesis
  proof (cases "load n = 0")
    case True
    with that [of 0] first_least_zero [OF one, of ms] assms(2) Cons show ?thesis
      by (simp add: next_target_def word_gt_0)
  next
    case False
    obtain t c where l: "target_loop ms 1 0 (load n) = (t, c)" by fastforce
    have "first_least t ([n] @ ms) \<and> c = load (([n] @ ms) ! t)"
      by (rule target_loop_least [OF _ one]) (use l in simp_all)
    then have "first_least t ns \<and> load (ns ! t) = c" unfolding Cons by simp
    moreover have "next_target capacity ns = (if c < capacity then int t else -1)"
    proof -
      have "next_target capacity ns = (if capacity \<le> c then -1 else int t)"
        unfolding next_target_def Cons list.case l by (simp only: False if_False Let_def prod.case)
      then show ?thesis by (cases "capacity \<le> c") (simp_all add: not_le)
    qed
    ultimately show ?thesis using that [of t] by simp
  qed
qed (use assms in simp)

text \<open>
  The scheduler balances. With at least one worker and a positive capacity, the worker chosen
  for a new connection is the first one of least load, its load is below the capacity, and no
  worker is chosen exactly when every worker is full.
\<close>

theorem next_target_balances:
  assumes "ns \<noteq> []" "0 < capacity"
  shows "(\<exists>n \<in> set ns. load n < capacity) \<and>
           (\<exists>t. next_target capacity ns = int t \<and> first_least t ns \<and> load (ns ! t) < capacity)
       \<or> (\<forall>n \<in> set ns. capacity \<le> load n) \<and> next_target capacity ns = -1"
proof -
  obtain t where t: "first_least t ns"
    "next_target capacity ns = (if load (ns ! t) < capacity then int t else -1)"
    using next_target_cases [OF assms] .
  from t(1) have least: "t < length ns" "\<And>n. n \<in> set ns \<Longrightarrow> load (ns ! t) \<le> load n"
    by (auto simp: first_least_def in_set_conv_nth)
  show ?thesis
  proof (cases "load (ns ! t) < capacity")
    case True
    with t least(1) nth_mem [OF least(1)] show ?thesis by auto
  next
    case False
    then have "capacity \<le> load n" if "n \<in> set ns" for n using least(2) [OF that] by (meson not_less order_trans)
    with t(2) False show ?thesis by simp
  qed
qed

definition demo_nodes :: "sched_list_node list" where
  "demo_nodes = [zero_node\<lparr>sn_accepted := 5, sn_closed := 2\<rparr>, zero_node\<lparr>sn_accepted := 7, sn_closed := 6\<rparr>,
                 zero_node\<lparr>sn_accepted := 1\<rparr>]"

theorem next_target_balances_witness:
  "demo_nodes \<noteq> [] \<and> next_target 4 demo_nodes = 1 \<and> first_least 1 demo_nodes"
proof -
  have ne: "demo_nodes \<noteq> []" by (simp add: demo_nodes_def)
  have n: "next_target 4 demo_nodes = 1" by (code_simp)
  with next_target_balances [OF ne, of 4] have "first_least 1 demo_nodes" by auto
  with ne n show ?thesis by simp
qed

section \<open>What a timeout removes\<close>

text \<open>The descriptors a sequence of effects closes.\<close>

fun closes :: "effect list \<Rightarrow> int list" where
  "closes [] = []"
| "closes (EClose fd # es) = fd # closes es"
| "closes (_ # es) = closes es"

lemma closes_append [simp]: "closes (es @ fs) = closes es @ closes fs"
  by (induction es rule: closes.induct) auto

lemma remove_client_node: "wk_node (snd (mk_sched_remove_client we fd w)) = node_release fd (wk_node w)"
  by (simp add: mk_sched_remove_client_def wemit_def Let_def node_release_None split: prod.split option.split)

lemma remove_client_sessions [simp]: "wk_sessions (snd (mk_sched_remove_client we fd w)) = wk_sessions w"
  by (simp add: mk_sched_remove_client_def wemit_def Let_def split: prod.split option.split)

lemma remove_client_closes: "closes (wk_trace (snd (mk_sched_remove_client we fd w))) = closes (wk_trace w) @ [fd]"
  by (simp add: mk_sched_remove_client_def wemit_def Let_def split: prod.split option.split)

lemmas remove_client_simps = remove_client_node remove_client_closes

definition expired_conns :: "env \<Rightarrow> sched_connection list \<Rightarrow> int list" where
  "expired_conns en cs = map sc_socket (filter (conn_expired en) cs)"

definition expired_sessions :: "env \<Rightarrow> client_session list \<Rightarrow> int list" where
  "expired_sessions en css = map cs_socket (filter (session_expired en) css)"

lemma timeout_conns_eq:
  shows "wk_node (timeout_conns we cs w) = fold node_release (expired_conns (we_env we) cs) (wk_node w)"
    and "closes (wk_trace (timeout_conns we cs w)) = closes (wk_trace w) @ expired_conns (we_env we) cs"
    and "wk_sessions (timeout_conns we cs w) = wk_sessions w"
  by (induction cs arbitrary: w) (simp_all add: expired_conns_def remove_client_simps)

lemma timeout_sessions_eq:
  shows "wk_node (timeout_sessions we css w) = fold node_release (expired_sessions (we_env we) css) (wk_node w)"
    and "closes (wk_trace (timeout_sessions we css w)) = closes (wk_trace w) @ expired_sessions (we_env we) css"
    and "wk_sessions (timeout_sessions we css w) = fold mk_session_remove (expired_sessions (we_env we) css) (wk_sessions w)"
  by (induction css arbitrary: w) (simp_all add: expired_sessions_def remove_client_simps Let_def)

lemma remove_first_filter:
  "distinct (map g xs) \<Longrightarrow> remove_first (\<lambda>x. g x = k) xs = filter (\<lambda>x. g x \<noteq> k) xs"
proof (induction xs)
  case (Cons a xs)
  then have "filter (\<lambda>x. g x \<noteq> g a) xs = xs" by (intro filter_True) (auto simp: rev_image_eqI)
  with Cons show ?case by auto
qed simp

lemma fold_session_remove:
  "distinct (map cs_socket ss) \<Longrightarrow> fold mk_session_remove ks ss = filter (\<lambda>cs. cs_socket cs \<notin> set ks) ss"
proof (induction ks arbitrary: ss)
  case (Cons k ks)
  then show ?case
    by (simp add: mk_session_remove_first remove_first_filter distinct_map_filter conj_commute)
qed simp

lemma node_release_measures:
  assumes "distinct (map sc_socket (sn_busy n))"
  shows "sn_busy (node_release k n) = filter (\<lambda>c. sc_socket c \<noteq> k) (sn_busy n)"
    and "length (sn_busy (node_release k n)) + length (sn_av (node_release k n)) = length (sn_busy n) + length (sn_av n)"
    and "load (node_release k n) - of_nat (length (sn_busy (node_release k n))) = load n - of_nat (length (sn_busy n))"
    and "length (sn_busy (node_release k n)) \<le> length (sn_busy n)"
proof -
  show b: "sn_busy (node_release k n) = filter (\<lambda>c. sc_socket c \<noteq> k) (sn_busy n)"
    by (simp add: node_release_busy remove_first_filter [OF assms])
  show le: "length (sn_busy (node_release k n)) \<le> length (sn_busy n)" by (simp add: b)
  have "length (sn_busy (node_release k n)) + length (sn_av (node_release k n)) = length (sn_busy n) + length (sn_av n)
    \<and> load (node_release k n) - of_nat (length (sn_busy (node_release k n))) = load n - of_nat (length (sn_busy n))"
  proof (cases "mk_sched_get_connection k n")
    case (Some c)
    with length_remove_first [of "\<lambda>c. sc_socket c = k" "sn_busy n"]
    have "length (sn_busy n) = Suc (length (sn_busy (node_release k n)))"
      by (simp add: node_release_busy mk_sched_get_connection_def)
    with node_release_Some [OF Some] show ?thesis by simp
  qed (simp add: node_release_None)
  then show "length (sn_busy (node_release k n)) + length (sn_av (node_release k n)) = length (sn_busy n) + length (sn_av n)"
    and "load (node_release k n) - of_nat (length (sn_busy (node_release k n))) = load n - of_nat (length (sn_busy n))" by blast+
qed

lemma fold_release:
  assumes "distinct (map sc_socket (sn_busy n))"
  shows "sn_busy (fold node_release ks n) = filter (\<lambda>c. sc_socket c \<notin> set ks) (sn_busy n)
    \<and> length (sn_busy (fold node_release ks n)) + length (sn_av (fold node_release ks n)) = length (sn_busy n) + length (sn_av n)
    \<and> load (fold node_release ks n) - of_nat (length (sn_busy (fold node_release ks n))) = load n - of_nat (length (sn_busy n))
    \<and> length (sn_busy (fold node_release ks n)) \<le> length (sn_busy n)"
  using assms
proof (induction ks arbitrary: n)
  case (Cons k ks)
  note m = node_release_measures [OF Cons(2), of k]
  have "distinct (map sc_socket (sn_busy (node_release k n)))" by (rule conns.inv_del [OF Cons(2)])
  note ih = Cons(1) [OF this]
  have l: "load (fold node_release ks (node_release k n)) - of_nat (length (sn_busy (fold node_release ks (node_release k n))))
      = load n - of_nat (length (sn_busy n))"
    using trans [OF conjunct1 [OF conjunct2 [OF conjunct2 [OF ih]]] m(3)] .
  have b: "sn_busy (fold node_release ks (node_release k n)) = filter (\<lambda>c. sc_socket c \<notin> set (k # ks)) (sn_busy n)"
    using conjunct1 [OF ih] by (simp add: m(1) conj_commute)
  show ?case unfolding fold_simps by (intro conjI b l) (use ih m in linarith)+
qed simp

text \<open>
  C12: a timeout check removes exactly what has expired. In a worker whose tables hold a descriptor
  once each, \<open>mk_sched_check_timeouts\<close> keeps the connections that neither are pending past their
  time nor belong to a session that is incomplete past its time, and the sessions that are not
  expired; every removed connection goes back to the free queue and is counted as closed. The
  descriptors closed are those of the expired connections and then those of the expired sessions:
  a descriptor that is in both lists is closed twice.
\<close>

theorem mk_sched_check_timeouts_exact:
  assumes "distinct (map sc_socket (sn_busy (wk_node w)))" "distinct (map cs_socket (wk_sessions w))"
    and cs: "cs = expired_conns (we_env we) (sn_busy (wk_node w))"
    and ss: "ss = expired_sessions (we_env we) (wk_sessions w)"
    and w': "w' = mk_sched_check_timeouts we w"
  shows "sn_busy (wk_node w') = filter (\<lambda>c. sc_socket c \<notin> set cs \<union> set ss) (sn_busy (wk_node w))
    \<and> wk_sessions w' = filter (\<lambda>s. \<not> session_expired (we_env we) s) (wk_sessions w)
    \<and> length (sn_av (wk_node w')) + length (sn_busy (wk_node w')) = length (sn_av (wk_node w)) + length (sn_busy (wk_node w))
    \<and> load (wk_node w') - of_nat (length (sn_busy (wk_node w'))) = load (wk_node w) - of_nat (length (sn_busy (wk_node w)))
    \<and> closes (wk_trace w') = closes (wk_trace w) @ cs @ ss"
proof (intro conjI)
  have n: "wk_node w' = fold node_release (cs @ ss) (wk_node w)"
    unfolding w' cs ss mk_sched_check_timeouts_def Let_def timeout_sessions_eq timeout_conns_eq by simp
  note r = fold_release [OF assms(1), of "cs @ ss", folded n]
  from r show "sn_busy (wk_node w') = filter (\<lambda>c. sc_socket c \<notin> set cs \<union> set ss) (sn_busy (wk_node w))" by simp
  from r show "length (sn_av (wk_node w')) + length (sn_busy (wk_node w')) = length (sn_av (wk_node w)) + length (sn_busy (wk_node w))"
    by linarith
  from r show "load (wk_node w') - of_nat (length (sn_busy (wk_node w'))) = load (wk_node w) - of_nat (length (sn_busy (wk_node w)))"
    by blast
  show "closes (wk_trace w') = closes (wk_trace w) @ cs @ ss"
    unfolding w' cs ss mk_sched_check_timeouts_def Let_def timeout_sessions_eq timeout_conns_eq by simp
  have "wk_sessions w' = filter (\<lambda>s. cs_socket s \<notin> set ss) (wk_sessions w)"
    unfolding w' ss mk_sched_check_timeouts_def Let_def timeout_sessions_eq timeout_conns_eq
    by (rule fold_session_remove [OF assms(2)])
  also have "\<dots> = filter (\<lambda>s. \<not> session_expired (we_env we) s) (wk_sessions w)"
    using assms(2) by (intro filter_cong) (auto simp: ss expired_sessions_def inj_on_eq_iff distinct_map)
  finally show "wk_sessions w' = filter (\<lambda>s. \<not> session_expired (we_env we) s) (wk_sessions w)" .
qed


text \<open>A slow client: connected and partly heard at 900, checked at 1000 with a timeout of 15.\<close>

definition demo_worker :: worker where
  "demo_worker = \<lparr>wk_node = zero_node\<lparr>sn_accepted := 2,
       sn_busy := [free_connection\<lparr>sc_socket := 7, sc_status := MK_SCHEDULER_CONN_PENDING, sc_arrive_time := 900\<rparr>,
                   free_connection\<lparr>sc_socket := 8, sc_status := MK_SCHEDULER_CONN_PENDING, sc_arrive_time := 990\<rparr>]\<rparr>,
     wk_index = mk_epoll_state_init, wk_sessions = [new_session 7 900], wk_events = [], wk_gmt = [], wk_trace = []\<rparr>"

definition demo_worker_env :: worker_env where
  "demo_worker_env = \<lparr>we_env = demo_env, we_plugins = [], we_ctl = (\<lambda>_ _ _. (0, False)), we_read = (\<lambda>_ _ _. RAgain)\<rparr>"

theorem mk_sched_check_timeouts_exact_witness:
  "map sc_socket (sn_busy (wk_node (mk_sched_check_timeouts demo_worker_env demo_worker))) = [8]
   \<and> closes (wk_trace (mk_sched_check_timeouts demo_worker_env demo_worker)) = [7, 7]"
proof -
  let ?cs = "expired_conns (we_env demo_worker_env) (sn_busy (wk_node demo_worker))"
  let ?ss = "expired_sessions (we_env demo_worker_env) (wk_sessions demo_worker)"
  have d: "distinct (map sc_socket (sn_busy (wk_node demo_worker)))" "distinct (map cs_socket (wk_sessions demo_worker))"
    by (simp_all add: demo_worker_def new_session_def)
  have e: "?cs = [7]" "?ss = [7]" by code_simp+
  have t: "closes (wk_trace demo_worker) = []" by (simp add: demo_worker_def)
  have b: "map sc_socket (filter (\<lambda>c. sc_socket c \<notin> {7}) (sn_busy (wk_node demo_worker))) = [8]" by (simp add: demo_worker_def)
  from mk_sched_check_timeouts_exact [OF d refl refl refl, of demo_worker_env] show ?thesis
    unfolding e t using b by simp
qed

end
