(* ===== verification/Mk_Connection.thy ===== *)
theory Mk_Connection
  imports Mk_Scheduler
begin

text \<open>
  \<^verbatim>\<open>src/mk_connection.c\<close>, the end of a request (\<^verbatim>\<open>src/mk_http.c\<close>) and the event loop of a worker
  (\<open>mk_epoll_init\<close> in \<^verbatim>\<open>src/mk_epoll.c\<close>). A handler returns its result and the state of the worker, or
  the error of a call that is undefined in C.
\<close>

unbundle bit_operations_syntax

section \<open>Handlers\<close>

text \<open>A request handler, run on the session of a socket.\<close>

definition on_session :: "'a action \<Rightarrow> int \<Rightarrow> worker \<Rightarrow> cerr + 'a \<times> worker" where
  "on_session m socket w =
     (case mk_session_get socket (wk_sessions w) of
        None \<Rightarrow> Inl NullDeref
      | Some cs \<Rightarrow>
          bindE (m \<lparr>rs_cs = cs, rs_gmt = wk_gmt w, rs_trace = wk_trace w\<rparr>) (\<lambda>(x, s).
            Inr (x, w\<lparr>wk_sessions := update_first (\<lambda>c. cs_socket c = socket) (\<lambda>_. rs_cs s) (wk_sessions w),
                      wk_gmt := rs_gmt s, wk_trace := rs_trace s\<rparr>)))"

definition put_session :: "client_session \<Rightarrow> worker \<Rightarrow> worker" where
  "put_session cs w =
     w\<lparr>wk_sessions := update_first (\<lambda>c. cs_socket c = cs_socket cs) (\<lambda>_. cs) (wk_sessions w)\<rparr>"

definition drop_session :: "int \<Rightarrow> worker \<Rightarrow> worker" where
  "drop_session socket w = w\<lparr>wk_sessions := mk_session_remove socket (wk_sessions w)\<rparr>"

text \<open>A change of the events a socket waits for; 3 is \<open>EPOLL_CTL_MOD\<close>.\<close>

definition change_mode :: "worker_env \<Rightarrow> int \<Rightarrow> epoll_mode \<Rightarrow> worker \<Rightarrow> cerr + worker" where
  "change_mode we socket mode w =
     bindE (mk_epoll_change_mode (fst (we_ctl we (wk_trace w) 3 socket)) (sn_epoll_fd (wk_node w)) socket mode
              MK_EPOLL_LEVEL_TRIGGERED (wk_index w))
       (\<lambda>(r, ev, ix). Inr (wemit (EEpollCtl 3 socket (unat ev)) (w\<lparr>wk_index := ix\<rparr>)))"

text \<open>The second half of \<open>mk_conn_read\<close>: the data of a client with a session.\<close>

definition conn_receive :: "worker_env \<Rightarrow> int \<Rightarrow> worker \<Rightarrow> cerr + int \<times> worker" where
  "conn_receive we socket w =
     (let config = en_config (we_env we);
          left = (case mk_session_get socket (wk_sessions w) of
                    None \<Rightarrow> 0 | Some cs \<Rightarrow> room cs - cs_body_length cs)
      in bindE (on_session (mk_handler_read (we_env we) (we_read we (wk_trace w) socket left)) socket w)
           (\<lambda>((ret, removed), w1).
             if removed then Inr (ret, drop_session socket w1)
             else if 0 < ret then
               (case mk_session_get socket (wk_sessions w1) of
                  None \<Rightarrow> Inl NullDeref
                | Some cs \<Rightarrow>
                    let (p, cs1) = mk_http_pending_request config cs; w2 = put_session cs1 w1 in
                    if p = 0 then bindE (change_mode we socket MK_EPOLL_WRITE w2) (\<lambda>w3. Inr (ret, w3))
                    else if nat (max_request_size config mod 2 ^ 32) \<le> cs_body_length cs1 + 1
                    then Inr (-1, drop_session socket w2)
                    else Inr (ret, w2))
             else Inr (ret, w1)))"

definition mk_conn_read :: "worker_env \<Rightarrow> int \<Rightarrow> worker \<Rightarrow> cerr + int \<times> worker" where
  "mk_conn_read we socket w =
     (let ret = mk_plugin_event_read (wk_events w) (we_plugins we) socket in
      if ret = MK_PLUGIN_RET_EVENT_OWNED then Inr (MK_PLUGIN_RET_CONTINUE, w)
      else if ret = MK_PLUGIN_RET_EVENT_CLOSE then Inr (-1, w)
      else
        (case mk_session_get socket (wk_sessions w) of
           Some cs \<Rightarrow> conn_receive we socket w
         | None \<Rightarrow>
             (case mk_sched_get_connection socket (wk_node w) of
                None \<Rightarrow>
                  bindE (mk_sched_register_client we socket w) (\<lambda>(r, w1).
                    if r = -1 then Inr (-1, w1)
                    else Inr (0, w1\<lparr>wk_index := mk_epoll_state_set (sn_epoll_fd (wk_node w1)) socket MK_EPOLL_READ
                           (ucast MK_EPOLL_LEVEL_TRIGGERED) (EPOLLERR OR EPOLLHUP OR EPOLLRDHUP OR EPOLLIN) (wk_index w1)\<rparr>))
              | Some c \<Rightarrow>
                  conn_receive we socket
                    (w\<lparr>wk_sessions := snd (mk_session_create socket (Some (sc_arrive_time c)) (wk_sessions w))\<rparr>))))"

text \<open>\<open>mk_http_request_end\<close>: the files of the requests are closed; the connection goes on or not.\<close>

definition mk_http_request_end :: "worker_env \<Rightarrow> int \<Rightarrow> worker \<Rightarrow> cerr + int \<times> worker" where
  "mk_http_request_end we socket w =
     (case mk_session_get socket (wk_sessions w) of
        None \<Rightarrow> Inr (-1, w)
      | Some cs \<Rightarrow>
          let ka = mk_http_keepalive_check (en_config (we_env we)) cs;
              (es, cs1) = mk_request_free_list cs;
              w1 = w\<lparr>wk_trace := wk_trace w @ es\<rparr>
          in if ka < 0 then Inr (-1, drop_session socket (put_session cs1 w1))
             else bindE (change_mode we socket MK_EPOLL_READ
                           (put_session (mk_request_ka_next (en_now (we_env we)) cs1) w1))
                    (\<lambda>w2. Inr (0, w2)))"

definition mk_conn_write :: "worker_env \<Rightarrow> int \<Rightarrow> worker \<Rightarrow> cerr + int \<times> worker" where
  "mk_conn_write we socket w =
     (let ret = mk_plugin_event_write (wk_events w) (we_plugins we) socket in
      if ret = MK_PLUGIN_RET_EVENT_OWNED then Inr (MK_PLUGIN_RET_CONTINUE, w)
      else if ret = MK_PLUGIN_RET_EVENT_CLOSE then Inr (-1, w)
      else
        let w1 = w\<lparr>wk_node := snd (mk_sched_update_conn_status socket MK_SCHEDULER_CONN_PROCESS (wk_node w))\<rparr> in
        (case mk_session_get socket (wk_sessions w1) of
           None \<Rightarrow> Inr (0, w1)
         | Some _ \<Rightarrow>
             bindE (on_session (mk_handler_write (we_env we)) socket w1) (\<lambda>(r, w2).
               if r < 0 then
                 (case mk_session_get socket (wk_sessions w2) of
                    None \<Rightarrow> Inl NullDeref
                  | Some cs \<Rightarrow>
                      let (es, cs1) = mk_request_free_list cs in
                      Inr (-1, drop_session socket (put_session cs1 (w2\<lparr>wk_trace := wk_trace w2 @ es\<rparr>))))
               else if r = 0 then mk_http_request_end we socket w2
               else Inr (0, w2))))"

definition mk_conn_error :: "worker_env \<Rightarrow> int \<Rightarrow> worker \<Rightarrow> int \<times> worker" where
  "mk_conn_error we socket w =
     (let ret = mk_plugin_event_error (wk_events w) (we_plugins we) socket in
      if ret = MK_PLUGIN_RET_EVENT_OWNED then (MK_PLUGIN_RET_CONTINUE, w)
      else if ret = MK_PLUGIN_RET_EVENT_CLOSE then (-1, w)
      else
        let w1 = snd (mk_sched_remove_client we socket w) in
        (0, if mk_session_get socket (wk_sessions w1) \<noteq> None then drop_session socket w1 else w1))"

definition mk_conn_timeout :: "worker_env \<Rightarrow> int \<Rightarrow> worker \<Rightarrow> int \<times> worker" where
  "mk_conn_timeout we socket w =
     (let ret = mk_plugin_event_timeout (wk_events w) (we_plugins we) socket in
      if ret = MK_PLUGIN_RET_EVENT_OWNED then (MK_PLUGIN_RET_CONTINUE, w)
      else if ret = MK_PLUGIN_RET_EVENT_CLOSE then (-1, w)
      else (0, mk_sched_check_timeouts we w))"

section \<open>The event loop\<close>

text \<open>
  One event: the first kind of event in the mask decides. \<open>ret\<close> keeps the result of the event
  before when the mask has none of them. A negative result closes the connection.
\<close>

definition epoll_event :: "worker_env \<Rightarrow> int \<times> 32 word \<Rightarrow> int \<Rightarrow> worker \<Rightarrow> cerr + int \<times> worker" where
  "epoll_event we ev ret w =
     (let (fd, events) = ev in
      bindE (if events AND EPOLLIN \<noteq> 0 then mk_conn_read we fd w
             else if events AND EPOLLOUT \<noteq> 0 then mk_conn_write we fd w
             else if events AND (EPOLLHUP OR EPOLLERR OR EPOLLRDHUP) \<noteq> 0 then Inr (mk_conn_error we fd w)
             else Inr (ret, w))
        (\<lambda>(r, w1). Inr (r, if r < 0 then snd (mk_conn_close we fd w1) else w1)))"

fun epoll_events :: "worker_env \<Rightarrow> (int \<times> 32 word) list \<Rightarrow> int \<Rightarrow> worker \<Rightarrow> cerr + worker" where
  "epoll_events we [] ret w = Inr w"
| "epoll_events we (ev # evs) ret w =
     bindE (epoll_event we ev ret w) (\<lambda>(r, w1). epoll_events we evs r w1)"

text \<open>The timeouts are checked when the clock has reached \<open>fds_timeout\<close>, once per round of events.\<close>

definition epoll_round :: "worker_env \<Rightarrow> (int \<times> 32 word) list \<Rightarrow> int \<times> worker \<Rightarrow> cerr + int \<times> worker" where
  "epoll_round we evs st =
     (let (fds_timeout, w) = st; en = we_env we in
      bindE (epoll_events we evs (-1) w) (\<lambda>w1.
        if fds_timeout \<le> en_now en
        then Inr (int32 (en_now en + timeout (en_config en)), mk_sched_check_timeouts we w1)
        else Inr (fds_timeout, w1)))"

text \<open>\<open>mk_epoll_init\<close> for a finite number of rounds, each with the environment of its time.\<close>

fun mk_epoll_init :: "(worker_env \<times> (int \<times> 32 word) list) list \<Rightarrow> int \<times> worker \<Rightarrow> cerr + int \<times> worker" where
  "mk_epoll_init [] st = Inr st"
| "mk_epoll_init ((we, evs) # rounds) st = bindE (epoll_round we evs st) (mk_epoll_init rounds)"

section \<open>The end of a request\<close>

lemma session_get_put:
  "mk_session_get k ss = Some cs \<Longrightarrow> cs_socket cs' = k \<Longrightarrow>
   mk_session_get k (update_first (\<lambda>c. cs_socket c = k) (\<lambda>_. cs') ss) = Some cs'"
  unfolding mk_session_get_def by (subst find_update_first) auto

lemma session_put_sockets:
  "cs_socket cs = k \<Longrightarrow> map cs_socket (update_first (\<lambda>c. cs_socket c = k) (\<lambda>_. cs) ss) = map cs_socket ss"
  by (rule map_update_first) simp

lemma session_get_socket: "mk_session_get k ss = Some cs \<Longrightarrow> cs_socket cs = k"
  unfolding mk_session_get_def by (blast dest: find_some_mem)

lemma request_files_closes:
  "closes (concat (map mk_request_free rs)) = map sr_fd_file (filter (\<lambda>r. 0 < sr_fd_file r) rs)"
  by (induction rs) (auto simp: mk_request_free_def)

lemma change_mode_spec:
  assumes "mode \<noteq> MK_EPOLL_WAKEUP" "index_wf (wk_index w)"
  obtains w' where "change_mode we k mode w = Inr w'" "wk_sessions w' = wk_sessions w"
    "closes (wk_trace w') = closes (wk_trace w)" "index_wf (wk_index w')"
    "map_option es_mode (mk_epoll_state_get (sn_epoll_fd (wk_node w)) k (wk_index w')) = Some mode"
proof -
  let ?efd = "sn_epoll_fd (wk_node w)"
  obtain c ev b where c: "mk_epoll_change_mode (fst (we_ctl we (wk_trace w) 3 k)) ?efd k mode MK_EPOLL_LEVEL_TRIGGERED (wk_index w)
      = Inr (c, ev, mk_epoll_state_set ?efd k mode b ev (wk_index w))"
    using assms(1) by (simp add: mk_epoll_change_mode_def Let_def)
  obtain e where "mk_epoll_state_get ?efd k (mk_epoll_state_set ?efd k mode b ev (wk_index w)) = Some e" "es_mode e = mode"
    using state_set_get [OF assms(2), of ?efd k mode b ev] by blast
  moreover have "change_mode we k mode w = Inr (wemit (EEpollCtl 3 k (unat ev))
      (w\<lparr>wk_index := mk_epoll_state_set ?efd k mode b ev (wk_index w)\<rparr>))"
    unfolding change_mode_def bindE_def c by simp
  ultimately show ?thesis using that state_set_wf [OF assms(2), of ?efd k mode b ev] by (simp add: wemit_def)
qed

text \<open>
  C11: the end of a request. In a worker whose session table holds a descriptor once, the end of the
  request closes the file of every request of the session that has one open, once and in order. If
  the connection can be kept alive, the result is 0, the session is empty and ready for the next
  request, one more request is counted, and the socket waits for reading; if not, the result is -1
  and the session is gone.
\<close>

theorem mk_http_request_end_correct:
  assumes "distinct (map cs_socket (wk_sessions w))" "index_wf (wk_index w)"
    and get: "mk_session_get k (wk_sessions w) = Some cs"
    and "ka = mk_http_keepalive_check (en_config (we_env we)) cs"
  shows "\<exists>w'. mk_http_request_end we k w = Inr (if ka < 0 then -1 else 0, w')
    \<and> closes (wk_trace w') = closes (wk_trace w) @ map sr_fd_file (filter (\<lambda>r. 0 < sr_fd_file r) (cs_request_list cs))
    \<and> (if ka < 0 then mk_session_get k (wk_sessions w') = None
       else (\<exists>cs'. mk_session_get k (wk_sessions w') = Some cs' \<and> cs_request_list cs' = [] \<and> cs_body_length cs' = 0
               \<and> cs_status cs' = MK_REQUEST_STATUS_INCOMPLETE \<and> cs_body_pos_end cs' = -1
               \<and> cs_counter_connections cs' = cs_counter_connections cs + 1)
          \<and> map_option es_mode (mk_epoll_state_get (sn_epoll_fd (wk_node w)) k (wk_index w')) = Some MK_EPOLL_READ)"
proof -
  have sock: "cs_socket cs = k" by (rule session_get_socket [OF get])
  define w1 where "w1 = w\<lparr>wk_trace := wk_trace w @ concat (map mk_request_free (cs_request_list cs))\<rparr>"
  define cs1 where "cs1 = cs\<lparr>cs_request_list := []\<rparr>"
  have tr: "closes (wk_trace w1) = closes (wk_trace w) @ map sr_fd_file (filter (\<lambda>r. 0 < sr_fd_file r) (cs_request_list cs))"
    by (simp add: w1_def request_files_closes)
  have step: "mk_http_request_end we k w =
      (if ka < 0 then Inr (-1, drop_session k (put_session cs1 w1))
       else bindE (change_mode we k MK_EPOLL_READ (put_session (mk_request_ka_next (en_now (we_env we)) cs1) w1)) (\<lambda>w2. Inr (0, w2)))"
    by (simp add: mk_http_request_end_def get assms(4) mk_request_free_list_def w1_def cs1_def)
  show ?thesis
  proof (cases "ka < 0")
    case True
    have "distinct (map cs_socket (wk_sessions (put_session cs1 w1)))"
      using assms(1) session_put_sockets [of cs1 k] sock by (simp add: put_session_def w1_def cs1_def)
    from sessions.get_del [OF this, of k] True step tr show ?thesis by (simp add: drop_session_def put_session_def)
  next
    case False
    define cs2 where "cs2 = mk_request_ka_next (en_now (we_env we)) cs1"
    have s2: "cs_socket cs2 = k" by (simp add: cs2_def cs1_def mk_request_ka_next_def sock)
    have wf: "index_wf (wk_index (put_session cs2 w1))" using assms(2) by (simp add: put_session_def w1_def)
    obtain w2 where w2: "change_mode we k MK_EPOLL_READ (put_session cs2 w1) = Inr w2"
      "wk_sessions w2 = wk_sessions (put_session cs2 w1)" "closes (wk_trace w2) = closes (wk_trace (put_session cs2 w1))"
      "map_option es_mode (mk_epoll_state_get (sn_epoll_fd (wk_node (put_session cs2 w1))) k (wk_index w2)) = Some MK_EPOLL_READ"
      using change_mode_spec [OF _ wf] epoll_mode.distinct by metis
    have "mk_session_get k (wk_sessions w2) = Some cs2"
      using session_get_put [OF get s2] w2(2) s2 by (simp add: put_session_def w1_def)
    moreover have "cs_request_list cs2 = [] \<and> cs_body_length cs2 = 0 \<and> cs_status cs2 = MK_REQUEST_STATUS_INCOMPLETE
        \<and> cs_body_pos_end cs2 = -1 \<and> cs_counter_connections cs2 = cs_counter_connections cs + 1"
      by (simp add: cs2_def cs1_def mk_request_ka_next_def)
    moreover have "mk_http_request_end we k w = Inr (0, w2)"
      unfolding step cs2_def [symmetric] using False w2(1) by (simp add: bindE_def)
    moreover have "closes (wk_trace w2) = closes (wk_trace w1)" using w2(3) by (simp add: put_session_def)
    moreover have "sn_epoll_fd (wk_node (put_session cs2 w1)) = sn_epoll_fd (wk_node w)" by (simp add: put_session_def w1_def)
    ultimately show ?thesis using False w2(4) tr by simp
  qed
qed


definition demo_served :: client_session where
  "demo_served = (new_session 7 900)\<lparr>cs_request_list :=
     [mk_request_init\<lparr>sr_fd_file := 9, sr_keep_alive := True, sr_protocol := HTTP_PROTOCOL_11\<rparr>]\<rparr>"

theorem mk_http_request_end_correct_witness:
  "\<exists>w'. mk_http_request_end demo_worker_env 7 (demo_worker\<lparr>wk_sessions := [demo_served]\<rparr>) = Inr (0, w')
    \<and> closes (wk_trace w') = [9]"
proof -
  let ?w = "demo_worker\<lparr>wk_sessions := [demo_served]\<rparr>"
  have d: "distinct (map cs_socket (wk_sessions ?w))" by simp
  have wf: "index_wf (wk_index ?w)" by (simp add: demo_worker_def index_wf_def mk_epoll_state_init_def)
  have g: "mk_session_get 7 (wk_sessions ?w) = Some demo_served"
    by (simp add: mk_session_get_def demo_served_def new_session_def)
  have ka: "mk_http_keepalive_check (en_config (we_env demo_worker_env)) demo_served = 0" by code_simp
  have f: "map sr_fd_file (filter (\<lambda>r. 0 < sr_fd_file r) (cs_request_list demo_served)) = [9]"
    by (simp add: demo_served_def)
  have t: "closes (wk_trace ?w) = []" by (simp add: demo_worker_def)
  from mk_http_request_end_correct [OF d wf g refl, of demo_worker_env] show ?thesis
    unfolding ka f t by auto
qed

end
