(* ===== verification/Mk_Capacity.thy ===== *)
theory Mk_Capacity
  imports Mk_Connection
begin

text \<open>
  The server as a system of workers: the server loop hands accepted sockets to the workers, each
  worker handles events on the sockets it knows and checks its timeouts. The scheduler never runs
  out of free connections.
\<close>

section \<open>What a node keeps\<close>

text \<open>
  For a capacity and a number of sockets that were handed over and not registered yet.
\<close>

definition node_inv :: "64 word \<Rightarrow> nat \<Rightarrow> sched_list_node \<Rightarrow> bool" where
  "node_inv cap p n \<longleftrightarrow> distinct (map sc_socket (sn_busy n))
     \<and> length (sn_busy n) + length (sn_av n) = unat cap
     \<and> length (sn_busy n) + p \<le> unat (load n) \<and> load n \<le> cap"

lemma node_inv_mono: "node_inv cap p n \<Longrightarrow> q \<le> p \<Longrightarrow> node_inv cap q n"
  by (simp add: node_inv_def)

lemma unat_pred: "0 < unat (x :: 64 word) \<Longrightarrow> unat (x - 1) = unat x - 1"
  by (simp add: unat_minus_one unat_gt_0)

lemma unat_succ:
  assumes "(x :: 64 word) < y"
  shows "unat (x + 1) = Suc (unat x)" "x + 1 \<le> y"
proof -
  have "unat x < unat y" "unat y < 2 ^ 64" using assms unsigned_less [of y] by (simp_all add: word_less_nat_alt)
  then have "unat x + 1 < 2 ^ 64" by linarith
  then show "unat (x + 1) = Suc (unat x)" by (simp add: unat_word_ariths)
  then show "x + 1 \<le> y" using assms by (simp add: word_less_nat_alt word_le_nat_alt)
qed

lemma node_inv_release:
  assumes "node_inv cap p n"
  shows "node_inv cap p (node_release k n)"
proof (cases "mk_sched_get_connection k n")
  case (Some c)
  have d: "distinct (map sc_socket (sn_busy n))" using assms by (simp add: node_inv_def)
  have b: "Suc (length (sn_busy (node_release k n))) = length (sn_busy n)"
    using Some length_remove_first [of "\<lambda>c. sc_socket c = k" "sn_busy n"]
    by (simp add: node_release_busy mk_sched_get_connection_def)
  have pos: "0 < unat (load n)" using assms b by (simp add: node_inv_def)
  have l: "unat (load (node_release k n)) = unat (load n) - 1"
    using node_release_Some [OF Some] unat_pred [OF pos] by simp
  moreover have "unat (load n) \<le> unat cap" using assms by (simp add: node_inv_def word_le_nat_alt)
  ultimately have "load (node_release k n) \<le> cap" unfolding word_le_nat_alt by linarith
  moreover have "length (sn_busy (node_release k n)) + p \<le> unat (load (node_release k n))"
    using b l assms unfolding node_inv_def by linarith
  ultimately show ?thesis using conns.inv_del [OF d, of k] node_release_measures(2) [OF d, of k] assms
    unfolding node_inv_def by simp
qed (use assms in \<open>simp add: node_release_None\<close>)

lemma node_inv_take:
  assumes inv: "node_inv cap (Suc p) n" and new: "mk_sched_get_connection k n = None"
  shows "sn_av n \<noteq> []" and "node_inv cap p (node_take k now n)"
proof -
  have d: "distinct (map sc_socket (sn_busy n))" using inv by (simp add: node_inv_def)
  have "length (sn_busy n) < unat cap" using inv by (simp add: node_inv_def word_le_nat_alt)
  moreover have "length (sn_busy n) + length (sn_av n) = unat cap" using inv by (simp add: node_inv_def)
  ultimately have "0 < length (sn_av n)" by linarith
  then show "sn_av n \<noteq> []" by simp
  moreover have "load (node_take k now n) = load n" by (simp add: node_take_def load_def)
  moreover have "length (sn_busy (node_take k now n)) = Suc (length (sn_busy n))"
    "length (sn_av (node_take k now n)) = length (sn_av n) - 1" by (simp_all add: node_take_def)
  ultimately show "node_inv cap p (node_take k now n)" using inv conns.inv_ins [OF d new, of now]
    unfolding node_inv_def by (auto simp: neq_Nil_conv)
qed

lemma node_inv_status:
  assumes "node_inv cap p n"
  shows "node_inv cap p (snd (mk_sched_update_conn_status k st n))"
proof (cases "mk_sched_get_connection k n")
  case (Some c)
  have "map sc_socket (update_first (\<lambda>c. sc_socket c = k) (\<lambda>c. c\<lparr>sc_status := st\<rparr>) (sn_busy n)) = map sc_socket (sn_busy n)"
    by (rule map_update_first) simp
  with Some assms show ?thesis by (simp add: mk_sched_update_conn_status_def node_inv_def load_def)
qed (use assms in \<open>simp add: mk_sched_update_conn_status_def\<close>)

lemma fold_inv: "(\<And>x s. P s \<Longrightarrow> P (f x s)) \<Longrightarrow> P s \<Longrightarrow> P (fold f xs s)"
  by (induction xs arbitrary: s) auto

lemma node_inv_timeouts:
  "node_inv cap p (wk_node w) \<Longrightarrow> node_inv cap p (wk_node (mk_sched_check_timeouts we w))"
  unfolding mk_sched_check_timeouts_def Let_def timeout_sessions_eq timeout_conns_eq
  by (rule fold_inv, erule node_inv_release, rule fold_inv, erule node_inv_release)

text \<open>Accepting a connection adds to the load of one worker below capacity.\<close>

lemma node_inv_accept:
  assumes "node_inv cap p n" "load n < cap"
  shows "node_inv cap (Suc p) (n\<lparr>sn_accepted := sn_accepted n + 1\<rparr>)"
proof -
  have "load (n\<lparr>sn_accepted := sn_accepted n + 1\<rparr>) = load n + 1" by (simp add: load_def)
  with unat_succ [OF assms(2)] assms(1) show ?thesis by (simp add: node_inv_def)
qed

section \<open>What the handlers do to a node\<close>

lemma on_session_node: "on_session m k w = Inr (x, w') \<Longrightarrow> wk_node w' = wk_node w \<and> wk_events w' = wk_events w"
  by (auto simp: on_session_def bindE_def split: option.splits sum.splits)

lemma change_mode_node: "change_mode we k mode w = Inr w' \<Longrightarrow> wk_node w' = wk_node w \<and> wk_events w' = wk_events w"
  by (auto simp: change_mode_def bindE_def wemit_def split: sum.splits)

lemma drop_put_node [simp]:
  "wk_node (drop_session k w) = wk_node w" "wk_node (put_session cs w) = wk_node w"
  by (simp_all add: drop_session_def put_session_def)

lemma conn_receive_node:
  assumes "conn_receive we k w = Inr (r, w')"
  shows "wk_node w' = wk_node w"
  using assms unfolding conn_receive_def Let_def bindE_def
  by (auto split: sum.splits if_splits option.splits prod.splits dest!: on_session_node change_mode_node)

lemma request_end_node:
  assumes "mk_http_request_end we k w = Inr (r, w')"
  shows "wk_node w' = wk_node w"
  using assms unfolding mk_http_request_end_def Let_def bindE_def
  by (auto split: sum.splits if_splits option.splits prod.splits dest!: change_mode_node)

lemma conn_close_node:
  "wk_node (snd (mk_conn_close we k w)) = wk_node w \<or> wk_node (snd (mk_conn_close we k w)) = node_release k (wk_node w)"
  by (simp add: mk_conn_close_def Let_def remove_client_node)

lemma conn_error_node:
  "wk_node (snd (mk_conn_error we k w)) = wk_node w \<or> wk_node (snd (mk_conn_error we k w)) = node_release k (wk_node w)"
  by (simp add: mk_conn_error_def Let_def remove_client_node)

lemma conn_write_inv:
  assumes "mk_conn_write we k w = Inr (r, w')" "node_inv cap p (wk_node w)"
  shows "node_inv cap p (wk_node w')"
proof -
  have "wk_node w' = wk_node w \<or> wk_node w' = snd (mk_sched_update_conn_status k MK_SCHEDULER_CONN_PROCESS (wk_node w))"
    using assms(1) unfolding mk_conn_write_def Let_def bindE_def
    by (auto split: sum.splits if_splits option.splits prod.splits dest!: on_session_node request_end_node)
  with assms(2) node_inv_status show ?thesis by auto
qed


text \<open>Whether a plugin takes the read event of a socket away from the server.\<close>

definition taken :: "worker_env \<Rightarrow> worker \<Rightarrow> int \<Rightarrow> bool" where
  "taken we w fd \<longleftrightarrow> mk_plugin_event_read (wk_events w) (we_plugins we) fd
     \<in> {MK_PLUGIN_RET_EVENT_OWNED, MK_PLUGIN_RET_EVENT_CLOSE}"

definition registered :: "worker \<Rightarrow> int \<Rightarrow> bool" where
  "registered w fd \<longleftrightarrow> mk_sched_get_connection fd (wk_node w) \<noteq> None"

lemma conn_read_node:
  assumes "mk_conn_read we k w = Inr (r, w')"
  obtains "wk_node w' = wk_node w" | "wk_node w' = node_release k (wk_node w)"
    | now where "\<not> taken we w k" "\<not> registered w k" "wk_node w' = node_take k now (wk_node w)" "r = 0"
proof -
  consider "taken we w k" | "\<not> taken we w k" "mk_session_get k (wk_sessions w) \<noteq> None"
    | "\<not> taken we w k" "mk_session_get k (wk_sessions w) = None" "registered w k"
    | "\<not> taken we w k" "mk_session_get k (wk_sessions w) = None" "\<not> registered w k" by blast
  then show ?thesis
  proof cases
    case 1
    then have "wk_node w' = wk_node w" using assms by (auto simp: taken_def mk_conn_read_def split: if_splits)
    then show ?thesis by (rule that(1))
  next
    case 2
    then have "conn_receive we k w = Inr (r, w')" using assms by (auto simp: taken_def mk_conn_read_def)
    then show ?thesis by (intro that(1) conn_receive_node)
  next
    case 3
    then obtain ss where "conn_receive we k (w\<lparr>wk_sessions := ss\<rparr>) = Inr (r, w')"
      using assms by (auto simp: taken_def registered_def mk_conn_read_def)
    from conn_receive_node [OF this] show ?thesis by (intro that(1)) simp
  next
    case 4
    then have c: "mk_sched_get_connection k (wk_node w) = None" by (simp add: registered_def)
    from 4 c assms obtain x w1 where reg: "mk_sched_register_client we k w = Inr (x, w1)"
      and res: "x = -1 \<and> w' = w1 \<or> x \<noteq> -1 \<and> r = 0 \<and> wk_node w' = wk_node w1"
      by (auto simp: taken_def mk_conn_read_def bindE_def split: sum.splits if_splits)
    show ?thesis
    proof (cases "x = -1")
      case True
      with reg have "w1 = snd (mk_conn_close we k w)"
        by (auto simp: mk_sched_register_client_def split: if_splits)
      with True res conn_close_node [of we k w] show ?thesis using that(1,2) by auto
    next
      case False
      with reg have "wk_node w1 = node_take k (en_now (we_env we)) (wk_node w)"
        by (auto simp: mk_sched_register_client_def split: if_splits)
      with False res 4 show ?thesis by (intro that(3)) auto
    qed
  qed
qed

section \<open>The system\<close>

text \<open>
  The workers, and for each one the sockets that were handed to it and not registered yet. A worker
  gets events on these sockets, on the registered ones, and on sockets whose events a plugin takes.
\<close>

type_synonym system = "(worker \<times> int list) list"

definition known :: "worker_env \<Rightarrow> worker \<times> int list \<Rightarrow> int \<Rightarrow> bool" where
  "known we wp fd \<longleftrightarrow> fd \<in> set (snd wp) \<or> registered (fst wp) fd \<or> taken we (fst wp) fd"

text \<open>A socket is no longer waiting once it is registered or closed.\<close>

definition settle :: "int \<Rightarrow> worker \<Rightarrow> worker \<Rightarrow> int list \<Rightarrow> int list" where
  "settle fd w w' p =
     (if registered w' fd \<or> fd \<in> set (closes (drop (length (wk_trace w)) (wk_trace w'))) then remove1 fd p else p)"

definition set_node :: "worker \<times> int list \<Rightarrow> sched_list_node \<Rightarrow> worker \<times> int list" where
  "set_node wp n = ((fst wp)\<lparr>wk_node := n\<rparr>, snd wp)"

inductive sys_step :: "64 word \<Rightarrow> system \<Rightarrow> system \<Rightarrow> bool" for cap where
  accept: "\<lbrakk>mk_sched_add_client cap ctl fd (map (wk_node \<circ> fst) s) = (0, ns);
            next_target cap (map (wk_node \<circ> fst) s) = int t; ws = map2 set_node s ns\<rbrakk>
    \<Longrightarrow> sys_step cap s (ws[t := (fst (ws ! t), fd # snd (ws ! t))])"
| refuse: "\<lbrakk>mk_sched_add_client cap ctl fd (map (wk_node \<circ> fst) s) = (r, ns); r \<noteq> 0\<rbrakk>
    \<Longrightarrow> sys_step cap s (map2 set_node s ns)"
| event: "\<lbrakk>k < length s; s ! k = (w, p); known we (w, p) fd; epoll_event we (fd, events) ret w = Inr (r, w')\<rbrakk>
    \<Longrightarrow> sys_step cap s (s[k := (w', settle fd w w' p)])"
| timeouts: "\<lbrakk>k < length s; s ! k = (w, p)\<rbrakk>
    \<Longrightarrow> sys_step cap s (s[k := (mk_sched_check_timeouts we w, p)])"

inductive_cases sys_stepE: "sys_step cap s s'"

text \<open>The start: the workers have registered their threads, one after the other.\<close>

definition launch_workers :: "64 word \<Rightarrow> int list \<Rightarrow> sched_list_node list" where
  "launch_workers cap efds =
     fold (\<lambda>(wid, efd). mk_sched_register_thread (unat cap) wid efd) (enumerate 0 efds) (mk_sched_init (length efds))"

inductive sys_reach :: "64 word \<Rightarrow> int list \<Rightarrow> system \<Rightarrow> bool" for cap efds where
  start: "\<lbrakk>map (wk_node \<circ> fst) s = launch_workers cap efds; concat (map snd s) = []\<rbrakk> \<Longrightarrow> sys_reach cap efds s"
| step: "\<lbrakk>sys_reach cap efds s; sys_step cap s s'\<rbrakk> \<Longrightarrow> sys_reach cap efds s'"

definition sys_inv :: "64 word \<Rightarrow> system \<Rightarrow> bool" where
  "sys_inv cap s \<longleftrightarrow> s \<noteq> [] \<and> list_all (\<lambda>(w, p). node_inv cap (length p) (wk_node w)) s"

lemma register_threads_init:
  assumes "length ns = m + length efds"
  shows "length (fold (\<lambda>(wid, efd). mk_sched_register_thread c wid efd) (enumerate m efds) ns) = length ns
    \<and> (\<forall>k < length ns. k < m \<longrightarrow> fold (\<lambda>(wid, efd). mk_sched_register_thread c wid efd) (enumerate m efds) ns ! k = ns ! k)
    \<and> (\<forall>k < length ns. m \<le> k \<longrightarrow> fold (\<lambda>(wid, efd). mk_sched_register_thread c wid efd) (enumerate m efds) ns ! k
         = (ns ! k)\<lparr>sn_idx := k, sn_epoll_fd := efds ! (k - m), sn_busy := [], sn_av := replicate c free_connection\<rparr>)"
  using assms
proof (induction efds arbitrary: m ns)
  case (Cons e efds)
  let ?ns = "mk_sched_register_thread c m e ns"
  have len: "length ?ns = Suc m + length efds" using Cons(2) by (simp add: mk_sched_register_thread_def)
  have at: "?ns ! k = (if k = m then (ns ! m)\<lparr>sn_idx := m, sn_epoll_fd := e, sn_busy := [], sn_av := replicate c free_connection\<rparr> else ns ! k)"
    if "k < length ns" for k using that by (simp add: mk_sched_register_thread_def nth_list_update)
  have len': "length ?ns = length ns" by (simp add: mk_sched_register_thread_def)
  note ih = Cons(1) [OF len, unfolded len']
  show ?case unfolding enumerate_simps fold_simps prod.case
  proof (intro conjI allI impI)
    fix k assume k: "k < length ns"
    show "fold (\<lambda>(wid, efd). mk_sched_register_thread c wid efd) (enumerate (Suc m) efds) ?ns ! k = ns ! k" if "k < m"
      using ih at [OF k] k that by simp
    show "fold (\<lambda>(wid, efd). mk_sched_register_thread c wid efd) (enumerate (Suc m) efds) ?ns ! k =
        (ns ! k)\<lparr>sn_idx := k, sn_epoll_fd := (e # efds) ! (k - m), sn_busy := [], sn_av := replicate c free_connection\<rparr>" if "m \<le> k"
      using ih at [OF k] k that by (cases "k = m") (simp_all add: nth_Cons')
  qed (use ih in simp)
qed simp

lemma launch_workers_inv:
  assumes "n \<in> set (launch_workers cap efds)"
  shows "node_inv cap 0 n"
proof -
  have "length (mk_sched_init (length efds)) = 0 + length efds" by (simp add: mk_sched_init_def)
  note r = register_threads_init [OF this, of "unat cap"]
  obtain k where k: "k < length efds" "n = launch_workers cap efds ! k"
    using assms r unfolding in_set_conv_nth launch_workers_def by (auto simp: mk_sched_init_def)
  then have "n = (zero_node\<lparr>sn_idx := k, sn_epoll_fd := efds ! k, sn_busy := [], sn_av := replicate (unat cap) free_connection\<rparr>)"
    using r by (simp add: launch_workers_def mk_sched_init_def)
  then show ?thesis by (simp add: node_inv_def load_def zero_node_def)
qed

lemma launch_workers_Nil: "launch_workers cap efds = [] \<longleftrightarrow> efds = []"
proof -
  have "length (launch_workers cap efds) = length efds"
    unfolding launch_workers_def using register_threads_init [of "mk_sched_init (length efds)" 0 efds "unat cap"]
    by (simp add: mk_sched_init_def)
  then show ?thesis by (metis length_0_conv)
qed

lemma settle_le: "length (settle fd w w' p) \<le> length p"
  by (simp add: settle_def length_remove1)

lemma epoll_event_inv:
  assumes "epoll_event we (fd, events) ret w = Inr (r, w')" "known we (w, p) fd"
    and inv: "node_inv cap (length p) (wk_node w)"
  shows "node_inv cap (length (settle fd w w' p)) (wk_node w')"
proof -
  obtain w1 where h: "(if events AND EPOLLIN \<noteq> 0 then mk_conn_read we fd w
             else if events AND EPOLLOUT \<noteq> 0 then mk_conn_write we fd w
             else if events AND (EPOLLHUP OR EPOLLERR OR EPOLLRDHUP) \<noteq> 0 then Inr (mk_conn_error we fd w)
             else Inr (ret, w)) = Inr (r, w1)"
    and c: "w' = (if r < 0 then snd (mk_conn_close we fd w1) else w1)"
    using assms(1) unfolding epoll_event_def Let_def prod.case bindE_def by (auto split: sum.splits)
  have keep: ?thesis if "node_inv cap (length p) (wk_node w1)"
  proof -
    have "node_inv cap (length p) (wk_node w')"
      using that conn_close_node [of we fd w1] node_inv_release [OF that, of fd] by (auto simp: c)
    then show ?thesis using settle_le by (rule node_inv_mono)
  qed
  consider "mk_conn_read we fd w = Inr (r, w1)" | "mk_conn_write we fd w = Inr (r, w1)"
    | "mk_conn_error we fd w = (r, w1)" | "w1 = w"
    using h by (auto split: if_splits)
  then show ?thesis
  proof cases
    case 1
    then show ?thesis
    proof (cases rule: conn_read_node)
      case (3 now)
      with assms(2) have fd: "fd \<in> set p" by (auto simp: known_def)
      have g: "mk_sched_get_connection fd (wk_node w) = None" using 3 by (simp add: registered_def)
      obtain q where q: "length p = Suc q" using fd by (cases p) auto
      have "registered w' fd"
        using 3 c conns.get_ins [of "wk_node w" fd now] g inv by (simp add: registered_def node_inv_def)
      then have "length (settle fd w w' p) = q" using fd q by (simp add: settle_def length_remove1)
      with node_inv_take(2) [OF inv [unfolded q] g, of now] 3 c show ?thesis by simp
    qed (use inv node_inv_release keep in auto)
  next
    case 2
    from keep [OF conn_write_inv [OF this inv]] show ?thesis .
  next
    case 3
    with conn_error_node [of we fd w] inv node_inv_release [OF inv, of fd] keep show ?thesis by auto
  qed (use inv keep in simp)
qed


lemma map2_set_node: "map2 set_node s (map (wk_node \<circ> fst) s) = s"
  by (induction s) (auto simp: set_node_def)

lemma map2_set_node_update:
  "t < length s \<Longrightarrow> map2 set_node s ((map (wk_node \<circ> fst) s)[t := n]) = s[t := set_node (s ! t) n]"
proof (induction s arbitrary: t)
  case (Cons wp s)
  then show ?case
  proof (cases t)
    case 0
    with map2_set_node [of s] show ?thesis by (simp add: comp_def)
  next
    case (Suc u)
    have "map2 set_node s ((map (wk_node \<circ> fst) s)[u := n]) = s[u := set_node (s ! u) n]"
      by (rule Cons(1)) (use Cons(2) Suc in simp)
    moreover have "set_node wp (wk_node (fst wp)) = wp" by (simp add: set_node_def)
    ultimately show ?thesis using Suc by (simp add: comp_def)
  qed
qed simp

lemma add_client_cases:
  assumes "mk_sched_add_client cap ctl fd nodes = (r, ns)" "nodes \<noteq> []" "0 < cap"
  obtains "r \<noteq> 0" "ns = nodes"
    | t where "r = 0" "next_target cap nodes = int t" "t < length nodes" "load (nodes ! t) < cap"
        "ns = nodes[t := (nodes ! t)\<lparr>sn_accepted := sn_accepted (nodes ! t) + 1\<rparr>]"
proof -
  obtain t where t: "first_least t nodes"
    "next_target cap nodes = (if load (nodes ! t) < cap then int t else -1)"
    using next_target_cases [OF assms(2,3)] .
  show ?thesis
  proof (cases "load (nodes ! t) < cap \<and> r = 0")
    case True
    with t assms(1) that(2) [of t] show ?thesis
      by (auto simp: mk_sched_add_client_def Let_def first_least_def split: prod.splits if_splits)
  next
    case False
    with t assms(1) have "r \<noteq> 0 \<and> ns = nodes"
      by (auto simp: mk_sched_add_client_def Let_def split: prod.splits if_splits)
    then show ?thesis using that(1) by blast
  qed
qed

lemma sys_inv_update:
  "sys_inv cap s \<Longrightarrow> node_inv cap (length p) (wk_node w) \<Longrightarrow> sys_inv cap (s[k := (w, p)])"
  unfolding sys_inv_def list_all_iff by (auto dest!: set_update_subset_insert [THEN subsetD])

lemma sys_inv_nth: "sys_inv cap s \<Longrightarrow> k < length s \<Longrightarrow> s ! k = (w, p) \<Longrightarrow> node_inv cap (length p) (wk_node w)"
  unfolding sys_inv_def list_all_iff by (metis (mono_tags, lifting) case_prodD nth_mem)

lemma sys_step_inv:
  assumes "sys_step cap s s'" "sys_inv cap s" "0 < cap"
  shows "sys_inv cap s'"
  using assms(1)
proof cases
  let ?nodes = "map (wk_node \<circ> fst) s"
  have ne: "?nodes \<noteq> []" using assms(2) by (simp add: sys_inv_def)
  {
    case (accept ctl fd ns t ws)
    from accept(2) ne assms(3) show ?thesis
    proof (cases rule: add_client_cases)
      case (2 u)
      with accept(3) have [simp]: "u = t" by simp
      obtain w p where wp: "s ! t = (w, p)" by fastforce
      have t: "t < length s" using 2(3) by simp
      have n: "?nodes ! t = wk_node w" using t wp by simp
      have ws: "ws = s[t := set_node (s ! t) ((wk_node w)\<lparr>sn_accepted := sn_accepted (wk_node w) + 1\<rparr>)]"
        using accept(4) 2(5) map2_set_node_update [OF t] n by simp
      have "node_inv cap (length p) (wk_node w)" using sys_inv_nth [OF assms(2) t wp] .
      from node_inv_accept [OF this] 2(4) n have
        "node_inv cap (length (fd # p)) ((wk_node w)\<lparr>sn_accepted := sn_accepted (wk_node w) + 1\<rparr>)" by simp
      then have "sys_inv cap (s[t := (w\<lparr>wk_node := (wk_node w)\<lparr>sn_accepted := sn_accepted (wk_node w) + 1\<rparr>\<rparr>, fd # p)])"
        by (intro sys_inv_update [OF assms(2)]) simp
      then show ?thesis using t wp by (simp add: accept(1) ws set_node_def)
    qed simp
  next
    case (refuse ctl fd r ns)
    from refuse(2) ne assms(3) show ?thesis
      by (cases rule: add_client_cases) (use refuse assms(2) map2_set_node in auto)
  next
    case (event k w p we fd events ret r w')
    from sys_inv_update [OF assms(2) epoll_event_inv [OF event(5,4) sys_inv_nth [OF assms(2) event(2,3)]]]
    show ?thesis by (simp add: event(1))
  next
    case (timeouts k w p we)
    from sys_inv_update [OF assms(2) node_inv_timeouts [OF sys_inv_nth [OF assms(2) timeouts(2,3)]]]
    show ?thesis by (simp add: timeouts(1))
  }
qed

lemma sys_reach_inv:
  assumes "sys_reach cap efds s" "0 < cap" "efds \<noteq> []"
  shows "sys_inv cap s"
  using assms(1)
proof induction
  case (start s)
  have "node_inv cap (length p) (wk_node w)" if wp: "(w, p) \<in> set s" for w p
  proof -
    have "wk_node w \<in> set (launch_workers cap efds)" unfolding start(1) [symmetric] using wp by force
    moreover have "p = []" using start(2) wp by force
    ultimately show ?thesis using launch_workers_inv by simp
  qed
  moreover have "s \<noteq> []" using start(1) launch_workers_Nil [of cap efds] assms(3) by auto
  ultimately show ?case unfolding sys_inv_def list_all_iff by blast
next
  case (step s s')
  from sys_step_inv [OF step(2) step(3) assms(2)] show ?case .
qed

text \<open>
  C3: no worker runs out of connections. In every state the server reaches by accepting
  connections, handling events and checking timeouts, with at least one worker and a positive
  capacity, a worker has at most its capacity of connections registered, every descriptor at most
  once, its load counts at least the registered connections and the sockets still to be
  registered, and registering one of these succeeds: the queue of free connections is not empty.
\<close>

theorem scheduler_never_full:
  assumes "sys_reach cap efds s" "0 < cap" "efds \<noteq> []" "k < length s" "s ! k = (w, p)"
  shows "length (sn_busy (wk_node w)) \<le> unat cap \<and> distinct (map sc_socket (sn_busy (wk_node w)))
    \<and> length (sn_busy (wk_node w)) + length p \<le> unat (load (wk_node w)) \<and> load (wk_node w) \<le> cap
    \<and> (fd \<in> set p \<longrightarrow> \<not> registered w fd \<longrightarrow> (\<exists>r w'. mk_sched_register_client we fd w = Inr (r, w')))"
proof -
  have inv: "node_inv cap (length p) (wk_node w)"
    using sys_inv_nth [OF sys_reach_inv [OF assms(1-3)] assms(4,5)] .
  have "\<exists>r w'. mk_sched_register_client we fd w = Inr (r, w')" if fd: "fd \<in> set p" "\<not> registered w fd"
  proof -
    obtain q where "length p = Suc q" using length_pos_if_in_set [OF fd(1)] by (cases "length p") auto
    with node_inv_take(1) [of cap q "wk_node w" fd] inv fd(2) show ?thesis
      by (auto simp: mk_sched_register_client_def registered_def)
  qed
  with inv show ?thesis by (auto simp: node_inv_def)
qed


text \<open>A server with one worker of capacity 1 that has accepted socket 9.\<close>

definition demo_first :: worker where
  "demo_first = \<lparr>wk_node = hd (launch_workers 1 [5]), wk_index = mk_epoll_state_init, wk_sessions = [],
     wk_events = [], wk_gmt = [], wk_trace = []\<rparr>"

definition demo_accepted :: worker where
  "demo_accepted = demo_first\<lparr>wk_node := (wk_node demo_first)\<lparr>sn_accepted := 1\<rparr>\<rparr>"

lemma demo_reach: "sys_reach 1 [5] [(demo_accepted, [9])]"
proof -
  have l: "launch_workers 1 [5] = [zero_node\<lparr>sn_epoll_fd := 5, sn_av := [free_connection]\<rparr>]"
    by (simp add: launch_workers_def mk_sched_init_def mk_sched_register_thread_def zero_node_def)
  have "sys_reach 1 [5] [(demo_first, [])]"
    by (rule sys_reach.start) (simp_all add: demo_first_def l)
  moreover have "sys_step 1 [(demo_first, [])] [(demo_accepted, [9])]"
  proof -
    let ?n = "(wk_node demo_first)\<lparr>sn_accepted := 1\<rparr>"
    have z: "load (wk_node demo_first) = 0" "sn_accepted (wk_node demo_first) = 0"
      by (simp_all add: demo_first_def l load_def zero_node_def)
    have n: "next_target 1 [wk_node demo_first] = 0" by (simp add: next_target_def z)
    then have "mk_sched_add_client 1 (\<lambda>_. (0, False)) 9 [wk_node demo_first] = (0, [?n])"
      by (simp add: mk_sched_add_client_def mk_epoll_add_def Let_def z)
    then have "sys_step 1 [(demo_first, [])]
        ((map2 set_node [(demo_first, [])] [?n])[0 := (fst (map2 set_node [(demo_first, [])] [?n] ! 0),
           9 # snd (map2 set_node [(demo_first, [])] [?n] ! 0))])"
      by (intro sys_step.accept [OF _ _ refl, where ctl = "\<lambda>_. (0, False)"]) (simp_all add: n)
    then show ?thesis by (simp add: set_node_def demo_accepted_def)
  qed
  ultimately show ?thesis by (rule sys_reach.step)
qed

theorem scheduler_never_full_witness:
  "load (wk_node demo_accepted) \<le> 1 \<and> (\<exists>r w'. mk_sched_register_client demo_worker_env 9 demo_accepted = Inr (r, w'))"
proof -
  have "\<not> registered demo_accepted 9"
    by (simp add: registered_def demo_accepted_def demo_first_def launch_workers_def mk_sched_init_def
        mk_sched_register_thread_def mk_sched_get_connection_def)
  with scheduler_never_full [OF demo_reach, of 0 demo_accepted "[9]" 9 demo_worker_env] show ?thesis by simp
qed

end
