(* ===== verification/Auth_Base64.thy ===== *)
theory Auth_Base64
  imports Mk_Prelude "HOL-Library.Word"
begin

unbundle bit_operations_syntax

text \<open>
  \<^verbatim>\<open>plugins/auth/base64.c\<close>: the encoder and the decoder of the authentication plugin, on characters
  as 8-bit words. The encoder breaks lines, the decoder skips what is not in the alphabet.
\<close>

section \<open>The code\<close>

definition base64_table :: cstr where
  "base64_table = ''ABCDEFGHIJKLMNOPQRSTUVWXYZabcdefghijklmnopqrstuvwxyz0123456789+/''"

definition octet :: "char \<Rightarrow> 8 word" where
  "octet c = word_of_nat (byte c)"

definition chr :: "8 word \<Rightarrow> char" where
  "chr w = char_of (unat w)"

definition enc :: "8 word \<Rightarrow> char" where
  "enc w = base64_table ! unat w"

text \<open>The loop over blocks of three bytes and the last block; \<open>l\<close> is \<open>line_len\<close>.\<close>

fun encode_loop :: "cstr \<Rightarrow> nat \<Rightarrow> cstr" where
  "encode_loop (a # b # c # src) l =
     [enc (drop_bit 2 (octet a)), enc (push_bit 4 (octet a AND 3) OR drop_bit 4 (octet b)),
      enc (push_bit 2 (octet b AND 15) OR drop_bit 6 (octet c)), enc (octet c AND 63)]
     @ (if 72 \<le> l + 4 then CHR 0x0A # encode_loop src 0 else encode_loop src (l + 4))"
| "encode_loop [a, b] l =
     [enc (drop_bit 2 (octet a)), enc (push_bit 4 (octet a AND 3) OR drop_bit 4 (octet b)),
      enc (push_bit 2 (octet b AND 15)), CHR ''='', CHR 0x0A]"
| "encode_loop [a] l = [enc (drop_bit 2 (octet a)), enc (push_bit 4 (octet a AND 3)), CHR ''='', CHR ''='', CHR 0x0A]"
| "encode_loop [] l = (if l \<noteq> 0 then [CHR 0x0A] else [])"

text \<open>The size of the output buffer, in \<open>size_t\<close>.\<close>

definition encode_olen :: "nat \<Rightarrow> nat" where
  "encode_olen len = (let o1 = (len * 4) mod 2 ^ 64 div 3 + 4 in (o1 + o1 div 72 + 1) mod 2 ^ 64)"

definition base64_encode :: "cstr \<Rightarrow> cerr + cstr option" where
  "base64_encode src =
     (let olen = encode_olen (length src); out = encode_loop src 0 in
      if olen < length src then Inr None
      else if olen \<le> length out then Inl OutOfBounds
      else Inr (Some out))"

text \<open>The decoding table: \<open>0x80\<close> but for the alphabet and the padding character.\<close>

definition dtable :: "8 word list" where
  "dtable = (fold (\<lambda>i t. t[of_char (base64_table ! i) := word_of_nat i]) [0..<64] (replicate 256 0x80))
     [of_char CHR ''='' := 0]"

definition dec :: "char \<Rightarrow> 8 word" where
  "dec c = dtable ! of_char c"

text \<open>The second loop of the decoder, with the block and the padding count so far.\<close>

fun decode_loop :: "cstr \<Rightarrow> 8 word list \<Rightarrow> nat \<Rightarrow> cstr \<Rightarrow> cstr option" where
  "decode_loop [] block pad out = Some out"
| "decode_loop (c # src) block pad out =
     (let tmp = dec c in
      if tmp = 0x80 then decode_loop src block pad out
      else
        let pad' = (if c = CHR ''='' then pad + 1 else pad); b = block @ [tmp] in
        if length b = 4 then
          let out' = out @ [chr (push_bit 2 (b ! 0) OR drop_bit 4 (b ! 1)),
                            chr (push_bit 4 (b ! 1) OR drop_bit 2 (b ! 2)),
                            chr (push_bit 6 (b ! 2) OR b ! 3)]
          in if pad' = 0 then decode_loop src [] pad' out'
             else if pad' \<le> 2 then Some (take (length out' - pad') out')
             else None
        else decode_loop src b pad' out)"

text \<open>The size of the allocated buffer and the decoded bytes; \<open>None\<close> is the null pointer.\<close>

definition base64_decode :: "cstr \<Rightarrow> (nat \<times> cstr) option" where
  "base64_decode src =
     (let count = length (filter (\<lambda>c. dec c \<noteq> 0x80) src) in
      if count = 0 \<or> count mod 4 \<noteq> 0 then None
      else map_option (\<lambda>out. (count div 4 * 3, out)) (decode_loop src [] 0 []))"

section \<open>The tables\<close>

lemma unat_octet: "unat (octet c) = of_char c"
  by (simp add: octet_def byte_def unat_of_nat)

lemma chr_octet [simp]: "chr (octet c) = c"
  by (simp add: chr_def unat_octet)

lemma fold_update_length [simp]: "length (fold (\<lambda>i t. t[f i := g i]) ks t) = length t"
  by (induction ks arbitrary: t) auto

lemma fold_update_other: "k \<notin> f ` set ks \<Longrightarrow> fold (\<lambda>i t. t[f i := g i]) ks t ! k = t ! k"
  by (induction ks arbitrary: t) auto

lemma fold_update_at:
  "inj_on f (set ks) \<Longrightarrow> distinct ks \<Longrightarrow> i \<in> set ks \<Longrightarrow> f i < length t \<Longrightarrow> fold (\<lambda>i t. t[f i := g i]) ks t ! f i = g i"
proof (induction ks arbitrary: t)
  case (Cons k ks)
  show ?case
  proof (cases "i = k")
    case True
    then have "f k \<notin> f ` set ks" using Cons(2,3) by (auto simp: inj_on_def)
    with Cons(5) True show ?thesis by (simp add: fold_update_other)
  qed (use Cons in simp)
qed simp

lemma table_length: "length base64_table = 64"
  by (simp add: base64_table_def)

lemma table_distinct: "distinct base64_table"
  by (simp add: base64_table_def)

lemma table_pad: "CHR ''='' \<notin> set base64_table"
  by (simp add: base64_table_def)

lemma of_char_lt: "(of_char c :: nat) < 256"
  using of_char_mod_256 [of c, where 'a = nat] by (metis mod_less_divisor zero_less_numeral)

lemma dec_enc:
  assumes "w < 64"
  shows "dec (enc w) = w"
proof -
  have u: "unat w < 64" using assms by (simp add: word_less_nat_alt)
  let ?f = "\<lambda>i. of_char (base64_table ! i) :: nat"
  have inj: "inj_on ?f (set [0..<64])"
    using table_distinct table_length by (auto simp: inj_on_def nth_eq_iff_index_eq)
  have "?f (unat w) \<noteq> of_char CHR ''=''"
    using table_pad nth_mem [of "unat w" base64_table] u table_length by (metis of_char_eq_iff)
  then have "dec (enc w) = fold (\<lambda>i t. t[?f i := word_of_nat i]) [0..<64] (replicate 256 0x80) ! ?f (unat w)"
    unfolding dec_def enc_def dtable_def by simp
  also have "\<dots> = word_of_nat (unat w)"
    by (rule fold_update_at [OF inj]) (use u of_char_lt in simp_all)
  finally show ?thesis by simp
qed

lemma dec_skip: "dec (CHR 0x0A) = 0x80"
proof -
  have "CHR 0x0A \<notin> set base64_table" by (simp add: base64_table_def)
  then have "of_char (CHR 0x0A) \<notin> (\<lambda>i. of_char (base64_table ! i) :: nat) ` set [0..<64]"
  proof (rule contrapos_nn)
    assume "of_char (CHR 0x0A) \<in> (\<lambda>i. of_char (base64_table ! i) :: nat) ` set [0..<64]"
    then obtain i where "i < 64" "(of_char (CHR 0x0A) :: nat) = of_char (base64_table ! i)" by auto
    then have "base64_table ! i = CHR 0x0A" by (simp only: of_char_eq_iff)
    with \<open>i < 64\<close> nth_mem [of i base64_table] table_length show "CHR 0x0A \<in> set base64_table" by metis
  qed
  then have "dec (CHR 0x0A) = replicate 256 (0x80 :: 8 word) ! of_char (CHR 0x0A)"
    unfolding dec_def dtable_def by (subst nth_list_update_neq) (simp_all add: fold_update_other)
  then show ?thesis using of_char_lt by simp
qed

lemma dec_pad: "dec (CHR ''='') = 0"
  unfolding dec_def dtable_def using of_char_lt by simp

lemma enc_mem: "w < 64 \<Longrightarrow> enc w \<in> set base64_table"
  unfolding enc_def by (rule nth_mem) (simp add: table_length word_less_nat_alt)

lemma enc_not_pad: "w < 64 \<Longrightarrow> enc w \<noteq> CHR ''=''"
  using enc_mem table_pad by metis

lemma sextet_ne: "(w :: 8 word) < 64 \<Longrightarrow> w \<noteq> 0x80"
  by auto

section \<open>Blocks\<close>

text \<open>Two words of eight bits are equal when their bits are.\<close>

lemma byte_eqI:
  fixes v w :: "8 word"
  assumes "bit v 0 = bit w 0" "bit v 1 = bit w 1" "bit v 2 = bit w 2" "bit v 3 = bit w 3"
    "bit v 4 = bit w 4" "bit v 5 = bit w 5" "bit v 6 = bit w 6" "bit v 7 = bit w 7"
  shows "v = w"
proof (rule bit_word_eqI)
  fix n assume "n < LENGTH(8)"
  then have "n \<in> {0, 1, 2, 3, 4, 5, 6, 7}" by auto
  then show "bit v n = bit w n" by (elim insertE emptyE) (simp_all only: assms)
qed

lemma sextets:
  fixes a b :: "8 word"
  shows "drop_bit 2 a < 64" "push_bit 4 (a AND 3) OR drop_bit 4 b < 64"
    "push_bit 2 (a AND 15) OR drop_bit 6 b < 64" "a AND 63 < 64"
proof -
  have lt: "w < 64" if "take_bit 6 w = w" for w :: "8 word"
  proof -
    have "unat w = take_bit 6 (unat w)" using that by (metis unsigned_take_bit_eq)
    then show ?thesis using take_bit_nat_less_exp [of 6 "unat w"] by (simp add: word_less_nat_alt)
  qed
  have high: "\<not> bit (w :: 8 word) 8" "\<not> bit w 9" "\<not> bit w 10" "\<not> bit w 11" "\<not> bit w 12" "\<not> bit w 13" for w
    using bit_imp_le_length [of w] by fastforce+
  show "drop_bit 2 a < 64" "push_bit 4 (a AND 3) OR drop_bit 4 b < 64"
    "push_bit 2 (a AND 15) OR drop_bit 6 b < 64" "a AND 63 < 64"
    by (rule lt, rule byte_eqI; simp add: bit_simps high)+
qed

lemma blocks:
  fixes a b c :: "8 word"
  shows "push_bit 2 (drop_bit 2 a) OR drop_bit 4 (push_bit 4 (a AND 3) OR drop_bit 4 b) = a"
    and "push_bit 4 (push_bit 4 (a AND 3) OR drop_bit 4 b) OR drop_bit 2 (push_bit 2 (b AND 15) OR drop_bit 6 c) = b"
    and "push_bit 6 (push_bit 2 (b AND 15) OR drop_bit 6 c) OR (c AND 63) = c"
  by (rule byte_eqI; simp add: bit_simps)+


lemma blocks_pad:
  fixes a b :: "8 word"
  shows "push_bit 2 (drop_bit 2 a) OR drop_bit 4 (push_bit 4 (a AND 3)) = a"
    and "push_bit 4 (push_bit 4 (a AND 3) OR drop_bit 4 b) OR drop_bit 2 (push_bit 2 (b AND 15)) = b"
    and "push_bit 4 (a AND 3) < 64" "push_bit 2 (b AND 15) < 64"
  using blocks(1) [of a 0] blocks(2) [of a b 0] sextets(2) [of a 0] sextets(3) [of b 0] by simp_all

section \<open>Round trip and bounds\<close>

text \<open>A full block of four characters of the alphabet.\<close>

lemma decode_block:
  assumes "x < 64" "y < 64" "z < 64" "w < 64"
  shows "decode_loop (enc x # enc y # enc z # enc w # src) [] 0 out =
    decode_loop src [] 0 (out @ [chr (push_bit 2 x OR drop_bit 4 y), chr (push_bit 4 y OR drop_bit 2 z), chr (push_bit 6 z OR w)])"
  using assms by (simp add: dec_enc sextet_ne enc_not_pad Let_def)

lemma decode_pad1:
  assumes "x < 64" "y < 64" "z < 64"
  shows "decode_loop (enc x # enc y # enc z # CHR ''='' # src) [] 0 out =
    Some (out @ [chr (push_bit 2 x OR drop_bit 4 y), chr (push_bit 4 y OR drop_bit 2 z)])"
  using assms by (simp add: dec_enc dec_pad sextet_ne enc_not_pad Let_def)

lemma decode_pad2:
  assumes "x < 64" "y < 64"
  shows "decode_loop (enc x # enc y # CHR ''='' # CHR ''='' # src) [] 0 out = Some (out @ [chr (push_bit 2 x OR drop_bit 4 y)])"
  using assms by (simp add: dec_enc dec_pad sextet_ne enc_not_pad Let_def)

lemma decode_newline: "decode_loop (CHR 0x0A # src) [] 0 out = decode_loop src [] 0 out"
  by (simp add: dec_skip)

lemma decode_encode_loop: "decode_loop (encode_loop src l) [] 0 out = Some (out @ src)"
proof (induction src l arbitrary: out rule: encode_loop.induct)
  case (1 a b c src l)
  show ?case
    by (simp only: encode_loop.simps append_Cons append_Nil decode_block sextets blocks chr_octet)
      (simp add: 1 dec_skip)
next
  case (2 a b l)
  show ?case by (simp only: encode_loop.simps decode_pad1 sextets blocks blocks_pad chr_octet)
next
  case (3 a l)
  show ?case by (simp only: encode_loop.simps decode_pad2 sextets blocks_pad chr_octet)
qed (simp add: decode_newline dec_skip)

lemma dec_enc_valid: "w < 64 \<Longrightarrow> (dec (enc w) \<noteq> 0x80) = True"
  by (simp add: dec_enc sextet_ne)

lemma encode_count:
  "length (filter (\<lambda>c. dec c \<noteq> 0x80) (encode_loop src l)) = (length src + 2) div 3 * 4"
proof (induction src l rule: encode_loop.induct)
  case (1 a b c src l)
  have d: "(length (a # b # c # src) + 2) div 3 = Suc ((length src + 2) div 3)" by simp
  show ?case
    by (simp only: encode_loop.simps filter.simps append_Cons append_Nil dec_enc_valid sextets if_True d)
      (simp add: 1 dec_skip)
next
  case (2 a b l)
  show ?case by (simp only: encode_loop.simps filter.simps dec_enc_valid sextets blocks_pad if_True) (simp add: dec_skip dec_pad)
next
  case (3 a l)
  show ?case by (simp only: encode_loop.simps filter.simps dec_enc_valid sextets blocks_pad if_True) (simp add: dec_skip dec_pad)
qed (simp add: dec_skip)

lemma encode_length:
  "72 * length (encode_loop src l) \<le> 73 * ((length src + 2) div 3 * 4) + l + 72"
proof (induction src l rule: encode_loop.induct)
  case (1 a b c src l)
  have d: "(length (a # b # c # src) + 2) div 3 = Suc ((length src + 2) div 3)" by simp
  show ?case
  proof (cases "72 \<le> l + 4")
    case True
    with 1(1) show ?thesis unfolding d encode_loop.simps by simp
  next
    case False
    with 1(2) show ?thesis unfolding d encode_loop.simps by simp
  qed
qed simp_all

lemma decode_encode:
  assumes "src \<noteq> []" "base64_encode src = Inr (Some out)"
  shows "base64_decode out = Some ((length src + 2) div 3 * 3, src)"
proof -
  have "out = encode_loop src 0" using assms(2) by (simp add: base64_encode_def Let_def split: if_splits)
  moreover have "0 < (length src + 2) div 3" using assms(1) by (cases src) auto
  ultimately show ?thesis unfolding base64_decode_def Let_def by (simp add: encode_count decode_encode_loop)
qed

text \<open>
  C33: encoding and decoding are inverse. A text that is not empty and shorter than 2^60 bytes is
  encoded within the computed buffer size, and the decoder returns exactly the text, from a buffer
  of the size it has allocated.
\<close>

theorem base64_roundtrip:
  assumes "src \<noteq> []" "length src < 2 ^ 60"
  shows "\<exists>out. base64_encode src = Inr (Some out) \<and>
    base64_decode out = Some ((length src + 2) div 3 * 3, src)"
proof -
  let ?out = "encode_loop src 0"
  have o1: "(length src * 4) mod 2 ^ 64 = length src * 4" using assms(2) by simp
  define o1 where "o1 = length src * 4 div 3 + 4"
  have lim: "o1 + o1 div 72 + 1 < 2 ^ 64"
  proof -
    have "o1 \<le> length src * 4 + 4" by (simp add: o1_def)
    with assms(2) have "o1 \<le> 2 ^ 62 + 4" by simp
    then show ?thesis by simp
  qed
  then have olen: "encode_olen (length src) = o1 + o1 div 72 + 1"
    unfolding encode_olen_def o1 Let_def o1_def by simp
  have "72 * length ?out \<le> 73 * ((length src + 2) div 3 * 4) + 72" using encode_length [of src 0] by simp
  moreover have "(length src + 2) div 3 * 4 + 1 \<le> o1" unfolding o1_def by presburger
  ultimately have "72 * length ?out < 73 * o1" by linarith
  then have fits: "length ?out < o1 + o1 div 72 + 1" by presburger
  moreover have "length src \<le> o1" unfolding o1_def by linarith
  ultimately have "base64_encode src = Inr (Some ?out)"
    by (simp add: base64_encode_def olen Let_def)
  with decode_encode [OF assms(1)] show ?thesis by blast
qed

theorem base64_roundtrip_witness:
  "\<exists>out. base64_encode ''Aladdin:open sesame'' = Inr (Some out) \<and> base64_decode out = Some (21, ''Aladdin:open sesame'')"
  using base64_roundtrip [of "''Aladdin:open sesame''"] by simp

end
