(* ===== verification/Auth_Sha1.thy ===== *)
theory Auth_Sha1
  imports Mk_Prelude "HOL-Library.Word"
begin

unbundle bit_operations_syntax

text \<open>
  \<^verbatim>\<open>plugins/auth/sha1.c\<close>: the hash of the authentication plugin, which keeps a rolling array of 16
  words and accepts a message in pieces, and the hash of FIPS 180 it computes.
\<close>

section \<open>The code\<close>

type_synonym w32 = "32 word"
type_synonym bytes = "8 word list"
type_synonym regs = "w32 \<times> w32 \<times> w32 \<times> w32 \<times> w32"

record sha_ctx =
  sha_size :: "64 word"
  sha_H :: regs
  sha_W :: bytes

text \<open>\<open>get_be32\<close> of the word with index \<open>t\<close>, and \<open>put_be32\<close>.\<close>

definition get_be32 :: "bytes \<Rightarrow> nat \<Rightarrow> w32" where
  "get_be32 data t = push_bit 24 (ucast (data ! (4 * t))) OR push_bit 16 (ucast (data ! (4 * t + 1)))
     OR push_bit 8 (ucast (data ! (4 * t + 2))) OR ucast (data ! (4 * t + 3))"

definition put_be32 :: "w32 \<Rightarrow> bytes" where
  "put_be32 v = [ucast (drop_bit 24 v), ucast (drop_bit 16 v), ucast (drop_bit 8 v), ucast v]"

text \<open>The input of a round: from the data, then mixed from the array.\<close>

definition sha_input :: "bytes \<Rightarrow> w32 list \<Rightarrow> nat \<Rightarrow> w32" where
  "sha_input data arr t =
     (if t < 16 then get_be32 data t
      else word_rotl 1 (arr ! ((t + 13) mod 16) XOR arr ! ((t + 8) mod 16) XOR arr ! ((t + 2) mod 16) XOR arr ! (t mod 16)))"

definition sha_fn :: "nat \<Rightarrow> w32 \<Rightarrow> w32 \<Rightarrow> w32 \<Rightarrow> w32" where
  "sha_fn t B C D =
     (if t < 20 then ((C XOR D) AND B) XOR D
      else if t < 40 then B XOR C XOR D
      else if t < 60 then (B AND C) + (D AND (B XOR C))
      else B XOR C XOR D)"

definition sha_constant :: "nat \<Rightarrow> w32" where
  "sha_constant t = (if t < 20 then 0x5a827999 else if t < 40 then 0x6ed9eba1 else if t < 60 then 0x8f1bbcdc else 0xca62c1d6)"

text \<open>
  \<open>SHA_ROUND\<close>: \<open>E\<close> and \<open>B\<close> change. The calls in the block function pass the variables rotated by
  one place from round to round, which the result of the function does here.
\<close>

definition SHA_ROUND :: "bytes \<Rightarrow> nat \<Rightarrow> regs \<times> w32 list \<Rightarrow> regs \<times> w32 list" where
  "SHA_ROUND data t st =
     (let ((A, B, C, D, E), arr) = st;
          TEMP = sha_input data arr t;
          E' = E + (TEMP + word_rotl 5 A + sha_fn t B C D + sha_constant t)
      in ((E', A, word_rotr 2 B, C, D), arr[t mod 16 := TEMP]))"

definition add_regs :: "regs \<Rightarrow> regs \<Rightarrow> regs" where
  "add_regs r s = (case r of (A, B, C, D, E) \<Rightarrow> case s of (A', B', C', D', E') \<Rightarrow>
     (A + A', B + B', C + C', D + D', E + E'))"

definition blk_SHA1_Block :: "regs \<Rightarrow> bytes \<Rightarrow> regs" where
  "blk_SHA1_Block H data = add_regs H (fst (fold (SHA_ROUND data) [0..<80] (H, replicate 16 0)))"

definition blk_SHA1_Init :: sha_ctx where
  "blk_SHA1_Init = \<lparr>sha_size = 0, sha_H = (0x67452301, 0xefcdab89, 0x98badcfe, 0x10325476, 0xc3d2e1f0),
     sha_W = replicate 64 0\<rparr>"

text \<open>The loop over whole blocks of the data: the hash state and the rest.\<close>

function sha_blocks :: "regs \<Rightarrow> bytes \<Rightarrow> regs \<times> bytes" where
  "sha_blocks H data = (if 64 \<le> length data then sha_blocks (blk_SHA1_Block H (take 64 data)) (drop 64 data) else (H, data))"
  by pat_completeness auto
termination
  by (relation "measure (\<lambda>(H, data). length data)") auto

declare sha_blocks.simps [simp del]

text \<open>\<open>memcpy\<close> into the buffer at an offset.\<close>

definition put_at :: "nat \<Rightarrow> bytes \<Rightarrow> bytes \<Rightarrow> bytes" where
  "put_at k d W = take k W @ d @ drop (k + length d) W"

definition blk_SHA1_Update :: "bytes \<Rightarrow> sha_ctx \<Rightarrow> sha_ctx" where
  "blk_SHA1_Update data ctx =
     (let lenW = unat (sha_size ctx AND 63); ctx1 = ctx\<lparr>sha_size := sha_size ctx + word_of_nat (length data)\<rparr>;
          tail = (\<lambda>c d. let (H, rest) = sha_blocks (sha_H c) d in
                    if rest = [] then c\<lparr>sha_H := H\<rparr> else c\<lparr>sha_H := H, sha_W := put_at 0 rest (sha_W c)\<rparr>)
      in if lenW \<noteq> 0 then
           let left = min (64 - lenW) (length data);
               ctx2 = ctx1\<lparr>sha_W := put_at lenW (take left data) (sha_W ctx1)\<rparr>
           in if (lenW + left) mod 64 \<noteq> 0 then ctx2
              else tail (ctx2\<lparr>sha_H := blk_SHA1_Block (sha_H ctx2) (sha_W ctx2)\<rparr>) (drop left data)
         else tail ctx1 data)"

definition blk_SHA1_Final :: "sha_ctx \<Rightarrow> bytes" where
  "blk_SHA1_Final ctx =
     (let padlen = put_be32 (ucast (drop_bit 29 (sha_size ctx))) @ put_be32 (ucast (push_bit 3 (sha_size ctx)));
          i = int (unat (sha_size ctx AND 63));
          pad = 0x80 # replicate 63 0;
          ctx1 = blk_SHA1_Update (take (1 + nat ((55 - i) mod 64)) pad) ctx;
          ctx2 = blk_SHA1_Update padlen ctx1;
          (A, B, C, D, E) = sha_H ctx2
      in put_be32 A @ put_be32 B @ put_be32 C @ put_be32 D @ put_be32 E)"

section \<open>The standard\<close>

text \<open>The message schedule as a list of 80 words.\<close>

fun fips_extend :: "nat \<Rightarrow> w32 list \<Rightarrow> w32 list" where
  "fips_extend 0 ws = ws"
| "fips_extend (Suc n) ws =
     (let t = length ws in
      fips_extend n (ws @ [word_rotl 1 (ws ! (t - 3) XOR ws ! (t - 8) XOR ws ! (t - 14) XOR ws ! (t - 16))]))"

definition fips_schedule :: "bytes \<Rightarrow> w32 list" where
  "fips_schedule data = fips_extend 64 (map (get_be32 data) [0..<16])"

definition fips_f :: "nat \<Rightarrow> w32 \<Rightarrow> w32 \<Rightarrow> w32 \<Rightarrow> w32" where
  "fips_f t b c d =
     (if t < 20 then (b AND c) XOR (NOT b AND d)
      else if 40 \<le> t \<and> t < 60 then (b AND c) XOR (b AND d) XOR (c AND d)
      else b XOR c XOR d)"

definition fips_step :: "w32 list \<Rightarrow> nat \<Rightarrow> regs \<Rightarrow> regs" where
  "fips_step ws t = (\<lambda>(a, b, c, d, e).
     (word_rotl 5 a + fips_f t b c d + e + sha_constant t + ws ! t, a, word_rotl 30 b, c, d))"

definition fips_block :: "regs \<Rightarrow> bytes \<Rightarrow> regs" where
  "fips_block H data = add_regs H (fold (fips_step (fips_schedule data)) [0..<80] H)"

function fips_blocks :: "regs \<Rightarrow> bytes \<Rightarrow> regs" where
  "fips_blocks H data = (if 64 \<le> length data then fips_blocks (fips_block H (take 64 data)) (drop 64 data) else H)"
  by pat_completeness auto
termination
  by (relation "measure (\<lambda>(H, data). length data)") auto

declare fips_blocks.simps [simp del]

text \<open>Padding: a one bit, zeros up to 56 bytes modulo 64, the length in bits as 8 bytes.\<close>

definition be64 :: "64 word \<Rightarrow> bytes" where
  "be64 v = map (\<lambda>k. ucast (drop_bit k v)) [56, 48, 40, 32, 24, 16, 8, 0]"

definition fips_pad :: "bytes \<Rightarrow> bytes" where
  "fips_pad m = m @ 0x80 # replicate (nat ((55 - int (length m)) mod 64)) 0 @ be64 (word_of_nat (8 * length m))"

definition fips_sha1 :: "bytes \<Rightarrow> bytes" where
  "fips_sha1 m =
     (let (A, B, C, D, E) = fips_blocks (sha_H blk_SHA1_Init) (fips_pad m)
      in put_be32 A @ put_be32 B @ put_be32 C @ put_be32 D @ put_be32 E)"

section \<open>A block\<close>

lemma fn_ch: "((C XOR D) AND B) XOR D = (B AND C) XOR (NOT B AND D)" for B C D :: w32
  by (rule bit_word_eqI) (auto simp: bit_simps)

lemma fn_maj: "(B AND C) + (D AND (B XOR C)) = (B AND C) XOR (B AND D) XOR (C AND D)" for B C D :: w32
proof -
  have "(B AND C) + (D AND (B XOR C)) = (B AND C) OR (D AND (B XOR C))"
    by (rule disjunctive_add) (auto simp: bit_simps)
  also have "\<dots> = (B AND C) XOR (B AND D) XOR (C AND D)"
    by (rule bit_word_eqI) (auto simp: bit_simps)
  finally show ?thesis .
qed

lemma fn_eq: "sha_fn t B C D = fips_f t B C D"
  unfolding sha_fn_def fips_f_def by (simp add: fn_ch fn_maj)

lemma rotr_rotl: "word_rotr 2 B = word_rotl 30 B" for B :: w32
  unfolding word_rotl_eq_word_rotr by simp

text \<open>The rolling array holds the last 16 words of the schedule.\<close>

lemma fips_extend_prefix: "i < length ws \<Longrightarrow> fips_extend n ws ! i = ws ! i"
  by (induction n ws rule: fips_extend.induct) (simp_all add: nth_append Let_def)

lemma fips_extend_length [simp]: "length (fips_extend n ws) = n + length ws"
  by (induction n ws rule: fips_extend.induct) (simp_all add: Let_def)

lemma fips_extend_at:
  "length ws \<le> t \<Longrightarrow> t < length ws + n \<Longrightarrow> 16 \<le> length ws \<Longrightarrow>
   fips_extend n ws ! t = word_rotl 1 (fips_extend n ws ! (t - 3) XOR fips_extend n ws ! (t - 8)
      XOR fips_extend n ws ! (t - 14) XOR fips_extend n ws ! (t - 16))"
proof (induction n ws rule: fips_extend.induct)
  case (2 n ws)
  let ?w = "word_rotl 1 (ws ! (length ws - 3) XOR ws ! (length ws - 8) XOR ws ! (length ws - 14) XOR ws ! (length ws - 16))"
  have e: "fips_extend (Suc n) ws = fips_extend n (ws @ [?w])" by (simp add: Let_def)
  show ?case
  proof (cases "t = length ws")
    case True
    have old: "fips_extend n (ws @ [?w]) ! i = ws ! i" if "i < length ws" for i
      using fips_extend_prefix [of i "ws @ [?w]" n] that by (simp add: nth_append)
    have "fips_extend n (ws @ [?w]) ! t = ?w" using fips_extend_prefix [of t "ws @ [?w]" n] True by simp
    moreover have "length ws - 3 < length ws" "length ws - 8 < length ws" "length ws - 14 < length ws" "length ws - 16 < length ws"
      using 2(4) by simp_all
    ultimately show ?thesis unfolding e using True by (simp only: old)
  next
    case False
    with 2(1) [OF refl] 2(2-4) show ?thesis unfolding e by simp
  qed
qed simp

lemma schedule_length: "length (fips_schedule data) = 80"
  by (simp add: fips_schedule_def)

lemma schedule_first: "t < 16 \<Longrightarrow> fips_schedule data ! t = get_be32 data t"
  by (simp add: fips_schedule_def fips_extend_prefix)

lemma schedule_next:
  assumes "16 \<le> t" "t < 80"
  shows "fips_schedule data ! t = word_rotl 1 (fips_schedule data ! (t - 3) XOR fips_schedule data ! (t - 8)
      XOR fips_schedule data ! (t - 14) XOR fips_schedule data ! (t - 16))"
  unfolding fips_schedule_def by (rule fips_extend_at) (use assms in simp_all)

definition rolls :: "bytes \<Rightarrow> nat \<Rightarrow> w32 list \<Rightarrow> bool" where
  "rolls data t arr \<longleftrightarrow> length arr = 16 \<and> (\<forall>j < t. t \<le> j + 16 \<longrightarrow> arr ! (j mod 16) = fips_schedule data ! j)"

lemma input_eq:
  assumes "rolls data t arr" "t < 80"
  shows "sha_input data arr t = fips_schedule data ! t"
proof (cases "t < 16")
  case False
  have at: "arr ! ((t + k) mod 16) = fips_schedule data ! (t + k - 16)" if "k < 16" for k
  proof -
    have "(t + k) mod 16 = (t + k - 16) mod 16" using False by (simp add: mod_if)
    moreover have "t + k - 16 < t" "t \<le> t + k - 16 + 16" using False that by simp_all
    ultimately show ?thesis using assms(1) unfolding rolls_def by metis
  qed
  have "t + 13 - 16 = t - 3" "t + 8 - 16 = t - 8" "t + 2 - 16 = t - 14" by simp_all
  with at [of 13] at [of 8] at [of 2] at [of 0] False show ?thesis
    using schedule_next [of t data] assms(2) by (simp add: sha_input_def)
qed (simp add: sha_input_def schedule_first)

lemma rolls_step:
  assumes "rolls data t arr" "t < 80"
  shows "rolls data (Suc t) (arr[t mod 16 := fips_schedule data ! t])"
proof -
  have "arr[t mod 16 := fips_schedule data ! t] ! (j mod 16) = fips_schedule data ! j"
    if "j < Suc t" "Suc t \<le> j + 16" for j
  proof (cases "j = t")
    case False
    then have j: "j < t" "t - j < 16" using that by linarith+
    have "j mod 16 \<noteq> t mod 16"
    proof
      assume "j mod 16 = t mod 16"
      then have "16 dvd t - j" using j(1) mod_eq_dvd_iff_nat [of j t 16] by simp
      then show False using j by (simp add: nat_dvd_not_less)
    qed
    with assms(1) that False show ?thesis by (simp add: rolls_def)
  qed (use assms(1) in \<open>simp add: rolls_def\<close>)
  with assms(1) show ?thesis by (simp add: rolls_def)
qed

lemma rounds_eq:
  assumes "n \<le> 80"
  shows "\<exists>arr. fold (SHA_ROUND data) [0..<n] (H, replicate 16 0) = (fold (fips_step (fips_schedule data)) [0..<n] H, arr)
    \<and> rolls data n arr"
  using assms
proof (induction n)
  case 0
  then show ?case by (simp add: rolls_def)
next
  case (Suc n)
  then obtain arr where ih: "fold (SHA_ROUND data) [0..<n] (H, replicate 16 0) = (fold (fips_step (fips_schedule data)) [0..<n] H, arr)"
    and r: "rolls data n arr" by auto
  obtain A B C D E where regs: "fold (fips_step (fips_schedule data)) [0..<n] H = (A, B, C, D, E)" by (metis prod_cases5)
  have i: "sha_input data arr n = fips_schedule data ! n" by (rule input_eq [OF r]) (use Suc(2) in simp)
  have "SHA_ROUND data n ((A, B, C, D, E), arr) =
      (fips_step (fips_schedule data) n (A, B, C, D, E), arr[n mod 16 := fips_schedule data ! n])"
    unfolding SHA_ROUND_def Let_def prod.case i fn_eq rotr_rotl fips_step_def by (simp only: ac_simps)
  moreover have "rolls data (Suc n) (arr[n mod 16 := fips_schedule data ! n])" by (rule rolls_step [OF r]) (use Suc(2) in simp)
  ultimately show ?case using ih regs by simp
qed

lemma block_eq: "blk_SHA1_Block H data = fips_block H data"
proof -
  obtain arr where "fold (SHA_ROUND data) [0..<80] (H, replicate 16 0) = (fold (fips_step (fips_schedule data)) [0..<80] H, arr)"
    using rounds_eq [OF order_refl] by blast
  then show ?thesis unfolding blk_SHA1_Block_def fips_block_def by (simp only: fst_conv)
qed


section \<open>Pieces of a message\<close>

lemma sha_blocks_short: "length d < 64 \<Longrightarrow> sha_blocks H d = (H, d)"
  by (subst sha_blocks.simps) simp

lemma sha_blocks_step: "64 \<le> length d \<Longrightarrow> sha_blocks H d = sha_blocks (blk_SHA1_Block H (take 64 d)) (drop 64 d)"
  by (subst sha_blocks.simps) simp

lemma sha_blocks_rest: "length (snd (sha_blocks H d)) = length d mod 64"
proof (induction H d rule: sha_blocks.induct)
  case (1 H d)
  show ?case
  proof (cases "64 \<le> length d")
    case True
    with 1 [OF True] show ?thesis unfolding sha_blocks_step [OF True] by (simp add: le_mod_geq)
  qed (simp add: sha_blocks_short)
qed

lemma sha_blocks_append: "sha_blocks H (a @ b) = sha_blocks (fst (sha_blocks H a)) (snd (sha_blocks H a) @ b)"
proof (induction H a rule: sha_blocks.induct)
  case (1 H a)
  show ?case
  proof (cases "64 \<le> length a")
    case True
    then have ab: "64 \<le> length (a @ b)" by simp
    from 1 [OF True] True show ?thesis unfolding sha_blocks_step [OF True] sha_blocks_step [OF ab] by simp
  qed (simp add: sha_blocks_short)
qed

text \<open>A context stands for the message it was given so far.\<close>

definition represents :: "bytes \<Rightarrow> sha_ctx \<Rightarrow> bool" where
  "represents m ctx \<longleftrightarrow> sha_size ctx = word_of_nat (length m) \<and> length (sha_W ctx) = 64
     \<and> sha_blocks (sha_H blk_SHA1_Init) m = (sha_H ctx, take (length m mod 64) (sha_W ctx))"

lemma size_and_63: "unat ((word_of_nat n :: 64 word) AND 63) = n mod 64"
proof -
  have "(63 :: 64 word) = mask 6" by (simp add: mask_eq_exp_minus_1)
  then have "(word_of_nat n :: 64 word) AND 63 = take_bit 6 (word_of_nat n)" by (simp only: take_bit_eq_mask)
  then have "unat ((word_of_nat n :: 64 word) AND 63) = take_bit 6 (unat (word_of_nat n :: 64 word))"
    by (simp only: unsigned_take_bit_eq)
  also have "\<dots> = n mod 2 ^ 64 mod 2 ^ 6" by (simp add: take_bit_eq_mod unat_of_nat)
  also have "\<dots> = n mod 2 ^ 6" by (rule mod_mod_cancel) (simp add: le_imp_power_dvd)
  finally show ?thesis by simp
qed

lemma put_at_length: "k + length d \<le> length W \<Longrightarrow> length (put_at k d W) = length W"
  by (simp add: put_at_def)

lemma take_put_at: "k + length d \<le> length W \<Longrightarrow> take (k + length d) (put_at k d W) = take k W @ d"
  by (simp add: put_at_def)

lemma represents_init: "represents [] blk_SHA1_Init"
  by (simp add: represents_def blk_SHA1_Init_def sha_blocks_short)

text \<open>The part of an update behind the buffered bytes.\<close>

lemma update_tail:
  assumes "length W = 64" "sha_blocks (sha_H blk_SHA1_Init) m = (H, [])"
    and "sha_blocks H d = (H', rest)" "W' = (if rest = [] then W else put_at 0 rest W)"
  shows "length W' = 64 \<and> sha_blocks (sha_H blk_SHA1_Init) (m @ d) = (H', take (length (m @ d) mod 64) W')"
proof -
  have b: "sha_blocks (sha_H blk_SHA1_Init) (m @ d) = (H', rest)" by (subst sha_blocks_append) (use assms(2,3) in simp)
  then have len: "length rest = length (m @ d) mod 64" using sha_blocks_rest [of "sha_H blk_SHA1_Init" "m @ d"] by simp
  then have lt: "length rest < 64" by simp
  show ?thesis
  proof (cases "rest = []")
    case True
    with len b assms(1,4) show ?thesis by simp
  next
    case False
    with assms(1,4) lt take_put_at [of 0 rest W] put_at_length [of 0 rest W] b len show ?thesis by simp
  qed
qed

lemma represents_update:
  assumes "represents m ctx"
  shows "represents (m @ d) (blk_SHA1_Update d ctx)"
proof -
  let ?H0 = "sha_H blk_SHA1_Init" and ?l = "length m mod 64"
  have W: "length (sha_W ctx) = 64" and B: "sha_blocks ?H0 m = (sha_H ctx, take ?l (sha_W ctx))"
    and s: "sha_size ctx + word_of_nat (length d) = word_of_nat (length (m @ d))" and l: "unat (sha_size ctx AND 63) = ?l"
    using assms by (simp_all add: represents_def size_and_63)
  consider (whole) "?l = 0" | (part) "?l \<noteq> 0" "length d < 64 - ?l" | (fill) "?l \<noteq> 0" "64 - ?l \<le> length d" by linarith
  then show ?thesis
  proof cases
    case whole
    obtain H' rest where t: "sha_blocks (sha_H ctx) d = (H', rest)" by fastforce
    from update_tail [OF W _ t refl, of m] B whole s l t show ?thesis
      by (auto simp: represents_def blk_SHA1_Update_def Let_def)
  next
    case part
    let ?W = "put_at ?l d (sha_W ctx)"
    have u: "blk_SHA1_Update d ctx = ctx\<lparr>sha_size := word_of_nat (length (m @ d)), sha_W := ?W\<rparr>"
      using part s l by (simp add: blk_SHA1_Update_def Let_def)
    have m: "length (m @ d) mod 64 = ?l + length d" 
    proof -
      have "(length m + length d) mod 64 = (?l + length d) mod 64" by (rule mod_add_left_eq [symmetric])
      also have "\<dots> = ?l + length d" by (rule mod_less) (use part(2) in linarith)
      finally show ?thesis by simp
    qed
    have "sha_blocks ?H0 (m @ d) = (sha_H ctx, take ?l (sha_W ctx) @ d)"
      by (subst sha_blocks_append) (use part(2) W B in \<open>simp add: sha_blocks_short\<close>)
    also have "\<dots> = (sha_H ctx, take (?l + length d) ?W)" using part(2) W by (simp add: take_put_at)
    finally show ?thesis using part(2) W unfolding represents_def u m by (simp add: put_at_length)
  next
    case fill
    let ?k = "64 - ?l"
    let ?W = "put_at ?l (take ?k d) (sha_W ctx)"
    have lW: "length ?W = 64" using fill W by (simp add: put_at_length)
    have fullW: "?W = take ?l (sha_W ctx) @ take ?k d" using fill W by (simp add: put_at_def)
    have "sha_blocks ?H0 (m @ take ?k d) = sha_blocks (sha_H ctx) ?W"
      by (subst sha_blocks_append) (simp only: B fullW fst_conv snd_conv)
    also have "\<dots> = (blk_SHA1_Block (sha_H ctx) ?W, [])" using lW by (simp add: sha_blocks_step sha_blocks_short)
    finally have B': "sha_blocks ?H0 (m @ take ?k d) = (blk_SHA1_Block (sha_H ctx) ?W, [])" .
    obtain H' rest where t: "sha_blocks (blk_SHA1_Block (sha_H ctx) ?W) (drop ?k d) = (H', rest)" by fastforce
    have min: "min ?k (length d) = ?k" using fill(2) by simp
    have z: "(?l + ?k) mod 64 = 0" by simp
    have u: "blk_SHA1_Update d ctx = ctx\<lparr>sha_size := word_of_nat (length (m @ d)), sha_H := H',
        sha_W := if rest = [] then ?W else put_at 0 rest ?W\<rparr>"
      unfolding blk_SHA1_Update_def Let_def l min s using fill(1) z t by simp
    from update_tail [OF lW B' t refl] show ?thesis unfolding represents_def u by simp
  qed
qed


section \<open>The digest\<close>

lemma fips_blocks_eq: "fips_blocks H d = fst (sha_blocks H d)"
proof (induction H d rule: sha_blocks.induct)
  case (1 H d)
  show ?case
  proof (cases "64 \<le> length d")
    case True
    then show ?thesis using 1 [OF True] unfolding sha_blocks_step [OF True]
      by (subst fips_blocks.simps) (simp add: block_eq)
  qed (simp add: sha_blocks_short fips_blocks.simps)
qed

lemma be64_split:
  "put_be32 (ucast (drop_bit 29 s)) @ put_be32 (ucast (push_bit 3 s)) = be64 (push_bit 3 s)" for s :: "64 word"
proof -
  have hi: "(ucast (drop_bit k (ucast (drop_bit 29 s) :: w32)) :: 8 word) = ucast (drop_bit (k + 32) (push_bit 3 s))"
    if "k \<le> 24" for k
    using that by (intro bit_word_eqI) (auto simp: bit_simps add.commute add.left_commute)
  have lo: "(ucast (drop_bit k (ucast (push_bit 3 s) :: w32)) :: 8 word) = ucast (drop_bit k (push_bit 3 s))"
    if "k \<le> 24" for k
    using that by (intro bit_word_eqI) (auto simp: bit_simps)
  show ?thesis using hi [of 24] hi [of 16] hi [of 8] hi [of 0] lo [of 24] lo [of 16] lo [of 8] lo [of 0]
    by (simp add: put_be32_def be64_def)
qed

lemma pad_mod: "(55 - int (n mod 64)) mod 64 = (55 - int n) mod 64"
  by (simp add: zmod_int mod_diff_right_eq)

lemma final_represents:
  assumes "represents m ctx"
  shows "blk_SHA1_Final ctx = fips_sha1 m"
proof -
  let ?k = "nat ((55 - int (length m)) mod 64)"
  have s: "sha_size ctx = word_of_nat (length m)" using assms by (simp add: represents_def)
  have i: "int (unat (sha_size ctx AND 63)) = int (length m mod 64)" by (simp only: s size_and_63)
  have k: "?k \<le> 63" using pos_mod_bound [of 64 "55 - int (length m)"] by linarith
  have pad: "take (1 + nat ((55 - int (unat (sha_size ctx AND 63))) mod 64)) (0x80 # replicate 63 0) = (0x80 :: 8 word) # replicate ?k 0"
    unfolding i pad_mod using k by (simp add: min_def)
  have len: "push_bit 3 (sha_size ctx) = word_of_nat (8 * length m)" by (simp add: s push_bit_eq_mult mult.commute)
  define ctx2 where "ctx2 = blk_SHA1_Update (be64 (word_of_nat (8 * length m))) (blk_SHA1_Update (0x80 # replicate ?k 0) ctx)"
  have "represents (fips_pad m) ctx2"
    using represents_update [OF represents_update [OF assms, of "0x80 # replicate ?k 0"], of "be64 (word_of_nat (8 * length m))"]
    by (simp add: fips_pad_def ctx2_def)
  then have H: "fips_blocks (sha_H blk_SHA1_Init) (fips_pad m) = sha_H ctx2" by (simp add: fips_blocks_eq represents_def)
  have padlen: "put_be32 (ucast (drop_bit 29 (sha_size ctx))) @ put_be32 (ucast (push_bit 3 (sha_size ctx)))
      = be64 (word_of_nat (8 * length m))" using be64_split [of "sha_size ctx"] by (simp only: len)
  show ?thesis unfolding blk_SHA1_Final_def fips_sha1_def Let_def pad padlen ctx2_def [symmetric] H ..
qed

text \<open>The hash of a message that is given in pieces.\<close>

definition sha1_pieces :: "bytes list \<Rightarrow> bytes" where
  "sha1_pieces ms = blk_SHA1_Final (fold blk_SHA1_Update ms blk_SHA1_Init)"

text \<open>
  C32: the hash implements the standard. However a message is cut into pieces, initialising the
  context, updating it with the pieces in order and finishing it gives the hash that FIPS 180
  defines on the whole message: the padded message in blocks of 64 bytes, each processed with the
  schedule of 80 words and the round functions of the standard.
\<close>

theorem sha1_refines_fips: "sha1_pieces ms = fips_sha1 (concat ms)"
proof -
  have "represents m ctx \<Longrightarrow> represents (m @ concat ms) (fold blk_SHA1_Update ms ctx)" for m ctx
  proof (induction ms arbitrary: m ctx)
    case (Cons x xs)
    from Cons(1) [OF represents_update [OF Cons(2), of x]] show ?case by simp
  qed simp
  from final_represents [OF this [OF represents_init]] show ?thesis by (simp add: sha1_pieces_def)
qed

end
