(* ===== verification/Mk_Auth.thy ===== *)
theory Mk_Auth
  imports Mk_Confine Auth_Base64 Auth_Sha1
begin

text \<open>
  \<^verbatim>\<open>plugins/auth/auth.c\<close> and \<^verbatim>\<open>plugins/auth/conf.c\<close>: the users files, the check of credentials and the
  handler of stage 30 that guards locations. A decoded text is a buffer: its size and the bytes
  written to it.
\<close>

section \<open>Users files\<close>

record auth_user =
  au_user :: cstr
  au_passwd :: "nat \<times> cstr"

record users_file =
  uf_path :: cstr
  uf_users :: "auth_user list"

text \<open>
  The line of a users file that starts at \<open>offset\<close> and ends before \<open>i\<close>. \<open>strncpy\<close> fills the whole
  count it is given; the arrays have 128 and 256 bytes. \<open>None\<close> is a line whose password cannot be
  decoded.
\<close>

definition users_line :: "cstr \<Rightarrow> nat \<Rightarrow> nat \<Rightarrow> cerr + auth_user option" where
  "users_line buf offset i =
     (let sep = mk_string_search (drop offset buf) '':'' MK_STR_INSENSITIVE in
      if sep < 0 then Inl OutOfBounds
      else
        let k = nat sep; pos = offset + k + 1 + 5 in
        if 128 < offset + k \<or> 128 \<le> k then Inl OutOfBounds
        else if i < pos \<or> 256 \<le> i - pos then Inl OutOfBounds
        else
          let raw = cstring (take (i - pos) (drop pos buf)) in
          Inr (map_option (\<lambda>d. \<lparr>au_user = take k (drop offset buf), au_passwd = d\<rparr>) (base64_decode raw)))"

function users_loop :: "cstr \<Rightarrow> nat \<Rightarrow> nat \<Rightarrow> auth_user list \<Rightarrow> cerr + auth_user list" where
  "users_loop buf i offset users =
     (if strlen buf \<le> i then Inr users
      else if buf ! i = CHR 0x0A \<or> i = strlen buf - 1 then
        bindE (users_line buf offset i) (\<lambda>u.
          users_loop buf (i + 1) (i + 1) (users @ (case u of None \<Rightarrow> [] | Some c \<Rightarrow> [c])))
      else users_loop buf (i + 1) offset users)"
  by pat_completeness auto
termination
  by (relation "measure (\<lambda>(buf, i, offset, users). strlen buf - i)") auto

declare users_loop.simps [simp del]

text \<open>
  \<open>mk_auth_conf_add_users\<close>: a file is read once. \<open>info\<close> is the answer of \<open>file_get_info\<close> and
  \<open>buf\<close> that of \<open>file_to_buffer\<close>.
\<close>

definition mk_auth_conf_add_users ::
  "(cstr \<Rightarrow> int \<times> file_info) \<Rightarrow> (cstr \<Rightarrow> cstr option) \<Rightarrow> cstr \<Rightarrow> users_file list \<Rightarrow>
   cerr + users_file option \<times> users_file list" where
  "mk_auth_conf_add_users info buf path files =
     (case find (\<lambda>e. strcmp_eq (uf_path e) path) files of
        Some e \<Rightarrow> Inr (Some e, files)
      | None \<Rightarrow>
          let (r, fi) = info path in
          if r \<noteq> 0 \<or> fi_is_directory fi \<or> \<not> fi_read_access fi then Inr (None, files)
          else
            (case buf path of
               None \<Rightarrow> Inr (None, files)
             | Some b \<Rightarrow>
                 bindE (users_loop b 0 0 []) (\<lambda>us.
                   let e = \<lparr>uf_path = path, uf_users = us\<rparr> in Inr (Some e, files @ [e]))))"

record auth_location =
  lo_path :: mk_pointer
  lo_title :: mk_pointer
  lo_header :: mk_pointer
  lo_users :: users_file

record auth_vhost =
  av_host :: host
  av_locations :: "auth_location list"

text \<open>The value of a key as a string; a missing one is the null pointer.\<close>

definition auth_key :: "mk_config_section \<Rightarrow> cstr \<Rightarrow> cstr option" where
  "auth_key section key =
     (case mk_config_section_getval section key MK_CONFIG_VAL_STR of VStr v \<Rightarrow> Some v | _ \<Rightarrow> None)"

text \<open>
  \<open>mk_auth_conf_init_users_list\<close>: the sections of one host, then all hosts. A section whose users
  file cannot be loaded is left out. A missing key is dereferenced.
\<close>

fun auth_sections ::
  "(cstr \<Rightarrow> int \<times> file_info) \<Rightarrow> (cstr \<Rightarrow> cstr option) \<Rightarrow> mk_config_section list \<Rightarrow> users_file list \<Rightarrow>
   cerr + auth_location list \<times> users_file list" where
  "auth_sections info buf [] files = Inr ([], files)"
| "auth_sections info buf (s # ss) files =
     (if strcasecmp_eq (sec_name s) ''AUTH'' then
        (case (auth_key s ''Location'', auth_key s ''Title'', auth_key s ''Users'') of
           (Some location, Some title, Some path) \<Rightarrow>
             bindE (mk_auth_conf_add_users info buf path files) (\<lambda>(uf, files1).
               bindE (auth_sections info buf ss files1) (\<lambda>(locs, files2).
                 case uf of
                   None \<Rightarrow> Inr (locs, files2)
                 | Some u \<Rightarrow>
                     Inr (\<lparr>lo_path = mk_pointer_set location, lo_title = mk_pointer_set title,
                           lo_header = built (''WWW-Authenticate: Basic realm='' @ [CHR 0x22] @ cstring title @ [CHR 0x22]),
                           lo_users = u\<rparr> # locs, files2)))
         | _ \<Rightarrow> Inl NullDeref)
      else auth_sections info buf ss files)"

fun mk_auth_conf_init_users_list ::
  "(cstr \<Rightarrow> int \<times> file_info) \<Rightarrow> (cstr \<Rightarrow> cstr option) \<Rightarrow> (host \<times> mk_config_section list) list \<Rightarrow> users_file list \<Rightarrow>
   cerr + auth_vhost list \<times> users_file list" where
  "mk_auth_conf_init_users_list info buf [] files = Inr ([], files)"
| "mk_auth_conf_init_users_list info buf ((h, sections) # hs) files =
     bindE (auth_sections info buf sections files) (\<lambda>(locs, files1).
       bindE (mk_auth_conf_init_users_list info buf hs files1) (\<lambda>(vhs, files2).
         Inr (\<lparr>av_host = h, av_locations = locs\<rparr> # vhs, files2)))"

section \<open>Credentials\<close>

abbreviation MK_AUTH_HEADER_REQUEST :: cstr where "MK_AUTH_HEADER_REQUEST \<equiv> ''Authorization:''"
abbreviation MK_AUTH_HEADER_BASIC :: cstr where "MK_AUTH_HEADER_BASIC \<equiv> ''Basic ''"

definition sha1_text :: "cstr \<Rightarrow> cstr" where
  "sha1_text t = map chr (blk_SHA1_Final (blk_SHA1_Update (map octet t) blk_SHA1_Init))"

text \<open>The first user whose name agrees with the given one on its length decides.\<close>

definition auth_match :: "auth_user list \<Rightarrow> cstr \<Rightarrow> nat \<Rightarrow> cstr \<Rightarrow> cerr + int" where
  "auth_match users decoded sep digest =
     (case find (\<lambda>u. strncmp_eq (au_user u) decoded sep) users of
        None \<Rightarrow> Inr (-1)
      | Some u \<Rightarrow>
          if length (snd (au_passwd u)) < 20 then Inl OutOfBounds
          else Inr (if take 20 (snd (au_passwd u)) = digest then 0 else -1))"

text \<open>
  \<open>mk_auth_validate_user\<close>: the result of the decoder is used without a test, and the terminator is
  stored behind the decoded bytes.
\<close>

definition mk_auth_validate_user :: "users_file \<Rightarrow> cstr \<Rightarrow> nat \<Rightarrow> cerr + int" where
  "mk_auth_validate_user users credentials len =
     (if len \<le> 6 + 1 then Inr (-1)
      else if \<not> strncmp_eq credentials MK_AUTH_HEADER_BASIC 6 then Inr (-1)
      else if length credentials < len then Inl OutOfBounds
      else
        (case base64_decode (take (len - 6) (drop 6 credentials)) of
           None \<Rightarrow> Inl NullDeref
         | Some (allocated, decoded) \<Rightarrow>
             if allocated \<le> length decoded then Inl OutOfBounds
             else if length decoded \<le> 3 then Inr (-1)
             else
               let sep = mk_string_search_n (decoded @ [NUL]) '':'' MK_STR_INSENSITIVE (int (length decoded)) in
               if sep = -1 \<or> sep = 0 \<or> sep = int (length decoded) - 1 then Inr (-1)
               else auth_match (uf_users users) (decoded @ [NUL]) (nat sep)
                      (sha1_text (drop (nat sep + 1) decoded))))"

section \<open>Stage 30\<close>


definition mk_plugin_header_add :: "nat \<Rightarrow> mk_pointer \<Rightarrow> unit action" where
  "mk_plugin_header_add i row =
     bindA (get_sr i) (\<lambda>sr.
       let rows = (case rh_extra_rows (sr_headers sr) of
                     None \<Rightarrow> mk_iov_create (MK_PLUGIN_HEADER_EXTRA_ROWS * 2) 0 | Some r \<Rightarrow> r)
       in bindA (liftE (mk_iov_add_entry rows row mk_iov_crlf False)) (\<lambda>rows1.
            upd_headers i (\<lambda>sh. sh\<lparr>rh_extra_rows := Some rows1\<rparr>)))"

text \<open>The entry of the request's host, or the last one; then the first location the URI starts with.\<close>

definition auth_vhost_of :: "auth_vhost list \<Rightarrow> session_request \<Rightarrow> auth_vhost option" where
  "auth_vhost_of vhosts sr =
     (case find (\<lambda>v. sr_host_conf sr = Some (av_host v)) vhosts of
        Some v \<Rightarrow> Some v
      | None \<Rightarrow> if vhosts = [] then None else Some (last vhosts))"

definition auth_location_of :: "auth_vhost \<Rightarrow> session_request \<Rightarrow> auth_location option" where
  "auth_location_of v sr =
     find (\<lambda>l. p_len (lo_path l) \<le> p_len (sr_uri_processed sr)
             \<and> strncmp_eq (view (sr_uri_processed sr)) (view (lo_path l)) (p_len (lo_path l))) (av_locations v)"

definition auth_credentials :: "session_request \<Rightarrow> mk_pointer \<times> headers_toc" where
  "auth_credentials sr = mk_request_header_get (sr_headers_toc sr) MK_AUTH_HEADER_REQUEST 14"

definition auth_refuse :: "env \<Rightarrow> nat \<Rightarrow> auth_location \<Rightarrow> int action" where
  "auth_refuse en i l =
     thenA (upd_headers i (\<lambda>sh. sh\<lparr>rh_content_length := 0\<rparr>))
       (thenA (set_status i 401)
         (thenA (mk_plugin_header_add i (lo_header l))
           (bindA get_cs (\<lambda>cs. thenA (mk_header_send en (cs_socket cs) i) (returnA MK_PLUGIN_RET_END)))))"

definition auth_stage_30 :: "env \<Rightarrow> auth_vhost list \<Rightarrow> nat \<Rightarrow> int action" where
  "auth_stage_30 en vhosts i =
     bindA (get_sr i) (\<lambda>sr.
       case auth_vhost_of vhosts sr of
         None \<Rightarrow> failA NullDeref
       | Some v \<Rightarrow>
           (case auth_location_of v sr of
              None \<Rightarrow> returnA MK_PLUGIN_RET_NOT_ME
            | Some l \<Rightarrow>
                let (res, toc) = auth_credentials sr in
                thenA (upd_sr i (\<lambda>r. r\<lparr>sr_headers_toc := toc\<rparr>))
                  (case p_data res of
                     None \<Rightarrow> auth_refuse en i l
                   | Some d \<Rightarrow>
                       if 0 < p_len res then
                         bindA (liftE (mk_auth_validate_user (lo_users l) d (p_len res))) (\<lambda>val.
                           if val = 0 then returnA MK_PLUGIN_RET_NOT_ME else auth_refuse en i l)
                       else auth_refuse en i l)))"

section \<open>What is checked\<close>

lemma case_eq_colon: "case_eq (CHR '':'') c \<longleftrightarrow> c = CHR '':''"
proof -
  have b: "byte (CHR '':'') = 58" by (simp add: byte_def)
  show ?thesis unfolding case_eq_def byte_eq_iff [symmetric] byte_c_toupper b by auto
qed

lemma search_colon:
  assumes "CHR '':'' \<notin> set u" "NUL \<notin> set u" "i + length u < len"
  shows "search_loop MK_STR_INSENSITIVE '':'' len (u @ CHR '':'' # r) i = int (i + length u)"
  using assms
proof (induction u arbitrary: i)
  case Nil
  then show ?case by (simp add: eq_of_def case_eq_def)
next
  case (Cons c u)
  then show ?case by (auto simp: eq_of_def case_eq_colon)
qed

lemma decode_nonempty: "base64_decode src = Some d \<Longrightarrow> 1 < length src"
  by (cases src rule: remdups_adj.cases) (auto simp: base64_decode_def Let_def split: if_splits)

text \<open>The user that decides: the first one the given name is a prefix of.\<close>

definition auth_candidate :: "auth_user list \<Rightarrow> cstr \<Rightarrow> auth_user option" where
  "auth_candidate users name = find (\<lambda>u. prefix name (au_user u)) users"

lemma strncmp_name:
  assumes "NUL \<notin> set name" "NUL \<notin> set (au_user u)"
  shows "strncmp_eq (au_user u) (name @ x) (length name) \<longleftrightarrow> prefix name (au_user u)"
proof -
  have c: "take (length name) (cstring (name @ x)) = name"
    using take_cstring_prefix [of "length name" "name @ x"] assms(1) by simp
  show ?thesis unfolding strncmp_eq_iff c cstring_no_NUL [OF assms(2)]
    by (metis append_eq_conv_conj prefix_def append_take_drop_id)
qed

text \<open>
  C31: the check of credentials. For a text \<open>name:password\<close> of more than three bytes, neither part
  empty and no colon in the name, sent base64 encoded behind \<open>Basic\<close>, and when the encoding is
  padded, the check succeeds exactly when the first user whose name starts with the given name has
  the SHA-1 hash of the password stored. (When the encoding is not padded the terminator is
  written behind the decoded buffer.)
\<close>

theorem mk_auth_validate_user_correct:
  assumes "name \<noteq> []" "pass \<noteq> []" "CHR '':'' \<notin> set name" "NUL \<notin> set name" "3 < length (name @ CHR '':'' # pass)"
    and "length (name @ CHR '':'' # pass) < 2 ^ 60" "length (name @ CHR '':'' # pass) mod 3 \<noteq> 0"
    and "base64_encode (name @ CHR '':'' # pass) = Inr (Some code)"
    and "\<And>u. u \<in> set (uf_users users) \<Longrightarrow> NUL \<notin> set (au_user u) \<and> length (snd (au_passwd u)) = 20"
  shows "mk_auth_validate_user users (MK_AUTH_HEADER_BASIC @ code @ rest) (6 + length code) =
    Inr (case auth_candidate (uf_users users) name of
           None \<Rightarrow> -1
         | Some u \<Rightarrow> if snd (au_passwd u) = map chr (fips_sha1 (map octet pass)) then 0 else -1)"
proof -
  let ?m = "name @ CHR '':'' # pass" and ?c = "MK_AUTH_HEADER_BASIC @ code @ rest"
  have dec: "base64_decode code = Some ((length ?m + 2) div 3 * 3, ?m)" by (rule decode_encode [OF _ assms(8)]) simp
  then have long: "1 < length code" by (rule decode_nonempty)
  have basic: "strncmp_eq ?c MK_AUTH_HEADER_BASIC 6" by (simp add: strncmp_eq_def eval_nat_numeral)
  have tk: "take (6 + length code - 6) (drop 6 ?c) = code" by simp
  have alloc: "\<not> (length ?m + 2) div 3 * 3 \<le> length ?m" using assms(7) by presburger
  have sep: "mk_string_search_n (?m @ [NUL]) '':'' MK_STR_INSENSITIVE (int (length ?m)) = int (length name)"
    using search_colon [of name 0 "length ?m" "pass @ [NUL]"] assms(3,4)
    unfolding mk_string_search_n_def string_search_base_def nat_int by simp
  have dig: "sha1_text (drop (length name + 1) ?m) = map chr (fips_sha1 (map octet pass))"
    using final_represents [OF represents_update [OF represents_init]] by (simp add: sha1_text_def)
  have match: "auth_match (uf_users users) (?m @ [NUL]) (length name) d =
      Inr (case auth_candidate (uf_users users) name of
           None \<Rightarrow> -1 | Some u \<Rightarrow> if snd (au_passwd u) = d then 0 else -1)" for d
  proof -
    have "find (\<lambda>u. strncmp_eq (au_user u) (?m @ [NUL]) (length name)) (uf_users users) = auth_candidate (uf_users users) name"
      unfolding auth_candidate_def
    proof (rule find_cong [OF refl])
      fix u assume "u \<in> set (uf_users users)"
      then have "NUL \<notin> set (au_user u)" using assms(9) by blast
      from strncmp_name [OF assms(4) this, of "CHR '':'' # pass @ [NUL]"]
      show "strncmp_eq (au_user u) (?m @ [NUL]) (length name) = prefix name (au_user u)" by simp
    qed
    moreover have "length (snd (au_passwd u)) = 20" if "auth_candidate (uf_users users) name = Some u" for u
      using that assms(9) by (auto simp: auth_candidate_def dest: find_in_set)
    ultimately show ?thesis by (auto simp: auth_match_def split: option.split)
  qed
  show ?thesis unfolding mk_auth_validate_user_def tk dec option.case prod.case Let_def sep nat_int match dig
    using basic long alloc assms(1,2,5) by simp
qed


definition demo_users :: users_file where
  "demo_users = \<lparr>uf_path = ''/etc/users'',
     uf_users = [\<lparr>au_user = ''admin'', au_passwd = (21, map chr (fips_sha1 (map octet ''secret'')))\<rparr>]\<rparr>"

lemma fips_sha1_length: "length (fips_sha1 m) = 20"
  by (simp add: fips_sha1_def put_be32_def split: prod.split)

theorem mk_auth_validate_user_correct_witness:
  "\<exists>code. base64_encode ''adm:secret'' = Inr (Some code) \<and>
     mk_auth_validate_user demo_users (MK_AUTH_HEADER_BASIC @ code) (6 + length code) = Inr 0"
proof -
  obtain code where code: "base64_encode (''adm'' @ CHR '':'' # ''secret'') = Inr (Some code)"
    by (simp add: base64_encode_def encode_olen_def Let_def)
  have u: "NUL \<notin> set (au_user u) \<and> length (snd (au_passwd u)) = 20" if "u \<in> set (uf_users demo_users)" for u
    using that by (simp add: demo_users_def fips_sha1_length)
  have "mk_auth_validate_user demo_users (MK_AUTH_HEADER_BASIC @ code @ []) (6 + length code) = Inr 0"
    by (subst mk_auth_validate_user_correct [OF _ _ _ _ _ _ _ code u])
      (simp_all add: auth_candidate_def demo_users_def prefix_def)
  with code show ?thesis by auto
qed

section \<open>Guarded locations\<close>

text \<open>A request for a guarded location whose credentials are not accepted.\<close>

definition refused :: "auth_vhost list \<Rightarrow> session_request \<Rightarrow> bool" where
  "refused vhosts sr \<longleftrightarrow>
     (case auth_vhost_of vhosts sr of
        None \<Rightarrow> False
      | Some v \<Rightarrow>
          (case auth_location_of v sr of
             None \<Rightarrow> False
           | Some l \<Rightarrow>
               (case p_data (fst (auth_credentials sr)) of
                  None \<Rightarrow> True
                | Some d \<Rightarrow> p_len (fst (auth_credentials sr)) = 0
                    \<or> mk_auth_validate_user (lo_users l) d (p_len (fst (auth_credentials sr))) \<noteq> Inr 0)))"

text \<open>What the decision depends on.\<close>

definition guard_same :: "session_request \<Rightarrow> session_request \<Rightarrow> bool" where
  "guard_same a b \<longleftrightarrow> sr_host_conf b = sr_host_conf a \<and> sr_uri_processed b = sr_uri_processed a
     \<and> sr_headers_toc b = sr_headers_toc a \<and> sr_handled_by b = sr_handled_by a
     \<and> sr_stage30_blocked b = sr_stage30_blocked a"

lemma refused_cong: "guard_same a b \<Longrightarrow> refused vhosts b = refused vhosts a"
proof -
  assume g: "guard_same a b"
  have "auth_vhost_of vhosts b = auth_vhost_of vhosts a" "auth_credentials b = auth_credentials a"
    using g by (simp_all add: guard_same_def auth_vhost_of_def auth_credentials_def)
  moreover have "auth_location_of v b = auth_location_of v a" for v using g by (simp add: guard_same_def auth_location_of_def)
  ultimately show ?thesis unfolding refused_def by (simp only:)
qed

definition guard_inv :: "nat \<Rightarrow> host set \<Rightarrow> cstr set \<Rightarrow> req_state \<Rightarrow> req_state \<Rightarrow> bool" where
  "guard_inv i H A s0 s \<longleftrightarrow> page_inv i H A s0 s \<and> guard_same (sr_of i s0) (sr_of i s)"

lemma page_inv_len: "page_inv i H A s0 s \<Longrightarrow> i < length (cs_request_list (rs_cs s))"
  by (simp add: page_inv_def)

interpretation guard: response_inv en i "guard_inv i H A s0" for en i H A s0
proof unfold_locales
  fix s e assume "guard_inv i H A s0 s" "quiet e"
  then show "guard_inv i H A s0 (s\<lparr>rs_trace := rs_trace s @ [e]\<rparr>)" by (simp add: guard_inv_def page.emit_inv)
next
  fix s g assume "guard_inv i H A s0 s"
  then show "guard_inv i H A s0 (s\<lparr>rs_gmt := g\<rparr>)" by (simp add: guard_inv_def page.gmt_inv)
next
  fix s f assume s: "guard_inv i H A s0 s" and f: "sr_same (sr_of i s) (f (sr_of i s))"
  then have "page_inv i H A s0 (set_sr i f s)" by (simp add: guard_inv_def page.sr_inv)
  moreover have "guard_same (sr_of i s0) (f (sr_of i s))" using s f by (simp add: guard_inv_def guard_same_def sr_same_def)
  moreover have "i < length (cs_request_list (rs_cs s))" using s by (auto simp: guard_inv_def intro: page_inv_len)
  ultimately show "guard_inv i H A s0 (set_sr i f s)" by (simp add: guard_inv_def)
next
  fix s h e fl fd
  assume "guard_inv i H A s0 s" "sr_host_conf (sr_of i s) = Some h" "e \<in> set (h_error_pages h)"
  then show "guard_inv i H A s0 (s\<lparr>rs_trace := rs_trace s @ [EOpen (ep_real_path e) fl fd]\<rparr>)"
    by (simp add: guard_inv_def page.error_page_inv)
qed

text \<open>The parts that change the path of the request.\<close>

lemma guard_set_path:
  assumes "guard_inv i H A s0 s"
  shows "guard_inv i H A s0 (set_sr i (\<lambda>r. r\<lparr>sr_real_path := p, sr_real_path_static := st\<rparr>) s)"
proof -
  have "i < length (cs_request_list (rs_cs s))" using assms by (auto simp: guard_inv_def intro: page_inv_len)
  then show ?thesis using assms by (simp add: guard_inv_def guard_same_def page_inv_set_sr)
qed

lemma guard_compose: "triple (guard_inv i H A s0) (http_compose_path i) (\<lambda>_. guard_inv i H A s0)"
proof (rule tripleI)
  fix s x s' assume "guard_inv i H A s0 s" "http_compose_path i s = Inr (x, s')"
  then show "guard_inv i H A s0 s'"
    by (auto simp: http_compose_path_def bindA_def thenA_def Let_def intro!: guard_set_path split: if_splits option.splits)
qed

lemma guard_file_info: "triple (guard_inv i H A s0) (http_file_info en i) (\<lambda>_. guard_inv i H A s0)"
proof (rule tripleI)
  fix s x s' assume s: "guard_inv i H A s0 s" and r: "http_file_info en i s = Inr (x, s')"
  obtain fi where "s' = set_sr i (\<lambda>r. r\<lparr>sr_file_info := fi\<rparr>) s"
    using r by (auto simp: http_file_info_def Let_def thenA_def bindA_def split: prod.splits)
  then show "guard_inv i H A s0 s'" using s by (auto intro!: guard.sr_inv simp: sr_same_def)
qed

lemma guard_index: "triple (guard_inv i H A s0) (http_index en i) (\<lambda>_. guard_inv i H A s0)"
proof (rule tripleI)
  fix s x s' assume s: "guard_inv i H A s0 s" and r: "http_index en i s = Inr (x, s')"
  show "guard_inv i H A s0 s'"
  proof (cases "p_data (mk_request_index en (rs_trace s) (real_path_str (sr_of i s)) MAX_PATH)")
    case None
    with r s show ?thesis by (simp add: http_index_def Let_def)
  next
    case (Some d)
    then obtain p st y where "http_file_info en i (set_sr i (\<lambda>r. r\<lparr>sr_real_path := p, sr_real_path_static := st\<rparr>) s) = Inr (y, s')"
      using r unfolding http_index_def Let_def by (auto simp: thenA_Inr_iff)
    with tripleD [OF guard_file_info guard_set_path [OF s]] show ?thesis by blast
  qed
qed

text \<open>The handler refuses, and what it sends opens nothing.\<close>

lemma page_header_add: "triple (page_inv i H A s0) (mk_plugin_header_add i row) (\<lambda>_. page_inv i H A s0)"
  unfolding mk_plugin_header_add_def Let_def by (intro page.keeps_rules)

lemma page_auth_refuse:
  "triple (page_inv i H A s0) (auth_refuse en i l) (\<lambda>r s. r = MK_PLUGIN_RET_END \<and> page_inv i H A s0 s)"
  unfolding auth_refuse_def
  by (rule triple_then [OF page.keeps_upd_headers], rule triple_then [OF page.keeps_set_status],
      rule triple_then [OF page_header_add], rule triple_get_cs,
      rule triple_then [OF page.keeps_header_send], rule tripleI) simp

lemma auth_stage_30_refuses:
  assumes "refused vhosts (sr_of i s)" "page_inv i H A s0 s" "auth_stage_30 en vhosts i s = Inr (r, s')"
  shows "r = MK_PLUGIN_RET_END \<and> page_inv i H A s0 s'"
proof -
  let ?sr = "sr_of i s"
  obtain v l where vl: "auth_vhost_of vhosts ?sr = Some v" "auth_location_of v ?sr = Some l"
    using assms(1) by (auto simp: refused_def split: option.splits)
  obtain res toc where c: "auth_credentials ?sr = (res, toc)" by fastforce
  let ?s1 = "set_sr i (\<lambda>r. r\<lparr>sr_headers_toc := toc\<rparr>) s"
  have s1: "page_inv i H A s0 ?s1" by (rule page_inv_set_sr [OF assms(2)]) simp
  have "auth_refuse en i l ?s1 = Inr (r, s')"
    using assms(1,3) vl c unfolding auth_stage_30_def refused_def
    by (auto simp: bindA_def thenA_def liftE_def Let_def split: option.splits if_splits sum.splits)
  with tripleD [OF page_auth_refuse s1] show ?thesis by blast
qed

text \<open>A server whose first handler of stage 30 is the plugin, and a request it refuses.\<close>

definition guarded :: "env \<Rightarrow> auth_vhost list \<Rightarrow> session_request \<Rightarrow> bool" where
  "guarded en vhosts sr \<longleftrightarrow>
     (\<exists>en0 p ps. stage_30 (en_stagemap en) = p # ps \<and> pl_s30 p = auth_stage_30 en0 vhosts)
     \<and> refused vhosts sr \<and> sr_handled_by sr = None \<and> \<not> sr_stage30_blocked sr"

lemma guarded_cong:
  assumes "guarded en vhosts (sr_of i s0)" "guard_inv i H A s0 s"
  shows "refused vhosts (sr_of i s)" "sr_handled_by (sr_of i s) = None" "\<not> sr_stage30_blocked (sr_of i s)" "page_inv i H A s0 s"
  using assms refused_cong [of "sr_of i s0" "sr_of i s" vhosts] by (auto simp: guarded_def guard_inv_def guard_same_def)

lemma guarded_stage_30:
  assumes "guarded en vhosts (sr_of i s0)"
  shows "triple (guard_inv i H A s0) (stage30_run (stage_30 (en_stagemap en)) i)
    (\<lambda>r s. r = MK_PLUGIN_RET_END \<and> page_inv i H A s0 s)"
proof (rule tripleI)
  fix s r s'
  assume s: "guard_inv i H A s0 s" and run: "stage30_run (stage_30 (en_stagemap en)) i s = Inr (r, s')"
  note g = guarded_cong [OF assms s]
  obtain en0 p ps where p: "stage_30 (en_stagemap en) = p # ps" "pl_s30 p = auth_stage_30 en0 vhosts"
    using assms by (auto simp: guarded_def)
  obtain x s1 where a: "auth_stage_30 en0 vhosts i s = Inr (x, s1)"
    using run g(2) p by (auto simp: stage30_run_def bindA_Inr_iff)
  note x = auth_stage_30_refuses [OF g(1) g(4) a]
  then have "Inr (r, s') = (Inr (MK_PLUGIN_RET_END, s1) :: cerr + int \<times> req_state)"
    using run g(2) p a by (simp add: stage30_run_def bindA_def mk_const)
  then show "r = MK_PLUGIN_RET_END \<and> page_inv i H A s0 s'" using x by simp
qed

lemma guarded_result: "stage30_result en i MK_PLUGIN_RET_END = Some (returnA EXIT_NORMAL)"
  by (simp add: stage30_result_def mk_const)

lemma guarded_after_30:
  "triple (\<lambda>s. ret = MK_PLUGIN_RET_END \<and> page_inv i H A s0 s)
     (case stage30_result en i ret of Some a \<Rightarrow> a | None \<Rightarrow> b) (\<lambda>_. page_inv i H A s0)"
  by (rule tripleI) (auto simp: guarded_result)

lemma guarded_handlers:
  assumes "guarded en vhosts (sr_of i s0)"
  shows "triple (guard_inv i H A s0) (http_handlers en i) (\<lambda>_. page_inv i H A s0)"
proof (rule tripleI)
  fix s r s' assume s: "guard_inv i H A s0 s" and run: "http_handlers en i s = Inr (r, s')"
  let ?m = "bindA (stage30_run (stage_30 (en_stagemap en)) i) (\<lambda>ret.
         case stage30_result en i ret of Some a \<Rightarrow> a | None \<Rightarrow> http_static en i)"
  have m: "?m s = Inr (r, s')"
    using run guarded_cong(3) [OF assms s] by (simp add: http_handlers_def bindA_Inr)
  have t: "triple (guard_inv i H A s0) ?m (\<lambda>_. page_inv i H A s0)"
    by (rule triple_bind [OF guarded_stage_30 [OF assms] guarded_after_30])
  from tripleD [OF t s m] show "page_inv i H A s0 s'" .
qed

lemma guard_error: "triple (guard_inv i H A s0) (mk_request_error en st i) (\<lambda>_. page_inv i H A s0)"
  by (rule triple_weaken [OF page.keeps_request_error]) (simp add: guard_inv_def)

lemma guarded_links:
  assumes "guarded en vhosts (sr_of i s0)"
  shows "triple (guard_inv i H A s0) (http_links en i) (\<lambda>_. page_inv i H A s0)"
proof (rule tripleI)
  fix s r s' assume s: "guard_inv i H A s0 s" and run: "http_links en i s = Inr (r, s')"
  then consider "mk_request_error en 403 i s = Inr (r, s')" | "http_handlers en i s = Inr (r, s')"
    by (auto simp: http_links_def Let_def split: if_splits)
  then show "page_inv i H A s0 s'"
    by cases (use tripleD [OF guard_error s] tripleD [OF guarded_handlers [OF assms] s] in blast)+
qed

lemma guarded_directory:
  assumes "guarded en vhosts (sr_of i s0)"
  shows "triple (guard_inv i H A s0) (http_directory en i) (\<lambda>_. page_inv i H A s0)"
proof -
  note links = guarded_links [OF assms]
  have known: "triple (\<lambda>s. guard_inv i H A s0 s \<and> sr_of i s = sr) m Q"
    if "triple (guard_inv i H A s0) m Q" for m :: "'b action" and Q sr
    by (rule triple_weaken [OF that]) simp
  have ret: "triple (guard_inv i H A s0) (returnA (-1)) (\<lambda>_. page_inv i H A s0)"
    by (rule triple_return) (simp add: guard_inv_def)
  show ?thesis unfolding http_directory_def
    by (rule triple_get_sr, rule triple_if, rule triple_bind [OF known [OF guard.keeps_redirect]])
      (intro triple_if ret triple_then [OF guard_index links] known links)+
qed

lemma guarded_missing:
  assumes "guarded en vhosts (sr_of i s0)"
  shows "triple (guard_inv i H A s0) (http_missing en i) (\<lambda>_. page_inv i H A s0)"
  unfolding http_missing_def by (rule triple_bind [OF guarded_stage_30 [OF assms] guarded_after_30])

text \<open>
  C2: a guarded location is not served without credentials. When the authentication plugin is the
  first handler of stage 30 and refuses a request (its URI starts with a guarded location and the
  credentials are missing or not accepted), then serving that request opens no file but error
  pages of its host.
\<close>

theorem auth_protects_location:
  assumes "i < length (cs_request_list (rs_cs s))" "sr_host_conf (sr_of i s) = Some h"
    and "guarded en vhosts (sr_of i s)" "mk_http_init en i s = Inr (r, s')"
  shows "\<exists>new. rs_trace s' = rs_trace s @ new \<and> opened new \<subseteq> ep_real_path ` set (h_error_pages h)"
proof -
  let ?A = "ep_real_path ` set (h_error_pages h)"
  have start: "guard_inv i {h} ?A s s"
    using assms(1,2) by (auto simp: guard_inv_def page_inv_def guard_same_def frame_def intro: exI [of _ "[]"])
  have "triple (guard_inv i {h} ?A s) (mk_http_init en i) (\<lambda>_. page_inv i {h} ?A s)"
    unfolding mk_http_init_def
  proof (rule triple_bind [OF guard_compose], rule triple_if)
    show "triple (guard_inv i {h} ?A s) (returnA EXIT_ERROR) (\<lambda>_. page_inv i {h} ?A s)"
      by (rule triple_return) (simp add: guard_inv_def)
    have known: "triple (\<lambda>t. guard_inv i {h} ?A s t \<and> sr_of i t = sr) m (\<lambda>_. page_inv i {h} ?A s)"
      if "triple (guard_inv i {h} ?A s) m (\<lambda>_. page_inv i {h} ?A s)" for m :: "int action" and sr
      by (rule triple_weaken [OF that]) simp
    show "triple (guard_inv i {h} ?A s) (bindA (get_sr i) (\<lambda>sr.
         if memmem (view (sr_uri_processed sr)) (p_len (sr_uri_processed sr)) ''..'' \<noteq> None
         then mk_request_error en 403 i
         else bindA (http_file_info en i) (\<lambda>ret.
           if ret \<noteq> 0 then http_missing en i else http_directory en i))) (\<lambda>_. page_inv i {h} ?A s)"
      by (rule triple_get_sr) (intro triple_if known guard_error triple_bind [OF guard_file_info]
          guarded_missing [OF assms(3)] guarded_directory [OF assms(3)])
  qed
  from tripleD [OF this start assms(4)] show ?thesis by (auto simp: page_inv_def)
qed

text \<open>The same server as before, with everything below the root guarded.\<close>

definition demo_vhosts :: "auth_vhost list" where
  "demo_vhosts = [\<lparr>av_host = demo_host, av_locations = [\<lparr>lo_path = mk_pointer_set ''/'', lo_title = mk_pointer_set ''t'',
     lo_header = built ''WWW-Authenticate: Basic'', lo_users = \<lparr>uf_path = [], uf_users = []\<rparr>\<rparr>]\<rparr>]"

definition demo_plugin :: plugin where
  "demo_plugin = \<lparr>pl_id = 1, pl_shortname = ''auth'', pl_hooks = MK_PLUGIN_STAGE_30, pl_s10 = (\<lambda>_. -1), pl_s20 = (\<lambda>_ s. (-1, s)),
     pl_s30 = auth_stage_30 demo_env demo_vhosts, pl_s40 = (\<lambda>_ s. (-1, s)), pl_s50 = (\<lambda>_. -1), pl_event_read = None,
     pl_event_write = None, pl_event_error = None, pl_event_close = None, pl_event_timeout = None\<rparr>"

definition demo_auth_env :: env where
  "demo_auth_env = demo_env\<lparr>en_stagemap := mk_plugin_register_stagemap (en_stagemap demo_env) demo_plugin\<rparr>"

theorem auth_protects_location_witness:
  "\<exists>r s'. mk_http_init demo_auth_env 0 (demo_state (demo_request ''/a.html'')) = Inr (r, s') \<and> opened (rs_trace s') = {}"
proof -
  let ?sr = "demo_request ''/a.html''"
  let ?s = "demo_state ?sr"
  have "opens_of (mk_http_init demo_auth_env 0 ?s) = Some []" by code_simp
  then obtain r s' where run: "mk_http_init demo_auth_env 0 ?s = Inr (r, s')"
    by (auto simp: opens_of_def split: sum.splits prod.splits)
  have sr: "sr_of 0 ?s = ?sr" "0 < length (cs_request_list (rs_cs ?s))" "rs_trace ?s = []"
    by (simp_all add: demo_state_def sr_of_def)
  have st: "stage_30 (en_stagemap demo_auth_env) = demo_plugin # []"
  proof -
    have "pl_hooks demo_plugin = 16" by (simp add: demo_plugin_def mk_const)
    then show ?thesis
      by (simp add: demo_auth_env_def mk_plugin_register_stagemap_def has_hook_def mk_plugin_register_stagemap_add_def
          demo_env_def mk_const)
  qed
  have pl: "pl_s30 demo_plugin = auth_stage_30 demo_env demo_vhosts" by (simp add: demo_plugin_def)
  have "refused demo_vhosts ?sr" by code_simp
  then have g: "guarded demo_auth_env demo_vhosts (sr_of 0 ?s)"
    unfolding guarded_def sr using st pl by (auto simp: demo_request_def mk_request_init_def)
  have h: "sr_host_conf (sr_of 0 ?s) = Some demo_host" unfolding sr by (simp add: demo_request_def)
  from auth_protects_location [OF sr(2) h g run] have "opened (rs_trace s') = {}"
    unfolding sr by (auto simp: demo_host_def)
  with run show ?thesis by blast
qed

end
