(* ===== verification/Mk_Mandril.thy ===== *)
theory Mk_Mandril
  imports Mk_Request "HOL-Library.Word"
begin

unbundle bit_operations_syntax

text \<open>
  \<^verbatim>\<open>plugins/mandril/mandril.c\<close>: the rules that close connections by address (stage 10) and requests
  by URL (stage 20). Addresses are 32-bit words as a little-endian machine reads them from memory;
  \<open>inet_aton\<close> is an argument.
\<close>

section \<open>Networks\<close>

definition htonl :: "32 word \<Rightarrow> 32 word" where
  "htonl w = push_bit 24 (w AND 255) OR push_bit 16 (drop_bit 8 w AND 255)
     OR push_bit 8 (drop_bit 16 w AND 255) OR drop_bit 24 w"

definition MK_NET_NETMASK :: "nat \<Rightarrow> 32 word" where
  "MK_NET_NETMASK net = htonl (push_bit (32 - net) 0xffffffff)"

definition MK_NET_BROADCAST :: "32 word \<Rightarrow> nat \<Rightarrow> 32 word" where
  "MK_NET_BROADCAST addr net = addr OR NOT (MK_NET_NETMASK net)"

definition MK_NET_NETWORK :: "32 word \<Rightarrow> nat \<Rightarrow> 32 word" where
  "MK_NET_NETWORK addr net = addr AND MK_NET_NETMASK net"

definition MK_NET_HOSTMIN :: "32 word \<Rightarrow> nat \<Rightarrow> 32 word" where
  "MK_NET_HOSTMIN addr net = (if net = 31 then MK_NET_NETWORK addr net else MK_NET_NETWORK addr net + 0x01000000)"

definition MK_NET_HOSTMAX :: "32 word \<Rightarrow> nat \<Rightarrow> 32 word" where
  "MK_NET_HOSTMAX addr net = (if net = 31 then MK_NET_BROADCAST addr net else MK_NET_BROADCAST addr net - 0x01000000)"

section \<open>Rules\<close>

record mk_secure_ip_t =
  si_ip :: "32 word"
  si_is_subnet :: bool
  si_network :: "32 word"
  si_netmask :: nat
  si_hostmin :: "32 word"
  si_hostmax :: "32 word"

definition plain_ip :: "32 word \<Rightarrow> mk_secure_ip_t" where
  "plain_ip a = \<lparr>si_ip = a, si_is_subnet = False, si_network = 0, si_netmask = 0, si_hostmin = 0, si_hostmax = 0\<rparr>"

definition subnet_ip :: "32 word \<Rightarrow> nat \<Rightarrow> mk_secure_ip_t" where
  "subnet_ip a net = \<lparr>si_ip = a, si_is_subnet = True, si_network = MK_NET_NETWORK a net, si_netmask = net,
     si_hostmin = MK_NET_HOSTMIN a net, si_hostmax = MK_NET_HOSTMAX a net\<rparr>"

text \<open>One entry of the RULES section that denies an address or a network.\<close>

definition deny_ip :: "(cstr \<Rightarrow> 32 word option) \<Rightarrow> cstr \<Rightarrow> mk_secure_ip_t option" where
  "deny_ip inet_aton val =
     (let n = mk_string_search val ''/'' MK_STR_INSENSITIVE in
      if 0 < n then
        (case (mk_string_copy_substr val 0 n, mk_string_copy_substr val (n + 1) (int (strlen val))) of
           (Some addr, Some bits) \<Rightarrow>
             (case inet_aton addr of
                None \<Rightarrow> None
              | Some a \<Rightarrow>
                  let netmask = int32 (strtol10 bits) in
                  if netmask \<le> 0 \<or> 32 \<le> netmask then None else Some (subnet_ip a (nat netmask)))
         | _ \<Rightarrow> None)
      else map_option plain_ip (inet_aton val))"

fun security_entries ::
  "(cstr \<Rightarrow> 32 word option) \<Rightarrow> mk_config_entry list \<Rightarrow> mk_secure_ip_t list \<times> cstr list" where
  "security_entries inet_aton [] = ([], [])"
| "security_entries inet_aton (e # es) =
     (let (ips, urls) = security_entries inet_aton es in
      if strcasecmp_eq (ce_key e) ''Deny_IP'' then
        (case deny_ip inet_aton (ce_val e) of None \<Rightarrow> ips | Some r \<Rightarrow> r # ips, urls)
      else if strcasecmp_eq (ce_key e) ''Deny_URL'' then (ips, ce_val e # urls)
      else (ips, urls))"

definition mk_security_conf ::
  "(cstr \<Rightarrow> 32 word option) \<Rightarrow> mk_config_section list \<Rightarrow> cerr + mk_secure_ip_t list \<times> cstr list" where
  "mk_security_conf inet_aton sections =
     (case mk_config_section_get sections ''RULES'' of
        None \<Rightarrow> Inl NullDeref
      | Some s \<Rightarrow> Inr (security_entries inet_aton (sec_entries s)))"

section \<open>Checks\<close>

text \<open>The loop over the rules for an address.\<close>

fun check_ip_rules :: "mk_secure_ip_t list \<Rightarrow> 32 word \<Rightarrow> int" where
  "check_ip_rules [] addr = 0"
| "check_ip_rules (r # rs) addr =
     (if si_is_subnet r then
        if MK_NET_NETWORK addr (si_netmask r) \<noteq> si_network r then check_ip_rules rs addr
        else if addr \<le> si_hostmax r \<and> si_hostmin r \<le> addr then -1
        else check_ip_rules rs addr
      else if addr = si_ip r then -1
      else check_ip_rules rs addr)"

text \<open>
  \<open>mk_security_check_ip\<close>: the address of the peer is written, up to the size of a pointer (8
  bytes), to a variable of 4 bytes. \<open>peer\<close> is the socket address, or the failure of \<open>getpeername\<close>.
\<close>

definition mk_security_check_ip :: "mk_secure_ip_t list \<Rightarrow> 8 word list option \<Rightarrow> cerr + int" where
  "mk_security_check_ip rules peer =
     (case peer of
        None \<Rightarrow> Inr (-1)
      | Some sa \<Rightarrow>
          if 4 < min 8 (length sa) then Inl OutOfBounds
          else Inr (check_ip_rules rules
                 (foldr (\<lambda>b w. push_bit 8 w OR ucast b) (take 4 sa) 0)))"

fun mk_security_check_url :: "cstr list \<Rightarrow> mk_pointer \<Rightarrow> int" where
  "mk_security_check_url [] url = 0"
| "mk_security_check_url (c # cs) url =
     (if 0 \<le> mk_string_search_n (view url) c MK_STR_INSENSITIVE (int32 (int (p_len url))) then -1
      else mk_security_check_url cs url)"

section \<open>Stages\<close>

definition mandril_stage_10 :: "mk_secure_ip_t list \<Rightarrow> 8 word list option \<Rightarrow> cerr + int" where
  "mandril_stage_10 rules peer =
     bindE (mk_security_check_ip rules peer) (\<lambda>r.
       Inr (if r \<noteq> 0 then MK_PLUGIN_RET_CLOSE_CONX else MK_PLUGIN_RET_CONTINUE))"

definition mandril_stage_20 :: "cstr list \<Rightarrow> nat \<Rightarrow> req_state \<Rightarrow> int \<times> req_state" where
  "mandril_stage_20 urls i s =
     (if mk_security_check_url urls (sr_uri (sr_of i s)) < 0
      then (MK_PLUGIN_RET_CLOSE_CONX, set_sr i (\<lambda>sr. mk_header_set_http_status sr 403) s)
      else (MK_PLUGIN_RET_CONTINUE, s))"

section \<open>Denied URLs\<close>

text \<open>A URI that has one of the texts in it, in any case, starting within its length.\<close>

definition denied :: "cstr list \<Rightarrow> mk_pointer \<Rightarrow> bool" where
  "denied urls url \<longleftrightarrow> (\<exists>c \<in> set urls. \<exists>k < p_len url. k \<le> strlen (view url)
     \<and> match_at case_eq (cstring c) (drop k (cstring (view url))))"

lemma check_url_denied:
  assumes "0 < p_len url" "p_len url < 2 ^ 31"
  shows "mk_security_check_url urls url < 0 \<longleftrightarrow> denied urls url"
proof -
  have len: "int32 (int (p_len url)) = int (p_len url)" by (rule int32_id) (use assms in auto)
  have one: "0 \<le> mk_string_search_n (view url) c MK_STR_INSENSITIVE (int (p_len url)) \<longleftrightarrow>
      (\<exists>k < p_len url. k \<le> strlen (view url) \<and> match_at case_eq (cstring c) (drop k (cstring (view url))))" (is "?l \<longleftrightarrow> ?r") for c
  proof (cases "first_match MK_STR_INSENSITIVE (view url) c")
    case None
    then have "\<forall>k \<le> strlen (view url). \<not> match_at case_eq (cstring c) (drop k (cstring (view url)))"
      by (simp add: first_match_def find_sub_None_iff strlen_def eq_of_def)
    with None assms(1) show ?thesis by (auto simp: mk_string_search_n_first_match)
  next
    case (Some k)
    then have k: "k \<le> strlen (view url)" "match_at case_eq (cstring c) (drop k (cstring (view url)))"
      "\<forall>j<k. \<not> match_at case_eq (cstring c) (drop j (cstring (view url)))"
      by (auto simp: first_match_def find_sub_Some_iff strlen_def eq_of_def)
    have "?l \<longleftrightarrow> k < p_len url" using Some assms(1) by (auto simp: mk_string_search_n_first_match)
    moreover have "?r \<longleftrightarrow> k < p_len url" using k by (meson le_less_trans not_less)
    ultimately show ?thesis by simp
  qed
  show ?thesis unfolding denied_def
  proof (induction urls)
    case (Cons a urls)
    then show ?case unfolding mk_security_check_url.simps len one by auto
  qed simp
qed

text \<open>
  C34: a denied URL is not served. When the rules are the first handler of stage 20, the method is
  neither POST nor PUT and the URI as it was received has one of the denied texts in it, the
  request ends the connection: nothing is sent and no file is opened.
\<close>

theorem mandril_denies_url:
  assumes "i < length (cs_request_list (rs_cs s))"
    and "stage_20 (en_stagemap en) = p # ps" "pl_s20 p = mandril_stage_20 urls"
    and "sr_method (sr_of i s) \<noteq> HTTP_METHOD_POST" "sr_method (sr_of i s) \<noteq> HTTP_METHOD_PUT"
    and "0 < p_len (sr_uri (sr_of i s))" "p_len (sr_uri (sr_of i s)) < 2 ^ 31" "denied urls (sr_uri (sr_of i s))"
  shows "\<exists>s'. req_dispatch en i s = Inr (EXIT_ABORT, s') \<and> rs_trace s' = rs_trace s
    \<and> rh_status (sr_headers (sr_of i s')) = 403"
proof -
  let ?s = "set_sr i (\<lambda>sr. mk_header_set_http_status sr 403) s"
  have "mandril_stage_20 urls i s = (MK_PLUGIN_RET_CLOSE_CONX, ?s)"
    using check_url_denied [OF assms(6,7)] assms(8) by (simp add: mandril_stage_20_def)
  then have st: "stage20_run (stage_20 (en_stagemap en)) i s = Inr (MK_PLUGIN_RET_CLOSE_CONX, ?s)"
    by (simp add: assms(2,3))
  have "req_dispatch en i s = Inr (EXIT_ABORT, ?s)"
    using assms(4,5) st unfolding req_dispatch_def by (simp add: bindA_def)
  moreover have "rh_status (sr_headers (sr_of i ?s)) = 403"
    using assms(1) by (simp add: mk_header_set_http_status_def)
  ultimately show ?thesis by (auto simp del: sr_of_set_sr)
qed

definition demo_rules :: plugin where
  "demo_rules = \<lparr>pl_id = 2, pl_shortname = ''mandril'', pl_hooks = MK_PLUGIN_STAGE_20, pl_s10 = (\<lambda>_. -1),
     pl_s20 = mandril_stage_20 [''secret''], pl_s30 = (\<lambda>_ s. Inr (-1, s)), pl_s40 = (\<lambda>_ s. (-1, s)), pl_s50 = (\<lambda>_. -1),
     pl_event_read = None, pl_event_write = None, pl_event_error = None, pl_event_close = None, pl_event_timeout = None\<rparr>"

theorem mandril_denies_url_witness:
  "\<exists>s'. req_dispatch (demo_env\<lparr>en_stagemap := (en_stagemap demo_env)\<lparr>stage_20 := [demo_rules]\<rparr>\<rparr>) 0
       (demo_state (mk_request_init\<lparr>sr_uri := mk_pointer_set ''/a/SECRET/b''\<rparr>)) = Inr (EXIT_ABORT, s') \<and> rs_trace s' = []"
proof -
  let ?en = "demo_env\<lparr>en_stagemap := (en_stagemap demo_env)\<lparr>stage_20 := [demo_rules]\<rparr>\<rparr>"
  let ?sr = "mk_request_init\<lparr>sr_uri := mk_pointer_set ''/a/SECRET/b''\<rparr>"
  let ?s = "demo_state ?sr"
  have sr: "sr_of 0 ?s = ?sr" "0 < length (cs_request_list (rs_cs ?s))" "rs_trace ?s = []"
    by (simp_all add: demo_state_def sr_of_def)
  have st: "stage_20 (en_stagemap ?en) = demo_rules # []" "pl_s20 demo_rules = mandril_stage_20 [''secret'']"
    by (simp_all add: demo_rules_def)
  have m: "sr_method ?sr \<noteq> HTTP_METHOD_POST" "sr_method ?sr \<noteq> HTTP_METHOD_PUT"
    "0 < p_len (sr_uri ?sr)" "p_len (sr_uri ?sr) < 2 ^ 31"
    by (simp_all add: mk_request_init_def mk_pointer_set_def strlen_def mk_const)
  have "mk_security_check_url [''secret''] (sr_uri ?sr) < 0" by code_simp
  then have d: "denied [''secret''] (sr_uri ?sr)" using check_url_denied [OF m(3,4)] by blast
  from mandril_denies_url [OF sr(2) st, unfolded sr(1), OF m d] show ?thesis unfolding sr(3) by blast
qed

text \<open>The check looks at the URI before it is decoded: an escape of one letter passes the rule.\<close>

lemma escaped_url_passes:
  "mk_security_check_url [''admin''] (mk_pointer_set ''/%61dmin'') = 0"
  "mk_utils_url_decode (mk_pointer_set ''/%61dmin'') = Inr (Some (''/admin'' @ [NUL, NUL]))"
  by code_simp+

end
