(* ===== verification/Mk_Chunked.thy ===== *)
theory Mk_Chunked
  imports Mk_Header
begin

text \<open>
  Bodies that are sent in chunks, as the directory listing and CGI do: the text of a number in
  hexadecimal, a reader of such bodies, and the bytes a trace of effects sends on a socket.
\<close>

text \<open>\<open>%lx\<close>\<close>

fun hex_text :: "nat \<Rightarrow> cstr" where
  "hex_text n = (if n < 16 then [''0123456789abcdef'' ! n] else hex_text (n div 16) @ [''0123456789abcdef'' ! (n mod 16)])"

declare hex_text.simps [simp del]

section \<open>Chunks\<close>

text \<open>A reader of chunked bodies, after RFC 7230: the size in hexadecimal, the bytes, and a chunk of size 0 at the end.\<close>

definition hex_value :: "cstr \<Rightarrow> nat" where
  "hex_value cs = foldl (\<lambda>a c. 16 * a + nat (the (hexdigit c))) 0 cs"

definition chunk_size :: "cstr \<Rightarrow> (nat \<times> cstr) option" where
  "chunk_size bs =
     (let ds = takeWhile (\<lambda>c. hexdigit c \<noteq> None) bs; rest = drop (length ds) bs in
      if ds = [] \<or> take 2 rest \<noteq> CRLF then None else Some (hex_value ds, drop 2 rest))"

lemma chunk_size_less: "chunk_size bs = Some (n, rest) \<Longrightarrow> length rest < length bs"
proof -
  assume c: "chunk_size bs = Some (n, rest)"
  let ?ds = "takeWhile (\<lambda>c. hexdigit c \<noteq> None) bs"
  have d: "?ds \<noteq> []" "rest = drop 2 (drop (length ?ds) bs)" using c by (auto simp: chunk_size_def Let_def split: if_splits)
  then show "length rest < length bs" by (cases bs) auto
qed

function dechunk :: "cstr \<Rightarrow> cstr option" where
  "dechunk bs =
     (case chunk_size bs of
        None \<Rightarrow> None
      | Some (n, rest) \<Rightarrow>
          if n = 0 then (if rest = CRLF then Some [] else None)
          else if length rest < n + 2 \<or> take 2 (drop n rest) \<noteq> CRLF then None
          else map_option ((@) (take n rest)) (dechunk (drop (n + 2) rest)))"
  by pat_completeness auto
termination by (relation "measure length") (auto dest!: chunk_size_less)

declare dechunk.simps [simp del]

lemma hex_digit_char: "n < 16 \<Longrightarrow> hexdigit (''0123456789abcdef'' ! n) = Some (int n)"
proof -
  have "list_all (\<lambda>n. hexdigit (''0123456789abcdef'' ! n) = Some (int n)) [0..<16]" by code_simp
  then show "n < 16 \<Longrightarrow> ?thesis" by (simp add: list_all_iff)
qed

lemma hex_text_value: "hex_text n \<noteq> [] \<and> list_all (\<lambda>c. hexdigit c \<noteq> None) (hex_text n) \<and> hex_value (hex_text n) = n"
proof (induction n rule: hex_text.induct)
  case (1 n)
  show ?case
  proof (cases "n < 16")
    case True
    then show ?thesis using hex_digit_char [OF True] by (simp add: hex_text.simps [of n] hex_value_def)
  next
    case False
    have d: "n mod 16 < 16" by simp
    show ?thesis using 1 [OF False] False hex_digit_char [OF d] by (simp add: hex_text.simps [of n] hex_value_def)
  qed
qed

lemma hexdigit_CR: "hexdigit CR = None"
  by code_simp

lemma chunk_size_print: "chunk_size (hex_text n @ CRLF @ rest) = Some (n, rest)"
proof -
  have "takeWhile (\<lambda>c. hexdigit c \<noteq> None) (hex_text n @ CRLF @ rest) = hex_text n"
    using hex_text_value [of n] hexdigit_CR by (subst takeWhile_append2) (auto simp: list_all_iff)
  then show ?thesis using hex_text_value [of n] by (simp add: chunk_size_def Let_def)
qed

definition chunk_text :: "cstr \<Rightarrow> cstr" where
  "chunk_text t = hex_text (length t) @ CRLF @ t @ CRLF"

lemma dechunk_chunk: "t \<noteq> [] \<Longrightarrow> dechunk (chunk_text t @ rest) = map_option ((@) t) (dechunk rest)"
proof -
  have "chunk_size (chunk_text t @ rest) = Some (length t, t @ CRLF @ rest)"
    using chunk_size_print [of "length t" "t @ CRLF @ rest"] by (simp add: chunk_text_def)
  then show "t \<noteq> [] \<Longrightarrow> ?thesis" unfolding dechunk.simps [of "chunk_text t @ rest"] by simp
qed

lemma dechunk_end: "dechunk (''0'' @ CRLF @ CRLF) = Some []"
proof -
  have "hex_text 0 = ''0''" by (simp add: hex_text.simps)
  with chunk_size_print [of 0 CRLF] show ?thesis unfolding dechunk.simps [of "''0'' @ CRLF @ CRLF"] by simp
qed

lemma dechunk_all: "\<forall>t\<in>set ts. t \<noteq> [] \<Longrightarrow> dechunk (concat (map chunk_text ts) @ ''0'' @ CRLF @ CRLF) = Some (concat ts)"
  by (induction ts) (simp_all add: dechunk_end [simplified] dechunk_chunk)

section \<open>What is sent\<close>

text \<open>The bytes a trace sends on a socket.\<close>

definition sent :: "int \<Rightarrow> effect list \<Rightarrow> cstr" where
  "sent fd tr = concat (map (\<lambda>e. case e of ESendv s parts \<Rightarrow> if s = fd then concat parts else []
                                       | ESend s bs \<Rightarrow> if s = fd then bs else [] | _ \<Rightarrow> []) tr)"

lemma sent_append [simp]: "sent fd (a @ b) = sent fd a @ sent fd b"
  by (simp add: sent_def)

lemma sent_Cons [simp]:
  "sent fd [] = []" "sent fd (ECork s b # tr) = sent fd tr" "sent fd (EEpollMode s m # tr) = sent fd tr"
  "sent fd (ESendv fd parts # tr) = concat parts @ sent fd tr" "sent fd (ESend fd bs # tr) = bs @ sent fd tr"
  by (simp_all add: sent_def)

lemma socket_sendv_sent: "\<exists>s'. mk_socket_sendv en fd parts s = Inr ((), s') \<and> sent fd (rs_trace s') = sent fd (rs_trace s) @ concat parts"
  by (simp add: mk_socket_sendv_def safe_write_def thenA_def bindA_def)

lemma socket_send_sent: "\<exists>s'. mk_socket_send en fd bs s = Inr ((), s') \<and> sent fd (rs_trace s') = sent fd (rs_trace s) @ bs"
  by (simp add: mk_socket_send_def safe_write_def thenA_def bindA_def)

lemma cork_sent: "\<exists>s'. mk_socket_set_cork_flag fd b s = Inr ((), s') \<and> sent fd' (rs_trace s') = sent fd' (rs_trace s)"
  by (simp add: mk_socket_set_cork_flag_def)

end
