(* ===== verification/Mk_Dirlist.thy ===== *)
theory Mk_Dirlist
  imports Mk_Confine Mk_Chunked
begin

text \<open>
  \<^verbatim>\<open>plugins/dirlisting/dirlisting.c\<close>: the page for a directory. Theme files are cut at their tags into
  templates; for every part of the page the values of the tags are put into a template, and the parts
  are sent one by one, as chunks when the protocol is HTTP/1.1. Linked lists are lists, and the array
  of tags a template or value refers to is named by a constructor. The flags the handler changes on the
  socket (blocking while it sends) have no counterpart in the state, and names are kept as they were
  read, although the code keeps pointers into the buffer of the directory stream.
\<close>

section \<open>Data\<close>

datatype tag_array = TAGS_GLOBAL | TAGS_ENTRY

fun tag_names :: "tag_array \<Rightarrow> cstr list" where
  "tag_names TAGS_GLOBAL = [''%_html_title_%'', ''%_theme_path_%'']"
| "tag_names TAGS_ENTRY = [''%_target_title_%'', ''%_target_url_%'', ''%_target_name_%'', ''%_target_time_%'', ''%_target_size_%'']"

record dirhtml_template =
  dt_buf :: "cstr option"
  dt_tag_id :: int
  dt_len :: int
  dt_tags :: "tag_array option"

record dirhtml_value =
  dv_tag_id :: int
  dv_sep :: mk_pointer
  dv_len :: int
  dv_value :: "cstr option"
  dv_tags :: tag_array

datatype d_type = DT_REG | DT_DIR | DT_LNK | DT_UNKNOWN | DT_OTHER

record dirent =
  d_name :: cstr
  d_kind :: d_type

record mk_f_list =
  me_modif :: cstr
  me_info :: file_info
  me_name :: cstr
  me_size :: cstr
  me_type :: d_type

text \<open>
  What the plugin gets from outside: the entries of a directory, the text of a time in the local time
  zone, the quotient of a size and a unit with one decimal, the bytes of a file, and the result of a
  write after the given effects.
\<close>

record dir_world =
  dw_dir :: "cstr \<Rightarrow> dirent list option"
  dw_time :: "int \<Rightarrow> cstr"
  dw_quotient :: "nat \<Rightarrow> nat \<Rightarrow> cstr"
  dw_file :: "cstr \<Rightarrow> cstr option"
  dw_sent :: "effect list \<Rightarrow> int"

section \<open>Entries\<close>

definition dirhtml_units :: "cstr list" where
  "dirhtml_units = [''b'', ''K'', ''M'', ''G'', ''T'', ''P'', ''E'', ''Z'', ''Y'']"

text \<open>The unit and its index; \<open>u\<close> is an \<open>unsigned long\<close>. A division by zero ends the process.\<close>

fun size_unit :: "cstr list \<Rightarrow> nat \<Rightarrow> nat \<Rightarrow> nat \<Rightarrow> cerr + nat \<times> nat" where
  "size_unit [] sz u i = Inr (i, u)"
| "size_unit (x # xs) sz u i =
     (if u = 0 then Inl BugAbort
      else if sz div u = 0 then Inr (i, u)
      else size_unit xs sz (u * 1024 mod 2 ^ 64) (i + 1))"

definition mk_dirhtml_human_readable_size :: "dir_world \<Rightarrow> nat \<Rightarrow> cerr + cstr" where
  "mk_dirhtml_human_readable_size w sz =
     bindE (size_unit dirhtml_units sz 1024 0) (\<lambda>(i, u).
       if i = 0 then Inr (dec_text (int sz) @ dirhtml_units ! 0)
       else if length dirhtml_units \<le> i then Inl NullDeref
       else Inr (dw_quotient w sz (u div 1024) @ dirhtml_units ! i))"

definition MK_DIRHTML_FMOD_LEN :: nat where [mk_const]: "MK_DIRHTML_FMOD_LEN = 24"

text \<open>\<open>strftime\<close> returns 0 when the text and its end do not fit.\<close>

definition mk_dirhtml_create_element ::
  "env \<Rightarrow> dir_world \<Rightarrow> effect list \<Rightarrow> file_info \<Rightarrow> cstr \<Rightarrow> d_type \<Rightarrow> cstr \<Rightarrow> cerr + mk_f_list option" where
  "mk_dirhtml_create_element en w tr fi0 file type full_path =
     (let (ret, info) = mk_file_get_info en tr full_path fi0 in
      if ret \<noteq> 0 then Inr None
      else
        let modif = dw_time w (fi_last_modification info) in
        if modif = [] \<or> MK_DIRHTML_FMOD_LEN \<le> length modif then Inr None
        else
          bindE (if type \<noteq> DT_DIR then mk_dirhtml_human_readable_size w (ulong (fi_size info)) else Inr ''-'') (\<lambda>sz.
            Inr (Some \<lparr>me_modif = modif, me_info = info, me_name = file, me_size = sz, me_type = type\<rparr>)))"

definition listed :: "dirent \<Rightarrow> bool" where
  "listed e \<longleftrightarrow> \<not> (take 1 (cstring (d_name e)) = ''.'' \<and> cstring (d_name e) \<noteq> ''..'') \<and> d_kind e \<noteq> DT_OTHER"

fun mk_dirhtml_create_list :: "env \<Rightarrow> dir_world \<Rightarrow> effect list \<Rightarrow> file_info \<Rightarrow> dirent list \<Rightarrow> cstr \<Rightarrow> cerr + mk_f_list list" where
  "mk_dirhtml_create_list en w tr fi0 [] path = Inr []"
| "mk_dirhtml_create_list en w tr fi0 (ent # dir) path =
     (if \<not> listed ent then mk_dirhtml_create_list en w tr fi0 dir path
      else
        bindE (mk_dirhtml_create_element en w tr fi0 (d_name ent) (d_kind ent) (cstring path @ cstring (d_name ent))) (\<lambda>entry.
          bindE (mk_dirhtml_create_list en w tr fi0 dir path) (\<lambda>rest.
            Inr (case entry of None \<Rightarrow> rest | Some e \<Rightarrow> e # rest))))"

text \<open>
  \<open>strcasecmp\<close> orders by the bytes of the names in lower case. \<open>qsort\<close> leaves the order of names that
  differ in case only open; here they keep the order of the directory.
\<close>

definition entry_key :: "mk_f_list \<Rightarrow> nat list" where
  "entry_key e = map (byte \<circ> c_tolower) (cstring (me_name e))"

definition mk_dirhtml_toc :: "mk_f_list list \<Rightarrow> mk_f_list list" where
  "mk_dirhtml_toc list = sort_key entry_key list"

section \<open>Templates\<close>

fun match_tag :: "cstr \<Rightarrow> cstr list \<Rightarrow> nat \<Rightarrow> int" where
  "match_tag content [] i = -1"
| "match_tag content (t # ts) i =
     (if 0 \<le> mk_string_search_n content t MK_STR_INSENSITIVE (int (strlen t)) then int i else match_tag content ts (i + 1))"

definition mk_dirhtml_theme_match_tag :: "cstr \<Rightarrow> cstr list \<Rightarrow> int" where
  "mk_dirhtml_theme_match_tag content tpl = match_tag content tpl 0"

text \<open>The array of tags that is used at a place, and the index of the tag there.\<close>

definition tag_at :: "cstr \<Rightarrow> tag_array \<times> int" where
  "tag_at content =
     (let k = mk_dirhtml_theme_match_tag content (tag_names TAGS_GLOBAL) in
      if k < 0 then (TAGS_ENTRY, mk_dirhtml_theme_match_tag content (tag_names TAGS_ENTRY)) else (TAGS_GLOBAL, k))"

definition mk_dirhtml_template_list_add ::
  "dirhtml_template list \<Rightarrow> cstr option \<Rightarrow> int \<Rightarrow> tag_array option \<Rightarrow> int \<Rightarrow> dirhtml_template list" where
  "mk_dirhtml_template_list_add header buf len tpl tag_id =
     header @ [\<lparr>dt_buf = buf, dt_tag_id = tag_id, dt_len = len, dt_tags = tpl\<rparr>]"

definition add_text :: "dirhtml_template list \<Rightarrow> cstr \<Rightarrow> nat \<Rightarrow> nat \<Rightarrow> tag_array option \<Rightarrow> cerr + dirhtml_template list" where
  "add_text st content i j tpl =
     (case mk_string_copy_substr content (int i) (int j) of
        None \<Rightarrow> Inl NullDeref
      | Some buf \<Rightarrow> Inr (mk_dirhtml_template_list_add st (Some buf) (int (strlen buf)) tpl (-1)))"

lemma match_tag_bound: "0 \<le> match_tag content ts i \<Longrightarrow> i \<le> nat (match_tag content ts i) \<and> nat (match_tag content ts i) < i + length ts"
  by (induction ts arbitrary: i) (fastforce split: if_splits)+

lemma tag_names_strlen: "t \<in> set (tag_names a) \<Longrightarrow> strlen t = length t \<and> 14 \<le> length t \<and> length t \<le> 16"
  by (cases a) (auto simp: strlen_def cstring_def)

lemma tag_at_bound:
  assumes "tag_at content = (a, k)" "0 \<le> k"
  shows "nat k < length (tag_names a)" "0 < strlen (tag_names a ! nat k)"
proof -
  show k: "nat k < length (tag_names a)"
    using assms match_tag_bound [of content "tag_names a" 0] by (auto simp: tag_at_def mk_dirhtml_theme_match_tag_def Let_def split: if_splits)
  then show "0 < strlen (tag_names a ! nat k)" using tag_names_strlen [OF nth_mem [OF k]] by linarith
qed

text \<open>The loop over the places where a tag could start; an unknown tag moves on by one byte.\<close>

function template_loop ::
  "cstr \<Rightarrow> nat \<Rightarrow> nat \<Rightarrow> tag_array option \<Rightarrow> dirhtml_template list \<Rightarrow> cerr + nat \<times> tag_array option \<times> dirhtml_template list" where
  "template_loop content cont_len i tpl st =
     (if \<not> i < cont_len then Inr (i, tpl, st)
      else
        let pos = mk_string_search (drop i content) ''%_'' MK_STR_INSENSITIVE in
        if pos < 0 then Inr (i, tpl, st)
        else
          let (arr, k) = tag_at (drop (i + nat pos) content) in
          if 0 \<le> k then
            (case add_text st content i (i + nat pos) (Some arr) of
               Inl e \<Rightarrow> Inl e
             | Inr st1 \<Rightarrow>
                 template_loop content cont_len (i + (nat pos + strlen (tag_names arr ! nat k))) (Some arr)
                   (mk_dirhtml_template_list_add st1 None (-1) (Some arr) k))
          else template_loop content cont_len (i + 1) (Some arr) st)"
  by pat_completeness auto
termination
proof (relation "measure (\<lambda>(content, cont_len, i, tpl, st). cont_len - i)", goal_cases)
  case (2 content cont_len i tpl st pos q arr k st1)
  then have "0 < strlen (tag_names arr ! nat k)" using tag_at_bound(2) by metis
  with 2 show ?case by simp
qed auto

declare template_loop.simps [simp del]

definition mk_dirhtml_template_create :: "cstr \<Rightarrow> cerr + dirhtml_template list" where
  "mk_dirhtml_template_create content =
     (let cont_len = strlen content in
      if cont_len \<le> 0 then Inr []
      else bindE (template_loop content cont_len 0 None []) (\<lambda>(i, tpl, st). add_text st content i cont_len tpl))"

section \<open>Parts of the page\<close>

definition mk_dirhtml_tag_assign :: "dirhtml_value list \<Rightarrow> int \<Rightarrow> mk_pointer \<Rightarrow> cstr option \<Rightarrow> tag_array \<Rightarrow> dirhtml_value list" where
  "mk_dirhtml_tag_assign vs tag_id sep value tags =
     vs @ [\<lparr>dv_tag_id = tag_id, dv_sep = sep, dv_len = (case value of None \<Rightarrow> -1 | Some v \<Rightarrow> int (strlen v)),
            dv_value = value, dv_tags = tags\<rparr>]"

definition find_value :: "dirhtml_value list \<Rightarrow> dirhtml_template \<Rightarrow> dirhtml_value option" where
  "find_value vs t = find (\<lambda>v. Some (dv_tags v) = dt_tags t \<and> dv_tag_id v = dt_tag_id t) vs"

fun compose_loop :: "dirhtml_value list \<Rightarrow> dirhtml_template list \<Rightarrow> mk_iov \<Rightarrow> cerr + mk_iov" where
  "compose_loop vs [] io = Inr io"
| "compose_loop vs (t # ts) io =
     (if dt_buf t = None \<and> 0 \<le> dt_tag_id t then
        (case find_value vs t of
           None \<Rightarrow> compose_loop vs ts io
         | Some v \<Rightarrow>
             bindE (mk_iov_add_entry io \<lparr>p_data = dv_value v, p_len = ulong (dv_len v)\<rparr> (dv_sep v) False) (compose_loop vs ts))
      else
        bindE (mk_iov_add_entry io \<lparr>p_data = dt_buf t, p_len = ulong (dt_len t)\<rparr> mk_iov_none False) (compose_loop vs ts))"

definition mk_dirhtml_theme_compose :: "dirhtml_template list \<Rightarrow> dirhtml_value list \<Rightarrow> bool \<Rightarrow> cerr + mk_iov" where
  "mk_dirhtml_theme_compose template values' is_chunked =
     bindE (compose_loop values' template (mk_iov_create (1 + length template * 2) 1)) (\<lambda>io.
       if is_chunked then mk_iov_add_entry io mk_iov_crlf mk_iov_none False else Inr io)"

definition dir_sendv :: "env \<Rightarrow> dir_world \<Rightarrow> int \<Rightarrow> mk_iov \<Rightarrow> int action" where
  "dir_sendv en w fd data = thenA (mk_socket_sendv en fd (iov_parts data)) (getsA (\<lambda>s. dw_sent w (rs_trace s)))"

definition mk_dirhtml_send :: "env \<Rightarrow> dir_world \<Rightarrow> int \<Rightarrow> session_request \<Rightarrow> mk_iov \<Rightarrow> int action" where
  "mk_dirhtml_send en w fd sr data =
     (if HTTP_PROTOCOL_11 \<le> sr_protocol sr
      then bindA (liftE (mk_iov_set_entry data (built (hex_text (ulong (int (io_total_len data) - 2)) @ CRLF)) True 0)) (dir_sendv en w fd)
      else dir_sendv en w fd data)"

definition mk_dirhtml_send_chunked_end :: "env \<Rightarrow> int \<Rightarrow> unit action" where
  "mk_dirhtml_send_chunked_end en fd = mk_socket_send en fd (''0'' @ CRLF @ CRLF)"

section \<open>The page\<close>

record dirhtml_conf =
  dc_theme_path :: cstr
  dc_header :: "dirhtml_template list"
  dc_entry :: "dirhtml_template list"
  dc_footer :: "dirhtml_template list"

definition entry_values :: "mk_f_list \<Rightarrow> dirhtml_value list" where
  "entry_values e =
     (let sep = (if me_type e = DT_DIR then mk_pointer_init ''/'' else mk_iov_none);
          v0 = mk_dirhtml_tag_assign [] 0 sep (Some (me_name e)) TAGS_ENTRY;
          v1 = mk_dirhtml_tag_assign v0 1 sep (Some (me_name e)) TAGS_ENTRY;
          v2 = mk_dirhtml_tag_assign v1 2 sep (Some (me_name e)) TAGS_ENTRY;
          v3 = mk_dirhtml_tag_assign v2 3 mk_iov_none (Some (me_modif e)) TAGS_ENTRY
      in mk_dirhtml_tag_assign v3 4 mk_iov_none (Some (me_size e)) TAGS_ENTRY)"

text \<open>The loop over the entries, from index \<open>k\<close> on; a write that fails ends it.\<close>

fun send_entries :: "env \<Rightarrow> dir_world \<Rightarrow> dirhtml_conf \<Rightarrow> int \<Rightarrow> session_request \<Rightarrow> nat \<Rightarrow> mk_f_list list \<Rightarrow> unit action" where
  "send_entries en w dc fd sr k [] = returnA ()"
| "send_entries en w dc fd sr k (e # es) =
     bindA (liftE (mk_dirhtml_theme_compose (dc_entry dc) (entry_values e) (HTTP_PROTOCOL_11 \<le> sr_protocol sr))) (\<lambda>io.
       bindA (mk_dirhtml_send en w fd sr io) (\<lambda>n.
         thenA (if k mod 20 = 0 then thenA (mk_socket_set_cork_flag fd False) (mk_socket_set_cork_flag fd True) else returnA ())
           (if n < 0 then returnA () else send_entries en w dc fd sr (k + 1) es)))"

definition dir_headers :: "response_headers \<Rightarrow> int \<Rightarrow> response_headers" where
  "dir_headers rh protocol =
     (let rh1 = rh\<lparr>rh_status := 200, rh_cgi := 1, rh_breakline := 1,
                   rh_content_type := mk_pointer_init (''text/html'' @ CRLF), rh_content_length := -1\<rparr>
      in if HTTP_PROTOCOL_11 \<le> protocol then rh1\<lparr>rh_transfer_encoding := 0\<rparr> else rh1)"

definition global_values :: "dirhtml_conf \<Rightarrow> session_request \<Rightarrow> dirhtml_value list" where
  "global_values dc sr =
     mk_dirhtml_tag_assign (mk_dirhtml_tag_assign [] 0 mk_iov_none (Some (mk_pointer_to_buf (sr_uri_processed sr))) TAGS_GLOBAL)
       1 mk_iov_none (Some (dc_theme_path dc)) TAGS_GLOBAL"

definition dir_body :: "env \<Rightarrow> dir_world \<Rightarrow> dirhtml_conf \<Rightarrow> int \<Rightarrow> session_request \<Rightarrow> mk_f_list list \<Rightarrow> mk_iov \<Rightarrow> mk_iov \<Rightarrow> unit action" where
  "dir_body en w dc fd sr toc iov_header iov_footer =
     bindA (mk_dirhtml_send en w fd sr iov_header) (\<lambda>n.
       if n < 0 then returnA ()
       else
         thenA (send_entries en w dc fd sr 0 toc)
           (bindA (mk_dirhtml_send en w fd sr iov_footer) (\<lambda>n2.
             thenA (mk_socket_set_cork_flag fd False)
               (if HTTP_PROTOCOL_11 \<le> sr_protocol sr \<and> 0 \<le> n2 then mk_dirhtml_send_chunked_end en fd else returnA ()))))"

text \<open>\<open>fi0\<close> is the memory of the file information, cleared by the allocation.\<close>

definition mk_dirhtml_init :: "env \<Rightarrow> dir_world \<Rightarrow> dirhtml_conf \<Rightarrow> file_info \<Rightarrow> nat \<Rightarrow> int action" where
  "mk_dirhtml_init en w dc fi0 i =
     bindA get_cs (\<lambda>cs. bindA (get_sr i) (\<lambda>sr.
       case dw_dir w (cstring (view (sr_real_path sr))) of
         None \<Rightarrow> returnA (-1)
       | Some dir \<Rightarrow>
           bindA (getsA rs_trace) (\<lambda>tr.
             bindA (liftE (mk_dirhtml_create_list en w tr fi0 dir (view (sr_real_path sr)))) (\<lambda>list.
               thenA (upd_headers i (\<lambda>rh. dir_headers rh (sr_protocol sr)))
                 (bindA (liftE (mk_dirhtml_theme_compose (dc_header dc) (global_values dc sr) (HTTP_PROTOCOL_11 \<le> sr_protocol sr))) (\<lambda>iov_header.
                   bindA (liftE (mk_dirhtml_theme_compose (dc_footer dc) (global_values dc sr) (HTTP_PROTOCOL_11 \<le> sr_protocol sr))) (\<lambda>iov_footer.
                     bindA (mk_header_send en (cs_socket cs) i) (\<lambda>n.
                       thenA (if n < 0 then returnA ()
                              else dir_body en w dc (cs_socket cs) sr (mk_dirhtml_toc list) iov_header iov_footer)
                         (returnA 0)))))))))"

definition dirlist_stage_30 :: "env \<Rightarrow> dir_world \<Rightarrow> dirhtml_conf \<Rightarrow> file_info \<Rightarrow> nat \<Rightarrow> int action" where
  "dirlist_stage_30 en w dc fi0 i =
     bindA (get_sr i) (\<lambda>sr.
       if fi_size (sr_file_info sr) < 0 \<or> \<not> fi_is_directory (sr_file_info sr) then returnA MK_PLUGIN_RET_NOT_ME
       else thenA (mk_dirhtml_init en w dc fi0 i) (returnA MK_PLUGIN_RET_END))"

section \<open>The theme\<close>

text \<open>
  \<open>mk_file_to_buffer\<close> of \<^verbatim>\<open>src/mk_file.c\<close>: the size is the one of the file's information; fewer bytes, or
  none, are a failure.
\<close>

definition mk_file_to_buffer :: "env \<Rightarrow> dir_world \<Rightarrow> effect list \<Rightarrow> file_info \<Rightarrow> cstr \<Rightarrow> cstr option" where
  "mk_file_to_buffer en w tr fi0 path =
     (let (ret, finfo) = mk_file_get_info en tr path fi0; n = ulong (fi_size finfo) in
      if ret \<noteq> 0 then None
      else
        case dw_file w path of
          None \<Rightarrow> None
        | Some bytes \<Rightarrow> if n = 0 \<or> length bytes < n then None else Some (take n bytes @ [NUL]))"

definition mk_dirhtml_load_file :: "env \<Rightarrow> dir_world \<Rightarrow> effect list \<Rightarrow> file_info \<Rightarrow> cstr \<Rightarrow> cstr \<Rightarrow> cstr option" where
  "mk_dirhtml_load_file en w tr fi0 theme_path filename = mk_file_to_buffer en w tr fi0 (cstring theme_path @ filename)"

definition mk_dirhtml_theme_load ::
  "env \<Rightarrow> dir_world \<Rightarrow> effect list \<Rightarrow> file_info \<Rightarrow> cstr \<Rightarrow> cerr + dirhtml_conf option" where
  "mk_dirhtml_theme_load en w tr fi0 theme_path =
     (let load = mk_dirhtml_load_file en w tr fi0 theme_path in
      case (load ''header.theme'', load ''entry.theme'', load ''footer.theme'') of
        (Some header, Some entry, Some footer) \<Rightarrow>
          bindE (mk_dirhtml_template_create header) (\<lambda>h. bindE (mk_dirhtml_template_create entry) (\<lambda>e.
            bindE (mk_dirhtml_template_create footer) (\<lambda>f.
              Inr (Some \<lparr>dc_theme_path = theme_path, dc_header = h, dc_entry = e, dc_footer = f\<rparr>))))
      | _ \<Rightarrow> Inr None)"

text \<open>
  Without the section the process ends; a theme that is not there gives \<open>None\<close>, the value \<open>-1\<close>. A null
  pointer for \<open>%s\<close>, the value of a missing key, is undefined.
\<close>

definition mk_dirhtml_read_config ::
  "env \<Rightarrow> effect list \<Rightarrow> file_info \<Rightarrow> mk_config_section list \<Rightarrow> cstr \<Rightarrow> cerr + cstr option" where
  "mk_dirhtml_read_config en tr fi0 sections path =
     (case mk_config_section_get sections ''DIRLISTING'' of
        None \<Rightarrow> Inl ExitFailure
      | Some section \<Rightarrow>
          (case val_str (mk_config_section_getval section ''Theme'' MK_CONFIG_VAL_STR) of
             None \<Rightarrow> Inl NullDeref
           | Some theme \<Rightarrow>
               let theme_path = cstring path @ ''themes/'' @ cstring theme @ ''/'' @ [NUL] in
               Inr (if fst (mk_file_get_info en tr (cstring theme_path) fi0) \<noteq> 0 then None else Some theme_path)))"

definition mk_dirhtml_conf ::
  "env \<Rightarrow> dir_world \<Rightarrow> effect list \<Rightarrow> file_info \<Rightarrow> mk_config_section list \<Rightarrow> cstr \<Rightarrow> cerr + dirhtml_conf option" where
  "mk_dirhtml_conf en w tr fi0 sections confdir =
     bindE (mk_dirhtml_read_config en tr fi0 sections confdir) (\<lambda>theme.
       case theme of None \<Rightarrow> Inr None | Some theme_path \<Rightarrow> mk_dirhtml_theme_load en w tr fi0 theme_path)"

section \<open>What a part of the page is\<close>

text \<open>The text of a node: the value of its tag, with the separator, or its own text.\<close>

definition is_tag :: "dirhtml_template \<Rightarrow> bool" where
  "is_tag t \<longleftrightarrow> dt_buf t = None \<and> 0 \<le> dt_tag_id t"

definition node_text :: "dirhtml_value list \<Rightarrow> dirhtml_template \<Rightarrow> cstr" where
  "node_text vs t =
     (if is_tag t then (case find_value vs t of None \<Rightarrow> [] | Some v \<Rightarrow> cstring (the (dv_value v)) @ p_bytes (dv_sep v))
      else cstring (the (dt_buf t)))"

definition part_text :: "dirhtml_value list \<Rightarrow> dirhtml_template list \<Rightarrow> cstr" where
  "part_text vs tpl = concat (map (node_text vs) tpl)"

text \<open>Texts and their lengths agree, and a template has a text of its own.\<close>

definition values_ok :: "dirhtml_value list \<Rightarrow> bool" where
  "values_ok vs \<longleftrightarrow> (\<forall>v\<in>set vs. \<exists>x. dv_value v = Some x \<and> dv_len v = int (strlen x) \<and> strlen x < 2 ^ 64
      \<and> p_len (dv_sep v) = length (view (dv_sep v)))"

definition template_ok :: "dirhtml_template list \<Rightarrow> bool" where
  "template_ok tpl \<longleftrightarrow> (\<forall>t\<in>set tpl. \<not> is_tag t \<longrightarrow> (\<exists>x. dt_buf t = Some x \<and> dt_len t = int (strlen x) \<and> strlen x < 2 ^ 64))
     \<and> (\<exists>t\<in>set tpl. \<not> is_tag t)"

text \<open>A vector with entry 0 left out: what it has and how much room is left.\<close>

definition iov_holds :: "mk_iov \<Rightarrow> cstr \<Rightarrow> nat \<Rightarrow> bool" where
  "iov_holds io t n \<longleftrightarrow> length (io_vec io) = io_size io \<and> 0 < io_idx io \<and> io_idx io + n \<le> io_size io
     \<and> io_to_free io = [] \<and> io_total_len io = length t \<and> concat (tl (iov_parts io)) = t"

lemma tl_take_update: "0 < j \<Longrightarrow> j < length xs \<Longrightarrow> tl (take (Suc j) (xs[j := x])) = tl (take j xs) @ [x]"
  by (cases "take j xs") (auto simp: take_Suc_conv_app_nth)

lemma iov_put_holds:
  assumes "iov_holds io t (Suc n)" "p_len p = length (p_bytes p)"
  shows "\<exists>io'. iov_put io (io_idx io) p = Inr io' \<and> iov_holds (io'\<lparr>io_idx := io_idx io + 1\<rparr>) (t @ p_bytes p) n
           \<and> io_size io' = io_size io \<and> io_idx io' = io_idx io"
proof -
  have i: "io_idx io < length (io_vec io)" "0 < io_idx io" using assms(1) by (simp_all add: iov_holds_def)
  have "concat (map p_bytes (tl (take (Suc (io_idx io)) ((io_vec io)[io_idx io := p])))) = t @ p_bytes p"
    using assms(1) tl_take_update [OF i(2,1)] by (simp add: iov_holds_def iov_parts_def map_tl)
  then show ?thesis using assms i by (simp add: iov_put_def iov_holds_def iov_parts_def map_tl)
qed

lemma add_entry_holds:
  assumes "iov_holds io t (n + 2)" "p_len p = length (p_bytes p)" "p_len sep = length (p_bytes sep)"
  shows "\<exists>io'. mk_iov_add_entry io p sep False = Inr io' \<and> iov_holds io' (t @ p_bytes p @ p_bytes sep) n"
proof -
  obtain io1 where 1: "iov_put io (io_idx io) p = Inr io1" "iov_holds (io1\<lparr>io_idx := io_idx io + 1\<rparr>) (t @ p_bytes p) (Suc n)"
    using iov_put_holds [of io t "Suc n" p] assms by auto
  show ?thesis
  proof (cases "0 < p_len sep")
    case True
    obtain io2 where "iov_put (io1\<lparr>io_idx := io_idx io + 1\<rparr>) (io_idx io + 1) sep = Inr io2"
        "iov_holds (io2\<lparr>io_idx := io_idx io + 1 + 1\<rparr>) ((t @ p_bytes p) @ p_bytes sep) n"
      using iov_put_holds [OF 1(2) assms(3)] by auto
    with 1(1) True show ?thesis by (auto simp: mk_iov_add_entry_def Let_def iov_holds_def)
  next
    case False
    then have "p_bytes sep = []" using assms(3) by simp
    moreover have "iov_holds (io1\<lparr>io_idx := io_idx io + 1\<rparr>) (t @ p_bytes p) n" using 1(2) by (simp add: iov_holds_def)
    ultimately show ?thesis using 1(1) False by (auto simp: mk_iov_add_entry_def Let_def iov_holds_def)
  qed
qed

lemma add_single_holds:
  assumes "iov_holds io t (Suc n)" "p_len p = length (p_bytes p)"
  shows "\<exists>io'. mk_iov_add_entry io p mk_iov_none False = Inr io' \<and> iov_holds io' (t @ p_bytes p) n"
  using iov_put_holds [OF assms] by (auto simp: mk_iov_add_entry_def Let_def iov_holds_def)

lemma bytes_of_cstr: "strlen x < 2 ^ 64 \<Longrightarrow> p_bytes \<lparr>p_data = Some x, p_len = ulong (int (strlen x))\<rparr> = cstring x"
  "strlen x < 2 ^ 64 \<Longrightarrow> ulong (int (strlen x)) = strlen x"
  by (simp_all add: p_bytes_def ulong_def take_strlen)

definition node_room :: "dirhtml_template list \<Rightarrow> nat" where
  "node_room ts = sum_list (map (\<lambda>t. if is_tag t then 2 else 1) ts)"

lemma compose_loop_holds:
  assumes "values_ok vs" "\<forall>t\<in>set ts. \<not> is_tag t \<longrightarrow> (\<exists>x. dt_buf t = Some x \<and> dt_len t = int (strlen x) \<and> strlen x < 2 ^ 64)"
    "iov_holds io x (n + node_room ts)"
  shows "\<exists>io'. compose_loop vs ts io = Inr io' \<and> iov_holds io' (x @ part_text vs ts) n"
  using assms(2,3)
proof (induction ts arbitrary: io x)
  case (Cons t ts)
  show ?case
  proof (cases "is_tag t")
    case True
    have room: "iov_holds io x (n + node_room ts + 2)" using Cons.prems(2) True by (simp add: node_room_def ac_simps)
    show ?thesis
    proof (cases "find_value vs t")
      case None
      have "iov_holds io x (n + node_room ts)" using room by (simp add: iov_holds_def)
      with Cons True None show ?thesis by (simp add: is_tag_def node_text_def part_text_def)
    next
      case (Some v)
      then have "v \<in> set vs" by (auto simp: find_value_def find_Some_iff)
      then obtain y where y: "dv_value v = Some y" "dv_len v = int (strlen y)" "strlen y < 2 ^ 64" "p_len (dv_sep v) = length (p_bytes (dv_sep v))"
        using assms(1) by (fastforce simp: values_ok_def p_bytes_def)
      let ?p = "\<lparr>p_data = dv_value v, p_len = ulong (dv_len v)\<rparr>"
      have p: "p_bytes ?p = cstring y" "p_len ?p = length (p_bytes ?p)" using y bytes_of_cstr [of y] by (simp_all add: strlen_def)
      obtain io1 where "mk_iov_add_entry io ?p (dv_sep v) False = Inr io1" "iov_holds io1 (x @ p_bytes ?p @ p_bytes (dv_sep v)) (n + node_room ts)"
        using add_entry_holds [OF room p(2) y(4)] by blast
      with Cons.IH [of io1 "x @ p_bytes ?p @ p_bytes (dv_sep v)"] Cons.prems(1) True Some y p(1) show ?thesis
        by (auto simp: is_tag_def node_text_def part_text_def)
    qed
  next
    case False
    then obtain y where y: "dt_buf t = Some y" "dt_len t = int (strlen y)" "strlen y < 2 ^ 64" using Cons.prems(1) by auto
    let ?p = "\<lparr>p_data = dt_buf t, p_len = ulong (dt_len t)\<rparr>"
    have p: "p_bytes ?p = cstring y" "p_len ?p = length (p_bytes ?p)" using y bytes_of_cstr [of y] by (simp_all add: strlen_def)
    have room: "iov_holds io x (Suc (n + node_room ts))" using Cons.prems(2) False by (simp add: node_room_def)
    obtain io1 where "mk_iov_add_entry io ?p mk_iov_none False = Inr io1" "iov_holds io1 (x @ p_bytes ?p) (n + node_room ts)"
      using add_single_holds [OF room p(2)] by blast
    with Cons.IH [of io1 "x @ p_bytes ?p"] Cons.prems(1) False y p(1) show ?thesis
      by (auto simp: is_tag_def node_text_def part_text_def)
  qed
qed (simp add: node_room_def part_text_def)

lemma node_room_le: "template_ok tpl \<Longrightarrow> node_room tpl + 1 \<le> 2 * length tpl"
proof -
  have "node_room ts \<le> 2 * length ts" for ts by (induction ts) (auto simp: node_room_def)
  then have "\<exists>t\<in>set ts. \<not> is_tag t \<Longrightarrow> node_room ts + 1 \<le> 2 * length ts" for ts
    by (induction ts) (auto simp: node_room_def)
  then show "template_ok tpl \<Longrightarrow> ?thesis" by (simp add: template_ok_def)
qed

lemma theme_compose_holds:
  assumes "values_ok vs" "template_ok tpl"
  shows "\<exists>io. mk_dirhtml_theme_compose tpl vs ch = Inr io \<and> iov_holds io (part_text vs tpl @ (if ch then CRLF else [])) 0"
proof -
  let ?io = "mk_iov_create (1 + length tpl * 2) 1"
  have "iov_holds ?io [] (1 + node_room tpl)"
    using node_room_le [OF assms(2)] by (cases tpl) (simp_all add: iov_holds_def mk_iov_create_def iov_parts_def)
  then obtain io where io: "compose_loop vs tpl ?io = Inr io" "iov_holds io (part_text vs tpl) 1"
    using compose_loop_holds [OF assms(1), of tpl ?io "[]" 1] assms(2) by (auto simp: template_ok_def)
  show ?thesis
  proof (cases ch)
    case True
    obtain io' where "mk_iov_add_entry io mk_iov_crlf mk_iov_none False = Inr io'" "iov_holds io' (part_text vs tpl @ p_bytes mk_iov_crlf) 0"
      using add_single_holds [of io "part_text vs tpl" 0 mk_iov_crlf] io(2) by auto
    with True io(1) show ?thesis by (simp add: mk_dirhtml_theme_compose_def)
  next
    case False
    with io show ?thesis by (auto simp: mk_dirhtml_theme_compose_def iov_holds_def)
  qed
qed

section \<open>Sending the parts\<close>

lemma dirhtml_send_chunk:
  assumes "iov_holds io (t @ CRLF) 0" "HTTP_PROTOCOL_11 \<le> sr_protocol sr" "length t < 2 ^ 64"
  shows "\<exists>s'. mk_dirhtml_send en w fd sr io s = Inr (dw_sent w (rs_trace s'), s') \<and> sent fd (rs_trace s') = sent fd (rs_trace s) @ chunk_text t"
proof -
  let ?h = "hex_text (length t) @ CRLF"
  have n: "ulong (int (io_total_len io) - 2) = length t" using assms(1,3) by (simp add: iov_holds_def ulong_def)
  have i: "0 < io_idx io" "io_idx io \<le> length (io_vec io)" "length (io_vec io) = io_size io" "io_to_free io = []"
    using assms(1) by (simp_all add: iov_holds_def)
  let ?io = "io\<lparr>io_vec := (io_vec io)[0 := built ?h], io_total_len := io_total_len io + p_len (built ?h), io_to_free := [view (built ?h)]\<rparr>"
  have put: "mk_iov_set_entry io (built ?h) True 0 = Inr ?io"
    using i by (auto simp: mk_iov_set_entry_def iov_put_def mk_iov_set_free_def)
  obtain x xs where v: "io_vec io = x # xs" using i by (cases "io_vec io") auto
  obtain j where j: "io_idx io = Suc j" using i(1) by (cases "io_idx io") auto
  have "concat (iov_parts ?io) = ?h @ t @ CRLF" using assms(1) v j by (simp add: iov_holds_def iov_parts_def)
  then have c: "concat (iov_parts ?io) = chunk_text t" by (simp add: chunk_text_def)
  obtain s' where "mk_socket_sendv en fd (iov_parts ?io) s = Inr ((), s')" "sent fd (rs_trace s') = sent fd (rs_trace s) @ concat (iov_parts ?io)"
    using socket_sendv_sent by blast
  with c put assms(2) show ?thesis
    by (simp add: mk_dirhtml_send_def n bindA_def liftE_def dir_sendv_def thenA_def)
qed

lemma send_entries_chunks:
  assumes "HTTP_PROTOCOL_11 \<le> sr_protocol sr" "\<forall>tr. 0 \<le> dw_sent w tr" "template_ok (dc_entry dc)" "\<forall>e\<in>set es. values_ok (entry_values e)"
    "\<forall>e\<in>set es. length (part_text (entry_values e) (dc_entry dc)) < 2 ^ 64"
  shows "\<exists>s'. send_entries en w dc fd sr k es s = Inr ((), s')
           \<and> sent fd (rs_trace s') = sent fd (rs_trace s) @ concat (map chunk_text (map (\<lambda>e. part_text (entry_values e) (dc_entry dc)) es))"
  using assms(4,5)
proof (induction es arbitrary: k s)
  case (Cons e es)
  let ?t = "part_text (entry_values e) (dc_entry dc)"
  have e: "values_ok (entry_values e)" "length ?t < 2 ^ 64" using Cons.prems by simp_all
  obtain io where io: "mk_dirhtml_theme_compose (dc_entry dc) (entry_values e) True = Inr io" "iov_holds io (?t @ CRLF) 0"
    using theme_compose_holds [OF e(1) assms(3), of True] by auto
  obtain s1 where s1: "mk_dirhtml_send en w fd sr io s = Inr (dw_sent w (rs_trace s1), s1)" "sent fd (rs_trace s1) = sent fd (rs_trace s) @ chunk_text ?t"
    using dirhtml_send_chunk [OF io(2) assms(1) e(2), where s = s] by blast
  let ?c = "if k mod 20 = 0 then thenA (mk_socket_set_cork_flag fd False) (mk_socket_set_cork_flag fd True) else returnA ()"
  have "\<exists>s2. ?c s1 = Inr ((), s2) \<and> sent fd (rs_trace s2) = sent fd (rs_trace s1)"
    by (simp add: mk_socket_set_cork_flag_def thenA_def bindA_def)
  then obtain s2 where s2: "?c s1 = Inr ((), s2)" "sent fd (rs_trace s2) = sent fd (rs_trace s1)" by blast
  obtain s3 where "send_entries en w dc fd sr (k + 1) es s2 = Inr ((), s3)"
      "sent fd (rs_trace s3) = sent fd (rs_trace s2) @ concat (map chunk_text (map (\<lambda>e. part_text (entry_values e) (dc_entry dc)) es))"
    using Cons.IH [of "k + 1" s2] Cons.prems by auto
  moreover have "\<not> dw_sent w (rs_trace s1) < 0" using assms(2) by (simp add: not_less)
  ultimately show ?case using io(1) s1 s2 assms(1) by (simp add: bindA_def liftE_def thenA_def)
qed simp

text \<open>A template that was made from a text can be filled.\<close>

definition texts_ok :: "nat \<Rightarrow> dirhtml_template list \<Rightarrow> bool" where
  "texts_ok n st \<longleftrightarrow> (\<forall>t\<in>set st. \<not> is_tag t \<longrightarrow> (\<exists>x. dt_buf t = Some x \<and> dt_len t = int (strlen x) \<and> strlen x \<le> n))"

lemma add_text_ok: "add_text st c i j tpl = Inr st' \<Longrightarrow> texts_ok (length c) st \<Longrightarrow> texts_ok (length c) st' \<and> (\<exists>t\<in>set st'. \<not> is_tag t)"
proof -
  assume a: "add_text st c i j tpl = Inr st'" and st: "texts_ok (length c) st"
  obtain x where x: "mk_string_copy_substr c (int i) (int j) = Some x"
      "st' = mk_dirhtml_template_list_add st (Some x) (int (strlen x)) tpl (-1)"
    using a by (auto simp: add_text_def split: option.splits)
  have "strlen x \<le> length x" unfolding strlen_def cstring_def by (rule length_takeWhile_le)
  also have "length x \<le> length c" using x(1) by (auto simp: mk_string_copy_substr_def split: if_splits)
  finally show ?thesis using x(2) st by (auto simp: texts_ok_def mk_dirhtml_template_list_add_def is_tag_def)
qed

lemma template_loop_texts:
  "template_loop c n i tpl st = Inr (i', tpl', st') \<Longrightarrow> texts_ok (length c) st \<Longrightarrow> texts_ok (length c) st'"
proof (induction c n i tpl st rule: template_loop.induct)
  case (1 c n i tpl st)
  let ?pos = "mk_string_search (drop i c) ''%_'' MK_STR_INSENSITIVE"
  show ?case
  proof (cases "i < n \<and> \<not> ?pos < 0")
    case False
    with 1(3,4) show ?thesis by (auto simp: template_loop.simps [of c n i] Let_def split: if_splits)
  next
    case True
    obtain arr k where t: "tag_at (drop (i + nat ?pos) c) = (arr, k)" by fastforce
    show ?thesis
    proof (cases "0 \<le> k")
      case k: True
      show ?thesis
      proof (cases "add_text st c i (i + nat ?pos) (Some arr)")
        case (Inl e)
        with True t k 1(3) show ?thesis by (simp add: template_loop.simps [of c n i] Let_def)
      next
        case (Inr st1)
        have "texts_ok (length c) (mk_dirhtml_template_list_add st1 None (-1) (Some arr) k)"
          using add_text_ok [OF Inr 1(4)] k by (auto simp: texts_ok_def mk_dirhtml_template_list_add_def is_tag_def)
        with 1(1) [OF _ refl _ t [symmetric] refl k Inr] True t k Inr 1(3) show ?thesis
          by (simp add: template_loop.simps [of c n i] Let_def)
      qed
    next
      case k: False
      with 1(2) [OF _ refl _ t [symmetric] refl] True t 1(3,4) show ?thesis
        by (simp add: template_loop.simps [of c n i] Let_def)
    qed
  qed
qed

lemma template_create_ok:
  assumes "mk_dirhtml_template_create c = Inr tpl" "0 < strlen c" "length c < 2 ^ 64"
  shows "template_ok tpl"
proof -
  obtain i t st where l: "template_loop c (strlen c) 0 None [] = Inr (i, t, st)" "add_text st c i (strlen c) t = Inr tpl"
    using assms(1,2) by (auto simp: mk_dirhtml_template_create_def Let_def bindE_Inr_iff)
  have "texts_ok (length c) st" using template_loop_texts [OF l(1)] by (simp add: texts_ok_def)
  from add_text_ok [OF l(2) this] assms(3) show ?thesis by (fastforce simp: template_ok_def texts_ok_def)
qed

section \<open>What a theme means\<close>

text \<open>
  A theme is a text, and then tags, each followed by a text. The code tells the tags apart when no text
  has a percent sign, no text starts with an underscore, and two tags are at least two bytes apart.
\<close>

type_synonym theme_rest = "(tag_array \<times> nat \<times> cstr) list"

definition theme_print :: "cstr \<Rightarrow> theme_rest \<Rightarrow> cstr" where
  "theme_print t ps = t @ concat (map (\<lambda>(a, k, u). tag_names a ! k @ u) ps)"

definition plain :: "cstr \<Rightarrow> bool" where
  "plain t \<longleftrightarrow> CHR ''%'' \<notin> set t \<and> NUL \<notin> set t"

fun rest_ok :: "theme_rest \<Rightarrow> bool" where
  "rest_ok [] = True"
| "rest_ok ((a, k, u) # ps) \<longleftrightarrow> k < length (tag_names a) \<and> plain u \<and> take 1 u \<noteq> ''_'' \<and> (ps = [] \<or> 2 \<le> length u) \<and> rest_ok ps"

definition value_text :: "dirhtml_value list \<Rightarrow> tag_array \<Rightarrow> nat \<Rightarrow> cstr" where
  "value_text vs a k = (case find (\<lambda>v. dv_tags v = a \<and> dv_tag_id v = int k) vs of
     None \<Rightarrow> [] | Some v \<Rightarrow> cstring (the (dv_value v)) @ p_bytes (dv_sep v))"

definition theme_fill :: "dirhtml_value list \<Rightarrow> cstr \<Rightarrow> theme_rest \<Rightarrow> cstr" where
  "theme_fill vs t ps = t @ concat (map (\<lambda>(a, k, u). value_text vs a k @ u) ps)"

lemma theme_print_simps [simp]:
  "theme_print t [] = t" "theme_print t ((a, k, u) # ps) = t @ tag_names a ! k @ theme_print u ps"
  by (simp_all add: theme_print_def)

lemma theme_fill_simps [simp]:
  "theme_fill vs t [] = t" "theme_fill vs t ((a, k, u) # ps) = t @ value_text vs a k @ theme_fill vs u ps"
  by (simp_all add: theme_fill_def)

lemma case_eq_percent: "case_eq (CHR ''%'') c \<longleftrightarrow> c = CHR ''%''" "case_eq (CHR ''_'') c \<longleftrightarrow> c = CHR ''_''"
proof -
  have b: "byte (CHR ''%'') = 37" "byte (CHR ''_'') = 95" by (simp_all add: byte_def)
  show "case_eq (CHR ''%'') c \<longleftrightarrow> c = CHR ''%''" "case_eq (CHR ''_'') c \<longleftrightarrow> c = CHR ''_''"
    unfolding case_eq_def byte_eq_iff [symmetric] byte_c_toupper b by auto
qed

definition all_tags :: "cstr list" where
  "all_tags = tag_names TAGS_GLOBAL @ tag_names TAGS_ENTRY"

lemma tag_in_all: "k < length (tag_names a) \<Longrightarrow> tag_names a ! k \<in> set all_tags"
  by (cases a) (auto simp only: all_tags_def set_append dest: nth_mem)

lemma tags_shape:
  "n \<in> set all_tags \<Longrightarrow> 14 \<le> length n \<and> length n \<le> 16 \<and> NUL \<notin> set n \<and> n ! 0 = CHR ''%'' \<and> n ! 1 = CHR ''_''"
  "n \<in> set all_tags \<Longrightarrow> j < length n \<Longrightarrow> n ! j = CHR ''%'' \<Longrightarrow> j = 0 \<or> Suc j = length n"
  "n \<in> set all_tags \<Longrightarrow> m \<in> set all_tags \<Longrightarrow> n \<noteq> m \<Longrightarrow> \<exists>i<14. \<not> case_eq (n ! i) (m ! i)"
proof -
  have 1: "list_all (\<lambda>n. 14 \<le> length n \<and> length n \<le> 16 \<and> NUL \<notin> set n \<and> n ! 0 = CHR ''%'' \<and> n ! 1 = CHR ''_'') all_tags" by code_simp
  show "n \<in> set all_tags \<Longrightarrow> 14 \<le> length n \<and> length n \<le> 16 \<and> NUL \<notin> set n \<and> n ! 0 = CHR ''%'' \<and> n ! 1 = CHR ''_''"
    using 1 by (simp only: list_all_iff) blast
  have 2: "list_all (\<lambda>n. list_all (\<lambda>j. n ! j = CHR ''%'' \<longrightarrow> j = 0 \<or> Suc j = length n) [0..<length n]) all_tags" by code_simp
  show "n \<in> set all_tags \<Longrightarrow> j < length n \<Longrightarrow> n ! j = CHR ''%'' \<Longrightarrow> j = 0 \<or> Suc j = length n"
    using 2 unfolding list_all_iff by (metis atLeastLessThan_iff le0 set_upt)
  have 3: "distinct (map (\<lambda>n. map c_toupper (take 14 n)) all_tags)" by code_simp
  show "\<exists>i<14. \<not> case_eq (n ! i) (m ! i)" if nm: "n \<in> set all_tags" "m \<in> set all_tags" "n \<noteq> m"
  proof (rule ccontr)
    assume a: "\<not> ?thesis"
    have "14 \<le> length n" "14 \<le> length m" using 1 nm unfolding list_all_iff by blast+
    then have "map c_toupper (take 14 n) = map c_toupper (take 14 m)" using a by (intro nth_equalityI) (auto simp: case_eq_def)
    with 3 nm show False by (auto simp: distinct_map dest: inj_onD)
  qed
qed

lemma all_tags_distinct: "distinct all_tags"
  by code_simp

text \<open>At a tag, and nowhere near behind it, a tag is matched, and it is that tag.\<close>

lemma tag_found:
  assumes "rest_ok ((a, k, u) # ps)" "n \<in> set all_tags" "match_at case_eq n (drop j (tag_names a ! k @ theme_print u ps))" "j < 16"
  shows "j = 0 \<and> n = tag_names a ! k"
proof -
  let ?t = "tag_names a ! k" let ?c = "?t @ theme_print u ps"
  have t: "?t \<in> set all_tags" "plain u" "take 1 u \<noteq> ''_''" "ps = [] \<or> 2 \<le> length u" using assms(1) tag_in_all by simp_all
  note sn = tags_shape(1) [OF assms(2)] and st = tags_shape(1) [OF t(1)]
  have m: "length n \<le> length (drop j ?c)" "\<forall>i<length n. case_eq (n ! i) (drop j ?c ! i)" using assms(3) by (simp_all add: match_at_iff)
  have l: "j + 1 < length ?c" using m(1) sn by auto
  have "0 < length n" "1 < length n" using sn by linarith+
  then have "case_eq (n ! 0) (drop j ?c ! 0)" "case_eq (n ! 1) (drop j ?c ! 1)" using m(2) by blast+
  moreover have "drop j ?c ! 0 = ?c ! j" "drop j ?c ! 1 = ?c ! (j + 1)" using l by (simp_all add: nth_drop del: drop_append)
  ultimately have c: "?c ! j = CHR ''%''" "?c ! (j + 1) = CHR ''_''" using sn case_eq_percent by metis+
  have j: "j = 0"
  proof (cases "j < length ?t")
    case True
    then have "?t ! j = CHR ''%''" using c(1) by (simp add: nth_append)
    then consider "j = 0" | "Suc j = length ?t" using tags_shape(2) [OF t(1) True] by blast
    then show ?thesis
    proof cases
      case 2
      then have v: "theme_print u ps ! 0 = CHR ''_''" "theme_print u ps \<noteq> []" using c(2) l by (auto simp: nth_append)
      show ?thesis
      proof (cases u)
        case Nil
        with t(4) v(2) show ?thesis by simp
      next
        case (Cons x xs)
        with v(1) t(3) show ?thesis by (simp add: theme_print_def)
      qed
    qed
  next
    case False
    let ?i = "j - length ?t"
    have v: "theme_print u ps ! ?i = CHR ''%''" "?i < length (theme_print u ps)" using c(1) l False by (auto simp: nth_append)
    have "\<not> ?i < length u"
    proof
      assume i: "?i < length u"
      then have "u ! ?i = CHR ''%''" using v(1) by (simp add: theme_print_def nth_append)
      with nth_mem [OF i] t(2) show False unfolding plain_def by metis
    qed
    then have "2 \<le> length u" using v(2) t(4) by auto
    then show ?thesis using \<open>\<not> ?i < length u\<close> assms(4) False st by linarith
  qed
  moreover have "n = ?t"
  proof (rule ccontr)
    assume "n \<noteq> ?t"
    then obtain i where i: "i < 14" "\<not> case_eq (n ! i) (?t ! i)" using tags_shape(3) [OF assms(2) t(1)] by blast
    have "case_eq (n ! i) (?c ! i)" using m(2) j i(1) sn by auto
    with i st show False by (simp add: nth_append)
  qed
  ultimately show ?thesis by blast
qed

lemma rest_ok_tag: "rest_ok ((a, k, u) # ps) \<Longrightarrow> tag_names a ! k \<in> set all_tags \<and> rest_ok ps \<and> plain u \<and> k < length (tag_names a)"
  using tag_in_all by simp

lemma theme_no_NUL: "plain t \<Longrightarrow> rest_ok ps \<Longrightarrow> NUL \<notin> set (theme_print t ps)"
proof (induction ps arbitrary: t)
  case (Cons p ps)
  obtain a k u where p: "p = (a, k, u)" by (cases p)
  have "NUL \<notin> set (tag_names a ! k)" using rest_ok_tag [OF Cons.prems(2) [unfolded p]] tags_shape(1) by blast
  with Cons rest_ok_tag [OF Cons.prems(2) [unfolded p]] show ?case by (simp add: p plain_def)
qed (simp add: plain_def)

lemma search_tag:
  assumes "rest_ok ((a, k, u) # ps)" "n \<in> set all_tags"
  shows "0 \<le> mk_string_search_n (tag_names a ! k @ theme_print u ps @ NUL # z) n MK_STR_INSENSITIVE (int (strlen n)) \<longleftrightarrow> n = tag_names a ! k"
proof -
  let ?t = "tag_names a ! k" let ?c = "?t @ theme_print u ps"
  note sn = tags_shape(1) [OF assms(2)]
  have "NUL \<notin> set (theme_print [] ((a, k, u) # ps))" using assms(1) by (intro theme_no_NUL) (simp_all add: plain_def)
  then have c: "cstring (?t @ theme_print u ps @ NUL # z) = ?c" using cstring_append_NUL [of ?c z] by simp
  have cn: "cstring n = n" "0 < int (strlen n)" "strlen n = length n" "length n \<le> 16" using sn cstring_no_NUL [of n] by (auto simp: strlen_def)
  have fm: "first_match MK_STR_INSENSITIVE (?t @ theme_print u ps @ NUL # z) n = find_sub case_eq n ?c" by (simp add: first_match_def cn c)
  have self: "find_sub case_eq ?t ?c = Some 0" by (simp add: find_sub_Some_iff match_at_iff nth_append case_eq_def)
  show ?thesis unfolding mk_string_search_n_first_match [OF cn(2)] fm
  proof (cases "find_sub case_eq n ?c")
    case None
    then show "(0 \<le> (case find_sub case_eq n ?c of None \<Rightarrow> - 1 | Some k \<Rightarrow> if k = 0 \<or> int k < int (strlen n) then int k else - 1)) = (n = ?t)"
      using self by auto
  next
    case (Some j)
    then have "match_at case_eq n (drop j ?c)" by (simp only: find_sub_Some_iff)
    then have f: "j < 16 \<Longrightarrow> j = 0 \<and> n = ?t" by (rule tag_found [OF assms])
    show "(0 \<le> (case find_sub case_eq n ?c of None \<Rightarrow> - 1 | Some k \<Rightarrow> if k = 0 \<or> int k < int (strlen n) then int k else - 1)) = (n = ?t)"
    proof (cases "j = 0 \<or> int j < int (strlen n)")
      case True
      then have "j < 16" using cn(3,4) by linarith
      with f Some show ?thesis by simp
    next
      case False
      then have "n \<noteq> ?t" using Some self by auto
      with False Some show ?thesis by simp
    qed
  qed
qed

lemma match_tag_first:
  assumes "\<forall>n\<in>set ts. 0 \<le> mk_string_search_n c n MK_STR_INSENSITIVE (int (strlen n)) \<longleftrightarrow> n = t"
  shows "t \<notin> set ts \<Longrightarrow> match_tag c ts i = -1" "distinct ts \<Longrightarrow> k < length ts \<Longrightarrow> ts ! k = t \<Longrightarrow> match_tag c ts i = int (i + k)"
proof -
  show "t \<notin> set ts \<Longrightarrow> match_tag c ts i = -1" using assms by (induction ts arbitrary: i) auto
  show "distinct ts \<Longrightarrow> k < length ts \<Longrightarrow> ts ! k = t \<Longrightarrow> match_tag c ts i = int (i + k)"
    using assms
  proof (induction ts arbitrary: i k)
    case (Cons x ts)
    then show ?case by (cases k) (auto dest: nth_mem)
  qed simp
qed

lemma tag_at_tag:
  assumes "rest_ok ((a, k, u) # ps)"
  shows "tag_at (tag_names a ! k @ theme_print u ps @ NUL # z) = (a, int k)"
proof -
  let ?t = "tag_names a ! k" let ?c = "?t @ theme_print u ps @ NUL # z"
  have s: "\<forall>n\<in>set (tag_names b). 0 \<le> mk_string_search_n ?c n MK_STR_INSENSITIVE (int (strlen n)) \<longleftrightarrow> n = ?t" for b
    using search_tag [OF assms] by (cases b) (auto simp only: all_tags_def set_append)
  have d: "distinct (tag_names b)" for b using all_tags_distinct by (cases b) (simp_all only: all_tags_def distinct_append)
  have k: "k < length (tag_names a)" using assms by simp
  have own: "match_tag ?c (tag_names a) 0 = int k" using match_tag_first(2) [OF s d k refl, of 0] by (simp only: add_0)
  show ?thesis
  proof (cases a)
    case TAGS_GLOBAL
    with own show ?thesis by (simp only: tag_at_def mk_dirhtml_theme_match_tag_def Let_def) simp
  next
    case TAGS_ENTRY
    have "?t \<notin> set (tag_names TAGS_GLOBAL)"
      using all_tags_distinct nth_mem [OF k] TAGS_ENTRY by (auto simp only: all_tags_def distinct_append)
    then have "match_tag ?c (tag_names TAGS_GLOBAL) 0 = -1" by (rule match_tag_first(1) [OF s])
    with own TAGS_ENTRY show ?thesis by (simp only: tag_at_def mk_dirhtml_theme_match_tag_def Let_def) simp
  qed
qed

lemma search_start:
  assumes "plain t" "rest_ok ps"
  shows "mk_string_search (theme_print t ps @ NUL # z) ''%_'' MK_STR_INSENSITIVE = (if ps = [] then -1 else int (length t))"
proof -
  have c: "cstring (theme_print t ps @ NUL # z) = theme_print t ps" by (rule cstring_append_NUL [OF theme_no_NUL [OF assms]])
  have no: "\<not> match_at case_eq ''%_'' (drop j (theme_print t ps))" if j: "j < length t" for j
  proof
    assume m: "match_at case_eq ''%_'' (drop j (theme_print t ps))"
    have "drop j (theme_print t ps) = t ! j # drop (Suc j) (theme_print t ps)"
      using j by (simp add: theme_print_def Cons_nth_drop_Suc [symmetric] nth_append flip: drop_append)
    with m have "t ! j = CHR ''%''" by (simp add: case_eq_percent)
    with nth_mem [OF j] assms(1) show False unfolding plain_def by metis
  qed
  show ?thesis
  proof (cases ps)
    case Nil
    have "\<not> match_at case_eq ''%_'' (drop j t)" if "j \<le> length t" for j
      using no [of j] that Nil by (cases "j = length t") auto
    then have "find_sub case_eq ''%_'' t = None" by (simp add: find_sub_None_iff)
    with Nil c show ?thesis by (simp add: mk_string_search_first_match first_match_def)
  next
    case (Cons p qs)
    obtain a k u where p: "p = (a, k, u)" by (cases p)
    note tag = tags_shape(1) [OF conjunct1 [OF rest_ok_tag [OF assms(2) [unfolded Cons p]]]]
    have "match_at case_eq ''%_'' (drop (length t) (theme_print t ps))"
      using tag by (simp add: Cons p match_at_iff nth_append All_less_Suc2 case_eq_percent numeral_2_eq_2)
    then have "find_sub case_eq ''%_'' (theme_print t ps) = Some (length t)"
      using no by (simp add: find_sub_Some_iff) (simp add: theme_print_def)
    with Cons c show ?thesis by (simp add: mk_string_search_first_match first_match_def)
  qed
qed

lemma template_loop_theme:
  assumes "drop i c = theme_print t ps @ NUL # z" "n = i + length (theme_print t ps)" "plain t" "rest_ok ps"
  shows "\<exists>i' tpl' st' u. template_loop c n i tpl st = Inr (i', tpl', st') \<and> drop i' c = u @ NUL # z \<and> n = i' + length u \<and> plain u
           \<and> part_text vs st' @ u = part_text vs st @ theme_fill vs t ps"
  using assms
proof (induction ps arbitrary: i t tpl st)
  case Nil
  have "mk_string_search (drop i c) ''%_'' MK_STR_INSENSITIVE = -1" using search_start [OF Nil(3,4), of z] Nil(1) by simp
  then have "template_loop c n i tpl st = Inr (i, tpl, st)" by (simp add: template_loop.simps [of c n i] Let_def)
  with Nil show ?case by (intro exI [of _ i] exI [of _ tpl] exI [of _ st] exI [of _ t]) simp
next
  case (Cons p ps)
  obtain a k u where p: "p = (a, k, u)" by (cases p)
  let ?t = "tag_names a ! k"
  have r: "rest_ok ((a, k, u) # ps)" using Cons.prems(4) by (simp add: p)
  note tag = rest_ok_tag [OF r] and shape = tags_shape(1) [OF conjunct1 [OF rest_ok_tag [OF r]]]
  have pos: "mk_string_search (drop i c) ''%_'' MK_STR_INSENSITIVE = int (length t)" using search_start [OF Cons.prems(3,4), of z] Cons.prems(1) by simp
  have d: "drop (i + length t) c = ?t @ theme_print u ps @ NUL # z"
    using Cons.prems(1) by (simp add: p add.commute [of i] flip: drop_drop)
  have at: "tag_at (drop (i + length t) c) = (a, int k)" unfolding d by (rule tag_at_tag [OF r])
  let ?st1 = "mk_dirhtml_template_list_add st (Some t) (int (strlen t)) (Some a) (-1)"
  have add: "add_text st c i (i + length t) (Some a) = Inr ?st1"
    using Cons.prems(1) by (simp add: add_text_def mk_string_copy_substr_def p)
  let ?i = "i + (length t + strlen ?t)" let ?st = "mk_dirhtml_template_list_add ?st1 None (-1) (Some a) (int k)"
  have sl: "strlen ?t = length ?t" using shape cstring_no_NUL [of ?t] by (simp add: strlen_def)
  have lt: "i < n" using Cons.prems(2) shape by (auto simp: p)
  have step: "template_loop c n i tpl st = template_loop c n ?i (Some a) ?st"
    using lt pos at add by (simp add: template_loop.simps [of c n i] Let_def)
  have d2: "drop ?i c = theme_print u ps @ NUL # z"
    using arg_cong [OF d, of "drop (length ?t)"] sl by (simp add: add.assoc add.commute [of "length ?t"])
  have n2: "n = ?i + length (theme_print u ps)" using Cons.prems(2) sl by (simp add: p)
  obtain i' tpl' st' w where IH: "template_loop c n ?i (Some a) ?st = Inr (i', tpl', st')" "drop i' c = w @ NUL # z" "n = i' + length w" "plain w"
      "part_text vs st' @ w = part_text vs ?st @ theme_fill vs u ps"
    using Cons.IH [OF d2 n2] tag by blast
  have "part_text vs ?st = part_text vs st @ t @ value_text vs a k"
    using Cons.prems(3) cstring_no_NUL [of t]
    by (simp add: part_text_def mk_dirhtml_template_list_add_def node_text_def is_tag_def find_value_def value_text_def plain_def)
  with IH step show ?case by (auto simp: p)
qed

lemma template_create_theme:
  assumes "plain t" "rest_ok ps" "theme_print t ps \<noteq> []"
  shows "\<exists>tpl. mk_dirhtml_template_create (theme_print t ps @ [NUL]) = Inr tpl \<and> part_text vs tpl = theme_fill vs t ps"
proof -
  let ?c = "theme_print t ps @ [NUL]"
  have n: "strlen ?c = 0 + length (theme_print t ps)" using cstring_append_NUL [OF theme_no_NUL [OF assms(1,2)], of "[]"] by (simp add: strlen_def)
  obtain i tpl st u where l: "template_loop ?c (strlen ?c) 0 None [] = Inr (i, tpl, st)" "drop i ?c = u @ [NUL]" "strlen ?c = i + length u" "plain u"
      "part_text vs st @ u = part_text vs [] @ theme_fill vs t ps"
    using template_loop_theme [of 0 ?c t ps "[]" "strlen ?c" None "[]" vs] n assms(1,2) by auto
  have "add_text st ?c i (strlen ?c) tpl = Inr (mk_dirhtml_template_list_add st (Some u) (int (strlen u)) tpl (-1))"
    using l(2,3) by (simp add: add_text_def mk_string_copy_substr_def)
  moreover have "part_text vs (mk_dirhtml_template_list_add st (Some u) (int (strlen u)) tpl (-1)) = theme_fill vs t ps"
    using l(4,5) cstring_no_NUL [of u] by (simp add: part_text_def mk_dirhtml_template_list_add_def node_text_def is_tag_def plain_def)
  ultimately show ?thesis using l(1) n assms(3) by (simp add: mk_dirhtml_template_create_def Let_def)
qed

text \<open>
  C39: a theme is filled correctly. For a theme whose texts have no percent sign and do not start with an
  underscore, with at least two bytes between two tags, the template can be made, it can be filled
  with any values without leaving the vector, and what it gives is the theme with every tag replaced by
  the value that is assigned to it (with its separator), or by nothing when there is none, and the end
  of a chunk when it is to be sent as one. Entry 0 of the vector is left for the size of the chunk.
\<close>

theorem dirhtml_theme_filled:
  assumes "plain t" "rest_ok ps" "theme_print t ps \<noteq> []" "length (theme_print t ps) < 2 ^ 63" "values_ok vs"
  shows "\<exists>tpl io. mk_dirhtml_template_create (theme_print t ps @ [NUL]) = Inr tpl \<and> mk_dirhtml_theme_compose tpl vs ch = Inr io
           \<and> concat (tl (iov_parts io)) = theme_fill vs t ps @ (if ch then CRLF else [])"
proof -
  obtain tpl where tpl: "mk_dirhtml_template_create (theme_print t ps @ [NUL]) = Inr tpl" "part_text vs tpl = theme_fill vs t ps"
    using template_create_theme [OF assms(1-3)] by blast
  have "0 < strlen (theme_print t ps @ [NUL])"
    using cstring_append_NUL [OF theme_no_NUL [OF assms(1,2)], of "[]"] assms(3) by (simp add: strlen_def)
  then have "template_ok tpl" using template_create_ok [OF tpl(1)] assms(4) by simp
  from theme_compose_holds [OF assms(5) this, of ch] tpl show ?thesis by (auto simp: iov_holds_def)
qed

definition demo_values :: "dirhtml_value list" where
  "demo_values = entry_values \<lparr>me_modif = ''01-Jan-1970 00:15'', me_info = sr_file_info mk_request_init, me_name = ''doc'', me_size = ''-'', me_type = DT_DIR\<rparr>"

theorem dirhtml_theme_filled_witness:
  "\<exists>tpl io. mk_dirhtml_template_create (''<a href=%_target_url_%> %_target_name_%</a>'' @ [NUL]) = Inr tpl
     \<and> mk_dirhtml_theme_compose tpl demo_values False = Inr io \<and> concat (tl (iov_parts io)) = ''<a href=doc/> doc/</a>''"
proof -
  let ?ps = "[(TAGS_ENTRY, 1, ''> ''), (TAGS_ENTRY, 2, ''</a>'')]"
  have p: "theme_print ''<a href='' ?ps = ''<a href=%_target_url_%> %_target_name_%</a>''" by simp
  have ok: "plain ''<a href=''" "rest_ok ?ps" by (simp_all add: plain_def)
  have v: "values_ok demo_values"
    by (simp add: values_ok_def demo_values_def entry_values_def Let_def mk_dirhtml_tag_assign_def strlen_def mk_iov_none_def mk_pointer_init_def)
  have f: "theme_fill demo_values ''<a href='' ?ps = ''<a href=doc/> doc/</a>''"
    by (simp add: value_text_def demo_values_def entry_values_def Let_def mk_dirhtml_tag_assign_def p_bytes_def mk_pointer_init_def)
  have n: "theme_print ''<a href='' ?ps \<noteq> []" "length (theme_print ''<a href='' ?ps) < 2 ^ 63" unfolding p by simp_all
  from dirhtml_theme_filled [OF ok n v, of False] show ?thesis unfolding p f by simp
qed

section \<open>The page\<close>

definition page_parts :: "dirhtml_conf \<Rightarrow> session_request \<Rightarrow> mk_f_list list \<Rightarrow> cstr list" where
  "page_parts dc sr toc = part_text (global_values dc sr) (dc_header dc)
     # map (\<lambda>e. part_text (entry_values e) (dc_entry dc)) toc @ [part_text (global_values dc sr) (dc_footer dc)]"

definition dir_sr :: "session_request \<Rightarrow> session_request" where
  "dir_sr sr = sr\<lparr>sr_headers := dir_headers (sr_headers sr) (sr_protocol sr)\<rparr>"

lemma dir_body_chunks:
  assumes "HTTP_PROTOCOL_11 \<le> sr_protocol sr" "\<forall>tr. 0 \<le> dw_sent w tr" "template_ok (dc_entry dc)"
    "\<forall>e\<in>set toc. values_ok (entry_values e)" "\<forall>t\<in>set (page_parts dc sr toc). length t < 2 ^ 64"
    "iov_holds ih (part_text (global_values dc sr) (dc_header dc) @ CRLF) 0"
    "iov_holds ift (part_text (global_values dc sr) (dc_footer dc) @ CRLF) 0"
  shows "\<exists>s'. dir_body en w dc fd sr toc ih ift s = Inr ((), s')
           \<and> sent fd (rs_trace s') = sent fd (rs_trace s) @ concat (map chunk_text (page_parts dc sr toc)) @ ''0'' @ CRLF @ CRLF"
proof -
  let ?h = "part_text (global_values dc sr) (dc_header dc)" and ?f = "part_text (global_values dc sr) (dc_footer dc)"
  have len: "length ?h < 2 ^ 64" "length ?f < 2 ^ 64" "\<forall>e\<in>set toc. length (part_text (entry_values e) (dc_entry dc)) < 2 ^ 64"
    using assms(5) by (simp_all add: page_parts_def)
  have pos: "\<not> dw_sent w tr < 0" for tr using assms(2) by (simp add: not_less)
  obtain s1 where 1: "mk_dirhtml_send en w fd sr ih s = Inr (dw_sent w (rs_trace s1), s1)" "sent fd (rs_trace s1) = sent fd (rs_trace s) @ chunk_text ?h"
    using dirhtml_send_chunk [OF assms(6,1) len(1), where s = s] by blast
  obtain s2 where 2: "send_entries en w dc fd sr 0 toc s1 = Inr ((), s2)"
      "sent fd (rs_trace s2) = sent fd (rs_trace s1) @ concat (map chunk_text (map (\<lambda>e. part_text (entry_values e) (dc_entry dc)) toc))"
    using send_entries_chunks [OF assms(1-4) len(3), where s = s1] by blast
  obtain s3 where 3: "mk_dirhtml_send en w fd sr ift s2 = Inr (dw_sent w (rs_trace s3), s3)" "sent fd (rs_trace s3) = sent fd (rs_trace s2) @ chunk_text ?f"
    using dirhtml_send_chunk [OF assms(7,1) len(2), where s = s2] by blast
  obtain s4 where 4: "mk_socket_set_cork_flag fd False s3 = Inr ((), s4)" "sent fd (rs_trace s4) = sent fd (rs_trace s3)" using cork_sent by blast
  obtain s5 where 5: "mk_socket_send en fd (''0'' @ CRLF @ CRLF) s4 = Inr ((), s5)" "sent fd (rs_trace s5) = sent fd (rs_trace s4) @ ''0'' @ CRLF @ CRLF"
    using socket_send_sent by blast
  have "dir_body en w dc fd sr toc ih ift s = Inr ((), s5)"
    unfolding dir_body_def bindA_def thenA_def 1(1) 2(1) 3(1) sum.case prod.case 4(1) if_not_P [OF pos]
    using assms(1,2) 2(1) 3(1) 4(1) 5(1) by (simp add: mk_dirhtml_send_chunked_end_def)
  moreover have "sent fd (rs_trace s5) = sent fd (rs_trace s) @ concat (map chunk_text (page_parts dc sr toc)) @ ''0'' @ CRLF @ CRLF"
    unfolding 5(2) 4(2) 3(2) 2(2) 1(2) page_parts_def by simp
  ultimately show ?thesis by blast
qed

text \<open>
  C40: the listing of a directory is a well-formed chunked body. On HTTP/1.1, with templates made from
  texts, when the response header could be sent and every write succeeds, the plugin sends behind the
  header exactly one body that a reader of chunks decodes to the page: the header part, one part for
  every listed entry in the order of their names, and the footer part. No store leaves a vector. (A part
  without any text would end the body too early.)
\<close>

theorem mk_dirhtml_init_chunked:
  assumes "i < length (cs_request_list (rs_cs s))" "HTTP_PROTOCOL_11 \<le> sr_protocol (sr_of i s)" "\<forall>tr. 0 \<le> dw_sent w tr"
    and "dw_dir w (cstring (view (sr_real_path (sr_of i s)))) = Some dir"
    and "mk_dirhtml_create_list en w (rs_trace s) fi0 dir (view (sr_real_path (sr_of i s))) = Inr list"
    and "mk_dirhtml_template_create hc = Inr (dc_header dc)" "mk_dirhtml_template_create ec = Inr (dc_entry dc)"
      "mk_dirhtml_template_create fc = Inr (dc_footer dc)" "\<forall>c\<in>{hc, ec, fc}. 0 < strlen c \<and> length c < 2 ^ 64"
    and "values_ok (global_values dc (sr_of i s))" "\<forall>e\<in>set list. values_ok (entry_values e)"
    and "\<forall>t\<in>set (page_parts dc (sr_of i s) (mk_dirhtml_toc list)). t \<noteq> [] \<and> length t < 2 ^ 64"
    and "mk_header_send en (cs_socket (rs_cs s)) i (set_sr i dir_sr s) = Inr (0, s1)"
  shows "\<exists>s' body. mk_dirhtml_init en w dc fi0 i s = Inr (0, s') \<and> sent (cs_socket (rs_cs s)) (rs_trace s') = sent (cs_socket (rs_cs s)) (rs_trace s1) @ body
           \<and> dechunk body = Some (concat (page_parts dc (sr_of i s) (mk_dirhtml_toc list)))"
proof -
  let ?sr = "sr_of i s" and ?fd = "cs_socket (rs_cs s)" let ?toc = "mk_dirhtml_toc list"
  have ok: "template_ok (dc_header dc)" "template_ok (dc_entry dc)" "template_ok (dc_footer dc)"
    using template_create_ok [OF assms(6)] template_create_ok [OF assms(7)] template_create_ok [OF assms(8)] assms(9) by simp_all
  obtain ih where h: "mk_dirhtml_theme_compose (dc_header dc) (global_values dc ?sr) True = Inr ih"
      "iov_holds ih (part_text (global_values dc ?sr) (dc_header dc) @ CRLF) 0"
    using theme_compose_holds [OF assms(10) ok(1), of True] by auto
  obtain ift where f: "mk_dirhtml_theme_compose (dc_footer dc) (global_values dc ?sr) True = Inr ift"
      "iov_holds ift (part_text (global_values dc ?sr) (dc_footer dc) @ CRLF) 0"
    using theme_compose_holds [OF assms(10) ok(3), of True] by auto
  have toc: "\<forall>e\<in>set ?toc. values_ok (entry_values e)" using assms(11) by (simp add: mk_dirhtml_toc_def)
  have len: "\<forall>t\<in>set (page_parts dc ?sr ?toc). length t < 2 ^ 64" and ne: "\<forall>t\<in>set (page_parts dc ?sr ?toc). t \<noteq> []" using assms(12) by simp_all
  obtain s' where b: "dir_body en w dc ?fd ?sr ?toc ih ift s1 = Inr ((), s')"
      "sent ?fd (rs_trace s') = sent ?fd (rs_trace s1) @ concat (map chunk_text (page_parts dc ?sr ?toc)) @ ''0'' @ CRLF @ CRLF"
    using dir_body_chunks [OF assms(2,3) ok(2) toc len h(2) f(2), where s = s1] by blast
  have p: "(HTTP_PROTOCOL_11 \<le> sr_protocol ?sr) = True" using assms(2) by simp
  have set: "set_sr i (\<lambda>sr. sr\<lparr>sr_headers := dir_headers (sr_headers sr) (sr_protocol ?sr)\<rparr>) s = set_sr i dir_sr s"
    by (simp add: set_sr_def dir_sr_def sr_of_def)
  have "mk_dirhtml_init en w dc fi0 i s = Inr (0, s')"
    unfolding mk_dirhtml_init_def bindA_def thenA_def get_cs_apply get_sr_apply getsA_apply upd_headers_apply sum.case prod.case
      assms(4) option.case liftE_def assms(5) p h(1) f(1) set assms(13) b(1)
    by (simp add: b(1))
  then show ?thesis using b(2) dechunk_all [OF ne] by blast
qed



definition demo_theme :: "nat \<Rightarrow> cstr \<times> theme_rest" where
  "demo_theme k = [(''<h1>'', [(TAGS_GLOBAL, 0, ''</h1>'')]), (''<p>'', [(TAGS_ENTRY, 2, [])]), (''</html>'', [])] ! k"

definition demo_text :: "nat \<Rightarrow> cstr" where
  "demo_text k = theme_print (fst (demo_theme k)) (snd (demo_theme k)) @ [NUL]"

definition demo_template :: "nat \<Rightarrow> dirhtml_template list" where
  "demo_template k = (case mk_dirhtml_template_create (demo_text k) of Inl e \<Rightarrow> [] | Inr t \<Rightarrow> t)"

lemma demo_template_ok:
  assumes "k < 3"
  shows "mk_dirhtml_template_create (demo_text k) = Inr (demo_template k)"
    "part_text vs (demo_template k) = theme_fill vs (fst (demo_theme k)) (snd (demo_theme k))"
    "0 < strlen (demo_text k) \<and> length (demo_text k) < 2 ^ 64"
proof -
  have k: "k = 0 \<or> k = 1 \<or> k = 2" using assms by auto
  then have ok: "plain (fst (demo_theme k))" "rest_ok (snd (demo_theme k))" "theme_print (fst (demo_theme k)) (snd (demo_theme k)) \<noteq> []"
    by (auto simp: demo_theme_def plain_def)
  from template_create_theme [OF this, of vs] show "mk_dirhtml_template_create (demo_text k) = Inr (demo_template k)"
      "part_text vs (demo_template k) = theme_fill vs (fst (demo_theme k)) (snd (demo_theme k))"
    by (auto simp: demo_template_def demo_text_def)
  show "0 < strlen (demo_text k) \<and> length (demo_text k) < 2 ^ 64" using k by (auto simp: demo_text_def demo_theme_def strlen_def)
qed

definition demo_dc :: dirhtml_conf where
  "demo_dc = \<lparr>dc_theme_path = ''/t/'', dc_header = demo_template 0, dc_entry = demo_template 1, dc_footer = demo_template 2\<rparr>"

definition demo_dir :: dir_world where
  "demo_dir = \<lparr>dw_dir = (\<lambda>path. Some [\<lparr>d_name = ''.git'', d_kind = DT_DIR\<rparr>, \<lparr>d_name = ''a.html'', d_kind = DT_REG\<rparr>]),
     dw_time = (\<lambda>t. ''01-Jan-1970 00:15''), dw_quotient = (\<lambda>a b. ''1.0''), dw_file = (\<lambda>path. None), dw_sent = (\<lambda>tr. 1)\<rparr>"

definition demo_listing :: req_state where
  "demo_listing = demo_state ((demo_request ''/'')\<lparr>sr_real_path := mk_pointer_set ''/srv/''\<rparr>)"

definition demo_list_entries :: "mk_f_list list" where
  "demo_list_entries = (case mk_dirhtml_create_list demo_env demo_dir [] (sr_file_info mk_request_init)
      [\<lparr>d_name = ''.git'', d_kind = DT_DIR\<rparr>, \<lparr>d_name = ''a.html'', d_kind = DT_REG\<rparr>] ''/srv/'' of Inl e \<Rightarrow> [] | Inr l \<Rightarrow> l)"

lemma demo_listing_header:
  "\<exists>s1. mk_header_send demo_env 7 0 (set_sr 0 dir_sr demo_listing) = Inr (0, s1)"
proof -
  have "case mk_header_send demo_env 7 0 (set_sr 0 dir_sr demo_listing) of Inl e \<Rightarrow> False | Inr (n, s1) \<Rightarrow> n = 0" by code_simp
  then show ?thesis by (auto split: sum.splits prod.splits)
qed


theorem mk_dirhtml_init_chunked_witness:
  "\<exists>s1 s' body. mk_header_send demo_env 7 0 (set_sr 0 dir_sr demo_listing) = Inr (0, s1)
     \<and> mk_dirhtml_init demo_env demo_dir demo_dc (sr_file_info mk_request_init) 0 demo_listing = Inr (0, s')
     \<and> sent 7 (rs_trace s') = sent 7 (rs_trace s1) @ body \<and> dechunk body = Some ''<h1>/</h1><p>a.html</html>''"
proof -
  let ?s = demo_listing
  obtain s1 where s1: "mk_header_send demo_env 7 0 (set_sr 0 dir_sr ?s) = Inr (0, s1)" using demo_listing_header by blast
  have sock: "cs_socket (rs_cs ?s) = 7" "0 < length (cs_request_list (rs_cs ?s))" by code_simp+
  have sr: "HTTP_PROTOCOL_11 \<le> sr_protocol (sr_of 0 ?s)" by code_simp
  have w: "\<forall>tr. 0 \<le> dw_sent demo_dir tr" by (simp add: demo_dir_def)
  have d: "dw_dir demo_dir (cstring (view (sr_real_path (sr_of 0 ?s)))) = Some [\<lparr>d_name = ''.git'', d_kind = DT_DIR\<rparr>, \<lparr>d_name = ''a.html'', d_kind = DT_REG\<rparr>]"
    by (simp add: demo_dir_def)
  have l: "mk_dirhtml_create_list demo_env demo_dir (rs_trace ?s) (sr_file_info mk_request_init)
      [\<lparr>d_name = ''.git'', d_kind = DT_DIR\<rparr>, \<lparr>d_name = ''a.html'', d_kind = DT_REG\<rparr>] (view (sr_real_path (sr_of 0 ?s))) = Inr demo_list_entries"
    by code_simp
  have t: "mk_dirhtml_template_create (demo_text 0) = Inr (dc_header demo_dc)" "mk_dirhtml_template_create (demo_text 1) = Inr (dc_entry demo_dc)"
    "mk_dirhtml_template_create (demo_text 2) = Inr (dc_footer demo_dc)" by (simp_all add: demo_dc_def demo_template_ok)
  have c: "\<forall>c\<in>{demo_text 0, demo_text 1, demo_text 2}. 0 < strlen c \<and> length c < 2 ^ 64" using demo_template_ok(3) by simp
  have "map (\<lambda>e. (me_name e, me_modif e, me_size e, me_type e)) demo_list_entries = [(''a.html'', ''01-Jan-1970 00:15'', ''5b'', DT_REG)]" by code_simp
  then obtain x where x: "demo_list_entries = [x]" "me_name x = ''a.html''" "me_modif x = ''01-Jan-1970 00:15''" "me_size x = ''5b''" "me_type x = DT_REG"
    by (cases demo_list_entries) auto
  have u: "view (sr_uri_processed (sr_of 0 ?s)) = ''/''" "p_len (sr_uri_processed (sr_of 0 ?s)) = 1" "dc_theme_path demo_dc = ''/t/''" by code_simp+
  then have v: "values_ok (global_values demo_dc (sr_of 0 ?s))"
    by (simp add: values_ok_def global_values_def mk_dirhtml_tag_assign_def mk_pointer_to_buf_def p_bytes_def strlen_def mk_iov_none_def mk_pointer_init_def)
  have ve: "\<forall>e\<in>set demo_list_entries. values_ok (entry_values e)"
    unfolding x(1) by (simp add: x(2-5) values_ok_def entry_values_def Let_def mk_dirhtml_tag_assign_def strlen_def mk_iov_none_def mk_pointer_init_def)
  have p: "page_parts demo_dc (sr_of 0 ?s) (mk_dirhtml_toc demo_list_entries) = [''<h1>/</h1>'', ''<p>a.html'', ''</html>'']"
    using u x(2-5) unfolding x(1)
    by (simp add: page_parts_def mk_dirhtml_toc_def demo_dc_def demo_template_ok demo_theme_def value_text_def global_values_def
      entry_values_def Let_def mk_dirhtml_tag_assign_def mk_pointer_to_buf_def p_bytes_def mk_iov_none_def mk_pointer_init_def)
  have ne: "\<forall>t\<in>set (page_parts demo_dc (sr_of 0 ?s) (mk_dirhtml_toc demo_list_entries)). t \<noteq> [] \<and> length t < 2 ^ 64" unfolding p by simp
  obtain s' body where "mk_dirhtml_init demo_env demo_dir demo_dc (sr_file_info mk_request_init) 0 ?s = Inr (0, s')"
      "sent 7 (rs_trace s') = sent 7 (rs_trace s1) @ body" "dechunk body = Some (concat [''<h1>/</h1>'', ''<p>a.html'', ''</html>''])"
    using mk_dirhtml_init_chunked [OF sock(2) sr w d l t c v ve ne s1 [folded sock(1)]] unfolding p sock(1) by blast
  with s1 show ?thesis by (intro exI [of _ s1] exI [of _ s'] exI [of _ body]) simp
qed

end
