(* ===== verification/Mk_Cgi.thy ===== *)
theory Mk_Cgi
  imports Mk_Connection Mk_Chunked
begin

text \<open>
  \<^verbatim>\<open>plugins/cgi\<close>: a request for a script starts a program with a pipe from and to it; what the program
  writes is collected in a buffer of the request (read events of the pipe) and sent to the client
  (write events of its socket), the body in chunks on HTTP/1.1. The plugin works on the state of the
  worker it runs in; its requests are cells of a memory, since the list of the thread and the array
  that is indexed by sockets hold the same ones. A session is known by its socket.
\<close>

section \<open>Calls of the plugin interface\<close>

text \<open>\<^verbatim>\<open>src/mk_plugin.c\<close>; 1 and 2 are \<open>EPOLL_CTL_ADD\<close> and \<open>EPOLL_CTL_DEL\<close>.\<close>

definition mk_plugin_event_add :: "worker_env \<Rightarrow> int \<Rightarrow> epoll_mode \<Rightarrow> plugin \<Rightarrow> 32 word \<Rightarrow> worker \<Rightarrow> worker" where
  "mk_plugin_event_add we socket mode handler behavior w =
     (let (r, ev, ix) = mk_epoll_add (we_ctl we (wk_trace w) 1 socket) (sn_epoll_fd (wk_node w)) socket mode behavior (Some (wk_index w)) in
      wemit (EEpollCtl 1 socket (unat ev)) (w\<lparr>wk_events := wk_events w @ [(socket, handler)], wk_index := the ix\<rparr>))"

definition mk_plugin_event_del :: "worker_env \<Rightarrow> int \<Rightarrow> worker \<Rightarrow> int \<times> worker" where
  "mk_plugin_event_del we socket w =
     (if socket \<le> 0 \<or> mk_plugin_event_get (wk_events w) socket = None then (-1, w)
      else
        let (r, ix) = mk_epoll_del (fst (we_ctl we (wk_trace w) 2 socket)) (sn_epoll_fd (wk_node w)) socket (wk_index w) in
        (0, wemit (EEpollCtl 2 socket 0) (w\<lparr>wk_events := remove_first (\<lambda>(s, p). s = socket) (wk_events w), wk_index := ix\<rparr>)))"

definition mk_plugin_http_request_end :: "worker_env \<Rightarrow> int \<Rightarrow> worker \<Rightarrow> cerr + int \<times> worker" where
  "mk_plugin_http_request_end we socket w =
     bindE (mk_http_request_end we socket w) (\<lambda>(ret, w1). Inr (if ret < 0 then mk_conn_close we socket w1 else (0, w1)))"

section \<open>Data\<close>

definition PATHLEN :: nat where [mk_const]: "PATHLEN = 1024"
definition SHORTLEN :: nat where [mk_const]: "SHORTLEN = 36"

record cgi_request =
  cr_in_buf :: cstr
  cr_sr :: nat
  cr_cs :: int
  cr_in_len :: nat
  cr_fd :: int
  cr_socket :: int
  cr_status_done :: bool
  cr_all_headers_done :: bool
  cr_chunked :: bool

text \<open>
  Rules for scripts: the expression is its text with blanks turned into bars. \<open>None\<close> for the program is
  memory that was never written, and for the list of a host a list that was never initialised.
\<close>

record cgi_vhost_match =
  vm_match :: cstr
  vm_bin :: "cstr option"
  vm_content_type :: "mk_pointer option"

record cgi_vhost =
  cv_host :: host
  cv_match :: "cgi_vhost_match option"

record cgi_config =
  cg_match :: "cstr option"
  cg_vhosts :: "cgi_vhost list option"

text \<open>A program that was started, and data a thread of its own writes to it.\<close>

record cgi_child =
  cc_program :: cstr
  cc_argv :: "cstr list"
  cc_env :: "cstr list"
  cc_dir :: cstr
  cc_stdin :: int
  cc_stdout :: int

record post_t =
  po_fd :: int
  po_buf :: cstr

record cgi_thread =
  ct_worker :: worker
  ct_mem :: "nat \<Rightarrow> cgi_request option"
  ct_next :: nat
  ct_list :: "nat list"
  ct_by_socket :: "int \<Rightarrow> nat option"
  ct_children :: "cgi_child list"
  ct_posts :: "post_t list"

text \<open>
  What is outside: \<open>write\<close> (\<open>None\<close> is a failure) and \<open>read\<close> (\<open>None\<close> is a result that is not positive) after
  a sequence of effects, the two pipes, the process number \<open>vfork\<close> returns to the parent, the text of the address of the
  client, the match of an expression, and whether memory is left.
\<close>

record cgi_world =
  cw_write :: "effect list \<Rightarrow> int \<Rightarrow> cstr \<Rightarrow> nat option"
  cw_read :: "effect list \<Rightarrow> int \<Rightarrow> nat \<Rightarrow> cstr option"
  cw_pipes :: "((int \<times> int) \<times> (int \<times> int)) option"
  cw_fork :: int
  cw_ip :: "cstr option"
  cw_match :: "cstr \<Rightarrow> cstr \<Rightarrow> bool"
  cw_alloc :: bool

section \<open>Writing\<close>

text \<open>
  \<open>swrite\<close>. A write of no bytes would be tried again for ever; for a positive count the operating
  system does not answer 0.
\<close>

function swrite_loop :: "cgi_world \<Rightarrow> int \<Rightarrow> cstr \<Rightarrow> worker \<Rightarrow> cerr + int \<times> worker" where
  "swrite_loop cw fd buf w =
     (if buf = [] then Inr (1, w)
      else
        case cw_write cw (wk_trace w) fd buf of
          None \<Rightarrow> Inr (0, w)
        | Some n \<Rightarrow> if n = 0 then Inl Diverges else swrite_loop cw fd (drop n buf) (wemit (ESend fd (take n buf)) w))"
  by pat_completeness auto
termination by (relation "measure (\<lambda>(cw, fd, buf, w). length buf)") auto

declare swrite_loop.simps [simp del]

definition swrite :: "cgi_world \<Rightarrow> int \<Rightarrow> cstr \<Rightarrow> nat \<Rightarrow> worker \<Rightarrow> cerr + worker" where
  "swrite cw fd buf count w =
     (if length buf < count then Inl OutOfBounds else bindE (swrite_loop cw fd (take count buf) w) (\<lambda>(r, w1). Inr w1))"

definition cgi_write_post :: "cgi_world \<Rightarrow> post_t \<Rightarrow> worker \<Rightarrow> cerr + worker" where
  "cgi_write_post cw p w = bindE (swrite cw (po_fd p) (po_buf p) (length (po_buf p)) w) (\<lambda>w1. Inr (wemit (EClose (po_fd p)) w1))"

definition onW :: "(worker \<Rightarrow> cerr + worker) \<Rightarrow> cgi_thread \<Rightarrow> cerr + cgi_thread" where
  "onW f ct = bindE (f (ct_worker ct)) (\<lambda>w. Inr (ct\<lparr>ct_worker := w\<rparr>))"

section \<open>Requests\<close>

definition cgi_req_create :: "cgi_world \<Rightarrow> int \<Rightarrow> int \<Rightarrow> nat \<Rightarrow> int \<Rightarrow> cgi_request option" where
  "cgi_req_create cw fd socket sr cs =
     (if cw_alloc cw
      then Some \<lparr>cr_in_buf = replicate PATHLEN NUL, cr_sr = sr, cr_cs = cs, cr_in_len = 0, cr_fd = fd, cr_socket = socket,
                 cr_status_done = False, cr_all_headers_done = False, cr_chunked = False\<rparr>
      else None)"

text \<open>The memory of a request is new; it becomes a member of the list of the thread.\<close>

definition cgi_req_add :: "cgi_request \<Rightarrow> cgi_thread \<Rightarrow> cgi_thread" where
  "cgi_req_add r ct =
     ct\<lparr>ct_mem := (ct_mem ct)(ct_next ct \<mapsto> r), ct_list := ct_list ct @ [ct_next ct], ct_next := ct_next ct + 1\<rparr>"

definition cgi_req_del :: "nat \<Rightarrow> cgi_thread \<Rightarrow> cgi_thread" where
  "cgi_req_del p ct = ct\<lparr>ct_mem := (ct_mem ct)(p := None), ct_list := remove1 p (ct_list ct)\<rparr>"

definition cgi_req_get :: "cgi_thread \<Rightarrow> int \<Rightarrow> nat option" where
  "cgi_req_get ct socket = ct_by_socket ct socket"

definition cgi_req_get_by_fd :: "cgi_thread \<Rightarrow> int \<Rightarrow> nat option" where
  "cgi_req_get_by_fd ct fd = find (\<lambda>p. map_option cr_fd (ct_mem ct p) = Some fd) (ct_list ct)"

definition cgi_upd_req :: "nat \<Rightarrow> (cgi_request \<Rightarrow> cgi_request) \<Rightarrow> cgi_thread \<Rightarrow> cgi_thread" where
  "cgi_upd_req p f ct = ct\<lparr>ct_mem := (ct_mem ct)(p := map_option f (ct_mem ct p))\<rparr>"

definition with_req :: "nat \<Rightarrow> (cgi_request \<Rightarrow> cgi_thread \<Rightarrow> cerr + 'a) \<Rightarrow> cgi_thread \<Rightarrow> cerr + 'a" where
  "with_req p f ct = (case ct_mem ct p of None \<Rightarrow> Inl UseAfterFree | Some r \<Rightarrow> f r ct)"

section \<open>Events\<close>

text \<open>Subtraction of \<open>unsigned int\<close>.\<close>

definition usub :: "nat \<Rightarrow> nat \<Rightarrow> nat" where
  "usub a b = nat ((int a - int b) mod 4294967296)"

text \<open>An action on the request and the session of the client.\<close>

definition on_request :: "'a action \<Rightarrow> cgi_request \<Rightarrow> cgi_thread \<Rightarrow> cerr + cgi_thread" where
  "on_request m r ct =
     (if mk_session_get (cr_cs r) (wk_sessions (ct_worker ct)) = None then Inl UseAfterFree
      else bindE (on_session m (cr_cs r) (ct_worker ct)) (\<lambda>(x, w). Inr (ct\<lparr>ct_worker := w\<rparr>)))"

text \<open>Where the number of the status stands when the output starts with a status.\<close>

definition status_at :: "cstr \<Rightarrow> nat option" where
  "status_at buf = (if take 8 buf = ''Status: '' then Some 8 else if take 4 buf = ''HTTP'' then Some 9 else None)"

text \<open>
  The first part of the write event: the status and the response header. The result is the offset where
  the rest starts, or \<open>None\<close> when the event ends here.
\<close>

definition write_status :: "worker_env \<Rightarrow> int \<Rightarrow> nat \<Rightarrow> cgi_request \<Rightarrow> cgi_thread \<Rightarrow> cerr + nat option \<times> cgi_thread" where
  "write_status we socket p r ct =
     (if cr_status_done r \<or> cr_in_len r < 8 then Inr (Some 0, ct)
      else
        bindE (case status_at (cr_in_buf r) of
                 None \<Rightarrow> Inr (Some 0, ct)
               | Some k \<Rightarrow>
                   bindE (on_request (upd_headers (cr_sr r) (\<lambda>sh. sh\<lparr>rh_status := int32 (strtol10 (drop k (cr_in_buf r)))\<rparr>)) r ct) (\<lambda>ct1.
                     case memchr (drop 8 (cr_in_buf r)) LF (cr_in_len r - 8) of
                       None \<Rightarrow> Inr (None, ct1)
                     | Some e \<Rightarrow> Inr (Some (9 + e), cgi_upd_req p (\<lambda>r. r\<lparr>cr_in_len := usub (cr_in_len r) (9 + e)\<rparr>) ct1)))
          (\<lambda>(out, ct1).
            case out of
              None \<Rightarrow> Inr (None, ct1)
            | Some out \<Rightarrow>
                bindE (on_request (mk_header_send (we_env we) socket (cr_sr r)) r ct1) (\<lambda>ct2.
                  Inr (Some out, cgi_upd_req p (\<lambda>r. r\<lparr>cr_status_done := True\<rparr>) ct2))))"

text \<open>\<open>strstr\<close> on the array, which need not hold a terminator.\<close>

definition buf_strstr :: "cstr \<Rightarrow> cstr \<Rightarrow> cerr + nat option" where
  "buf_strstr buf needle =
     (case strstr buf needle of
        Some k \<Rightarrow> Inr (Some k)
      | None \<Rightarrow> if NUL \<in> set buf then Inr None else Inl OutOfBounds)"

definition header_end :: "cstr \<Rightarrow> cerr + nat option" where
  "header_end buf =
     bindE (buf_strstr buf ENDBLOCK) (\<lambda>a. case a of Some k \<Rightarrow> Inr (Some (k + 4)) | None \<Rightarrow>
       bindE (buf_strstr buf [LF, LF, LF, LF]) (\<lambda>b. case b of Some k \<Rightarrow> Inr (Some (k + 4)) | None \<Rightarrow>
         bindE (buf_strstr buf [LF, LF]) (\<lambda>c. Inr (map_option (\<lambda>k. k + 2) c))))"

definition write_headers :: "worker_env \<Rightarrow> cgi_world \<Rightarrow> int \<Rightarrow> nat \<Rightarrow> nat \<Rightarrow> cgi_request \<Rightarrow> cgi_thread \<Rightarrow> cerr + nat option \<times> cgi_thread" where
  "write_headers we cw socket p out r ct =
     (if cr_all_headers_done r then Inr (Some out, ct)
      else
        bindE (header_end (drop out (cr_in_buf r))) (\<lambda>end.
          case end of
            None \<Rightarrow>
              bindE (onW (swrite cw socket (drop out (cr_in_buf r)) (cr_in_len r)) ct) (\<lambda>ct1.
                bindE (onW (change_mode we socket MK_EPOLL_SLEEP) (cgi_upd_req p (\<lambda>r. r\<lparr>cr_in_len := 0\<rparr>) ct1)) (\<lambda>ct2. Inr (None, ct2)))
          | Some len \<Rightarrow>
              bindE (onW (swrite cw socket (drop out (cr_in_buf r)) len) ct) (\<lambda>ct1.
                let left = usub (cr_in_len r) len;
                    ct2 = cgi_upd_req p (\<lambda>r. r\<lparr>cr_in_len := left, cr_all_headers_done := True\<rparr>) ct1
                in if left = 0 then bindE (onW (change_mode we socket MK_EPOLL_SLEEP) ct2) (\<lambda>ct3. Inr (None, ct3))
                   else Inr (Some (out + len), ct2))))"

definition write_body :: "worker_env \<Rightarrow> cgi_world \<Rightarrow> int \<Rightarrow> nat \<Rightarrow> nat \<Rightarrow> cgi_request \<Rightarrow> cgi_thread \<Rightarrow> cerr + cgi_thread" where
  "write_body we cw socket p out r ct =
     (let tmp = hex_text (cr_in_len r) @ CRLF in
      bindE (if cr_chunked r then onW (swrite cw socket tmp (length tmp)) ct else Inr ct) (\<lambda>ct1.
        bindE (onW (swrite cw socket (drop out (cr_in_buf r)) (cr_in_len r)) ct1) (\<lambda>ct2.
          bindE (onW (change_mode we socket MK_EPOLL_SLEEP) (cgi_upd_req p (\<lambda>r. r\<lparr>cr_in_len := 0\<rparr>) ct2)) (\<lambda>ct3.
            bindE (onW (change_mode we (cr_fd r) MK_EPOLL_READ) ct3) (\<lambda>ct4.
              bindE (if cr_chunked r then onW (swrite cw socket CRLF 2) ct4 else Inr ct4) (\<lambda>ct5.
                Inr (ct5\<lparr>ct_worker := wemit (ECork socket False) (ct_worker ct5)\<rparr>)))))))"

definition cgi_event_write :: "worker_env \<Rightarrow> cgi_world \<Rightarrow> int \<Rightarrow> cgi_thread \<Rightarrow> cerr + int \<times> cgi_thread" where
  "cgi_event_write we cw socket ct =
     (case cgi_req_get ct socket of
        None \<Rightarrow> Inr (MK_PLUGIN_RET_EVENT_CONTINUE, ct)
      | Some p \<Rightarrow>
          with_req p (\<lambda>r ct0.
            if cr_in_len r = 0 then Inr (MK_PLUGIN_RET_EVENT_OWNED, ct0)
            else
              bindE (write_status we socket p r (ct0\<lparr>ct_worker := wemit (ECork socket True) (ct_worker ct0)\<rparr>)) (\<lambda>(out, ct1).
                case out of
                  None \<Rightarrow> Inr (MK_PLUGIN_RET_EVENT_OWNED, ct1)
                | Some out \<Rightarrow>
                    bindE (with_req p (write_headers we cw socket p out) ct1) (\<lambda>(out2, ct2).
                      case out2 of
                        None \<Rightarrow> Inr (MK_PLUGIN_RET_EVENT_OWNED, ct2)
                      | Some out2 \<Rightarrow>
                          bindE (with_req p (write_body we cw socket p out2) ct2) (\<lambda>ct3. Inr (MK_PLUGIN_RET_EVENT_OWNED, ct3))))) ct)"

definition cgi_put_bytes :: "cstr \<Rightarrow> nat \<Rightarrow> cstr \<Rightarrow> cstr" where
  "cgi_put_bytes buf i bs = take i buf @ bs @ drop (i + length bs) buf"

text \<open>With more than \<open>PATHLEN\<close> bytes in the buffer the count would be huge.\<close>

definition cgi_event_read :: "worker_env \<Rightarrow> cgi_world \<Rightarrow> int \<Rightarrow> cgi_thread \<Rightarrow> cerr + int \<times> cgi_thread" where
  "cgi_event_read we cw fd ct =
     (case cgi_req_get_by_fd ct fd of
        None \<Rightarrow> Inr (MK_PLUGIN_RET_EVENT_NEXT, ct)
      | Some p \<Rightarrow>
          with_req p (\<lambda>r ct0.
            let count = PATHLEN - cr_in_len r;
                ready = (\<lambda>ct. bindE (onW (change_mode we (cr_socket r) MK_EPOLL_WRITE) ct) (\<lambda>ct1. Inr (MK_PLUGIN_RET_EVENT_OWNED, ct1)))
            in if PATHLEN < cr_in_len r then Inl OutOfBounds
               else if count < 1 then bindE (onW (change_mode we (cr_fd r) MK_EPOLL_SLEEP) ct0) ready
               else
                 case cw_read cw (wk_trace (ct_worker ct0)) (cr_fd r) count of
                   None \<Rightarrow> Inr (MK_PLUGIN_RET_EVENT_CLOSE, ct0)
                 | Some bs \<Rightarrow>
                     let got = take count bs in
                     ready (cgi_upd_req p (\<lambda>r. r\<lparr>cr_in_buf := cgi_put_bytes (cr_in_buf r) (cr_in_len r) got, cr_in_len := cr_in_len r + length got\<rparr>) ct0)) ct)"

definition cgi_hangup :: "worker_env \<Rightarrow> cgi_world \<Rightarrow> int \<Rightarrow> cgi_thread \<Rightarrow> cerr + int \<times> cgi_thread" where
  "cgi_hangup we cw socket ct =
     (case cgi_req_get_by_fd ct socket of
        None \<Rightarrow> Inr (MK_PLUGIN_RET_EVENT_CONTINUE, ct)
      | Some p \<Rightarrow>
          with_req p (\<lambda>r0 ct0.
            bindE (cgi_event_write we cw (cr_socket r0) ct0) (\<lambda>(ret, ct1).
              with_req p (\<lambda>r ct2.
                bindE (onW (\<lambda>w. let w1 = snd (mk_plugin_event_del we (cr_fd r) w) in
                              if cr_chunked r then swrite cw (cr_socket r) (''0'' @ CRLF @ CRLF) 5 w1 else Inr w1) ct2) (\<lambda>ct3.
                  bindE (onW (\<lambda>w. bindE (mk_plugin_http_request_end we (cr_socket r) w) (\<lambda>(x, w1). Inr (wemit (EClose (cr_fd r)) w1))) ct3) (\<lambda>ct4.
                    Inr (MK_PLUGIN_RET_EVENT_OWNED, cgi_req_del p (ct4\<lparr>ct_by_socket := (ct_by_socket ct4)(cr_socket r := None)\<rparr>))))) ct1)) ct)"

definition cgi_event_close :: "worker_env \<Rightarrow> cgi_world \<Rightarrow> int \<Rightarrow> cgi_thread \<Rightarrow> cerr + int \<times> cgi_thread" where
  "cgi_event_close we cw socket ct = cgi_hangup we cw socket ct"

definition cgi_event_error :: "worker_env \<Rightarrow> cgi_world \<Rightarrow> int \<Rightarrow> cgi_thread \<Rightarrow> cerr + int \<times> cgi_thread" where
  "cgi_event_error we cw socket ct = cgi_hangup we cw socket ct"

section \<open>Starting a program\<close>

text \<open>\<open>dirname\<close> and \<open>basename\<close> of the C library, on a path.\<close>

definition strip_slashes :: "cstr \<Rightarrow> cstr" where
  "strip_slashes path = rev (dropWhile (\<lambda>c. c = CHR ''/'') (rev path))"

definition c_basename :: "cstr \<Rightarrow> cstr" where
  "c_basename path =
     (if path = [] then ''.''
      else let s = strip_slashes path in if s = [] then ''/'' else rev (takeWhile (\<lambda>c. c \<noteq> CHR ''/'') (rev s)))"

definition c_dirname :: "cstr \<Rightarrow> cstr" where
  "c_dirname path =
     (let s = strip_slashes path; d = rev (dropWhile (\<lambda>c. c \<noteq> CHR ''/'') (rev s)) in
      if s = [] then (if path = [] then ''.'' else ''/'')
      else if d = [] then ''.''
      else if strip_slashes d = [] then ''/'' else strip_slashes d)"

text \<open>A variable of the environment, cut to an array of \<open>n\<close> bytes by \<open>snprintf\<close>.\<close>

definition env_var :: "nat \<Rightarrow> cstr \<Rightarrow> cstr \<Rightarrow> cstr" where
  "env_var n label v = cstring (fst (vsnprintf n (label @ v)))"

definition INET6_ADDRSTRLEN :: nat where [mk_const]: "INET6_ADDRSTRLEN = 46"

definition cgi_env :: "cgi_world \<Rightarrow> cstr \<Rightarrow> cstr \<Rightarrow> session_request \<Rightarrow> host \<Rightarrow> cstr list" where
  "cgi_env cw file url sr h =
     (let query = cstring (p_bytes (sr_query_string sr)); q = 0 < p_len (sr_query_string sr) in
      [''PATH_INFO='', ''GATEWAY_INTERFACE=CGI/1.1'', ''REDIRECT_STATUS=200'',
       env_var SHORTLEN ''REQUEST_METHOD='' (cstring (view (sr_method_p sr))),
       env_var SHORTLEN ''SERVER_SOFTWARE='' (cstring (h_signature h)),
       env_var SHORTLEN ''HTTP_HOST='' (cstring (p_bytes (sr_host sr))),
       env_var SHORTLEN ''SERVER_PROTOCOL='' (if sr_protocol sr = HTTP_PROTOCOL_11 then ''HTTP/1.1'' else ''HTTP/1.0''),
       env_var PATHLEN ''REQUEST_URI='' (cstring url @ (if q then ''?'' @ query else [])),
       env_var PATHLEN ''SCRIPT_FILENAME='' (cstring file),
       env_var PATHLEN ''SCRIPT_NAME='' (cstring url)]
      @ (if q then [env_var PATHLEN ''QUERY_STRING='' query] else [])
      @ [env_var (INET6_ADDRSTRLEN + SHORTLEN) ''REMOTE_ADDR='' (case cw_ip cw of None \<Rightarrow> [] | Some a \<Rightarrow> cstring a),
         env_var SHORTLEN ''REMOTE_PORT='' (dec_text (sr_port sr))]
      @ (if 0 < p_len (sr_data sr) then [env_var SHORTLEN ''CONTENT_LENGTH='' (dec_text (int (p_len (sr_data sr))))] else [])
      @ (if 0 < p_len (sr_content_type sr) then [env_var SHORTLEN ''CONTENT_TYPE='' (cstring (view (sr_content_type sr)))] else []))"

text \<open>
  The program the child process runs. The rule is not set when the global expression matched, and its
  program is not set when the line has no second word; both are read.
\<close>

definition cgi_child_of :: "cstr \<Rightarrow> cstr list \<Rightarrow> cgi_vhost_match option \<Rightarrow> int \<Rightarrow> int \<Rightarrow> cerr + cgi_child" where
  "cgi_child_of file env match stdin' stdout' =
     (case match of
        None \<Rightarrow> Inl NullDeref
      | Some m \<Rightarrow>
          (case vm_bin m of
             None \<Rightarrow> Inl NullDeref
           | Some bin \<Rightarrow>
               Inr \<lparr>cc_program = cstring bin, cc_argv = [c_basename (cstring bin), cstring file], cc_env = env,
                    cc_dir = c_dirname (cstring file), cc_stdin = stdin', cc_stdout = stdout'\<rparr>))"

definition MK_REDIR_MULTIPLE :: int where [mk_const]: "MK_REDIR_MULTIPLE = 300"
definition MK_REDIR_USE_PROXY :: int where [mk_const]: "MK_REDIR_USE_PROXY = 305"

definition wants_chunks :: "session_request \<Rightarrow> bool" where
  "wants_chunks sr \<longleftrightarrow> HTTP_PROTOCOL_11 \<le> sr_protocol sr
     \<and> (rh_status (sr_headers sr) < MK_REDIR_MULTIPLE \<or> MK_REDIR_USE_PROXY < rh_status (sr_headers sr))"

text \<open>The request of the new program, from the point on where it has been created.\<close>

definition cgi_connect :: "worker_env \<Rightarrow> plugin \<Rightarrow> int \<Rightarrow> session_request \<Rightarrow> cgi_request \<Rightarrow> cgi_thread \<Rightarrow> cerr + int \<times> cgi_thread" where
  "cgi_connect we pl socket sr r ct =
     bindE (if wants_chunks sr
            then bindE (on_request (upd_headers (cr_sr r) (\<lambda>sh. sh\<lparr>rh_transfer_encoding := 0\<rparr>)) r ct) (\<lambda>ct1. Inr (r\<lparr>cr_chunked := True\<rparr>, ct1))
            else Inr (r, ct)) (\<lambda>(r1, ct1).
       let p = ct_next ct1;
           ct2 = cgi_req_add r1 ct1;
           ct3 = ct2\<lparr>ct_worker := mk_plugin_event_add we (cr_fd r1) MK_EPOLL_READ pl MK_EPOLL_LEVEL_TRIGGERED (ct_worker ct2)\<rparr>;
           ct4 = ct3\<lparr>ct_by_socket := (ct_by_socket ct3)(socket \<mapsto> p)\<rparr>
       in bindE (onW (change_mode we socket MK_EPOLL_SLEEP) ct4) (\<lambda>ct5. Inr (200, ct5)))"

definition do_cgi ::
  "worker_env \<Rightarrow> cgi_world \<Rightarrow> plugin \<Rightarrow> cstr \<Rightarrow> cstr \<Rightarrow> int \<Rightarrow> nat \<Rightarrow> session_request \<Rightarrow> cgi_vhost_match option \<Rightarrow> cgi_thread \<Rightarrow>
   cerr + int \<times> cgi_thread" where
  "do_cgi we cw pl file url socket i sr match ct =
     (case sr_host_conf sr of
        None \<Rightarrow> Inl NullDeref
      | Some h \<Rightarrow>
          (case cw_pipes cw of
             None \<Rightarrow> Inr (403, ct)
           | Some ((wr0, wr1), (rd0, rd1)) \<Rightarrow>
               if cw_fork cw < 0 then Inr (403, ct)
               else
                 bindE (cgi_child_of file (cgi_env cw file url sr h) match wr0 rd1) (\<lambda>child.
                   let w1 = wemit (EClose rd1) (wemit (EClose wr0) (ct_worker ct));
                       ct1 = ct\<lparr>ct_worker := w1, ct_children := ct_children ct @ [child]\<rparr>;
                       ct2 = (if 0 < p_len (sr_data sr)
                              then ct1\<lparr>ct_posts := ct_posts ct1 @ [\<lparr>po_fd = wr1, po_buf = p_bytes (sr_data sr)\<rparr>]\<rparr>
                              else ct1\<lparr>ct_worker := wemit (EClose wr1) w1\<rparr>)
                   in case cgi_req_create cw rd0 socket i socket of
                        None \<Rightarrow> Inr (403, ct2)
                      | Some r \<Rightarrow> cgi_connect we pl socket sr r ct2)))"

section \<open>Configuration\<close>

definition str_to_regex :: "cstr \<Rightarrow> cstr" where
  "str_to_regex s = map (\<lambda>c. if c = CHR '' '' then CHR ''|'' else c) (cstring s)"

text \<open>The words of a line: the expression, the program and the type of what it writes.\<close>

definition cgi_rule :: "mk_string_line list \<Rightarrow> cerr + cgi_vhost_match" where
  "cgi_rule line =
     (case line of
        [] \<Rightarrow> Inl NullDeref
      | e # es \<Rightarrow>
          Inr \<lparr>vm_match = str_to_regex (sl_val e), vm_bin = map_option sl_val (case es of [] \<Rightarrow> None | b # _ \<Rightarrow> Some b),
               vm_content_type = (case es of b # t # _ \<Rightarrow> Some \<lparr>p_data = Some (sl_val t), p_len = sl_len t\<rparr> | _ \<Rightarrow> None)\<rparr>)"

text \<open>Every line that matches starts the list anew, so the last one is the rule of the host.\<close>

fun cgi_entries :: "mk_config_entry list \<Rightarrow> cgi_vhost_match option \<Rightarrow> cerr + cgi_vhost_match option" where
  "cgi_entries [] m = Inr m"
| "cgi_entries (e # es) m =
     (if strncasecmp_eq (ce_key e) ''Match'' (strlen (ce_key e))
      then
        (case mk_string_split_line (Some (ce_val e)) of
           None \<Rightarrow> cgi_entries es m
         | Some line \<Rightarrow> bindE (cgi_rule line) (\<lambda>r. cgi_entries es (Some r)))
      else cgi_entries es m)"

fun cgi_hosts :: "(host \<times> mk_config_section list) list \<Rightarrow> cerr + cgi_vhost list" where
  "cgi_hosts [] = Inr []"
| "cgi_hosts ((h, sections) # hs) =
     (case mk_config_section_get sections ''CGI'' of
        None \<Rightarrow> cgi_hosts hs
      | Some section \<Rightarrow>
          bindE (cgi_entries (sec_entries section) None) (\<lambda>m. bindE (cgi_hosts hs) (\<lambda>vs. Inr (\<lparr>cv_host = h, cv_match = m\<rparr> # vs))))"

definition cgi_read_config :: "mk_config_section list \<Rightarrow> (host \<times> mk_config_section list) list \<Rightarrow> cerr + cgi_config" where
  "cgi_read_config sections vhs =
     bindE (cgi_hosts vhs) (\<lambda>vs.
       Inr \<lparr>cg_match = (case mk_config_section_get sections ''CGI'' of
                          None \<Rightarrow> None
                        | Some section \<Rightarrow> map_option str_to_regex (val_str (mk_config_section_getval section ''Match'' MK_CONFIG_VAL_STR))),
            cg_vhosts = (if vs = [] then None else Some vs)\<rparr>)"

section \<open>Stage 30\<close>

text \<open>
  Whether a URL is a script, and the rule for it: \<open>None\<close> when it is not, \<open>Some None\<close> when no rule is set.
  Without a global expression \<open>regexec\<close> is given one that was never compiled.
\<close>

definition cgi_match :: "cgi_world \<Rightarrow> cgi_config \<Rightarrow> cstr \<Rightarrow> host option \<Rightarrow> cerr + cgi_vhost_match option option" where
  "cgi_match cw cfg url h =
     (case cg_match cfg of
        None \<Rightarrow> Inl NullDeref
      | Some re \<Rightarrow>
          (case cg_vhosts cfg of
             None \<Rightarrow> Inr (Some None)
           | Some vs \<Rightarrow>
               if cw_match cw re url then Inr (Some None)
               else
                 case find (\<lambda>v. Some (cv_host v) = h) vs of
                   None \<Rightarrow> Inr None
                 | Some v \<Rightarrow>
                     (case cv_match v of
                        None \<Rightarrow> Inl NullDeref
                      | Some m \<Rightarrow> Inr (if cw_match cw (vm_match m) url then Some (Some m) else None))))"

definition cgi_stage_30 ::
  "worker_env \<Rightarrow> cgi_world \<Rightarrow> cgi_config \<Rightarrow> plugin \<Rightarrow> int \<Rightarrow> nat \<Rightarrow> cgi_thread \<Rightarrow> cerr + int \<times> cgi_thread" where
  "cgi_stage_30 we cw cfg pl socket i ct =
     (case mk_session_get socket (wk_sessions (ct_worker ct)) of
        None \<Rightarrow> Inl NullDeref
      | Some cs \<Rightarrow>
          let sr = cs_request_list cs ! i; url = cstring (p_bytes (sr_uri sr)); file = view (sr_real_path sr) in
          if PATHLEN < p_len (sr_uri sr) + 1 \<or> \<not> fi_is_file (sr_file_info sr) then Inr (MK_PLUGIN_RET_NOT_ME, ct)
          else
            bindE (cgi_match cw cfg url (sr_host_conf sr)) (\<lambda>match.
              case match of
                None \<Rightarrow> Inr (MK_PLUGIN_RET_NOT_ME, ct)
              | Some vmatch \<Rightarrow>
                  if cgi_req_get ct socket \<noteq> None then Inr (MK_PLUGIN_RET_CONTINUE, ct)
                  else
                    bindE (do_cgi we cw pl file url socket i sr vmatch ct) (\<lambda>(status, ct1).
                      let cgi = (if status \<noteq> 200 then (\<lambda>sh. sh\<lparr>rh_status := status\<rparr>) else (\<lambda>sh. sh\<lparr>rh_status := status, rh_cgi := 1\<rparr>)) in
                      bindE (on_session (upd_headers i cgi) socket (ct_worker ct1)) (\<lambda>(u, w).
                        Inr (if status \<noteq> 200 then MK_PLUGIN_RET_END else MK_PLUGIN_RET_CONTINUE, ct1\<lparr>ct_worker := w\<rparr>)))))"

section \<open>What is written\<close>

text \<open>The client takes what is written: no write fails, and each takes at least one byte.\<close>

definition writes :: "cgi_world \<Rightarrow> bool" where
  "writes cw \<longleftrightarrow> (\<forall>tr fd b. b \<noteq> [] \<longrightarrow> (\<exists>n. cw_write cw tr fd b = Some n \<and> 0 < n))"

abbreviation ct_trace :: "cgi_thread \<Rightarrow> effect list" where
  "ct_trace ct \<equiv> wk_trace (ct_worker ct)"

lemma sent_wemit [simp]:
  "sent k (wk_trace (wemit (ECork s b) w)) = sent k (wk_trace w)" "sent k (wk_trace (wemit (EClose s) w)) = sent k (wk_trace w)"
  "sent k (wk_trace (wemit (EEpollCtl c s m) w)) = sent k (wk_trace w)" "sent k (wk_trace (wemit (EStage50 s) w)) = sent k (wk_trace w)"
  "sent k (wk_trace (wemit (ESend k bs) w)) = sent k (wk_trace w) @ bs"
  by (simp_all add: wemit_def) (simp_all add: sent_def)

lemma wemit_frame [simp]: "wk_sessions (wemit e w) = wk_sessions w" "wk_gmt (wemit e w) = wk_gmt w"
  by (simp_all add: wemit_def)

lemma swrite_loop_sent:
  "writes cw \<Longrightarrow> \<exists>tr'. swrite_loop cw fd buf w = Inr (1, w\<lparr>wk_trace := tr'\<rparr>) \<and> sent fd tr' = sent fd (wk_trace w) @ buf"
proof (induction cw fd buf w rule: swrite_loop.induct)
  case (1 cw fd buf w)
  show ?case
  proof (cases "buf = []")
    case True
    then show ?thesis by (intro exI [of _ "wk_trace w"]) (simp add: swrite_loop.simps)
  next
    case False
    then obtain n where n: "cw_write cw (wk_trace w) fd buf = Some n" "0 < n" using "1.prems" unfolding writes_def by blast
    let ?w = "wemit (ESend fd (take n buf)) w"
    obtain tr' where tr: "swrite_loop cw fd (drop n buf) ?w = Inr (1, ?w\<lparr>wk_trace := tr'\<rparr>)" "sent fd tr' = sent fd (wk_trace ?w) @ drop n buf"
      using 1(1) [OF False n(1) _ "1.prems"] n(2) by blast
    have "swrite_loop cw fd buf w = swrite_loop cw fd (drop n buf) ?w" using False n by (simp add: swrite_loop.simps [of cw fd buf])
    with tr show ?thesis by (intro exI [of _ tr']) (simp add: wemit_def sent_append)
  qed
qed

lemma swrite_sent:
  assumes "writes cw" "count \<le> length buf"
  shows "\<exists>tr'. swrite cw fd buf count w = Inr (w\<lparr>wk_trace := tr'\<rparr>) \<and> sent fd tr' = sent fd (wk_trace w) @ take count buf"
  using swrite_loop_sent [OF assms(1), of fd "take count buf" w] assms(2) by (auto simp: swrite_def bindE_def)

lemma onW_swrite:
  assumes "writes cw" "count \<le> length buf"
  obtains w where "onW (swrite cw fd buf count) ct = Inr (ct\<lparr>ct_worker := w\<rparr>)" "sent fd (wk_trace w) = sent fd (ct_trace ct) @ take count buf"
    "wk_sessions w = wk_sessions (ct_worker ct)"
  using swrite_sent [OF assms, of fd "ct_worker ct"] by (fastforce simp: onW_def bindE_def)

lemma change_mode_sent:
  assumes "mode \<noteq> MK_EPOLL_WAKEUP"
  shows "\<exists>w'. change_mode we s mode w = Inr w' \<and> sent k (wk_trace w') = sent k (wk_trace w) \<and> wk_sessions w' = wk_sessions w \<and> wk_gmt w' = wk_gmt w"
  using assms by (simp add: change_mode_def mk_epoll_change_mode_def bindE_def Let_def)

lemma onW_change_mode:
  assumes "mode \<noteq> MK_EPOLL_WAKEUP"
  obtains w where "onW (change_mode we s mode) ct = Inr (ct\<lparr>ct_worker := w\<rparr>)" "sent k (wk_trace w) = sent k (ct_trace ct)"
    "wk_sessions w = wk_sessions (ct_worker ct)" "wk_gmt w = wk_gmt (ct_worker ct)"
proof -
  obtain w where "change_mode we s mode (ct_worker ct) = Inr w" "sent k (wk_trace w) = sent k (ct_trace ct)" "wk_sessions w = wk_sessions (ct_worker ct)"
      "wk_gmt w = wk_gmt (ct_worker ct)"
    using change_mode_sent [OF assms] by blast
  with that show thesis by (simp add: onW_def bindE_def)
qed

lemma cgi_upd_req_worker [simp]:
  "ct_worker (cgi_upd_req p f ct) = ct_worker ct" "cgi_upd_req p f (ct\<lparr>ct_worker := w\<rparr>) = (cgi_upd_req p f ct)\<lparr>ct_worker := w\<rparr>"
  by (simp_all add: cgi_upd_req_def)

lemma cgi_upd_req_twice [simp]: "cgi_upd_req p f (cgi_upd_req p g ct) = cgi_upd_req p (f \<circ> g) ct"
  by (simp add: cgi_upd_req_def option.map_comp)

lemma write_body_chunk:
  assumes "writes cw" "cr_chunked r" "out + cr_in_len r \<le> length (cr_in_buf r)"
  shows "\<exists>w. write_body we cw k p out r ct = Inr ((cgi_upd_req p (\<lambda>r. r\<lparr>cr_in_len := 0\<rparr>) ct)\<lparr>ct_worker := w\<rparr>)
           \<and> sent k (wk_trace w) = sent k (ct_trace ct) @ chunk_text (take (cr_in_len r) (drop out (cr_in_buf r)))"
proof -
  let ?tmp = "hex_text (cr_in_len r) @ CRLF" and ?b = "drop out (cr_in_buf r)" and ?f = "\<lambda>r. r\<lparr>cr_in_len := 0\<rparr>"
  obtain w1 where w1: "onW (swrite cw k ?tmp (length ?tmp)) ct = Inr (ct\<lparr>ct_worker := w1\<rparr>)" "sent k (wk_trace w1) = sent k (ct_trace ct) @ ?tmp"
    using onW_swrite [OF assms(1) order_refl, of k ?tmp ct] by auto
  have len: "cr_in_len r \<le> length ?b" using assms(3) by simp
  obtain w2 where w2: "onW (swrite cw k ?b (cr_in_len r)) (ct\<lparr>ct_worker := w1\<rparr>) = Inr (ct\<lparr>ct_worker := w2\<rparr>)"
      "sent k (wk_trace w2) = sent k (wk_trace w1) @ take (cr_in_len r) ?b"
    using onW_swrite [OF assms(1) len, of k "ct\<lparr>ct_worker := w1\<rparr>"] by auto
  let ?u = "\<lambda>w. (cgi_upd_req p ?f ct)\<lparr>ct_worker := w\<rparr>"
  obtain w3 where w3: "onW (change_mode we k MK_EPOLL_SLEEP) (?u w2) = Inr (?u w3)" "sent k (wk_trace w3) = sent k (wk_trace w2)"
    using onW_change_mode [of MK_EPOLL_SLEEP we k "?u w2" k] by auto
  obtain w4 where w4: "onW (change_mode we (cr_fd r) MK_EPOLL_READ) (?u w3) = Inr (?u w4)" "sent k (wk_trace w4) = sent k (wk_trace w3)"
    using onW_change_mode [of MK_EPOLL_READ we "cr_fd r" "?u w3" k] by auto
  obtain w5 where w5: "onW (swrite cw k CRLF 2) (?u w4) = Inr (?u w5)" "sent k (wk_trace w5) = sent k (wk_trace w4) @ CRLF"
    using onW_swrite [OF assms(1), of 2 CRLF k "?u w4"] by auto
  have "write_body we cw k p out r ct = Inr (?u (wemit (ECork k False) w5))"
    using w1(1) w2(1) w3(1) w4(1) w5(1) assms(2) by (simp add: write_body_def bindE_def)
  moreover have "sent k (wk_trace (wemit (ECork k False) w5)) = sent k (ct_trace ct) @ chunk_text (take (cr_in_len r) ?b)"
    using w1(2) w2(2) w3(2) w4(2) w5(2) len by (simp add: chunk_text_def)
  ultimately show ?thesis by blast
qed

section \<open>The events of a request\<close>

definition linked :: "cgi_thread \<Rightarrow> nat \<Rightarrow> cgi_request \<Rightarrow> bool" where
  "linked ct p r \<longleftrightarrow> ct_mem ct p = Some r \<and> ct_by_socket ct (cr_socket r) = Some p \<and> cgi_req_get_by_fd ct (cr_fd r) = Some p"

definition buf_ok :: "cgi_request \<Rightarrow> bool" where
  "buf_ok r \<longleftrightarrow> length (cr_in_buf r) = PATHLEN \<and> cr_in_len r \<le> PATHLEN"

definition cgi_pending :: "cgi_request \<Rightarrow> cstr" where
  "cgi_pending r = take (cr_in_len r) (cr_in_buf r)"

text \<open>A request whose headers have been sent, with the same pipe and client.\<close>

definition in_body :: "cgi_request \<Rightarrow> int \<Rightarrow> int \<Rightarrow> bool" where
  "in_body r fd k \<longleftrightarrow> buf_ok r \<and> cr_status_done r \<and> cr_all_headers_done r \<and> cr_chunked r \<and> cr_fd r = fd \<and> cr_socket r = k"

lemma linked_upd:
  assumes "linked ct p r" "\<And>r. cr_fd (f r) = cr_fd r" "\<And>r. cr_socket (f r) = cr_socket r"
  shows "linked ((cgi_upd_req p f ct)\<lparr>ct_worker := w\<rparr>) p (f r)"
proof -
  have "map_option cr_fd (ct_mem (cgi_upd_req p f ct) q) = map_option cr_fd (ct_mem ct q)" for q
    using assms(2) by (cases "ct_mem ct q") (auto simp: cgi_upd_req_def)
  then have "cgi_req_get_by_fd ((cgi_upd_req p f ct)\<lparr>ct_worker := w\<rparr>) = cgi_req_get_by_fd ct"
    by (auto simp: cgi_req_get_by_fd_def cgi_upd_req_def)
  then show ?thesis using assms by (simp add: linked_def cgi_upd_req_def)
qed

lemma linked_worker: "linked ct p r \<Longrightarrow> linked (ct\<lparr>ct_worker := w\<rparr>) p r"
  by (simp add: linked_def cgi_req_get_by_fd_def)

lemma event_write_body:
  assumes "writes cw" "linked ct p r" "in_body r fd k" "0 < cr_in_len r"
  shows "\<exists>ct'. cgi_event_write we cw k ct = Inr (MK_PLUGIN_RET_EVENT_OWNED, ct') \<and> linked ct' p (r\<lparr>cr_in_len := 0\<rparr>)
           \<and> sent k (ct_trace ct') = sent k (ct_trace ct) @ chunk_text (cgi_pending r)"
proof -
  let ?ct = "ct\<lparr>ct_worker := wemit (ECork k True) (ct_worker ct)\<rparr>" and ?f = "\<lambda>r. r\<lparr>cr_in_len := 0\<rparr>"
  have r: "cr_chunked r" "0 + cr_in_len r \<le> length (cr_in_buf r)" using assms(3) by (simp_all add: in_body_def buf_ok_def)
  obtain w where w: "write_body we cw k p 0 r ?ct = Inr ((cgi_upd_req p ?f ?ct)\<lparr>ct_worker := w\<rparr>)"
      "sent k (wk_trace w) = sent k (ct_trace ?ct) @ chunk_text (take (cr_in_len r) (drop 0 (cr_in_buf r)))"
    using write_body_chunk [OF assms(1) r, of we k p ?ct] by blast
  have "cgi_event_write we cw k ct = Inr (MK_PLUGIN_RET_EVENT_OWNED, (cgi_upd_req p ?f ct)\<lparr>ct_worker := w\<rparr>)"
    using assms(2-4) w(1)
    by (auto simp: cgi_event_write_def cgi_req_get_def linked_def in_body_def with_req_def write_status_def write_headers_def bindE_def)
  moreover have "linked ((cgi_upd_req p ?f ct)\<lparr>ct_worker := w\<rparr>) p (?f r)" by (rule linked_upd [OF assms(2)]) simp_all
  ultimately show ?thesis using w(2) by (auto simp: cgi_pending_def)
qed

lemma event_read_gets:
  assumes "linked ct p r" "buf_ok r" "cr_in_len r < PATHLEN" "length bs \<le> PATHLEN - cr_in_len r"
    and "\<And>tr fd n. cw_read cw tr fd n = Some bs"
  shows "\<exists>ct' r'. cgi_event_read we cw (cr_fd r) ct = Inr (MK_PLUGIN_RET_EVENT_OWNED, ct') \<and> linked ct' p r' \<and> buf_ok r'
           \<and> r' = r\<lparr>cr_in_buf := cgi_put_bytes (cr_in_buf r) (cr_in_len r) bs, cr_in_len := cr_in_len r + length bs\<rparr>
           \<and> cgi_pending r' = cgi_pending r @ bs \<and> sent k (ct_trace ct') = sent k (ct_trace ct)
           \<and> wk_sessions (ct_worker ct') = wk_sessions (ct_worker ct) \<and> wk_gmt (ct_worker ct') = wk_gmt (ct_worker ct)"
proof -
  let ?f = "\<lambda>r. r\<lparr>cr_in_buf := cgi_put_bytes (cr_in_buf r) (cr_in_len r) bs, cr_in_len := cr_in_len r + length bs\<rparr>"
  obtain w where w: "onW (change_mode we (cr_socket r) MK_EPOLL_WRITE) (cgi_upd_req p ?f ct) = Inr ((cgi_upd_req p ?f ct)\<lparr>ct_worker := w\<rparr>)"
      "sent k (wk_trace w) = sent k (ct_trace ct)" "wk_sessions w = wk_sessions (ct_worker ct)" "wk_gmt w = wk_gmt (ct_worker ct)"
    using onW_change_mode [of MK_EPOLL_WRITE we "cr_socket r" "cgi_upd_req p ?f ct" k] by auto
  have t: "take (PATHLEN - cr_in_len r) bs = bs" using assms(4) by simp
  have "cgi_event_read we cw (cr_fd r) ct = Inr (MK_PLUGIN_RET_EVENT_OWNED, (cgi_upd_req p ?f ct)\<lparr>ct_worker := w\<rparr>)"
    using assms(1,3) w(1) by (simp add: cgi_event_read_def linked_def with_req_def assms(5) t Let_def bindE_def)
  moreover have "linked ((cgi_upd_req p ?f ct)\<lparr>ct_worker := w\<rparr>) p (?f r)" by (rule linked_upd [OF assms(1)]) simp_all
  moreover have "buf_ok (?f r)" "cgi_pending (?f r) = cgi_pending r @ bs" using assms(2-4) by (simp_all add: buf_ok_def cgi_put_bytes_def cgi_pending_def)
  ultimately show ?thesis using w(2,3,4) by auto
qed

lemma event_read_full:
  assumes "linked ct p r" "cr_in_len r = PATHLEN"
  shows "\<exists>ct'. cgi_event_read we cw (cr_fd r) ct = Inr (MK_PLUGIN_RET_EVENT_OWNED, ct') \<and> linked ct' p r \<and> sent k (ct_trace ct') = sent k (ct_trace ct)"
proof -
  obtain w1 where w1: "onW (change_mode we (cr_fd r) MK_EPOLL_SLEEP) ct = Inr (ct\<lparr>ct_worker := w1\<rparr>)" "sent k (wk_trace w1) = sent k (ct_trace ct)"
    using onW_change_mode [of MK_EPOLL_SLEEP we "cr_fd r" ct k] by auto
  obtain w2 where w2: "onW (change_mode we (cr_socket r) MK_EPOLL_WRITE) (ct\<lparr>ct_worker := w1\<rparr>) = Inr (ct\<lparr>ct_worker := w2\<rparr>)" "sent k (wk_trace w2) = sent k (wk_trace w1)"
    using onW_change_mode [of MK_EPOLL_WRITE we "cr_socket r" "ct\<lparr>ct_worker := w1\<rparr>" k] by auto
  have "cgi_event_read we cw (cr_fd r) ct = Inr (MK_PLUGIN_RET_EVENT_OWNED, ct\<lparr>ct_worker := w2\<rparr>)"
    using assms w1(1) w2(1) by (simp add: cgi_event_read_def linked_def with_req_def Let_def bindE_def)
  then show ?thesis using linked_worker [OF assms(1), of w2] w1(2) w2(2) by auto
qed

text \<open>
  The events of one request: a write event of the client's socket, or a read event of the pipe while it
  holds bytes, of which at most the given number plus one is there. The second part of the state is what
  the program has written or will write and the plugin has not read.
\<close>

datatype cgi_event = CgiRead nat | CgiWrite

definition cgi_room :: "cgi_thread \<Rightarrow> int \<Rightarrow> nat" where
  "cgi_room ct fd = (case Option.bind (cgi_req_get_by_fd ct fd) (ct_mem ct) of None \<Rightarrow> 0 | Some r \<Rightarrow> PATHLEN - cr_in_len r)"

fun cgi_step :: "worker_env \<Rightarrow> cgi_world \<Rightarrow> int \<Rightarrow> int \<Rightarrow> cgi_event \<Rightarrow> cgi_thread \<times> cstr \<Rightarrow> cerr + cgi_thread \<times> cstr" where
  "cgi_step we cw fd k (CgiRead n) (ct, out) =
     (if out = [] then Inr (ct, out)
      else
        let m = min (n + 1) (cgi_room ct fd) in
        bindE (cgi_event_read we (cw\<lparr>cw_read := (\<lambda>tr fd count. Some (take m out))\<rparr>) fd ct) (\<lambda>(ret, ct'). Inr (ct', drop m out)))"
| "cgi_step we cw fd k CgiWrite (ct, out) = bindE (cgi_event_write we cw k ct) (\<lambda>(ret, ct'). Inr (ct', out))"

fun cgi_run :: "worker_env \<Rightarrow> cgi_world \<Rightarrow> int \<Rightarrow> int \<Rightarrow> cgi_event list \<Rightarrow> cgi_thread \<times> cstr \<Rightarrow> cerr + cgi_thread \<times> cstr" where
  "cgi_run we cw fd k [] st = Inr st"
| "cgi_run we cw fd k (e # es) st = bindE (cgi_step we cw fd k e st) (cgi_run we cw fd k es)"

text \<open>What has been sent since a state, as chunks, and what is still to be sent.\<close>

definition streamed :: "int \<Rightarrow> cgi_thread \<Rightarrow> cstr \<Rightarrow> cgi_thread \<Rightarrow> cstr \<Rightarrow> bool" where
  "streamed k ct todo ct' todo' \<longleftrightarrow>
     (\<exists>bs. sent k (ct_trace ct') = sent k (ct_trace ct) @ concat (map chunk_text bs) \<and> (\<forall>b\<in>set bs. b \<noteq> []) \<and> concat bs @ todo' = todo)"

lemma streamed_refl: "sent k (ct_trace ct') = sent k (ct_trace ct) \<Longrightarrow> streamed k ct todo ct' todo"
  unfolding streamed_def by (intro exI [of _ "[]"]) simp

lemma streamed_one: "sent k (ct_trace ct') = sent k (ct_trace ct) @ chunk_text b \<Longrightarrow> b \<noteq> [] \<Longrightarrow> streamed k ct (b @ todo) ct' todo"
  unfolding streamed_def by (intro exI [of _ "[b]"]) simp

lemma streamed_trans:
  assumes "streamed k a x b y" "streamed k b y c z"
  shows "streamed k a x c z"
proof -
  obtain bs cs where "sent k (ct_trace b) = sent k (ct_trace a) @ concat (map chunk_text bs)" "\<forall>t\<in>set bs. t \<noteq> []" "concat bs @ y = x"
    "sent k (ct_trace c) = sent k (ct_trace b) @ concat (map chunk_text cs)" "\<forall>t\<in>set cs. t \<noteq> []" "concat cs @ z = y"
    using assms by (auto simp: streamed_def)
  then show ?thesis unfolding streamed_def by (intro exI [of _ "bs @ cs"]) auto
qed

lemma cgi_room_linked: "linked ct p r \<Longrightarrow> cgi_room ct (cr_fd r) = PATHLEN - cr_in_len r"
  by (simp add: cgi_room_def linked_def)

lemma cgi_step_body:
  assumes "writes cw" "linked ct p r" "in_body r fd k"
  shows "\<exists>ct' out' r'. cgi_step we cw fd k e (ct, out) = Inr (ct', out') \<and> linked ct' p r' \<and> in_body r' fd k
           \<and> streamed k ct (cgi_pending r @ out) ct' (cgi_pending r' @ out')"
proof (cases e)
  case CgiWrite
  show ?thesis
  proof (cases "cr_in_len r = 0")
    case True
    then have "cgi_event_write we cw k ct = Inr (MK_PLUGIN_RET_EVENT_OWNED, ct)"
      using assms(2,3) by (auto simp: cgi_event_write_def cgi_req_get_def linked_def in_body_def with_req_def)
    with assms(2,3) CgiWrite show ?thesis by (auto simp: bindE_def streamed_refl)
  next
    case False
    then obtain ct' where w: "cgi_event_write we cw k ct = Inr (MK_PLUGIN_RET_EVENT_OWNED, ct')" "linked ct' p (r\<lparr>cr_in_len := 0\<rparr>)"
        "sent k (ct_trace ct') = sent k (ct_trace ct) @ chunk_text (cgi_pending r)"
      using event_write_body [OF assms] by auto
    have "cgi_pending r \<noteq> []" using False assms(3) by (auto simp: cgi_pending_def in_body_def buf_ok_def PATHLEN_def)
    from streamed_one [OF w(3) this, of out] w(1,2) assms(3) CgiWrite show ?thesis
      by (auto simp: bindE_def in_body_def buf_ok_def cgi_pending_def)
  qed
next
  case (CgiRead n)
  have fd: "fd = cr_fd r" "buf_ok r" using assms(3) by (simp_all add: in_body_def)
  consider "out = []" | "out \<noteq> []" "cr_in_len r = PATHLEN" | "out \<noteq> []" "cr_in_len r < PATHLEN"
    using fd(2) by (fastforce simp: buf_ok_def)
  then show ?thesis
  proof cases
    case 1
    with CgiRead assms(2,3) show ?thesis by (auto intro: streamed_refl)
  next
    case 2
    let ?cw = "cw\<lparr>cw_read := (\<lambda>tr fd count. Some (take 0 out))\<rparr>"
    obtain ct' where "cgi_event_read we ?cw fd ct = Inr (MK_PLUGIN_RET_EVENT_OWNED, ct')" "linked ct' p r" "sent k (ct_trace ct') = sent k (ct_trace ct)"
      using event_read_full [OF assms(2) 2(2), of we ?cw k] fd(1) by auto
    with CgiRead 2 assms(3) cgi_room_linked [OF assms(2)] fd(1) show ?thesis by (auto simp: bindE_def intro: streamed_refl)
  next
    case 3
    let ?m = "min (n + 1) (PATHLEN - cr_in_len r)"
    let ?cw = "cw\<lparr>cw_read := (\<lambda>tr fd count. Some (take ?m out))\<rparr>"
    have m: "length (take ?m out) \<le> PATHLEN - cr_in_len r" by simp
    obtain ct' r' where g: "cgi_event_read we ?cw (cr_fd r) ct = Inr (MK_PLUGIN_RET_EVENT_OWNED, ct')" "linked ct' p r'" "buf_ok r'"
        "r' = r\<lparr>cr_in_buf := cgi_put_bytes (cr_in_buf r) (cr_in_len r) (take ?m out), cr_in_len := cr_in_len r + length (take ?m out)\<rparr>"
        "cgi_pending r' = cgi_pending r @ take ?m out" "sent k (ct_trace ct') = sent k (ct_trace ct)"
      using event_read_gets [OF assms(2) fd(2) 3(2) m, of ?cw we k] by auto
    have "cgi_step we cw fd k e (ct, out) = Inr (ct', drop ?m out)"
      using CgiRead 3(1) g(1) cgi_room_linked [OF assms(2)] fd(1) by (simp add: bindE_def)
    moreover have "in_body r' fd k" using g(3,4) assms(3) by (simp add: in_body_def)
    moreover have "cgi_pending r' @ drop ?m out = cgi_pending r @ out" using g(5) by simp
    ultimately show ?thesis using g(2) streamed_refl [OF g(6), of "cgi_pending r @ out"] by metis
  qed
qed

lemma cgi_run_body:
  assumes "writes cw" "linked ct p r" "in_body r fd k"
  shows "\<exists>ct' out' r'. cgi_run we cw fd k es (ct, out) = Inr (ct', out') \<and> linked ct' p r' \<and> in_body r' fd k
           \<and> streamed k ct (cgi_pending r @ out) ct' (cgi_pending r' @ out')"
  using assms(2,3)
proof (induction es arbitrary: ct out r)
  case Nil
  then show ?case by (auto intro: streamed_refl)
next
  case (Cons e es)
  obtain ct1 out1 r1 where s: "cgi_step we cw fd k e (ct, out) = Inr (ct1, out1)" "linked ct1 p r1" "in_body r1 fd k"
      "streamed k ct (cgi_pending r @ out) ct1 (cgi_pending r1 @ out1)"
    using cgi_step_body [OF assms(1) Cons.prems] by blast
  from Cons.IH [OF s(2,3), of out1] obtain ct' out' r' where "cgi_run we cw fd k es (ct1, out1) = Inr (ct', out')" "linked ct' p r'" "in_body r' fd k"
      "streamed k ct1 (cgi_pending r1 @ out1) ct' (cgi_pending r' @ out')" by blast
  with s show ?case by (auto simp: bindE_def intro: streamed_trans)
qed

section \<open>The end of a request\<close>

lemma sent_closes: "sent k (concat (map mk_request_free rs)) = []"
  by (induction rs) (auto simp: mk_request_free_def sent_def)

lemma request_end_sent: "\<exists>x w'. mk_plugin_http_request_end we s w = Inr (x, w') \<and> sent k (wk_trace w') = sent k (wk_trace w)"
proof -
  have close: "sent k (wk_trace (snd (mk_conn_close we s w))) = sent k (wk_trace w)" for w
    by (simp add: mk_conn_close_def mk_sched_remove_client_def Let_def split: option.splits prod.splits)
  have "\<exists>x w'. mk_http_request_end we s w = Inr (x, w') \<and> sent k (wk_trace w') = sent k (wk_trace w)"
  proof (cases "mk_session_get s (wk_sessions w)")
    case (Some cs)
    let ?w = "w\<lparr>wk_trace := wk_trace w @ concat (map mk_request_free (cs_request_list cs))\<rparr>"
    let ?w2 = "put_session (mk_request_ka_next (en_now (we_env we)) (cs\<lparr>cs_request_list := []\<rparr>)) ?w"
    obtain w' where "change_mode we s MK_EPOLL_READ ?w2 = Inr w'" "sent k (wk_trace w') = sent k (wk_trace ?w2)"
      using change_mode_sent [of MK_EPOLL_READ we s ?w2 k] by auto
    moreover have "wk_trace (put_session c v) = wk_trace v" "wk_trace (drop_session s v) = wk_trace v" for c v
      by (simp_all add: put_session_def drop_session_def)
    ultimately show ?thesis using Some by (simp add: mk_http_request_end_def mk_request_free_list_def Let_def sent_closes bindE_def)
  qed (simp add: mk_http_request_end_def)
  then obtain x w1 where w1: "mk_http_request_end we s w = Inr (x, w1)" "sent k (wk_trace w1) = sent k (wk_trace w)" by blast
  then show ?thesis using close [of w1] by (cases "mk_conn_close we s w1") (simp add: mk_plugin_http_request_end_def bindE_def)
qed

lemma event_del_sent: "sent k (wk_trace (snd (mk_plugin_event_del we s w))) = sent k (wk_trace w)"
  by (simp add: mk_plugin_event_del_def Let_def split: prod.splits)

lemma hangup_body:
  assumes "writes cw" "linked ct p r" "in_body r fd k"
  shows "\<exists>ct'. cgi_hangup we cw fd ct = Inr (MK_PLUGIN_RET_EVENT_OWNED, ct') \<and> ct_mem ct' p = None \<and> ct_by_socket ct' k = None
           \<and> (\<exists>bs. sent k (ct_trace ct') = sent k (ct_trace ct) @ concat (map chunk_text bs) @ ''0'' @ CRLF @ CRLF
                 \<and> (\<forall>b\<in>set bs. b \<noteq> []) \<and> concat bs = cgi_pending r)"
proof -
  obtain ct1 r1 where e: "cgi_event_write we cw k ct = Inr (MK_PLUGIN_RET_EVENT_OWNED, ct1)" "linked ct1 p r1" "in_body r1 fd k"
      "streamed k ct (cgi_pending r @ []) ct1 []"
  proof (cases "cr_in_len r = 0")
    case True
    have "cgi_event_write we cw k ct = Inr (MK_PLUGIN_RET_EVENT_OWNED, ct)"
      using assms(2,3) True by (auto simp: cgi_event_write_def cgi_req_get_def linked_def in_body_def with_req_def)
    moreover have "cgi_pending r = []" using True by (simp add: cgi_pending_def)
    ultimately show thesis using that assms(2,3) streamed_refl [of k ct ct "[]"] by auto
  next
    case False
    then obtain ct' where w: "cgi_event_write we cw k ct = Inr (MK_PLUGIN_RET_EVENT_OWNED, ct')" "linked ct' p (r\<lparr>cr_in_len := 0\<rparr>)"
        "sent k (ct_trace ct') = sent k (ct_trace ct) @ chunk_text (cgi_pending r)"
      using event_write_body [OF assms] by auto
    have "cgi_pending r \<noteq> []" using False assms(3) by (auto simp: cgi_pending_def in_body_def buf_ok_def PATHLEN_def)
    from streamed_one [OF w(3) this, of "[]"] have "streamed k ct (cgi_pending r @ []) ct' []" by simp
    moreover have "in_body (r\<lparr>cr_in_len := 0\<rparr>) fd k" using assms(3) by (simp add: in_body_def buf_ok_def)
    ultimately show thesis using that w(1,2) by blast
  qed
  let ?w = "snd (mk_plugin_event_del we fd (ct_worker ct1))" and ?fin = "''0'' @ CRLF @ CRLF"
  obtain tr where tr: "swrite cw k ?fin 5 ?w = Inr (?w\<lparr>wk_trace := tr\<rparr>)" "sent k tr = sent k (wk_trace ?w) @ take 5 ?fin"
    using swrite_sent [OF assms(1), of 5 ?fin k ?w] by auto
  obtain x w' where w': "mk_plugin_http_request_end we k (?w\<lparr>wk_trace := tr\<rparr>) = Inr (x, w')" "sent k (wk_trace w') = sent k tr"
    using request_end_sent [of we k "?w\<lparr>wk_trace := tr\<rparr>" k] by auto
  let ?ct = "cgi_req_del p (ct1\<lparr>ct_worker := wemit (EClose fd) w', ct_by_socket := (ct_by_socket ct1)(k := None)\<rparr>)"
  have "cgi_hangup we cw fd ct = Inr (MK_PLUGIN_RET_EVENT_OWNED, ?ct)"
    using assms(2,3) e(1-3) tr(1) w'(1) by (auto simp: cgi_hangup_def linked_def in_body_def with_req_def onW_def bindE_def Let_def)
  moreover have "sent k (ct_trace ?ct) = sent k (ct_trace ct1) @ ?fin"
    using tr(2) w'(2) by (simp add: cgi_req_del_def event_del_sent)
  ultimately show ?thesis using e(4) by (auto simp: streamed_def cgi_req_del_def)
qed

lemma run_then_hangup:
  assumes "writes cw" "linked ct p r" "in_body r fd k"
  shows "\<exists>ct1 rest ct2 bs. cgi_run we cw fd k es (ct, out) = Inr (ct1, rest) \<and> cgi_hangup we cw fd ct1 = Inr (MK_PLUGIN_RET_EVENT_OWNED, ct2)
           \<and> ct_mem ct2 p = None \<and> ct_by_socket ct2 k = None
           \<and> sent k (ct_trace ct2) = sent k (ct_trace ct) @ concat (map chunk_text bs) @ ''0'' @ CRLF @ CRLF
           \<and> (\<forall>b\<in>set bs. b \<noteq> []) \<and> concat bs @ rest = cgi_pending r @ out"
proof -
  obtain ct1 rest r1 where run: "cgi_run we cw fd k es (ct, out) = Inr (ct1, rest)" "linked ct1 p r1" "in_body r1 fd k"
      "streamed k ct (cgi_pending r @ out) ct1 (cgi_pending r1 @ rest)"
    using cgi_run_body [OF assms] by blast
  obtain bs where bs: "sent k (ct_trace ct1) = sent k (ct_trace ct) @ concat (map chunk_text bs)" "\<forall>b\<in>set bs. b \<noteq> []"
      "concat bs @ cgi_pending r1 @ rest = cgi_pending r @ out"
    using run(4) by (auto simp: streamed_def)
  obtain ct2 cs where h: "cgi_hangup we cw fd ct1 = Inr (MK_PLUGIN_RET_EVENT_OWNED, ct2)" "ct_mem ct2 p = None" "ct_by_socket ct2 k = None"
      "sent k (ct_trace ct2) = sent k (ct_trace ct1) @ concat (map chunk_text cs) @ ''0'' @ CRLF @ CRLF" "\<forall>b\<in>set cs. b \<noteq> []" "concat cs = cgi_pending r1"
    using hangup_body [OF assms(1) run(2,3)] by blast
  show ?thesis using run(1) h bs by (intro exI [of _ ct1] exI [of _ rest] exI [of _ ct2] exI [of _ "bs @ cs"]) auto
qed

section \<open>The headers\<close>

text \<open>An action that does the same whatever has happened before.\<close>

definition blind :: "'a action \<Rightarrow> bool" where
  "blind m \<longleftrightarrow> (\<forall>s x s1. m s = Inr (x, s1) \<longrightarrow>
     (\<exists>es. rs_trace s1 = rs_trace s @ es \<and> (\<forall>tr. m (s\<lparr>rs_trace := tr\<rparr>) = Inr (x, s1\<lparr>rs_trace := tr @ es\<rparr>))))"

lemma blindD:
  "blind m \<Longrightarrow> m s = Inr (x, s1) \<Longrightarrow> \<exists>es. rs_trace s1 = rs_trace s @ es \<and> (\<forall>tr. m (s\<lparr>rs_trace := tr\<rparr>) = Inr (x, s1\<lparr>rs_trace := tr @ es\<rparr>))"
  unfolding blind_def by blast

lemma blind_bindA:
  assumes "blind m" "\<And>x. blind (f x)"
  shows "blind (bindA m f)"
  unfolding blind_def
proof (intro allI impI)
  fix s y s2 assume "bindA m f s = Inr (y, s2)"
  then obtain x s1 where m: "m s = Inr (x, s1)" and f: "f x s1 = Inr (y, s2)" by (auto simp: bindA_Inr_iff)
  obtain a where a: "rs_trace s1 = rs_trace s @ a" "\<And>tr. m (s\<lparr>rs_trace := tr\<rparr>) = Inr (x, s1\<lparr>rs_trace := tr @ a\<rparr>)"
    using blindD [OF assms(1) m] by blast
  obtain b where b: "rs_trace s2 = rs_trace s1 @ b" "\<And>tr. f x (s1\<lparr>rs_trace := tr\<rparr>) = Inr (y, s2\<lparr>rs_trace := tr @ b\<rparr>)"
    using blindD [OF assms(2) f] by blast
  show "\<exists>es. rs_trace s2 = rs_trace s @ es \<and> (\<forall>tr. bindA m f (s\<lparr>rs_trace := tr\<rparr>) = Inr (y, s2\<lparr>rs_trace := tr @ es\<rparr>))"
    using a b by (intro exI [of _ "a @ b"]) (simp add: bindA_def)
qed

lemma blind_thenA: "blind m \<Longrightarrow> blind n \<Longrightarrow> blind (thenA m n)"
  unfolding thenA_def by (rule blind_bindA)

lemma blind_basic [simp]: "blind (returnA x)" "blind (failA er)" "blind (emit ef)" "blind get_cs" "blind (get_sr i)" "blind (liftE v)" "blind (upd_sr i f)"
  by (auto simp: blind_def set_sr_def liftE_def split: sum.splits)

lemma blind_upd_headers [simp]: "blind (upd_headers i f)"
  by (simp add: upd_headers_def)

lemma blind_sends [simp]: "blind (mk_socket_set_cork_flag fd b)" "blind (mk_socket_sendv en fd parts)"
  by (auto simp: mk_socket_set_cork_flag_def mk_socket_sendv_def safe_write_def intro: blind_thenA)

lemma blind_last_modified [simp]: "blind (last_modified_text en sh)"
  by (auto simp: blind_def last_modified_text_def Let_def split: prod.splits)

lemma blind_header_close: "blind (header_close en fd i io)"
  unfolding header_close_def Let_def by (intro blind_bindA) (auto split: option.split intro!: blind_bindA blind_thenA)

lemma blind_header_send: "blind (mk_header_send en fd i)"
  unfolding mk_header_send_def
  by (intro blind_bindA) (auto split: option.split intro!: blind_bindA blind_thenA blind_header_close)

text \<open>The output of a program starts with a line for the status, or with none.\<close>

definition status_line :: "cstr \<Rightarrow> bool" where
  "status_line l \<longleftrightarrow> status_at l \<noteq> None \<and> 8 < length l \<and> last l = LF \<and> LF \<notin> set (butlast (drop 8 l))"

definition status_head :: "cstr \<Rightarrow> cstr \<Rightarrow> bool" where
  "status_head l out \<longleftrightarrow> (l = [] \<and> status_at out = None) \<or> status_line l"

definition first_header :: "cstr \<Rightarrow> session_request \<Rightarrow> session_request" where
  "first_header out sr =
     (case status_at out of
        None \<Rightarrow> sr
      | Some k \<Rightarrow> sr\<lparr>sr_headers := (sr_headers sr)\<lparr>rh_status := int32 (strtol10 (drop k out))\<rparr>\<rparr>)"

definition put_req :: "nat \<Rightarrow> cgi_request \<Rightarrow> cgi_thread \<Rightarrow> cgi_thread" where
  "put_req p r ct = ct\<lparr>ct_mem := (ct_mem ct)(p \<mapsto> r)\<rparr>"

lemma put_req_simps [simp]:
  "ct_worker (put_req p r ct) = ct_worker ct" "put_req p r (ct\<lparr>ct_worker := w\<rparr>) = (put_req p r ct)\<lparr>ct_worker := w\<rparr>"
  "put_req p r (put_req p r' ct) = put_req p r ct" "ct_mem (put_req p r ct) p = Some r" "cgi_upd_req p f (put_req p r ct) = put_req p (f r) ct"
  by (simp_all add: put_req_def cgi_upd_req_def)

lemma upd_req_put: "ct_mem ct p = Some r \<Longrightarrow> cgi_upd_req p f ct = put_req p (f r) ct"
  by (simp add: put_req_def cgi_upd_req_def)

lemma put_req_same: "ct_mem ct p = Some r \<Longrightarrow> put_req p r ct = ct"
  by (simp add: put_req_def fun_upd_idem)

lemma linked_put:
  assumes "linked ct p r" "cr_fd r' = cr_fd r" "cr_socket r' = cr_socket r"
  shows "linked ((put_req p r' ct)\<lparr>ct_worker := w\<rparr>) p r'"
proof -
  have "map_option cr_fd (ct_mem (put_req p r' ct) q) = map_option cr_fd (ct_mem ct q)" for q
    using assms(1,2) by (auto simp: put_req_def linked_def)
  then have "cgi_req_get_by_fd ((put_req p r' ct)\<lparr>ct_worker := w\<rparr>) = cgi_req_get_by_fd ct"
    by (auto simp: cgi_req_get_by_fd_def put_req_def)
  then show ?thesis using assms by (simp add: linked_def put_req_def)
qed

lemma cstring_zeros: "cstring (v @ replicate n NUL) = cstring v"
  by (induction v) (auto simp: cstring_def)

lemma strtol10_zeros: "strtol10 (v @ replicate n NUL) = strtol10 v"
  by (simp add: strtol10_def cstring_zeros)

lemma status_at_append: "8 \<le> length v \<Longrightarrow> status_at (v @ w) = status_at v"
  by (simp add: status_at_def)

lemma usub_le: "b \<le> a \<Longrightarrow> a < 4294967296 \<Longrightarrow> usub a b = a - b"
  by (simp add: usub_def nat_diff_distrib')

lemma on_request_run:
  assumes "mk_session_get (cr_cs r) (wk_sessions (ct_worker ct)) = Some cs"
    and "m \<lparr>rs_cs = cs, rs_gmt = wk_gmt (ct_worker ct), rs_trace = ct_trace ct\<rparr> = Inr (x, s)" "cs_socket (rs_cs s) = cr_cs r"
  shows "\<exists>w. on_request m r ct = Inr (ct\<lparr>ct_worker := w\<rparr>) \<and> mk_session_get (cr_cs r) (wk_sessions w) = Some (rs_cs s)
           \<and> wk_gmt w = rs_gmt s \<and> wk_trace w = rs_trace s"
  using assms session_get_put [OF assms(1,3)]
  by (intro exI [of _ "(ct_worker ct)\<lparr>wk_sessions := update_first (\<lambda>c. cs_socket c = cr_cs r) (\<lambda>_. rs_cs s) (wk_sessions (ct_worker ct)),
        wk_gmt := rs_gmt s, wk_trace := rs_trace s\<rparr>"]) (simp add: on_request_def on_session_def bindE_def)

lemma on_request_trace:
  assumes "mk_session_get (cr_cs r) (wk_sessions (ct_worker ct)) = Some cs"
    and "m \<lparr>rs_cs = cs, rs_gmt = wk_gmt (ct_worker ct), rs_trace = ct_trace ct\<rparr> = Inr (x, s)"
  shows "\<exists>w. on_request m r ct = Inr (ct\<lparr>ct_worker := w\<rparr>) \<and> wk_trace w = rs_trace s"
  using assms
  by (intro exI [of _ "(ct_worker ct)\<lparr>wk_sessions := update_first (\<lambda>c. cs_socket c = cr_cs r) (\<lambda>_. rs_cs s) (wk_sessions (ct_worker ct)),
        wk_gmt := rs_gmt s, wk_trace := rs_trace s\<rparr>"]) (simp add: on_request_def on_session_def bindE_def)

lemma status_line_end:
  assumes "status_line l" "length l \<le> n" "n \<le> length (l @ y)"
  shows "memchr (drop 8 (l @ y)) LF (n - 8) = Some (length l - 9)"
proof -
  have l: "8 < length l" "last l = LF" "LF \<notin> set (butlast (drop 8 l))" using assms(1) by (simp_all add: status_line_def)
  then have "drop 8 l = butlast (drop 8 l) @ [LF]" using append_butlast_last_id [of "drop 8 l"] by (simp add: last_drop)
  then obtain v where v: "drop 8 l = v @ [LF]" "LF \<notin> set v" using l(3) by blast
  have len: "length l = 9 + length v" using arg_cong [OF v(1), of length] l(1) by simp
  have "take (n - 8) (drop 8 (l @ y)) = v @ LF # take (n - length l) y"
    using v(1) assms(2) len by (simp add: take_Cons')
  moreover have "\<forall>c\<in>set v. \<not> LF = c" using v(2) by auto
  ultimately show ?thesis using find_index_append_first [of v "(=) LF" LF] len by (simp add: memchr_def)
qed

lemma write_status_first:
  assumes "ct_mem ct p = Some r" "\<not> cr_status_done r" "cr_cs r = k" "mk_session_get k (wk_sessions (ct_worker ct)) = Some cs"
    and "cr_sr r < length (cs_request_list cs)"
    and "cr_in_buf r = x @ replicate z NUL" "cr_in_len r = length x" "8 \<le> length x" "length x < 4294967296" "x = l @ y" "status_head l x"
    and "mk_header_send (we_env we) k (cr_sr r) (set_sr (cr_sr r) (first_header x) \<lparr>rs_cs = cs, rs_gmt = wk_gmt (ct_worker ct), rs_trace = []\<rparr>) = Inr (u, s1)"
  shows "\<exists>w. write_status we k p r ct = Inr (Some (length l), (put_req p (r\<lparr>cr_in_len := length y, cr_status_done := True\<rparr>) ct)\<lparr>ct_worker := w\<rparr>)
           \<and> sent k (wk_trace w) = sent k (ct_trace ct) @ sent k (rs_trace s1)"
proof -
  let ?s = "\<lparr>rs_cs = cs, rs_gmt = wk_gmt (ct_worker ct), rs_trace = ct_trace ct\<rparr>" and ?i = "cr_sr r" and ?r = "r\<lparr>cr_in_len := length y\<rparr>"
  let ?t = "set_sr ?i (first_header x) ?s"
  have sock: "cs_socket cs = k" by (rule session_get_socket [OF assms(4)])
  have at: "status_at (cr_in_buf r) = status_at x" using assms(6,8) by (simp add: status_at_append)
  have "\<exists>w. (case status_at (cr_in_buf r) of
                 None \<Rightarrow> Inr (Some 0, ct)
               | Some j \<Rightarrow>
                   bindE (on_request (upd_headers ?i (\<lambda>sh. sh\<lparr>rh_status := int32 (strtol10 (drop j (cr_in_buf r)))\<rparr>)) r ct) (\<lambda>ct1.
                     case memchr (drop 8 (cr_in_buf r)) LF (cr_in_len r - 8) of
                       None \<Rightarrow> Inr (None, ct1)
                     | Some e \<Rightarrow> Inr (Some (9 + e), cgi_upd_req p (\<lambda>r. r\<lparr>cr_in_len := usub (cr_in_len r) (9 + e)\<rparr>) ct1)))
             = Inr (Some (length l), (put_req p ?r ct)\<lparr>ct_worker := w\<rparr>)
           \<and> mk_session_get k (wk_sessions w) = Some (rs_cs ?t) \<and> wk_gmt w = rs_gmt ?t \<and> wk_trace w = rs_trace ?t"
  proof (cases "status_at x")
    case None
    then have l: "l = []" using assms(8,10,11) status_at_append [of l y] by (auto simp: status_head_def status_line_def)
    have "rs_cs ?t = cs" using None by (simp add: set_sr_def first_header_def)
    moreover have "?r = r" using assms(7,10) l by (metis append_Nil cgi_request.surjective cgi_request.update_convs(4))
    then have "put_req p ?r ct = ct" using put_req_same [OF assms(1)] by simp
    ultimately show ?thesis using at None assms(4) l by (intro exI [of _ "ct_worker ct"]) simp
  next
    case (Some j)
    have l: "status_line l" using Some assms(10,11) by (auto simp: status_head_def)
    have len: "8 < length l" using l by (simp add: status_line_def)
    let ?m = "upd_headers ?i (\<lambda>sh. sh\<lparr>rh_status := int32 (strtol10 (drop j (cr_in_buf r)))\<rparr>)"
    have m: "?m ?s = Inr ((), ?t)" using Some assms(6) by (simp add: first_header_def [abs_def] strtol10_zeros)
    have "cs_socket (rs_cs ?t) = cr_cs r" using sock assms(3) by simp
    from on_request_run [of r ct cs ?m, OF _ m this] obtain w where w: "on_request ?m r ct = Inr (ct\<lparr>ct_worker := w\<rparr>)"
        "mk_session_get k (wk_sessions w) = Some (rs_cs ?t)" "wk_gmt w = rs_gmt ?t" "wk_trace w = rs_trace ?t"
      using assms(3,4) by auto
    have "memchr (drop 8 (cr_in_buf r)) LF (cr_in_len r - 8) = Some (length l - 9)"
      using status_line_end [OF l, of "length x" "y @ replicate z NUL"] assms(6,7,10) by simp
    moreover have "usub (cr_in_len r) (length l) = length y" using assms(7,9,10) by (simp add: usub_le)
    moreover have "cgi_upd_req p f ct = put_req p (f r) ct" for f using assms(1) by (rule upd_req_put)
    ultimately show ?thesis using at Some w len by (intro exI [of _ w]) (simp add: bindE_def)
  qed
  then obtain w where w: "mk_session_get k (wk_sessions w) = Some (rs_cs ?t)" "wk_gmt w = rs_gmt ?t" "wk_trace w = rs_trace ?t"
    and step: "write_status we k p r ct = bindE (on_request (mk_header_send (we_env we) k ?i) r ((put_req p ?r ct)\<lparr>ct_worker := w\<rparr>)) (\<lambda>ct2.
          Inr (Some (length l), cgi_upd_req p (\<lambda>r. r\<lparr>cr_status_done := True\<rparr>) ct2))"
    using assms(2,7,8) unfolding write_status_def by (auto simp: bindE_def)
  let ?ct = "(put_req p ?r ct)\<lparr>ct_worker := w\<rparr>"
  have "\<exists>es. rs_trace s1 = es \<and> mk_header_send (we_env we) k ?i ?t = Inr (u, s1\<lparr>rs_trace := ct_trace ct @ es\<rparr>)"
    using blindD [OF blind_header_send assms(12)] by (auto simp: set_sr_def dest!: spec [of _ "ct_trace ct"])
  then have send: "mk_header_send (we_env we) k ?i \<lparr>rs_cs = rs_cs ?t, rs_gmt = wk_gmt w, rs_trace = wk_trace w\<rparr> = Inr (u, s1\<lparr>rs_trace := ct_trace ct @ rs_trace s1\<rparr>)"
    using w(2,3) by (simp add: set_sr_def)
  obtain w2 where w2: "on_request (mk_header_send (we_env we) k ?i) r ?ct = Inr (?ct\<lparr>ct_worker := w2\<rparr>)" "wk_trace w2 = ct_trace ct @ rs_trace s1"
    using on_request_trace [of r ?ct "rs_cs ?t" "mk_header_send (we_env we) k ?i"] w(1) send assms(3) by auto
  then show ?thesis using step by (intro exI [of _ w2]) (simp add: bindE_def)
qed

lemma header_end_block:
  assumes "NUL \<notin> set h" "strstr (h @ ENDBLOCK) ENDBLOCK = Some (length h)"
  shows "header_end (h @ ENDBLOCK @ y) = Inr (Some (length h + 4))"
proof -
  have c: "cstring (h @ ENDBLOCK @ v) = h @ ENDBLOCK @ cstring v" for v using assms(1) by (induction h) auto
  have "find_sub (=) ENDBLOCK (h @ ENDBLOCK) = Some (length h)" using assms(2) c [of "[]"] by (simp add: strstr_def)
  from find_sub_append [OF this, of "cstring y"] have "strstr (h @ ENDBLOCK @ y) ENDBLOCK = Some (length h)"
    using c [of y] by (simp add: strstr_def)
  then show ?thesis by (simp add: header_end_def buf_strstr_def bindE_def)
qed

lemma event_write_first:
  assumes "writes cw" "linked ct p r" "\<not> cr_status_done r" "\<not> cr_all_headers_done r" "cr_chunked r" "cr_cs r = k" "cr_socket r = k" "cr_fd r = fd"
    and "mk_session_get k (wk_sessions (ct_worker ct)) = Some cs" "cr_sr r < length (cs_request_list cs)"
    and "cr_in_buf r = x @ replicate z NUL" "cr_in_len r = length x" "length (cr_in_buf r) = PATHLEN" "8 \<le> length x"
    and "x = l @ h @ ENDBLOCK @ b" "status_head l x" "NUL \<notin> set h" "strstr (h @ ENDBLOCK) ENDBLOCK = Some (length h)"
    and "mk_header_send (we_env we) k (cr_sr r) (set_sr (cr_sr r) (first_header x) \<lparr>rs_cs = cs, rs_gmt = wk_gmt (ct_worker ct), rs_trace = []\<rparr>) = Inr (u, s1)"
  shows "\<exists>ct' r'. cgi_event_write we cw k ct = Inr (MK_PLUGIN_RET_EVENT_OWNED, ct') \<and> linked ct' p r' \<and> in_body r' fd k \<and> cgi_pending r' = []
           \<and> sent k (ct_trace ct') = sent k (ct_trace ct) @ sent k (rs_trace s1) @ h @ ENDBLOCK @ concat (map chunk_text (if b = [] then [] else [b]))"
proof -
  let ?ct = "ct\<lparr>ct_worker := wemit (ECork k True) (ct_worker ct)\<rparr>" and ?y = "h @ ENDBLOCK @ b"
  let ?r1 = "r\<lparr>cr_in_len := length ?y, cr_status_done := True\<rparr>"
  let ?r2 = "?r1\<lparr>cr_in_len := length b, cr_all_headers_done := True\<rparr>"
  have len: "length x < 4294967296" "length x \<le> PATHLEN" using assms(11,13) by (simp_all add: PATHLEN_def)
  have mem: "ct_mem ct p = Some r" using assms(2) by (simp add: linked_def)
  have c: "ct_mem ?ct p = Some r" "mk_session_get k (wk_sessions (ct_worker ?ct)) = Some cs"
      "mk_header_send (we_env we) k (cr_sr r) (set_sr (cr_sr r) (first_header x) \<lparr>rs_cs = cs, rs_gmt = wk_gmt (ct_worker ?ct), rs_trace = []\<rparr>) = Inr (u, s1)"
    using mem assms(9,19) by simp_all
  obtain w1 where w1: "write_status we k p r ?ct = Inr (Some (length l), (put_req p ?r1 ct)\<lparr>ct_worker := w1\<rparr>)"
      "sent k (wk_trace w1) = sent k (ct_trace ct) @ sent k (rs_trace s1)"
    using write_status_first [OF c(1) assms(3,6) c(2) assms(10-12,14) len(1) assms(15,16) c(3)] by auto
  have buf: "drop (length l) (cr_in_buf ?r1) = h @ ENDBLOCK @ b @ replicate z NUL" using assms(11,15) by simp
  have cnt: "length h + 4 \<le> length (drop (length l) (cr_in_buf ?r1))" unfolding buf by simp
  obtain w2 where w2: "onW (swrite cw k (drop (length l) (cr_in_buf ?r1)) (length h + 4)) ((put_req p ?r1 ct)\<lparr>ct_worker := w1\<rparr>) = Inr ((put_req p ?r1 ct)\<lparr>ct_worker := w2\<rparr>)"
      "sent k (wk_trace w2) = sent k (wk_trace w1) @ h @ ENDBLOCK"
    using onW_swrite [OF assms(1) cnt, of k "(put_req p ?r1 ct)\<lparr>ct_worker := w1\<rparr>"] unfolding buf by auto
  have left: "usub (cr_in_len ?r1) (length h + 4) = length b" using len(1) assms(15) by (simp add: usub_le)
  have he: "header_end (drop (length l) (cr_in_buf ?r1)) = Inr (Some (length h + 4))" unfolding buf by (rule header_end_block [OF assms(17,18)])
  have start: "cgi_event_write we cw k ct = bindE (write_headers we cw k p (length l) ?r1 ((put_req p ?r1 ct)\<lparr>ct_worker := w1\<rparr>)) (\<lambda>(out2, ct2).
      case out2 of None \<Rightarrow> Inr (MK_PLUGIN_RET_EVENT_OWNED, ct2)
      | Some out2 \<Rightarrow> bindE (with_req p (write_body we cw k p out2) ct2) (\<lambda>ct3. Inr (MK_PLUGIN_RET_EVENT_OWNED, ct3)))"
    using assms(2,7,12,14) w1(1) by (auto simp: cgi_event_write_def cgi_req_get_def linked_def with_req_def bindE_def)
  have body: "in_body (?r2\<lparr>cr_in_len := 0\<rparr>) fd k" using assms(5,7,8,13) by (simp add: in_body_def buf_ok_def)
  have link: "linked ((put_req p (?r2\<lparr>cr_in_len := 0\<rparr>) ct)\<lparr>ct_worker := w\<rparr>) p (?r2\<lparr>cr_in_len := 0\<rparr>)" for w
    by (rule linked_put [OF assms(2)]) simp_all
  show ?thesis
  proof (cases "b = []")
    case True
    obtain w3 where w3: "onW (change_mode we k MK_EPOLL_SLEEP) ((put_req p ?r2 ct)\<lparr>ct_worker := w2\<rparr>) = Inr ((put_req p ?r2 ct)\<lparr>ct_worker := w3\<rparr>)"
        "sent k (wk_trace w3) = sent k (wk_trace w2)"
      using onW_change_mode [of MK_EPOLL_SLEEP we k "(put_req p ?r2 ct)\<lparr>ct_worker := w2\<rparr>" k] by auto
    have "cgi_event_write we cw k ct = Inr (MK_PLUGIN_RET_EVENT_OWNED, (put_req p ?r2 ct)\<lparr>ct_worker := w3\<rparr>)"
      unfolding start using True assms(4) he w2(1) left w3(1) by (simp add: write_headers_def bindE_def)
    moreover have e: "?r2\<lparr>cr_in_len := 0\<rparr> = ?r2" using True by simp
    ultimately show ?thesis using True w1(2) w2(2) w3(2) body [unfolded e] link [of w3, unfolded e]
      by (intro exI [of _ "(put_req p ?r2 ct)\<lparr>ct_worker := w3\<rparr>"] exI [of _ "?r2"]) (simp add: cgi_pending_def)
  next
    case False
    let ?o = "length l + (length h + 4)"
    have r2: "cr_chunked ?r2" "?o + cr_in_len ?r2 \<le> length (cr_in_buf ?r2)" using assms(5,11,15) by simp_all
    have b: "take (cr_in_len ?r2) (drop ?o (cr_in_buf ?r2)) = b" using assms(11,15) by simp
    obtain w3 where w3: "write_body we cw k p ?o ?r2 ((put_req p ?r2 ct)\<lparr>ct_worker := w2\<rparr>) = Inr ((put_req p (?r2\<lparr>cr_in_len := 0\<rparr>) ct)\<lparr>ct_worker := w3\<rparr>)"
        "sent k (wk_trace w3) = sent k (wk_trace w2) @ chunk_text b"
      using write_body_chunk [OF assms(1) r2, of we k p "(put_req p ?r2 ct)\<lparr>ct_worker := w2\<rparr>"] unfolding b by auto
    have "cgi_event_write we cw k ct = Inr (MK_PLUGIN_RET_EVENT_OWNED, (put_req p (?r2\<lparr>cr_in_len := 0\<rparr>) ct)\<lparr>ct_worker := w3\<rparr>)"
      unfolding start using False assms(4) he w2(1) left w3(1) by (simp add: write_headers_def bindE_def with_req_def)
    then show ?thesis using False w1(2) w2(2) w3(2) body link [of w3]
      by (intro exI [of _ "(put_req p (?r2\<lparr>cr_in_len := 0\<rparr>) ct)\<lparr>ct_worker := w3\<rparr>"] exI [of _ "?r2\<lparr>cr_in_len := 0\<rparr>"]) (simp add: cgi_pending_def)
  qed
qed

section \<open>Properties\<close>

text \<open>A request as \<open>cgi_connect\<close> leaves it.\<close>

definition fresh :: "cgi_thread \<Rightarrow> nat \<Rightarrow> int \<Rightarrow> int \<Rightarrow> nat \<Rightarrow> bool" where
  "fresh ct p fd k i \<longleftrightarrow>
     linked ct p \<lparr>cr_in_buf = replicate PATHLEN NUL, cr_sr = i, cr_cs = k, cr_in_len = 0, cr_fd = fd, cr_socket = k,
                 cr_status_done = False, cr_all_headers_done = False, cr_chunked = True\<rparr>"

lemma first_read:
  assumes "fresh ct p fd k i" "m = min (n + 1) (length out)" "m < PATHLEN" "out \<noteq> []"
  shows "\<exists>ct' r. cgi_step we cw fd k (CgiRead n) (ct, out) = Inr (ct', drop m out) \<and> linked ct' p r
           \<and> r = \<lparr>cr_in_buf = take m out @ replicate (PATHLEN - m) NUL, cr_sr = i, cr_cs = k, cr_in_len = m, cr_fd = fd, cr_socket = k,
                 cr_status_done = False, cr_all_headers_done = False, cr_chunked = True\<rparr>
           \<and> sent k (ct_trace ct') = sent k (ct_trace ct) \<and> wk_sessions (ct_worker ct') = wk_sessions (ct_worker ct) \<and> wk_gmt (ct_worker ct') = wk_gmt (ct_worker ct)"
proof -
  let ?r = "\<lparr>cr_in_buf = replicate PATHLEN NUL, cr_sr = i, cr_cs = k, cr_in_len = 0, cr_fd = fd, cr_socket = k,
             cr_status_done = False, cr_all_headers_done = False, cr_chunked = True\<rparr>"
  let ?m = "min (n + 1) (cgi_room ct fd)"
  have l: "linked ct p ?r" using assms(1) by (simp add: fresh_def)
  have room: "cgi_room ct fd = PATHLEN" using cgi_room_linked [OF l] by simp
  have t: "take ?m out = take m out" "drop ?m out = drop m out" using assms(2,3) room by (auto simp: min_def)
  let ?cw = "cw\<lparr>cw_read := (\<lambda>tr fd count. Some (take m out))\<rparr>"
  have b: "buf_ok ?r" "cr_in_len ?r < PATHLEN" "length (take m out) \<le> PATHLEN - cr_in_len ?r" "length (take m out) = m"
    using assms(2,3) by (simp_all add: buf_ok_def PATHLEN_def)
  obtain ct' where g: "cgi_event_read we ?cw fd ct = Inr (MK_PLUGIN_RET_EVENT_OWNED, ct')"
      "linked ct' p (?r\<lparr>cr_in_buf := cgi_put_bytes (cr_in_buf ?r) (cr_in_len ?r) (take m out), cr_in_len := cr_in_len ?r + length (take m out)\<rparr>)"
      "sent k (ct_trace ct') = sent k (ct_trace ct)" "wk_sessions (ct_worker ct') = wk_sessions (ct_worker ct)" "wk_gmt (ct_worker ct') = wk_gmt (ct_worker ct)"
    using event_read_gets [OF l b(1-3), of ?cw we k] by auto
  have "cgi_step we cw fd k (CgiRead n) (ct, out) = Inr (ct', drop m out)"
    using assms(4) g(1) t by (simp add: bindE_def Let_def)
  then show ?thesis using g(2-5) b(4) by (simp add: cgi_put_bytes_def)
qed

text \<open>
  What a CGI program writes reaches the client. Let the output of a program be a status line or none,
  headers that end with an empty line, and a body, and let the first read give at least the headers and
  less than a full buffer. Then every sequence of read and write events, with reads of any size, can be
  handled without an error, and when the program hangs up, the client has been sent the response header
  with the status of the program, the headers, and a chunked body that decodes to exactly the bytes of the body that were
  read, in order; the request is gone from the memory and from the table of the sockets.
\<close>

theorem cgi_response_complete:
  assumes "fresh ct p fd k i" "writes cw"
    and "out = l @ h @ ENDBLOCK @ body" "status_head l (take (n + 1) out)" "NUL \<notin> set h" "strstr (h @ ENDBLOCK) ENDBLOCK = Some (length h)"
    and "8 \<le> length (l @ h @ ENDBLOCK)" "length (l @ h @ ENDBLOCK) \<le> n + 1" "n + 1 < PATHLEN"
    and "mk_session_get k (wk_sessions (ct_worker ct)) = Some cs" "i < length (cs_request_list cs)"
    and "mk_header_send (we_env we) k i (set_sr i (first_header (take (n + 1) out)) \<lparr>rs_cs = cs, rs_gmt = wk_gmt (ct_worker ct), rs_trace = []\<rparr>) = Inr (u, s1)"
  shows "\<exists>ct1 rest ct2 chunks b. cgi_run we cw fd k (CgiRead n # CgiWrite # es) (ct, out) = Inr (ct1, rest)
           \<and> cgi_hangup we cw fd ct1 = Inr (MK_PLUGIN_RET_EVENT_OWNED, ct2)
           \<and> sent k (ct_trace ct2) = sent k (ct_trace ct) @ sent k (rs_trace s1) @ h @ ENDBLOCK @ chunks
           \<and> dechunk chunks = Some b \<and> body = b @ rest \<and> ct_mem ct2 p = None \<and> ct_by_socket ct2 k = None"
proof -
  define m where "m = min (n + 1) (length out)"
  have m: "m < PATHLEN" "out \<noteq> []" "take m out = take (n + 1) out" "drop m out = drop (n + 1) out" "length (l @ h @ ENDBLOCK) \<le> m"
    using assms(3,7-9) by (auto simp: m_def min_def)
  define b0 where "b0 = take (m - length (l @ h @ ENDBLOCK)) body"
  have "take m (y @ body) = y @ take (m - length y) body" if "length y \<le> m" for y using that by simp
  from this [OF m(5)] have x: "take m out = l @ h @ ENDBLOCK @ b0" using assms(3) by (simp add: b0_def)
  have len: "length (take m out) = m" by (simp add: m_def)
  obtain ct' r where r: "cgi_step we cw fd k (CgiRead n) (ct, out) = Inr (ct', drop m out)" "linked ct' p r"
      "r = \<lparr>cr_in_buf = take m out @ replicate (PATHLEN - m) NUL, cr_sr = i, cr_cs = k, cr_in_len = m, cr_fd = fd, cr_socket = k,
                 cr_status_done = False, cr_all_headers_done = False, cr_chunked = True\<rparr>"
      "sent k (ct_trace ct') = sent k (ct_trace ct)" "wk_sessions (ct_worker ct') = wk_sessions (ct_worker ct)" "wk_gmt (ct_worker ct') = wk_gmt (ct_worker ct)"
    using first_read [OF assms(1) m_def m(1,2), of we cw] by blast
  have f: "\<not> cr_status_done r" "\<not> cr_all_headers_done r" "cr_chunked r" "cr_cs r = k" "cr_socket r = k" "cr_fd r = fd"
      "mk_session_get k (wk_sessions (ct_worker ct')) = Some cs" "cr_sr r < length (cs_request_list cs)"
      "cr_in_buf r = take m out @ replicate (PATHLEN - m) NUL" "cr_in_len r = length (take m out)" "length (cr_in_buf r) = PATHLEN" "8 \<le> length (take m out)"
    using r(3,5) assms(7,10,11) len m(1,5) by (simp_all add: less_imp_le)
  have hs: "mk_header_send (we_env we) k (cr_sr r) (set_sr (cr_sr r) (first_header (take m out)) \<lparr>rs_cs = cs, rs_gmt = wk_gmt (ct_worker ct'), rs_trace = []\<rparr>) = Inr (u, s1)"
    using assms(12) r(3,6) m(3) by simp
  have sh: "status_head l (take m out)" using assms(4) m(3) by simp
  obtain ct'' r' where w: "cgi_event_write we cw k ct' = Inr (MK_PLUGIN_RET_EVENT_OWNED, ct'')" "linked ct'' p r'" "in_body r' fd k" "cgi_pending r' = []"
      "sent k (ct_trace ct'') = sent k (ct_trace ct') @ sent k (rs_trace s1) @ h @ ENDBLOCK @ concat (map chunk_text (if b0 = [] then [] else [b0]))"
    using event_write_first [OF assms(2) r(2) f x sh assms(5,6) hs] by blast
  obtain ct1 rest ct2 bs where e: "cgi_run we cw fd k es (ct'', drop m out) = Inr (ct1, rest)"
      "cgi_hangup we cw fd ct1 = Inr (MK_PLUGIN_RET_EVENT_OWNED, ct2)" "ct_mem ct2 p = None" "ct_by_socket ct2 k = None"
      "sent k (ct_trace ct2) = sent k (ct_trace ct'') @ concat (map chunk_text bs) @ ''0'' @ CRLF @ CRLF"
      "\<forall>b\<in>set bs. b \<noteq> []" "concat bs @ rest = drop m out"
    using run_then_hangup [OF assms(2) w(2,3), of we es "drop m out"] w(4) by auto
  let ?all = "(if b0 = [] then [] else [b0]) @ bs"
  have dc: "dechunk (concat (map chunk_text ?all) @ ''0'' @ CRLF @ CRLF) = Some (concat ?all)"
    by (rule dechunk_all) (use e(6) in auto)
  have "b0 @ drop m out = body" using x assms(3) append_take_drop_id [of m out] by simp
  then have "body = concat ?all @ rest" using e(7) by auto
  moreover have "cgi_run we cw fd k (CgiRead n # CgiWrite # es) (ct, out) = Inr (ct1, rest)" using r(1) w(1) e(1) by (simp add: bindE_def)
  moreover have "sent k (ct_trace ct2) = sent k (ct_trace ct) @ sent k (rs_trace s1) @ h @ ENDBLOCK @ concat (map chunk_text ?all) @ ''0'' @ CRLF @ CRLF"
    using e(5) w(5) r(4) by simp
  ultimately show ?thesis using e(2-4) dc by blast
qed

end
