(* ===== verification/Fcgi_Protocol.thy ===== *)
theory Fcgi_Protocol
  imports Mk_Memory "HOL-Library.Word"
begin

unbundle bit_operations_syntax

text \<open>
  \<^verbatim>\<open>plugins/fastcgi/protocol.c\<close>: the records of the FastCGI protocol. A buffer is the list of its
  bytes; a store or a read outside of it is an error. A header occupies eight bytes, of which the
  last is neither written nor read, and five bytes of the body of a begin record are not written:
  they keep what the buffer held before.
\<close>

section \<open>Records\<close>

definition FCGI_VERSION_1 :: "8 word" where [mk_const]: "FCGI_VERSION_1 = 1"
definition FCGI_HEADER_LEN :: nat where [mk_const]: "FCGI_HEADER_LEN = 8"
definition FCGI_BEGIN_BODY_LEN :: nat where [mk_const]: "FCGI_BEGIN_BODY_LEN = 8"
definition FCGI_END_BODY_LEN :: nat where [mk_const]: "FCGI_END_BODY_LEN = 8"

definition FCGI_BEGIN_REQUEST :: "8 word" where [mk_const]: "FCGI_BEGIN_REQUEST = 1"
definition FCGI_ABORT_REQUEST :: "8 word" where [mk_const]: "FCGI_ABORT_REQUEST = 2"
definition FCGI_END_REQUEST :: "8 word" where [mk_const]: "FCGI_END_REQUEST = 3"
definition FCGI_PARAMS :: "8 word" where [mk_const]: "FCGI_PARAMS = 4"
definition FCGI_STDIN :: "8 word" where [mk_const]: "FCGI_STDIN = 5"
definition FCGI_STDOUT :: "8 word" where [mk_const]: "FCGI_STDOUT = 6"
definition FCGI_STDERR :: "8 word" where [mk_const]: "FCGI_STDERR = 7"

definition FCGI_RESPONDER :: "16 word" where [mk_const]: "FCGI_RESPONDER = 1"
definition FCGI_KEEP_CONN :: "8 word" where [mk_const]: "FCGI_KEEP_CONN = 1"

record fcgi_header =
  fh_version :: "8 word"
  fh_type :: "8 word"
  fh_req_id :: "16 word"
  fh_body_len :: "16 word"
  fh_body_pad :: "8 word"

record fcgi_begin_req_body =
  fb_role :: "16 word"
  fb_flags :: "8 word"

record fcgi_end_req_body =
  fe_app_status :: "32 word"
  fe_protocol_status :: "8 word"

text \<open>A byte of a buffer as a number of the width \<open>'a\<close>, and the low byte of a number.\<close>

definition rd_byte :: "cstr \<Rightarrow> nat \<Rightarrow> 'a::len word" where
  "rd_byte p i = word_of_nat (byte (p ! i))"

definition low_byte :: "'a::len word \<Rightarrow> char" where
  "low_byte w = mkchar (unat (w AND 0xff))"

definition put_bytes :: "cstr \<Rightarrow> nat \<Rightarrow> cstr \<Rightarrow> cerr + cstr" where
  "put_bytes buf pos bs =
     (if pos + length bs \<le> length buf then Inr (take pos buf @ bs @ drop (pos + length bs) buf) else Inl OutOfBounds)"

definition header_bytes :: "fcgi_header \<Rightarrow> cstr" where
  "header_bytes h =
     [low_byte (fh_version h), low_byte (fh_type h),
      low_byte (drop_bit 8 (fh_req_id h)), low_byte (fh_req_id h),
      low_byte (drop_bit 8 (fh_body_len h)), low_byte (fh_body_len h), low_byte (fh_body_pad h)]"

definition fcgi_write_header :: "cstr \<Rightarrow> nat \<Rightarrow> fcgi_header \<Rightarrow> cerr + cstr \<times> nat" where
  "fcgi_write_header buf pos h =
     bindE (put_bytes buf pos (header_bytes h)) (\<lambda>buf'. Inr (buf', FCGI_HEADER_LEN))"

definition fcgi_read_header :: "cstr \<Rightarrow> cerr + fcgi_header" where
  "fcgi_read_header p =
     (if length p < 7 then Inl OutOfBounds
      else Inr \<lparr>fh_version = rd_byte p 0, fh_type = rd_byte p 1,
                fh_req_id = push_bit 8 (rd_byte p 2) + rd_byte p 3,
                fh_body_len = push_bit 8 (rd_byte p 4) + rd_byte p 5, fh_body_pad = rd_byte p 6\<rparr>)"

definition fcgi_read_end_req_body :: "cstr \<Rightarrow> cerr + fcgi_end_req_body" where
  "fcgi_read_end_req_body p =
     (if length p < 5 then Inl OutOfBounds
      else Inr \<lparr>fe_app_status = push_bit 24 (rd_byte p 0) + push_bit 16 (rd_byte p 1)
                  + (push_bit 8 (rd_byte p 2) + rd_byte p 3),
                fe_protocol_status = rd_byte p 4\<rparr>)"

definition fcgi_write_begin_req_body :: "cstr \<Rightarrow> nat \<Rightarrow> fcgi_begin_req_body \<Rightarrow> cerr + cstr \<times> nat" where
  "fcgi_write_begin_req_body buf pos b =
     bindE (put_bytes buf pos [low_byte (drop_bit 8 (fb_role b)), low_byte (fb_role b), low_byte (fb_flags b)])
       (\<lambda>buf'. Inr (buf', FCGI_BEGIN_BODY_LEN))"

section \<open>Name-value pairs\<close>

text \<open>
  The lengths are \<open>size_t\<close> numbers when they are written and 32-bit numbers when they are read.
\<close>

definition length_bytes :: "nat \<Rightarrow> cstr" where
  "length_bytes len =
     (if 127 < len
      then [mkchar (128 + len div 2 ^ 24 mod 128), mkchar (len div 2 ^ 16), mkchar (len div 2 ^ 8), mkchar len]
      else [mkchar (len mod 128)])"

definition write_length :: "cstr \<Rightarrow> nat \<Rightarrow> nat \<Rightarrow> cerr + cstr \<times> nat" where
  "write_length buf pos len =
     bindE (put_bytes buf pos (length_bytes len)) (\<lambda>buf'. Inr (buf', if 127 < len then 4 else 1))"

definition fcgi_param_read_length :: "cstr \<Rightarrow> nat \<Rightarrow> cerr + nat" where
  "fcgi_param_read_length p i =
     (if length p \<le> i then Inl OutOfBounds
      else if byte (p ! i) div 128 = 1 then
        if length p < i + 4 then Inl OutOfBounds
        else Inr (byte (p ! i) mod 128 * 2 ^ 24 + byte (p ! (i + 1)) * 2 ^ 16 + byte (p ! (i + 2)) * 2 ^ 8
                  + byte (p ! (i + 3)))
      else Inr (byte (p ! i)))"

text \<open>With a null buffer only the size is computed. \<open>memcpy\<close> reads the covered bytes of the pointers.\<close>

definition fcgi_param_size :: "mk_pointer \<Rightarrow> mk_pointer \<Rightarrow> nat" where
  "fcgi_param_size key value =
     (if 127 < p_len key then 4 else 1) + (if 127 < p_len value then 4 else 1) + (p_len key + p_len value)"

definition copy_pointer :: "cstr \<Rightarrow> nat \<Rightarrow> mk_pointer \<Rightarrow> cerr + cstr" where
  "copy_pointer buf pos p = (if length (view p) < p_len p then Inl OutOfBounds else put_bytes buf pos (p_bytes p))"

definition fcgi_param_write :: "cstr \<Rightarrow> nat \<Rightarrow> mk_pointer \<Rightarrow> mk_pointer \<Rightarrow> cerr + cstr \<times> nat" where
  "fcgi_param_write buf p key value =
     bindE (write_length buf p (p_len key)) (\<lambda>(buf1, r1).
       bindE (write_length buf1 (p + r1) (p_len value)) (\<lambda>(buf2, r2).
         bindE (copy_pointer buf2 (p + r1 + r2) key) (\<lambda>buf3.
           bindE (copy_pointer buf3 (p + r1 + r2 + p_len key) value) (\<lambda>buf4.
             Inr (buf4, r1 + r2 + p_len key + p_len value)))))"

record fcgi_param_entry =
  pe_key_len :: nat
  pe_value_len :: nat
  pe_position :: nat
  pe_base_len :: nat
  pe_base :: cstr

text \<open>The sum of the two 32-bit lengths wraps around.\<close>

definition fcgi_param_entry_next :: "fcgi_param_entry \<Rightarrow> cerr + int \<times> fcgi_param_entry" where
  "fcgi_param_entry_next e0 =
     (let e = e0\<lparr>pe_position := pe_position e0 + (pe_key_len e0 + pe_value_len e0) mod 2 ^ 32\<rparr> in
      if \<not> pe_position e < pe_base_len e then Inr (-1, e)
      else bindE (fcgi_param_read_length (pe_base e) (pe_position e)) (\<lambda>kl.
        let p1 = pe_position e + (if 127 < kl then 4 else 1) in
        bindE (fcgi_param_read_length (pe_base e) p1) (\<lambda>vl.
          Inr (0, e\<lparr>pe_key_len := kl, pe_value_len := vl,
                     pe_position := p1 + (if 127 < vl then 4 else 1)\<rparr>))))"

definition fcgi_param_entry_init :: "cstr \<Rightarrow> nat \<Rightarrow> cerr + fcgi_param_entry" where
  "fcgi_param_entry_init p p_len' =
     bindE (fcgi_param_entry_next
              \<lparr>pe_key_len = 0, pe_value_len = 0, pe_position = 0, pe_base_len = p_len', pe_base = p\<rparr>)
       (\<lambda>(_, e). Inr e)"

definition fcgi_param_entry_reset :: "fcgi_param_entry \<Rightarrow> cerr + fcgi_param_entry" where
  "fcgi_param_entry_reset e =
     bindE (fcgi_param_entry_next (e\<lparr>pe_key_len := 0, pe_value_len := 0, pe_position := 0\<rparr>)) (\<lambda>(_, e). Inr e)"

definition fcgi_param_entry_key :: "fcgi_param_entry \<Rightarrow> mk_pointer" where
  "fcgi_param_entry_key e = \<lparr>p_data = Some (drop (pe_position e) (pe_base e)), p_len = pe_key_len e\<rparr>"

definition fcgi_param_entry_value :: "fcgi_param_entry \<Rightarrow> mk_pointer" where
  "fcgi_param_entry_value e =
     \<lparr>p_data = Some (drop (pe_position e + pe_key_len e) (pe_base e)), p_len = pe_value_len e\<rparr>"

text \<open>
  The search advances the position with every entry, so it needs at most one step for every byte
  of the buffer.
\<close>

fun param_search_loop :: "nat \<Rightarrow> fcgi_param_entry \<Rightarrow> mk_pointer \<Rightarrow> cerr + int \<times> fcgi_param_entry" where
  "param_search_loop 0 e key = Inl Diverges"
| "param_search_loop (Suc n) e key =
     (if p_len (fcgi_param_entry_key e) = p_len key \<and> p_bytes (fcgi_param_entry_key e) = p_bytes key
      then Inr (0, e)
      else bindE (fcgi_param_entry_next e) (\<lambda>(r, e').
        if r \<noteq> -1 then param_search_loop n e' key else Inr (-1, e')))"

definition fcgi_param_entry_search :: "fcgi_param_entry \<Rightarrow> mk_pointer \<Rightarrow> cerr + int \<times> fcgi_param_entry" where
  "fcgi_param_entry_search e key = param_search_loop (pe_base_len e + 2) e key"

section \<open>Headers\<close>

lemma put_bytes_Inr_iff:
  "put_bytes buf pos bs = Inr buf' \<longleftrightarrow>
     pos + length bs \<le> length buf \<and> buf' = take pos buf @ bs @ drop (pos + length bs) buf"
  by (auto simp: put_bytes_def)

lemma put_bytes_length: "put_bytes buf pos bs = Inr buf' \<Longrightarrow> length buf' = length buf"
  by (auto simp: put_bytes_Inr_iff)

lemma byte_low_byte: "byte (low_byte w) = unat w mod 256"
proof -
  have m: "(0xff :: 'a word) = mask 8" by (simp add: mask_eq_exp_minus_1)
  have "unat (w AND 0xff) = take_bit 8 (unat w)"
    unfolding m take_bit_eq_mask [symmetric] by (simp only: unsigned_take_bit_eq)
  then show ?thesis by (simp add: low_byte_def byte_def mkchar_def take_bit_eq_mod)
qed

lemma rd_byte_8: "rd_byte (low_byte (w :: 8 word) # bs) 0 = w"
proof -
  have "unat w < 256" using unsigned_less [of w] by simp
  then show ?thesis by (simp add: rd_byte_def byte_low_byte)
qed

lemma rd_byte_Suc [simp]: "rd_byte (c # bs) (Suc i) = rd_byte bs i"
  by (simp add: rd_byte_def)

lemma rd_byte_low: "(rd_byte (low_byte w # bs) 0 :: 'b::len word) = word_of_nat (unat w mod 256)"
  by (simp add: rd_byte_def byte_low_byte)

lemma be16:
  fixes w :: "16 word"
  shows "push_bit 8 (word_of_nat (unat (drop_bit 8 w) mod 256)) + word_of_nat (unat w mod 256) = w"
proof -
  have d: "unat (drop_bit 8 w) = unat w div 256" 
    unfolding unat_drop_bit_eq by (simp add: drop_bit_eq_div)
  have "unat w < 65536" using unsigned_less [of w] by simp
  then have "unat w div 256 mod 256 = unat w div 256" by simp
  then have "push_bit 8 (word_of_nat (unat (drop_bit 8 w) mod 256)) + (word_of_nat (unat w mod 256) :: 16 word)
      = word_of_nat (unat w div 256 * 256 + unat w mod 256)"
    by (simp only: d push_bit_eq_mult of_nat_add of_nat_mult) simp
  then show ?thesis by simp
qed

lemma be16_read:
  fixes w :: "16 word"
  shows "push_bit 8 (rd_byte (low_byte (drop_bit 8 w) # low_byte w # bs) 0) + rd_byte (low_byte w # bs) 0 = w"
  by (simp only: rd_byte_low be16)

text \<open>Reading a header that was written gives the header.\<close>

lemma fcgi_header_read_write: "fcgi_read_header (header_bytes h @ bs) = Inr h"
proof -
  have n: "6 = Suc 5" "5 = Suc 4" "4 = Suc 3" "3 = Suc 2" "2 = Suc 1" "(1::nat) = Suc 0" by simp_all
  have "\<not> length (header_bytes h @ bs) < 7" by (simp add: header_bytes_def)
  then show ?thesis
    unfolding fcgi_read_header_def header_bytes_def if_False append.simps
    by (simp only: n if_False rd_byte_Suc rd_byte_8 be16_read) simp
qed

lemma header_roundtrip_at:
  assumes "fcgi_write_header buf pos h = Inr (buf', n)"
  shows "fcgi_read_header (drop pos buf') = Inr h \<and> length buf' = length buf \<and> n = 8"
  using assms fcgi_header_read_write
  by (auto simp: fcgi_write_header_def bindE_Inr_iff put_bytes_Inr_iff FCGI_HEADER_LEN_def)

section \<open>Pairs\<close>

text \<open>The encoding of a pair, and what the search in a list of pairs has to find.\<close>

definition param_bytes :: "cstr \<times> cstr \<Rightarrow> cstr" where
  "param_bytes kv =
     length_bytes (length (fst kv)) @ length_bytes (length (snd kv)) @ fst kv @ snd kv"

definition param_ok :: "cstr \<times> cstr \<Rightarrow> bool" where
  "param_ok kv \<longleftrightarrow> length (fst kv) < 2 ^ 31 \<and> length (snd kv) < 2 ^ 31"

definition pointer_of :: "cstr \<Rightarrow> mk_pointer" where
  "pointer_of s = \<lparr>p_data = Some s, p_len = length s\<rparr>"

text \<open>The pairs written one behind the other, from position \<open>p\<close> on.\<close>

fun write_params :: "cstr \<Rightarrow> nat \<Rightarrow> (cstr \<times> cstr) list \<Rightarrow> cerr + cstr \<times> nat" where
  "write_params buf p [] = Inr (buf, p)"
| "write_params buf p (kv # ps) =
     bindE (fcgi_param_write buf p (pointer_of (fst kv)) (pointer_of (snd kv)))
       (\<lambda>(buf', n). write_params buf' (p + n) ps)"

lemma length_length_bytes [simp]: "length (length_bytes n) = (if 127 < n then 4 else 1)"
  by (simp add: length_bytes_def)

lemma byte_mkchar_mod: "byte (mkchar n) = n mod 256"
  by (simp add: byte_def mkchar_def)

lemma split_bytes: "(n :: nat) div 2 ^ 24 * 2 ^ 24 + n div 2 ^ 16 mod 256 * 2 ^ 16 + n div 2 ^ 8 mod 256 * 2 ^ 8 + n mod 256 = n"
proof -
  have gen: "a * 2 ^ 24 + b * 2 ^ 16 + c * 2 ^ 8 + d = n"
    if "m = a * 256 + b" "k = m * 256 + c" "n = k * 256 + d" for a b c d k m :: nat using that by simp
  show ?thesis
  proof (rule gen)
    show "n div 2 ^ 16 = n div 2 ^ 24 * 256 + n div 2 ^ 16 mod 256"
      using div_mult_mod_eq [of "n div 2 ^ 16" 256] by (simp add: div_mult2_eq [symmetric])
    show "n div 2 ^ 8 = n div 2 ^ 16 * 256 + n div 2 ^ 8 mod 256"
      using div_mult_mod_eq [of "n div 2 ^ 8" 256] by (simp add: div_mult2_eq [symmetric])
    show "n = n div 2 ^ 8 * 256 + n mod 256" using div_mult_mod_eq [of n 256] by simp
  qed
qed

lemma read_length_bytes:
  assumes "n < 2 ^ 31"
  shows "fcgi_param_read_length (pre @ length_bytes n @ rest) (length pre) = Inr n"
proof (cases "127 < n")
  case True
  have d: "n div 2 ^ 24 < 128" using assms by (simp add: less_mult_imp_div_less)
  let ?a = "128 + n div 2 ^ 24 mod 128"
  have a: "?a div 128 = 1" "?a mod 128 = n div 2 ^ 24" "?a < 256" using d by simp_all
  have i: "(pre @ length_bytes n @ rest) ! (length pre + k) = length_bytes n ! k" if "k < 4" for k
    using that True by (simp add: nth_append)
  have b: "length_bytes n ! 0 = mkchar ?a" "length_bytes n ! 1 = mkchar (n div 2 ^ 16)"
    "length_bytes n ! 2 = mkchar (n div 2 ^ 8)" "length_bytes n ! 3 = mkchar n"
    using True by (simp_all add: length_bytes_def)
  show ?thesis
    unfolding fcgi_param_read_length_def
    using True a split_bytes [of n] i [of 0] i [of 1] i [of 2] i [of 3]
    by (simp add: b b(2) [unfolded One_nat_def] byte_mkchar_mod)
next
  case False
  then show ?thesis by (simp add: fcgi_param_read_length_def length_bytes_def nth_append)
qed

lemma put_put:
  assumes "put_bytes buf pos a = Inr buf1"
  shows "put_bytes buf1 (pos + length a) b = put_bytes buf pos (a @ b)"
proof -
  from assms have l: "pos + length a \<le> length buf" and e: "buf1 = take pos buf @ a @ drop (pos + length a) buf"
    by (simp_all add: put_bytes_Inr_iff)
  then have "length buf1 = length buf" by simp
  with l show ?thesis by (simp add: put_bytes_def e ac_simps)
qed

lemma fcgi_param_write_bytes:
  assumes "p + length (param_bytes (k, v)) \<le> length buf"
  shows "fcgi_param_write buf p (pointer_of k) (pointer_of v) =
           Inr (take p buf @ param_bytes (k, v) @ drop (p + length (param_bytes (k, v))) buf, length (param_bytes (k, v)))"
proof -
  let ?a = "length_bytes (length k)" and ?b = "length_bytes (length v)"
  obtain b1 where b1: "put_bytes buf p ?a = Inr b1" using assms by (simp add: put_bytes_def param_bytes_def)
  obtain b2 where b2: "put_bytes b1 (p + length ?a) ?b = Inr b2"
    using assms unfolding put_put [OF b1] by (simp add: put_bytes_def param_bytes_def)
  have b2': "put_bytes buf p (?a @ ?b) = Inr b2" using b2 put_put [OF b1] by simp
  obtain b3 where b3: "put_bytes b2 (p + length (?a @ ?b)) k = Inr b3"
    using assms unfolding put_put [OF b2'] by (simp add: put_bytes_def param_bytes_def)
  have b3': "put_bytes buf p (?a @ ?b @ k) = Inr b3" using b3 put_put [OF b2'] by simp
  obtain b4 where b4: "put_bytes b3 (p + length (?a @ ?b @ k)) v = Inr b4"
    using assms unfolding put_put [OF b3'] by (simp add: put_bytes_def param_bytes_def)
  have b4': "put_bytes buf p (param_bytes (k, v)) = Inr b4"
    using b4 put_put [OF b3'] by (simp add: param_bytes_def)
  have "fcgi_param_write buf p (pointer_of k) (pointer_of v) = Inr (b4, length (param_bytes (k, v)))"
    using b1 b2 b3 b4
    by (simp add: fcgi_param_write_def write_length_def copy_pointer_def pointer_of_def p_bytes_def param_bytes_def
        add.assoc split: if_splits)
  with b4' show ?thesis by (simp add: put_bytes_Inr_iff)
qed

lemma write_params_bytes:
  "p + length (concat (map param_bytes ps)) \<le> length buf \<Longrightarrow>
     write_params buf p ps =
       Inr (take p buf @ concat (map param_bytes ps) @ drop (p + length (concat (map param_bytes ps))) buf,
            p + length (concat (map param_bytes ps)))"
proof (induction ps arbitrary: buf p)
  case (Cons kv ps)
  let ?b = "param_bytes kv" and ?r = "concat (map param_bytes ps)"
  let ?buf = "take p buf @ ?b @ drop (p + length ?b) buf"
  have w: "fcgi_param_write buf p (pointer_of (fst kv)) (pointer_of (snd kv)) = Inr (?buf, length ?b)"
    using fcgi_param_write_bytes [of p "fst kv" "snd kv" buf] Cons.prems by simp
  have l: "length ?buf = length buf" using Cons.prems by simp
  have "write_params ?buf (p + length ?b) ps =
      Inr (take (p + length ?b) ?buf @ ?r @ drop (p + length ?b + length ?r) ?buf, p + length ?b + length ?r)"
    using Cons.prems l by (intro Cons.IH) simp
  moreover have "take (p + length ?b) ?buf = take p buf @ ?b" using Cons.prems by simp
  moreover have "drop (p + length ?b + length ?r) ?buf = drop (p + length ?b + length ?r) buf"
    using Cons.prems by (simp add: add.commute)
  ultimately show ?case by (simp add: w add.assoc)
qed simp

text \<open>An entry that stands behind the lengths of the pair \<open>(k, v)\<close>.\<close>

definition entry_at :: "fcgi_param_entry \<Rightarrow> cstr \<Rightarrow> cstr \<times> cstr \<Rightarrow> cstr \<Rightarrow> bool" where
  "entry_at e pre kv rest \<longleftrightarrow>
     pe_base e = pre @ fst kv @ snd kv @ rest \<and> pe_position e = length pre
     \<and> pe_key_len e = length (fst kv) \<and> pe_value_len e = length (snd kv)"

lemma entry_at_key: "entry_at e pre kv rest \<Longrightarrow> p_bytes (fcgi_param_entry_key e) = fst kv \<and> p_len (fcgi_param_entry_key e) = length (fst kv)"
  by (simp add: entry_at_def fcgi_param_entry_key_def p_bytes_def)

lemma entry_at_value: "entry_at e pre kv rest \<Longrightarrow> p_bytes (fcgi_param_entry_value e) = snd kv"
  by (simp add: entry_at_def fcgi_param_entry_value_def p_bytes_def)

lemma next_at:
  assumes pos: "pe_position e + (pe_key_len e + pe_value_len e) mod 2 ^ 32 = length pre"
    and base: "pe_base e = pre @ param_bytes kv @ rest" and more: "length pre < pe_base_len e" and ok: "param_ok kv"
  shows "\<exists>e' pre'. fcgi_param_entry_next e = Inr (0, e') \<and> entry_at e' pre' kv rest
           \<and> length pre' + length (fst kv) + length (snd kv) = length pre + length (param_bytes kv)
           \<and> pe_base_len e' = pe_base_len e \<and> pe_base e' = pe_base e"
proof -
  let ?a = "length_bytes (length (fst kv))" and ?b = "length_bytes (length (snd kv))"
  have r1: "fcgi_param_read_length (pe_base e) (length pre) = Inr (length (fst kv))"
    using read_length_bytes [of "length (fst kv)" pre "?b @ fst kv @ snd kv @ rest"] ok
    by (simp add: base param_bytes_def param_ok_def)
  have r2: "fcgi_param_read_length (pe_base e) (length pre + length ?a) = Inr (length (snd kv))"
    using read_length_bytes [of "length (snd kv)" "pre @ ?a" "fst kv @ snd kv @ rest"] ok
    by (simp add: base param_bytes_def param_ok_def)
  let ?e = "e\<lparr>pe_key_len := length (fst kv), pe_value_len := length (snd kv), pe_position := length pre + length ?a + length ?b\<rparr>"
  have "fcgi_param_entry_next e = Inr (0, ?e)"
    using r1 r2 more pos by (simp add: fcgi_param_entry_next_def Let_def)
  moreover have "entry_at ?e (pre @ ?a @ ?b) kv rest" by (simp add: entry_at_def base param_bytes_def)
  ultimately show ?thesis by (intro exI [of _ ?e] exI [of _ "pre @ ?a @ ?b"]) (simp add: param_bytes_def)
qed

text \<open>The search, from an entry on through the entries that follow it.\<close>

definition finds :: "cerr + int \<times> fcgi_param_entry \<Rightarrow> cstr option \<Rightarrow> bool" where
  "finds r v \<longleftrightarrow>
     (\<exists>e'. r = Inr (if v = None then -1 else 0, e') \<and> (\<forall>x. v = Some x \<longrightarrow> p_bytes (fcgi_param_entry_value e') = x))"

lemma search_hit:
  assumes "entry_at e pre kv rest"
  shows "finds (param_search_loop (Suc m) e (pointer_of (fst kv))) (map_of (kv # ps) (fst kv))"
  using entry_at_key [OF assms] entry_at_value [OF assms]
  by (cases kv) (auto simp: finds_def pointer_of_def p_bytes_def)

lemma pointer_of_bytes: "p_bytes (pointer_of key) = key"
  by (simp add: pointer_of_def p_bytes_def)

lemma search_step:
  assumes "entry_at e pre kv rest" "fst kv \<noteq> key"
  shows "param_search_loop (Suc m) e (pointer_of key) =
    bindE (fcgi_param_entry_next e) (\<lambda>(r, e'). if r \<noteq> -1 then param_search_loop m e' (pointer_of key) else Inr (-1, e'))"
proof -
  have "\<not> (p_len (fcgi_param_entry_key e) = p_len (pointer_of key) \<and> p_bytes (fcgi_param_entry_key e) = p_bytes (pointer_of key))"
    using entry_at_key [OF assms(1)] assms(2) by (simp add: pointer_of_bytes)
  then show ?thesis by (simp only: param_search_loop.simps if_False)
qed

lemma lengths_add: "param_ok kv \<Longrightarrow> (length (fst kv) + length (snd kv)) mod 2 ^ 32 = length (fst kv) + length (snd kv)"
  by (simp add: param_ok_def)

lemma search_from:
  assumes "entry_at e pre kv (concat (map param_bytes ps) @ tail)" "length ps < n"
    "pe_base_len e = length pre + length (fst kv) + length (snd kv) + length (concat (map param_bytes ps))"
    "param_ok kv" "\<forall>q\<in>set ps. param_ok q"
  shows "finds (param_search_loop n e (pointer_of key)) (map_of (kv # ps) key)"
  using assms
proof (induction ps arbitrary: e pre kv n)
  case Nil
  then obtain m where n: "n = Suc m" by (cases n) auto
  show ?case
  proof (cases "fst kv = key")
    case True
    with search_hit [OF Nil.prems(1), of m "[]"] n show ?thesis by simp
  next
    case False
    have "\<exists>e'. fcgi_param_entry_next e = Inr (-1, e')"
      using Nil.prems(1,3) lengths_add [OF Nil.prems(4)] by (simp add: fcgi_param_entry_next_def entry_at_def Let_def)
    moreover have "map_of [kv] key = None" using False by (cases kv) auto
    ultimately show ?thesis using search_step [OF Nil.prems(1) False, of m] by (auto simp: n finds_def)
  qed
next
  case (Cons q ps)
  obtain m where n: "n = Suc m" using Cons.prems(2) by (cases n) auto
  show ?case
  proof (cases "fst kv = key")
    case True
    with search_hit [OF Cons.prems(1), of m "q # ps"] n show ?thesis by simp
  next
    case False
    let ?pre = "pre @ fst kv @ snd kv" and ?rest = "concat (map param_bytes ps) @ tail"
    have nonempty: "0 < length (param_bytes q)" by (simp add: param_bytes_def)
    obtain e' pre' where e': "fcgi_param_entry_next e = Inr (0, e')" "entry_at e' pre' q ?rest"
        "length pre' + length (fst q) + length (snd q) = length ?pre + length (param_bytes q)"
        "pe_base_len e' = pe_base_len e"
      using next_at [of e ?pre q ?rest] Cons.prems lengths_add [OF Cons.prems(4)] nonempty by (auto simp: entry_at_def)
    have "finds (param_search_loop m e' (pointer_of key)) (map_of (q # ps) key)"
    proof (rule Cons.IH [OF e'(2)])
      show "length ps < m" using Cons.prems(2) n by simp
      show "pe_base_len e' = length pre' + length (fst q) + length (snd q) + length (concat (map param_bytes ps))"
        using e'(3,4) Cons.prems(3) by simp
    qed (use Cons.prems(5) in auto)
    moreover have "map_of (kv # q # ps) key = map_of (q # ps) key" using False by (cases kv) auto
    ultimately show ?thesis using search_step [OF Cons.prems(1) False, of m] e'(1) by (simp add: n)
  qed
qed

lemma param_size: "fcgi_param_size (pointer_of k) (pointer_of v) = length (param_bytes (k, v))"
  by (simp add: fcgi_param_size_def param_bytes_def pointer_of_def)

lemma params_size:
  "sum_list (map (\<lambda>kv. fcgi_param_size (pointer_of (fst kv)) (pointer_of (snd kv))) ps) = length (concat (map param_bytes ps))"
  by (induction ps) (simp_all add: param_size)

lemma params_many: "length ps \<le> length (concat (map param_bytes ps))"
proof (induction ps)
  case (Cons kv ps)
  have "1 \<le> length (param_bytes kv)" by (simp add: param_bytes_def)
  then have "1 + length ps \<le> length (param_bytes kv) + length (concat (map param_bytes ps))" using Cons by (rule add_mono)
  then show ?case by simp
qed simp

text \<open>
  C36: pairs survive the encoding. A list of pairs, each part shorter than \<open>2^31\<close> bytes, is written
  into any buffer that has room for the sizes computed beforehand; it fills exactly that many
  bytes. A reader that is set up on them finds for every name the value of the first pair with that
  name, and reports \<open>-1\<close> for every other name.
\<close>

theorem fcgi_params_roundtrip:
  assumes "ps \<noteq> []" "\<forall>kv\<in>set ps. param_ok kv"
    "n = sum_list (map (\<lambda>kv. fcgi_param_size (pointer_of (fst kv)) (pointer_of (snd kv))) ps)" "n \<le> length buf"
  shows "\<exists>buf' e. write_params buf 0 ps = Inr (buf', n) \<and> length buf' = length buf
           \<and> fcgi_param_entry_init buf' n = Inr e
           \<and> finds (fcgi_param_entry_search e (pointer_of key)) (map_of ps key)"
proof -
  let ?c = "concat (map param_bytes ps)"
  have n: "n = length ?c" using assms(3) by (simp only: params_size)
  let ?buf = "?c @ drop n buf"
  have w: "write_params buf 0 ps = Inr (?buf, n)" using write_params_bytes [of 0 ps buf] assms(4) n by simp
  obtain kv qs where ps: "ps = kv # qs" using assms(1) by (cases ps) auto
  let ?e0 = "\<lparr>pe_key_len = 0, pe_value_len = 0, pe_position = 0, pe_base_len = n, pe_base = ?buf\<rparr>"
  have pos: "0 < n" using params_many [of ps] unfolding n ps by (simp only: list.size)
  obtain e pre where e: "fcgi_param_entry_next ?e0 = Inr (0, e)" "entry_at e pre kv (concat (map param_bytes qs) @ drop n buf)"
      "length pre + length (fst kv) + length (snd kv) = length (param_bytes kv)" "pe_base_len e = n"
    using next_at [of ?e0 "[]" kv "concat (map param_bytes qs) @ drop n buf"] assms(2) pos by (auto simp: ps)
  have "finds (fcgi_param_entry_search e (pointer_of key)) (map_of (kv # qs) key)"
    unfolding fcgi_param_entry_search_def
  proof (rule search_from [OF e(2)])
    show "length qs < pe_base_len e + 2" using params_many [of ps] e(4) n by (simp add: ps)
    show "pe_base_len e = length pre + length (fst kv) + length (snd kv) + length (concat (map param_bytes qs))"
      using e(3,4) n by (simp add: ps)
  qed (use assms(2) ps in auto)
  moreover have "fcgi_param_entry_init ?buf n = Inr e" using e(1) by (simp add: fcgi_param_entry_init_def)
  moreover have "length ?buf = length buf" using assms(4) n by simp
  ultimately show ?thesis using w ps by blast
qed

theorem fcgi_params_roundtrip_witness:
  "\<exists>buf' e. write_params (replicate 64 NUL) 0 [(''PATH_INFO'', []), (''SERVER_NAME'', ''monkey'')] = Inr (buf', 30)
     \<and> length buf' = 64 \<and> fcgi_param_entry_init buf' 30 = Inr e
     \<and> finds (fcgi_param_entry_search e (pointer_of ''SERVER_NAME'')) (Some ''monkey'')"
proof -
  let ?ps = "[(''PATH_INFO'', []), (''SERVER_NAME'', ''monkey'')]"
  have "\<forall>kv\<in>set ?ps. param_ok kv" by (simp add: param_ok_def)
  moreover have "30 = sum_list (map (\<lambda>kv. fcgi_param_size (pointer_of (fst kv)) (pointer_of (snd kv))) ?ps)"
    by (simp add: fcgi_param_size_def pointer_of_def)
  moreover have "map_of ?ps ''SERVER_NAME'' = Some ''monkey''" by simp
  ultimately show ?thesis using fcgi_params_roundtrip [of ?ps 30 "replicate 64 NUL" "''SERVER_NAME''"] by simp
qed

end
