(* ===== verification/Fcgi_Chunk.thy ===== *)
theory Fcgi_Chunk
  imports Fcgi_Protocol "HOL-Library.Multiset"
begin

text \<open>
  \<^verbatim>\<open>plugins/fastcgi/chunk.c\<close>: reference counted chunks of received data, and I/O vectors whose entries
  point into chunks or into other memory and hold references on them. A pointer to a chunk is a
  number; the chunks that have not been freed are the domain of \<open>cm_chunks\<close>, and to use any other
  is an error. Memory comes from an allocator that is a parameter: the block with number \<open>n\<close> may
  be refused, and its first content is arbitrary.
\<close>

section \<open>Chunks\<close>

definition CHUNK_HEAD :: nat where [mk_const]: "CHUNK_HEAD = 44"
definition UIO_MAXIOV :: nat where [mk_const]: "UIO_MAXIOV = 1024"

text \<open>\<open>CHUNK_HEAD\<close> is \<open>offsetof(struct chunk, data)\<close> on a 64-bit machine.\<close>

definition CHUNK_SIZE :: "nat \<Rightarrow> nat" where "CHUNK_SIZE n = n - CHUNK_HEAD"
definition SIZE_CHUNK :: "nat \<Rightarrow> nat" where "SIZE_CHUNK n = n + CHUNK_HEAD"

type_synonym alloc = "nat \<Rightarrow> (nat \<Rightarrow> char) option"

record chunk =
  ck_read :: nat
  ck_write :: nat
  ck_size :: nat
  ck_refs :: int
  ck_data :: cstr

record chunk_ptr =
  cp_parent :: "nat option"
  cp_len :: nat
  cp_data :: nat

text \<open>
  The memory of the plugin: the chunks and the other blocks it has allocated, the list of chunks,
  and the number of the next block.
\<close>

record chunk_mem =
  cm_chunks :: "nat \<rightharpoonup> chunk"
  cm_bufs :: "nat \<rightharpoonup> cstr"
  cm_list :: "nat list"
  cm_next :: nat

definition chunk_at :: "chunk_mem \<Rightarrow> nat \<Rightarrow> cerr + chunk" where
  "chunk_at cm c = (case cm_chunks cm c of None \<Rightarrow> Inl UseAfterFree | Some ck \<Rightarrow> Inr ck)"

definition set_chunk :: "nat \<Rightarrow> chunk \<Rightarrow> chunk_mem \<Rightarrow> chunk_mem" where
  "set_chunk c ck cm = cm\<lparr>cm_chunks := (cm_chunks cm)(c \<mapsto> ck)\<rparr>"

definition chunk_new :: "alloc \<Rightarrow> nat \<Rightarrow> chunk_mem \<Rightarrow> nat option \<times> chunk_mem" where
  "chunk_new al n cm =
     (let c = cm_next cm; cm' = cm\<lparr>cm_next := c + 1\<rparr> in
      case al c of
        None \<Rightarrow> (None, cm')
      | Some fill \<Rightarrow>
          (Some c, set_chunk c \<lparr>ck_read = 0, ck_write = 0, ck_size = CHUNK_SIZE n, ck_refs = 0,
                                ck_data = map fill [0..<CHUNK_SIZE n]\<rparr> cm'))"

definition chunk_read_ptr :: "nat \<Rightarrow> chunk \<Rightarrow> chunk_ptr" where
  "chunk_read_ptr c ck = \<lparr>cp_parent = Some c, cp_len = ck_write ck - ck_read ck, cp_data = ck_read ck\<rparr>"

definition chunk_write_ptr :: "nat \<Rightarrow> chunk \<Rightarrow> chunk_ptr" where
  "chunk_write_ptr c ck = \<lparr>cp_parent = Some c, cp_len = ck_size ck - ck_write ck, cp_data = ck_write ck\<rparr>"

definition chunk_set_read_ptr :: "nat \<Rightarrow> chunk_ptr \<Rightarrow> chunk_mem \<Rightarrow> cerr + int \<times> chunk_mem" where
  "chunk_set_read_ptr c read cm =
     bindE (chunk_at cm c) (\<lambda>ck.
       if cp_parent read \<noteq> Some c \<or> ck_size ck < cp_data read then Inr (-1, cm)
       else Inr (0, set_chunk c (ck\<lparr>ck_read := cp_data read\<rparr>) cm))"

definition chunk_set_write_ptr :: "nat \<Rightarrow> chunk_ptr \<Rightarrow> chunk_mem \<Rightarrow> cerr + int \<times> chunk_mem" where
  "chunk_set_write_ptr c write cm =
     bindE (chunk_at cm c) (\<lambda>ck.
       if cp_parent write \<noteq> Some c \<or> ck_size ck < cp_data write then Inr (-1, cm)
       else Inr (0, set_chunk c (ck\<lparr>ck_write := cp_data write\<rparr>) cm))"

definition chunk_free :: "nat \<Rightarrow> chunk_mem \<Rightarrow> cerr + chunk_mem" where
  "chunk_free c cm =
     bindE (chunk_at cm c) (\<lambda>_.
       Inr (cm\<lparr>cm_chunks := (cm_chunks cm)(c := None), cm_list := removeAll c (cm_list cm)\<rparr>))"

definition chunk_retain :: "nat \<Rightarrow> chunk_mem \<Rightarrow> cerr + chunk_mem" where
  "chunk_retain c cm = bindE (chunk_at cm c) (\<lambda>ck. Inr (set_chunk c (ck\<lparr>ck_refs := ck_refs ck + 1\<rparr>) cm))"

definition chunk_release :: "nat \<Rightarrow> chunk_mem \<Rightarrow> cerr + int \<times> chunk_mem" where
  "chunk_release c cm =
     bindE (chunk_at cm c) (\<lambda>ck.
       let cm' = set_chunk c (ck\<lparr>ck_refs := ck_refs ck - 1\<rparr>) cm in
       if 0 < ck_refs ck - 1 then Inr (0, cm')
       else bindE (chunk_free c cm') (\<lambda>cm''. Inr (1, cm'')))"

definition chunk_list_init :: "chunk_mem \<Rightarrow> chunk_mem" where
  "chunk_list_init cm = cm\<lparr>cm_list := []\<rparr>"

definition chunk_list_current :: "chunk_mem \<Rightarrow> nat option" where
  "chunk_list_current cm = (if cm_list cm = [] then None else Some (last (cm_list cm)))"

definition chunk_list_add :: "nat \<Rightarrow> chunk_mem \<Rightarrow> chunk_mem" where
  "chunk_list_add c cm = cm\<lparr>cm_list := cm_list cm @ [c]\<rparr>"

fun free_chunks :: "nat list \<Rightarrow> chunk_mem \<Rightarrow> cerr + chunk_mem" where
  "free_chunks [] cm = Inr cm"
| "free_chunks (c # cs) cm = bindE (chunk_free c cm) (free_chunks cs)"

definition chunk_list_free_chunks :: "chunk_mem \<Rightarrow> cerr + chunk_mem" where
  "chunk_list_free_chunks cm = (if cm_list cm = [] then Inr cm else free_chunks (cm_list cm) cm)"

section \<open>I/O vectors\<close>

text \<open>
  What an entry points to: nothing, a place in a chunk, a place in a block of the plugin, or memory
  of the client session, which is represented by its bytes. Of the two arrays only the entries below
  \<open>index\<close> are kept, each with the reference it holds.
\<close>

datatype base = BNull | BChunk nat nat | BBuf nat nat | BExt cstr

datatype chunk_ref = CHUNK_REF_NULL | CHUNK_REF_CHUNK nat | CHUNK_REF_UINT8 nat

record iov_entry =
  ie_ref :: chunk_ref
  ie_base :: base
  ie_len :: nat

record chunk_iov =
  ci_size :: nat
  ci_alloc :: bool
  ci_io :: "iov_entry list"

definition ci_index :: "chunk_iov \<Rightarrow> nat" where
  "ci_index iov = length (ci_io iov)"

text \<open>Two blocks are allocated for a vector; the model keeps their content in the vector itself.\<close>

definition alloc_ok :: "alloc \<Rightarrow> chunk_mem \<Rightarrow> bool \<times> chunk_mem" where
  "alloc_ok al cm = (al (cm_next cm) \<noteq> None, cm\<lparr>cm_next := cm_next cm + 1\<rparr>)"

definition empty_iov :: chunk_iov where
  "empty_iov = \<lparr>ci_size = 0, ci_alloc = False, ci_io = []\<rparr>"

definition chunk_iov_init :: "alloc \<Rightarrow> nat \<Rightarrow> chunk_iov \<Rightarrow> chunk_mem \<Rightarrow> int \<times> chunk_iov \<times> chunk_mem" where
  "chunk_iov_init al n iov cm =
     (if UIO_MAXIOV < n then (-1, iov, cm)
      else
        let (ok1, cm1) = alloc_ok al cm in
        if \<not> ok1 then (-1, iov\<lparr>ci_alloc := False\<rparr>, cm1)
        else
          let (ok2, cm2) = alloc_ok al cm1 in
          if \<not> ok2 then (-1, iov\<lparr>ci_alloc := False\<rparr>, cm2)
          else (0, \<lparr>ci_size = n, ci_alloc = True, ci_io = []\<rparr>, cm2))"

definition chunk_iov_resize :: "alloc \<Rightarrow> nat \<Rightarrow> chunk_iov \<Rightarrow> chunk_mem \<Rightarrow> int \<times> chunk_iov \<times> chunk_mem" where
  "chunk_iov_resize al n iov cm =
     (if \<not> ci_alloc iov \<or> UIO_MAXIOV < n then (-1, iov, cm)
      else
        let (ok1, cm1) = alloc_ok al cm in
        if \<not> ok1 then (-1, iov, cm1)
        else
          let (ok2, cm2) = alloc_ok al cm1 in
          if \<not> ok2 then (-1, iov, cm2) else (0, iov\<lparr>ci_size := n\<rparr>, cm2))"

definition chunk_iov_length :: "chunk_iov \<Rightarrow> nat" where
  "chunk_iov_length iov = sum_list (map ie_len (ci_io iov))"

fun base_add :: "base \<Rightarrow> nat \<Rightarrow> base" where
  "base_add BNull n = BNull"
| "base_add (BChunk c off) n = BChunk c (off + n)"
| "base_add (BBuf b off) n = BBuf b (off + n)"
| "base_add (BExt s) n = BExt (drop n s)"

text \<open>The entries behind \<open>index\<close> hold no defined values: to come there would be an error.\<close>

fun iov_drop_loop :: "nat \<Rightarrow> iov_entry list \<Rightarrow> cerr + iov_entry list" where
  "iov_drop_loop bytes [] = (if bytes = 0 then Inr [] else Inl OutOfBounds)"
| "iov_drop_loop bytes (io # ios) =
     (if bytes = 0 then Inr (io # ios)
      else if ie_len io < bytes
      then bindE (iov_drop_loop (bytes - ie_len io) ios) (\<lambda>ios'. Inr (io\<lparr>ie_len := 0, ie_base := BNull\<rparr> # ios'))
      else Inr (io\<lparr>ie_len := ie_len io - bytes, ie_base := base_add (ie_base io) bytes\<rparr> # ios))"

definition chunk_iov_drop :: "nat \<Rightarrow> chunk_iov \<Rightarrow> cerr + int \<times> chunk_iov" where
  "chunk_iov_drop bytes iov =
     (if \<not> 0 < bytes \<or> chunk_iov_length iov < bytes then Inr (-1, iov)
      else bindE (iov_drop_loop bytes (ci_io iov)) (\<lambda>ios. Inr (0, iov\<lparr>ci_io := ios\<rparr>)))"

definition chunk_iov_add :: "chunk_ptr \<Rightarrow> chunk_iov \<Rightarrow> chunk_mem \<Rightarrow> cerr + int \<times> chunk_iov \<times> chunk_mem" where
  "chunk_iov_add cp iov cm =
     (if \<not> ci_index iov < ci_size iov \<or> \<not> 0 < cp_len cp then Inr (-1, iov, cm)
      else
        case cp_parent cp of
          None \<Rightarrow> Inl NullDeref
        | Some c \<Rightarrow>
            bindE (chunk_retain c cm) (\<lambda>cm'.
              Inr (0, iov\<lparr>ci_io := ci_io iov @ [\<lparr>ie_ref = CHUNK_REF_CHUNK c, ie_base = BChunk c (cp_data cp),
                                                 ie_len = cp_len cp\<rparr>]\<rparr>, cm')))"

text \<open>The pointer is a block of the plugin, freed with the entry when \<open>do_free\<close> is set, or other memory.\<close>

definition chunk_iov_add_ptr :: "base \<Rightarrow> nat \<Rightarrow> bool \<Rightarrow> chunk_iov \<Rightarrow> int \<times> chunk_iov" where
  "chunk_iov_add_ptr ptr len do_free iov =
     (if \<not> ci_index iov < ci_size iov \<or> \<not> 0 < len then (-1, iov)
      else (0, iov\<lparr>ci_io := ci_io iov @
             [\<lparr>ie_ref = (if do_free then (case ptr of BBuf b off \<Rightarrow> CHUNK_REF_UINT8 b | _ \<Rightarrow> CHUNK_REF_NULL)
                         else CHUNK_REF_NULL),
               ie_base = ptr, ie_len = len\<rparr>]\<rparr>))"

definition free_ref :: "chunk_ref \<Rightarrow> chunk_mem \<Rightarrow> cerr + chunk_mem" where
  "free_ref cr cm =
     (case cr of
        CHUNK_REF_NULL \<Rightarrow> Inr cm
      | CHUNK_REF_CHUNK c \<Rightarrow> bindE (chunk_release c cm) (\<lambda>(_, cm'). Inr cm')
      | CHUNK_REF_UINT8 b \<Rightarrow>
          (if cm_bufs cm b = None then Inl UseAfterFree else Inr (cm\<lparr>cm_bufs := (cm_bufs cm)(b := None)\<rparr>)))"

fun chunk_iov_free_refs :: "iov_entry list \<Rightarrow> chunk_mem \<Rightarrow> cerr + chunk_mem" where
  "chunk_iov_free_refs [] cm = Inr cm"
| "chunk_iov_free_refs (e # es) cm = bindE (free_ref (ie_ref e) cm) (chunk_iov_free_refs es)"

definition chunk_iov_reset :: "chunk_iov \<Rightarrow> chunk_mem \<Rightarrow> cerr + chunk_iov \<times> chunk_mem" where
  "chunk_iov_reset iov cm = bindE (chunk_iov_free_refs (ci_io iov) cm) (\<lambda>cm'. Inr (iov\<lparr>ci_io := []\<rparr>, cm'))"

definition chunk_iov_free :: "chunk_iov \<Rightarrow> chunk_mem \<Rightarrow> cerr + chunk_iov \<times> chunk_mem" where
  "chunk_iov_free iov cm = bindE (chunk_iov_free_refs (ci_io iov) cm) (\<lambda>cm'. Inr (empty_iov, cm'))"

section \<open>What a vector sends\<close>

text \<open>
  \<open>writev\<close> sends the bytes the entries point to; a read of freed memory or behind the end of a block
  is an error.
\<close>

definition base_bytes :: "chunk_mem \<Rightarrow> base \<Rightarrow> nat \<Rightarrow> cerr + cstr" where
  "base_bytes cm b len =
     (if len = 0 then Inr []
      else case b of
        BNull \<Rightarrow> Inl NullDeref
      | BChunk c off \<Rightarrow>
          bindE (chunk_at cm c) (\<lambda>ck. if ck_size ck < off + len then Inl OutOfBounds else Inr (take len (drop off (ck_data ck))))
      | BBuf b off \<Rightarrow>
          (case cm_bufs cm b of
             None \<Rightarrow> Inl UseAfterFree
           | Some d \<Rightarrow> if length d < off + len then Inl OutOfBounds else Inr (take len (drop off d)))
      | BExt s \<Rightarrow> if length s < len then Inl OutOfBounds else Inr (take len s))"

fun entries_bytes :: "chunk_mem \<Rightarrow> iov_entry list \<Rightarrow> cerr + cstr" where
  "entries_bytes cm [] = Inr []"
| "entries_bytes cm (e # es) =
     bindE (base_bytes cm (ie_base e) (ie_len e)) (\<lambda>bs. bindE (entries_bytes cm es) (\<lambda>rest. Inr (bs @ rest)))"

definition iov_bytes :: "chunk_mem \<Rightarrow> chunk_iov \<Rightarrow> cerr + cstr" where
  "iov_bytes cm iov = entries_bytes cm (ci_io iov)"

text \<open>
  \<open>chunk_iov_sendv\<close>: an empty vector sends nothing; otherwise the kernel takes a prefix of the bytes
  (\<open>Some n\<close>, at most all of them) or reports an error (\<open>None\<close>). The result is the return value and
  the bytes that were sent.
\<close>

definition chunk_iov_sendv :: "nat option \<Rightarrow> chunk_mem \<Rightarrow> chunk_iov \<Rightarrow> cerr + int \<times> cstr" where
  "chunk_iov_sendv answer cm iov =
     (if \<not> 0 < ci_index iov then Inr (0, [])
      else bindE (iov_bytes cm iov) (\<lambda>bs.
        case answer of
          None \<Rightarrow> Inr (-1, [])
        | Some n \<Rightarrow> Inr (int (min n (length bs)), take (min n (length bs)) bs)))"

section \<open>Dropping sent bytes\<close>

lemma base_bytes_Inr_length: "base_bytes cm b len = Inr bs \<Longrightarrow> length bs = len \<or> (\<exists>c off ck. b = BChunk c off \<and> cm_chunks cm c = Some ck \<and> length (ck_data ck) \<noteq> ck_size ck)"
  by (auto simp: base_bytes_def bindE_Inr_iff chunk_at_def split: if_splits base.splits option.splits)

definition mem_ok :: "chunk_mem \<Rightarrow> bool" where
  "mem_ok cm \<longleftrightarrow>
     (\<forall>c ck. cm_chunks cm c = Some ck \<longrightarrow>
        c < cm_next cm \<and> length (ck_data ck) = ck_size ck \<and> ck_read ck \<le> ck_write ck \<and> ck_write ck \<le> ck_size ck)
     \<and> (\<forall>b. cm_bufs cm b \<noteq> None \<longrightarrow> b < cm_next cm)"

lemma base_bytes_length: "mem_ok cm \<Longrightarrow> base_bytes cm b len = Inr bs \<Longrightarrow> length bs = len"
  using base_bytes_Inr_length by (fastforce simp: mem_ok_def)

lemma base_bytes_drop:
  assumes "mem_ok cm" "base_bytes cm b len = Inr bs" "n \<le> len"
  shows "base_bytes cm (base_add b n) (len - n) = Inr (drop n bs)"
proof (cases "len - n = 0")
  case True
  with assms base_bytes_length [OF assms(1,2)] show ?thesis by (simp add: base_bytes_def)
next
  case False
  with assms(2,3) show ?thesis
    by (cases b) (auto simp: base_bytes_def bindE_Inr_iff drop_take chunk_at_def add.commute split: if_splits option.splits)
qed

lemma iov_drop_loop_bytes:
  assumes "mem_ok cm" "entries_bytes cm es = Inr bs" "n \<le> sum_list (map ie_len es)"
  shows "\<exists>es'. iov_drop_loop n es = Inr es' \<and> entries_bytes cm es' = Inr (drop n bs)
           \<and> map ie_ref es' = map ie_ref es"
  using assms(2,3)
proof (induction n es arbitrary: bs rule: iov_drop_loop.induct)
  case (2 bytes io ios)
  from 2(2) obtain b1 b2 where b: "base_bytes cm (ie_base io) (ie_len io) = Inr b1" "entries_bytes cm ios = Inr b2" "bs = b1 @ b2"
    by (auto simp: bindE_Inr_iff)
  have l: "length b1 = ie_len io" by (rule base_bytes_length [OF assms(1) b(1)])
  show ?case
  proof (cases "bytes = 0")
    case True
    with 2(2) show ?thesis by simp
  next
    case nz: False
    show ?thesis
    proof (cases "ie_len io < bytes")
      case True
      have "bytes - ie_len io \<le> sum_list (map ie_len ios)" using 2(3) by simp
      from 2(1) [OF nz True b(2) this] obtain es' where
        "iov_drop_loop (bytes - ie_len io) ios = Inr es'" "entries_bytes cm es' = Inr (drop (bytes - ie_len io) b2)"
        "map ie_ref es' = map ie_ref ios" by blast
      with nz True l b(3) show ?thesis by (auto simp: base_bytes_def)
    next
      case False
      with base_bytes_drop [OF assms(1) b(1), of bytes] b nz l show ?thesis by auto
    qed
  qed
qed simp

text \<open>Dropping what a partial write has sent leaves the rest of the bytes to send, and the references.\<close>

lemma chunk_iov_drop_bytes:
  assumes "mem_ok cm" "iov_bytes cm iov = Inr bs" "0 < n" "n \<le> length bs"
  shows "\<exists>iov'. chunk_iov_drop n iov = Inr (0, iov') \<and> iov_bytes cm iov' = Inr (drop n bs)
           \<and> map ie_ref (ci_io iov') = map ie_ref (ci_io iov)"
proof -
  have "length bs = sum_list (map ie_len es)" if "entries_bytes cm es = Inr bs" for es bs
    using that
  proof (induction es arbitrary: bs)
    case (Cons e es)
    then show ?case using base_bytes_length [OF assms(1)] by (auto simp: bindE_Inr_iff)
  qed simp
  with assms iov_drop_loop_bytes [OF assms(1), of "ci_io iov" bs n] show ?thesis
    by (auto simp: iov_bytes_def chunk_iov_drop_def chunk_iov_length_def)
qed

section \<open>References\<close>

text \<open>
  The memory agrees with the multiset of references held on it: the counter of a chunk is the number
  of references, every reference is on memory that is not freed, and a block of another kind has at
  most one reference. The list holds live chunks, each once.
\<close>

definition counted :: "chunk_mem \<Rightarrow> chunk_ref multiset \<Rightarrow> bool" where
  "counted cm R \<longleftrightarrow>
     mem_ok cm \<and> distinct (cm_list cm) \<and> set (cm_list cm) \<subseteq> dom (cm_chunks cm)
     \<and> (\<forall>c ck. cm_chunks cm c = Some ck \<longrightarrow> ck_refs ck = int (count R (CHUNK_REF_CHUNK c)))
     \<and> (\<forall>c. CHUNK_REF_CHUNK c \<in># R \<longrightarrow> c \<in> dom (cm_chunks cm))
     \<and> (\<forall>b. count R (CHUNK_REF_UINT8 b) \<le> 1)
     \<and> (\<forall>b. CHUNK_REF_UINT8 b \<in># R \<longrightarrow> b \<in> dom (cm_bufs cm))"

text \<open>What taking and releasing references may change: counters, and memory is freed.\<close>

definition unrefs :: "chunk_mem \<Rightarrow> chunk_mem \<Rightarrow> bool" where
  "unrefs cm cm' \<longleftrightarrow>
     cm_next cm' = cm_next cm \<and> cm_bufs cm' \<subseteq>\<^sub>m cm_bufs cm
     \<and> (\<forall>c ck'. cm_chunks cm' c = Some ck' \<longrightarrow> (\<exists>ck n. cm_chunks cm c = Some ck \<and> ck' = ck\<lparr>ck_refs := n\<rparr>))"

lemma unrefs_refl: "unrefs cm cm"
proof -
  have "\<exists>ck n. cm_chunks cm c = Some ck \<and> ck' = ck\<lparr>ck_refs := n\<rparr>" if "cm_chunks cm c = Some ck'" for c ck'
    using that by (intro exI [of _ ck'] exI [of _ "ck_refs ck'"]) simp
  then show ?thesis by (simp add: unrefs_def)
qed

lemma unrefs_trans:
  assumes "unrefs x y" "unrefs y z"
  shows "unrefs x z"
proof -
  have "\<exists>ck n. cm_chunks x c = Some ck \<and> ck2 = ck\<lparr>ck_refs := n\<rparr>" if "cm_chunks z c = Some ck2" for c ck2
  proof -
    obtain ck1 n where 1: "cm_chunks y c = Some ck1" "ck2 = ck1\<lparr>ck_refs := n\<rparr>"
      using assms(2) \<open>cm_chunks z c = Some ck2\<close> unfolding unrefs_def by blast
    then obtain ck m where "cm_chunks x c = Some ck" "ck1 = ck\<lparr>ck_refs := m\<rparr>" using assms(1) unfolding unrefs_def by blast
    with 1 show ?thesis by (intro exI [of _ ck] exI [of _ n]) simp
  qed
  moreover have "cm_bufs z \<subseteq>\<^sub>m cm_bufs x" using assms map_le_trans by (auto simp: unrefs_def)
  ultimately show ?thesis using assms by (simp add: unrefs_def)
qed

lemma counted_D:
  assumes "counted cm R"
  shows "mem_ok cm" "distinct (cm_list cm)" "set (cm_list cm) \<subseteq> dom (cm_chunks cm)"
    "cm_chunks cm c = Some ck \<Longrightarrow> ck_refs ck = int (count R (CHUNK_REF_CHUNK c))"
    "CHUNK_REF_CHUNK c \<in># R \<Longrightarrow> \<exists>ck. cm_chunks cm c = Some ck"
    "count R (CHUNK_REF_UINT8 b) \<le> 1" "CHUNK_REF_UINT8 b \<in># R \<Longrightarrow> \<exists>d. cm_bufs cm b = Some d"
  using assms by (auto simp: counted_def)

lemma chunk_retain_counted:
  assumes "counted cm R" "cm_chunks cm c = Some ck"
  shows "chunk_retain c cm = Inr (set_chunk c (ck\<lparr>ck_refs := ck_refs ck + 1\<rparr>) cm)
           \<and> counted (set_chunk c (ck\<lparr>ck_refs := ck_refs ck + 1\<rparr>) cm) (add_mset (CHUNK_REF_CHUNK c) R)"
proof -
  have "mem_ok (set_chunk c (ck\<lparr>ck_refs := ck_refs ck + 1\<rparr>) cm)"
    using assms counted_D(1) [OF assms(1)] by (auto simp: mem_ok_def set_chunk_def)
  then show ?thesis using assms by (auto simp: counted_def chunk_retain_def chunk_at_def set_chunk_def)
qed

lemma chunk_release_counted:
  assumes "counted cm (add_mset (CHUNK_REF_CHUNK c) R)"
  shows "\<exists>ret cm'. chunk_release c cm = Inr (ret, cm') \<and> counted cm' R \<and> unrefs cm cm'"
proof -
  obtain ck where ck: "cm_chunks cm c = Some ck" using counted_D(5) [OF assms] by fastforce
  have refs: "ck_refs ck = int (count R (CHUNK_REF_CHUNK c)) + 1" using counted_D(4) [OF assms ck] by simp
  let ?ck = "ck\<lparr>ck_refs := ck_refs ck - 1\<rparr>"
  have ok: "mem_ok cm" by (rule counted_D(1) [OF assms])
  show ?thesis
  proof (cases "CHUNK_REF_CHUNK c \<in># R")
    case True
    then have "0 < ck_refs ck - 1" using refs by simp
    moreover have "mem_ok (set_chunk c ?ck cm)" using ok ck by (auto simp: mem_ok_def set_chunk_def)
    moreover have "counted (set_chunk c ?ck cm) R"
      using assms ck refs calculation(2) by (auto simp: counted_def set_chunk_def split: if_splits)
    moreover have "unrefs cm (set_chunk c ?ck cm)"
      using unrefs_refl [of cm] ck by (auto simp: unrefs_def set_chunk_def)
    ultimately show ?thesis using ck by (auto simp: chunk_release_def chunk_at_def)
  next
    case False
    then have z: "count R (CHUNK_REF_CHUNK c) = 0" by (simp add: not_in_iff)
    let ?cm = "cm\<lparr>cm_chunks := (cm_chunks cm)(c := None), cm_list := removeAll c (cm_list cm)\<rparr>"
    have "chunk_release c cm = Inr (1, ?cm)"
      using ck refs z by (simp add: chunk_release_def chunk_at_def chunk_free_def set_chunk_def)
    moreover have "mem_ok ?cm" using ok by (auto simp: mem_ok_def split: if_splits)
    moreover have "counted ?cm R"
    proof -
      have "distinct (removeAll c (cm_list cm))" using counted_D(2) [OF assms] by (simp add: distinct_removeAll)
      moreover have "set (removeAll c (cm_list cm)) \<subseteq> dom ((cm_chunks cm)(c := None))"
        using counted_D(3) [OF assms] by auto
      moreover have "d \<noteq> c" if "CHUNK_REF_CHUNK d \<in># R" for d using that False by blast
      ultimately show ?thesis using assms \<open>mem_ok ?cm\<close> by (auto simp: counted_def split: if_splits)
    qed
    moreover have "unrefs cm ?cm" using unrefs_refl [of cm] by (auto simp: unrefs_def)
    ultimately show ?thesis by blast
  qed
qed

lemma free_ref_counted:
  assumes "counted cm (add_mset cr R)"
  shows "\<exists>cm'. free_ref cr cm = Inr cm' \<and> counted cm' R \<and> unrefs cm cm'"
proof (cases cr)
  case CHUNK_REF_NULL
  with assms show ?thesis using unrefs_refl [of cm] by (auto simp: free_ref_def counted_def)
next
  case (CHUNK_REF_CHUNK c)
  with chunk_release_counted [of cm c R] assms show ?thesis by (fastforce simp: free_ref_def)
next
  case (CHUNK_REF_UINT8 b)
  obtain d where d: "cm_bufs cm b = Some d" using counted_D(7) [OF assms, of b] CHUNK_REF_UINT8 by auto
  have notin: "CHUNK_REF_UINT8 b \<notin># R" using counted_D(6) [OF assms, of b] CHUNK_REF_UINT8 by (simp add: not_in_iff)
  let ?cm = "cm\<lparr>cm_bufs := (cm_bufs cm)(b := None)\<rparr>"
  have "mem_ok ?cm" using counted_D(1) [OF assms] by (auto simp: mem_ok_def split: if_splits)
  moreover have "counted ?cm R"
  proof -
    have "a \<noteq> b" if "CHUNK_REF_UINT8 a \<in># R" for a using that notin by blast
    moreover have "count R (CHUNK_REF_UINT8 a) \<le> 1" for a using counted_D(6) [OF assms, of a] CHUNK_REF_UINT8 by (auto split: if_splits)
    ultimately show ?thesis using assms \<open>mem_ok ?cm\<close> CHUNK_REF_UINT8 by (auto simp: counted_def)
  qed
  moreover have "unrefs cm ?cm" using unrefs_refl [of cm] by (auto simp: unrefs_def map_le_def)
  ultimately show ?thesis using d CHUNK_REF_UINT8 by (auto simp: free_ref_def)
qed

lemma chunk_iov_free_refs_counted:
  "counted cm (mset (map ie_ref es) + R) \<Longrightarrow>
     \<exists>cm'. chunk_iov_free_refs es cm = Inr cm' \<and> counted cm' R \<and> unrefs cm cm'"
proof (induction es arbitrary: cm)
  case Nil
  then show ?case using unrefs_refl by auto
next
  case (Cons e es)
  obtain cm1 where 1: "free_ref (ie_ref e) cm = Inr cm1" "counted cm1 (mset (map ie_ref es) + R)" "unrefs cm cm1"
    using free_ref_counted [of cm "ie_ref e" "mset (map ie_ref es) + R"] Cons.prems by auto
  obtain cm2 where "chunk_iov_free_refs es cm1 = Inr cm2" "counted cm2 R" "unrefs cm1 cm2"
    using Cons.IH [OF 1(2)] by blast
  with 1 unrefs_trans show ?case by auto
qed

lemma chunk_iov_add_counted:
  assumes "counted cm (mset (map ie_ref (ci_io iov)) + R)" "cp_parent cp = Some c" "cm_chunks cm c = Some ck"
  shows "\<exists>ret iov' cm'. chunk_iov_add cp iov cm = Inr (ret, iov', cm')
           \<and> counted cm' (mset (map ie_ref (ci_io iov')) + R) \<and> unrefs cm cm' \<and> dom (cm_chunks cm') = dom (cm_chunks cm)"
proof (cases "ci_index iov < ci_size iov \<and> 0 < cp_len cp")
  case True
  have "unrefs cm (set_chunk c (ck\<lparr>ck_refs := ck_refs ck + 1\<rparr>) cm)"
    using unrefs_refl [of cm] assms(3) by (auto simp: unrefs_def set_chunk_def)
  with True chunk_retain_counted [OF assms(1,3)] assms(2,3) show ?thesis
    by (auto simp: chunk_iov_add_def set_chunk_def)
next
  case False
  with assms(1) show ?thesis using unrefs_refl by (auto simp: chunk_iov_add_def)
qed

text \<open>A change of the content of a chunk.\<close>

definition chunk_ok :: "chunk \<Rightarrow> bool" where
  "chunk_ok ck \<longleftrightarrow> length (ck_data ck) = ck_size ck \<and> ck_read ck \<le> ck_write ck \<and> ck_write ck \<le> ck_size ck"

lemma counted_chunk_ok: "counted cm R \<Longrightarrow> cm_chunks cm c = Some ck \<Longrightarrow> chunk_ok ck"
  using counted_D(1) by (auto simp: mem_ok_def chunk_ok_def)

lemma counted_set_chunk:
  assumes "counted cm R" "cm_chunks cm c = Some ck" "chunk_ok ck'" "ck_refs ck' = ck_refs ck"
  shows "counted (set_chunk c ck' cm) R"
proof -
  have "mem_ok (set_chunk c ck' cm)"
    using counted_D(1) [OF assms(1)] assms(2,3) by (auto simp: mem_ok_def set_chunk_def chunk_ok_def)
  with assms show ?thesis by (auto simp: counted_def set_chunk_def)
qed

section \<open>Sending\<close>

text \<open>What an entry points to is held by a reference of the same vector.\<close>

definition base_ok :: "chunk_ref set \<Rightarrow> base \<Rightarrow> bool" where
  "base_ok R b \<longleftrightarrow>
     (case b of BChunk c off \<Rightarrow> CHUNK_REF_CHUNK c \<in> R | BBuf a off \<Rightarrow> CHUNK_REF_UINT8 a \<in> R | _ \<Rightarrow> True)"

definition iov_ok :: "chunk_iov \<Rightarrow> bool" where
  "iov_ok iov \<longleftrightarrow> (\<forall>e\<in>set (ci_io iov). base_ok (ie_ref ` set (ci_io iov)) (ie_base e))"

lemma base_ok_mono: "base_ok R b \<Longrightarrow> R \<subseteq> S \<Longrightarrow> base_ok S b"
  by (auto simp: base_ok_def split: base.splits)

lemma base_ok_add: "base_ok R b \<Longrightarrow> base_ok R (base_add b n)"
  by (cases b) (auto simp: base_ok_def)

lemma iov_ok_snoc:
  assumes "iov_ok iov" "base_ok (insert (ie_ref e) (ie_ref ` set (ci_io iov))) (ie_base e)"
  shows "iov_ok (iov\<lparr>ci_io := ci_io iov @ [e]\<rparr>)"
  using assms base_ok_mono [of _ _ "insert (ie_ref e) (ie_ref ` set (ci_io iov))"] by (auto simp: iov_ok_def)

lemma iov_ok_simps [simp]:
  "iov_ok (iov\<lparr>ci_io := []\<rparr>)" "iov_ok empty_iov" "iov_ok (iov\<lparr>ci_size := n\<rparr>) = iov_ok iov"
  "iov_ok (iov\<lparr>ci_alloc := x\<rparr>) = iov_ok iov"
  by (simp_all add: iov_ok_def empty_iov_def)

lemma chunk_iov_add_iov_ok: "chunk_iov_add cp iov cm = Inr (ret, iov', cm') \<Longrightarrow> iov_ok iov \<Longrightarrow> iov_ok iov'"
  by (auto simp: chunk_iov_add_def bindE_Inr_iff base_ok_def split: if_splits option.splits intro!: iov_ok_snoc)

lemma iov_drop_loop_keeps:
  assumes "iov_drop_loop n es = Inr es'" "\<forall>e\<in>set es. base_ok R (ie_base e)"
  shows "map ie_ref es' = map ie_ref es \<and> (\<forall>e\<in>set es'. base_ok R (ie_base e))"
  using assms
proof (induction n es arbitrary: es' rule: iov_drop_loop.induct)
  case (2 bytes io ios)
  then show ?case
    by (auto simp: bindE_Inr_iff base_ok_add split: if_splits) (auto simp: base_ok_def)
qed (auto split: if_splits)

lemma chunk_iov_drop_keeps:
  assumes "chunk_iov_drop n iov = Inr (ret, iov')"
  shows "map ie_ref (ci_io iov') = map ie_ref (ci_io iov)" "iov_ok iov \<Longrightarrow> iov_ok iov'"
proof -
  have k: "map ie_ref (ci_io iov') = map ie_ref (ci_io iov)
      \<and> ((\<forall>e\<in>set (ci_io iov). base_ok R (ie_base e)) \<longrightarrow> (\<forall>e\<in>set (ci_io iov'). base_ok R (ie_base e)))" for R
  proof (cases "\<not> 0 < n \<or> chunk_iov_length iov < n")
    case True
    with assms show ?thesis by (auto simp: chunk_iov_drop_def)
  next
    case False
    then obtain es where es: "iov_drop_loop n (ci_io iov) = Inr es" "iov' = iov\<lparr>ci_io := es\<rparr>"
      using assms by (auto simp: chunk_iov_drop_def bindE_Inr_iff)
    have "map ie_ref es = map ie_ref (ci_io iov)" using iov_drop_loop_keeps [OF es(1), of UNIV] by (simp add: base_ok_def split: base.split)
    with es iov_drop_loop_keeps [OF es(1), of R] show ?thesis by simp
  qed
  show r: "map ie_ref (ci_io iov') = map ie_ref (ci_io iov)" using k by blast
  have "ie_ref ` set (ci_io iov') = ie_ref ` set (ci_io iov)" using r by (metis set_map)
  with k show "iov_ok iov \<Longrightarrow> iov_ok iov'" by (auto simp: iov_ok_def)
qed

text \<open>Access errors that are not about freed memory: behind the end of an object, or through a null pointer.\<close>

definition mild :: "cerr \<Rightarrow> bool" where
  "mild e \<longleftrightarrow> e = OutOfBounds \<or> e = NullDeref"

lemma chunk_iov_drop_mild: "chunk_iov_drop n iov = Inl e \<Longrightarrow> mild e"
proof -
  have "iov_drop_loop n es = Inl e \<Longrightarrow> mild e" for n es
    by (induction n es rule: iov_drop_loop.induct) (auto simp: mild_def bindE_def split: if_splits sum.splits)
  then show "chunk_iov_drop n iov = Inl e \<Longrightarrow> mild e"
    by (auto simp: chunk_iov_drop_def bindE_def split: if_splits sum.splits)
qed

lemma base_bytes_mild:
  assumes "counted cm R" "base_ok (set_mset R) b" "base_bytes cm b n = Inl e"
  shows "mild e"
proof (cases b)
  case (BChunk c off)
  then obtain ck where "cm_chunks cm c = Some ck" using assms(2) counted_D(5) [OF assms(1)] by (auto simp: base_ok_def)
  with BChunk assms(3) show ?thesis by (auto simp: base_bytes_def chunk_at_def mild_def split: if_splits)
next
  case (BBuf a off)
  then obtain d where "cm_bufs cm a = Some d" using assms(2) counted_D(7) [OF assms(1)] by (auto simp: base_ok_def)
  with BBuf assms(3) show ?thesis by (auto simp: base_bytes_def mild_def split: if_splits)
qed (use assms(3) in \<open>auto simp: base_bytes_def mild_def split: if_splits\<close>)

lemma iov_bytes_mild:
  assumes "counted cm (mset (map ie_ref (ci_io iov)) + R)" "iov_ok iov" "iov_bytes cm iov = Inl e"
  shows "mild e"
proof -
  have "mild e" if "entries_bytes cm es = Inl e" "set es \<subseteq> set (ci_io iov)" for es
    using that
  proof (induction es)
    case (Cons a es)
    have "base_ok (set_mset (mset (map ie_ref (ci_io iov)) + R)) (ie_base a)"
      using assms(2) Cons.prems(2) base_ok_mono [of "ie_ref ` set (ci_io iov)" "ie_base a"] by (auto simp: iov_ok_def)
    with Cons base_bytes_mild [OF assms(1)] show ?case by (auto simp: bindE_def split: sum.splits)
  qed simp
  with assms(3) show ?thesis by (auto simp: iov_bytes_def)
qed

lemma chunk_iov_sendv_mild:
  assumes "counted cm (mset (map ie_ref (ci_io iov)) + R)" "iov_ok iov" "chunk_iov_sendv a cm iov = Inl e"
  shows "mild e"
  using assms(3) iov_bytes_mild [OF assms(1,2)] by (auto simp: chunk_iov_sendv_def bindE_def split: if_splits sum.splits option.splits)

end
