(* ===== verification/Fcgi_Request.thy ===== *)
theory Fcgi_Request
  imports Fcgi_Chunk Mk_Types
begin

text \<open>
  \<^verbatim>\<open>plugins/fastcgi/request.c\<close>: the requests of a worker thread that are handed to FastCGI servers.
  They live in an array whose size is a power of two; searches go around it like the hand of a
  clock. A pointer to a request is its index. The session of a request stands for the structure
  \<open>sr\<close> points to.
\<close>

section \<open>Requests\<close>

datatype request_state =
  REQ_AVAILABLE | REQ_ASSIGNED | REQ_SENT | REQ_STREAM_CLOSED | REQ_ENDED | REQ_FINISHED | REQ_FAILED

definition REQ_SLEEPING :: int where [mk_const]: "REQ_SLEEPING = 1"
definition REQ_HEADERS_SENT :: int where [mk_const]: "REQ_HEADERS_SENT = 2"

record request =
  rq_state :: request_state
  rq_flags :: int
  rq_fd :: int
  rq_fcgi_fd :: int
  rq_clock_id :: nat
  rq_cs :: "client_session option"
  rq_sr :: "session_request option"
  rq_iov :: chunk_iov

definition next_power_of_2 :: "16 word \<Rightarrow> 16 word" where
  "next_power_of_2 v =
     (let v0 = v - 1;
          v1 = v0 OR drop_bit 1 v0;
          v2 = v1 OR drop_bit 2 v1;
          v3 = v2 OR drop_bit 4 v2;
          v4 = v3 OR drop_bit 8 v3
      in v4 + 1)"

definition is_power_of_2 :: "16 word \<Rightarrow> bool" where
  "is_power_of_2 v \<longleftrightarrow> v \<noteq> 0 \<and> v AND (v - 1) = 0"

definition new_request :: request where
  "new_request = \<lparr>rq_state = REQ_AVAILABLE, rq_flags = 0, rq_fd = -1, rq_fcgi_fd = -1, rq_clock_id = 0,
                  rq_cs = None, rq_sr = None, rq_iov = empty_iov\<rparr>"

definition request_init :: "alloc \<Rightarrow> nat \<Rightarrow> chunk_mem \<Rightarrow> int \<times> request \<times> chunk_mem" where
  "request_init al iov_n cm =
     (let (ret, iov, cm') = chunk_iov_init al iov_n empty_iov cm in
      (if ret \<noteq> 0 then -1 else 0, new_request\<lparr>rq_iov := iov\<rparr>, cm'))"

definition request_reset :: "request \<Rightarrow> chunk_mem \<Rightarrow> cerr + request \<times> chunk_mem" where
  "request_reset req cm =
     bindE (chunk_iov_reset (rq_iov req) cm) (\<lambda>(iov, cm').
       Inr (req\<lparr>rq_state := REQ_AVAILABLE, rq_flags := 0, rq_fd := -1, rq_fcgi_fd := -1, rq_clock_id := 0,
                rq_iov := iov\<rparr>, cm'))"

text \<open>The transitions that are allowed; \<open>REQ_FAILED\<close> can be reached from every state.\<close>

definition state_step :: "request_state \<Rightarrow> request_state \<Rightarrow> bool" where
  "state_step old new \<longleftrightarrow>
     (case new of
        REQ_AVAILABLE \<Rightarrow> old = REQ_FINISHED
      | REQ_ASSIGNED \<Rightarrow> old = REQ_AVAILABLE \<or> old = REQ_FINISHED
      | REQ_SENT \<Rightarrow> old = REQ_ASSIGNED
      | REQ_STREAM_CLOSED \<Rightarrow> old = REQ_SENT
      | REQ_ENDED \<Rightarrow> old = REQ_STREAM_CLOSED \<or> old = REQ_FAILED \<or> old = REQ_SENT
      | REQ_FINISHED \<Rightarrow> old = REQ_ENDED
      | REQ_FAILED \<Rightarrow> True)"

definition request_set_state :: "request_state \<Rightarrow> request \<Rightarrow> chunk_mem \<Rightarrow> cerr + int \<times> request \<times> chunk_mem" where
  "request_set_state state req cm =
     (if \<not> state_step (rq_state req) state then Inr (-1, req, cm)
      else if state = REQ_AVAILABLE then bindE (request_reset req cm) (\<lambda>(req', cm'). Inr (0, req', cm'))
      else Inr (0, req\<lparr>rq_state := state\<rparr>, cm))"

definition request_get_flag :: "request \<Rightarrow> int \<Rightarrow> bool" where
  "request_get_flag req flag \<longleftrightarrow> rq_flags req AND flag \<noteq> 0"

definition request_set_flag :: "int \<Rightarrow> request \<Rightarrow> int \<times> request" where
  "request_set_flag flag req =
     (if request_get_flag req flag then (-1, req) else (0, req\<lparr>rq_flags := rq_flags req OR flag\<rparr>))"

definition request_unset_flag :: "int \<Rightarrow> request \<Rightarrow> int \<times> request" where
  "request_unset_flag flag req =
     (if \<not> request_get_flag req flag then (-1, req) else (0, req\<lparr>rq_flags := rq_flags req AND NOT flag\<rparr>))"

definition request_assign ::
  "int \<Rightarrow> nat \<Rightarrow> client_session \<Rightarrow> session_request \<Rightarrow> request \<Rightarrow> chunk_mem \<Rightarrow> cerr + int \<times> request \<times> chunk_mem" where
  "request_assign fd clock_id cs sr req cm =
     bindE (request_set_state REQ_ASSIGNED req cm) (\<lambda>(ret, req', cm').
       if ret \<noteq> 0 then Inr (-1, req', cm')
       else Inr (0, req'\<lparr>rq_fd := fd, rq_clock_id := clock_id, rq_cs := Some cs, rq_sr := Some sr\<rparr>, cm'))"

definition request_set_fcgi_fd :: "int \<Rightarrow> request \<Rightarrow> request" where
  "request_set_fcgi_fd fcgi_fd req = req\<lparr>rq_fcgi_fd := fcgi_fd\<rparr>"

definition request_recycle :: "request \<Rightarrow> chunk_mem \<Rightarrow> cerr + request \<times> chunk_mem" where
  "request_recycle req cm = request_reset req cm"

definition pkg_length :: "fcgi_header \<Rightarrow> nat" where
  "pkg_length h = FCGI_HEADER_LEN + unat (fh_body_len h) + unat (fh_body_pad h)"

definition request_add_pkg ::
  "alloc \<Rightarrow> fcgi_header \<Rightarrow> chunk_ptr \<Rightarrow> request \<Rightarrow> chunk_mem \<Rightarrow> cerr + int \<times> request \<times> chunk_mem" where
  "request_add_pkg al h cp req cm =
     (if cp_len cp < pkg_length h \<or> rq_state req \<noteq> REQ_SENT then Inr (-1, req, cm)
      else
        let cp' = cp\<lparr>cp_data := cp_data cp + FCGI_HEADER_LEN, cp_len := unat (fh_body_len h)\<rparr> in
        bindE (chunk_iov_add cp' (rq_iov req) cm) (\<lambda>(ret, iov, cm1).
          if ret = 0 then Inr (int (pkg_length h), req\<lparr>rq_iov := iov\<rparr>, cm1)
          else
            let (ret2, iov2, cm2) = chunk_iov_resize al (ci_size iov + 2) iov cm1 in
            if ret2 \<noteq> 0 then Inr (-1, req\<lparr>rq_iov := iov2\<rparr>, cm2)
            else bindE (chunk_iov_add cp' iov2 cm2) (\<lambda>(ret3, iov3, cm3).
              Inr (if ret3 = 0 then int (pkg_length h) else -1, req\<lparr>rq_iov := iov3\<rparr>, cm3))))"

definition request_free :: "request \<Rightarrow> chunk_mem \<Rightarrow> cerr + request \<times> chunk_mem" where
  "request_free req cm =
     bindE (request_reset req cm) (\<lambda>(req', cm').
       bindE (chunk_iov_free (rq_iov req') cm') (\<lambda>(iov, cm''). Inr (req'\<lparr>rq_iov := iov\<rparr>, cm'')))"

section \<open>Going around the clock\<close>

text \<open>
  \<open>do { i = (i + 1) & msk; ... } while (i != clock)\<close>. The index takes at most \<open>mask + 1\<close> values, so
  a loop that has not ended after \<open>mask + 2\<close> rounds never ends.
\<close>

fun clock_loop :: "nat \<Rightarrow> nat \<Rightarrow> nat \<Rightarrow> nat \<Rightarrow> (nat \<Rightarrow> 's \<Rightarrow> 'a option \<times> 's) \<Rightarrow> 's \<Rightarrow> cerr + 'a option \<times> 's" where
  "clock_loop 0 msk clock i body s = Inl Diverges"
| "clock_loop (Suc n) msk clock i body s =
     (let j = (i + 1) AND msk in
      case body j s of
        (Some r, s') \<Rightarrow> Inr (Some r, s')
      | (None, s') \<Rightarrow> if j \<noteq> clock then clock_loop n msk clock j body s' else Inr (None, s'))"

definition around :: "nat \<Rightarrow> nat \<Rightarrow> (nat \<Rightarrow> 's \<Rightarrow> 'a option \<times> 's) \<Rightarrow> 's \<Rightarrow> cerr + 'a option \<times> 's" where
  "around msk clock body s = clock_loop (msk + 2) msk clock clock body s"

section \<open>The cache\<close>

record req_cache_entry =
  ce_req :: "nat option"
  ce_fd :: int
  ce_fcgi_fd :: int
  ce_counter :: int

record request_cache =
  rc_entries :: "req_cache_entry list"
  rc_clock_hand :: nat
  rc_mask :: nat

definition REQ_CACHE_SIZE :: nat where [mk_const]: "REQ_CACHE_SIZE = 32"

text \<open>The field \<open>fcgi_fd\<close> of the entries is not initialised.\<close>

definition request_cache_init :: "request_cache \<Rightarrow> request_cache" where
  "request_cache_init cache =
     \<lparr>rc_entries = map (\<lambda>e. e\<lparr>ce_req := None, ce_fd := -1, ce_counter := 0\<rparr>) (rc_entries cache),
      rc_clock_hand = 0, rc_mask = REQ_CACHE_SIZE - 1\<rparr>"

text \<open>Every round looks at the entry with index 1.\<close>

definition request_cache_add :: "nat \<Rightarrow> request \<Rightarrow> request_cache \<Rightarrow> cerr + request_cache" where
  "request_cache_add r req cache =
     bindE (around (rc_mask cache) (rc_clock_hand cache) (\<lambda>i cache.
         let e = rc_entries cache ! 1 in
         if 0 < ce_counter e
         then (None, cache\<lparr>rc_entries := (rc_entries cache)[1 := e\<lparr>ce_counter := ce_counter e - 1\<rparr>]\<rparr>)
         else (Some (), cache\<lparr>rc_entries := (rc_entries cache)[1 := \<lparr>ce_req = Some r, ce_fd = rq_fd req,
                                ce_fcgi_fd = rq_fcgi_fd req, ce_counter = 1\<rparr>], rc_clock_hand := i\<rparr>)) cache)
       (\<lambda>(_, cache'). Inr cache')"

definition request_cache_hit :: "nat \<Rightarrow> request \<Rightarrow> request_cache \<Rightarrow> cerr + request_cache" where
  "request_cache_hit r req cache =
     bindE (around (rc_mask cache) (rc_clock_hand cache) (\<lambda>i cache.
         let e = rc_entries cache ! i in
         if ce_req e = Some r
         then (Some (), cache\<lparr>rc_entries := (rc_entries cache)[i := e\<lparr>ce_fd := rq_fd req, ce_fcgi_fd := rq_fcgi_fd req,
                                ce_counter := ce_counter e + 1\<rparr>]\<rparr>)
         else (None, cache)) cache)
       (\<lambda>(found, cache'). if found \<noteq> None then Inr cache' else request_cache_add r req cache')"

text \<open>
  The first entry with the descriptor: a hit when its request still has it, otherwise the entry is
  cleared. \<open>get\<close> and \<open>clear\<close> select the field of the entry, \<open>cur\<close> the one of the request.
\<close>

definition cache_lookup ::
  "(req_cache_entry \<Rightarrow> int) \<Rightarrow> (req_cache_entry \<Rightarrow> req_cache_entry) \<Rightarrow> (request \<Rightarrow> int)
     \<Rightarrow> request list \<Rightarrow> int \<Rightarrow> request_cache \<Rightarrow> cerr + nat option \<times> request_cache" where
  "cache_lookup get clear cur rs fd cache =
     bindE (around (rc_mask cache) (rc_clock_hand cache) (\<lambda>i cache.
         if get (rc_entries cache ! i) = fd then (Some i, cache) else (None, cache)) cache)
       (\<lambda>(found, cache').
         case found of
           None \<Rightarrow> Inr (None, cache')
         | Some i \<Rightarrow>
             let e = rc_entries cache' ! i in
             (case ce_req e of
                None \<Rightarrow> Inl NullDeref
              | Some r \<Rightarrow>
                  if cur (rs ! r) = fd
                  then Inr (Some r, cache'\<lparr>rc_entries := (rc_entries cache')[i := e\<lparr>ce_counter := ce_counter e + 1\<rparr>]\<rparr>)
                  else Inr (None, cache'\<lparr>rc_entries := (rc_entries cache')[i := clear (e\<lparr>ce_counter := 0\<rparr>)]\<rparr>)))"

definition request_cache_search_fcgi_fd :: "request list \<Rightarrow> int \<Rightarrow> request_cache \<Rightarrow> cerr + nat option \<times> request_cache" where
  "request_cache_search_fcgi_fd = cache_lookup ce_fcgi_fd (\<lambda>e. e\<lparr>ce_fcgi_fd := -1\<rparr>) rq_fcgi_fd"

definition request_cache_search :: "request list \<Rightarrow> int \<Rightarrow> request_cache \<Rightarrow> cerr + nat option \<times> request_cache" where
  "request_cache_search = cache_lookup ce_fd (\<lambda>e. e\<lparr>ce_fd := -1\<rparr>) rq_fd"

section \<open>The list of requests\<close>

record request_list =
  rl_cache :: request_cache
  rl_size :: nat
  rl_id_offset :: nat
  rl_clock_count :: nat
  rl_clock_hands :: "nat list"
  rl_rs :: "request list"

fun free_requests :: "request list \<Rightarrow> chunk_mem \<Rightarrow> cerr + chunk_mem" where
  "free_requests [] cm = Inr cm"
| "free_requests (r # rs) cm = bindE (request_free r cm) (\<lambda>(_, cm'). free_requests rs cm')"

text \<open>The requests that could be initialised, and whether all could.\<close>

fun init_requests :: "alloc \<Rightarrow> nat \<Rightarrow> chunk_mem \<Rightarrow> bool \<times> request list \<times> chunk_mem" where
  "init_requests al 0 cm = (True, [], cm)"
| "init_requests al (Suc n) cm =
     (let (ret, req, cm1) = request_init al 4 cm in
      if ret \<noteq> 0 then (False, [], cm1)
      else let (ok, rs, cm2) = init_requests al n cm1 in (ok, req # rs, cm2))"

definition request_list_init ::
  "alloc \<Rightarrow> nat \<Rightarrow> nat \<Rightarrow> nat \<Rightarrow> request_list \<Rightarrow> chunk_mem \<Rightarrow> cerr + int \<times> request_list \<times> chunk_mem" where
  "request_list_init al clock_count id_offset n rl cm =
     (if \<not> is_power_of_2 (word_of_nat n) then Inr (-1, rl, cm)
      else
        let rl1 = rl\<lparr>rl_cache := request_cache_init (rl_cache rl)\<rparr>; (ok1, cm1) = alloc_ok al cm in
        if \<not> ok1 then Inr (-1, rl1, cm1)
        else
          let (ok2, cm2) = alloc_ok al cm1 in
          if \<not> ok2 then Inr (-1, rl1, cm2)
          else
            let (ok3, rs, cm3) = init_requests al n cm2 in
            if \<not> ok3 then bindE (free_requests rs cm3) (\<lambda>cm4. Inr (-1, rl1, cm4))
            else Inr (0, rl1\<lparr>rl_size := n, rl_id_offset := id_offset, rl_clock_count := clock_count,
                             rl_clock_hands := replicate clock_count 0, rl_rs := rs\<rparr>, cm3))"

definition get_clock_hand :: "request_list \<Rightarrow> nat \<Rightarrow> nat" where
  "get_clock_hand rl clock_id = (if clock_id < rl_clock_count rl then rl_clock_hands rl ! clock_id else 0)"

definition set_clock_hand :: "nat \<Rightarrow> nat \<Rightarrow> request_list \<Rightarrow> request_list" where
  "set_clock_hand clock_id hand rl =
     (if clock_id < rl_clock_count rl then rl\<lparr>rl_clock_hands := (rl_clock_hands rl)[clock_id := hand]\<rparr> else rl)"

definition request_list_next_available :: "nat \<Rightarrow> request_list \<Rightarrow> cerr + nat option" where
  "request_list_next_available clock_id rl =
     bindE (around (rl_size rl - 1) (get_clock_hand rl clock_id) (\<lambda>i s.
         (if rq_state (rl_rs rl ! i) = REQ_AVAILABLE then Some i else None, s)) ())
       (\<lambda>(r, _). Inr r)"

definition request_list_next_assigned :: "nat \<Rightarrow> request_list \<Rightarrow> cerr + nat option \<times> request_list" where
  "request_list_next_assigned clock_id rl =
     bindE (around (rl_size rl - 1) (get_clock_hand rl clock_id) (\<lambda>i s.
         (if rq_state (rl_rs rl ! i) = REQ_ASSIGNED \<and> rq_clock_id (rl_rs rl ! i) = clock_id then Some i else None, s)) ())
       (\<lambda>(r, _).
         case r of
           None \<Rightarrow> Inr (None, rl)
         | Some i \<Rightarrow>
             bindE (request_cache_hit i (rl_rs rl ! i) (rl_cache rl)) (\<lambda>cache.
               Inr (Some i, set_clock_hand clock_id i (rl\<lparr>rl_cache := cache\<rparr>))))"

definition request_list_get_by_fd :: "int \<Rightarrow> request_list \<Rightarrow> cerr + nat option \<times> request_list" where
  "request_list_get_by_fd fd rl =
     bindE (request_cache_search (rl_rs rl) fd (rl_cache rl)) (\<lambda>(hit, cache).
       let rl1 = rl\<lparr>rl_cache := cache\<rparr> in
       if hit \<noteq> None then Inr (hit, rl1)
       else
         bindE (around (rl_size rl - 1) (get_clock_hand rl 0) (\<lambda>i s.
             (if rq_fd (rl_rs rl ! i) = fd then Some i else None, s)) ())
           (\<lambda>(r, _).
             case r of
               None \<Rightarrow> Inr (None, rl1)
             | Some i \<Rightarrow>
                 bindE (request_cache_add i (rl_rs rl ! i) cache) (\<lambda>cache'. Inr (Some i, rl\<lparr>rl_cache := cache'\<rparr>))))"

text \<open>The search by the descriptor of the server starts at the clock hand itself.\<close>

fun clock_loop_first :: "nat \<Rightarrow> nat \<Rightarrow> nat \<Rightarrow> nat \<Rightarrow> (nat \<Rightarrow> bool) \<Rightarrow> cerr + nat option" where
  "clock_loop_first 0 msk clock i P = Inl Diverges"
| "clock_loop_first (Suc n) msk clock i P =
     (if P i then Inr (Some i)
      else let j = (i + 1) AND msk in if j \<noteq> clock then clock_loop_first n msk clock j P else Inr None)"

definition request_list_get_by_fcgi_fd :: "int \<Rightarrow> request_list \<Rightarrow> cerr + nat option \<times> request_list" where
  "request_list_get_by_fcgi_fd fd rl =
     bindE (request_cache_search_fcgi_fd (rl_rs rl) fd (rl_cache rl)) (\<lambda>(hit, cache).
       let rl1 = rl\<lparr>rl_cache := cache\<rparr>; msk = rl_size rl - 1 in
       if hit \<noteq> None then Inr (hit, rl1)
       else
         bindE (clock_loop_first (msk + 2) msk (get_clock_hand rl 0) (get_clock_hand rl 0) (\<lambda>i. rq_fcgi_fd (rl_rs rl ! i) = fd))
           (\<lambda>r.
             case r of
               None \<Rightarrow> Inr (None, rl1)
             | Some i \<Rightarrow>
                 bindE (request_cache_add i (rl_rs rl ! i) cache) (\<lambda>cache'. Inr (Some i, rl\<lparr>rl_cache := cache'\<rparr>))))"

text \<open>Request ids are 16-bit numbers.\<close>

definition request_list_get :: "nat \<Rightarrow> request_list \<Rightarrow> cerr + nat option \<times> request_list" where
  "request_list_get req_id rl =
     (let i = nat ((int req_id - int (rl_id_offset rl)) mod 65536) in
      if req_id < rl_id_offset rl \<or> \<not> i < rl_size rl then Inr (None, rl)
      else bindE (request_cache_hit i (rl_rs rl ! i) (rl_cache rl)) (\<lambda>cache. Inr (Some i, rl\<lparr>rl_cache := cache\<rparr>)))"

definition request_list_index_of :: "request_list \<Rightarrow> nat \<Rightarrow> nat" where
  "request_list_index_of rl r = (if rl_size rl < r then 0 else (rl_id_offset rl + r) mod 65536)"

definition request_list_free :: "request_list \<Rightarrow> chunk_mem \<Rightarrow> cerr + request_list \<times> chunk_mem" where
  "request_list_free rl cm =
     bindE (free_requests (rl_rs rl) cm) (\<lambda>cm'. Inr (rl\<lparr>rl_size := 0, rl_rs := []\<rparr>, cm'))"

section \<open>Powers of two\<close>

lemma smear:
  fixes x :: "16 word"
  assumes "\<And>n. bit x n \<longleftrightarrow> (\<exists>j<w. bit x0 (n + j))"
  shows "bit (x OR drop_bit w x) n \<longleftrightarrow> (\<exists>j<2 * w. bit x0 (n + j))"
proof -
  have "(\<exists>j<w. bit x0 (n + w + j)) \<longleftrightarrow> (\<exists>j. w \<le> j \<and> j < 2 * w \<and> bit x0 (n + j))"
  proof
    assume "\<exists>j<w. bit x0 (n + w + j)"
    then obtain j where "j < w" "bit x0 (n + w + j)" by blast
    then show "\<exists>j. w \<le> j \<and> j < 2 * w \<and> bit x0 (n + j)" by (intro exI [of _ "w + j"]) (simp add: add.assoc)
  next
    assume "\<exists>j. w \<le> j \<and> j < 2 * w \<and> bit x0 (n + j)"
    then obtain j where "w \<le> j" "j < 2 * w" "bit x0 (n + j)" by blast
    then show "\<exists>j<w. bit x0 (n + w + j)" by (intro exI [of _ "j - w"]) (simp add: add.assoc)
  qed
  then have "bit (x OR drop_bit w x) n \<longleftrightarrow> (\<exists>j<w. bit x0 (n + j)) \<or> (\<exists>j. w \<le> j \<and> j < 2 * w \<and> bit x0 (n + j))"
    using assms [of n] assms [of "n + w"] by (simp add: bit_or_iff bit_drop_bit_eq add.commute)
  also have "\<dots> \<longleftrightarrow> (\<exists>j<2 * w. bit x0 (n + j))" by (metis linorder_not_less mult_2 trans_less_add1)
  finally show ?thesis .
qed

lemma smear_all:
  fixes x :: "16 word"
  assumes "x1 = x OR drop_bit 1 x" "x2 = x1 OR drop_bit 2 x1" "x3 = x2 OR drop_bit 4 x2" "x4 = x3 OR drop_bit 8 x3"
  shows "bit x4 n \<longleftrightarrow> (\<exists>j<16. bit x (n + j))"
proof -
  have "bit x1 n \<longleftrightarrow> (\<exists>j<2. bit x (n + j))" for n unfolding assms(1) using smear [of x 1 x n] by simp
  then have "bit x2 n \<longleftrightarrow> (\<exists>j<4. bit x (n + j))" for n unfolding assms(2) using smear [of x1 2 x n] by simp
  then have "bit x3 n \<longleftrightarrow> (\<exists>j<8. bit x (n + j))" for n unfolding assms(3) using smear [of x2 4 x n] by simp
  then show ?thesis unfolding assms(4) using smear [of x3 8 x n] by simp
qed

lemma bit_above: "n < 2 ^ k \<Longrightarrow> k \<le> m \<Longrightarrow> \<not> bit (n :: nat) m"
  by (metis bit_take_bit_iff linorder_not_less take_bit_nat_eq_self)

lemma bits_below: "(\<forall>m\<ge>k. \<not> bit (n :: nat) m) \<Longrightarrow> n < 2 ^ k"
proof -
  assume "\<forall>m\<ge>k. \<not> bit n m"
  then have "take_bit k n = n" by (intro bit_eqI) (auto simp: bit_take_bit_iff not_less [symmetric])
  then show ?thesis by (metis take_bit_nat_less_exp)
qed

text \<open>The 16-bit trick computes the least power of two that is not below a number up to \<open>32768\<close>.\<close>

lemma next_power_of_2_correct:
  assumes "0 < n" "n \<le> 32768"
  shows "\<exists>k\<le>15. unat (next_power_of_2 (word_of_nat n)) = 2 ^ k \<and> n \<le> 2 ^ k \<and> (\<forall>j. n \<le> 2 ^ j \<longrightarrow> k \<le> j)"
proof -
  define x :: "16 word" where "x = word_of_nat n - 1"
  have xn: "x = word_of_nat (n - 1)" using assms(1) by (simp add: x_def of_nat_diff)
  have "n - 1 < 65536" using assms by simp
  then have ux: "unat x = n - 1" unfolding xn by (simp only: unat_of_nat) simp
  define k where "k = (LEAST k. n \<le> 2 ^ k)"
  have nk: "n \<le> 2 ^ k" unfolding k_def by (rule LeastI [of _ 15]) (use assms in simp)
  have least: "k \<le> j" if "n \<le> 2 ^ j" for j unfolding k_def using that by (rule Least_le)
  have k15: "k \<le> 15" by (rule least) (use assms in simp)
  have low: "n - 1 < 2 ^ k" using nk assms(1) by simp
  have bits: "bit x m \<longleftrightarrow> bit (n - 1) m" if "m < 16" for m
    unfolding ux [symmetric] by (simp add: bit_unsigned_iff)
  have hi: "\<not> bit x m" if "16 \<le> m" for m using that bit_imp_le_length [of x m] by auto
  let ?x1 = "x OR drop_bit 1 x" let ?x2 = "?x1 OR drop_bit 2 ?x1" let ?x3 = "?x2 OR drop_bit 4 ?x2"
  let ?x4 = "?x3 OR drop_bit 8 ?x3"
  have "?x4 = mask k"
  proof (rule bit_eqI)
    fix m assume m: "possible_bit TYPE(16 word) m"
    have "(\<exists>j<16. bit x (m + j)) \<longleftrightarrow> m < k"
    proof
      assume "\<exists>j<16. bit x (m + j)"
      then obtain j where j: "bit x (m + j)" by blast
      then have "bit (n - 1) (m + j)" using bits hi by (metis linorder_not_less)
      with bit_above [OF low] show "m < k" by (metis le_add1 le_trans linorder_not_less)
    next
      assume "m < k"
      then have "\<not> n \<le> 2 ^ m" using least by (metis linorder_not_less)
      then have "\<not> n - 1 < 2 ^ m" using assms(1) by simp
      then obtain i where i: "m \<le> i" "bit (n - 1) i" using bits_below by blast
      then have "i < k" using bit_above [OF low] by (metis linorder_not_less)
      with i k15 bits [of i] show "\<exists>j<16. bit x (m + j)" by (intro exI [of _ "i - m"]) auto
    qed
    then show "bit ?x4 m \<longleftrightarrow> bit (mask k :: 16 word) m"
      using m smear_all [OF refl refl refl refl, of x m] by (simp add: bit_mask_iff)
  qed
  then have "next_power_of_2 (word_of_nat n) = mask k + 1"
    by (simp add: next_power_of_2_def Let_def flip: x_def)
  also have "\<dots> = 2 ^ k" by (simp add: mask_eq_exp_minus_1)
  finally have "unat (next_power_of_2 (word_of_nat n)) = unat (2 ^ k :: 16 word)" by simp
  also have "\<dots> = 2 ^ k"
  proof -
    have "(2 :: nat) ^ k < 2 ^ 16" by (rule power_strict_increasing) (use k15 in auto)
    moreover have "(2 ^ k :: 16 word) = word_of_nat (2 ^ k)" by simp
    ultimately show ?thesis by (simp only: unat_of_nat len_num0 len_bit0 len_num1) simp
  qed
  finally show ?thesis using k15 nk least by blast
qed

text \<open>\<open>0\<close> and everything above \<open>32768\<close> have no such power in 16 bits: the result is \<open>0\<close>.\<close>

lemma next_power_of_2_zero: "next_power_of_2 0 = 0"
  by (simp add: next_power_of_2_def Let_def)

section \<open>Searching around the clock\<close>

fun try_each :: "nat list \<Rightarrow> (nat \<Rightarrow> 's \<Rightarrow> 'a option \<times> 's) \<Rightarrow> 's \<Rightarrow> 'a option \<times> 's" where
  "try_each [] body s = (None, s)"
| "try_each (j # js) body s =
     (case body j s of (Some r, s') \<Rightarrow> (Some r, s') | (None, s') \<Rightarrow> try_each js body s')"

definition clock_order :: "nat \<Rightarrow> nat \<Rightarrow> nat \<Rightarrow> nat list" where
  "clock_order n clock m = map (\<lambda>j. (clock + j) mod n) [m + 1..<n + 1]"

lemma and_mask_mod: "i AND (2 ^ k - 1) = i mod 2 ^ k" for i :: nat
  unfolding mask_eq_exp_minus_1 [symmetric] take_bit_eq_mask [symmetric] by (rule take_bit_eq_mod)

lemma clock_loop_order:
  assumes "m < 2 ^ k" "clock < 2 ^ k" "2 ^ k - m \<le> n"
  shows "clock_loop n (2 ^ k - 1) clock ((clock + m) mod 2 ^ k) body s = Inr (try_each (clock_order (2 ^ k) clock m) body s)"
  using assms
proof (induction n arbitrary: m s)
  case 0
  then show ?case by simp
next
  case (Suc n)
  let ?j = "(clock + Suc m) mod 2 ^ k"
  have "((clock + m) mod 2 ^ k + 1) mod 2 ^ k = ?j" by (metis add.commute add_Suc_right mod_Suc_eq plus_1_eq_Suc)
  then have j: "((clock + m) mod 2 ^ k + 1) AND (2 ^ k - 1) = ?j" by (simp only: and_mask_mod)
  have o: "clock_order (2 ^ k) clock m = ?j # clock_order (2 ^ k) clock (Suc m)"
    using upt_conv_Cons [of "m + 1" "2 ^ k + 1"] Suc.prems(1) by (simp only: clock_order_def) simp
  have last: "?j = clock \<longleftrightarrow> Suc m = 2 ^ k"
  proof
    assume e: "?j = clock"
    show "Suc m = 2 ^ k"
    proof (rule ccontr)
      assume "Suc m \<noteq> 2 ^ k"
      then have "Suc m < 2 ^ k" using Suc.prems(1) by simp
      then show False
        using e Suc.prems(2) by (cases "clock + Suc m < 2 ^ k") (auto simp: mod_if split: if_splits)
    qed
  qed (use Suc.prems(2) in simp)
  show ?case
  proof (cases "body ?j s")
    case (Pair r s')
    show ?thesis
    proof (cases r)
      case (Some x)
      with Pair show ?thesis by (simp only: clock_loop.simps Let_def j o) simp
    next
      case None
      show ?thesis
      proof (cases "Suc m = 2 ^ k")
        case True
        then have "clock_order (2 ^ k) clock (Suc m) = []" by (simp add: clock_order_def)
        with Pair None last True show ?thesis by (simp only: clock_loop.simps Let_def j o) simp
      next
        case False
        then have "clock_loop n (2 ^ k - 1) clock ?j body s' = Inr (try_each (clock_order (2 ^ k) clock (Suc m)) body s')"
          using Suc.prems by (intro Suc.IH) auto
        with Pair None last False show ?thesis by (simp only: clock_loop.simps Let_def j o) simp
      qed
    qed
  qed
qed

lemma around_order:
  assumes "n = 2 ^ k" "clock < n"
  shows "around (n - 1) clock body s = Inr (try_each (clock_order n clock 0) body s)"
  using clock_loop_order [of 0 k clock "2 ^ k + 1" body s] assms by (simp add: around_def)

lemma clock_order_set:
  assumes "clock < n"
  shows "set (clock_order n clock 0) = {..<n}"
proof -
  have "x \<in> (\<lambda>j. (clock + j) mod n) ` {1..<n + 1}" if "x < n" for x
  proof (cases "clock < x")
    case True
    with that have "x = (clock + (x - clock)) mod n" "x - clock \<in> {1..<n + 1}" by auto
    then show ?thesis by (rule image_eqI)
  next
    case False
    with that assms have "x = (clock + (n - (clock - x))) mod n" by (simp add: mod_if)
    moreover have "n - (clock - x) \<in> {1..<n + 1}" using assms by auto
    ultimately show ?thesis by (rule image_eqI)
  qed
  moreover have "set (clock_order n clock 0) = (\<lambda>j. (clock + j) mod n) ` {1..<n + 1}"
    by (simp only: clock_order_def set_map set_upt add_0)
  ultimately show ?thesis using assms by (simp only:) auto
qed

lemma try_each_find:
  "try_each js (\<lambda>i s. (if P i then Some i else None, s)) s = (find P js, s)"
  by (induction js) auto

text \<open>A search for an index: some index with the property is found whenever there is one.\<close>

lemma around_search:
  assumes "n = 2 ^ k" "clock < n"
  shows "\<exists>r. around (n - 1) clock (\<lambda>i s. (if P i then Some i else None, s)) s = Inr (r, s)
           \<and> (case r of Some i \<Rightarrow> i < n \<and> P i | None \<Rightarrow> \<forall>i<n. \<not> P i)"
  using around_order [OF assms, of "\<lambda>i s. (if P i then Some i else None, s)" s]
    find_spec [of "clock_order n clock 0" P] clock_order_set [OF assms(2)]
  by (cases "find P (clock_order n clock 0)") (auto simp: try_each_find)

section \<open>The invariant of the list\<close>

definition cache_ok :: "nat \<Rightarrow> request_cache \<Rightarrow> bool" where
  "cache_ok n cache \<longleftrightarrow>
     rc_mask cache = 31 \<and> rc_clock_hand cache < 32 \<and> length (rc_entries cache) = 32
     \<and> (\<forall>e\<in>set (rc_entries cache). (ce_fd e \<noteq> -1 \<longrightarrow> ce_req e \<noteq> None) \<and> (\<forall>r. ce_req e = Some r \<longrightarrow> r < n))"

definition list_ok :: "request_list \<Rightarrow> bool" where
  "list_ok rl \<longleftrightarrow>
     (\<exists>k. rl_size rl = 2 ^ k) \<and> length (rl_rs rl) = rl_size rl \<and> cache_ok (rl_size rl) (rl_cache rl)
     \<and> length (rl_clock_hands rl) = rl_clock_count rl \<and> (\<forall>c\<in>set (rl_clock_hands rl). c < rl_size rl)"

lemma list_ok_cache: "list_ok rl \<Longrightarrow> cache_ok (rl_size rl) (rl_cache rl)"
  by (simp add: list_ok_def)

lemma list_ok_set_cache: "list_ok rl \<Longrightarrow> cache_ok (rl_size rl) c \<Longrightarrow> list_ok (rl\<lparr>rl_cache := c\<rparr>)"
  by (simp add: list_ok_def)

lemma get_clock_hand_less: "list_ok rl \<Longrightarrow> get_clock_hand rl c < rl_size rl"
  by (auto simp: get_clock_hand_def list_ok_def)

lemma around_cache: "cache_ok n cache \<Longrightarrow> around (rc_mask cache) (rc_clock_hand cache) body s
    = Inr (try_each (clock_order 32 (rc_clock_hand cache) 0) body s)"
  using around_order [of 32 5 "rc_clock_hand cache" body s] by (simp add: cache_ok_def)

lemma try_each_inv:
  assumes "\<And>j s r s'. Q s \<Longrightarrow> j \<in> set js \<Longrightarrow> body j s = (r, s') \<Longrightarrow> Q s'" "Q s"
  shows "Q (snd (try_each js body s))"
  using assms
proof (induction js arbitrary: s)
  case (Cons j js)
  have q: "Q s'" if "body j s = (r, s')" for r s' using Cons.prems(1) [OF Cons.prems(2) _ that] by simp
  have "Q (snd (try_each js body s'))" if "Q s'" for s'
    by (rule Cons.IH) (use Cons.prems(1) that in auto)
  with q show ?case by (auto split: prod.split option.split)
qed simp

lemma cache_ok_upd:
  assumes "cache_ok n cache" "(ce_fd e \<noteq> -1 \<longrightarrow> ce_req e \<noteq> None) \<and> (\<forall>r. ce_req e = Some r \<longrightarrow> r < n)"
  shows "cache_ok n (cache\<lparr>rc_entries := (rc_entries cache)[i := e]\<rparr>)"
proof -
  have "set ((rc_entries cache)[i := e]) \<subseteq> insert e (set (rc_entries cache))" by (rule set_update_subset_insert)
  with assms show ?thesis unfolding cache_ok_def by (simp add: subset_iff) blast
qed

lemma cache_entry: "cache_ok n cache \<Longrightarrow> i < 32 \<Longrightarrow>
    (ce_fd (rc_entries cache ! i) \<noteq> -1 \<longrightarrow> ce_req (rc_entries cache ! i) \<noteq> None)
    \<and> (\<forall>r. ce_req (rc_entries cache ! i) = Some r \<longrightarrow> r < n)"
  by (auto simp: cache_ok_def)

lemma cache_order_less: "cache_ok n cache \<Longrightarrow> j \<in> set (clock_order 32 (rc_clock_hand cache) 0) \<Longrightarrow> j < 32"
  by (subst (asm) clock_order_set) (auto simp: cache_ok_def)

lemma request_cache_add_ok:
  assumes "cache_ok n cache" "r < n"
  shows "\<exists>cache'. request_cache_add r req cache = Inr cache' \<and> cache_ok n cache'"
proof -
  let ?body = "\<lambda>i cache. let e = rc_entries cache ! 1 in
         if 0 < ce_counter e
         then (None, cache\<lparr>rc_entries := (rc_entries cache)[1 := e\<lparr>ce_counter := ce_counter e - 1\<rparr>]\<rparr>)
         else (Some (), cache\<lparr>rc_entries := (rc_entries cache)[1 := \<lparr>ce_req = Some r, ce_fd = rq_fd req,
                                ce_fcgi_fd = rq_fcgi_fd req, ce_counter = 1\<rparr>], rc_clock_hand := i\<rparr>)"
  have "cache_ok n (snd (try_each (clock_order 32 (rc_clock_hand cache) 0) ?body cache))"
  proof (rule try_each_inv)
    fix j s x s' assume s: "cache_ok n s" and j: "j \<in> set (clock_order 32 (rc_clock_hand cache) 0)" and b: "?body j s = (x, s')"
    have j32: "j < 32" by (rule cache_order_less [OF assms(1) j])
    show "cache_ok n s'"
    proof (cases "0 < ce_counter (rc_entries s ! 1)")
      case True
      with b have "s' = s\<lparr>rc_entries := (rc_entries s)[1 := (rc_entries s ! 1)\<lparr>ce_counter := ce_counter (rc_entries s ! 1) - 1\<rparr>]\<rparr>"
        by (simp add: Let_def)
      with cache_ok_upd [OF s] cache_entry [OF s, of 1] show ?thesis by simp
    next
      case False
      let ?e = "\<lparr>ce_req = Some r, ce_fd = rq_fd req, ce_fcgi_fd = rq_fcgi_fd req, ce_counter = 1\<rparr>"
      from False b have "s' = s\<lparr>rc_entries := (rc_entries s)[1 := ?e]\<rparr>\<lparr>rc_clock_hand := j\<rparr>" by (simp add: Let_def)
      moreover have "cache_ok n (s\<lparr>rc_entries := (rc_entries s)[1 := ?e]\<rparr>)" by (rule cache_ok_upd [OF s]) (use assms(2) in simp)
      ultimately show ?thesis using j32 by (simp add: cache_ok_def)
    qed
  qed (rule assms(1))
  then show ?thesis unfolding request_cache_add_def around_cache [OF assms(1)] by (auto split: prod.split)
qed

lemma request_cache_hit_ok:
  assumes "cache_ok n cache" "r < n"
  shows "\<exists>cache'. request_cache_hit r req cache = Inr cache' \<and> cache_ok n cache'"
proof -
  let ?body = "\<lambda>i cache. let e = rc_entries cache ! i in
         if ce_req e = Some r
         then (Some (), cache\<lparr>rc_entries := (rc_entries cache)[i := e\<lparr>ce_fd := rq_fd req, ce_fcgi_fd := rq_fcgi_fd req,
                                ce_counter := ce_counter e + 1\<rparr>]\<rparr>)
         else (None, cache)"
  let ?t = "try_each (clock_order 32 (rc_clock_hand cache) 0) ?body cache"
  have "cache_ok n (snd ?t)"
  proof (rule try_each_inv)
    fix j s x s' assume s: "cache_ok n s" and b: "?body j s = (x, s')"
    then show "cache_ok n s'" using cache_ok_upd [OF s] assms(2) by (auto simp: Let_def split: if_splits)
  qed (rule assms(1))
  then show ?thesis unfolding request_cache_hit_def around_cache [OF assms(1)] bindE_simps
    using request_cache_add_ok [OF _ assms(2)] by (cases ?t) auto
qed

lemma request_cache_search_ok:
  assumes "cache_ok (length rs) cache" "fd \<noteq> -1"
  shows "\<exists>r cache'. request_cache_search rs fd cache = Inr (r, cache') \<and> cache_ok (length rs) cache'
           \<and> (\<forall>i. r = Some i \<longrightarrow> i < length rs \<and> rq_fd (rs ! i) = fd)"
proof -
  have cl: "rc_mask cache = 32 - 1" "rc_clock_hand cache < 32" using assms(1) by (simp_all add: cache_ok_def)
  let ?body = "\<lambda>i cache. if ce_fd (rc_entries cache ! i) = fd then (Some i, cache) else (None, cache)"
  let ?P = "\<lambda>i. ce_fd (rc_entries cache ! i) = fd"
  have t: "try_each js ?body cache = (find ?P js, cache)" for js
    by (induction js) auto
  have "case find ?P (clock_order 32 (rc_clock_hand cache) 0) of Some i \<Rightarrow> i < 32 \<and> ?P i | None \<Rightarrow> True"
  proof (cases "find ?P (clock_order 32 (rc_clock_hand cache) 0)")
    case (Some i)
    then have "?P i" "i \<in> set (clock_order 32 (rc_clock_hand cache) 0)" by (auto simp: find_Some_iff)
    with Some cache_order_less [OF assms(1)] show ?thesis by simp
  qed simp
  then obtain r where r: "around (rc_mask cache) (rc_clock_hand cache) ?body cache = Inr (r, cache)"
      "case r of Some i \<Rightarrow> i < 32 \<and> ?P i | None \<Rightarrow> True"
    unfolding around_cache [OF assms(1)] t by blast
  show ?thesis
  proof (cases r)
    case None
    with r assms show ?thesis by (simp add: request_cache_search_def cache_lookup_def)
  next
    case (Some i)
    with r have i: "i < 32" "ce_fd (rc_entries cache ! i) = fd" by auto
    then obtain q where q: "ce_req (rc_entries cache ! i) = Some q" "q < length rs"
      using cache_entry [OF assms(1) i(1)] assms(2) by auto
    let ?e = "rc_entries cache ! i"
    have "cache_ok (length rs) (cache\<lparr>rc_entries := (rc_entries cache)[i := ?e\<lparr>ce_counter := ce_counter ?e + 1\<rparr>]\<rparr>)"
      by (rule cache_ok_upd [OF assms(1)]) (use q in auto)
    moreover have "cache_ok (length rs) (cache\<lparr>rc_entries := (rc_entries cache)[i := ?e\<lparr>ce_counter := 0, ce_fd := -1\<rparr>]\<rparr>)"
      by (rule cache_ok_upd [OF assms(1)]) (use q in auto)
    ultimately show ?thesis using r Some q by (simp add: request_cache_search_def cache_lookup_def Let_def)
  qed
qed

lemma request_list_get_by_fd_spec:
  assumes "list_ok rl" "fd \<noteq> -1"
  shows "\<exists>r cache'. request_list_get_by_fd fd rl = Inr (r, rl\<lparr>rl_cache := cache'\<rparr>) \<and> list_ok (rl\<lparr>rl_cache := cache'\<rparr>)
           \<and> (case r of Some i \<Rightarrow> i < rl_size rl \<and> rq_fd (rl_rs rl ! i) = fd
              | None \<Rightarrow> \<forall>i<rl_size rl. rq_fd (rl_rs rl ! i) \<noteq> fd)"
proof -
  obtain k where k: "rl_size rl = 2 ^ k" and len: "length (rl_rs rl) = rl_size rl" using assms(1) by (auto simp: list_ok_def)
  obtain hit c1 where s: "request_cache_search (rl_rs rl) fd (rl_cache rl) = Inr (hit, c1)" "cache_ok (rl_size rl) c1"
      "\<forall>i. hit = Some i \<longrightarrow> i < rl_size rl \<and> rq_fd (rl_rs rl ! i) = fd"
    using request_cache_search_ok [of "rl_rs rl" "rl_cache rl" fd] list_ok_cache [OF assms(1)] assms(2) len by auto
  show ?thesis
  proof (cases hit)
    case (Some i)
    with s list_ok_set_cache [OF assms(1) s(2)] show ?thesis
      by (auto simp: request_list_get_by_fd_def Let_def)
  next
    case None
    obtain r where r: "around (rl_size rl - 1) (get_clock_hand rl 0) (\<lambda>i s. (if rq_fd (rl_rs rl ! i) = fd then Some i else None, s)) () = Inr (r, ())"
        "case r of Some i \<Rightarrow> i < rl_size rl \<and> rq_fd (rl_rs rl ! i) = fd | None \<Rightarrow> \<forall>i<rl_size rl. rq_fd (rl_rs rl ! i) \<noteq> fd"
      using around_search [OF k get_clock_hand_less [OF assms(1)], of 0 "\<lambda>i. rq_fd (rl_rs rl ! i) = fd" "()"] by auto
    show ?thesis
    proof (cases r)
      case None
      with r s \<open>hit = None\<close> list_ok_set_cache [OF assms(1) s(2)] show ?thesis
        by (auto simp: request_list_get_by_fd_def Let_def)
    next
      case (Some i)
      with r have i: "i < rl_size rl" by simp
      obtain c2 where c2: "request_cache_add i (rl_rs rl ! i) c1 = Inr c2" "cache_ok (rl_size rl) c2"
        using request_cache_add_ok [OF s(2) i] by blast
      with r s \<open>hit = None\<close> Some list_ok_set_cache [OF assms(1) c2(2)] show ?thesis
        by (auto simp: request_list_get_by_fd_def Let_def)
    qed
  qed
qed

text \<open>
  C37: the cache does not change what a search finds. For a list that satisfies its invariant and a
  valid descriptor the search ends and keeps the invariant and the requests; it finds a request with
  that descriptor if and only if there is one.
\<close>

theorem request_list_get_by_fd_correct:
  assumes "list_ok rl" "fd \<noteq> -1"
  shows "\<exists>r cache'. request_list_get_by_fd fd rl = Inr (r, rl\<lparr>rl_cache := cache'\<rparr>) \<and> list_ok (rl\<lparr>rl_cache := cache'\<rparr>)
           \<and> (case r of Some i \<Rightarrow> i < rl_size rl \<and> rq_fd (rl_rs rl ! i) = fd
              | None \<Rightarrow> \<forall>i<rl_size rl. rq_fd (rl_rs rl ! i) \<noteq> fd)"
  by (rule request_list_get_by_fd_spec [OF assms])

definition blank_cache :: request_cache where
  "blank_cache = request_cache_init
     \<lparr>rc_entries = replicate 32 \<lparr>ce_req = None, ce_fd = 0, ce_fcgi_fd = 0, ce_counter = 0\<rparr>, rc_clock_hand = 0, rc_mask = 0\<rparr>"

definition demo_list :: request_list where
  "demo_list = \<lparr>rl_cache = blank_cache, rl_size = 2, rl_id_offset = 1, rl_clock_count = 1, rl_clock_hands = [0],
                rl_rs = [new_request, new_request\<lparr>rq_fd := 7\<rparr>]\<rparr>"

lemma demo_list_ok: "list_ok demo_list"
proof -
  have "\<exists>k. (2 :: nat) = 2 ^ k" by (rule exI [of _ 1]) simp
  then show ?thesis by (simp add: list_ok_def demo_list_def cache_ok_def blank_cache_def request_cache_init_def REQ_CACHE_SIZE_def)
qed

theorem request_list_get_by_fd_correct_witness:
  "\<exists>cache'. request_list_get_by_fd 7 demo_list = Inr (Some 1, demo_list\<lparr>rl_cache := cache'\<rparr>)"
proof -
  obtain r cache' where r: "request_list_get_by_fd 7 demo_list = Inr (r, demo_list\<lparr>rl_cache := cache'\<rparr>)"
      "case r of Some i \<Rightarrow> i < rl_size demo_list \<and> rq_fd (rl_rs demo_list ! i) = 7
       | None \<Rightarrow> \<forall>i<rl_size demo_list. rq_fd (rl_rs demo_list ! i) \<noteq> 7"
    using request_list_get_by_fd_correct [OF demo_list_ok, of 7] by auto
  have "rq_fd (rl_rs demo_list ! 1) = 7" "rq_fd (rl_rs demo_list ! 0) = -1" by (simp_all add: demo_list_def new_request_def)
  moreover have "i = 0 \<or> i = 1" if "i < rl_size demo_list" for i using that by (auto simp: demo_list_def)
  moreover have "(1 :: nat) < rl_size demo_list" by (simp add: demo_list_def)
  ultimately have "r = Some 1" using r(2) by (cases r) force+
  with r(1) show ?thesis by blast
qed

section \<open>The other searches\<close>

lemma next_available_ok:
  assumes "list_ok rl"
  shows "\<exists>r. request_list_next_available clock_id rl = Inr r
           \<and> (case r of Some i \<Rightarrow> i < rl_size rl \<and> rq_state (rl_rs rl ! i) = REQ_AVAILABLE
              | None \<Rightarrow> \<forall>i<rl_size rl. rq_state (rl_rs rl ! i) \<noteq> REQ_AVAILABLE)"
proof -
  obtain k where k: "rl_size rl = 2 ^ k" using assms by (auto simp: list_ok_def)
  from around_search [OF k get_clock_hand_less [OF assms], of clock_id "\<lambda>i. rq_state (rl_rs rl ! i) = REQ_AVAILABLE" "()"]
  show ?thesis by (auto simp: request_list_next_available_def)
qed

lemma list_ok_set_hand: "list_ok rl \<Longrightarrow> i < rl_size rl \<Longrightarrow> list_ok (set_clock_hand c i rl)"
  using set_update_subset_insert [of "rl_clock_hands rl" c i] by (auto simp: list_ok_def set_clock_hand_def)

lemma next_assigned_ok:
  assumes "list_ok rl"
  shows "\<exists>r rl'. request_list_next_assigned clock_id rl = Inr (r, rl') \<and> list_ok rl' \<and> rl_rs rl' = rl_rs rl
           \<and> rl_size rl' = rl_size rl \<and> rl_id_offset rl' = rl_id_offset rl
           \<and> (case r of Some i \<Rightarrow> i < rl_size rl \<and> rq_state (rl_rs rl ! i) = REQ_ASSIGNED \<and> rq_clock_id (rl_rs rl ! i) = clock_id
              | None \<Rightarrow> \<forall>i<rl_size rl. \<not> (rq_state (rl_rs rl ! i) = REQ_ASSIGNED \<and> rq_clock_id (rl_rs rl ! i) = clock_id))"
proof -
  let ?P = "\<lambda>i. rq_state (rl_rs rl ! i) = REQ_ASSIGNED \<and> rq_clock_id (rl_rs rl ! i) = clock_id"
  obtain k where k: "rl_size rl = 2 ^ k" using assms by (auto simp: list_ok_def)
  obtain r where r: "around (rl_size rl - 1) (get_clock_hand rl clock_id) (\<lambda>i s. (if ?P i then Some i else None, s)) () = Inr (r, ())"
      "case r of Some i \<Rightarrow> i < rl_size rl \<and> ?P i | None \<Rightarrow> \<forall>i<rl_size rl. \<not> ?P i"
    using around_search [OF k get_clock_hand_less [OF assms], of clock_id ?P "()"] by blast
  show ?thesis
  proof (cases r)
    case None
    with r assms show ?thesis by (simp add: request_list_next_assigned_def)
  next
    case (Some i)
    with r have i: "i < rl_size rl" by simp
    obtain c where c: "request_cache_hit i (rl_rs rl ! i) (rl_cache rl) = Inr c" "cache_ok (rl_size rl) c"
      using request_cache_hit_ok [OF list_ok_cache [OF assms] i] by blast
    have "list_ok (set_clock_hand clock_id i (rl\<lparr>rl_cache := c\<rparr>))"
      using list_ok_set_hand [OF list_ok_set_cache [OF assms c(2)]] i by simp
    with r c Some show ?thesis by (simp add: request_list_next_assigned_def) (simp add: set_clock_hand_def)
  qed
qed

lemma request_list_get_ok:
  assumes "list_ok rl" "rl_id_offset rl + rl_size rl \<le> 65536" "req_id < 65536"
  shows "\<exists>r cache'. request_list_get req_id rl = Inr (r, rl\<lparr>rl_cache := cache'\<rparr>) \<and> list_ok (rl\<lparr>rl_cache := cache'\<rparr>)
           \<and> r = (if rl_id_offset rl \<le> req_id \<and> req_id < rl_id_offset rl + rl_size rl then Some (req_id - rl_id_offset rl) else None)"
proof (cases "rl_id_offset rl \<le> req_id")
  case True
  have "nat ((int req_id - int (rl_id_offset rl)) mod 65536) = req_id - rl_id_offset rl"
    using True assms(3) by (simp add: nat_diff_distrib)
  moreover have "\<exists>c. request_cache_hit (req_id - rl_id_offset rl) (rl_rs rl ! (req_id - rl_id_offset rl)) (rl_cache rl) = Inr c \<and> cache_ok (rl_size rl) c"
    if "req_id - rl_id_offset rl < rl_size rl"
    by (rule request_cache_hit_ok [OF list_ok_cache [OF assms(1)] that])
  moreover have "\<exists>c. rl = rl\<lparr>rl_cache := c\<rparr> \<and> list_ok (rl\<lparr>rl_cache := c\<rparr>)"
    by (rule exI [of _ "rl_cache rl"]) (simp add: assms(1))
  ultimately show ?thesis using True assms list_ok_set_cache [OF assms(1)]
    by (cases "req_id - rl_id_offset rl < rl_size rl") (auto simp: request_list_get_def Let_def)
next
  case False
  moreover have "\<exists>c. rl = rl\<lparr>rl_cache := c\<rparr> \<and> list_ok (rl\<lparr>rl_cache := c\<rparr>)"
    by (rule exI [of _ "rl_cache rl"]) (simp add: assms(1))
  ultimately show ?thesis using assms(1) by (auto simp: request_list_get_def Let_def)
qed

text \<open>Ids and requests correspond as long as the ids fit into 16 bits.\<close>

lemma request_id_roundtrip:
  assumes "list_ok rl" "0 < rl_id_offset rl" "rl_id_offset rl + rl_size rl \<le> 65536" "i < rl_size rl"
  shows "request_list_index_of rl i > 0 \<and> (\<exists>rl'. request_list_get (request_list_index_of rl i) rl = Inr (Some i, rl'))"
proof -
  have "request_list_index_of rl i = rl_id_offset rl + i" using assms by (simp add: request_list_index_of_def)
  with request_list_get_ok [OF assms(1,3), of "rl_id_offset rl + i"] assms show ?thesis by auto
qed

end
