(* ===== verification/Fcgi_Config.thy ===== *)
theory Fcgi_Config
  imports Mk_Config
begin

text \<open>
  \<^verbatim>\<open>plugins/fastcgi/fcgi_config.c\<close>: the configured servers and locations, and their validation.
  The regular expressions of the C library are represented by their text; whether one can be
  compiled is a parameter.
\<close>

record fcgi_server =
  sv_name :: cstr
  sv_path :: "cstr option"
  sv_addr :: "cstr option"
  sv_port :: int
  sv_mpx_connection :: bool
  sv_max_connections :: nat
  sv_max_requests :: nat

record fcgi_location =
  fl_name :: cstr
  fl_match_regex :: cstr
  fl_keep_alive :: bool
  fl_server_ids :: "nat list"

record fcgi_config =
  fc_servers :: "fcgi_server list"
  fc_locations :: "fcgi_location list"

abbreviation server_count :: "fcgi_config \<Rightarrow> nat" where "server_count c \<equiv> length (fc_servers c)"
abbreviation location_count :: "fcgi_config \<Rightarrow> nat" where "location_count c \<equiv> length (fc_locations c)"

definition empty_fcgi_config :: fcgi_config where
  "empty_fcgi_config = \<lparr>fc_servers = [], fc_locations = []\<rparr>"

definition fcgi_config_free :: "fcgi_config \<Rightarrow> fcgi_config" where
  "fcgi_config_free config = empty_fcgi_config"

definition uint32 :: "int \<Rightarrow> nat" where
  "uint32 x = nat (x mod 4294967296)"

section \<open>Validation\<close>

text \<open>The array of 8-bit counters of the uses of the servers.\<close>

definition use_server :: "nat list \<Rightarrow> nat \<Rightarrow> nat list" where
  "use_server used i = used[i := (used ! i + 1) mod 256]"

fun count_uses :: "nat \<Rightarrow> fcgi_location list \<Rightarrow> nat list \<Rightarrow> nat list option" where
  "count_uses n [] used = Some used"
| "count_uses n (l # ls) used =
     (if fl_server_ids l = [] \<or> (\<exists>i\<in>set (fl_server_ids l). n \<le> i) then None
      else count_uses n ls (fold (\<lambda>i used. use_server used i) (fl_server_ids l) used))"

definition server_ok :: "fcgi_server \<Rightarrow> nat \<Rightarrow> bool" where
  "server_ok srv used \<longleftrightarrow>
     used < 2 \<and> ((sv_addr srv \<noteq> None \<and> sv_port srv \<noteq> 0) \<or> sv_path srv \<noteq> None)
     \<and> (0 < sv_port srv \<longrightarrow> sv_port srv < 65535)"

definition fcgi_validate_conf :: "fcgi_config \<Rightarrow> int" where
  "fcgi_validate_conf config =
     (if server_count config = 0 \<or> location_count config = 0 \<or> 65535 \<le> location_count config then -1
      else
        case count_uses (server_count config) (fc_locations config) (replicate (server_count config) 0) of
          None \<Rightarrow> -1
        | Some used \<Rightarrow> if list_all2 server_ok (fc_servers config) used then 0 else -1)"

section \<open>Reading\<close>

text \<open>\<open>sscanf(s, "%d", ...)\<close>: white space, a sign and digits.\<close>

definition sscanf_d :: "cstr \<Rightarrow> int option" where
  "sscanf_d s =
     (let w = dropWhile c_isspace (cstring s);
          d = (if rd w = CHR ''-'' \<or> rd w = CHR ''+'' then tl w else w)
      in if c_isdigit (rd d) then Some (int32 (strtol10 s)) else None)"

text \<open>
  \<open>Multiplexing\<close> is fetched as a boolean, but used as a string: any value but \<open>off\<close> is an invalid
  pointer.
\<close>

definition fcgi_config_read_server :: "mk_config_section \<Rightarrow> cerr + fcgi_server option" where
  "fcgi_config_read_server section =
     (let str = (\<lambda>k. val_str (mk_config_section_getval section k MK_CONFIG_VAL_STR));
          num = (\<lambda>k. uint32 (val_num (mk_config_section_getval section k MK_CONFIG_VAL_NUM)))
      in case str ''ServerName'' of
           None \<Rightarrow> Inr None
         | Some name \<Rightarrow>
             let path = str ''ServerPath'';
                 addr = (case str ''ServerAddr'' of
                           None \<Rightarrow> Some (None, 0)
                         | Some a \<Rightarrow>
                             (case find_index ((=) (CHR '':'')) (cstring a) of
                                None \<Rightarrow> None
                              | Some k \<Rightarrow> map_option (\<lambda>p. (Some (take k a), p)) (sscanf_d (drop (k + 1) a))))
             in case addr of
                  None \<Rightarrow> Inr None
                | Some (ad, port) \<Rightarrow>
                    if val_num (mk_config_section_getval section ''Multiplexing'' MK_CONFIG_VAL_BOOL) \<noteq> 0 then Inl NullDeref
                    else if ad = None \<and> path = None then Inr None
                    else Inr (Some \<lparr>sv_name = name, sv_path = path, sv_addr = ad, sv_port = port,
                                    sv_mpx_connection = False, sv_max_connections = num ''MaxConnections'',
                                    sv_max_requests = num ''MaxRequests''\<rparr>))"

text \<open>\<open>strtok(s, ", ")\<close>.\<close>

fun tokens :: "cstr \<Rightarrow> cstr \<Rightarrow> cstr list" where
  "tokens cur [] = (if cur = [] then [] else [cur])"
| "tokens cur (c # s) =
     (if c = CHR '','' \<or> c = CHR '' '' then (if cur = [] then tokens [] s else cur # tokens [] s)
      else tokens (cur @ [c]) s)"

text \<open>The array has a place for every blank of the text and one more.\<close>

definition location_ids :: "cstr \<Rightarrow> fcgi_server list \<Rightarrow> cerr + nat list" where
  "location_ids server_names servers =
     (let n = length (filter (\<lambda>c. c = CHR '' '') (cstring server_names)) + 1;
          ids = concat (map (\<lambda>tok. filter (\<lambda>i. strcmp_eq (sv_name (servers ! i)) tok) [0..<length servers])
                         (tokens [] (cstring server_names)))
      in if n < length ids then Inl OutOfBounds else Inr ids)"

definition fcgi_config_read_location ::
  "(cstr \<Rightarrow> bool) \<Rightarrow> fcgi_server list \<Rightarrow> mk_config_section \<Rightarrow> cerr + fcgi_location option" where
  "fcgi_config_read_location regcomp servers section =
     (let str = (\<lambda>k. val_str (mk_config_section_getval section k MK_CONFIG_VAL_STR)) in
      case (str ''LocationName'', str ''Match'') of
        (Some name, Some regex) \<Rightarrow>
          let re = map (\<lambda>c. if c = CHR '' '' then CHR ''|'' else c) (cstring regex) in
          if \<not> regcomp re then Inr None
          else
            let ka = (case str ''KeepAlive'' of None \<Rightarrow> False | Some v \<Rightarrow> strcasecmp_eq v ''on'') in
            (case str ''ServerNames'' of
               None \<Rightarrow> Inr None
             | Some names \<Rightarrow>
                 bindE (location_ids names servers) (\<lambda>ids.
                   if ids = [] then Inr None
                   else Inr (Some \<lparr>fl_name = name, fl_match_regex = re, fl_keep_alive = ka, fl_server_ids = ids\<rparr>)))
      | _ \<Rightarrow> Inr None)"

text \<open>The sections of one name, in order, each read in turn; the first failure ends the reading.\<close>

definition named :: "cstr \<Rightarrow> mk_config_section list \<Rightarrow> mk_config_section list" where
  "named name sections = filter (\<lambda>s. strcasecmp_eq (sec_name s) name) sections"

fun read_all :: "(mk_config_section \<Rightarrow> cerr + 'a option) \<Rightarrow> mk_config_section list \<Rightarrow> cerr + 'a list option" where
  "read_all f [] = Inr (Some [])"
| "read_all f (s # ss) =
     bindE (f s) (\<lambda>r.
       case r of
         None \<Rightarrow> Inr None
       | Some x \<Rightarrow> bindE (read_all f ss) (\<lambda>rs. Inr (map_option (\<lambda>xs. x # xs) rs)))"

definition fcgi_config_read ::
  "(cstr \<Rightarrow> bool) \<Rightarrow> mk_config_section list option \<Rightarrow> cerr + int \<times> fcgi_config" where
  "fcgi_config_read regcomp config =
     (case config of
        None \<Rightarrow> Inl NullDeref
      | Some sections \<Rightarrow>
          if 1 < length (named ''FASTCGI'' sections) \<or> named ''FASTCGI_SERVER'' sections = []
             \<or> named ''FASTCGI_LOCATION'' sections = [] then Inr (-1, empty_fcgi_config)
          else
            bindE (read_all fcgi_config_read_server (named ''FASTCGI_SERVER'' sections)) (\<lambda>srvs.
              case srvs of
                None \<Rightarrow> Inr (-1, empty_fcgi_config)
              | Some servers \<Rightarrow>
                  bindE (read_all (fcgi_config_read_location regcomp servers) (named ''FASTCGI_LOCATION'' sections)) (\<lambda>locs.
                    case locs of
                      None \<Rightarrow> Inr (-1, empty_fcgi_config)
                    | Some locations \<Rightarrow>
                        let fconf = \<lparr>fc_servers = servers, fc_locations = locations\<rparr> in
                        if fcgi_validate_conf fconf \<noteq> 0 then Inr (-1, fcgi_config_free fconf)
                        else Inr (0, fconf))))"

definition fcgi_config_get_location :: "fcgi_config \<Rightarrow> nat \<Rightarrow> fcgi_location option" where
  "fcgi_config_get_location config i =
     (if i < location_count config then Some (fc_locations config ! i) else None)"

definition fcgi_config_get_server :: "fcgi_config \<Rightarrow> nat \<Rightarrow> fcgi_server option" where
  "fcgi_config_get_server config i = (if i < server_count config then Some (fc_servers config ! i) else None)"

section \<open>What validation gives\<close>

definition uses :: "fcgi_location list \<Rightarrow> nat list" where
  "uses ls = concat (map fl_server_ids ls)"

lemma use_server_fold_length [simp]: "length (fold (\<lambda>i used. use_server used i) is used) = length used"
  by (induction "is" arbitrary: used) (simp_all add: use_server_def)

lemma use_server_fold:
  assumes "k < length used"
  shows "fold (\<lambda>i used. use_server used i) is used ! k mod 256 = (used ! k + count_list is k) mod 256"
  using assms
proof (induction "is" arbitrary: used)
  case (Cons i "is")
  have "fold (\<lambda>i used. use_server used i) is (use_server used i) ! k mod 256 = (use_server used i ! k + count_list is k) mod 256"
    using Cons.prems by (intro Cons.IH) (simp add: use_server_def)
  moreover have "(use_server used i ! k + count_list is k) mod 256 = (used ! k + count_list (i # is) k) mod 256"
    using Cons.prems by (cases "i = k") (simp_all add: use_server_def mod_simps)
  ultimately show ?case by simp
qed simp

lemma count_uses_Some:
  "count_uses n ls used = Some used' \<Longrightarrow> length used = n \<Longrightarrow>
     length used' = n \<and> (\<forall>l\<in>set ls. fl_server_ids l \<noteq> [] \<and> (\<forall>i\<in>set (fl_server_ids l). i < n))
     \<and> (\<forall>k<n. used' ! k mod 256 = (used ! k + count_list (uses ls) k) mod 256)"
proof (induction ls arbitrary: used)
  case Nil
  then show ?case by (simp add: uses_def)
next
  case (Cons l ls)
  let ?u = "fold (\<lambda>i used. use_server used i) (fl_server_ids l) used"
  have c: "count_uses n ls ?u = Some used'" and l: "fl_server_ids l \<noteq> []" "\<forall>i\<in>set (fl_server_ids l). i < n"
    using Cons.prems(1) by (auto split: if_splits simp: not_le)
  have IH: "length used' = n" "\<forall>l\<in>set ls. fl_server_ids l \<noteq> [] \<and> (\<forall>i\<in>set (fl_server_ids l). i < n)"
    "\<forall>k<n. used' ! k mod 256 = (?u ! k + count_list (uses ls) k) mod 256"
    using Cons.IH [OF c] Cons.prems(2) by auto
  have "used' ! k mod 256 = (used ! k + count_list (uses (l # ls)) k) mod 256" if "k < n" for k
  proof -
    have "used' ! k mod 256 = (?u ! k mod 256 + count_list (uses ls) k) mod 256" using IH(3) that by (simp add: mod_simps)
    also have "?u ! k mod 256 = (used ! k + count_list (fl_server_ids l) k) mod 256"
      using use_server_fold [of k used "fl_server_ids l"] that Cons.prems(2) by simp
    finally show ?thesis by (simp add: uses_def mod_simps add.assoc)
  qed
  with IH(1,2) l show ?case by simp
qed

lemma use_server_bound:
  "\<forall>k<length used. used ! k < 256 \<Longrightarrow> k < length used \<Longrightarrow> fold (\<lambda>i used. use_server used i) is used ! k < 256"
proof (induction "is" arbitrary: used)
  case (Cons i "is")
  have "\<forall>k<length (use_server used i). use_server used i ! k < 256"
    using Cons.prems(1) by (cases "i < length used") (auto simp: use_server_def nth_list_update)
  from Cons.IH [OF this] Cons.prems(2) show ?case by (simp add: use_server_def)
qed simp

lemma count_uses_bound:
  "count_uses n ls used = Some used' \<Longrightarrow> length used = n \<Longrightarrow> \<forall>k<n. used ! k < 256 \<Longrightarrow> \<forall>k<n. used' ! k < 256"
proof (induction ls arbitrary: used)
  case (Cons l ls)
  from Cons.prems show ?case
    by (intro Cons.IH [of "fold (\<lambda>i used. use_server used i) (fl_server_ids l) used"]) (auto simp: use_server_bound split: if_splits)
qed simp

lemma distinct_count: "\<forall>k. count_list xs k \<le> 1 \<Longrightarrow> distinct xs"
proof (induction xs)
  case (Cons x xs)
  have "count_list xs k \<le> 1" for k using Cons.prems [rule_format, of k] by (auto split: if_splits)
  moreover have "count_list xs x = 0" using Cons.prems [rule_format, of x] by simp
  ultimately show ?case using Cons.IH by (simp add: count_list_0_iff)
qed simp

text \<open>
  A configuration that passes the validation has servers and locations; every location has servers,
  all of them declared; and as long as the locations name fewer than 256 servers altogether, no
  server is named twice.
\<close>

definition conf_ok :: "fcgi_config \<Rightarrow> bool" where
  "conf_ok config \<longleftrightarrow>
     0 < server_count config \<and> 0 < location_count config
     \<and> (\<forall>l\<in>set (fc_locations config). fl_server_ids l \<noteq> [] \<and> (\<forall>i\<in>set (fl_server_ids l). i < server_count config))
     \<and> distinct (uses (fc_locations config))"

lemma fcgi_validate_conf_ok:
  assumes "fcgi_validate_conf config = 0" "length (uses (fc_locations config)) < 256"
  shows "conf_ok config"
proof -
  let ?n = "server_count config"
  obtain used where u: "count_uses ?n (fc_locations config) (replicate ?n 0) = Some used"
      "list_all2 server_ok (fc_servers config) used" and pos: "0 < ?n" "0 < location_count config"
    using assms(1) by (auto simp: fcgi_validate_conf_def split: if_splits option.splits)
  note c = count_uses_Some [OF u(1) length_replicate]
  have b: "\<forall>k<?n. used ! k < 256" by (rule count_uses_bound [OF u(1)]) auto
  have once: "count_list (uses (fc_locations config)) k \<le> 1" if "k < ?n" for k
  proof -
    have "count_list (uses (fc_locations config)) k < 256"
      using count_le_length [of "uses (fc_locations config)" k] assms(2) by simp
    then have "used ! k = count_list (uses (fc_locations config)) k" using c b that by simp
    moreover have "used ! k < 2" using u(2) that by (auto simp: list_all2_conv_all_nth server_ok_def)
    ultimately show ?thesis by simp
  qed
  have "count_list (uses (fc_locations config)) k \<le> 1" for k
  proof (cases "k \<in> set (uses (fc_locations config))")
    case True
    then have "k < ?n" using c by (auto simp: uses_def)
    then show ?thesis by (rule once)
  next
    case False
    then show ?thesis by (simp add: count_notin)
  qed
  then have "distinct (uses (fc_locations config))"
    by (intro distinct_count) blast
  then show ?thesis using c pos by (simp add: conf_ok_def)
qed

end
