(* ===== verification/Fcgi_Fd.thy ===== *)
theory Fcgi_Fd
  imports Fcgi_Chunk Fcgi_Config
begin

text \<open>
  \<^verbatim>\<open>plugins/fastcgi/fcgi_fd.c\<close>: the connections to FastCGI servers. The connections of all servers
  are distributed over the worker threads by a matrix; every thread then has a list of its own.
\<close>

section \<open>Connections\<close>

datatype fcgi_fd_type = FCGI_FD_UNIX | FCGI_FD_INET

datatype fcgi_fd_state =
  FCGI_FD_AVAILABLE | FCGI_FD_READY | FCGI_FD_SENDING | FCGI_FD_RECEIVING | FCGI_FD_CLOSING | FCGI_FD_SLEEPING

text \<open>\<open>ff_begin_req\<close> names the request whose vector is being sent.\<close>

record fcgi_fd =
  ff_type :: fcgi_fd_type
  ff_state :: fcgi_fd_state
  ff_fd :: int
  ff_server_id :: nat
  ff_location_id :: nat
  ff_begin_req_remain :: nat
  ff_begin_req :: "nat option"
  ff_chunk :: "nat option"

definition fcgi_fd_init :: "fcgi_fd_type \<Rightarrow> nat \<Rightarrow> nat \<Rightarrow> fcgi_fd" where
  "fcgi_fd_init type server_id location_id =
     \<lparr>ff_type = type, ff_state = FCGI_FD_AVAILABLE, ff_fd = -1, ff_server_id = server_id,
      ff_location_id = location_id, ff_begin_req_remain = 0, ff_begin_req = None, ff_chunk = None\<rparr>"

definition fd_step :: "fcgi_fd_state \<Rightarrow> fcgi_fd_state \<Rightarrow> bool" where
  "fd_step old new \<longleftrightarrow>
     (case new of
        FCGI_FD_AVAILABLE \<Rightarrow> old \<in> {FCGI_FD_CLOSING, FCGI_FD_SLEEPING}
      | FCGI_FD_READY \<Rightarrow> old \<in> {FCGI_FD_AVAILABLE, FCGI_FD_RECEIVING, FCGI_FD_SLEEPING}
      | FCGI_FD_SENDING \<Rightarrow> old = FCGI_FD_READY
      | FCGI_FD_RECEIVING \<Rightarrow> old = FCGI_FD_SENDING
      | FCGI_FD_CLOSING \<Rightarrow> old \<in> {FCGI_FD_READY, FCGI_FD_RECEIVING}
      | FCGI_FD_SLEEPING \<Rightarrow> old = FCGI_FD_READY)"

definition fcgi_fd_set_state :: "fcgi_fd_state \<Rightarrow> fcgi_fd \<Rightarrow> int \<times> fcgi_fd" where
  "fcgi_fd_set_state state fd =
     (if fd_step (ff_state fd) state then (0, fd\<lparr>ff_state := state\<rparr>) else (-1, fd))"

definition fcgi_fd_set_begin_req_iov :: "nat \<Rightarrow> chunk_iov \<Rightarrow> fcgi_fd \<Rightarrow> int \<times> fcgi_fd" where
  "fcgi_fd_set_begin_req_iov r iov fd =
     (if ff_state fd \<noteq> FCGI_FD_READY then (-1, fd)
      else (0, fd\<lparr>ff_begin_req_remain := chunk_iov_length iov, ff_begin_req := Some r\<rparr>))"

text \<open>The end of the old chunk is copied to the new one, which becomes the chunk of the connection.\<close>

definition inherit_bytes :: "nat \<Rightarrow> nat \<Rightarrow> nat \<Rightarrow> chunk_mem \<Rightarrow> cerr + bool \<times> chunk_mem" where
  "inherit_bytes a b n cm =
     bindE (chunk_at cm a) (\<lambda>ca. bindE (chunk_at cm b) (\<lambda>cb.
       if ck_write cb < n \<or> \<not> n < ck_size ca - ck_write ca then Inr (False, cm)
       else
         bindE (put_bytes (ck_data ca) (ck_write ca) (take n (drop (ck_write cb - n) (ck_data cb)))) (\<lambda>data.
           let cm1 = set_chunk a (ca\<lparr>ck_data := data\<rparr>) cm; pos = ck_write ca + n in
           bindE (chunk_set_write_ptr a \<lparr>cp_parent = Some a, cp_len = ck_size ca - pos, cp_data = pos\<rparr> cm1)
             (\<lambda>(ret, cm2). Inr (ret = 0, cm2)))))"

definition fcgi_fd_set_chunk :: "nat \<Rightarrow> nat \<Rightarrow> fcgi_fd \<Rightarrow> chunk_mem \<Rightarrow> cerr + int \<times> fcgi_fd \<times> chunk_mem" where
  "fcgi_fd_set_chunk a n fd cm =
     bindE (chunk_retain a cm) (\<lambda>cm1.
       let failed = (\<lambda>cm. (-1, fd, cm\<lparr>cm_list := removeAll a (cm_list cm)\<rparr>)) in
       case ff_chunk fd of
         Some b \<Rightarrow>
           if 0 < n then
             bindE (inherit_bytes a b n cm1) (\<lambda>(ok, cm2).
               if \<not> ok then Inr (failed cm2)
               else bindE (chunk_release b cm2) (\<lambda>(_, cm3). Inr (0, fd\<lparr>ff_chunk := Some a\<rparr>, cm3)))
           else bindE (chunk_release b cm1) (\<lambda>(_, cm2). Inr (0, fd\<lparr>ff_chunk := Some a\<rparr>, cm2))
       | None \<Rightarrow>
           if n \<noteq> 0 then Inr (failed cm1) else Inr (0, fd\<lparr>ff_chunk := Some a\<rparr>, cm1))"

definition fcgi_fd_get_chunk :: "fcgi_fd \<Rightarrow> nat option" where
  "fcgi_fd_get_chunk fd = ff_chunk fd"

section \<open>The matrix\<close>

text \<open>
  The counts are unsigned 32-bit integers; \<open>u32\<close> is their wrap-around. The product of the number of
  servers and the number of threads is formed at that width too, for the size of the array as well as
  for the position of a row.
\<close>

definition u32 :: "nat \<Rightarrow> nat" where
  "u32 n = n mod 4294967296"

lemma u32_id: "n < 4294967296 \<Longrightarrow> u32 n = n"
  by (simp add: u32_def)

record fcgi_fd_matrix =
  fm_server_count :: nat
  fm_thread_count :: nat
  fm_fds :: "nat list"

definition matrix_add :: "nat \<Rightarrow> nat \<Rightarrow> fcgi_fd_matrix \<Rightarrow> cerr + fcgi_fd_matrix" where
  "matrix_add t s fdm =
     (let i = u32 (t * fm_server_count fdm + s) in
      if i < length (fm_fds fdm) then Inr (fdm\<lparr>fm_fds := (fm_fds fdm)[i := u32 (fm_fds fdm ! i + 1)]\<rparr>) else Inl OutOfBounds)"

definition matrix_set :: "nat \<Rightarrow> nat \<Rightarrow> nat \<Rightarrow> fcgi_fd_matrix \<Rightarrow> cerr + fcgi_fd_matrix" where
  "matrix_set t s v fdm =
     (let i = u32 (t * fm_server_count fdm + s) in
      if i < length (fm_fds fdm) then Inr (fdm\<lparr>fm_fds := (fm_fds fdm)[i := v]\<rparr>) else Inl OutOfBounds)"

text \<open>The inner loop for one server: \<open>j\<close> is the next thread.\<close>

fun deal :: "nat \<Rightarrow> nat \<Rightarrow> nat \<Rightarrow> fcgi_fd_matrix \<Rightarrow> cerr + nat \<times> fcgi_fd_matrix" where
  "deal srv_id 0 j fdm = Inr (j, fdm)"
| "deal srv_id (Suc fd_count) j fdm =
     bindE (matrix_add j srv_id fdm) (\<lambda>fdm'. deal srv_id fd_count ((j + 1) mod fm_thread_count fdm) fdm')"

fun deal_servers :: "fcgi_config \<Rightarrow> nat list \<Rightarrow> nat \<Rightarrow> fcgi_fd_matrix \<Rightarrow> cerr + fcgi_fd_matrix" where
  "deal_servers config [] t_clock fdm = Inr fdm"
| "deal_servers config (srv_id # ids) t_clock fdm =
     (case fcgi_config_get_server config srv_id of
        None \<Rightarrow> Inl NullDeref
      | Some srv \<Rightarrow>
          bindE (deal srv_id (sv_max_connections srv) t_clock fdm) (\<lambda>(j, fdm'). deal_servers config ids j fdm'))"

definition distribute_conns_normal :: "fcgi_location \<Rightarrow> fcgi_config \<Rightarrow> fcgi_fd_matrix \<Rightarrow> cerr + fcgi_fd_matrix" where
  "distribute_conns_normal loc config fdm =
     (if \<not> 0 < fm_thread_count fdm then Inr fdm else deal_servers config (fl_server_ids loc) 0 fdm)"

text \<open>One connection for every thread, of the servers in turn; \<open>n\<close> threads are left.\<close>

fun deal_one :: "nat list \<Rightarrow> nat \<Rightarrow> nat \<Rightarrow> nat \<Rightarrow> fcgi_fd_matrix \<Rightarrow> cerr + fcgi_fd_matrix" where
  "deal_one ids 0 t_id i fdm = Inr fdm"
| "deal_one ids (Suc n) t_id i fdm =
     bindE (matrix_set t_id (ids ! i) 1 fdm) (\<lambda>fdm'. deal_one ids n (t_id + 1) ((i + 1) mod length ids) fdm')"

definition distribute_conns_fallback :: "fcgi_location \<Rightarrow> fcgi_fd_matrix \<Rightarrow> cerr + fcgi_fd_matrix" where
  "distribute_conns_fallback loc fdm =
     (if fl_server_ids loc = [] then Inr fdm else deal_one (fl_server_ids loc) (fm_thread_count fdm) 0 0 fdm)"

text \<open>A server without a limit counts as one connection.\<close>

fun loc_fd_count :: "fcgi_config \<Rightarrow> nat list \<Rightarrow> cerr + nat" where
  "loc_fd_count config [] = Inr 0"
| "loc_fd_count config (i # ids) =
     (case fcgi_config_get_server config i of
        None \<Rightarrow> Inl NullDeref
      | Some srv \<Rightarrow>
          bindE (loc_fd_count config ids) (\<lambda>n.
            Inr (u32 ((if 0 < sv_max_connections srv then sv_max_connections srv else 1) + n))))"

fun matrix_locations :: "fcgi_config \<Rightarrow> nat \<Rightarrow> fcgi_location list \<Rightarrow> fcgi_fd_matrix \<Rightarrow> cerr + fcgi_fd_matrix" where
  "matrix_locations config worker_count [] fdm = Inr fdm"
| "matrix_locations config worker_count (loc # locs) fdm =
     bindE (loc_fd_count config (fl_server_ids loc)) (\<lambda>n.
       bindE (if n < worker_count then distribute_conns_fallback loc fdm else distribute_conns_normal loc config fdm)
         (matrix_locations config worker_count locs))"

definition fcgi_fd_matrix_create :: "fcgi_config \<Rightarrow> nat \<Rightarrow> cerr + fcgi_fd_matrix" where
  "fcgi_fd_matrix_create config worker_count =
     matrix_locations config worker_count (fc_locations config)
       \<lparr>fm_server_count = server_count config, fm_thread_count = worker_count,
        fm_fds = replicate (u32 (server_count config * worker_count)) 0\<rparr>"

definition fcgi_fd_matrix_free :: "fcgi_fd_matrix \<Rightarrow> fcgi_fd_matrix" where
  "fcgi_fd_matrix_free fdm = \<lparr>fm_server_count = 0, fm_thread_count = 0, fm_fds = []\<rparr>"

definition fcgi_fd_matrix_get :: "fcgi_fd_matrix \<Rightarrow> nat \<Rightarrow> nat \<Rightarrow> nat" where
  "fcgi_fd_matrix_get fdm thread_id server_id = fm_fds fdm ! u32 (thread_id * fm_server_count fdm + server_id)"

definition fcgi_fd_matrix_thread_sum :: "fcgi_fd_matrix \<Rightarrow> nat \<Rightarrow> nat" where
  "fcgi_fd_matrix_thread_sum fdm thread_id =
     u32 (sum_list (map (\<lambda>i. fm_fds fdm ! (u32 (thread_id * fm_server_count fdm) + i)) [0..<fm_server_count fdm]))"

section \<open>The list of a thread\<close>

text \<open>The location of every server: the last one that names it.\<close>

definition server_location_id :: "fcgi_config \<Rightarrow> nat \<Rightarrow> nat option" where
  "server_location_id config srv =
     find (\<lambda>i. srv \<in> set (fl_server_ids (fc_locations config ! i))) (rev [0..<location_count config])"

text \<open>
  \<open>cap\<close> is the number of connections there is memory for, \<open>k\<close> how many have been written: to write more
  is an error. \<open>Inr None\<close> stands for the label \<open>error\<close>.
\<close>

fun list_servers :: "fcgi_config \<Rightarrow> fcgi_fd_matrix \<Rightarrow> nat \<Rightarrow> nat \<Rightarrow> nat \<Rightarrow> nat list \<Rightarrow> cerr + fcgi_fd list option" where
  "list_servers config fdm thread_id cap k [] = Inr (Some [])"
| "list_servers config fdm thread_id cap k (i # is) =
     (case fcgi_config_get_server config i of
        None \<Rightarrow> Inr None
      | Some srv \<Rightarrow>
          let n = fcgi_fd_matrix_get fdm thread_id i;
              type = (if sv_path srv \<noteq> None then FCGI_FD_UNIX else FCGI_FD_INET)
          in if n = 0 then list_servers config fdm thread_id cap k is
             else case server_location_id config i of
                    None \<Rightarrow> Inr None
                  | Some loc \<Rightarrow>
                      if cap < k + n then Inl OutOfBounds
                      else bindE (list_servers config fdm thread_id cap (k + n) is) (\<lambda>fds.
                        Inr (map_option (\<lambda>fds. replicate n (fcgi_fd_init type i loc) @ fds) fds)))"

text \<open>
  \<open>Inr None\<close> stands for the return value \<open>-1\<close>, after which the list is empty. A row behind the end of the
  array cannot be read.
\<close>

definition fcgi_fd_list_init :: "fcgi_fd_matrix \<Rightarrow> nat \<Rightarrow> fcgi_config \<Rightarrow> cerr + fcgi_fd list option" where
  "fcgi_fd_list_init fdm thread_id config =
     (if length (fm_fds fdm) < u32 (thread_id * fm_server_count fdm) + fm_server_count fdm then Inl OutOfBounds
      else
        let fd_count = fcgi_fd_matrix_thread_sum fdm thread_id in
        bindE (list_servers config fdm thread_id fd_count 0 [0..<fm_server_count fdm]) (\<lambda>res.
          case res of
            None \<Rightarrow> Inr None
          | Some fds \<Rightarrow> Inr (if length fds = fd_count then Some fds else None)))"

text \<open>The number of connections is kept in an \<open>int\<close>: from \<open>2 ^ 31\<close> on it is negative, and nothing is found.\<close>

definition fcgi_fd_list_get :: "fcgi_fd_state set \<Rightarrow> nat \<Rightarrow> fcgi_fd list \<Rightarrow> nat option" where
  "fcgi_fd_list_get states location_id fds =
     (if 2147483648 \<le> length fds then None
      else find_index (\<lambda>fd. ff_state fd \<in> states \<and> ff_location_id fd = location_id) fds)"

definition fcgi_fd_list_get_by_fd :: "int \<Rightarrow> fcgi_fd list \<Rightarrow> nat option" where
  "fcgi_fd_list_get_by_fd fd fds = (if 2147483648 \<le> length fds then None else find_index (\<lambda>f. ff_fd f = fd) fds)"

section \<open>How connections are distributed\<close>

definition matrix_ok :: "nat \<Rightarrow> nat \<Rightarrow> fcgi_fd_matrix \<Rightarrow> bool" where
  "matrix_ok S T fdm \<longleftrightarrow> fm_server_count fdm = S \<and> fm_thread_count fdm = T \<and> length (fm_fds fdm) = S * T
     \<and> S * T < 4294967296"

lemma matrix_index: "t < T \<Longrightarrow> s < S \<Longrightarrow> t * S + s < S * T" for s :: nat
proof -
  assume t: "t < T" and s: "s < S"
  have "t * S + s < Suc t * S" using s by simp
  also have "\<dots> \<le> T * S" using t by (intro mult_le_mono1) simp
  finally show ?thesis by (simp add: mult.commute)
qed

lemma matrix_index_inj: "s < S \<Longrightarrow> s' < S \<Longrightarrow> t * S + s = t' * S + s' \<longleftrightarrow> t = t' \<and> s = s'" for s :: nat
proof
  assume s: "s < S" "s' < S" and e: "t * S + s = t' * S + s'"
  have "(t * S + s) div S = t" "(t' * S + s') div S = t'" "(t * S + s) mod S = s" "(t' * S + s') mod S = s'" using s by simp_all
  with e show "t = t' \<and> s = s'" by simp
qed simp

lemma matrix_cell:
  assumes "matrix_ok S T fdm" "t < T" "s < S"
  shows "u32 (t * fm_server_count fdm + s) = t * S + s" "fcgi_fd_matrix_get fdm t s = fm_fds fdm ! (t * S + s)"
    "t * S + s < length (fm_fds fdm)"
  using assms matrix_index [OF assms(2,3)] by (simp_all add: matrix_ok_def fcgi_fd_matrix_get_def u32_id)

lemma matrix_set_ok:
  assumes "matrix_ok S T fdm" "t < T" "s < S"
  shows "\<exists>fdm'. matrix_set t s v fdm = Inr fdm' \<and> matrix_ok S T fdm'
           \<and> (\<forall>t'<T. \<forall>s'<S. fcgi_fd_matrix_get fdm' t' s' = (if t' = t \<and> s' = s then v else fcgi_fd_matrix_get fdm t' s'))"
proof -
  let ?i = "t * S + s" let ?f = "fdm\<lparr>fm_fds := (fm_fds fdm)[?i := v]\<rparr>"
  note cell = matrix_cell [OF assms]
  have ok: "matrix_ok S T ?f" using assms(1) by (simp add: matrix_ok_def)
  have "fcgi_fd_matrix_get ?f t' s' = (if t' = t \<and> s' = s then v else fcgi_fd_matrix_get fdm t' s')" if "t' < T" "s' < S" for t' s'
    using matrix_index_inj [OF assms(3) that(2), of t t'] matrix_cell [OF ok that] matrix_cell [OF assms(1) that] cell(3)
    by (auto simp: nth_list_update)
  moreover have "matrix_set t s v fdm = Inr ?f" using cell by (simp add: matrix_set_def)
  ultimately show ?thesis using ok by blast
qed

lemma matrix_add_ok:
  assumes "matrix_ok S T fdm" "t < T" "s < S" "fcgi_fd_matrix_get fdm t s + 1 < 4294967296"
  shows "\<exists>fdm'. matrix_add t s fdm = Inr fdm' \<and> matrix_ok S T fdm'
           \<and> (\<forall>t'<T. \<forall>s'<S. fcgi_fd_matrix_get fdm' t' s' = fcgi_fd_matrix_get fdm t' s' + (if t' = t \<and> s' = s then 1 else 0))"
proof -
  have "matrix_add t s fdm = matrix_set t s (fcgi_fd_matrix_get fdm t s + 1) fdm"
    using assms(4) by (simp add: matrix_add_def matrix_set_def fcgi_fd_matrix_get_def Let_def u32_id)
  with matrix_set_ok [OF assms(1-3), of "fcgi_fd_matrix_get fdm t s + 1"] show ?thesis by auto
qed

text \<open>How often thread \<open>t\<close> is met when \<open>n\<close> connections are dealt from thread \<open>j\<close> on.\<close>

definition dealt :: "nat \<Rightarrow> nat \<Rightarrow> nat \<Rightarrow> nat \<Rightarrow> nat" where
  "dealt T j n t = length (filter (\<lambda>k. (j + k) mod T = t) [0..<n])"

lemma dealt_0 [simp]: "dealt T j 0 t = 0"
  by (simp add: dealt_def)

lemma dealt_Suc: "dealt T j (Suc n) t = dealt T j n t + (if (j + n) mod T = t then 1 else 0)"
  by (simp add: dealt_def)

lemma dealt_add: "dealt T j (m + n) t = dealt T j m t + dealt T ((j + m) mod T) n t"
proof (induction n)
  case (Suc n)
  have "((j + m) mod T + n) mod T = (j + (m + n)) mod T" by (simp add: mod_simps add.assoc)
  with Suc show ?case by (simp add: dealt_Suc)
qed simp

lemma dealt_bounds: "t < T \<Longrightarrow> dealt T 0 n t = n div T + (if t < n mod T then 1 else 0)"
proof (induction n)
  case (Suc n)
  show ?case
  proof (cases "Suc (n mod T) = T")
    case True
    then have "Suc n mod T = 0" "Suc n div T = Suc (n div T)" by (auto simp: mod_Suc div_Suc)
    moreover have "dealt T 0 n t = n div T + (if t < n mod T then 1 else 0)" by (rule Suc.IH [OF Suc.prems])
    ultimately show ?thesis using Suc.prems True by (auto simp: dealt_Suc)
  next
    case False
    then have "Suc n mod T = Suc (n mod T)" "Suc n div T = n div T" by (auto simp: mod_Suc div_Suc)
    with Suc show ?thesis by (auto simp: dealt_Suc)
  qed
qed simp

lemma dealt_total: "0 < T \<Longrightarrow> (\<Sum>t<T. dealt T j n t) = n"
proof (induction n)
  case (Suc n)
  have "(\<Sum>t<T. if (j + n) mod T = t then 1 else 0) = (1 :: nat)" using Suc.prems by (simp add: sum.delta)
  with Suc show ?case by (simp add: dealt_Suc sum.distrib)
qed simp

lemma dealt_le: "dealt T j n t \<le> n"
  unfolding dealt_def by (rule order_trans [OF length_filter_le]) simp

lemma deal_ok:
  assumes "matrix_ok S T fdm" "0 < T" "j < T" "s < S" "\<forall>t<T. fcgi_fd_matrix_get fdm t s + n < 4294967296"
  shows "\<exists>fdm'. deal s n j fdm = Inr ((j + n) mod T, fdm') \<and> matrix_ok S T fdm'
           \<and> (\<forall>t<T. \<forall>s'<S. fcgi_fd_matrix_get fdm' t s' = fcgi_fd_matrix_get fdm t s' + (if s' = s then dealt T j n t else 0))"
  using assms
proof (induction n arbitrary: j fdm)
  case (Suc n)
  obtain f1 where f1: "matrix_add j s fdm = Inr f1" "matrix_ok S T f1"
      "\<forall>t<T. \<forall>s'<S. fcgi_fd_matrix_get f1 t s' = fcgi_fd_matrix_get fdm t s' + (if t = j \<and> s' = s then 1 else 0)"
    using matrix_add_ok [OF Suc.prems(1,3,4)] Suc.prems(3,5) by fastforce
  have j': "(j + 1) mod T < T" using Suc.prems(2) by simp
  obtain f2 where f2: "deal s n ((j + 1) mod T) f1 = Inr (((j + 1) mod T + n) mod T, f2)" "matrix_ok S T f2"
      "\<forall>t<T. \<forall>s'<S. fcgi_fd_matrix_get f2 t s' = fcgi_fd_matrix_get f1 t s' + (if s' = s then dealt T ((j + 1) mod T) n t else 0)"
    using Suc.IH [OF f1(2) Suc.prems(2) j' Suc.prems(4)] f1(3) Suc.prems(4,5) by fastforce
  have d: "dealt T j (Suc n) t = (if t = j then 1 else 0) + dealt T ((j + 1) mod T) n t" for t
    using dealt_add [of T j 1 n t] dealt_Suc [of T j 0 t] Suc.prems(3) by auto
  have "((j + 1) mod T + n) mod T = (j + Suc n) mod T" by (simp add: mod_simps)
  moreover have "fm_thread_count fdm = T" using Suc.prems(1) by (simp add: matrix_ok_def)
  ultimately have "deal s (Suc n) j fdm = Inr ((j + Suc n) mod T, f2)" using f1(1) f2(1) by simp
  moreover have "fcgi_fd_matrix_get f2 t s' = fcgi_fd_matrix_get fdm t s' + (if s' = s then dealt T j (Suc n) t else 0)"
    if "t < T" "s' < S" for t s' using f1(3) f2(3) that d [of t] by simp
  ultimately show ?case using f2(2) by blast
qed simp

abbreviation conns :: "fcgi_config \<Rightarrow> nat \<Rightarrow> nat" where
  "conns config i \<equiv> sv_max_connections (fc_servers config ! i)"

lemma deal_servers_ok:
  assumes "matrix_ok (server_count config) T fdm" "0 < T" "j < T" "\<forall>i\<in>set ids. i < server_count config" "distinct ids"
    "\<forall>t<T. \<forall>s\<in>set ids. fcgi_fd_matrix_get fdm t s + conns config s < 4294967296"
  shows "\<exists>fdm'. deal_servers config ids j fdm = Inr fdm' \<and> matrix_ok (server_count config) T fdm'
           \<and> (\<forall>t<T. \<forall>s< server_count config. s \<notin> set ids \<longrightarrow> fcgi_fd_matrix_get fdm' t s = fcgi_fd_matrix_get fdm t s)
           \<and> (\<forall>t<T. (\<Sum>s\<leftarrow>ids. fcgi_fd_matrix_get fdm' t s) =
                      (\<Sum>s\<leftarrow>ids. fcgi_fd_matrix_get fdm t s) + dealt T j (\<Sum>s\<leftarrow>ids. conns config s) t)
           \<and> (\<forall>s\<in>set ids. (\<Sum>t<T. fcgi_fd_matrix_get fdm' t s) = (\<Sum>t<T. fcgi_fd_matrix_get fdm t s) + conns config s)"
  using assms
proof (induction ids arbitrary: j fdm)
  case (Cons i ids)
  have i: "i < server_count config" "i \<notin> set ids" using Cons.prems(4,5) by simp_all
  obtain f1 where f1: "deal i (conns config i) j fdm = Inr ((j + conns config i) mod T, f1)" "matrix_ok (server_count config) T f1"
      "\<forall>t<T. \<forall>s'< server_count config. fcgi_fd_matrix_get f1 t s' = fcgi_fd_matrix_get fdm t s' + (if s' = i then dealt T j (conns config i) t else 0)"
    using deal_ok [OF Cons.prems(1-3) i(1)] Cons.prems(6) by fastforce
  have j': "(j + conns config i) mod T < T" using Cons.prems(2) by simp
  have small: "\<forall>t<T. \<forall>s\<in>set ids. fcgi_fd_matrix_get f1 t s + conns config s < 4294967296"
    using f1(3) Cons.prems(4,6) i(2) by auto
  obtain f2 where f2: "deal_servers config ids ((j + conns config i) mod T) f1 = Inr f2" "matrix_ok (server_count config) T f2"
      "\<forall>t<T. \<forall>s< server_count config. s \<notin> set ids \<longrightarrow> fcgi_fd_matrix_get f2 t s = fcgi_fd_matrix_get f1 t s"
      "\<forall>t<T. (\<Sum>s\<leftarrow>ids. fcgi_fd_matrix_get f2 t s) =
         (\<Sum>s\<leftarrow>ids. fcgi_fd_matrix_get f1 t s) + dealt T ((j + conns config i) mod T) (\<Sum>s\<leftarrow>ids. conns config s) t"
      "\<forall>s\<in>set ids. (\<Sum>t<T. fcgi_fd_matrix_get f2 t s) = (\<Sum>t<T. fcgi_fd_matrix_get f1 t s) + conns config s"
    using Cons.IH [OF f1(2) Cons.prems(2) j' _ _ small] Cons.prems(4,5) by auto
  have "deal_servers config (i # ids) j fdm = Inr f2" using f1(1) f2(1) i(1) by (simp add: fcgi_config_get_server_def)
  moreover have "fcgi_fd_matrix_get f2 t s = fcgi_fd_matrix_get fdm t s" if "t < T" "s < server_count config" "s \<notin> set (i # ids)" for t s
    using f1(3) f2(3) that by simp
  moreover have "(\<Sum>s\<leftarrow>i # ids. fcgi_fd_matrix_get f2 t s) =
      (\<Sum>s\<leftarrow>i # ids. fcgi_fd_matrix_get fdm t s) + dealt T j (\<Sum>s\<leftarrow>i # ids. conns config s) t" if t: "t < T" for t
  proof -
    have "(\<Sum>s\<leftarrow>ids. fcgi_fd_matrix_get f1 t s) = (\<Sum>s\<leftarrow>ids. fcgi_fd_matrix_get fdm t s)"
      using f1(3) t i(2) Cons.prems(4) by (intro arg_cong [where f = sum_list] map_cong) auto
    moreover have "fcgi_fd_matrix_get f2 t i = fcgi_fd_matrix_get fdm t i + dealt T j (conns config i) t"
      using f1(3) f2(3) t i by simp
    ultimately show ?thesis using f2(4) t by (simp add: dealt_add)
  qed
  moreover have "(\<Sum>t<T. fcgi_fd_matrix_get f2 t s) = (\<Sum>t<T. fcgi_fd_matrix_get fdm t s) + conns config s" if s: "s \<in> set (i # ids)" for s
  proof (cases "s = i")
    case True
    have "(\<Sum>t<T. fcgi_fd_matrix_get f2 t i) = (\<Sum>t<T. fcgi_fd_matrix_get fdm t i + dealt T j (conns config i) t)"
      using f1(3) f2(3) i by (intro sum.cong) auto
    with True Cons.prems(2) show ?thesis by (simp add: sum.distrib dealt_total)
  next
    case False
    then have "s \<in> set ids" "s < server_count config" using s Cons.prems(4) by auto
    moreover from this have "(\<Sum>t<T. fcgi_fd_matrix_get f1 t s) = (\<Sum>t<T. fcgi_fd_matrix_get fdm t s)"
      using f1(3) False by (intro sum.cong) auto
    ultimately show ?thesis using f2(5) by simp
  qed
  ultimately show ?case using f2(2) by blast
qed auto

lemma deal_one_ok:
  assumes "matrix_ok S T fdm" "t0 + n = T" "\<forall>i\<in>set ids. i < S" "distinct ids" "i < length ids"
    "\<forall>t<T. t0 \<le> t \<longrightarrow> (\<forall>s\<in>set ids. fcgi_fd_matrix_get fdm t s = 0)"
  shows "\<exists>fdm'. deal_one ids n t0 i fdm = Inr fdm' \<and> matrix_ok S T fdm'
           \<and> (\<forall>t<T. \<forall>s<S. (s \<notin> set ids \<or> t < t0) \<longrightarrow> fcgi_fd_matrix_get fdm' t s = fcgi_fd_matrix_get fdm t s)
           \<and> (\<forall>t<T. t0 \<le> t \<longrightarrow> (\<Sum>s\<leftarrow>ids. fcgi_fd_matrix_get fdm' t s) = 1)"
  using assms
proof (induction n arbitrary: t0 i fdm)
  case (Suc n)
  have s: "ids ! i < S" and t0: "t0 < T" using Suc.prems(2,3,5) by auto
  obtain f1 where f1: "matrix_set t0 (ids ! i) 1 fdm = Inr f1" "matrix_ok S T f1"
      "\<forall>t<T. \<forall>s<S. fcgi_fd_matrix_get f1 t s = (if t = t0 \<and> s = ids ! i then 1 else fcgi_fd_matrix_get fdm t s)"
    using matrix_set_ok [OF Suc.prems(1) t0 s, of 1] by blast
  have i': "(i + 1) mod length ids < length ids" using Suc.prems(5) by (intro mod_less_divisor) auto
  have z: "\<forall>t<T. t0 + 1 \<le> t \<longrightarrow> (\<forall>s\<in>set ids. fcgi_fd_matrix_get f1 t s = 0)"
    using f1(3) Suc.prems(3,6) by auto
  obtain f2 where f2: "deal_one ids n (t0 + 1) ((i + 1) mod length ids) f1 = Inr f2" "matrix_ok S T f2"
      "\<forall>t<T. \<forall>s<S. (s \<notin> set ids \<or> t < t0 + 1) \<longrightarrow> fcgi_fd_matrix_get f2 t s = fcgi_fd_matrix_get f1 t s"
      "\<forall>t<T. t0 + 1 \<le> t \<longrightarrow> (\<Sum>s\<leftarrow>ids. fcgi_fd_matrix_get f2 t s) = 1"
    using Suc.IH [OF f1(2) _ Suc.prems(3,4) i' z] Suc.prems(2) by auto
  have "(\<Sum>s\<leftarrow>ids. fcgi_fd_matrix_get f2 t0 s) = (\<Sum>s\<leftarrow>ids. if s = ids ! i then 1 else 0)"
    using f1(3) f2(3) t0 Suc.prems(3,6) by (intro arg_cong [where f = sum_list] map_cong) auto
  also have "\<dots> = (\<Sum>s\<in>set ids. if s = ids ! i then 1 else 0)" using Suc.prems(4) by (rule sum_list_distinct_conv_sum_set)
  also have "\<dots> = (1 :: nat)" using Suc.prems(5) by simp
  finally have row: "(\<Sum>s\<leftarrow>ids. fcgi_fd_matrix_get f2 t0 s) = 1" .
  have "(\<Sum>s\<leftarrow>ids. fcgi_fd_matrix_get f2 t s) = 1" if "t < T" "t0 \<le> t" for t
    using f2(4) row that by (cases "t = t0") auto
  moreover have "fcgi_fd_matrix_get f2 t s = fcgi_fd_matrix_get fdm t s" if "t < T" "s < S" "s \<notin> set ids \<or> t < t0" for t s
    using f1(3) f2(3) that Suc.prems(5) by auto
  moreover have "deal_one ids (Suc n) t0 i fdm = Inr f2" using f1(1) f2(1) by simp
  ultimately show ?case using f2(2) by blast
qed auto

lemma loc_fd_count_ok:
  "\<forall>i\<in>set ids. i < server_count config \<and> 0 < conns config i \<Longrightarrow> (\<Sum>s\<leftarrow>ids. conns config s) < 4294967296 \<Longrightarrow>
     loc_fd_count config ids = Inr (\<Sum>s\<leftarrow>ids. conns config s)"
  by (induction ids) (auto simp: fcgi_config_get_server_def u32_id)

text \<open>
  What a location gets: every thread its share, and every server its limit, if there are as many
  connections as threads; otherwise every thread one connection.
\<close>

definition loc_fair :: "fcgi_config \<Rightarrow> nat \<Rightarrow> fcgi_location \<Rightarrow> fcgi_fd_matrix \<Rightarrow> bool" where
  "loc_fair config T l fdm \<longleftrightarrow>
     (let ids = fl_server_ids l; N = (\<Sum>s\<leftarrow>ids. conns config s) in
      (\<forall>t<T. (\<Sum>s\<leftarrow>ids. fcgi_fd_matrix_get fdm t s) = (if N < T then 1 else N div T + (if t < N mod T then 1 else 0)))
      \<and> (T \<le> N \<longrightarrow> (\<forall>s\<in>set ids. (\<Sum>t<T. fcgi_fd_matrix_get fdm t s) = conns config s)))"

lemma loc_fair_row:
  assumes "loc_fair config T l fdm" "t < T"
  shows "(\<Sum>s\<leftarrow>fl_server_ids l. fcgi_fd_matrix_get fdm t s) \<noteq> 0"
proof -
  let ?N = "\<Sum>s\<leftarrow>fl_server_ids l. conns config s"
  have row: "(\<Sum>s\<leftarrow>fl_server_ids l. fcgi_fd_matrix_get fdm t s) = (if ?N < T then 1 else ?N div T + (if t < ?N mod T then 1 else 0))"
    using assms by (simp add: loc_fair_def Let_def)
  show ?thesis
  proof (cases "?N < T")
    case False
    then have "0 < ?N div T" using assms(2) by (simp add: div_greater_zero_iff)
    with row False show ?thesis by simp
  qed (simp add: row)
qed

lemma loc_fair_row_le:
  assumes "loc_fair config T l fdm" "t < T" "0 < (\<Sum>s\<leftarrow>fl_server_ids l. conns config s)"
  shows "(\<Sum>s\<leftarrow>fl_server_ids l. fcgi_fd_matrix_get fdm t s) \<le> (\<Sum>s\<leftarrow>fl_server_ids l. conns config s)"
  using assms dealt_le [of T 0 "\<Sum>s\<leftarrow>fl_server_ids l. conns config s" t] dealt_bounds [OF assms(2)]
  by (auto simp: loc_fair_def Let_def split: if_splits)

lemma loc_fair_cong:
  assumes "\<And>t s. t < T \<Longrightarrow> s \<in> set (fl_server_ids l) \<Longrightarrow> fcgi_fd_matrix_get g t s = fcgi_fd_matrix_get f t s"
  shows "loc_fair config T l g \<longleftrightarrow> loc_fair config T l f"
proof -
  have "(\<Sum>s\<leftarrow>fl_server_ids l. fcgi_fd_matrix_get g t s) = (\<Sum>s\<leftarrow>fl_server_ids l. fcgi_fd_matrix_get f t s)" if "t < T" for t
    using assms that by (intro arg_cong [where f = sum_list] map_cong) auto
  moreover have "(\<Sum>t<T. fcgi_fd_matrix_get g t s) = (\<Sum>t<T. fcgi_fd_matrix_get f t s)" if "s \<in> set (fl_server_ids l)" for s
    using assms that by (intro sum.cong) auto
  ultimately show ?thesis by (simp add: loc_fair_def Let_def)
qed

lemma distribute_ok:
  assumes "matrix_ok (server_count config) T fdm" "0 < T" "fl_server_ids l \<noteq> []" "distinct (fl_server_ids l)"
    "\<forall>i\<in>set (fl_server_ids l). i < server_count config \<and> 0 < conns config i"
    "\<forall>t<T. \<forall>s\<in>set (fl_server_ids l). fcgi_fd_matrix_get fdm t s = 0" "(\<Sum>s\<leftarrow>fl_server_ids l. conns config s) < 4294967296"
  shows "\<exists>n fdm'. loc_fd_count config (fl_server_ids l) = Inr n
           \<and> (if n < T then distribute_conns_fallback l fdm else distribute_conns_normal l config fdm) = Inr fdm'
           \<and> matrix_ok (server_count config) T fdm' \<and> loc_fair config T l fdm'
           \<and> (\<forall>t<T. \<forall>s< server_count config. s \<notin> set (fl_server_ids l) \<longrightarrow> fcgi_fd_matrix_get fdm' t s = fcgi_fd_matrix_get fdm t s)"
proof -
  let ?ids = "fl_server_ids l" let ?N = "\<Sum>s\<leftarrow>?ids. conns config s"
  have n: "loc_fd_count config ?ids = Inr ?N" using assms(5,7) by (rule loc_fd_count_ok)
  have T: "fm_thread_count fdm = T" using assms(1) by (simp add: matrix_ok_def)
  have ids: "\<forall>i\<in>set ?ids. i < server_count config" using assms(5) by blast
  show ?thesis
  proof (cases "?N < T")
    case True
    obtain f where "deal_one ?ids T 0 0 fdm = Inr f" "matrix_ok (server_count config) T f"
        "\<forall>t<T. \<forall>s< server_count config. (s \<notin> set ?ids \<or> t < 0) \<longrightarrow> fcgi_fd_matrix_get f t s = fcgi_fd_matrix_get fdm t s"
        "\<forall>t<T. 0 \<le> t \<longrightarrow> (\<Sum>s\<leftarrow>?ids. fcgi_fd_matrix_get f t s) = 1"
      using deal_one_ok [OF assms(1) _ ids assms(4), of 0 T 0] assms(3,6) by auto
    with n True assms(3) T show ?thesis by (auto simp: distribute_conns_fallback_def loc_fair_def Let_def)
  next
    case False
    have "conns config s \<le> ?N" if "s \<in> set ?ids" for s using that by (intro member_le_sum_list) auto
    then have small: "\<forall>t<T. \<forall>s\<in>set ?ids. fcgi_fd_matrix_get fdm t s + conns config s < 4294967296"
      using assms(6,7) by fastforce
    obtain f where f: "deal_servers config ?ids 0 fdm = Inr f" "matrix_ok (server_count config) T f"
        "\<forall>t<T. \<forall>s< server_count config. s \<notin> set ?ids \<longrightarrow> fcgi_fd_matrix_get f t s = fcgi_fd_matrix_get fdm t s"
        "\<forall>t<T. (\<Sum>s\<leftarrow>?ids. fcgi_fd_matrix_get f t s) = (\<Sum>s\<leftarrow>?ids. fcgi_fd_matrix_get fdm t s) + dealt T 0 ?N t"
        "\<forall>s\<in>set ?ids. (\<Sum>t<T. fcgi_fd_matrix_get f t s) = (\<Sum>t<T. fcgi_fd_matrix_get fdm t s) + conns config s"
      using deal_servers_ok [OF assms(1,2,2) ids assms(4) small] by auto
    have "(\<Sum>s\<leftarrow>?ids. fcgi_fd_matrix_get fdm t s) = 0" if "t < T" for t using assms(6) that by (simp add: sum_list_eq_0_iff)
    moreover have "(\<Sum>t<T. fcgi_fd_matrix_get fdm t s) = 0" if "s \<in> set ?ids" for s using assms(6) that by simp
    ultimately have "loc_fair config T l f" using f(4,5) False by (simp add: loc_fair_def Let_def dealt_bounds)
    with n False f assms(2) T show ?thesis by (auto simp: distribute_conns_normal_def)
  qed
qed

lemma matrix_locations_ok:
  assumes "matrix_ok (server_count config) T fdm" "0 < T" "distinct (uses locs)"
    "\<forall>l\<in>set locs. fl_server_ids l \<noteq> [] \<and> (\<forall>i\<in>set (fl_server_ids l). i < server_count config \<and> 0 < conns config i)
       \<and> (\<Sum>s\<leftarrow>fl_server_ids l. conns config s) < 4294967296"
    "\<forall>t<T. \<forall>s\<in>set (uses locs). fcgi_fd_matrix_get fdm t s = 0"
  shows "\<exists>fdm'. matrix_locations config T locs fdm = Inr fdm' \<and> matrix_ok (server_count config) T fdm'
           \<and> (\<forall>l\<in>set locs. loc_fair config T l fdm')
           \<and> (\<forall>t<T. \<forall>s< server_count config. s \<notin> set (uses locs) \<longrightarrow> fcgi_fd_matrix_get fdm' t s = fcgi_fd_matrix_get fdm t s)"
  using assms
proof (induction locs arbitrary: fdm)
  case (Cons l locs)
  have u: "uses (l # locs) = fl_server_ids l @ uses locs" by (simp add: uses_def)
  have dl: "distinct (fl_server_ids l)" "distinct (uses locs)" "set (fl_server_ids l) \<inter> set (uses locs) = {}"
    using Cons.prems(3) unfolding u by auto
  have zl: "\<forall>t<T. \<forall>s\<in>set (fl_server_ids l). fcgi_fd_matrix_get fdm t s = 0" using Cons.prems(5) by (simp add: u)
  obtain n f1 where f1: "loc_fd_count config (fl_server_ids l) = Inr n"
      "(if n < T then distribute_conns_fallback l fdm else distribute_conns_normal l config fdm) = Inr f1"
      "matrix_ok (server_count config) T f1" "loc_fair config T l f1"
      "\<forall>t<T. \<forall>s< server_count config. s \<notin> set (fl_server_ids l) \<longrightarrow> fcgi_fd_matrix_get f1 t s = fcgi_fd_matrix_get fdm t s"
    using distribute_ok [OF Cons.prems(1,2) _ dl(1) _ zl] Cons.prems(4) by auto
  have less: "s < server_count config" if "s \<in> set (uses locs)" for s using that Cons.prems(4) by (auto simp: uses_def)
  have z1: "\<forall>t<T. \<forall>s\<in>set (uses locs). fcgi_fd_matrix_get f1 t s = 0"
  proof (intro allI impI ballI)
    fix t s assume t: "t < T" and s: "s \<in> set (uses locs)"
    then have "s \<notin> set (fl_server_ids l)" using dl(3) by blast
    then show "fcgi_fd_matrix_get f1 t s = 0" using f1(5) Cons.prems(5) t s less [OF s] by (simp add: u)
  qed
  obtain f2 where f2: "matrix_locations config T locs f1 = Inr f2" "matrix_ok (server_count config) T f2"
      "\<forall>l\<in>set locs. loc_fair config T l f2"
      "\<forall>t<T. \<forall>s< server_count config. s \<notin> set (uses locs) \<longrightarrow> fcgi_fd_matrix_get f2 t s = fcgi_fd_matrix_get f1 t s"
    using Cons.IH [OF f1(3) Cons.prems(2) dl(2) _ z1] Cons.prems(4) by auto
  have "loc_fair config T l f2 \<longleftrightarrow> loc_fair config T l f1"
    using f2(4) dl(3) Cons.prems(4) by (intro loc_fair_cong) auto
  moreover have "matrix_locations config T (l # locs) fdm = Inr f2" using f1(1,2) f2(1) by simp
  moreover have "\<forall>t<T. \<forall>s< server_count config. s \<notin> set (uses (l # locs)) \<longrightarrow> fcgi_fd_matrix_get f2 t s = fcgi_fd_matrix_get fdm t s"
    using f1(5) f2(4) by (simp add: u)
  ultimately show ?case using f1(4) f2(2,3) by auto
qed (auto simp: uses_def)

text \<open>The location of a server is the one that names it.\<close>

lemma uses_split:
  assumes "i < length ls" "j < length ls" "i < j" "distinct (uses ls)" "s \<in> set (fl_server_ids (ls ! i))"
  shows "s \<notin> set (fl_server_ids (ls ! j))"
proof
  assume sj: "s \<in> set (fl_server_ids (ls ! j))"
  have "uses ls = uses (take j ls) @ uses (drop j ls)" by (simp add: uses_def flip: concat_append map_append)
  moreover have "ls ! i \<in> set (take j ls)" using assms(1,3) by (auto simp: in_set_conv_nth intro!: exI [of _ i])
  then have "s \<in> set (uses (take j ls))" using assms(5) by (auto simp: uses_def)
  moreover have "ls ! j \<in> set (drop j ls)" using assms(2) by (simp add: Cons_nth_drop_Suc [symmetric])
  then have "s \<in> set (uses (drop j ls))" using sj by (auto simp: uses_def)
  ultimately show False using assms(4) by auto
qed

lemma server_location_id_eq:
  assumes "li < location_count config" "s \<in> set (fl_server_ids (fc_locations config ! li))" "distinct (uses (fc_locations config))"
  shows "server_location_id config s = Some li"
proof -
  let ?P = "\<lambda>i. s \<in> set (fl_server_ids (fc_locations config ! i))"
  have uniq: "i = li" if "i < location_count config" "?P i" for i
    using uses_split [of li "fc_locations config" i s] uses_split [of i "fc_locations config" li s] assms that
    by (metis linorder_neqE_nat)
  obtain i where i: "server_location_id config s = Some i"
    using assms(1,2) by (cases "server_location_id config s") (auto simp: server_location_id_def find_None_iff)
  then have "i < location_count config" "?P i"
    using find_spec [of "rev [0..<location_count config]" ?P] by (simp_all add: server_location_id_def)
  with uniq i show ?thesis by simp
qed

lemma list_servers_ok:
  assumes "\<forall>s\<in>set is. s < server_count config \<and> (fcgi_fd_matrix_get fdm t s \<noteq> 0 \<longrightarrow> server_location_id config s \<noteq> None)"
    "k + (\<Sum>s\<leftarrow>is. fcgi_fd_matrix_get fdm t s) \<le> cap"
  shows "\<exists>fds. list_servers config fdm t cap k is = Inr (Some fds) \<and> length fds = (\<Sum>s\<leftarrow>is. fcgi_fd_matrix_get fdm t s)
           \<and> (\<forall>s\<in>set is. \<forall>li. fcgi_fd_matrix_get fdm t s \<noteq> 0 \<and> server_location_id config s = Some li \<longrightarrow>
                (\<exists>fd\<in>set fds. ff_state fd = FCGI_FD_AVAILABLE \<and> ff_location_id fd = li))"
  using assms
proof (induction "is" arbitrary: k)
  case (Cons i "is")
  let ?n = "fcgi_fd_matrix_get fdm t i"
  have k: "k + ?n + (\<Sum>s\<leftarrow>is. fcgi_fd_matrix_get fdm t s) \<le> cap" using Cons.prems(2) by simp
  obtain fds where fds: "list_servers config fdm t cap (k + ?n) is = Inr (Some fds)" "length fds = (\<Sum>s\<leftarrow>is. fcgi_fd_matrix_get fdm t s)"
      "\<forall>s\<in>set is. \<forall>li. fcgi_fd_matrix_get fdm t s \<noteq> 0 \<and> server_location_id config s = Some li \<longrightarrow>
         (\<exists>fd\<in>set fds. ff_state fd = FCGI_FD_AVAILABLE \<and> ff_location_id fd = li)"
    using Cons.IH [OF _ k] Cons.prems(1) by auto
  have i: "i < server_count config" using Cons.prems by simp
  show ?case
  proof (cases "?n = 0")
    case True
    with fds i show ?thesis by (simp add: fcgi_config_get_server_def Let_def)
  next
    case False
    then obtain li where li: "server_location_id config i = Some li" using Cons.prems by auto
    let ?type = "if sv_path (fc_servers config ! i) \<noteq> None then FCGI_FD_UNIX else FCGI_FD_INET"
    let ?new = "replicate ?n (fcgi_fd_init ?type i li)"
    have "list_servers config fdm t cap k (i # is) = Inr (Some (?new @ fds))"
      using False li fds(1) i k by (simp add: fcgi_config_get_server_def Let_def)
    moreover have "\<exists>fd\<in>set (?new @ fds). ff_state fd = FCGI_FD_AVAILABLE \<and> ff_location_id fd = lj"
      if "s \<in> set (i # is)" "fcgi_fd_matrix_get fdm t s \<noteq> 0" "server_location_id config s = Some lj" for s lj
    proof (cases "s = i")
      case True
      with that li False show ?thesis by (auto simp: fcgi_fd_init_def)
    next
      case False
      with that fds(3) show ?thesis by auto
    qed
    moreover have "length (?new @ fds) = (\<Sum>s\<leftarrow>i # is. fcgi_fd_matrix_get fdm t s)" using fds(2) by simp
    ultimately show ?thesis by blast
  qed
qed simp

text \<open>The connections of a thread are no more than the servers allow in all.\<close>

lemma sum_uses: "(\<Sum>s\<leftarrow>uses ls. g s) = (\<Sum>l\<leftarrow>ls. \<Sum>s\<leftarrow>fl_server_ids l. g s)" for g :: "nat \<Rightarrow> nat"
  by (induction ls) (simp_all add: uses_def)

lemma uses_conns:
  assumes "distinct (uses ls)" "\<forall>s\<in>set (uses ls). s < server_count config"
  shows "(\<Sum>s\<leftarrow>uses ls. conns config s) \<le> sum_list (map sv_max_connections (fc_servers config))"
proof -
  have "(\<Sum>s\<leftarrow>uses ls. conns config s) = (\<Sum>s\<in>set (uses ls). conns config s)"
    by (rule sum_list_distinct_conv_sum_set [OF assms(1)])
  also have "\<dots> \<le> (\<Sum>s\<in>{..<server_count config}. conns config s)" using assms(2) by (intro sum_mono2) auto
  also have "\<dots> = sum_list (map sv_max_connections (fc_servers config))"
    by (simp add: sum_list_sum_nth atLeast0LessThan)
  finally show ?thesis .
qed

lemma thread_row_le:
  assumes "distinct (uses ls)" "\<forall>s\<in>set (uses ls). s < server_count config" "t < T"
    "\<forall>l\<in>set ls. loc_fair config T l fdm \<and> 0 < (\<Sum>s\<leftarrow>fl_server_ids l. conns config s)"
    "\<forall>s< server_count config. s \<notin> set (uses ls) \<longrightarrow> fcgi_fd_matrix_get fdm t s = 0"
  shows "(\<Sum>s\<leftarrow>[0..<server_count config]. fcgi_fd_matrix_get fdm t s) \<le> sum_list (map sv_max_connections (fc_servers config))"
proof -
  have "(\<Sum>s\<leftarrow>[0..<server_count config]. fcgi_fd_matrix_get fdm t s) = (\<Sum>s\<in>{..<server_count config}. fcgi_fd_matrix_get fdm t s)"
    by (simp add: sum_list_distinct_conv_sum_set atLeast0LessThan)
  also have "\<dots> = (\<Sum>s\<in>set (uses ls). fcgi_fd_matrix_get fdm t s)"
    using assms(2,5) by (intro sum.mono_neutral_right) auto
  also have "\<dots> = (\<Sum>s\<leftarrow>uses ls. fcgi_fd_matrix_get fdm t s)"
    using sum_list_distinct_conv_sum_set [OF assms(1)] by metis
  also have "\<dots> \<le> (\<Sum>s\<leftarrow>uses ls. conns config s)"
    unfolding sum_uses by (rule sum_list_mono, rule loc_fair_row_le) (use assms(3,4) in auto)
  also note uses_conns [OF assms(1,2)]
  finally show ?thesis .
qed

lemma thread_sum_ok:
  assumes "matrix_ok S T fdm" "t < T" "(\<Sum>s\<leftarrow>[0..<S]. fcgi_fd_matrix_get fdm t s) < 4294967296"
  shows "fcgi_fd_matrix_thread_sum fdm t = (\<Sum>s\<leftarrow>[0..<S]. fcgi_fd_matrix_get fdm t s)"
    "u32 (t * fm_server_count fdm) + fm_server_count fdm \<le> length (fm_fds fdm)"
proof -
  have S: "fm_server_count fdm = S" "length (fm_fds fdm) = S * T" "S * T < 4294967296" using assms(1) by (simp_all add: matrix_ok_def)
  have "Suc t * S \<le> T * S" using assms(2) by (intro mult_le_mono1) simp
  then have le: "t * S + S \<le> S * T" by (simp add: ac_simps)
  then have row: "u32 (t * S) = t * S" using S(3) by (intro u32_id) simp
  show "u32 (t * fm_server_count fdm) + fm_server_count fdm \<le> length (fm_fds fdm)" using S(1,2) row le by simp
  have "(\<Sum>s\<leftarrow>[0..<S]. fm_fds fdm ! (t * S + s)) = (\<Sum>s\<leftarrow>[0..<S]. fcgi_fd_matrix_get fdm t s)"
    using matrix_cell(2) [OF assms(1,2)] by (intro arg_cong [where f = sum_list] map_cong) auto
  then show "fcgi_fd_matrix_thread_sum fdm t = (\<Sum>s\<leftarrow>[0..<S]. fcgi_fd_matrix_get fdm t s)"
    using assms(3) by (simp add: fcgi_fd_matrix_thread_sum_def S(1) row u32_id)
qed

text \<open>The list of a thread has an available connection for every location.\<close>

lemma thread_list_ok:
  assumes "matrix_ok (server_count config) T fdm" "t < T" "distinct (uses (fc_locations config))"
    "\<forall>s\<in>set (uses (fc_locations config)). s < server_count config" "\<forall>l\<in>set (fc_locations config). loc_fair config T l fdm"
    "\<And>l. l \<in> set (fc_locations config) \<Longrightarrow> 0 < (\<Sum>s\<leftarrow>fl_server_ids l. conns config s)"
    "\<forall>s< server_count config. s \<notin> set (uses (fc_locations config)) \<longrightarrow> fcgi_fd_matrix_get fdm t s = 0"
    "sum_list (map sv_max_connections (fc_servers config)) < 2147483648"
  shows "\<exists>fds. fcgi_fd_list_init fdm t config = Inr (Some fds) \<and> (\<forall>li< location_count config. fcgi_fd_list_get {FCGI_FD_AVAILABLE} li fds \<noteq> None)"
proof -
  let ?S = "server_count config" and ?L = "fc_locations config" and ?n = "\<Sum>s\<leftarrow>[0..<server_count config]. fcgi_fd_matrix_get fdm t s"
  have loc: "server_location_id config s \<noteq> None" if "s < ?S" "fcgi_fd_matrix_get fdm t s \<noteq> 0" for s
  proof -
    have "s \<in> set (uses ?L)" using assms(7) [rule_format, OF that(1)] that(2) by (rule contrapos_np [rotated])
    then obtain l where "l \<in> set ?L" "s \<in> set (fl_server_ids l)" by (auto simp: uses_def)
    then obtain li where "li < location_count config" "s \<in> set (fl_server_ids (?L ! li))" by (metis in_set_conv_nth)
    then show ?thesis using server_location_id_eq assms(3) by auto
  qed
  have n: "?n \<le> sum_list (map sv_max_connections (fc_servers config))" by (rule thread_row_le [OF assms(3,4,2) _ assms(7)]) (use assms(5,6) in auto)
  have sum: "fcgi_fd_matrix_thread_sum fdm t = ?n" and row: "u32 (t * fm_server_count fdm) + fm_server_count fdm \<le> length (fm_fds fdm)"
    using thread_sum_ok [OF assms(1,2)] n assms(8) by simp_all
  obtain fds where fds: "list_servers config fdm t ?n 0 [0..< ?S] = Inr (Some fds)" "length fds = ?n"
      "\<forall>s\<in>set [0..< ?S]. \<forall>li. fcgi_fd_matrix_get fdm t s \<noteq> 0 \<and> server_location_id config s = Some li \<longrightarrow>
         (\<exists>fd\<in>set fds. ff_state fd = FCGI_FD_AVAILABLE \<and> ff_location_id fd = li)"
    using list_servers_ok [of "[0..< ?S]" config fdm t 0 ?n] loc by auto
  have S: "fm_server_count fdm = ?S" using assms(1) by (simp add: matrix_ok_def)
  have "fcgi_fd_list_init fdm t config = Inr (Some fds)"
    using fds(1,2) sum row by (simp add: fcgi_fd_list_init_def S Let_def)
  moreover have "fcgi_fd_list_get {FCGI_FD_AVAILABLE} li fds \<noteq> None" if li: "li < location_count config" for li
  proof -
    let ?l = "?L ! li"
    have "(\<Sum>s\<leftarrow>fl_server_ids ?l. fcgi_fd_matrix_get fdm t s) \<noteq> 0" using assms(2,5) li by (intro loc_fair_row) auto
    then obtain s where s: "s \<in> set (fl_server_ids ?l)" "fcgi_fd_matrix_get fdm t s \<noteq> 0" by (auto simp: sum_list_eq_0_iff)
    have "s \<in> set (uses ?L)" using li s(1) by (auto simp: uses_def)
    then have "s < ?S" using assms(4) by blast
    moreover have "server_location_id config s = Some li" by (rule server_location_id_eq [OF li s(1) assms(3)])
    ultimately have "\<exists>fd\<in>set fds. ff_state fd = FCGI_FD_AVAILABLE \<and> ff_location_id fd = li" using fds(3) s(2) by simp
    then show ?thesis using fds(2) n assms(8) by (simp add: fcgi_fd_list_get_def)
  qed
  ultimately show ?thesis by blast
qed

text \<open>
  C38: how connections are distributed over the worker threads. For a configuration that passed the
  validation and in which every server has a limit (\<open>MaxConnections\<close>), with fewer than \<open>2 ^ 31\<close> connections
  in all and a matrix of fewer than \<open>2 ^ 32\<close> cells, so that the unsigned sums do not wrap around, the
  matrix is created and every worker sets up its list. For every location, when its servers allow at
  least as many connections as there are workers, the numbers of connections of any two workers differ by
  at most one and every server gets exactly its limit. When they allow fewer, every worker gets one
  connection all the same: in this fallback more connections are handed out than the limits
  allow, and nothing is said about how many of them the servers accept (the source warns that threads
  will be starved then when connections are kept alive). In both cases the list of every worker starts
  with an unconnected entry for every location.
\<close>

theorem fcgi_connections_distributed:
  assumes "fcgi_validate_conf config = 0" "length (uses (fc_locations config)) < 256"
    "\<forall>srv\<in>set (fc_servers config). 0 < sv_max_connections srv" "0 < T"
    "server_count config * T < 2 ^ 32" "sum_list (map sv_max_connections (fc_servers config)) < 2 ^ 31"
  shows "\<exists>fdm. fcgi_fd_matrix_create config T = Inr fdm \<and> (\<forall>l\<in>set (fc_locations config). loc_fair config T l fdm)
           \<and> (\<forall>t<T. \<exists>fds. fcgi_fd_list_init fdm t config = Inr (Some fds)
                \<and> (\<forall>li< location_count config. fcgi_fd_list_get {FCGI_FD_AVAILABLE} li fds \<noteq> None))"
proof -
  have ok: "conf_ok config" by (rule fcgi_validate_conf_ok [OF assms(1,2)])
  let ?S = "server_count config" and ?L = "fc_locations config" and ?M = "sum_list (map sv_max_connections (fc_servers config))"
  let ?f0 = "\<lparr>fm_server_count = ?S, fm_thread_count = T, fm_fds = replicate (?S * T) 0\<rparr>"
  have dist: "distinct (uses ?L)" using ok by (simp add: conf_ok_def)
  have ids0: "\<forall>l\<in>set ?L. fl_server_ids l \<noteq> [] \<and> (\<forall>i\<in>set (fl_server_ids l). i < ?S \<and> 0 < conns config i)"
    using ok assms(3) by (auto simp: conf_ok_def)
  then have used: "\<forall>s\<in>set (uses ?L). s < ?S" by (auto simp: uses_def)
  have pos: "0 < (\<Sum>s\<leftarrow>fl_server_ids l. conns config s)" if "l \<in> set ?L" for l
    using ids0 that by (cases "fl_server_ids l") auto
  have "(\<Sum>s\<leftarrow>fl_server_ids l. conns config s) \<le> ?M" if "l \<in> set ?L" for l
  proof -
    have "(\<Sum>s\<leftarrow>fl_server_ids l. conns config s) \<le> (\<Sum>l\<leftarrow>?L. \<Sum>s\<leftarrow>fl_server_ids l. conns config s)"
      using that by (intro member_le_sum_list) auto
    then show ?thesis using uses_conns [OF dist used] by (simp add: sum_uses)
  qed
  then have ids: "\<forall>l\<in>set ?L. fl_server_ids l \<noteq> [] \<and> (\<forall>i\<in>set (fl_server_ids l). i < ?S \<and> 0 < conns config i)
      \<and> (\<Sum>s\<leftarrow>fl_server_ids l. conns config s) < 4294967296"
    using ids0 assms(6) by fastforce
  have m0: "matrix_ok ?S T ?f0" using assms(5) by (simp add: matrix_ok_def)
  have z0: "fcgi_fd_matrix_get ?f0 t s = 0" if "t < T" "s < ?S" for t s
    using matrix_cell [OF m0 that] by simp
  have zu: "\<forall>t<T. \<forall>s\<in>set (uses ?L). fcgi_fd_matrix_get ?f0 t s = 0" using ids z0 by (auto simp: uses_def)
  obtain fdm where f: "matrix_locations config T ?L ?f0 = Inr fdm" "matrix_ok ?S T fdm" "\<forall>l\<in>set ?L. loc_fair config T l fdm"
      "\<forall>t<T. \<forall>s< ?S. s \<notin> set (uses ?L) \<longrightarrow> fcgi_fd_matrix_get fdm t s = fcgi_fd_matrix_get ?f0 t s"
    using matrix_locations_ok [OF m0 assms(4) dist ids zu] by blast
  have unused: "\<forall>s< ?S. s \<notin> set (uses ?L) \<longrightarrow> fcgi_fd_matrix_get fdm t s = 0" if "t < T" for t using f(4) z0 that by simp
  have "\<exists>fds. fcgi_fd_list_init fdm t config = Inr (Some fds) \<and> (\<forall>li< location_count config. fcgi_fd_list_get {FCGI_FD_AVAILABLE} li fds \<noteq> None)"
    if t: "t < T" for t
    by (rule thread_list_ok [OF f(2) t dist used f(3) pos unused [OF t]]) (use assms(6) in simp_all)
  moreover have "fcgi_fd_matrix_create config T = Inr fdm" using f(1) assms(5) by (simp add: fcgi_fd_matrix_create_def u32_id)
  ultimately show ?thesis using f(3) by blast
qed

definition demo_fcgi_config :: fcgi_config where
  "demo_fcgi_config =
     \<lparr>fc_servers = [\<lparr>sv_name = ''php'', sv_path = Some ''/tmp/php.sock'', sv_addr = None, sv_port = 0,
                     sv_mpx_connection = False, sv_max_connections = 5, sv_max_requests = 0\<rparr>],
      fc_locations = [\<lparr>fl_name = ''php'', fl_match_regex = ''/*.php'', fl_keep_alive = True, fl_server_ids = [0]\<rparr>]\<rparr>"

lemma demo_fcgi_config_valid: "fcgi_validate_conf demo_fcgi_config = 0"
  by (simp add: fcgi_validate_conf_def demo_fcgi_config_def use_server_def server_ok_def)

theorem fcgi_connections_distributed_witness:
  "\<exists>fdm fds. fcgi_fd_matrix_create demo_fcgi_config 2 = Inr fdm \<and> fcgi_fd_list_init fdm 1 demo_fcgi_config = Inr (Some fds)
     \<and> fcgi_fd_list_get {FCGI_FD_AVAILABLE} 0 fds \<noteq> None"
proof -
  have c: "length (uses (fc_locations demo_fcgi_config)) < 256" "\<forall>srv\<in>set (fc_servers demo_fcgi_config). 0 < sv_max_connections srv"
    "(0 :: nat) < 2" "server_count demo_fcgi_config * 2 < 2 ^ 32" "sum_list (map sv_max_connections (fc_servers demo_fcgi_config)) < 2 ^ 31"
    by (simp_all add: demo_fcgi_config_def uses_def)
  from fcgi_connections_distributed [OF demo_fcgi_config_valid c] obtain fdm where
    "fcgi_fd_matrix_create demo_fcgi_config 2 = Inr fdm"
    "\<forall>t<2. \<exists>fds. fcgi_fd_list_init fdm t demo_fcgi_config = Inr (Some fds)
       \<and> (\<forall>li< location_count demo_fcgi_config. fcgi_fd_list_get {FCGI_FD_AVAILABLE} li fds \<noteq> None)" by auto
  moreover have "0 < location_count demo_fcgi_config" by (simp add: demo_fcgi_config_def)
  ultimately show ?thesis by (metis one_less_numeral_iff semiring_norm(76))
qed

text \<open>
  Without the limit of a server the count and the distribution disagree: a location whose servers
  have no \<open>MaxConnections\<close> gets no connection at all when there are at most as many workers as
  servers.
\<close>

lemma no_limit_no_connection:
  assumes "config = \<lparr>fc_servers = [srv], fc_locations = [l]\<rparr>" "fl_server_ids l = [0]" "sv_max_connections srv = 0"
  shows "\<exists>fdm. fcgi_fd_matrix_create config 1 = Inr fdm \<and> fcgi_fd_list_init fdm 0 config = Inr (Some [])"
  using assms by (simp add: fcgi_fd_matrix_create_def fcgi_config_get_server_def distribute_conns_normal_def
      fcgi_fd_list_init_def fcgi_fd_matrix_get_def fcgi_fd_matrix_thread_sum_def u32_def Let_def)

end
