(* ===== verification/Fcgi_Context.thy ===== *)
theory Fcgi_Context
  imports Fcgi_Request Fcgi_Fd Mk_Epoll
begin

text \<open>
  \<^verbatim>\<open>plugins/fastcgi/fcgi_context.c\<close>: what a worker thread owns. The chunk list is part of the memory
  of the thread. Everything the plugin does to sockets and to the event queue is an entry of the
  trace, as is every package that was received.
\<close>

datatype fcgi_effect =
    XSendv int cstr
  | XSend int cstr
  | XMode int epoll_mode
  | XEventAdd int
  | XEventDel int
  | XClose int
  | XCork int bool
  | XHeaders int session_request
  | XRequestEnd int
  | XRequestError int int
  | XPackage fcgi_header cstr

record fcgi_context =
  fx_thread_id :: nat
  fx_mem :: chunk_mem
  fx_rl :: request_list
  fx_fdl :: "fcgi_fd list"
  fx_trace :: "fcgi_effect list"

definition fcgi_context_free :: "fcgi_context \<Rightarrow> cerr + fcgi_context" where
  "fcgi_context_free cx =
     bindE (request_list_free (fx_rl cx) (fx_mem cx)) (\<lambda>(rl, cm).
       bindE (chunk_list_free_chunks cm) (\<lambda>cm'. Inr (cx\<lparr>fx_rl := rl, fx_fdl := [], fx_mem := cm'\<rparr>)))"

text \<open>
  The offset of the request ids is converted to 16 bits. When a part cannot be initialised the whole
  context is freed, with the list of chunks (and perhaps the requests) never set: undefined.
\<close>

definition fcgi_context_init ::
  "alloc \<Rightarrow> fcgi_fd_matrix \<Rightarrow> nat \<Rightarrow> nat \<Rightarrow> fcgi_config \<Rightarrow> fcgi_context \<Rightarrow> cerr + int \<times> fcgi_context" where
  "fcgi_context_init al fdm thread_id capacity config cx =
     (let offset = (1 + capacity * thread_id) mod 65536 in
      bindE (request_list_init al (location_count config) offset capacity (fx_rl cx) (fx_mem cx)) (\<lambda>(ret, rl, cm).
        if ret \<noteq> 0 then Inl UseAfterFree
        else
          bindE (fcgi_fd_list_init fdm thread_id config) (\<lambda>res.
            case res of
              None \<Rightarrow> Inl UseAfterFree
            | Some fds \<Rightarrow> Inr (0, cx\<lparr>fx_rl := rl, fx_fdl := fds, fx_mem := chunk_list_init cm\<rparr>))))"

record fcgi_context_list =
  xl_thread_id_counter :: nat
  xl_tds :: "fcgi_context list"

text \<open>The contexts of the threads from \<open>i\<close> on; \<open>blank\<close> is the memory a context is made from.\<close>

fun init_contexts ::
  "alloc \<Rightarrow> fcgi_fd_matrix \<Rightarrow> nat \<Rightarrow> fcgi_config \<Rightarrow> fcgi_context \<Rightarrow> nat \<Rightarrow> nat \<Rightarrow> cerr + (int \<times> fcgi_context list)" where
  "init_contexts al fdm capacity config blank i 0 = Inr (0, [])"
| "init_contexts al fdm capacity config blank i (Suc n) =
     bindE (fcgi_context_init al fdm i capacity config (blank\<lparr>fx_thread_id := i\<rparr>)) (\<lambda>(ret, cx).
       if ret \<noteq> 0 then Inr (-1, [cx])
       else bindE (init_contexts al fdm capacity config blank (i + 1) n) (\<lambda>(ret', cxs). Inr (ret', cx # cxs)))"

definition fcgi_context_list_init ::
  "alloc \<Rightarrow> fcgi_config \<Rightarrow> nat \<Rightarrow> nat \<Rightarrow> fcgi_context \<Rightarrow> cerr + int \<times> fcgi_context_list" where
  "fcgi_context_list_init al config nworkers nconn blank =
     bindE (fcgi_fd_matrix_create config nworkers) (\<lambda>fdm.
       let capacity = unat (next_power_of_2 (word_of_nat nconn));
           none = \<lparr>xl_thread_id_counter = 0, xl_tds = []\<rparr>
       in if \<not> 0 < capacity \<or> \<not> capacity < 65535 then Inr (-1, none)
          else bindE (init_contexts al fdm capacity config blank 0 nworkers) (\<lambda>(ret, cxs).
            Inr (if ret \<noteq> 0 then (-1, none) else (0, \<lparr>xl_thread_id_counter = 0, xl_tds = cxs\<rparr>))))"

text \<open>The contexts are freed one by one; the chunks of each are in the memory of its thread.\<close>

fun free_contexts :: "fcgi_context list \<Rightarrow> cerr + fcgi_context list" where
  "free_contexts [] = Inr []"
| "free_contexts (cx # cxs) = bindE (fcgi_context_free cx) (\<lambda>cx'. bindE (free_contexts cxs) (\<lambda>cxs'. Inr (cx' # cxs')))"

definition fcgi_context_list_free :: "fcgi_context_list \<Rightarrow> cerr + fcgi_context_list" where
  "fcgi_context_list_free xl = bindE (free_contexts (xl_tds xl)) (\<lambda>_. Inr (xl\<lparr>xl_tds := []\<rparr>))"

text \<open>
  \<open>fcgi_context_list_assign_thread_id\<close>: the test is made before the lock is taken; the two parts are
  the steps in which threads can alternate.
\<close>

definition assign_test :: "fcgi_context_list \<Rightarrow> bool" where
  "assign_test xl \<longleftrightarrow> xl_thread_id_counter xl < length (xl_tds xl)"

definition assign_take :: "fcgi_context_list \<Rightarrow> nat \<times> fcgi_context_list" where
  "assign_take xl = (xl_thread_id_counter xl, xl\<lparr>xl_thread_id_counter := xl_thread_id_counter xl + 1\<rparr>)"

definition fcgi_context_list_assign_thread_id :: "fcgi_context_list \<Rightarrow> int \<times> fcgi_context_list" where
  "fcgi_context_list_assign_thread_id xl =
     (if \<not> assign_test xl then (-1, xl) else let (i, xl') = assign_take xl in (int i, xl'))"

definition fcgi_context_list_get :: "int \<Rightarrow> fcgi_context_list \<Rightarrow> fcgi_context option" where
  "fcgi_context_list_get thread_id xl =
     (if 0 \<le> thread_id \<and> thread_id < int (length (xl_tds xl)) then Some (xl_tds xl ! nat thread_id) else None)"

section \<open>Parts of the context\<close>

definition fd_of :: "nat \<Rightarrow> fcgi_context \<Rightarrow> fcgi_fd" where
  "fd_of f cx = fx_fdl cx ! f"

definition set_fd :: "nat \<Rightarrow> fcgi_fd \<Rightarrow> fcgi_context \<Rightarrow> fcgi_context" where
  "set_fd f fd cx = cx\<lparr>fx_fdl := (fx_fdl cx)[f := fd]\<rparr>"

definition req_of :: "nat \<Rightarrow> fcgi_context \<Rightarrow> request" where
  "req_of r cx = rl_rs (fx_rl cx) ! r"

definition set_req :: "nat \<Rightarrow> request \<Rightarrow> fcgi_context \<Rightarrow> fcgi_context" where
  "set_req r req cx = cx\<lparr>fx_rl := (fx_rl cx)\<lparr>rl_rs := (rl_rs (fx_rl cx))[r := req]\<rparr>\<rparr>"

definition xemit :: "fcgi_effect \<Rightarrow> fcgi_context \<Rightarrow> fcgi_context" where
  "xemit e cx = cx\<lparr>fx_trace := fx_trace cx @ [e]\<rparr>"

section \<open>The invariant\<close>

text \<open>
  The references of the vectors and of the connections are the references the memory counts, the list
  of requests is in order, a connection that sends names a request, and the vectors hold what they
  point to.
\<close>

definition req_refs :: "request \<Rightarrow> chunk_ref multiset" where
  "req_refs r = mset (map ie_ref (ci_io (rq_iov r)))"

definition fd_refs :: "fcgi_fd \<Rightarrow> chunk_ref multiset" where
  "fd_refs fd = (case ff_chunk fd of None \<Rightarrow> {#} | Some c \<Rightarrow> {#CHUNK_REF_CHUNK c#})"

definition all_refs :: "('a \<Rightarrow> chunk_ref multiset) \<Rightarrow> 'a list \<Rightarrow> chunk_ref multiset" where
  "all_refs f xs = sum_list (map f xs)"

definition ctx_refs :: "fcgi_context \<Rightarrow> chunk_ref multiset" where
  "ctx_refs cx = all_refs req_refs (rl_rs (fx_rl cx)) + all_refs fd_refs (fx_fdl cx)"

definition ctx_ok :: "fcgi_context \<Rightarrow> bool" where
  "ctx_ok cx \<longleftrightarrow>
     counted (fx_mem cx) (ctx_refs cx) \<and> list_ok (fx_rl cx)
     \<and> (\<forall>fd\<in>set (fx_fdl cx). \<forall>r. ff_begin_req fd = Some r \<longrightarrow> r < rl_size (fx_rl cx))
     \<and> (\<forall>req\<in>set (rl_rs (fx_rl cx)). iov_ok (rq_iov req))"

lemma all_refs_upd:
  "i < length xs \<Longrightarrow> all_refs f (xs[i := y]) = f y + all_refs f (take i xs @ drop (Suc i) xs)"
  "i < length xs \<Longrightarrow> all_refs f xs = f (xs ! i) + all_refs f (take i xs @ drop (Suc i) xs)"
  by (simp add: all_refs_def upd_conv_take_nth_drop) (subst id_take_nth_drop [of i], auto simp: all_refs_def)

lemma list_ok_set_req: "list_ok rl \<Longrightarrow> list_ok (rl\<lparr>rl_rs := (rl_rs rl)[r := req]\<rparr>)"
  by (simp add: list_ok_def)

lemma ctx_ok_D:
  assumes "ctx_ok cx"
  shows "counted (fx_mem cx) (ctx_refs cx)" "list_ok (fx_rl cx)" "mem_ok (fx_mem cx)"
    "length (rl_rs (fx_rl cx)) = rl_size (fx_rl cx)"
    "f < length (fx_fdl cx) \<Longrightarrow> ff_begin_req (fd_of f cx) = Some r \<Longrightarrow> r < rl_size (fx_rl cx)"
    "r < rl_size (fx_rl cx) \<Longrightarrow> iov_ok (rq_iov (req_of r cx))"
  using assms counted_D(1) by (auto simp: ctx_ok_def list_ok_def fd_of_def req_of_def)

text \<open>The references other than those of one request, or of one connection.\<close>

definition rest_req :: "nat \<Rightarrow> fcgi_context \<Rightarrow> chunk_ref multiset" where
  "rest_req r cx = all_refs req_refs (take r (rl_rs (fx_rl cx)) @ drop (Suc r) (rl_rs (fx_rl cx))) + all_refs fd_refs (fx_fdl cx)"

definition rest_fd :: "nat \<Rightarrow> fcgi_context \<Rightarrow> chunk_ref multiset" where
  "rest_fd f cx = all_refs req_refs (rl_rs (fx_rl cx)) + all_refs fd_refs (take f (fx_fdl cx) @ drop (Suc f) (fx_fdl cx))"

lemma ctx_refs_req: "r < length (rl_rs (fx_rl cx)) \<Longrightarrow> ctx_refs cx = req_refs (req_of r cx) + rest_req r cx"
  by (simp add: ctx_refs_def rest_req_def req_of_def all_refs_upd(2))

lemma ctx_refs_set_req: "r < length (rl_rs (fx_rl cx)) \<Longrightarrow> ctx_refs (set_req r req cx) = req_refs req + rest_req r cx"
  by (simp add: ctx_refs_def rest_req_def set_req_def all_refs_upd(1))

lemma ctx_refs_fd: "f < length (fx_fdl cx) \<Longrightarrow> ctx_refs cx = fd_refs (fd_of f cx) + rest_fd f cx"
  by (simp add: ctx_refs_def rest_fd_def fd_of_def all_refs_upd(2))

lemma ctx_refs_set_fd: "f < length (fx_fdl cx) \<Longrightarrow> ctx_refs (set_fd f fd cx) = fd_refs fd + rest_fd f cx"
  by (simp add: ctx_refs_def rest_fd_def set_fd_def all_refs_upd(1))

lemma ctx_refs_frame [simp]:
  "ctx_refs (cx\<lparr>fx_mem := cm\<rparr>) = ctx_refs cx" "ctx_refs (cx\<lparr>fx_trace := t\<rparr>) = ctx_refs cx" "ctx_refs (xemit e cx) = ctx_refs cx"
  "rest_req r (cx\<lparr>fx_mem := cm\<rparr>) = rest_req r cx" "rest_fd f (cx\<lparr>fx_mem := cm\<rparr>) = rest_fd f cx"
  by (simp_all add: ctx_refs_def xemit_def rest_req_def rest_fd_def)

lemma ctx_ok_xemit [simp]: "ctx_ok (xemit e cx) \<longleftrightarrow> ctx_ok cx"
  by (simp add: ctx_ok_def) (simp add: xemit_def)

lemma ctx_ok_set_req:
  assumes "ctx_ok cx" "r < rl_size (fx_rl cx)" "counted cm (req_refs req + rest_req r cx)" "iov_ok (rq_iov req)"
  shows "ctx_ok (set_req r req (cx\<lparr>fx_mem := cm\<rparr>))"
proof -
  have r: "r < length (rl_rs (fx_rl cx))" using assms(2) ctx_ok_D(4) [OF assms(1)] by simp
  then have "ctx_refs (set_req r req (cx\<lparr>fx_mem := cm\<rparr>)) = req_refs req + rest_req r cx"
    using ctx_refs_set_req [of r "cx\<lparr>fx_mem := cm\<rparr>" req] by simp
  moreover have "list_ok (fx_rl (set_req r req (cx\<lparr>fx_mem := cm\<rparr>)))"
    using ctx_ok_D(2) [OF assms(1)] by (simp add: set_req_def list_ok_set_req)
  moreover have "set ((rl_rs (fx_rl cx))[r := req]) \<subseteq> insert req (set (rl_rs (fx_rl cx)))" by (rule set_update_subset_insert)
  ultimately show ?thesis using assms(1,3,4) by (simp add: ctx_ok_def) (auto simp: set_req_def)
qed

lemma ctx_ok_set_fd:
  assumes "ctx_ok cx" "f < length (fx_fdl cx)" "counted cm (fd_refs fd + rest_fd f cx)"
    "\<forall>r. ff_begin_req fd = Some r \<longrightarrow> r < rl_size (fx_rl cx)"
  shows "ctx_ok (set_fd f fd (cx\<lparr>fx_mem := cm\<rparr>))"
proof -
  have "ctx_refs (set_fd f fd (cx\<lparr>fx_mem := cm\<rparr>)) = fd_refs fd + rest_fd f cx"
    using ctx_refs_set_fd [of f "cx\<lparr>fx_mem := cm\<rparr>" fd] assms(2) by simp
  moreover have "set ((fx_fdl cx)[f := fd]) \<subseteq> insert fd (set (fx_fdl cx))" by (rule set_update_subset_insert)
  ultimately show ?thesis using assms by (simp add: ctx_ok_def) (auto simp: set_fd_def)
qed

text \<open>Changes that keep the references.\<close>

lemma ctx_ok_req_field:
  assumes "ctx_ok cx" "r < rl_size (fx_rl cx)" "rq_iov req = rq_iov (req_of r cx)"
  shows "ctx_ok (set_req r req cx)"
proof -
  have "r < length (rl_rs (fx_rl cx))" using assms(2) ctx_ok_D(4) [OF assms(1)] by simp
  moreover have "req_refs req = req_refs (req_of r cx)" using assms(3) by (simp add: req_refs_def)
  ultimately have "counted (fx_mem cx) (req_refs req + rest_req r cx)"
    using ctx_ok_D(1) [OF assms(1)] ctx_refs_req by metis
  from ctx_ok_set_req [OF assms(1,2) this] assms(3) ctx_ok_D(6) [OF assms(1,2)] show ?thesis by simp
qed

lemma ctx_ok_fd_field:
  assumes "ctx_ok cx" "f < length (fx_fdl cx)" "ff_chunk fd = ff_chunk (fd_of f cx)"
    "\<forall>r. ff_begin_req fd = Some r \<longrightarrow> r < rl_size (fx_rl cx)"
  shows "ctx_ok (set_fd f fd cx)"
proof -
  have "fd_refs fd = fd_refs (fd_of f cx)" using assms(3) by (simp add: fd_refs_def)
  then have "counted (fx_mem cx) (fd_refs fd + rest_fd f cx)"
    using ctx_ok_D(1) [OF assms(1)] ctx_refs_fd [OF assms(2)] by metis
  from ctx_ok_set_fd [OF assms(1,2) this assms(4)] show ?thesis by simp
qed

lemma ctx_ok_set_cache:
  "ctx_ok cx \<Longrightarrow> list_ok rl \<Longrightarrow> rl_rs rl = rl_rs (fx_rl cx) \<Longrightarrow> rl_size rl = rl_size (fx_rl cx) \<Longrightarrow> ctx_ok (cx\<lparr>fx_rl := rl\<rparr>)"
  by (simp add: ctx_ok_def ctx_refs_def)

lemma set_simps [simp]:
  "length (fx_fdl (set_fd f fd cx)) = length (fx_fdl cx)" "fx_rl (set_fd f fd cx) = fx_rl cx" "fx_mem (set_fd f fd cx) = fx_mem cx"
  "fx_fdl (set_req r req cx) = fx_fdl cx" "fx_mem (set_req r req cx) = fx_mem cx" "rl_size (fx_rl (set_req r req cx)) = rl_size (fx_rl cx)"
  "fx_trace (set_fd f fd cx) = fx_trace cx" "fx_trace (set_req r req cx) = fx_trace cx"
  "fx_fdl (xemit e cx) = fx_fdl cx" "fx_rl (xemit e cx) = fx_rl cx" "fx_mem (xemit e cx) = fx_mem cx"
  "fd_of f (set_req r req cx) = fd_of f cx" "fd_of f (xemit e cx) = fd_of f cx" "req_of r (set_fd f fd cx) = req_of r cx"
  "req_of r (xemit e cx) = req_of r cx"
  "f < length (fx_fdl cx) \<Longrightarrow> fd_of f (set_fd f fd cx) = fd"
  "r < length (rl_rs (fx_rl cx)) \<Longrightarrow> req_of r (set_req r req cx) = req"
  by (simp_all add: set_fd_def set_req_def xemit_def fd_of_def req_of_def)

section \<open>The first context\<close>

lemma counted_next: "counted cm R \<Longrightarrow> cm_next cm \<le> n \<Longrightarrow> counted (cm\<lparr>cm_next := n\<rparr>) R"
  by (fastforce simp: counted_def mem_ok_def)

lemma alloc_ok_counted: "counted cm R \<Longrightarrow> alloc_ok al cm = (ok, cm') \<Longrightarrow> counted cm' R"
  by (auto simp: alloc_ok_def intro: counted_next)

lemma chunk_iov_init_counted:
  "counted cm R \<Longrightarrow> chunk_iov_init al n empty_iov cm = (ret, iov, cm') \<Longrightarrow> counted cm' R \<and> ci_io iov = []"
  by (auto simp: chunk_iov_init_def alloc_ok_def Let_def empty_iov_def split: if_splits intro: counted_next)

lemma init_requests_counted:
  "counted cm R \<Longrightarrow> init_requests al n cm = (ok, rs, cm') \<Longrightarrow>
     counted cm' R \<and> (ok \<longrightarrow> length rs = n) \<and> (\<forall>req\<in>set rs. ci_io (rq_iov req) = [])"
proof (induction n arbitrary: cm ok rs cm')
  case (Suc n)
  obtain ret req cm1 where q: "request_init al 4 cm = (ret, req, cm1)" by (metis prod_cases3)
  then have 1: "counted cm1 R" "ci_io (rq_iov req) = []"
    using chunk_iov_init_counted [OF Suc.prems(1)] by (auto simp: request_init_def new_request_def split: prod.splits)
  obtain ok2 rs2 cm2 where q2: "init_requests al n cm1 = (ok2, rs2, cm2)" by (metis prod_cases3)
  from Suc.IH [OF 1(1) q2] Suc.prems(2) q q2 1 show ?case by (auto split: if_splits)
qed auto

lemma all_refs_empty: "(\<forall>x\<in>set xs. f x = {#}) \<Longrightarrow> all_refs f xs = {#}"
  by (induction xs) (auto simp: all_refs_def)

text \<open>The memory a context is made from: an array of 32 cache entries, and no chunks.\<close>

definition blank_ok :: "fcgi_context \<Rightarrow> bool" where
  "blank_ok cx \<longleftrightarrow> counted (fx_mem cx) {#} \<and> length (rc_entries (rl_cache (fx_rl cx))) = 32 \<and> fx_trace cx = []"

lemma request_list_init_ok:
  assumes "counted cm {#}" "length (rc_entries (rl_cache rl)) = 32" "request_list_init al clocks off (2 ^ k) rl cm = Inr (0, rl', cm')"
  shows "list_ok rl' \<and> counted cm' {#} \<and> (\<forall>req\<in>set (rl_rs rl'). ci_io (rq_iov req) = [])"
proof -
  obtain cm1 cm2 rs cm3 where 1: "alloc_ok al cm = (True, cm1)" "alloc_ok al cm1 = (True, cm2)" "init_requests al (2 ^ k) cm2 = (True, rs, cm3)"
      and rl': "rl' = rl\<lparr>rl_cache := request_cache_init (rl_cache rl), rl_size := 2 ^ k, rl_id_offset := off, rl_clock_count := clocks,
            rl_clock_hands := replicate clocks 0, rl_rs := rs\<rparr>" "cm' = cm3"
    using assms(3) by (auto simp: request_list_init_def Let_def bindE_Inr_iff split: if_splits prod.splits)
  have c: "counted cm3 {#}" "length rs = 2 ^ k" "\<forall>req\<in>set rs. ci_io (rq_iov req) = []"
    using init_requests_counted [OF _ 1(3)] alloc_ok_counted [OF alloc_ok_counted [OF assms(1) 1(1)] 1(2)] by auto
  have "cache_ok (2 ^ k) (request_cache_init (rl_cache rl))"
    using assms(2) by (auto simp: cache_ok_def request_cache_init_def REQ_CACHE_SIZE_def)
  then have "list_ok rl'" using c(2) rl' by (auto simp: list_ok_def)
  with c rl' show ?thesis by simp
qed

lemma list_servers_fresh:
  "list_servers config fdm t cap k is = Inr (Some fds) \<Longrightarrow> fd \<in> set fds \<Longrightarrow> ff_chunk fd = None \<and> ff_begin_req fd = None"
  by (induction "is" arbitrary: fds k) (auto simp: Let_def fcgi_fd_init_def bindE_Inr_iff split: option.splits if_splits)

lemma fcgi_context_init_ok:
  assumes "blank_ok cx" "fcgi_context_init al fdm t (2 ^ k) config cx = Inr (ret, cx')"
  shows "ctx_ok cx' \<and> fx_trace cx' = []"
proof -
  obtain rl cm fds where l: "request_list_init al (location_count config) ((1 + 2 ^ k * t) mod 65536) (2 ^ k) (fx_rl cx) (fx_mem cx) = Inr (0, rl, cm)"
      "fcgi_fd_list_init fdm t config = Inr (Some fds)" "cx' = cx\<lparr>fx_rl := rl, fx_fdl := fds, fx_mem := chunk_list_init cm\<rparr>"
    using assms(2) by (auto simp: fcgi_context_init_def bindE_Inr_iff split: if_splits option.splits)
  have r: "list_ok rl" "counted cm {#}" "\<forall>req\<in>set (rl_rs rl). ci_io (rq_iov req) = []"
    using request_list_init_ok [OF _ _ l(1)] assms(1) by (simp_all add: blank_ok_def)
  have f: "\<forall>fd\<in>set fds. ff_chunk fd = None \<and> ff_begin_req fd = None"
    using l(2) list_servers_fresh by (auto simp: fcgi_fd_list_init_def Let_def bindE_Inr_iff split: option.splits if_splits)
  have "ctx_refs cx' = {#}" using r(3) f l(3) by (simp add: ctx_refs_def all_refs_empty req_refs_def fd_refs_def)
  moreover have "counted (chunk_list_init cm) {#}" using r(2) by (simp add: counted_def chunk_list_init_def mem_ok_def)
  moreover have "iov_ok (rq_iov req)" if "req \<in> set (rl_rs rl)" for req using r(3) that by (simp add: iov_ok_def)
  ultimately show ?thesis using r(1) f l(3) assms(1) by (simp add: ctx_ok_def blank_ok_def)
qed

lemma init_contexts_ok:
  "blank_ok blank \<Longrightarrow> init_contexts al fdm (2 ^ k) config blank i n = Inr (ret, cxs) \<Longrightarrow> cx \<in> set cxs \<Longrightarrow> ctx_ok cx \<and> fx_trace cx = []"
proof (induction n arbitrary: i ret cxs)
  case (Suc n)
  have b: "blank_ok (blank\<lparr>fx_thread_id := i\<rparr>)" using Suc.prems(1) by (simp add: blank_ok_def)
  obtain ret1 cx1 where 1: "fcgi_context_init al fdm i (2 ^ k) config (blank\<lparr>fx_thread_id := i\<rparr>) = Inr (ret1, cx1)"
    using Suc.prems(2) by (auto simp: bindE_Inr_iff)
  from fcgi_context_init_ok [OF b 1] Suc show ?case by (auto simp: 1 bindE_Inr_iff split: if_splits)
qed simp

lemma fcgi_context_list_init_ok:
  assumes "fcgi_context_list_init al config nworkers nconn blank = Inr (0, xl)" "blank_ok blank" "nconn \<le> 32768" "cx \<in> set (xl_tds xl)"
  shows "ctx_ok cx \<and> fx_trace cx = []"
proof -
  let ?n = "unat (next_power_of_2 (word_of_nat nconn))"
  obtain fdm cxs where i: "0 < ?n" "init_contexts al fdm ?n config blank 0 nworkers = Inr (0, cxs)" "xl_tds xl = cxs"
    using assms(1) by (auto simp: fcgi_context_list_init_def Let_def bindE_Inr_iff split: if_splits)
  have "nconn \<noteq> 0" using i(1) next_power_of_2_zero by (cases "nconn = 0") auto
  then obtain k where "?n = 2 ^ k" using next_power_of_2_correct [of nconn] assms(3) by auto
  with i assms(2,4) init_contexts_ok show ?thesis by metis
qed

end
