(* ===== verification/Fcgi_Recv.thy ===== *)
theory Fcgi_Recv
  imports Fcgi_Context
begin

text \<open>
  \<open>fcgi_recv_response\<close> of \<^verbatim>\<open>plugins/fastcgi/fastcgi.c\<close>: bytes from a FastCGI server are read into
  chunks and cut into packages, each of which goes to a handler; a package that is not complete is
  moved to a new chunk. The handler is a parameter, as it is in the source.
\<close>

section \<open>The socket\<close>

text \<open>
  What the socket has for the plugin: portions of data, the end of the stream, nothing at the moment,
  an error. A read takes at most as much as it asks for, and less when a portion ends.
\<close>

datatype sock_answer = SData cstr | SEof | SAgain | SError

fun sock_read :: "sock_answer list \<Rightarrow> nat \<Rightarrow> sock_answer \<times> sock_answer list" where
  "sock_read [] n = (SAgain, [])"
| "sock_read (SData bs # as) n =
     (if n = 0 \<or> bs = [] then (SEof, as)
      else (SData (take n bs), if length bs \<le> n then as else SData (drop n bs) # as))"
| "sock_read (a # as) n = (a, as)"

fun answer_size :: "sock_answer \<Rightarrow> nat" where
  "answer_size (SData bs) = length bs + 1"
| "answer_size a = 1"

definition answers_size :: "sock_answer list \<Rightarrow> nat" where
  "answers_size as = sum_list (map answer_size as)"

lemma sock_read_less:
  "sock_read as n = (SData bs, as') \<Longrightarrow> answers_size as' < answers_size as \<and> bs \<noteq> [] \<and> length bs \<le> n"
  by (cases "(as, n)" rule: sock_read.cases) (auto simp: answers_size_def split: if_splits)

section \<open>The code\<close>

type_synonym pkg_handler = "nat \<Rightarrow> nat option \<Rightarrow> fcgi_header \<Rightarrow> chunk_ptr \<Rightarrow> fcgi_context \<Rightarrow> cerr + int \<times> fcgi_context"

record recv_vars =
  rv_pkg_size :: nat
  rv_inherit :: nat
  rv_c :: "nat option"
  rv_write :: chunk_ptr
  rv_read :: chunk_ptr

definition null_ptr :: chunk_ptr where
  "null_ptr = \<lparr>cp_parent = None, cp_len = 0, cp_data = 0\<rparr>"

definition ptr_add :: "nat \<Rightarrow> chunk_ptr \<Rightarrow> chunk_ptr" where
  "ptr_add n p = p\<lparr>cp_data := cp_data p + n, cp_len := cp_len p - n\<rparr>"

text \<open>The memory a pointer can read: from its position to the end of the chunk.\<close>

definition ptr_view :: "chunk_mem \<Rightarrow> chunk_ptr \<Rightarrow> cerr + cstr" where
  "ptr_view cm p =
     (case cp_parent p of
        None \<Rightarrow> Inl NullDeref
      | Some c \<Rightarrow> bindE (chunk_at cm c) (\<lambda>ck. Inr (drop (cp_data p) (ck_data ck))))"

text \<open>A new chunk when bytes have to be moved or the space is less than a header.\<close>

definition recv_new_chunk :: "alloc \<Rightarrow> nat \<Rightarrow> recv_vars \<Rightarrow> fcgi_context \<Rightarrow> cerr + bool \<times> recv_vars \<times> fcgi_context" where
  "recv_new_chunk al f v cx =
     (if \<not> (0 < rv_inherit v \<or> cp_len (rv_write v) < FCGI_HEADER_LEN) then Inr (True, v, cx)
      else
        let n = (if CHUNK_SIZE 8192 < rv_pkg_size v then SIZE_CHUNK (rv_pkg_size v) else 8192);
            (c, cm) = chunk_new al n (fx_mem cx)
        in case c of
             None \<Rightarrow> Inr (False, v\<lparr>rv_c := None\<rparr>, cx\<lparr>fx_mem := cm\<rparr>)
           | Some a \<Rightarrow>
               bindE (fcgi_fd_set_chunk a (rv_inherit v) (fd_of f cx) (chunk_list_add a cm)) (\<lambda>(ret, fd, cm').
                 let cx' = set_fd f fd (cx\<lparr>fx_mem := cm'\<rparr>) in
                 if ret \<noteq> 0 then Inr (False, v\<lparr>rv_c := Some a\<rparr>, cx')
                 else bindE (chunk_at cm' a) (\<lambda>ck.
                   Inr (True, v\<lparr>rv_c := Some a, rv_write := chunk_write_ptr a ck, rv_inherit := 0\<rparr>, cx'))))"

datatype recv_status = RFailed | RDone | RMore

text \<open>The bytes that were read are in the chunk.\<close>

definition recv_data :: "cstr \<Rightarrow> recv_vars \<Rightarrow> fcgi_context \<Rightarrow> cerr + recv_status \<times> recv_vars \<times> fcgi_context" where
  "recv_data bs v cx =
     (case rv_c v of
        None \<Rightarrow> Inl NullDeref
      | Some c \<Rightarrow>
          bindE (chunk_at (fx_mem cx) c) (\<lambda>ck.
            bindE (put_bytes (ck_data ck) (cp_data (rv_write v)) bs) (\<lambda>d.
              let w = ptr_add (length bs) (rv_write v); cm1 = set_chunk c (ck\<lparr>ck_data := d\<rparr>) (fx_mem cx) in
              bindE (chunk_set_write_ptr c w cm1) (\<lambda>(ret, cm2).
                if ret \<noteq> 0 then Inr (RFailed, v\<lparr>rv_write := w\<rparr>, cx\<lparr>fx_mem := cm2\<rparr>)
                else bindE (chunk_at cm2 c) (\<lambda>ck'.
                  Inr (RMore, v\<lparr>rv_write := w, rv_read := chunk_read_ptr c ck'\<rparr>, cx\<lparr>fx_mem := cm2\<rparr>))))))"

lemma bindE_cong [fundef_cong]:
  "m = m' \<Longrightarrow> (\<And>a. m' = Inr a \<Longrightarrow> f a = g a) \<Longrightarrow> bindE m f = bindE m' g"
  by (cases m') auto

lemma pkg_length_pos [simp]: "0 < pkg_length h" "8 \<le> pkg_length h"
  by (simp_all add: pkg_length_def FCGI_HEADER_LEN_def)

text \<open>The loop over the packages in the read part of the chunk.\<close>

function pkg_loop :: "pkg_handler \<Rightarrow> nat \<Rightarrow> recv_vars \<Rightarrow> fcgi_context \<Rightarrow> cerr + bool \<times> recv_vars \<times> fcgi_context" where
  "pkg_loop hp f v cx =
     (let read = rv_read v in
      if cp_len read = 0 then Inr (True, v, cx)
      else if cp_len read < FCGI_HEADER_LEN then
        Inr (True, v\<lparr>rv_pkg_size := FCGI_HEADER_LEN, rv_inherit := cp_len read, rv_read := ptr_add (cp_len read) read\<rparr>, cx)
      else
        bindE (ptr_view (fx_mem cx) read) (\<lambda>bs. bindE (fcgi_read_header bs) (\<lambda>h.
          if cp_len read < pkg_length h then
            Inr (True, v\<lparr>rv_pkg_size := pkg_length h, rv_inherit := cp_len read, rv_read := ptr_add (cp_len read) read\<rparr>, cx)
          else
            bindE (request_list_get (unat (fh_req_id h)) (fx_rl cx)) (\<lambda>(req, rl).
              bindE (hp f req h read (xemit (XPackage h (take (pkg_length h) bs)) (cx\<lparr>fx_rl := rl\<rparr>))) (\<lambda>(ret, cx').
                if ret \<noteq> 0 then Inr (False, v\<lparr>rv_pkg_size := pkg_length h\<rparr>, cx')
                else pkg_loop hp f (v\<lparr>rv_pkg_size := pkg_length h, rv_read := ptr_add (pkg_length h) read\<rparr>) cx')))))"
  by pat_completeness auto
termination
  by (relation "measure (\<lambda>(hp, f, v, cx). cp_len (rv_read v))") (auto simp: ptr_add_def)

declare pkg_loop.simps [simp del]

text \<open>The packages are handled, and the end of the read part is kept in the chunk.\<close>

definition recv_packages ::
  "pkg_handler \<Rightarrow> nat \<Rightarrow> recv_status \<Rightarrow> recv_vars \<Rightarrow> fcgi_context \<Rightarrow> cerr + recv_status \<times> recv_vars \<times> fcgi_context" where
  "recv_packages hp f st v cx =
     bindE (pkg_loop hp f v cx) (\<lambda>(ok, v', cx').
       if \<not> ok then Inr (RFailed, v', cx')
       else
         case (cp_parent (rv_read v'), rv_c v') of
           (Some p, Some c) \<Rightarrow>
             if p = c then
               bindE (chunk_set_read_ptr c (rv_read v') (fx_mem cx')) (\<lambda>(ret, cm).
                 Inr (if ret \<noteq> 0 then RFailed else st, v', cx'\<lparr>fx_mem := cm\<rparr>))
             else Inr (st, v', cx')
         | _ \<Rightarrow> Inr (st, v', cx'))"

text \<open>The answer of the socket.\<close>

definition recv_answer ::
  "nat \<Rightarrow> sock_answer \<Rightarrow> recv_vars \<Rightarrow> fcgi_context \<Rightarrow> cerr + recv_status \<times> recv_vars \<times> fcgi_context" where
  "recv_answer f ans v cx =
     (case ans of
        SEof \<Rightarrow>
          let (ret, fd) = fcgi_fd_set_state FCGI_FD_CLOSING (fd_of f cx) in
          Inr (if ret \<noteq> 0 then RFailed else RDone, v, set_fd f fd cx)
      | SAgain \<Rightarrow> Inr (RDone, v, cx)
      | SError \<Rightarrow> Inr (RFailed, v, cx)
      | SData bs \<Rightarrow> recv_data bs v cx)"

definition recv_round ::
  "alloc \<Rightarrow> pkg_handler \<Rightarrow> nat \<Rightarrow> sock_answer list \<Rightarrow> recv_vars \<Rightarrow> fcgi_context
     \<Rightarrow> cerr + recv_status \<times> recv_vars \<times> fcgi_context \<times> sock_answer list" where
  "recv_round al hp f as v cx =
     bindE (recv_new_chunk al f v cx) (\<lambda>(ok, v1, cx1).
       if \<not> ok then Inr (RFailed, v1, cx1, as)
       else
         let (ans, as') = sock_read as (cp_len (rv_write v1)) in
         bindE (recv_answer f ans v1 cx1) (\<lambda>(st, v2, cx2).
           if st = RFailed then Inr (RFailed, v2, cx2, as')
           else bindE (recv_packages hp f st v2 cx2) (\<lambda>(st', v3, cx3). Inr (st', v3, cx3, as'))))"

lemma recv_packages_status: "recv_packages hp f st v cx = Inr (st', v', cx') \<Longrightarrow> st' = st \<or> st' = RFailed"
  by (auto simp: recv_packages_def bindE_Inr_iff split: if_splits option.splits)

lemma recv_answer_data: "recv_answer f ans v cx = Inr (RMore, v', cx') \<Longrightarrow> \<exists>bs. ans = SData bs"
  by (cases ans) (auto simp: recv_answer_def split: if_splits prod.splits)

lemma recv_round_less:
  assumes "recv_round al hp f as v cx = Inr (RMore, v', cx', as')"
  shows "answers_size as' < answers_size as"
proof -
  obtain v1 cx1 ans v2 cx2 st2 where 2: "sock_read as (cp_len (rv_write v1)) = (ans, as')" and 3: "recv_answer f ans v1 cx1 = Inr (st2, v2, cx2)"
      and 4: "recv_packages hp f st2 v2 cx2 = Inr (RMore, v', cx')"
    using assms by (auto simp: recv_round_def bindE_Inr_iff split: prod.splits if_splits)
  from recv_packages_status [OF 4] have "st2 = RMore" by auto
  with 3 recv_answer_data sock_read_less 2 show ?thesis by blast
qed

function recv_loop ::
  "alloc \<Rightarrow> pkg_handler \<Rightarrow> nat \<Rightarrow> sock_answer list \<Rightarrow> recv_vars \<Rightarrow> fcgi_context \<Rightarrow> cerr + int \<times> fcgi_context" where
  "recv_loop al hp f as v cx =
     bindE (recv_round al hp f as v cx) (\<lambda>(st, v', cx', as').
       case st of
         RFailed \<Rightarrow> Inr (-1, set_fd f (snd (fcgi_fd_set_state FCGI_FD_CLOSING (fd_of f cx'))) cx')
       | RDone \<Rightarrow> Inr (0, cx')
       | RMore \<Rightarrow> recv_loop al hp f as' v' cx')"
  by pat_completeness auto
termination
  by (relation "measure (\<lambda>(al, hp, f, as, v, cx). answers_size as)") (auto intro: recv_round_less)

declare recv_loop.simps [simp del]

definition fcgi_recv_response ::
  "alloc \<Rightarrow> pkg_handler \<Rightarrow> nat \<Rightarrow> sock_answer list \<Rightarrow> fcgi_context \<Rightarrow> cerr + int \<times> fcgi_context" where
  "fcgi_recv_response al hp f as cx =
     (case fcgi_fd_get_chunk (fd_of f cx) of
        None \<Rightarrow> recv_loop al hp f as \<lparr>rv_pkg_size = 0, rv_inherit = 0, rv_c = None, rv_write = null_ptr, rv_read = null_ptr\<rparr> cx
      | Some c \<Rightarrow>
          bindE (chunk_at (fx_mem cx) c) (\<lambda>ck.
            recv_loop al hp f as \<lparr>rv_pkg_size = 0, rv_inherit = 0, rv_c = Some c, rv_write = chunk_write_ptr c ck,
                                  rv_read = chunk_read_ptr c ck\<rparr> cx))"

section \<open>Packages of a byte stream\<close>

text \<open>The packages at the start of a text, with all their bytes, and the bytes that are left.\<close>

function frames :: "cstr \<Rightarrow> (fcgi_header \<times> cstr) list \<times> cstr" where
  "frames bs =
     (if length bs < FCGI_HEADER_LEN then ([], bs)
      else
        case fcgi_read_header bs of
          Inl e \<Rightarrow> ([], bs)
        | Inr h \<Rightarrow>
            if length bs < pkg_length h then ([], bs)
            else let (fs, r) = frames (drop (pkg_length h) bs) in ((h, take (pkg_length h) bs) # fs, r))"
  by pat_completeness auto
termination by (relation "measure length") (auto simp: FCGI_HEADER_LEN_def intro!: diff_less)

declare frames.simps [simp del]

fun pkgs :: "fcgi_effect list \<Rightarrow> (fcgi_header \<times> cstr) list" where
  "pkgs [] = []"
| "pkgs (e # es) = (case e of XPackage h bs \<Rightarrow> (h, bs) # pkgs es | _ \<Rightarrow> pkgs es)"

lemma pkgs_append [simp]: "pkgs (xs @ ys) = pkgs xs @ pkgs ys"
  by (induction xs) (auto split: fcgi_effect.splits)

fun stream :: "sock_answer list \<Rightarrow> cstr" where
  "stream (SData bs # as) = (if bs = [] then [] else bs @ stream as)"
| "stream as = []"

lemma sock_read_stream:
  "sock_read as n = (ans, as') \<Longrightarrow> 0 < n \<Longrightarrow>
     (case ans of SData bs \<Rightarrow> stream as = bs @ stream as' | _ \<Rightarrow> stream as = [])"
proof (cases "(as, n)" rule: sock_read.cases)
  case (2 bs as'' m)
  then show "sock_read as n = (ans, as') \<Longrightarrow> 0 < n \<Longrightarrow> ?thesis"
    by (cases "length bs \<le> n") (auto split: if_splits simp flip: append_assoc)
qed auto

lemma read_header_Inr: "8 \<le> length bs \<Longrightarrow> \<exists>h. fcgi_read_header bs = Inr h"
  by (simp add: fcgi_read_header_def)

lemma read_header_take: "7 \<le> n \<Longrightarrow> n \<le> length bs \<Longrightarrow> fcgi_read_header (take n bs) = fcgi_read_header bs"
  by (simp add: fcgi_read_header_def rd_byte_def)

lemma read_header_append: "7 \<le> length bs \<Longrightarrow> fcgi_read_header (bs @ cs) = fcgi_read_header bs"
  using read_header_take [of "length bs" "bs @ cs"] by simp

lemma frames_short: "length bs < FCGI_HEADER_LEN \<Longrightarrow> frames bs = ([], bs)"
  by (simp add: frames.simps [of bs])

lemma frames_partial: "fcgi_read_header bs = Inr h \<Longrightarrow> length bs < pkg_length h \<Longrightarrow> frames bs = ([], bs)"
  by (simp add: frames.simps [of bs])

lemma frames_step:
  "fcgi_read_header bs = Inr h \<Longrightarrow> 8 \<le> length bs \<Longrightarrow> pkg_length h \<le> length bs \<Longrightarrow>
     frames bs = ((h, take (pkg_length h) bs) # fst (frames (drop (pkg_length h) bs)), snd (frames (drop (pkg_length h) bs)))"
  by (simp add: frames.simps [of bs] FCGI_HEADER_LEN_def split: prod.split)

lemma frames_append:
  "fst (frames (x @ y)) = fst (frames x) @ fst (frames (snd (frames x) @ y))
   \<and> snd (frames (x @ y)) = snd (frames (snd (frames x) @ y))"
proof (induction x rule: frames.induct)
  case (1 x)
  show ?case
  proof (cases "length x < FCGI_HEADER_LEN")
    case True
    then show ?thesis by (simp add: frames_short)
  next
    case False
    then have l: "8 \<le> length x" by (simp add: FCGI_HEADER_LEN_def)
    obtain h where h: "fcgi_read_header x = Inr h" using read_header_Inr [OF l] by blast
    show ?thesis
    proof (cases "length x < pkg_length h")
      case True
      with h show ?thesis by (simp add: frames_partial)
    next
      case short: False
      have hx: "fcgi_read_header (x @ y) = Inr h" using h l by (simp add: read_header_append)
      have IH: "fst (frames (drop (pkg_length h) x @ y)) = fst (frames (drop (pkg_length h) x)) @ fst (frames (snd (frames (drop (pkg_length h) x)) @ y))"
        "snd (frames (drop (pkg_length h) x @ y)) = snd (frames (snd (frames (drop (pkg_length h) x)) @ y))"
        using 1 [OF False h short] by auto
      have "frames (x @ y) = ((h, take (pkg_length h) x) # fst (frames (drop (pkg_length h) x @ y)), snd (frames (drop (pkg_length h) x @ y)))"
        using frames_step [OF hx] l short by simp
      with frames_step [OF h l] short IH show ?thesis by simp
    qed
  qed
qed

lemma frames_rest: "length (snd (frames x)) \<le> length x \<and> drop (length x - length (snd (frames x))) x = snd (frames x)"
proof (induction x rule: frames.induct)
  case (1 x)
  show ?case
  proof (cases "length x < FCGI_HEADER_LEN")
    case True
    then show ?thesis by (simp add: frames_short)
  next
    case False
    then have l: "8 \<le> length x" by (simp add: FCGI_HEADER_LEN_def)
    obtain h where h: "fcgi_read_header x = Inr h" using read_header_Inr [OF l] by blast
    show ?thesis
    proof (cases "length x < pkg_length h")
      case True
      with h show ?thesis by (simp add: frames_partial)
    next
      case short: False
      let ?d = "drop (pkg_length h) x"
      have IH: "length (snd (frames ?d)) \<le> length ?d" "drop (length ?d - length (snd (frames ?d))) ?d = snd (frames ?d)"
        using 1 [OF False h short] by auto
      then have "drop (length x - length (snd (frames ?d))) x = snd (frames ?d)" using short by (simp add: algebra_simps)
      with frames_step [OF h l] short IH(1) show ?thesis by simp
    qed
  qed
qed

section \<open>New chunks\<close>

lemma chunk_new_counted:
  assumes "counted cm R" "chunk_new al n cm = (r, cm1)"
  shows "case r of
           None \<Rightarrow> counted cm1 R
         | Some a \<Rightarrow> counted (chunk_list_add a cm1) R \<and> CHUNK_REF_CHUNK a \<notin># R \<and> cm_chunks cm a = None
             \<and> (\<exists>ck. cm_chunks (chunk_list_add a cm1) = (cm_chunks cm)(a \<mapsto> ck) \<and> ck_read ck = 0 \<and> ck_write ck = 0
                  \<and> ck_size ck = CHUNK_SIZE n)"
proof (cases "al (cm_next cm)")
  case None
  then have "r = None" "cm1 = cm\<lparr>cm_next := cm_next cm + 1\<rparr>" using assms(2) by (simp_all add: chunk_new_def Let_def)
  then show ?thesis using assms(1) by (auto simp: counted_def mem_ok_def less_Suc_eq)
next
  case (Some fill)
  let ?a = "cm_next cm"
  let ?ck = "\<lparr>ck_read = 0, ck_write = 0, ck_size = CHUNK_SIZE n, ck_refs = 0, ck_data = map fill [0..<CHUNK_SIZE n]\<rparr>"
  have r: "r = Some ?a" "cm1 = set_chunk ?a ?ck (cm\<lparr>cm_next := ?a + 1\<rparr>)" using assms(2) Some by (auto simp: chunk_new_def Let_def)
  have fresh: "cm_chunks cm ?a = None" using counted_D(1) [OF assms(1)] by (cases "cm_chunks cm ?a") (auto simp: mem_ok_def)
  then have notin: "CHUNK_REF_CHUNK ?a \<notin># R" using counted_D(5) [OF assms(1), of ?a] by auto
  have "mem_ok (chunk_list_add ?a cm1)"
    using counted_D(1) [OF assms(1)] by (auto simp: r mem_ok_def set_chunk_def chunk_list_add_def less_Suc_eq)
  moreover have "?a \<notin> set (cm_list cm)" using counted_D(3) [OF assms(1)] fresh by auto
  ultimately have "counted (chunk_list_add ?a cm1) R"
    using assms(1) notin by (auto simp: counted_def r set_chunk_def chunk_list_add_def not_in_iff)
  then show ?thesis using r fresh notin by (auto simp: set_chunk_def chunk_list_add_def)
qed

text \<open>Moving \<open>n\<close> bytes from the end of the written part of chunk \<open>b\<close> to chunk \<open>a\<close>.\<close>

lemma inherit_bytes_ok:
  assumes "counted cm R" "cm_chunks cm a = Some ca" "cm_chunks cm b = Some cb" "a \<noteq> b" "n \<le> ck_write cb" "n < ck_size ca - ck_write ca"
  shows "\<exists>d. inherit_bytes a b n cm = Inr (True, set_chunk a (ca\<lparr>ck_data := d, ck_write := ck_write ca + n\<rparr>) cm)
           \<and> take n (drop (ck_write ca) d) = take n (drop (ck_write cb - n) (ck_data cb))
           \<and> counted (set_chunk a (ca\<lparr>ck_data := d, ck_write := ck_write ca + n\<rparr>) cm) R"
proof -
  have ok: "length (ck_data ca) = ck_size ca" "ck_write ca \<le> ck_size ca" "ck_read ca \<le> ck_write ca"
    "length (ck_data cb) = ck_size cb" "ck_write cb \<le> ck_size cb"
    using counted_chunk_ok [OF assms(1)] assms(2,3) by (auto simp: chunk_ok_def)
  let ?m = "take n (drop (ck_write cb - n) (ck_data cb))"
  have m: "length ?m = n" using ok assms(5) by simp
  let ?d = "take (ck_write ca) (ck_data ca) @ ?m @ drop (ck_write ca + n) (ck_data ca)"
  have put: "put_bytes (ck_data ca) (ck_write ca) ?m = Inr ?d" using m ok assms(6) by (simp add: put_bytes_def)
  have ld: "length ?d = ck_size ca" using m ok assms(6) by simp
  have "inherit_bytes a b n cm = Inr (True, set_chunk a (ca\<lparr>ck_data := ?d, ck_write := ck_write ca + n\<rparr>) cm)"
    using assms(2-6) ok put by (simp add: inherit_bytes_def chunk_at_def chunk_set_write_ptr_def set_chunk_def Let_def)
  moreover have "take n (drop (ck_write ca) ?d) = ?m" using m ok by simp
  moreover have "counted (set_chunk a (ca\<lparr>ck_data := ?d, ck_write := ck_write ca + n\<rparr>) cm) R"
    using assms(6) ok ld by (intro counted_set_chunk [OF assms(1,2)]) (auto simp: chunk_ok_def)
  ultimately show ?thesis by blast
qed

lemma release_keeps:
  assumes "unrefs cm cm'" "counted cm' R" "CHUNK_REF_CHUNK a \<in># R" "cm_chunks cm a = Some ck"
  shows "\<exists>n. cm_chunks cm' a = Some (ck\<lparr>ck_refs := n\<rparr>)"
proof -
  obtain ck' where ck': "cm_chunks cm' a = Some ck'" using counted_D(5) [OF assms(2,3)] by blast
  then obtain ck0 n where "cm_chunks cm a = Some ck0" "ck' = ck0\<lparr>ck_refs := n\<rparr>" using assms(1) unfolding unrefs_def by blast
  with ck' assms(4) show ?thesis by auto
qed

text \<open>The chunks other than \<open>a\<close> keep their content, or are freed.\<close>

definition chunks_but :: "nat \<Rightarrow> chunk_mem \<Rightarrow> chunk_mem \<Rightarrow> bool" where
  "chunks_but a cm cm' \<longleftrightarrow>
     (\<forall>b cb'. b \<noteq> a \<longrightarrow> cm_chunks cm' b = Some cb' \<longrightarrow> (\<exists>cb n. cm_chunks cm b = Some cb \<and> cb' = cb\<lparr>ck_refs := n\<rparr>))"

lemma chunks_but_unrefs:
  assumes "unrefs cm2 cm'" "\<And>b. b \<noteq> a \<Longrightarrow> cm_chunks cm2 b = cm_chunks cm b"
  shows "chunks_but a cm cm'"
  using assms unfolding chunks_but_def unrefs_def by metis

lemma chunks_but_same:
  assumes "\<And>b. b \<noteq> a \<Longrightarrow> cm_chunks cm' b = cm_chunks cm b"
  shows "chunks_but a cm cm'"
  using chunks_but_unrefs [OF unrefs_refl assms] .

text \<open>The chunk of a connection is replaced: the references move along.\<close>

lemma fcgi_fd_set_chunk_counted:
  assumes "counted cm (fd_refs fd + R)" "cm_chunks cm a = Some ca" "CHUNK_REF_CHUNK a \<notin># fd_refs fd + R"
    "n \<noteq> 0 \<Longrightarrow> ff_chunk fd = Some b \<and> cm_chunks cm b = Some cb \<and> n \<le> ck_write cb \<and> n < ck_size ca - ck_write ca"
  shows "\<exists>cm' ca'. fcgi_fd_set_chunk a n fd cm = Inr (0, fd\<lparr>ff_chunk := Some a\<rparr>, cm')
           \<and> counted cm' (add_mset (CHUNK_REF_CHUNK a) R) \<and> cm_chunks cm' a = Some ca'
           \<and> ck_size ca' = ck_size ca \<and> ck_read ca' = ck_read ca \<and> ck_write ca' = ck_write ca + n
           \<and> (n \<noteq> 0 \<longrightarrow> take n (drop (ck_write ca) (ck_data ca')) = take n (drop (ck_write cb - n) (ck_data cb)))
           \<and> chunks_but a cm cm'"
proof -
  let ?a = "CHUNK_REF_CHUNK a" let ?cm1 = "set_chunk a (ca\<lparr>ck_refs := ck_refs ca + 1\<rparr>) cm"
  have ret: "chunk_retain a cm = Inr ?cm1" "counted ?cm1 (add_mset ?a (fd_refs fd + R))"
    using chunk_retain_counted [OF assms(1,2)] by auto
  have a1: "cm_chunks ?cm1 a = Some (ca\<lparr>ck_refs := ck_refs ca + 1\<rparr>)" by (simp add: set_chunk_def)
  show ?thesis
  proof (cases "ff_chunk fd")
    case None
    then have "n = 0" using assms(4) by (cases n) auto
    moreover have "chunks_but a cm ?cm1" by (rule chunks_but_same) (simp add: set_chunk_def)
    ultimately show ?thesis using None ret a1 by (simp add: fcgi_fd_set_chunk_def fd_refs_def)
  next
    case (Some b')
    have refs: "fd_refs fd + R = add_mset (CHUNK_REF_CHUNK b') R" using Some by (simp add: fd_refs_def)
    have ab: "a \<noteq> b'" using assms(3) by (auto simp: refs)
    have rel: "\<exists>ret cm' k. chunk_release b' cm2 = Inr (ret, cm') \<and> counted cm' (add_mset ?a R) \<and> cm_chunks cm' a = Some (ck\<lparr>ck_refs := k\<rparr>)
        \<and> unrefs cm2 cm'"
      if "counted cm2 (add_mset ?a (add_mset (CHUNK_REF_CHUNK b') R))" "cm_chunks cm2 a = Some ck" for cm2 ck
    proof -
      have "counted cm2 (add_mset (CHUNK_REF_CHUNK b') (add_mset ?a R))" using that(1) by (simp add: add_mset_commute)
      from chunk_release_counted [OF this] obtain ret cm' where
        r: "chunk_release b' cm2 = Inr (ret, cm')" "counted cm' (add_mset ?a R)" "unrefs cm2 cm'" by blast
      with release_keeps [OF r(3,2) _ that(2)] show ?thesis by auto
    qed
    show ?thesis
    proof (cases "n = 0")
      case True
      obtain r cm' k where "chunk_release b' ?cm1 = Inr (r, cm')" "counted cm' (add_mset ?a R)"
          "cm_chunks cm' a = Some ((ca\<lparr>ck_refs := ck_refs ca + 1\<rparr>)\<lparr>ck_refs := k\<rparr>)" "unrefs ?cm1 cm'"
        using rel [OF _ a1] ret(2) refs by auto
      moreover from this(4) have "chunks_but a cm cm'" by (rule chunks_but_unrefs) (simp add: set_chunk_def)
      ultimately show ?thesis using True Some ret(1) by (auto simp: fcgi_fd_set_chunk_def)
    next
      case False
      then have b: "b' = b" "cm_chunks cm b = Some cb" "n \<le> ck_write cb" "n < ck_size ca - ck_write ca"
        using assms(4) Some by auto
      have b1: "cm_chunks ?cm1 b' = Some cb" using ab b(1,2) by (simp add: set_chunk_def)
      let ?ca = "ca\<lparr>ck_refs := ck_refs ca + 1\<rparr>"
      obtain d where d: "inherit_bytes a b' n ?cm1 = Inr (True, set_chunk a (?ca\<lparr>ck_data := d, ck_write := ck_write ?ca + n\<rparr>) ?cm1)"
          "take n (drop (ck_write ca) d) = take n (drop (ck_write cb - n) (ck_data cb))"
          "counted (set_chunk a (?ca\<lparr>ck_data := d, ck_write := ck_write ?ca + n\<rparr>) ?cm1) (add_mset ?a (fd_refs fd + R))"
        using inherit_bytes_ok [OF ret(2) a1 b1 ab b(3)] b(4) by auto
      let ?cm2 = "set_chunk a (?ca\<lparr>ck_data := d, ck_write := ck_write ?ca + n\<rparr>) ?cm1"
      have a2: "cm_chunks ?cm2 a = Some (?ca\<lparr>ck_data := d, ck_write := ck_write ?ca + n\<rparr>)" by (simp add: set_chunk_def)
      obtain r cm' k where "chunk_release b' ?cm2 = Inr (r, cm')" "counted cm' (add_mset ?a R)"
          "cm_chunks cm' a = Some ((?ca\<lparr>ck_data := d, ck_write := ck_write ?ca + n\<rparr>)\<lparr>ck_refs := k\<rparr>)" "unrefs ?cm2 cm'"
        using rel [OF _ a2] d(3) refs by auto
      moreover from this(4) have "chunks_but a cm cm'" by (rule chunks_but_unrefs) (simp add: set_chunk_def)
      ultimately show ?thesis using False Some ret(1) d(1,2) by (auto simp: fcgi_fd_set_chunk_def)
    qed
  qed
qed

section \<open>The contract of the handler\<close>

text \<open>
  The handler gets a complete package in a chunk that is in use, and an existing request, if any. The
  chunk is that of the connection, but for the case of an old chunk (below).
\<close>

definition handed :: "nat \<Rightarrow> nat option \<Rightarrow> fcgi_header \<Rightarrow> chunk_ptr \<Rightarrow> nat \<Rightarrow> chunk \<Rightarrow> fcgi_context \<Rightarrow> bool" where
  "handed f req h read c ck cx \<longleftrightarrow>
     ctx_ok cx \<and> f < length (fx_fdl cx) \<and> cm_chunks (fx_mem cx) c = Some ck
     \<and> cp_parent read = Some c \<and> cp_data read + cp_len read = ck_write ck \<and> pkg_length h \<le> cp_len read
     \<and> (\<forall>r. req = Some r \<longrightarrow> r < rl_size (fx_rl cx))"

text \<open>
  It leaves the invariant, and the chunk of the connection with its content. Other chunks keep their
  content as well, or they are freed.
\<close>

definition kept :: "nat \<Rightarrow> nat \<Rightarrow> chunk \<Rightarrow> fcgi_context \<Rightarrow> fcgi_context \<Rightarrow> bool" where
  "kept f c ck cx cx' \<longleftrightarrow>
     ctx_ok cx' \<and> length (fx_fdl cx') = length (fx_fdl cx) \<and> ff_chunk (fd_of f cx') = Some c
     \<and> (\<exists>n. cm_chunks (fx_mem cx') c = Some (ck\<lparr>ck_refs := n\<rparr>))"

locale pkg_contract =
  fixes hp :: pkg_handler
  assumes hp_err: "handed f req h read c ck cx \<Longrightarrow> hp f req h read cx = Inl e \<Longrightarrow> e = OutOfBounds"
    and hp_kept: "handed f req h read c ck cx \<Longrightarrow> hp f req h read cx = Inr (ret, cx') \<Longrightarrow>
      ff_chunk (fd_of f cx) = Some a \<Longrightarrow> cm_chunks (fx_mem cx) a = Some ca \<Longrightarrow> kept f a ca cx cx'"
    and hp_live: "handed f req h read c ck cx \<Longrightarrow> hp f req h read cx = Inr (ret, cx') \<Longrightarrow>
      cm_chunks (fx_mem cx') a = Some ca' \<Longrightarrow> \<exists>ca n. cm_chunks (fx_mem cx) a = Some ca \<and> ca' = ca\<lparr>ck_refs := n\<rparr>"
    and hp_pkgs: "handed f req h read c ck cx \<Longrightarrow> hp f req h read cx = Inr (ret, cx') \<Longrightarrow> pkgs (fx_trace cx') = pkgs (fx_trace cx)"

definition unread_chunk :: "chunk \<Rightarrow> cstr" where
  "unread_chunk ck = take (ck_write ck - ck_read ck) (drop (ck_read ck) (ck_data ck))"

definition unread :: "nat \<Rightarrow> fcgi_context \<Rightarrow> cstr" where
  "unread f cx =
     (case ff_chunk (fd_of f cx) of
        None \<Rightarrow> []
      | Some c \<Rightarrow> (case cm_chunks (fx_mem cx) c of None \<Rightarrow> [] | Some ck \<Rightarrow> unread_chunk ck))"

text \<open>What the loop over the packages of a text \<open>U\<close> has done.\<close>

definition cut :: "nat \<Rightarrow> nat \<Rightarrow> chunk \<Rightarrow> cstr \<Rightarrow> recv_vars \<Rightarrow> fcgi_context \<Rightarrow> cerr + bool \<times> recv_vars \<times> fcgi_context \<Rightarrow> bool" where
  "cut f c ck U v cx res \<longleftrightarrow>
     (case res of
        Inl e \<Rightarrow> e = OutOfBounds
      | Inr (ok, v', cx') \<Rightarrow>
          kept f c ck cx cx' \<and> rv_c v' = rv_c v \<and> rv_write v' = rv_write v
          \<and> (\<exists>gs hs. fst (frames U) = gs @ hs \<and> pkgs (fx_trace cx') = pkgs (fx_trace cx) @ gs \<and> (ok \<longrightarrow> hs = []))
          \<and> (ok \<longrightarrow> rv_read v' = \<lparr>cp_parent = Some c, cp_len = 0, cp_data = ck_write ck\<rparr>
               \<and> (if snd (frames U) = [] then rv_inherit v' = rv_inherit v
                  else rv_inherit v' = length (snd (frames U)) \<and> length (snd (frames U)) < rv_pkg_size v')))"

lemma request_list_get_safe:
  assumes "list_ok rl"
  shows "\<exists>r cache'. request_list_get req_id rl = Inr (r, rl\<lparr>rl_cache := cache'\<rparr>) \<and> list_ok (rl\<lparr>rl_cache := cache'\<rparr>)
           \<and> (\<forall>i. r = Some i \<longrightarrow> i < rl_size rl)"
proof -
  let ?i = "nat ((int req_id - int (rl_id_offset rl)) mod 65536)"
  have same: "\<exists>c. rl = rl\<lparr>rl_cache := c\<rparr> \<and> list_ok (rl\<lparr>rl_cache := c\<rparr>)"
    by (rule exI [of _ "rl_cache rl"]) (simp add: assms)
  show ?thesis
  proof (cases "req_id < rl_id_offset rl \<or> \<not> ?i < rl_size rl")
    case True
    with same show ?thesis by (auto simp: request_list_get_def Let_def)
  next
    case False
    then obtain c where "request_cache_hit ?i (rl_rs rl ! ?i) (rl_cache rl) = Inr c" "cache_ok (rl_size rl) c"
      using request_cache_hit_ok [OF list_ok_cache [OF assms]] by blast
    with False list_ok_set_cache [OF assms] show ?thesis by (auto simp: request_list_get_def Let_def)
  qed
qed

lemma kept_refl: "ctx_ok cx \<Longrightarrow> ff_chunk (fd_of f cx) = Some c \<Longrightarrow> cm_chunks (fx_mem cx) c = Some ck \<Longrightarrow> kept f c ck cx cx"
  by (auto simp: kept_def intro: exI [of _ "ck_refs ck"])

lemma kept_trans:
  assumes "kept f c ck cx cx1" "cm_chunks (fx_mem cx1) c = Some ck1" "kept f c ck1 cx1 cx2"
  shows "kept f c ck cx cx2"
  using assms by (auto simp: kept_def)

text \<open>The four cases of a round of the loop.\<close>

lemma pkg_loop_empty: "cp_len (rv_read v) = 0 \<Longrightarrow> pkg_loop hp f v cx = Inr (True, v, cx)"
  by (simp add: pkg_loop.simps [of hp f v cx])

lemma pkg_loop_short:
  "0 < cp_len (rv_read v) \<Longrightarrow> cp_len (rv_read v) < FCGI_HEADER_LEN \<Longrightarrow>
     pkg_loop hp f v cx = Inr (True, v\<lparr>rv_pkg_size := FCGI_HEADER_LEN, rv_inherit := cp_len (rv_read v),
                                       rv_read := ptr_add (cp_len (rv_read v)) (rv_read v)\<rparr>, cx)"
  by (simp add: pkg_loop.simps [of hp f v cx] Let_def)

lemma pkg_loop_partial:
  assumes "8 \<le> cp_len (rv_read v)" "ptr_view (fx_mem cx) (rv_read v) = Inr bs" "fcgi_read_header bs = Inr h"
    "cp_len (rv_read v) < pkg_length h"
  shows "pkg_loop hp f v cx = Inr (True, v\<lparr>rv_pkg_size := pkg_length h, rv_inherit := cp_len (rv_read v),
                                           rv_read := ptr_add (cp_len (rv_read v)) (rv_read v)\<rparr>, cx)"
  using assms by (simp add: pkg_loop.simps [of hp f v cx] Let_def FCGI_HEADER_LEN_def)

lemma pkg_loop_full:
  assumes "8 \<le> cp_len (rv_read v)" "ptr_view (fx_mem cx) (rv_read v) = Inr bs" "fcgi_read_header bs = Inr h"
    "pkg_length h \<le> cp_len (rv_read v)" "request_list_get (unat (fh_req_id h)) (fx_rl cx) = Inr (req, rl)"
  shows "pkg_loop hp f v cx =
     bindE (hp f req h (rv_read v) (xemit (XPackage h (take (pkg_length h) bs)) (cx\<lparr>fx_rl := rl\<rparr>))) (\<lambda>(ret, cx').
       if ret \<noteq> 0 then Inr (False, v\<lparr>rv_pkg_size := pkg_length h\<rparr>, cx')
       else pkg_loop hp f (v\<lparr>rv_pkg_size := pkg_length h, rv_read := ptr_add (pkg_length h) (rv_read v)\<rparr>) cx')"
proof -
  have "\<not> cp_len (rv_read v) < FCGI_HEADER_LEN" "cp_len (rv_read v) \<noteq> 0" "\<not> cp_len (rv_read v) < pkg_length h"
    using assms(1,4) by (simp_all add: FCGI_HEADER_LEN_def)
  then show ?thesis unfolding pkg_loop.simps [of hp f v cx] Let_def
    by (simp only: if_False assms(2,3,5) bindE_simps prod.case)
qed

lemma cut_rest:
  assumes "kept f c ck cx cx" "frames U = ([], U)" "length U = cp_len r" "0 < cp_len r" "cp_len r < p"
    "ptr_add (cp_len r) r = \<lparr>cp_parent = Some c, cp_len = 0, cp_data = ck_write ck\<rparr>"
  shows "cut f c ck U v cx (Inr (True, v\<lparr>rv_pkg_size := p, rv_inherit := cp_len r, rv_read := ptr_add (cp_len r) r\<rparr>, cx))"
proof -
  have "U \<noteq> []" using assms(3,4) by auto
  with assms show ?thesis by (simp add: cut_def)
qed

lemma cut_step:
  assumes "frames U = ((h, pkg) # fst (frames U'), snd (frames U'))" "kept f c ck cx cx2"
    "pkgs (fx_trace cx2) = pkgs (fx_trace cx) @ [(h, pkg)]" "cm_chunks (fx_mem cx2) c = Some ck2" "ck_write ck2 = ck_write ck"
    "cut f c ck2 U' v' cx2 res" "rv_c v' = rv_c v" "rv_write v' = rv_write v" "rv_inherit v' = rv_inherit v"
  shows "cut f c ck U v cx res"
proof (cases res)
  case (Inl e)
  with assms(6) show ?thesis by (simp add: cut_def)
next
  case (Inr p)
  obtain ok v3 cx3 where p: "p = (ok, v3, cx3)" by (cases p)
  have "kept f c ck cx cx3" using assms(6) kept_trans [OF assms(2,4)] by (simp add: cut_def Inr p)
  moreover obtain gs hs where "fst (frames U') = gs @ hs" "pkgs (fx_trace cx3) = pkgs (fx_trace cx2) @ gs" "ok \<longrightarrow> hs = []"
    using assms(6) by (auto simp: cut_def Inr p)
  then have "fst (frames U) = ((h, pkg) # gs) @ hs" "pkgs (fx_trace cx3) = pkgs (fx_trace cx) @ (h, pkg) # gs" "ok \<longrightarrow> hs = []"
    using assms(1,3) by simp_all
  then have "\<exists>gs hs. fst (frames U) = gs @ hs \<and> pkgs (fx_trace cx3) = pkgs (fx_trace cx) @ gs \<and> (ok \<longrightarrow> hs = [])" by blast
  ultimately show ?thesis using assms(1,5-9) by (simp add: cut_def Inr p)
qed

context pkg_contract
begin

text \<open>A complete package at the start: it is handed over, and the loop goes on behind it.\<close>

lemma pkg_loop_handle:
  assumes "ctx_ok cx" "f < length (fx_fdl cx)" "cm_chunks (fx_mem cx) c = Some ck"
    "cp_parent (rv_read v) = Some c" "cp_data (rv_read v) + cp_len (rv_read v) = ck_write ck"
    "U = take (cp_len (rv_read v)) (drop (cp_data (rv_read v)) (ck_data ck))"
    "8 \<le> cp_len (rv_read v)" "length U = cp_len (rv_read v)" "fcgi_read_header U = Inr h" "pkg_length h \<le> cp_len (rv_read v)"
  shows "pkg_loop hp f v cx = Inl OutOfBounds
    \<or> (\<exists>ret cx2. pkg_loop hp f v cx =
          (if ret \<noteq> (0 :: int) then Inr (False, v\<lparr>rv_pkg_size := pkg_length h\<rparr>, cx2)
           else pkg_loop hp f (v\<lparr>rv_pkg_size := pkg_length h, rv_read := ptr_add (pkg_length h) (rv_read v)\<rparr>) cx2)
        \<and> pkgs (fx_trace cx2) = pkgs (fx_trace cx) @ [(h, take (pkg_length h) U)]
        \<and> frames U = ((h, take (pkg_length h) U) # fst (frames (drop (pkg_length h) U)), snd (frames (drop (pkg_length h) U)))
        \<and> (\<forall>a ca. ff_chunk (fd_of f cx) = Some a \<longrightarrow> cm_chunks (fx_mem cx) a = Some ca \<longrightarrow> kept f a ca cx cx2)
        \<and> (\<forall>a ca'. cm_chunks (fx_mem cx2) a = Some ca' \<longrightarrow> (\<exists>ca n. cm_chunks (fx_mem cx) a = Some ca \<and> ca' = ca\<lparr>ck_refs := n\<rparr>)))"
proof -
  let ?r = "rv_read v" and ?V = "drop (cp_data (rv_read v)) (ck_data ck)"
  have view: "ptr_view (fx_mem cx) ?r = Inr ?V" using assms(3,4) by (simp add: ptr_view_def chunk_at_def)
  have "7 \<le> cp_len ?r" "cp_len ?r \<le> length ?V" using assms(6,7,8) by auto
  then have hV: "fcgi_read_header ?V = Inr h" using read_header_take assms(6,9) by metis
  obtain req cache where g: "request_list_get (unat (fh_req_id h)) (fx_rl cx) = Inr (req, (fx_rl cx)\<lparr>rl_cache := cache\<rparr>)"
      "list_ok ((fx_rl cx)\<lparr>rl_cache := cache\<rparr>)" "\<forall>i. req = Some i \<longrightarrow> i < rl_size (fx_rl cx)"
    using request_list_get_safe [OF ctx_ok_D(2) [OF assms(1)]] by blast
  let ?cx1 = "xemit (XPackage h (take (pkg_length h) ?V)) (cx\<lparr>fx_rl := (fx_rl cx)\<lparr>rl_cache := cache\<rparr>\<rparr>)"
  have cx1: "ctx_ok ?cx1" using ctx_ok_set_cache [OF assms(1) g(2)] by simp
  have fd1: "fd_of f ?cx1 = fd_of f cx" by (simp add: fd_of_def)
  have hd: "handed f req h ?r c ck ?cx1" using cx1 assms(2-5,10) g(3) by (simp add: handed_def)
  note loop = pkg_loop_full [OF assms(7) view hV assms(10) g(1), of hp f]
  have pkg: "take (pkg_length h) U = take (pkg_length h) ?V" using assms(6,10) by (simp add: min_def)
  have fr: "frames U = ((h, take (pkg_length h) U) # fst (frames (drop (pkg_length h) U)), snd (frames (drop (pkg_length h) U)))"
    using frames_step [OF assms(9)] assms(7,8,10) by simp
  show ?thesis
  proof (cases "hp f req h ?r ?cx1")
    case (Inl e)
    with hp_err [OF hd] loop show ?thesis by simp
  next
    case (Inr p)
    obtain ret cx2 where p: "p = (ret, cx2)" by (cases p)
    have hp: "hp f req h ?r ?cx1 = Inr (ret, cx2)" using Inr p by simp
    have "kept f a ca cx cx2" if "ff_chunk (fd_of f cx) = Some a" "cm_chunks (fx_mem cx) a = Some ca" for a ca
      using hp_kept [OF hd hp, of a ca] that fd1 by (simp add: kept_def)
    moreover have "\<exists>ca n. cm_chunks (fx_mem cx) a = Some ca \<and> ca' = ca\<lparr>ck_refs := n\<rparr>" if "cm_chunks (fx_mem cx2) a = Some ca'" for a ca'
      using hp_live [OF hd hp that] by simp
    moreover have "pkgs (fx_trace cx2) = pkgs (fx_trace cx) @ [(h, take (pkg_length h) U)]"
      using hp_pkgs [OF hd hp] pkg by (simp add: xemit_def)
    moreover have "pkg_loop hp f v cx =
        (if ret \<noteq> 0 then Inr (False, v\<lparr>rv_pkg_size := pkg_length h\<rparr>, cx2)
         else pkg_loop hp f (v\<lparr>rv_pkg_size := pkg_length h, rv_read := ptr_add (pkg_length h) ?r\<rparr>) cx2)"
      unfolding loop hp by simp
    ultimately show ?thesis using fr by blast
  qed
qed

text \<open>When the rest is cut well, so is the whole.\<close>

lemma pkg_loop_cut_step:
  assumes "ctx_ok cx" "f < length (fx_fdl cx)" "ff_chunk (fd_of f cx) = Some c" "cm_chunks (fx_mem cx) c = Some ck"
    "cp_parent (rv_read v) = Some c" "cp_data (rv_read v) + cp_len (rv_read v) = ck_write ck"
    "U = take (cp_len (rv_read v)) (drop (cp_data (rv_read v)) (ck_data ck))"
    "8 \<le> cp_len (rv_read v)" "length U = cp_len (rv_read v)" "fcgi_read_header U = Inr h" "pkg_length h \<le> cp_len (rv_read v)"
    and rest: "\<And>v' cx' ck'. ctx_ok cx' \<Longrightarrow> length (fx_fdl cx') = length (fx_fdl cx) \<Longrightarrow> ff_chunk (fd_of f cx') = Some c \<Longrightarrow>
      cm_chunks (fx_mem cx') c = Some ck' \<Longrightarrow> ck_data ck' = ck_data ck \<Longrightarrow> ck_write ck' = ck_write ck \<Longrightarrow>
      rv_read v' = ptr_add (pkg_length h) (rv_read v) \<Longrightarrow> cut f c ck' (drop (pkg_length h) U) v' cx' (pkg_loop hp f v' cx')"
  shows "cut f c ck U v cx (pkg_loop hp f v cx)"
  using pkg_loop_handle [OF assms(1,2,4-11)]
proof (elim disjE exE conjE)
  assume "pkg_loop hp f v cx = Inl OutOfBounds"
  then show ?thesis by (simp add: cut_def)
next
  fix ret :: int and cx2
  let ?v = "v\<lparr>rv_pkg_size := pkg_length h, rv_read := ptr_add (pkg_length h) (rv_read v)\<rparr>"
  assume loop: "pkg_loop hp f v cx = (if ret \<noteq> 0 then Inr (False, v\<lparr>rv_pkg_size := pkg_length h\<rparr>, cx2) else pkg_loop hp f ?v cx2)"
    and t: "pkgs (fx_trace cx2) = pkgs (fx_trace cx) @ [(h, take (pkg_length h) U)]"
    and fr: "frames U = ((h, take (pkg_length h) U) # fst (frames (drop (pkg_length h) U)), snd (frames (drop (pkg_length h) U)))"
    and "\<forall>a ca. ff_chunk (fd_of f cx) = Some a \<longrightarrow> cm_chunks (fx_mem cx) a = Some ca \<longrightarrow> kept f a ca cx cx2"
  then have k: "kept f c ck cx cx2" using assms(3,4) by blast
  then obtain n where n: "cm_chunks (fx_mem cx2) c = Some (ck\<lparr>ck_refs := n\<rparr>)" by (auto simp: kept_def)
  have tail: "cut f c (ck\<lparr>ck_refs := n\<rparr>) (drop (pkg_length h) U) ?v cx2 (pkg_loop hp f ?v cx2)"
    by (rule rest) (use k n in \<open>simp_all add: kept_def\<close>)
  have "cut f c ck U v cx (pkg_loop hp f ?v cx2)" by (rule cut_step [OF fr k t n _ tail]) simp_all
  moreover have "cut f c ck U v cx (Inr (False, v\<lparr>rv_pkg_size := pkg_length h\<rparr>, cx2))" using k t fr by (simp add: cut_def)
  ultimately show ?thesis unfolding loop by simp
qed

lemma pkg_loop_cut:
  assumes "ctx_ok cx" "f < length (fx_fdl cx)" "ff_chunk (fd_of f cx) = Some c" "cm_chunks (fx_mem cx) c = Some ck"
    "cp_parent (rv_read v) = Some c" "cp_data (rv_read v) + cp_len (rv_read v) = ck_write ck"
  shows "cut f c ck (take (cp_len (rv_read v)) (drop (cp_data (rv_read v)) (ck_data ck))) v cx (pkg_loop hp f v cx)"
  using assms
proof (induction "cp_len (rv_read v)" arbitrary: v cx ck rule: less_induct)
  case less
  let ?r = "rv_read v" let ?U = "take (cp_len ?r) (drop (cp_data ?r) (ck_data ck))"
  have "chunk_ok ck" using counted_chunk_ok ctx_ok_D(1) [OF less.prems(1)] less.prems(4) by blast
  then have lU: "length ?U = cp_len ?r" using less.prems(6) by (auto simp: chunk_ok_def)
  have fin: "ptr_add (cp_len ?r) ?r = \<lparr>cp_parent = Some c, cp_len = 0, cp_data = ck_write ck\<rparr>"
    using less.prems(5,6) by (simp add: ptr_add_def)
  have k: "kept f c ck cx cx" by (rule kept_refl [OF less.prems(1,3,4)])
  consider "cp_len ?r = 0" | "0 < cp_len ?r" "cp_len ?r < FCGI_HEADER_LEN" | "8 \<le> cp_len ?r"
    by (fastforce simp: FCGI_HEADER_LEN_def)
  then show ?case
  proof cases
    case 1
    then have "frames ?U = ([], [])" using frames_short [of "[]"] by (simp add: FCGI_HEADER_LEN_def)
    moreover have "?r = \<lparr>cp_parent = Some c, cp_len = 0, cp_data = ck_write ck\<rparr>" using 1 less.prems(5,6) by simp
    ultimately show ?thesis using 1 k by (simp add: pkg_loop_empty cut_def)
  next
    case 2
    have fr: "frames ?U = ([], ?U)" by (rule frames_short) (use lU 2 in simp)
    show ?thesis unfolding pkg_loop_short [OF 2] by (rule cut_rest [OF k fr lU 2(1) 2(2) fin])
  next
    case 3
    have "8 \<le> length ?U" unfolding lU by (rule 3)
    then obtain h where h: "fcgi_read_header ?U = Inr h" using read_header_Inr by blast
    show ?thesis
    proof (cases "cp_len ?r < pkg_length h")
      case True
      have fr: "frames ?U = ([], ?U)" by (rule frames_partial [OF h]) (use lU True in simp)
      have view: "ptr_view (fx_mem cx) ?r = Inr (drop (cp_data ?r) (ck_data ck))"
        using less.prems(4,5) by (simp add: ptr_view_def chunk_at_def)
      have "7 \<le> cp_len ?r" "cp_len ?r \<le> length (drop (cp_data ?r) (ck_data ck))" using lU 3 by auto
      then have hV: "fcgi_read_header (drop (cp_data ?r) (ck_data ck)) = Inr h" using read_header_take h by metis
      have pos: "0 < cp_len ?r" using 3 by simp
      show ?thesis unfolding pkg_loop_partial [OF 3 view hV True] by (rule cut_rest [OF k fr lU pos True fin])
    next
      case False
      then have full: "pkg_length h \<le> cp_len ?r" by simp
      show ?thesis
      proof (rule pkg_loop_cut_step [OF less.prems refl 3 lU h full])
        fix v' :: recv_vars and cx' :: fcgi_context and ck' :: chunk
        assume cx': "ctx_ok cx'" "length (fx_fdl cx') = length (fx_fdl cx)" "ff_chunk (fd_of f cx') = Some c"
          "cm_chunks (fx_mem cx') c = Some ck'" and ck': "ck_data ck' = ck_data ck" "ck_write ck' = ck_write ck"
          and r: "rv_read v' = ptr_add (pkg_length h) ?r"
        have "cut f c ck' (take (cp_len (rv_read v')) (drop (cp_data (rv_read v')) (ck_data ck'))) v' cx' (pkg_loop hp f v' cx')"
          using cx' ck' r less.prems(2,5,6) full 3 by (intro less.hyps) (simp_all add: ptr_add_def)
        then show "cut f c ck' (drop (pkg_length h) ?U) v' cx' (pkg_loop hp f v' cx')"
          using ck' r by (simp add: ptr_add_def drop_take add.commute)
      qed
    qed
  qed
qed

end

section \<open>An old chunk\<close>

text \<open>
  A pointer into a chunk that is no longer the chunk of the connection: the chunk may have been freed,
  and the handler may free it. \<open>U\<close> is what the pointer can read as long as the chunk is there.
\<close>

definition old_text :: "nat \<Rightarrow> recv_vars \<Rightarrow> cstr \<Rightarrow> fcgi_context \<Rightarrow> bool" where
  "old_text c v U cx \<longleftrightarrow>
     cp_parent (rv_read v) = Some c \<and> length U = cp_len (rv_read v)
     \<and> (\<forall>ck. cm_chunks (fx_mem cx) c = Some ck \<longrightarrow>
          cp_data (rv_read v) + cp_len (rv_read v) = ck_write ck
          \<and> U = take (cp_len (rv_read v)) (drop (cp_data (rv_read v)) (ck_data ck)))"

definition drained :: "nat \<Rightarrow> nat \<Rightarrow> nat \<Rightarrow> chunk \<Rightarrow> cstr \<Rightarrow> recv_vars \<Rightarrow> fcgi_context \<Rightarrow> cerr + bool \<times> recv_vars \<times> fcgi_context \<Rightarrow> bool" where
  "drained f c a ca U v cx res \<longleftrightarrow>
     (case res of
        Inl e \<Rightarrow> e = OutOfBounds \<or> e = UseAfterFree
      | Inr (ok, v', cx') \<Rightarrow>
          kept f a ca cx cx' \<and> rv_c v' = rv_c v \<and> cp_parent (rv_read v') = Some c
          \<and> (\<exists>gs hs. fst (frames U) = gs @ hs \<and> pkgs (fx_trace cx') = pkgs (fx_trace cx) @ gs \<and> (ok \<longrightarrow> hs = [])))"

lemma drained_rest:
  assumes "kept f a ca cx cx" "fst (frames U) = []" "rv_c v' = rv_c v" "cp_parent (rv_read v') = Some c"
  shows "drained f c a ca U v cx (Inr (True, v', cx))"
  using assms by (simp add: drained_def)

lemma drained_step:
  assumes "frames U = ((h, pkg) # fst (frames U'), snd (frames U'))" "kept f a ca cx cx2"
    "pkgs (fx_trace cx2) = pkgs (fx_trace cx) @ [(h, pkg)]" "cm_chunks (fx_mem cx2) a = Some ca2"
    "drained f c a ca2 U' v' cx2 res" "rv_c v' = rv_c v"
  shows "drained f c a ca U v cx res"
proof (cases res)
  case (Inl e)
  with assms(5) show ?thesis by (simp add: drained_def)
next
  case (Inr p)
  obtain ok v3 cx3 where p: "p = (ok, v3, cx3)" by (cases p)
  have "kept f a ca cx cx3" using assms(5) kept_trans [OF assms(2,4)] by (simp add: drained_def Inr p)
  moreover obtain gs hs where "fst (frames U') = gs @ hs" "pkgs (fx_trace cx3) = pkgs (fx_trace cx2) @ gs" "ok \<longrightarrow> hs = []"
    using assms(5) by (auto simp: drained_def Inr p)
  then have "fst (frames U) = ((h, pkg) # gs) @ hs" "pkgs (fx_trace cx3) = pkgs (fx_trace cx) @ (h, pkg) # gs" "ok \<longrightarrow> hs = []"
    using assms(1,3) by simp_all
  then have "\<exists>gs hs. fst (frames U) = gs @ hs \<and> pkgs (fx_trace cx3) = pkgs (fx_trace cx) @ gs \<and> (ok \<longrightarrow> hs = [])" by blast
  ultimately show ?thesis using assms(5,6) by (simp add: drained_def Inr p)
qed

lemma old_text_drop:
  assumes "old_text c v U cx" "n \<le> length U" "rv_read v' = ptr_add n (rv_read v)"
    "\<And>ck'. cm_chunks (fx_mem cx') c = Some ck' \<Longrightarrow> \<exists>ck m. cm_chunks (fx_mem cx) c = Some ck \<and> ck' = ck\<lparr>ck_refs := m\<rparr>"
  shows "old_text c v' (drop n U) cx'"
proof -
  have "cp_data (rv_read v') + cp_len (rv_read v') = ck_write ck' \<and> drop n U = take (cp_len (rv_read v')) (drop (cp_data (rv_read v')) (ck_data ck'))"
    if c': "cm_chunks (fx_mem cx') c = Some ck'" for ck'
  proof -
    obtain ck m where ck: "cm_chunks (fx_mem cx) c = Some ck" "ck' = ck\<lparr>ck_refs := m\<rparr>" using assms(4) [OF c'] by blast
    then have "cp_data (rv_read v) + cp_len (rv_read v) = ck_write ck" "U = take (cp_len (rv_read v)) (drop (cp_data (rv_read v)) (ck_data ck))"
      using assms(1) by (simp_all add: old_text_def)
    with ck(2) assms(1-3) show ?thesis by (simp add: old_text_def ptr_add_def drop_take add.commute)
  qed
  with assms(1,3) show ?thesis by (simp add: old_text_def ptr_add_def)
qed

context pkg_contract
begin

lemma pkg_loop_drained:
  assumes "ctx_ok cx" "f < length (fx_fdl cx)" "ff_chunk (fd_of f cx) = Some a" "cm_chunks (fx_mem cx) a = Some ca" "old_text c v U cx"
  shows "drained f c a ca U v cx (pkg_loop hp f v cx)"
  using assms
proof (induction "cp_len (rv_read v)" arbitrary: v cx ca U rule: less_induct)
  case less
  let ?r = "rv_read v"
  have k: "kept f a ca cx cx" by (rule kept_refl [OF less.prems(1,3,4)])
  have par: "cp_parent ?r = Some c" and lU: "length U = cp_len ?r" using less.prems(5) by (simp_all add: old_text_def)
  have short: "fst (frames U) = []" if "cp_len ?r < FCGI_HEADER_LEN" using frames_short [of U] lU that by simp
  consider "cp_len ?r = 0" | "0 < cp_len ?r" "cp_len ?r < FCGI_HEADER_LEN" | "8 \<le> cp_len ?r" "cm_chunks (fx_mem cx) c = None"
    | ck where "8 \<le> cp_len ?r" "cm_chunks (fx_mem cx) c = Some ck"
    by (cases "cm_chunks (fx_mem cx) c") (fastforce simp: FCGI_HEADER_LEN_def)+
  then show ?case
  proof cases
    case 1
    then show ?thesis using k par short by (simp add: pkg_loop_empty drained_rest FCGI_HEADER_LEN_def)
  next
    case 2
    show ?thesis unfolding pkg_loop_short [OF 2] by (rule drained_rest [OF k short]) (use 2 par in \<open>simp_all add: ptr_add_def\<close>)
  next
    case 3
    then show ?thesis using par
      by (simp add: pkg_loop.simps [of hp f v cx] Let_def FCGI_HEADER_LEN_def ptr_view_def chunk_at_def drained_def)
  next
    case (4 ck)
    let ?V = "drop (cp_data ?r) (ck_data ck)"
    have U: "U = take (cp_len ?r) ?V" "cp_data ?r + cp_len ?r = ck_write ck" using less.prems(5) 4(2) by (simp_all add: old_text_def)
    have view: "ptr_view (fx_mem cx) ?r = Inr ?V" using par 4(2) by (simp add: ptr_view_def chunk_at_def)
    have "8 \<le> length U" unfolding lU by (rule 4)
    then obtain h where h: "fcgi_read_header U = Inr h" using read_header_Inr by blast
    have "7 \<le> cp_len ?r" "cp_len ?r \<le> length ?V" using U(1) lU 4(1) by auto
    then have hV: "fcgi_read_header ?V = Inr h" using read_header_take h U(1) by metis
    show ?thesis
    proof (cases "cp_len ?r < pkg_length h")
      case True
      have "fst (frames U) = []" using frames_partial [OF h] lU True by simp
      then show ?thesis unfolding pkg_loop_partial [OF 4(1) view hV True]
        by (rule drained_rest [OF k]) (use par in \<open>simp_all add: ptr_add_def\<close>)
    next
      case False
      then have full: "pkg_length h \<le> cp_len ?r" by simp
      from pkg_loop_handle [OF less.prems(1,2) 4(2) par U(2,1) 4(1) lU h full] show ?thesis
      proof (elim disjE exE conjE)
        assume "pkg_loop hp f v cx = Inl OutOfBounds"
        then show ?thesis by (simp add: drained_def)
      next
        fix ret :: int and cx2
        let ?v = "v\<lparr>rv_pkg_size := pkg_length h, rv_read := ptr_add (pkg_length h) ?r\<rparr>" and ?U = "drop (pkg_length h) U"
        assume loop: "pkg_loop hp f v cx = (if ret \<noteq> 0 then Inr (False, v\<lparr>rv_pkg_size := pkg_length h\<rparr>, cx2) else pkg_loop hp f ?v cx2)"
          and t: "pkgs (fx_trace cx2) = pkgs (fx_trace cx) @ [(h, take (pkg_length h) U)]"
          and fr: "frames U = ((h, take (pkg_length h) U) # fst (frames ?U), snd (frames ?U))"
          and "\<forall>a ca. ff_chunk (fd_of f cx) = Some a \<longrightarrow> cm_chunks (fx_mem cx) a = Some ca \<longrightarrow> kept f a ca cx cx2"
          and live: "\<forall>a ca'. cm_chunks (fx_mem cx2) a = Some ca' \<longrightarrow> (\<exists>ca n. cm_chunks (fx_mem cx) a = Some ca \<and> ca' = ca\<lparr>ck_refs := n\<rparr>)"
        then have k2: "kept f a ca cx cx2" using less.prems(3,4) by blast
        then obtain n where n: "cm_chunks (fx_mem cx2) a = Some (ca\<lparr>ck_refs := n\<rparr>)" by (auto simp: kept_def)
        have "old_text c ?v ?U cx2" by (rule old_text_drop [OF less.prems(5)]) (use full lU live in simp_all)
        then have "drained f c a (ca\<lparr>ck_refs := n\<rparr>) ?U ?v cx2 (pkg_loop hp f ?v cx2)"
          using k2 n less.prems(2) 4(1) by (intro less.hyps) (simp_all add: kept_def ptr_add_def)
        then have "drained f c a ca U v cx (pkg_loop hp f ?v cx2)" by (rule drained_step [OF fr k2 t n]) simp
        moreover have "drained f c a ca U v cx (Inr (False, v\<lparr>rv_pkg_size := pkg_length h\<rparr>, cx2))"
          using k2 t fr par by (simp add: drained_def)
        ultimately show ?thesis unfolding loop by simp
      qed
    qed
  qed
qed

end

section \<open>The rounds\<close>

text \<open>
  The state between two rounds: \<open>u\<close> is what has been received and not been handled. It is either
  unread in the chunk, with room for a header, or it is going to be moved to a new chunk.
\<close>

definition pending :: "nat \<Rightarrow> nat \<Rightarrow> chunk \<Rightarrow> recv_vars \<Rightarrow> cstr \<Rightarrow> bool" where
  "pending f c ck v u \<longleftrightarrow>
     (if 0 < rv_inherit v
      then rv_inherit v = length u \<and> length u < rv_pkg_size v \<and> length u \<le> ck_write ck
        \<and> u = take (length u) (drop (ck_write ck - length u) (ck_data ck)) \<and> frames u = ([], u)
        \<and> rv_read v = \<lparr>cp_parent = Some c, cp_len = 0, cp_data = ck_write ck\<rparr>
      else u = unread_chunk ck \<and> rv_read v = chunk_read_ptr c ck \<and> (u = [] \<or> 8 \<le> cp_len (rv_write v)))"

definition recv_inv :: "nat \<Rightarrow> recv_vars \<Rightarrow> fcgi_context \<Rightarrow> cstr \<Rightarrow> bool" where
  "recv_inv f v cx u \<longleftrightarrow>
     ctx_ok cx \<and> f < length (fx_fdl cx) \<and> rv_c v = ff_chunk (fd_of f cx)
     \<and> (case rv_c v of
          None \<Rightarrow> u = [] \<and> rv_inherit v = 0 \<and> cp_len (rv_write v) = 0 \<and> rv_read v = null_ptr
        | Some c \<Rightarrow> \<exists>ck. cm_chunks (fx_mem cx) c = Some ck \<and> rv_write v = chunk_write_ptr c ck \<and> pending f c ck v u)"

text \<open>Ready for a read: the chunk has room, and \<open>u\<close> is its unread part.\<close>

definition space :: "nat \<Rightarrow> nat \<Rightarrow> chunk \<Rightarrow> recv_vars \<Rightarrow> fcgi_context \<Rightarrow> cstr \<Rightarrow> bool" where
  "space f c ck v cx u \<longleftrightarrow>
     ctx_ok cx \<and> f < length (fx_fdl cx) \<and> rv_c v = Some c \<and> ff_chunk (fd_of f cx) = Some c
     \<and> cm_chunks (fx_mem cx) c = Some ck \<and> rv_write v = chunk_write_ptr c ck \<and> ck_write ck < ck_size ck
     \<and> unread_chunk ck = u \<and> rv_inherit v = 0"

definition ready :: "nat \<Rightarrow> nat \<Rightarrow> chunk \<Rightarrow> recv_vars \<Rightarrow> fcgi_context \<Rightarrow> cstr \<Rightarrow> bool" where
  "ready f c ck v cx u \<longleftrightarrow>
     space f c ck v cx u \<and> (rv_read v = chunk_read_ptr c ck \<or> (cp_len (rv_read v) = 0 \<and> cp_parent (rv_read v) \<noteq> Some c))"

lemma ready_space: "ready f c ck v cx u \<Longrightarrow> space f c ck v cx u"
  by (simp add: ready_def)

lemma space_room: "space f c ck v cx u \<Longrightarrow> 0 < cp_len (rv_write v)"
  by (simp add: space_def chunk_write_ptr_def)

lemma unread_space: "space f c ck v cx u \<Longrightarrow> unread f cx = u"
  by (simp add: space_def unread_def)

lemma unread_chunk_length: "chunk_ok ck \<Longrightarrow> length (unread_chunk ck) = ck_write ck - ck_read ck"
  by (auto simp: unread_chunk_def chunk_ok_def)

text \<open>A chunk of size \<open>n\<close> is made the chunk of the connection.\<close>

lemma attach_chunk:
  assumes "ctx_ok cx" "f < length (fx_fdl cx)" "chunk_new al n (fx_mem cx) = (Some a, cm)"
    "k \<noteq> 0 \<Longrightarrow> ff_chunk (fd_of f cx) = Some b \<and> cm_chunks (fx_mem cx) b = Some cb \<and> k \<le> ck_write cb \<and> k < CHUNK_SIZE n"
  shows "\<exists>cm' ck. fcgi_fd_set_chunk a k (fd_of f cx) (chunk_list_add a cm) = Inr (0, (fd_of f cx)\<lparr>ff_chunk := Some a\<rparr>, cm')
           \<and> ctx_ok (set_fd f ((fd_of f cx)\<lparr>ff_chunk := Some a\<rparr>) (cx\<lparr>fx_mem := cm'\<rparr>))
           \<and> cm_chunks cm' a = Some ck \<and> ck_size ck = CHUNK_SIZE n \<and> ck_read ck = 0 \<and> ck_write ck = k
           \<and> (k \<noteq> 0 \<longrightarrow> take k (ck_data ck) = take k (drop (ck_write cb - k) (ck_data cb)))
           \<and> ff_chunk (fd_of f cx) \<noteq> Some a \<and> chunks_but a (fx_mem cx) cm'"
proof -
  let ?fd = "fd_of f cx"
  have R: "ctx_refs cx = fd_refs ?fd + rest_fd f cx" by (rule ctx_refs_fd [OF assms(2)])
  obtain ca where ca: "counted (chunk_list_add a cm) (ctx_refs cx)" "CHUNK_REF_CHUNK a \<notin># ctx_refs cx" "cm_chunks (fx_mem cx) a = None"
      "cm_chunks (chunk_list_add a cm) = (cm_chunks (fx_mem cx))(a \<mapsto> ca)" "ck_read ca = 0" "ck_write ca = 0" "ck_size ca = CHUNK_SIZE n"
    using chunk_new_counted [OF ctx_ok_D(1) [OF assms(1)] assms(3)] by auto
  have a: "cm_chunks (chunk_list_add a cm) a = Some ca" using ca(4) by simp
  have cond: "ff_chunk ?fd = Some b \<and> cm_chunks (chunk_list_add a cm) b = Some cb \<and> k \<le> ck_write cb \<and> k < ck_size ca - ck_write ca"
    if "k \<noteq> 0" using assms(4) [OF that] ca(3,4,6,7) by (cases "a = b") auto
  obtain cm' ck where s: "fcgi_fd_set_chunk a k ?fd (chunk_list_add a cm) = Inr (0, ?fd\<lparr>ff_chunk := Some a\<rparr>, cm')"
      "counted cm' (add_mset (CHUNK_REF_CHUNK a) (rest_fd f cx))" "cm_chunks cm' a = Some ck" "ck_size ck = ck_size ca"
      "ck_read ck = ck_read ca" "ck_write ck = ck_write ca + k"
      "k \<noteq> 0 \<longrightarrow> take k (drop (ck_write ca) (ck_data ck)) = take k (drop (ck_write cb - k) (ck_data cb))"
      "chunks_but a (chunk_list_add a cm) cm'"
    using fcgi_fd_set_chunk_counted [of _ ?fd "rest_fd f cx", OF _ a _ cond] ca(1,2) R by metis
  have "ctx_ok (set_fd f (?fd\<lparr>ff_chunk := Some a\<rparr>) (cx\<lparr>fx_mem := cm'\<rparr>))"
    using s(2) ctx_ok_D(5) [OF assms(1,2)] by (intro ctx_ok_set_fd [OF assms(1,2)]) (simp_all add: fd_refs_def)
  moreover have "ff_chunk ?fd \<noteq> Some a" using ca(2) by (auto simp: R fd_refs_def)
  moreover have "chunks_but a (fx_mem cx) cm'" using s(8) ca(4) by (simp add: chunks_but_def)
  ultimately show ?thesis using s ca by auto
qed

lemma recv_inv_move:
  assumes "recv_inv f v cx u" "rv_inherit v \<noteq> 0"
  shows "\<exists>b cb. ff_chunk (fd_of f cx) = Some b \<and> cm_chunks (fx_mem cx) b = Some cb \<and> rv_inherit v \<le> ck_write cb
    \<and> rv_inherit v < rv_pkg_size v \<and> u = take (length u) (drop (ck_write cb - length u) (ck_data cb))"
proof (cases "rv_c v")
  case (Some c)
  then obtain ck where ck: "ff_chunk (fd_of f cx) = Some c" "cm_chunks (fx_mem cx) c = Some ck" "pending f c ck v u"
    using assms(1) by (auto simp: recv_inv_def)
  then have "rv_inherit v = length u" "length u < rv_pkg_size v" "length u \<le> ck_write ck"
    "u = take (length u) (drop (ck_write ck - length u) (ck_data ck))" using assms(2) by (simp_all add: pending_def)
  with ck(1,2) show ?thesis by metis
qed (use assms in \<open>simp add: recv_inv_def\<close>)

lemma recv_new_chunk_ready:
  assumes "recv_inv f v cx u"
  shows "\<exists>ok v1 cx1. recv_new_chunk al f v cx = Inr (ok, v1, cx1) \<and> ctx_ok cx1 \<and> length (fx_fdl cx1) = length (fx_fdl cx)
           \<and> fx_trace cx1 = fx_trace cx
           \<and> (ok \<longrightarrow> (\<exists>c ck. ready f c ck v1 cx1 u
                \<and> (if cp_parent (rv_read v1) = Some c then rv_inherit v = 0 else rv_inherit v = length u)))"
proof (cases "0 < rv_inherit v \<or> cp_len (rv_write v) < FCGI_HEADER_LEN")
  case False
  then obtain c ck where "rv_c v = Some c" "cm_chunks (fx_mem cx) c = Some ck" "rv_write v = chunk_write_ptr c ck" "pending f c ck v u"
    using assms by (cases "rv_c v") (auto simp: recv_inv_def FCGI_HEADER_LEN_def)
  moreover from this(3) False have "ck_write ck < ck_size ck" by (auto simp: chunk_write_ptr_def FCGI_HEADER_LEN_def)
  ultimately have "ready f c ck v cx u"
    using False assms by (simp add: ready_def space_def recv_inv_def pending_def)
  moreover have "cp_parent (rv_read v) = Some c" using \<open>pending f c ck v u\<close> False by (simp add: pending_def chunk_read_ptr_def)
  ultimately show ?thesis using False assms by (auto simp: recv_new_chunk_def recv_inv_def)
next
  case True
  let ?n = "if CHUNK_SIZE 8192 < rv_pkg_size v then SIZE_CHUNK (rv_pkg_size v) else 8192"
  have ok: "ctx_ok cx" and f: "f < length (fx_fdl cx)" using assms by (simp_all add: recv_inv_def)
  have big: "rv_pkg_size v \<le> CHUNK_SIZE ?n" "0 < CHUNK_SIZE ?n" by (simp_all add: CHUNK_SIZE_def SIZE_CHUNK_def CHUNK_HEAD_def)
  obtain r cm where new: "chunk_new al ?n (fx_mem cx) = (r, cm)" by fastforce
  show ?thesis
  proof (cases r)
    case None
    have "counted cm (ctx_refs cx)" using chunk_new_counted [OF ctx_ok_D(1) [OF ok] new] None by simp
    then have "ctx_ok (cx\<lparr>fx_mem := cm\<rparr>)" using ok by (simp add: ctx_ok_def)
    with True new None show ?thesis by (auto simp: recv_new_chunk_def)
  next
    case (Some a)
    have u: "length u = rv_inherit v"
      using assms True by (auto simp: recv_inv_def pending_def FCGI_HEADER_LEN_def split: option.splits if_splits)
    have "\<exists>b cb. rv_inherit v \<noteq> 0 \<longrightarrow> ff_chunk (fd_of f cx) = Some b \<and> cm_chunks (fx_mem cx) b = Some cb \<and> rv_inherit v \<le> ck_write cb
        \<and> rv_inherit v < CHUNK_SIZE ?n \<and> u = take (length u) (drop (ck_write cb - length u) (ck_data cb))"
    proof (cases "rv_inherit v = 0")
      case False
      from recv_inv_move [OF assms this] big(1) show ?thesis by (metis less_le_trans)
    qed simp
    then obtain b cb where b: "rv_inherit v \<noteq> 0 \<longrightarrow> ff_chunk (fd_of f cx) = Some b \<and> cm_chunks (fx_mem cx) b = Some cb \<and> rv_inherit v \<le> ck_write cb
        \<and> rv_inherit v < CHUNK_SIZE ?n \<and> u = take (length u) (drop (ck_write cb - length u) (ck_data cb))" by blast
    obtain cm' ck where s: "fcgi_fd_set_chunk a (rv_inherit v) (fd_of f cx) (chunk_list_add a cm) = Inr (0, (fd_of f cx)\<lparr>ff_chunk := Some a\<rparr>, cm')"
        "ctx_ok (set_fd f ((fd_of f cx)\<lparr>ff_chunk := Some a\<rparr>) (cx\<lparr>fx_mem := cm'\<rparr>))"
        "cm_chunks cm' a = Some ck" "ck_size ck = CHUNK_SIZE ?n" "ck_read ck = 0" "ck_write ck = rv_inherit v"
        "rv_inherit v \<noteq> 0 \<longrightarrow> take (rv_inherit v) (ck_data ck) = take (rv_inherit v) (drop (ck_write cb - rv_inherit v) (ck_data cb))"
        "ff_chunk (fd_of f cx) \<noteq> Some a"
      using attach_chunk [OF ok f new [unfolded Some], of "rv_inherit v" b cb] b by blast
    let ?cx1 = "set_fd f ((fd_of f cx)\<lparr>ff_chunk := Some a\<rparr>) (cx\<lparr>fx_mem := cm'\<rparr>)"
    let ?v1 = "v\<lparr>rv_c := Some a, rv_write := chunk_write_ptr a ck, rv_inherit := 0\<rparr>"
    have "unread_chunk ck = u" using s(5,6,7) b u by (cases "rv_inherit v = 0") (auto simp: unread_chunk_def)
    moreover have "ck_write ck < ck_size ck" using s(4,6) b big(2) by (cases "rv_inherit v = 0") auto
    moreover have old: "cp_len (rv_read v) = 0 \<and> cp_parent (rv_read v) \<noteq> Some a"
    proof (cases "rv_c v")
      case None
      then show ?thesis using assms by (simp add: recv_inv_def null_ptr_def)
    next
      case (Some c)
      then have "c \<noteq> a" using assms s(8) by (auto simp: recv_inv_def)
      obtain cc where c: "pending f c cc v u" "cm_chunks (fx_mem cx) c = Some cc" "rv_write v = chunk_write_ptr c cc" using assms Some by (auto simp: recv_inv_def)
      have "chunk_ok cc" using counted_chunk_ok ctx_ok_D(1) [OF ok] c(2) by blast
      then show ?thesis using c(1) True \<open>c \<noteq> a\<close> unread_chunk_length [of cc]
        by (auto simp: pending_def chunk_read_ptr_def FCGI_HEADER_LEN_def split: if_splits)
    qed
    ultimately have "ready f a ck ?v1 ?cx1 u" using s(2,3) f by (simp add: ready_def space_def)
    moreover have "recv_new_chunk al f v cx = Inr (True, ?v1, ?cx1)"
      using True new Some s(1,3) by (simp add: recv_new_chunk_def chunk_at_def Let_def)
    ultimately show ?thesis using s(2) old u by auto
  qed
qed

lemma recv_data_ok:
  assumes "space f c ck v cx u" "bs \<noteq> []" "length bs \<le> cp_len (rv_write v)"
  shows "\<exists>v' cx' ck'. recv_data bs v cx = Inr (RMore, v', cx') \<and> ctx_ok cx' \<and> fx_fdl cx' = fx_fdl cx \<and> fx_trace cx' = fx_trace cx
           \<and> cm_chunks (fx_mem cx') c = Some ck' \<and> unread_chunk ck' = u @ bs \<and> rv_c v' = Some c \<and> rv_inherit v' = 0
           \<and> rv_write v' = chunk_write_ptr c ck' \<and> rv_read v' = chunk_read_ptr c ck'"
proof -
  have cx: "ctx_ok cx" and c: "cm_chunks (fx_mem cx) c = Some ck" and w: "rv_write v = chunk_write_ptr c ck"
    and v: "rv_c v = Some c" "rv_inherit v = 0" "unread_chunk ck = u" using assms(1) by (simp_all add: space_def)
  have ok: "length (ck_data ck) = ck_size ck" "ck_read ck \<le> ck_write ck" "ck_write ck \<le> ck_size ck"
    using counted_chunk_ok [OF ctx_ok_D(1) [OF cx] c] by (simp_all add: chunk_ok_def)
  have fits: "ck_write ck + length bs \<le> ck_size ck" using assms(2,3) w ok by (auto simp: chunk_write_ptr_def)
  let ?d = "take (ck_write ck) (ck_data ck) @ bs @ drop (ck_write ck + length bs) (ck_data ck)"
  let ?ck = "ck\<lparr>ck_data := ?d, ck_write := ck_write ck + length bs\<rparr>"
  have put: "put_bytes (ck_data ck) (ck_write ck) bs = Inr ?d" using fits ok by (simp add: put_bytes_def)
  have ck': "chunk_ok ?ck" using fits ok by (simp add: chunk_ok_def)
  have "unread_chunk ?ck = u @ bs"
  proof -
    have "drop (ck_read ck) ?d = drop (ck_read ck) (take (ck_write ck) (ck_data ck)) @ bs @ drop (ck_write ck + length bs) (ck_data ck)"
      using ok by simp
    moreover have "drop (ck_read ck) (take (ck_write ck) (ck_data ck)) = u" using v(3) by (simp add: unread_chunk_def drop_take)
    moreover have "length u = ck_write ck - ck_read ck" using v(3) ok by (auto simp: unread_chunk_def)
    ultimately show ?thesis using ok by (simp add: unread_chunk_def)
  qed
  moreover have "ctx_ok (cx\<lparr>fx_mem := set_chunk c ?ck (fx_mem cx)\<rparr>)"
    using counted_set_chunk [OF ctx_ok_D(1) [OF cx] c ck'] cx by (simp add: ctx_ok_def)
  moreover have "recv_data bs v cx = Inr (RMore, v\<lparr>rv_write := chunk_write_ptr c ?ck, rv_read := chunk_read_ptr c ?ck\<rparr>,
      cx\<lparr>fx_mem := set_chunk c ?ck (fx_mem cx)\<rparr>)"
    using c w put fits v(1) by (simp add: recv_data_def chunk_at_def chunk_set_write_ptr_def set_chunk_def chunk_write_ptr_def ptr_add_def Let_def)
  ultimately show ?thesis using v by (auto simp: set_chunk_def)
qed

lemma frames_idem: "frames (snd (frames x)) = ([], snd (frames x))"
  using frames_append [of x "[]"] by (metis append.right_neutral append_self_conv prod.collapse)

text \<open>After the packages of the unread part have been handled, the chunk is read to its end.\<close>

lemma set_read_end:
  assumes "kept f c ck cx cx'" "chunk_ok ck" "r = \<lparr>cp_parent = Some c, cp_len = 0, cp_data = ck_write ck\<rparr>"
  shows "\<exists>cm n. chunk_set_read_ptr c r (fx_mem cx') = Inr (0, cm) \<and> ctx_ok (cx'\<lparr>fx_mem := cm\<rparr>)
           \<and> cm_chunks cm c = Some (ck\<lparr>ck_refs := n, ck_read := ck_write ck\<rparr>)"
proof -
  obtain n where n: "cm_chunks (fx_mem cx') c = Some (ck\<lparr>ck_refs := n\<rparr>)" and ok: "ctx_ok cx'" using assms(1) by (auto simp: kept_def)
  let ?ck = "ck\<lparr>ck_refs := n, ck_read := ck_write ck\<rparr>"
  have "chunk_set_read_ptr c r (fx_mem cx') = Inr (0, set_chunk c ?ck (fx_mem cx'))"
    using n assms(2,3) by (simp add: chunk_set_read_ptr_def chunk_at_def chunk_ok_def)
  moreover have "counted (set_chunk c ?ck (fx_mem cx')) (ctx_refs cx')"
    using assms(2) by (intro counted_set_chunk [OF ctx_ok_D(1) [OF ok] n]) (simp_all add: chunk_ok_def)
  then have "ctx_ok (cx'\<lparr>fx_mem := set_chunk c ?ck (fx_mem cx')\<rparr>)" using ok by (simp add: ctx_ok_def)
  ultimately show ?thesis by (auto simp: set_chunk_def)
qed

text \<open>
  What a round has done with the bytes \<open>u\<close> and the answers of the socket. In a round that ends the call
  no data has come; the bytes of an incomplete package are then unread in the chunk, or they are
  \<open>lost\<close>: the read position has been moved behind them.
\<close>

definition round_ok ::
  "nat \<Rightarrow> bool \<Rightarrow> fcgi_context \<Rightarrow> cstr \<Rightarrow> sock_answer list \<Rightarrow> recv_status \<times> recv_vars \<times> fcgi_context \<times> sock_answer list \<Rightarrow> bool" where
  "round_ok f lost cx u as res \<longleftrightarrow>
     (case res of (st, v', cx', as') \<Rightarrow>
        ctx_ok cx' \<and> length (fx_fdl cx') = length (fx_fdl cx)
        \<and> (\<exists>gs. pkgs (fx_trace cx') = pkgs (fx_trace cx) @ gs
             \<and> (case st of
                  RFailed \<Rightarrow> \<exists>hs. fst (frames (u @ stream as)) = gs @ hs
                | RMore \<Rightarrow> stream as \<noteq> [] \<and> (\<exists>u'. recv_inv f v' cx' u' \<and> (u' = [] \<or> 0 < rv_inherit v')
                    \<and> fst (frames (u @ stream as)) = gs @ fst (frames (u' @ stream as'))
                    \<and> snd (frames (u @ stream as)) = snd (frames (u' @ stream as')))
                | RDone \<Rightarrow> stream as = [] \<and> gs = fst (frames u) \<and> unread f cx' = (if lost then [] else snd (frames u)))))"

text \<open>The handling of the packages of a chunk that is read from its read position.\<close>

definition packages_ok ::
  "nat \<Rightarrow> cstr \<Rightarrow> recv_status \<Rightarrow> fcgi_context \<Rightarrow> recv_status \<times> recv_vars \<times> fcgi_context \<Rightarrow> bool" where
  "packages_ok f U st cx res \<longleftrightarrow>
     (case res of (st', v', cx') \<Rightarrow>
        ctx_ok cx' \<and> length (fx_fdl cx') = length (fx_fdl cx)
        \<and> (\<exists>gs hs. fst (frames U) = gs @ hs \<and> pkgs (fx_trace cx') = pkgs (fx_trace cx) @ gs
             \<and> (st' = RFailed \<or> st' = st \<and> hs = [] \<and> recv_inv f v' cx' (snd (frames U))
                  \<and> (snd (frames U) = [] \<or> 0 < rv_inherit v') \<and> unread f cx' = [])))"

lemma rest_in_chunk:
  assumes "chunk_ok ck" "n = length (snd (frames (unread_chunk ck)))"
  shows "n \<le> ck_write ck \<and> snd (frames (unread_chunk ck)) = take n (drop (ck_write ck - n) (ck_data ck))"
proof -
  let ?U = "unread_chunk ck"
  have l: "length ?U = ck_write ck - ck_read ck" by (rule unread_chunk_length [OF assms(1)])
  have r: "n \<le> length ?U" "drop (length ?U - n) ?U = snd (frames ?U)" using frames_rest [of ?U] assms(2) by simp_all
  have "ck_read ck \<le> ck_write ck" "n \<le> ck_write ck - ck_read ck" using r(1) l assms(1) by (simp_all add: chunk_ok_def)
  then have w: "ck_write ck - ck_read ck - n + ck_read ck = ck_write ck - n" by linarith
  have "snd (frames ?U) = drop (ck_write ck - ck_read ck - n) (take (ck_write ck - ck_read ck) (drop (ck_read ck) (ck_data ck)))"
    using r(2) l by (simp add: unread_chunk_def)
  also have "\<dots> = take n (drop (ck_write ck - n) (ck_data ck))" using r(1) l w by (simp add: drop_take)
  finally show ?thesis using r(1) l by simp
qed

context pkg_contract
begin

lemma recv_packages_here:
  assumes "ctx_ok cx" "f < length (fx_fdl cx)" "rv_c v = Some c" "ff_chunk (fd_of f cx) = Some c" "cm_chunks (fx_mem cx) c = Some ck"
    "rv_read v = chunk_read_ptr c ck" "rv_write v = chunk_write_ptr c ck" "rv_inherit v = 0"
  shows "case recv_packages hp f st v cx of Inl e \<Rightarrow> e = OutOfBounds | Inr res \<Rightarrow> packages_ok f (unread_chunk ck) st cx res"
proof -
  let ?U = "unread_chunk ck"
  have ok: "chunk_ok ck" by (rule counted_chunk_ok [OF ctx_ok_D(1) [OF assms(1)] assms(5)])
  have cut: "cut f c ck ?U v cx (pkg_loop hp f v cx)"
    using pkg_loop_cut [OF assms(1,2,4,5), of v] assms(6) ok by (simp add: chunk_read_ptr_def unread_chunk_def chunk_ok_def)
  show ?thesis
  proof (cases "pkg_loop hp f v cx")
    case (Inl e)
    then show ?thesis using cut by (simp add: recv_packages_def cut_def)
  next
    case (Inr p)
    obtain ok' v' cx' where p: "p = (ok', v', cx')" by (cases p)
    show ?thesis
    proof (cases ok')
      case False
      then show ?thesis using cut Inr p by (auto simp: recv_packages_def cut_def kept_def packages_ok_def)
    next
      case True
      have fin: "pkg_loop hp f v cx = Inr (True, v', cx')" "cut f c ck ?U v cx (Inr (True, v', cx'))"
        using cut Inr p True by simp_all
      have k: "kept f c ck cx cx'" and r: "rv_read v' = \<lparr>cp_parent = Some c, cp_len = 0, cp_data = ck_write ck\<rparr>"
        and v': "rv_c v' = Some c" "rv_write v' = chunk_write_ptr c ck" and t: "pkgs (fx_trace cx') = pkgs (fx_trace cx) @ fst (frames ?U)"
        and i: "if snd (frames ?U) = [] then rv_inherit v' = 0 else rv_inherit v' = length (snd (frames ?U)) \<and> length (snd (frames ?U)) < rv_pkg_size v'"
        using fin(2) assms(3,7,8) by (auto simp: cut_def)
      obtain cm n where cm: "chunk_set_read_ptr c (rv_read v') (fx_mem cx') = Inr (0, cm)" "ctx_ok (cx'\<lparr>fx_mem := cm\<rparr>)"
          "cm_chunks cm c = Some (ck\<lparr>ck_refs := n, ck_read := ck_write ck\<rparr>)"
        using set_read_end [OF k ok r] by blast
      let ?cx = "cx'\<lparr>fx_mem := cm\<rparr>" let ?ck = "ck\<lparr>ck_refs := n, ck_read := ck_write ck\<rparr>"
      have fd: "fd_of f ?cx = fd_of f cx'" by (simp add: fd_of_def)
      have u0: "unread_chunk ?ck = []" by (simp add: unread_chunk_def)
      have "pending f c ?ck v' (snd (frames ?U))"
        using i r v' u0 rest_in_chunk [OF ok refl] frames_idem [of ?U]
        by (cases "snd (frames ?U) = []") (auto simp: pending_def chunk_read_ptr_def)
      then have "recv_inv f v' ?cx (snd (frames ?U))"
        using cm(2,3) k v' assms(2) fd by (simp add: recv_inv_def kept_def chunk_write_ptr_def)
      moreover have "unread f ?cx = []" using k cm(3) fd u0 by (simp add: unread_def kept_def)
      moreover have "recv_packages hp f st v cx = Inr (st, v', ?cx)" using fin(1) r v' cm(1) by (simp add: recv_packages_def)
      moreover have "snd (frames ?U) = [] \<or> 0 < rv_inherit v'" using i by (auto split: if_splits)
      ultimately show ?thesis using k cm(2) t by (auto simp: packages_ok_def kept_def)
    qed
  qed
qed

lemma recv_packages_none:
  assumes "cp_len (rv_read v) = 0" "rv_c v = Some c" "cp_parent (rv_read v) \<noteq> Some c"
  shows "recv_packages hp f st v cx = Inr (st, v, cx)"
  using assms by (simp add: recv_packages_def pkg_loop_empty split: option.split)

end

lemma recv_answer_space:
  assumes "space f c ck v cx u" "\<And>bs. ans \<noteq> SData bs"
  shows "\<exists>st cx'. recv_answer f ans v cx = Inr (st, v, cx') \<and> st \<noteq> RMore \<and> space f c ck v cx' u
           \<and> length (fx_fdl cx') = length (fx_fdl cx) \<and> fx_trace cx' = fx_trace cx \<and> fx_mem cx' = fx_mem cx"
proof (cases "ans = SEof")
  case True
  obtain ret fd where s: "fcgi_fd_set_state FCGI_FD_CLOSING (fd_of f cx) = (ret, fd)" by fastforce
  then have fd: "ff_chunk fd = ff_chunk (fd_of f cx)" "ff_begin_req fd = ff_begin_req (fd_of f cx)"
    by (auto simp: fcgi_fd_set_state_def split: if_splits)
  have f: "ctx_ok cx" "f < length (fx_fdl cx)" using assms(1) by (simp_all add: space_def)
  have "ctx_ok (set_fd f fd cx)" using ctx_ok_fd_field [OF f fd(1)] ctx_ok_D(5) [OF f] fd(2) by simp
  then have "space f c ck v (set_fd f fd cx) u" using assms(1) fd(1) by (simp add: space_def)
  with True s show ?thesis by (simp add: recv_answer_def)
next
  case False
  with assms show ?thesis by (cases ans) (auto simp: recv_answer_def)
qed

context pkg_contract
begin

lemma round_data:
  assumes "space f c ck v1 cx1 u" "bs \<noteq> []" "length bs \<le> cp_len (rv_write v1)" "stream as = bs @ stream as'"
    "fx_trace cx1 = fx_trace cx" "length (fx_fdl cx1) = length (fx_fdl cx)"
  shows "case bindE (recv_data bs v1 cx1) (\<lambda>(st, v2, cx2).
           if st = RFailed then Inr (RFailed, v2, cx2, as')
           else bindE (recv_packages hp f st v2 cx2) (\<lambda>(st', v3, cx3). Inr (st', v3, cx3, as'))) of
         Inl e \<Rightarrow> e = OutOfBounds | Inr res \<Rightarrow> round_ok f lost cx u as res"
proof -
  obtain v2 cx2 ck2 where d: "recv_data bs v1 cx1 = Inr (RMore, v2, cx2)" "ctx_ok cx2" "fx_fdl cx2 = fx_fdl cx1" "fx_trace cx2 = fx_trace cx1"
      "cm_chunks (fx_mem cx2) c = Some ck2" "unread_chunk ck2 = u @ bs" "rv_c v2 = Some c" "rv_inherit v2 = 0"
      "rv_write v2 = chunk_write_ptr c ck2" "rv_read v2 = chunk_read_ptr c ck2"
    using recv_data_ok [OF assms(1-3)] by blast
  have f: "f < length (fx_fdl cx2)" "ff_chunk (fd_of f cx2) = Some c" using assms(1) d(3) by (simp_all add: space_def fd_of_def)
  have pk: "case recv_packages hp f RMore v2 cx2 of Inl e \<Rightarrow> e = OutOfBounds | Inr res \<Rightarrow> packages_ok f (u @ bs) RMore cx2 res"
    by (rule recv_packages_here [OF d(2) f(1) d(7) f(2) d(5) d(10,9,8), of RMore, unfolded d(6)])
  show ?thesis
  proof (cases "recv_packages hp f RMore v2 cx2")
    case (Inl e)
    with pk d(1) show ?thesis by simp
  next
    case (Inr p)
    obtain st v3 cx3 where p: "p = (st, v3, cx3)" by (cases p)
    have "packages_ok f (u @ bs) RMore cx2 (st, v3, cx3)" using pk Inr p by simp
    then obtain gs hs where g: "ctx_ok cx3" "length (fx_fdl cx3) = length (fx_fdl cx2)" "fst (frames (u @ bs)) = gs @ hs"
        "pkgs (fx_trace cx3) = pkgs (fx_trace cx2) @ gs"
        "st = RFailed \<or> st = RMore \<and> hs = [] \<and> recv_inv f v3 cx3 (snd (frames (u @ bs))) \<and> (snd (frames (u @ bs)) = [] \<or> 0 < rv_inherit v3)"
      by (auto simp: packages_ok_def)
    have app: "fst (frames (u @ stream as)) = fst (frames (u @ bs)) @ fst (frames (snd (frames (u @ bs)) @ stream as'))"
      "snd (frames (u @ stream as)) = snd (frames (snd (frames (u @ bs)) @ stream as'))"
      using frames_append [of "u @ bs" "stream as'"] assms(4) by simp_all
    have "round_ok f lost cx u as (st, v3, cx3, as')"
    proof (cases "st = RFailed")
      case True
      then show ?thesis using g(1-4) app d(3,4) assms(5,6) by (simp add: round_ok_def)
    next
      case False
      let ?u = "snd (frames (u @ bs))"
      have m: "st = RMore" "hs = []" "recv_inv f v3 cx3 ?u" "?u = [] \<or> 0 < rv_inherit v3" using False g(5) by auto
      have "\<exists>u'. recv_inv f v3 cx3 u' \<and> (u' = [] \<or> 0 < rv_inherit v3)
          \<and> fst (frames (u @ stream as)) = gs @ fst (frames (u' @ stream as')) \<and> snd (frames (u @ stream as)) = snd (frames (u' @ stream as'))"
        by (rule exI [of _ ?u]) (use m g(3) app in simp)
      then show ?thesis using g(1,2,4) m(1) d(3,4) assms(2,4,5,6) by (simp add: round_ok_def)
    qed
    with d(1) Inr p show ?thesis by simp
  qed
qed

text \<open>The end of a round without new data.\<close>

lemma round_done:
  assumes "ctx_ok cx2" "length (fx_fdl cx2) = length (fx_fdl cx)" "pkgs (fx_trace cx2) = pkgs (fx_trace cx)" "stream as = []" "st \<noteq> RMore"
    and pk: "st = RDone \<Longrightarrow> case recv_packages hp f RDone v1 cx2 of
      Inl e \<Rightarrow> E e
    | Inr (st', v3, cx3) \<Rightarrow> ctx_ok cx3 \<and> length (fx_fdl cx3) = length (fx_fdl cx2)
        \<and> (\<exists>gs hs. fst (frames u) = gs @ hs \<and> pkgs (fx_trace cx3) = pkgs (fx_trace cx2) @ gs
             \<and> (st' = RFailed \<or> st' = RDone \<and> hs = [] \<and> unread f cx3 = (if lost then [] else snd (frames u))))"
  shows "case (if st = RFailed then Inr (RFailed, v1, cx2, as')
           else bindE (recv_packages hp f st v1 cx2) (\<lambda>(st', v3, cx3). Inr (st', v3, cx3, as'))) of
         Inl e \<Rightarrow> E e | Inr res \<Rightarrow> round_ok f lost cx u as res"
proof (cases "st = RFailed")
  case True
  then show ?thesis using assms(1-4) by (simp add: round_ok_def)
next
  case False
  then have st: "st = RDone" using assms(5) by (cases st) auto
  show ?thesis
  proof (cases "recv_packages hp f RDone v1 cx2")
    case (Inl e)
    with pk [OF st] st show ?thesis by simp
  next
    case (Inr p)
    obtain st' v3 cx3 where p: "p = (st', v3, cx3)" by (cases p)
    from pk [OF st] have "round_ok f lost cx u as (st', v3, cx3, as')"
      using assms(2-4) by (auto simp: Inr p round_ok_def)
    with Inr p st show ?thesis by simp
  qed
qed

lemma round_end:
  assumes "ready f c ck v1 cx1 u" "\<And>bs. ans \<noteq> SData bs" "stream as = []"
    "if cp_parent (rv_read v1) = Some c then rv_inherit v = 0 else rv_inherit v = length u \<and> frames u = ([], u)"
    "fx_trace cx1 = fx_trace cx" "length (fx_fdl cx1) = length (fx_fdl cx)"
  shows "case bindE (recv_answer f ans v1 cx1) (\<lambda>(st, v2, cx2).
           if st = RFailed then Inr (RFailed, v2, cx2, as')
           else bindE (recv_packages hp f st v2 cx2) (\<lambda>(st', v3, cx3). Inr (st', v3, cx3, as'))) of
         Inl e \<Rightarrow> e = OutOfBounds | Inr res \<Rightarrow> round_ok f (rv_inherit v = 0) cx u as res"
proof -
  obtain st cx2 where a: "recv_answer f ans v1 cx1 = Inr (st, v1, cx2)" "st \<noteq> RMore" "space f c ck v1 cx2 u"
      "length (fx_fdl cx2) = length (fx_fdl cx1)" "fx_trace cx2 = fx_trace cx1"
    using recv_answer_space [OF ready_space [OF assms(1)] assms(2)] by blast
  have sp: "ctx_ok cx2" "f < length (fx_fdl cx2)" "rv_c v1 = Some c" "ff_chunk (fd_of f cx2) = Some c" "cm_chunks (fx_mem cx2) c = Some ck"
      "rv_write v1 = chunk_write_ptr c ck" "rv_inherit v1 = 0" "unread_chunk ck = u"
    using a(3) by (simp_all add: space_def)
  have "case recv_packages hp f RDone v1 cx2 of
      Inl e \<Rightarrow> e = OutOfBounds
    | Inr (st', v3, cx3) \<Rightarrow> ctx_ok cx3 \<and> length (fx_fdl cx3) = length (fx_fdl cx2)
        \<and> (\<exists>gs hs. fst (frames u) = gs @ hs \<and> pkgs (fx_trace cx3) = pkgs (fx_trace cx2) @ gs
             \<and> (st' = RFailed \<or> st' = RDone \<and> hs = [] \<and> unread f cx3 = (if rv_inherit v = 0 then [] else snd (frames u))))"
  proof (cases "rv_read v1 = chunk_read_ptr c ck")
    case False
    then have r: "cp_len (rv_read v1) = 0" "cp_parent (rv_read v1) \<noteq> Some c" using assms(1) by (simp_all add: ready_def)
    then have u: "rv_inherit v = length u" "frames u = ([], u)" using assms(4) by simp_all
    show ?thesis using recv_packages_none [OF r(1) sp(3) r(2), of f RDone cx2] unread_space [OF a(3)] sp(1) u by simp
  next
    case True
    then have i0: "rv_inherit v = 0" using assms(4) by (simp add: chunk_read_ptr_def)
    have "case recv_packages hp f RDone v1 cx2 of Inl e \<Rightarrow> e = OutOfBounds | Inr res \<Rightarrow> packages_ok f u RDone cx2 res"
      by (rule recv_packages_here [OF sp(1-5) True sp(6,7), unfolded sp(8)])
    with i0 show ?thesis by (auto simp: packages_ok_def split: sum.splits)
  qed
  from round_done [OF sp(1) _ _ assms(3) a(2) this, of cx as'] a(1,4,5) assms(5,6) show ?thesis by simp
qed

lemma recv_round_eq:
  assumes "recv_new_chunk al f v cx = Inr (True, v1, cx1)" "sock_read as (cp_len (rv_write v1)) = (ans, as')"
  shows "recv_round al hp f as v cx = bindE (recv_answer f ans v1 cx1) (\<lambda>(st, v2, cx2).
        if st = RFailed then Inr (RFailed, v2, cx2, as')
        else bindE (recv_packages hp f st v2 cx2) (\<lambda>(st', v3, cx3). Inr (st', v3, cx3, as')))"
  using assms by (simp add: recv_round_def)

lemma recv_round_ok:
  assumes "recv_inv f v cx u"
  shows "case recv_round al hp f as v cx of Inl e \<Rightarrow> e = OutOfBounds | Inr res \<Rightarrow> round_ok f (rv_inherit v = 0) cx u as res"
proof -
  obtain ok v1 cx1 where n: "recv_new_chunk al f v cx = Inr (ok, v1, cx1)" "ctx_ok cx1" "length (fx_fdl cx1) = length (fx_fdl cx)"
      "fx_trace cx1 = fx_trace cx" "ok \<longrightarrow> (\<exists>c ck. ready f c ck v1 cx1 u
        \<and> (if cp_parent (rv_read v1) = Some c then rv_inherit v = 0 else rv_inherit v = length u))"
    using recv_new_chunk_ready [OF assms] by blast
  have idem: "frames u = ([], u)" if "rv_inherit v = length u"
    using assms that frames_short [of "[]"] by (auto simp: recv_inv_def pending_def FCGI_HEADER_LEN_def split: option.splits if_splits)
  show ?thesis
  proof (cases ok)
    case False
    then have "round_ok f (rv_inherit v = 0) cx u as (RFailed, v1, cx1, as)" using n by (simp add: round_ok_def)
    with False n(1) show ?thesis by (simp add: recv_round_def)
  next
    case True
    then obtain c ck where r: "ready f c ck v1 cx1 u"
        and old: "if cp_parent (rv_read v1) = Some c then rv_inherit v = 0 else rv_inherit v = length u \<and> frames u = ([], u)"
      using n(5) idem by (metis (full_types))
    obtain ans as' where s: "sock_read as (cp_len (rv_write v1)) = (ans, as')" by fastforce
    have pos: "0 < cp_len (rv_write v1)" by (rule space_room [OF ready_space [OF r]])
    note round = recv_round_eq [OF n(1) [unfolded eqTrueI [OF True]] s]
    show ?thesis
    proof (cases "\<exists>bs. ans = SData bs")
      case True
      then obtain bs where bs: "ans = SData bs" by blast
      have "bs \<noteq> []" "length bs \<le> cp_len (rv_write v1)" "stream as = bs @ stream as'"
        using sock_read_less [of as _ bs as'] sock_read_stream [OF s pos] s bs by auto
      from round_data [OF ready_space [OF r] this n(4,3)] show ?thesis unfolding round bs by (simp add: recv_answer_def)
    next
      case False
      have "stream as = []" using sock_read_stream [OF s pos] False by (cases ans) auto
      then show ?thesis unfolding round using round_end [OF r _ _ old n(4,3)] False by blast
    qed
  qed
qed

end

section \<open>A chunk without room\<close>

text \<open>
  A call that starts with unread bytes in a chunk without room for a header: the chunk is replaced and
  nothing is moved, so the unread bytes are dropped. When the first read has no data, the loop over the
  packages still looks at the old chunk, which may have been freed.
\<close>

lemma recv_new_chunk_old:
  assumes "ctx_ok cx" "f < length (fx_fdl cx)" "rv_c v = Some c" "ff_chunk (fd_of f cx) = Some c" "cm_chunks (fx_mem cx) c = Some ck"
    "cp_len (rv_write v) < 8" "rv_inherit v = 0" "rv_read v = chunk_read_ptr c ck"
  shows "\<exists>ok v1 cx1. recv_new_chunk al f v cx = Inr (ok, v1, cx1) \<and> ctx_ok cx1 \<and> length (fx_fdl cx1) = length (fx_fdl cx)
           \<and> fx_trace cx1 = fx_trace cx
           \<and> (ok \<longrightarrow> (\<exists>a ca. space f a ca v1 cx1 [] \<and> a \<noteq> c \<and> old_text c v1 (unread_chunk ck) cx1))"
proof -
  let ?n = "if CHUNK_SIZE 8192 < rv_pkg_size v then SIZE_CHUNK (rv_pkg_size v) else 8192"
  have new_chunk: "0 < rv_inherit v \<or> cp_len (rv_write v) < FCGI_HEADER_LEN" using assms(6) by (simp add: FCGI_HEADER_LEN_def)
  have big: "0 < CHUNK_SIZE ?n" by (simp_all add: CHUNK_SIZE_def SIZE_CHUNK_def CHUNK_HEAD_def)
  have ok: "chunk_ok ck" by (rule counted_chunk_ok [OF ctx_ok_D(1) [OF assms(1)] assms(5)])
  obtain r cm where new: "chunk_new al ?n (fx_mem cx) = (r, cm)" by fastforce
  show ?thesis
  proof (cases r)
    case None
    have "counted cm (ctx_refs cx)" using chunk_new_counted [OF ctx_ok_D(1) [OF assms(1)] new] None by simp
    then have "ctx_ok (cx\<lparr>fx_mem := cm\<rparr>)" using assms(1) by (simp add: ctx_ok_def)
    with new_chunk new None show ?thesis by (auto simp: recv_new_chunk_def)
  next
    case (Some a)
    obtain cm' ca where s: "fcgi_fd_set_chunk a 0 (fd_of f cx) (chunk_list_add a cm) = Inr (0, (fd_of f cx)\<lparr>ff_chunk := Some a\<rparr>, cm')"
        "ctx_ok (set_fd f ((fd_of f cx)\<lparr>ff_chunk := Some a\<rparr>) (cx\<lparr>fx_mem := cm'\<rparr>))"
        "cm_chunks cm' a = Some ca" "ck_size ca = CHUNK_SIZE ?n" "ck_read ca = 0" "ck_write ca = 0"
        "ff_chunk (fd_of f cx) \<noteq> Some a" "chunks_but a (fx_mem cx) cm'"
      using attach_chunk [OF assms(1,2) new [unfolded Some], of 0] by auto
    let ?cx1 = "set_fd f ((fd_of f cx)\<lparr>ff_chunk := Some a\<rparr>) (cx\<lparr>fx_mem := cm'\<rparr>)"
    let ?v1 = "v\<lparr>rv_c := Some a, rv_write := chunk_write_ptr a ca, rv_inherit := 0\<rparr>"
    have ac: "a \<noteq> c" using s(7) assms(4) by auto
    have "space f a ca ?v1 ?cx1 []" using s(2-6) assms(2) big by (simp add: space_def unread_chunk_def)
    moreover have "old_text c ?v1 (unread_chunk ck) ?cx1"
      using s(8) ac assms(5,8) ok unread_chunk_length [OF ok]
      by (fastforce simp: old_text_def chunks_but_def chunk_read_ptr_def chunk_ok_def unread_chunk_def)
    moreover have "recv_new_chunk al f v cx = Inr (True, ?v1, ?cx1)"
      using new_chunk new Some s(1,3) assms(7) by (simp add: recv_new_chunk_def chunk_at_def Let_def)
    ultimately show ?thesis using s(2) ac by auto
  qed
qed

context pkg_contract
begin

lemma round_old:
  assumes "space f a ca v1 cx1 []" "a \<noteq> c" "old_text c v1 U cx1" "\<And>bs. ans \<noteq> SData bs" "stream as = []"
    "fx_trace cx1 = fx_trace cx" "length (fx_fdl cx1) = length (fx_fdl cx)"
  shows "case bindE (recv_answer f ans v1 cx1) (\<lambda>(st, v2, cx2).
           if st = RFailed then Inr (RFailed, v2, cx2, as')
           else bindE (recv_packages hp f st v2 cx2) (\<lambda>(st', v3, cx3). Inr (st', v3, cx3, as'))) of
         Inl e \<Rightarrow> e = OutOfBounds \<or> e = UseAfterFree | Inr res \<Rightarrow> round_ok f True cx U as res"
proof -
  obtain st cx2 where b: "recv_answer f ans v1 cx1 = Inr (st, v1, cx2)" "st \<noteq> RMore" "space f a ca v1 cx2 []"
      "length (fx_fdl cx2) = length (fx_fdl cx1)" "fx_trace cx2 = fx_trace cx1" "fx_mem cx2 = fx_mem cx1"
    using recv_answer_space [OF assms(1,4)] by blast
  have sp: "ctx_ok cx2" "f < length (fx_fdl cx2)" "rv_c v1 = Some a" "ff_chunk (fd_of f cx2) = Some a" "cm_chunks (fx_mem cx2) a = Some ca"
      "unread_chunk ca = []"
    using b(3) by (simp_all add: space_def)
  have "old_text c v1 U cx2" using assms(3) b(6) by (simp add: old_text_def)
  from pkg_loop_drained [OF sp(1,2,4,5) this] have d: "drained f c a ca U v1 cx2 (pkg_loop hp f v1 cx2)" .
  have "case recv_packages hp f RDone v1 cx2 of
      Inl e \<Rightarrow> e = OutOfBounds \<or> e = UseAfterFree
    | Inr (st', v3, cx3) \<Rightarrow> ctx_ok cx3 \<and> length (fx_fdl cx3) = length (fx_fdl cx2)
        \<and> (\<exists>gs hs. fst (frames U) = gs @ hs \<and> pkgs (fx_trace cx3) = pkgs (fx_trace cx2) @ gs
             \<and> (st' = RFailed \<or> st' = RDone \<and> hs = [] \<and> unread f cx3 = (if True then [] else snd (frames U))))"
  proof (cases "pkg_loop hp f v1 cx2")
    case (Inl e)
    with d show ?thesis by (simp add: recv_packages_def drained_def)
  next
    case (Inr p)
    obtain ok v3 cx3 where p: "p = (ok, v3, cx3)" by (cases p)
    have k: "kept f a ca cx2 cx3" "rv_c v3 = Some a" "cp_parent (rv_read v3) = Some c"
        and g: "\<exists>gs hs. fst (frames U) = gs @ hs \<and> pkgs (fx_trace cx3) = pkgs (fx_trace cx2) @ gs \<and> (ok \<longrightarrow> hs = [])"
      using d Inr p sp(3) by (simp_all add: drained_def)
    have "unread f cx3 = []" using k(1) sp(6) by (auto simp: kept_def unread_def unread_chunk_def)
    moreover have "recv_packages hp f RDone v1 cx2 = Inr (if ok then RDone else RFailed, v3, cx3)"
      using Inr p k(2,3) assms(2) by (simp add: recv_packages_def)
    ultimately show ?thesis using k(1) g by (cases ok) (auto simp: kept_def)
  qed
  from round_done [OF sp(1) _ _ assms(5) b(2) this, of cx as'] b(1,4,5) assms(6,7) show ?thesis by simp
qed

lemma recv_round_old:
  assumes "ctx_ok cx" "f < length (fx_fdl cx)" "rv_c v = Some c" "ff_chunk (fd_of f cx) = Some c" "cm_chunks (fx_mem cx) c = Some ck"
    "cp_len (rv_write v) < 8" "rv_inherit v = 0" "rv_read v = chunk_read_ptr c ck"
  shows "case recv_round al hp f as v cx of
      Inl e \<Rightarrow> e = OutOfBounds \<or> e = UseAfterFree \<and> stream as = []
    | Inr res \<Rightarrow> round_ok f True cx (if stream as = [] then unread_chunk ck else []) as res"
proof -
  obtain ok v1 cx1 where n: "recv_new_chunk al f v cx = Inr (ok, v1, cx1)" "ctx_ok cx1" "length (fx_fdl cx1) = length (fx_fdl cx)"
      "fx_trace cx1 = fx_trace cx" "ok \<longrightarrow> (\<exists>a ca. space f a ca v1 cx1 [] \<and> a \<noteq> c \<and> old_text c v1 (unread_chunk ck) cx1)"
    using recv_new_chunk_old [OF assms] by blast
  show ?thesis
  proof (cases ok)
    case False
    then have "round_ok f True cx u as (RFailed, v1, cx1, as)" for u using n by (simp add: round_ok_def)
    with False n(1) show ?thesis by (simp add: recv_round_def)
  next
    case True
    then obtain a ca where r: "space f a ca v1 cx1 []" "a \<noteq> c" "old_text c v1 (unread_chunk ck) cx1" using n(5) by blast
    obtain ans as' where s: "sock_read as (cp_len (rv_write v1)) = (ans, as')" by fastforce
    have pos: "0 < cp_len (rv_write v1)" by (rule space_room [OF r(1)])
    note round = recv_round_eq [OF n(1) [unfolded eqTrueI [OF True]] s]
    show ?thesis
    proof (cases "\<exists>bs. ans = SData bs")
      case True
      then obtain bs where bs: "ans = SData bs" by blast
      have d: "bs \<noteq> []" "length bs \<le> cp_len (rv_write v1)" "stream as = bs @ stream as'"
        using sock_read_less [of as _ bs as'] sock_read_stream [OF s pos] s bs by auto
      have "recv_answer f ans v1 cx1 = recv_data bs v1 cx1" by (simp add: recv_answer_def bs)
      with round_data [OF r(1) d n(4,3), of True] d show ?thesis unfolding round by (auto split: sum.splits)
    next
      case False
      have st: "stream as = []" using sock_read_stream [OF s pos] False by (cases ans) auto
      have "case recv_round al hp f as v cx of Inl e \<Rightarrow> e = OutOfBounds \<or> e = UseAfterFree | Inr res \<Rightarrow> round_ok f True cx (unread_chunk ck) as res"
        unfolding round using round_old [OF r _ st n(4,3)] False by blast
      then show ?thesis using st by (auto split: sum.splits)
    qed
  qed
qed

end

section \<open>The loop\<close>

text \<open>
  What \<open>fcgi_recv_response\<close> has done with the bytes \<open>u\<close> and the answers of the socket: an error of the
  kind \<open>E\<close>, or the invariant kept and a prefix of the packages handled in order; all of them when it
  succeeds. The rest is then unread in the chunk, unless it is lost because no data has come.
\<close>

definition received ::
  "nat \<Rightarrow> cstr \<Rightarrow> sock_answer list \<Rightarrow> bool \<Rightarrow> (cerr \<Rightarrow> bool) \<Rightarrow> fcgi_context \<Rightarrow> cerr + int \<times> fcgi_context \<Rightarrow> bool" where
  "received f u as lost E cx res \<longleftrightarrow>
     (case res of
        Inl e \<Rightarrow> E e
      | Inr (ret, cx') \<Rightarrow>
          ctx_ok cx' \<and> length (fx_fdl cx') = length (fx_fdl cx)
          \<and> (\<exists>gs hs. fst (frames (u @ stream as)) = gs @ hs \<and> pkgs (fx_trace cx') = pkgs (fx_trace cx) @ gs
               \<and> (ret = 0 \<longrightarrow> hs = [] \<and> unread f cx' = (if lost \<and> stream as = [] then [] else snd (frames (u @ stream as))))))"

lemma fd_set_state_frame:
  "ff_chunk (snd (fcgi_fd_set_state st fd)) = ff_chunk fd" "ff_begin_req (snd (fcgi_fd_set_state st fd)) = ff_begin_req fd"
  "ff_fd (snd (fcgi_fd_set_state st fd)) = ff_fd fd"
  by (auto simp: fcgi_fd_set_state_def)

lemma ctx_ok_fd_state: "ctx_ok cx \<Longrightarrow> f < length (fx_fdl cx) \<Longrightarrow> ctx_ok (set_fd f (snd (fcgi_fd_set_state st (fd_of f cx))) cx)"
  using ctx_ok_D(5) by (intro ctx_ok_fd_field) (auto simp: fd_set_state_frame)

lemma received_more:
  assumes "received f u' as' lost' (\<lambda>e. e = OutOfBounds) cx1 res" "lost' \<longrightarrow> u' = []" "stream as \<noteq> []"
    "length (fx_fdl cx1) = length (fx_fdl cx)" "pkgs (fx_trace cx1) = pkgs (fx_trace cx) @ gs" "E OutOfBounds"
    "fst (frames (u @ stream as)) = gs @ fst (frames (u' @ stream as'))" "snd (frames (u @ stream as)) = snd (frames (u' @ stream as'))"
  shows "received f u as lost E cx res"
proof (cases res)
  case (Inl e)
  with assms(1,6) show ?thesis by (simp add: received_def)
next
  case (Inr p)
  obtain ret cx' where p: "p = (ret, cx')" by (cases p)
  obtain gs1 hs where g: "fst (frames (u' @ stream as')) = gs1 @ hs" "pkgs (fx_trace cx') = pkgs (fx_trace cx1) @ gs1"
      "ret = 0 \<longrightarrow> hs = [] \<and> unread f cx' = (if lost' \<and> stream as' = [] then [] else snd (frames (u' @ stream as')))"
    using assms(1) Inr p by (auto simp: received_def)
  have "snd (frames []) = []" using frames_short [of "[]"] by (simp add: FCGI_HEADER_LEN_def)
  then have "ret = 0 \<longrightarrow> hs = [] \<and> unread f cx' = snd (frames (u' @ stream as'))" using g(3) assms(2) by auto
  then have "\<exists>gs' hs. fst (frames (u @ stream as)) = gs' @ hs \<and> pkgs (fx_trace cx') = pkgs (fx_trace cx) @ gs'
      \<and> (ret = 0 \<longrightarrow> hs = [] \<and> unread f cx' = snd (frames (u @ stream as)))"
    by (intro exI [of _ "gs @ gs1"] exI [of _ hs]) (use g(1,2) assms(5,7,8) in simp)
  with assms(1,3,4) Inr p show ?thesis by (simp add: received_def)
qed

context pkg_contract
begin

text \<open>The loop from its first round on.\<close>

lemma recv_loop_round:
  assumes "f < length (fx_fdl cx)"
    and round: "case recv_round al hp f as v cx of Inl e \<Rightarrow> E e | Inr res \<Rightarrow> round_ok f lost cx u as res"
    and more: "\<And>v' cx' as' u'. recv_round al hp f as v cx = Inr (RMore, v', cx', as') \<Longrightarrow> recv_inv f v' cx' u' \<Longrightarrow>
      received f u' as' (rv_inherit v' = 0) (\<lambda>e. e = OutOfBounds) cx' (recv_loop al hp f as' v' cx')"
    and "E OutOfBounds"
  shows "received f u as lost E cx (recv_loop al hp f as v cx)"
proof (cases "recv_round al hp f as v cx")
  case (Inl e)
  with round show ?thesis by (simp add: recv_loop.simps [of al hp f as v cx] received_def)
next
  case (Inr p)
  note loop = recv_loop.simps [of al hp f as v cx]
  obtain st v' cx' as' where p: "p = (st, v', cx', as')" by (cases p)
  have r: "round_ok f lost cx u as (st, v', cx', as')" using round Inr p by simp
  then obtain gs where g: "ctx_ok cx'" "length (fx_fdl cx') = length (fx_fdl cx)" "pkgs (fx_trace cx') = pkgs (fx_trace cx) @ gs"
    by (auto simp: round_ok_def)
  show ?thesis
  proof (cases st)
    case RFailed
    let ?cx = "set_fd f (snd (fcgi_fd_set_state FCGI_FD_CLOSING (fd_of f cx'))) cx'"
    have "ctx_ok ?cx" by (rule ctx_ok_fd_state [OF g(1)]) (use assms(1) g(2) in simp)
    moreover obtain gs hs where "pkgs (fx_trace cx') = pkgs (fx_trace cx) @ gs" "fst (frames (u @ stream as)) = gs @ hs"
      using r RFailed by (auto simp: round_ok_def)
    ultimately show ?thesis using Inr p RFailed g(2) by (auto simp: loop received_def)
  next
    case RDone
    then show ?thesis using Inr p r by (auto simp: loop received_def round_ok_def)
  next
    case RMore
    then obtain gs u' where u': "pkgs (fx_trace cx') = pkgs (fx_trace cx) @ gs" "stream as \<noteq> []" "recv_inv f v' cx' u'" "u' = [] \<or> 0 < rv_inherit v'"
        "fst (frames (u @ stream as)) = gs @ fst (frames (u' @ stream as'))" "snd (frames (u @ stream as)) = snd (frames (u' @ stream as'))"
      using r by (auto simp: round_ok_def)
    have "received f u' as' (rv_inherit v' = 0) (\<lambda>e. e = OutOfBounds) cx' (recv_loop al hp f as' v' cx')"
      using more Inr p RMore u'(3) by blast
    then have "received f u as lost E cx (recv_loop al hp f as' v' cx')"
      by (rule received_more [where E = E, OF _ _ u'(2) g(2) u'(1) assms(4) u'(5,6)]) (use u'(4) in auto)
    then show ?thesis using Inr p RMore by (simp add: loop)
  qed
qed

lemma recv_loop_ok:
  assumes "recv_inv f v cx u"
  shows "received f u as (rv_inherit v = 0) (\<lambda>e. e = OutOfBounds) cx (recv_loop al hp f as v cx)"
  using assms
proof (induction "answers_size as" arbitrary: as v cx u rule: less_induct)
  case less
  show ?case
  proof (rule recv_loop_round)
    show "f < length (fx_fdl cx)" using less.prems by (simp add: recv_inv_def)
    show "case recv_round al hp f as v cx of Inl e \<Rightarrow> e = OutOfBounds | Inr res \<Rightarrow> round_ok f (rv_inherit v = 0) cx u as res"
      by (rule recv_round_ok [OF less.prems])
  qed (use less.hyps recv_round_less in blast)+
qed

end

text \<open>What is unread can be read on: it is in a chunk that has room for a header.\<close>

definition can_read :: "nat \<Rightarrow> fcgi_context \<Rightarrow> bool" where
  "can_read f cx \<longleftrightarrow>
     unread f cx = []
     \<or> (case ff_chunk (fd_of f cx) of
          None \<Rightarrow> True
        | Some c \<Rightarrow> (case cm_chunks (fx_mem cx) c of None \<Rightarrow> True | Some ck \<Rightarrow> 8 \<le> ck_size ck - ck_write ck))"

context pkg_contract
begin

lemma fcgi_recv_response_ok:
  assumes "ctx_ok cx" "f < length (fx_fdl cx)"
  shows "received f (if can_read f cx \<or> stream as = [] then unread f cx else []) as True
    (\<lambda>e. e = OutOfBounds \<or> e = UseAfterFree \<and> \<not> can_read f cx \<and> stream as = []) cx (fcgi_recv_response al hp f as cx)"
proof (cases "ff_chunk (fd_of f cx)")
  case None
  let ?v = "\<lparr>rv_pkg_size = 0, rv_inherit = 0, rv_c = None, rv_write = null_ptr, rv_read = null_ptr\<rparr>"
  have "recv_inv f ?v cx []" using assms None by (simp add: recv_inv_def null_ptr_def)
  from recv_loop_ok [OF this, where as = as and al = al] None show ?thesis
    by (simp add: fcgi_recv_response_def fcgi_fd_get_chunk_def unread_def can_read_def)
next
  case (Some c)
  have "CHUNK_REF_CHUNK c \<in># ctx_refs cx" using Some by (simp add: ctx_refs_fd [OF assms(2)] fd_refs_def)
  then obtain ck where ck: "cm_chunks (fx_mem cx) c = Some ck" using counted_D(5) [OF ctx_ok_D(1) [OF assms(1)]] by blast
  let ?v = "\<lparr>rv_pkg_size = 0, rv_inherit = 0, rv_c = Some c, rv_write = chunk_write_ptr c ck, rv_read = chunk_read_ptr c ck\<rparr>"
  have u: "unread f cx = unread_chunk ck" using Some ck by (simp add: unread_def)
  have call: "fcgi_recv_response al hp f as cx = recv_loop al hp f as ?v cx"
    using Some ck by (simp add: fcgi_recv_response_def fcgi_fd_get_chunk_def chunk_at_def)
  show ?thesis
  proof (cases "can_read f cx")
    case True
    then have "unread_chunk ck = [] \<or> 8 \<le> ck_size ck - ck_write ck" using u Some ck by (simp add: can_read_def)
    then have "pending f c ck ?v (unread_chunk ck)" by (simp add: pending_def chunk_write_ptr_def)
    then have "recv_inv f ?v cx (unread_chunk ck)" using assms Some ck by (simp add: recv_inv_def)
    from recv_loop_ok [OF this, where as = as and al = al] True u show ?thesis by (simp add: call)
  next
    case False
    then have w: "ck_size ck - ck_write ck < 8" using Some ck by (simp add: can_read_def)
    have "received f (if stream as = [] then unread_chunk ck else []) as True (\<lambda>e. e = OutOfBounds \<or> e = UseAfterFree \<and> stream as = [])
        cx (recv_loop al hp f as ?v cx)"
    proof (rule recv_loop_round [OF assms(2)])
      show "case recv_round al hp f as ?v cx of Inl e \<Rightarrow> e = OutOfBounds \<or> e = UseAfterFree \<and> stream as = []
          | Inr res \<Rightarrow> round_ok f True cx (if stream as = [] then unread_chunk ck else []) as res"
        by (rule recv_round_old [OF assms _ Some ck]) (use w in \<open>simp_all add: chunk_write_ptr_def\<close>)
    qed (use recv_loop_ok in auto)
    with False u call show ?thesis by (cases "stream as = []") simp_all
  qed
qed

end

end
