(* ===== verification/Fcgi_Env.thy ===== *)
theory Fcgi_Env
  imports Fcgi_Protocol Mk_Toc
begin

text \<open>
  \<^verbatim>\<open>plugins/fastcgi/fcgi_env.c\<close>: the parameters a FastCGI server gets with a request. The parameters
  are listed in the order in which the source writes them; an item can also be a jump to the end of
  the function or an access the language leaves undefined, which happens when its turn comes.
\<close>

section \<open>The parameters of a request\<close>

datatype env_item = EParam mk_pointer mk_pointer | EStop | EFault cerr

definition env_set :: "cstr \<Rightarrow> mk_pointer \<Rightarrow> env_item" where
  "env_set key value = EParam (mk_pointer_set key) value"

text \<open>
  A header of the request: its name in capitals behind \<open>HTTP_\<close>, in an array of 128 bytes, and what
  stands two characters behind the name. The length of that part is an unsigned number.
\<close>

definition env_char :: "char \<Rightarrow> char" where
  "env_char c = (if c = CHR ''-'' then CHR ''_'' else c_toupper c)"

definition header_item :: "cstr \<Rightarrow> header_toc_row \<Rightarrow> env_item" where
  "header_item base row =
     (let hinit = drop (row_init row) base; hlen = ulong (int (row_end row) - int (row_init row));
          name = takeWhile (\<lambda>c. c \<noteq> CHR '':'') (take hlen hinit); j = length name
      in if 128 < 5 + j then EFault OutOfBounds
         else EParam \<lparr>p_data = Some (''HTTP_'' @ map env_char name), p_len = 5 + j\<rparr>
                \<lparr>p_data = Some (drop (j + 2) hinit), p_len = ulong (int hlen - int j - 2)\<rparr>)"

text \<open>
  The URI with its query string is printed into a new block, one byte of which is for the end of the
  string but is counted as part of the value. \<open>fill\<close> is the answer of the allocator.
\<close>

definition uri_item :: "(nat \<Rightarrow> char) option \<Rightarrow> session_request \<Rightarrow> env_item" where
  "uri_item fill sr =
     (if 0 < p_len (sr_query_string sr) then
        let n = p_len (sr_uri sr) + p_len (sr_query_string sr) + 2;
            txt = take (n - 1) (cstring (p_bytes (sr_uri sr)) @ ''?'' @ cstring (p_bytes (sr_query_string sr))) @ [NUL]
        in (case fill of
              None \<Rightarrow> EStop
            | Some f \<Rightarrow> env_set ''REQUEST_URI'' \<lparr>p_data = Some (txt @ map f [length txt..<n]), p_len = n\<rparr>)
      else env_set ''REQUEST_URI'' (sr_uri sr))"

text \<open>\<open>sockname\<close> and \<open>peername\<close> are the two ends of the client's socket, when the system tells them.\<close>

definition host_items :: "session_request \<Rightarrow> env_item list" where
  "host_items sr =
     (case sr_host_conf sr of
        None \<Rightarrow> [EFault NullDeref]
      | Some h \<Rightarrow>
          [env_set ''SERVER_SOFTWARE'' (mk_pointer_set (h_signature h)),
           env_set ''DOCUMENT_ROOT'' (h_documentroot h),
           env_set ''SERVER_PROTOCOL'' (sr_protocol_p sr)])
     @ (case sr_host_alias sr of
          None \<Rightarrow> [EFault NullDeref]
        | Some a \<Rightarrow> [env_set ''SERVER_NAME'' \<lparr>p_data = Some (ha_name a), p_len = ha_len a\<rparr>])"

definition sockname_items :: "(cstr option \<times> int) option \<Rightarrow> env_item list" where
  "sockname_items sockname =
     (case sockname of
        None \<Rightarrow> []
      | Some (addr, port) \<Rightarrow>
          [env_set ''SERVER_ADDR'' (mk_pointer_set (case addr of None \<Rightarrow> [] | Some a \<Rightarrow> a)),
           env_set ''SERVER_PORT'' (mk_pointer_set (dec_text port))])"

definition peername_items :: "(cstr \<times> int) option \<Rightarrow> env_item list" where
  "peername_items peername =
     (case peername of
        None \<Rightarrow> []
      | Some (addr, port) \<Rightarrow>
          [env_set ''REMOTE_ADDR'' (mk_pointer_set addr), env_set ''REMOTE_PORT'' (mk_pointer_set (dec_text port))])"

definition env_items ::
  "(nat \<Rightarrow> char) option \<Rightarrow> (cstr option \<times> int) option \<Rightarrow> (cstr \<times> int) option \<Rightarrow> session_request \<Rightarrow> env_item list" where
  "env_items fill sockname peername sr =
     [env_set ''PATH_INFO'' (mk_pointer_set []), env_set ''GATEWAY_INTERFACE'' (mk_pointer_set ''CGI/1.1''),
      env_set ''REDIRECT_STATUS'' (mk_pointer_set ''200'')]
     @ host_items sr @ sockname_items sockname
     @ [env_set ''SCRIPT_FILENAME'' (sr_real_path sr), env_set ''SCRIPT_NAME'' (sr_uri_processed sr),
        env_set ''REQUEST_METHOD'' (sr_method_p sr)]
     @ peername_items peername
     @ [uri_item fill sr, env_set ''QUERY_STRING'' (sr_query_string sr), env_set ''CONTENT_TYPE'' (sr_content_type sr),
        env_set ''CONTENT_LENGTH'' (mk_pointer_set (dec_text (sr_content_length sr)))]
     @ map (header_item (toc_base (sr_headers_toc sr))) (toc_rows (sr_headers_toc sr))"

section \<open>Writing them\<close>

text \<open>
  \<open>__write_param\<close>: the size is estimated with 64-bit arithmetic. When it does not fit the function
  ends with what it has written.
\<close>

fun env_loop :: "nat \<Rightarrow> env_item list \<Rightarrow> nat \<Rightarrow> cstr \<Rightarrow> nat \<Rightarrow> cerr + cstr \<times> nat" where
  "env_loop len [] start buf pos = Inr (buf, pos)"
| "env_loop len (EStop # its) start buf pos = Inr (buf, pos)"
| "env_loop len (EFault e # its) start buf pos = Inl e"
| "env_loop len (EParam key value # its) start buf pos =
     (if \<not> ulong (8 + int (p_len key) + int (p_len value)) < ulong (int len - int pos) then Inr (buf, pos)
      else bindE (fcgi_param_write buf (start + pos) key value) (\<lambda>(buf', n). env_loop len its start buf' (pos + n)))"

definition fcgi_env_write ::
  "nat \<Rightarrow> (nat \<Rightarrow> char) option \<Rightarrow> (cstr option \<times> int) option \<Rightarrow> (cstr \<times> int) option \<Rightarrow> session_request
     \<Rightarrow> nat \<Rightarrow> cstr \<Rightarrow> cerr + cstr \<times> nat" where
  "fcgi_env_write len fill sockname peername sr start buf =
     env_loop len (env_items fill sockname peername sr) start buf 0"

section \<open>What is written\<close>

text \<open>Every pointer covers memory of its length, and no length is near the end of the 64 bits.\<close>

definition covered :: "mk_pointer \<Rightarrow> bool" where
  "covered p \<longleftrightarrow> p_len p \<le> length (view p) \<and> p_len p < 2 ^ 31"

fun item_ok :: "env_item \<Rightarrow> bool" where
  "item_ok (EParam k v) \<longleftrightarrow> covered k \<and> covered v"
| "item_ok EStop \<longleftrightarrow> True"
| "item_ok (EFault e) \<longleftrightarrow> False"

fun env_pairs :: "env_item list \<Rightarrow> (cstr \<times> cstr) list" where
  "env_pairs (EParam k v # its) = (p_bytes k, p_bytes v) # env_pairs its"
| "env_pairs its = []"

lemma p_bytes_length: "covered p \<Longrightarrow> length (p_bytes p) = p_len p"
  by (simp add: covered_def p_bytes_def)

lemma fcgi_param_write_covered:
  assumes "covered k" "covered v"
  shows "fcgi_param_write buf p k v = fcgi_param_write buf p (pointer_of (p_bytes k)) (pointer_of (p_bytes v))"
proof -
  have "copy_pointer b n q = copy_pointer b n (pointer_of (p_bytes q))" if "covered q" for b n q
    using that p_bytes_length [OF that] by (simp add: copy_pointer_def pointer_of_def covered_def) (simp add: p_bytes_def)
  with assms show ?thesis by (simp add: fcgi_param_write_def p_bytes_length) (simp add: pointer_of_def p_bytes_length)
qed

lemma param_bytes_length: "length (param_bytes kv) \<le> 8 + length (fst kv) + length (snd kv)"
  by (simp add: param_bytes_def)

text \<open>
  The parameters from the first on as far as they fit, each in its encoding; what is written stays
  within the space.
\<close>

lemma env_loop_bytes:
  assumes "\<forall>it\<in>set its. item_ok it" "start + len \<le> length buf" "pos < len" "len < 2 ^ 31"
  shows "\<exists>n. let E = concat (map param_bytes (take n (env_pairs its))) in
           env_loop len its start buf pos = Inr (take (start + pos) buf @ E @ drop (start + pos + length E) buf, pos + length E)
           \<and> pos + length E < len"
  using assms
proof (induction len its start buf pos rule: env_loop.induct)
  case (1 len start buf pos)
  then show ?case by (intro exI [of _ 0]) simp
next
  case (2 len its start buf pos)
  then show ?case by (intro exI [of _ 0]) simp
next
  case (3 len e its start buf pos)
  then show ?case by simp
next
  case (4 len k v its start buf pos)
  have cov: "covered k" "covered v" using 4(2) by simp_all
  have u: "ulong (8 + int (p_len k) + int (p_len v)) = 8 + p_len k + p_len v" "ulong (int len - int pos) = len - pos"
    using cov 4(4,5) by (simp_all add: ulong_def covered_def nat_add_distrib)
  show ?case
  proof (cases "8 + p_len k + p_len v < len - pos")
    case False
    then show ?thesis by (intro exI [of _ 0]) (simp add: u 4(4))
  next
    case True
    let ?b = "param_bytes (p_bytes k, p_bytes v)" let ?buf = "take (start + pos) buf @ ?b @ drop (start + pos + length ?b) buf"
    have "length ?b \<le> 8 + p_len k + p_len v" using param_bytes_length [of "(p_bytes k, p_bytes v)"] cov by (simp add: p_bytes_length)
    with True have l: "pos + length ?b < len" by linarith
    have w: "fcgi_param_write buf (start + pos) k v = Inr (?buf, length ?b)"
      unfolding fcgi_param_write_covered [OF cov] using l 4(3) by (intro fcgi_param_write_bytes) simp
    have lb: "length ?buf = length buf" using l 4(3) by simp
    have "\<exists>n. let E = concat (map param_bytes (take n (env_pairs its))) in
        env_loop len its start ?buf (pos + length ?b) = Inr (take (start + (pos + length ?b)) ?buf @ E
          @ drop (start + (pos + length ?b) + length E) ?buf, pos + length ?b + length E) \<and> pos + length ?b + length E < len"
      by (rule 4(1)) (use True u lb l 4(2,3,5) in simp_all)
    then obtain n where n: "let E = concat (map param_bytes (take n (env_pairs its))) in
        env_loop len its start ?buf (pos + length ?b) = Inr (take (start + (pos + length ?b)) ?buf @ E
          @ drop (start + (pos + length ?b) + length E) ?buf, pos + length ?b + length E) \<and> pos + length ?b + length E < len" ..
    let ?E = "concat (map param_bytes (take n (env_pairs its)))"
    have s: "take (start + (pos + length ?b)) ?buf = take (start + pos) buf @ ?b"
      "drop (start + (pos + length ?b) + length ?E) ?buf = drop (start + pos + length (?b @ ?E)) buf"
      using l 4(3) by (simp_all add: add.commute add.left_commute)
    have "env_loop len (EParam k v # its) start buf pos = env_loop len its start ?buf (pos + length ?b)"
      using True u w by simp
    with n s show ?thesis by (intro exI [of _ "Suc n"]) (simp add: Let_def add.assoc)
  qed
qed

lemma fcgi_env_write_bytes:
  assumes "\<forall>it\<in>set (env_items fill sockname peername sr). item_ok it" "start + len \<le> length buf" "0 < len" "len < 2 ^ 31"
  shows "\<exists>n. let E = concat (map param_bytes (take n (env_pairs (env_items fill sockname peername sr)))) in
           fcgi_env_write len fill sockname peername sr start buf = Inr (take start buf @ E @ drop (start + length E) buf, length E)
           \<and> length E < len"
  using env_loop_bytes [OF assms(1,2) assms(3,4)] by (simp add: fcgi_env_write_def)

section \<open>Headers without a value\<close>

text \<open>
  A header line that ends with its colon has a value of length \<open>-1\<close>, that is \<open>2 ^ 64 - 1\<close>. The
  estimate wraps around and is small, and the copy leaves the memory of the request.
\<close>

lemma header_item_no_value:
  assumes "row_init row + n + 1 = row_end row" "row_end row \<le> length base" "row_end row < 2 ^ 31" "n \<le> 123"
    "base ! (row_init row + n) = CHR '':''" "\<forall>i<n. base ! (row_init row + i) \<noteq> CHR '':''"
  shows "\<exists>name rest. header_item base row = EParam \<lparr>p_data = Some name, p_len = 5 + n\<rparr> \<lparr>p_data = Some rest, p_len = 2 ^ 64 - 1\<rparr>
           \<and> length name = 5 + n \<and> length rest \<le> length base"
proof -
  let ?h = "take (n + 1) (drop (row_init row) base)"
  have hlen: "ulong (int (row_end row) - int (row_init row)) = n + 1" using assms(1,3) by (simp add: ulong_def flip: assms(1))
  have "?h = take n (drop (row_init row) base) @ [CHR '':'']"
    using assms(1,2,5) by (simp add: take_Suc_conv_app_nth)
  moreover have "c \<noteq> CHR '':''" if "c \<in> set (take n (drop (row_init row) base))" for c
    using that assms(1,2,6) by (auto simp: in_set_conv_nth)
  ultimately have "takeWhile (\<lambda>c. c \<noteq> CHR '':'') ?h = take n (drop (row_init row) base)" by (auto simp: takeWhile_append)
  moreover have "length (take n (drop (row_init row) base)) = n" using assms(1,2) by simp
  moreover have "ulong (int (n + 1) - int n - 2) = 2 ^ 64 - 1" by (simp add: ulong_def)
  ultimately show ?thesis using assms(4) by (simp add: header_item_def hlen Let_def)
qed

lemma env_loop_no_value:
  assumes "p_len k \<le> 128" "p_len k \<le> length (view k)" "p_len v = 2 ^ 64 - 1" "length (view v) < 2 ^ 64 - 1"
    "pos < len" "len < 2 ^ 31" "7 + p_len k < len - pos"
    "start + len \<le> length buf"
  shows "env_loop len (EParam k v # its) start buf pos = Inl OutOfBounds"
proof -
  have "ulong (8 + int (p_len k) + int (p_len v)) = 7 + p_len k"
  proof -
    have "8 + int (p_len k) + int (p_len v) = 7 + int (p_len k) + 18446744073709551616" using assms(3) by simp
    then have "(8 + int (p_len k) + int (p_len v)) mod 18446744073709551616 = (7 + int (p_len k)) mod 18446744073709551616"
      by (simp only: mod_add_self2)
    also have "\<dots> = 7 + int (p_len k)" using assms(1) by (intro mod_pos_pos_trivial) simp_all
    finally have "(8 + int (p_len k) + int (p_len v)) mod 18446744073709551616 = 7 + int (p_len k)" .
    then show ?thesis by (simp add: ulong_def nat_add_distrib)
  qed
  moreover have "ulong (int len - int pos) = len - pos" using assms(5,6) by (simp add: ulong_def)
  moreover have "fcgi_param_write buf (start + pos) k v = Inl OutOfBounds"
  proof -
    have v: "copy_pointer b n v = Inl OutOfBounds" for b n using assms(3,4) by (simp add: copy_pointer_def)
    show ?thesis
      unfolding fcgi_param_write_def write_length_def v
      by (auto simp: bindE_def put_bytes_def copy_pointer_def split: sum.splits if_splits)
  qed
  ultimately show ?thesis using assms(7) by simp
qed

end
