(* ===== verification/Fcgi_Response.thy ===== *)
theory Fcgi_Response
  imports Fcgi_Recv Fcgi_Env Mk_Header Mk_Plugin
begin

text \<open>
  The request and the response in \<^verbatim>\<open>plugins/fastcgi/fastcgi.c\<close>: the stream of packages that is
  sent to a server, the packages that come back, the headers of the response and the response itself.
  Every function runs on the context of its thread; a thread without one does not get here, because
  \<open>_mkp_core_thctx\<close> ends the process.
\<close>

section \<open>Headers of the response\<close>

definition cgi_extra_row :: "mk_pointer \<Rightarrow> response_headers \<Rightarrow> cerr + response_headers" where
  "cgi_extra_row p rh =
     (let rows = (case rh_extra_rows rh of None \<Rightarrow> mk_iov_create (MK_PLUGIN_HEADER_EXTRA_ROWS * 2) 0 | Some io \<Rightarrow> io)
      in bindE (mk_iov_add_entry rows p \<lparr>p_data = Some [], p_len = 0\<rparr> False) (\<lambda>rows'. Inr (rh\<lparr>rh_extra_rows := Some rows'\<rparr>)))"

text \<open>\<open>entry\<close> is the memory from the line on, \<open>len\<close> the length of the line with its end.\<close>

definition fcgi_handle_cgi_header :: "cstr \<Rightarrow> nat \<Rightarrow> session_request \<Rightarrow> cerr + int \<times> session_request" where
  "fcgi_handle_cgi_header entry len sr =
     (let rh = sr_headers sr in
      if strncasecmp_eq entry ''Content-type: '' 14 then
        Inr (0, sr\<lparr>sr_headers := rh\<lparr>rh_content_type := \<lparr>p_data = Some (drop 14 entry), p_len = ulong (int len - 14)\<rparr>\<rparr>\<rparr>)
      else if strncasecmp_eq entry ''Location: '' 10 then
        let value_len = ulong (int len - 10 - (if entry ! (len - 2) = CR then 2 else 1)) in
        Inr (0, sr\<lparr>sr_headers := rh\<lparr>rh_location := Some (cstring (take value_len (drop 10 entry)))\<rparr>\<rparr>)
      else if strncasecmp_eq entry ''Status: '' 8 then
        (case sscanf_d (drop 8 entry) of
           None \<Rightarrow> Inr (-1, sr)
         | Some status \<Rightarrow> Inr (0, mk_header_set_http_status sr status))
      else bindE (cgi_extra_row \<lparr>p_data = Some entry, p_len = len\<rparr> rh) (\<lambda>rh'. Inr (0, sr\<lparr>sr_headers := rh'\<rparr>)))"

text \<open>
  The loop over the lines: \<open>p\<close> is the memory from the current line on. Every search covers \<open>len\<close>
  bytes, whatever has been read; to search behind the end of the memory is an error.
\<close>

definition memchr_in :: "cstr \<Rightarrow> char \<Rightarrow> nat \<Rightarrow> cerr + nat option" where
  "memchr_in p c n =
     (case memchr p c n of
        Some i \<Rightarrow> Inr (Some i)
      | None \<Rightarrow> if length p < n then Inl OutOfBounds else Inr None)"

function cgi_headers_loop :: "nat \<Rightarrow> cstr \<Rightarrow> nat \<Rightarrow> session_request \<Rightarrow> cerr + nat \<times> session_request" where
  "cgi_headers_loop len p cnt sr =
     (if \<not> cnt < len then Inr (cnt, sr)
      else
        case memchr_in p LF len of
          Inl e \<Rightarrow> Inl e
        | Inr None \<Rightarrow> Inr (cnt, sr)
        | Inr (Some q) \<Rightarrow>
            if q \<le> 2 then Inr (cnt + q + 1, sr)
            else
              case fcgi_handle_cgi_header p (q + 1) sr of
                Inl e \<Rightarrow> Inl e
              | Inr (ret, sr') \<Rightarrow> cgi_headers_loop len (drop (q + 1) p) (cnt + q + 1) sr')"
  by pat_completeness auto
termination by (relation "measure (\<lambda>(len, p, cnt, sr). len - cnt)") auto

declare cgi_headers_loop.simps [simp del]

text \<open>
  The first entry of the vector. In an empty vector it is what an earlier use has left there: a
  pointer to memory that has been freed, or nothing defined.
\<close>

definition base_view :: "chunk_mem \<Rightarrow> base \<Rightarrow> cerr + cstr" where
  "base_view cm b =
     (case b of
        BNull \<Rightarrow> Inl NullDeref
      | BChunk c off \<Rightarrow> bindE (chunk_at cm c) (\<lambda>ck. Inr (drop off (ck_data ck)))
      | BBuf a off \<Rightarrow> (case cm_bufs cm a of None \<Rightarrow> Inl UseAfterFree | Some d \<Rightarrow> Inr (drop off d))
      | BExt s \<Rightarrow> Inr s)"

definition fcgi_parse_cgi_headers :: "chunk_mem \<Rightarrow> chunk_iov \<Rightarrow> session_request \<Rightarrow> cerr + nat \<times> session_request" where
  "fcgi_parse_cgi_headers cm iov sr =
     (case ci_io iov of
        [] \<Rightarrow> Inl UseAfterFree
      | e # _ \<Rightarrow>
          if ie_len e = 0 then Inr (0, sr)
          else bindE (base_view cm (ie_base e)) (\<lambda>p. cgi_headers_loop (ie_len e) p 0 sr))"

section \<open>Changes of a request\<close>

definition upd_req :: "nat \<Rightarrow> (request \<Rightarrow> request) \<Rightarrow> fcgi_context \<Rightarrow> fcgi_context" where
  "upd_req r g cx = set_req r (g (req_of r cx)) cx"

definition req_set_state :: "nat \<Rightarrow> request_state \<Rightarrow> fcgi_context \<Rightarrow> cerr + int \<times> fcgi_context" where
  "req_set_state r st cx =
     bindE (request_set_state st (req_of r cx) (fx_mem cx)) (\<lambda>(ret, req, cm). Inr (ret, set_req r req (cx\<lparr>fx_mem := cm\<rparr>)))"

definition req_recycle :: "nat \<Rightarrow> fcgi_context \<Rightarrow> cerr + fcgi_context" where
  "req_recycle r cx =
     bindE (request_recycle (req_of r cx) (fx_mem cx)) (\<lambda>(req, cm). Inr (set_req r req (cx\<lparr>fx_mem := cm\<rparr>)))"

definition wake_request :: "nat \<Rightarrow> fcgi_context \<Rightarrow> fcgi_context" where
  "wake_request r cx =
     (if request_get_flag (req_of r cx) REQ_SLEEPING
      then upd_req r (\<lambda>req. snd (request_unset_flag REQ_SLEEPING req)) (xemit (XMode (rq_fd (req_of r cx)) MK_EPOLL_WAKEUP) cx)
      else cx)"

text \<open>What the functions do with a request at their label \<open>error\<close>.\<close>

definition fail_request :: "nat \<Rightarrow> fcgi_context \<Rightarrow> cerr + fcgi_context" where
  "fail_request r cx = bindE (req_set_state r REQ_FAILED cx) (\<lambda>(_, cx'). Inr (wake_request r cx'))"

definition fd_set_state :: "nat \<Rightarrow> fcgi_fd_state \<Rightarrow> fcgi_context \<Rightarrow> int \<times> fcgi_context" where
  "fd_set_state f st cx = (let (ret, fd) = fcgi_fd_set_state st (fd_of f cx) in (ret, set_fd f fd cx))"

section \<open>The packages of the server\<close>

text \<open>Results are the return value; \<open>pkg_failed\<close> is the label \<open>error\<close>.\<close>

definition pkg_failed :: "nat \<Rightarrow> fcgi_context \<Rightarrow> cerr + int \<times> fcgi_context" where
  "pkg_failed r cx = bindE (fail_request r cx) (\<lambda>cx'. Inr (-1, cx'))"

definition pkg_stdout :: "alloc \<Rightarrow> nat \<Rightarrow> fcgi_header \<Rightarrow> chunk_ptr \<Rightarrow> fcgi_context \<Rightarrow> cerr + int \<times> fcgi_context" where
  "pkg_stdout al r h read cx =
     (if rq_state (req_of r cx) = REQ_FAILED then Inr (0, cx)
      else if fh_body_len h = 0 then
        bindE (req_set_state r REQ_STREAM_CLOSED cx) (\<lambda>(ret, cx1). if ret \<noteq> 0 then pkg_failed r cx1 else Inr (0, cx1))
      else
        bindE (request_add_pkg al h read (req_of r cx) (fx_mem cx)) (\<lambda>(ret, req, cm).
          let cx1 = set_req r req (cx\<lparr>fx_mem := cm\<rparr>) in
          if \<not> 0 < ret then pkg_failed r cx1 else Inr (0, cx1)))"

definition pkg_end :: "nat \<Rightarrow> nat \<Rightarrow> chunk_ptr \<Rightarrow> fcgi_context \<Rightarrow> cerr + int \<times> fcgi_context" where
  "pkg_end f r read cx =
     bindE (ptr_view (fx_mem cx) (ptr_add FCGI_HEADER_LEN read)) (\<lambda>bs. bindE (fcgi_read_end_req_body bs) (\<lambda>_.
       let cx1 = upd_req r (request_set_fcgi_fd (-1)) cx; (ret, cx2) = fd_set_state f FCGI_FD_READY cx1 in
       if ret \<noteq> 0 then pkg_failed r cx2
       else if rq_fd (req_of r cx2) = -1 then bindE (req_recycle r cx2) (\<lambda>cx3. Inr (0, cx3))
       else if rq_state (req_of r cx2) \<noteq> REQ_FAILED then
         bindE (req_set_state r REQ_ENDED cx2) (\<lambda>(ret2, cx3).
           if ret2 \<noteq> 0 then pkg_failed r cx3 else Inr (0, wake_request r cx3))
       else Inr (0, cx2)))"

text \<open>Packages of other types are ignored, those to the standard error logged.\<close>

definition fcgi_handle_pkg :: "alloc \<Rightarrow> pkg_handler" where
  "fcgi_handle_pkg al f req h read cx =
     (case req of
        None \<Rightarrow> Inr (-1, cx)
      | Some r \<Rightarrow>
          if fh_type h = FCGI_STDOUT then pkg_stdout al r h read cx
          else if fh_type h = FCGI_END_REQUEST then pkg_end f r read cx
          else if fh_type h = 0 then pkg_failed r cx
          else Inr (0, cx))"

section \<open>The response to the client\<close>

definition SH_NOCGI :: int where [mk_const]: "SH_NOCGI = 0"
definition MK_HTTP_OK :: int where [mk_const]: "MK_HTTP_OK = 200"

definition put_sr :: "session_request \<Rightarrow> request \<Rightarrow> request" where
  "put_sr sr req = req\<lparr>rq_sr := Some sr\<rparr>"

definition fcgi_send_response_headers :: "nat \<Rightarrow> fcgi_context \<Rightarrow> cerr + int \<times> fcgi_context" where
  "fcgi_send_response_headers r cx =
     (let req = req_of r cx in
      if request_get_flag req REQ_HEADERS_SENT then Inr (0, cx)
      else
        case rq_sr req of
          None \<Rightarrow> Inl NullDeref
        | Some sr \<Rightarrow>
            let sr1 = mk_header_set_http_status sr MK_HTTP_OK; sr2 = sr1\<lparr>sr_headers := (sr_headers sr1)\<lparr>rh_cgi := SH_NOCGI\<rparr>\<rparr> in
            bindE (fcgi_parse_cgi_headers (fx_mem cx) (rq_iov req) sr2) (\<lambda>(headers_offset, sr3).
              bindE (chunk_iov_drop headers_offset (rq_iov req)) (\<lambda>(ret, iov).
                let cx1 = upd_req r (put_sr sr3) cx in
                if ret \<noteq> 0 then Inr (-1, cx1)
                else
                  let sr4 = sr3\<lparr>sr_headers := (sr_headers sr3)\<lparr>rh_content_length := int (chunk_iov_length iov)\<rparr>\<rparr>;
                      sr5 = sr4\<lparr>sr_headers := (sr_headers sr4)\<lparr>rh_location := None\<rparr>\<rparr>
                  in Inr (0, upd_req r (\<lambda>req. snd (request_set_flag REQ_HEADERS_SENT (put_sr sr5 (req\<lparr>rq_iov := iov\<rparr>))))
                            (xemit (XHeaders (rq_fd req) sr4) cx1)))))"

text \<open>\<open>answer\<close> is what \<open>writev\<close> returns: a number of bytes, or an error (also when it would block).\<close>

definition fcgi_send_response :: "nat option \<Rightarrow> nat \<Rightarrow> fcgi_context \<Rightarrow> cerr + int \<times> fcgi_context" where
  "fcgi_send_response answer r cx =
     (let req = req_of r cx; fd = rq_fd req in
      if \<not> request_get_flag req REQ_HEADERS_SENT then Inr (-1, cx)
      else
        bindE (chunk_iov_sendv answer (fx_mem cx) (rq_iov req)) (\<lambda>(ret, bs).
          let cx1 = xemit (XSendv fd bs) cx in
          if ret = -1 then Inr (-1, cx)
          else if ret = int (chunk_iov_length (rq_iov req)) then
            bindE (req_set_state r REQ_FINISHED cx1) (\<lambda>(ret2, cx2).
              if ret2 \<noteq> 0 then Inr (-1, cx2)
              else bindE (req_recycle r cx2) (\<lambda>cx3. Inr (0, xemit (XRequestEnd fd) (xemit (XCork fd False) cx3))))
          else
            bindE (chunk_iov_drop (nat ret) (rq_iov req)) (\<lambda>(ret2, iov).
              Inr (if ret2 \<noteq> 0 then -1 else 0, upd_req r (\<lambda>q. q\<lparr>rq_iov := iov\<rparr>) cx1))))"

section \<open>The request to the server\<close>

text \<open>The answers of the operating system and of the C library to one call of the plugin.\<close>

record fcgi_world =
  fw_alloc :: alloc
  fw_match :: "cstr \<Rightarrow> cstr \<Rightarrow> bool"
  fw_socket :: int
  fw_unix_connect :: "cstr \<Rightarrow> bool"
  fw_inet_connect :: "cstr \<Rightarrow> int \<Rightarrow> int"
  fw_sockname :: "(cstr option \<times> int) option"
  fw_peername :: "(cstr \<times> int) option"
  fw_uri :: "(nat \<Rightarrow> char) option"

definition FCGI_BUF :: nat where [mk_const]: "FCGI_BUF = 4096"

text \<open>\<open>~(n - 1) & 7\<close>\<close>

definition body_pad :: "nat \<Rightarrow> 8 word" where
  "body_pad n = word_of_int (NOT (int n - 1) AND 7)"

definition fcgi_hdr :: "8 word \<Rightarrow> 16 word \<Rightarrow> nat \<Rightarrow> 8 word \<Rightarrow> fcgi_header" where
  "fcgi_hdr type req_id len pad =
     \<lparr>fh_version = FCGI_VERSION_1, fh_type = type, fh_req_id = req_id, fh_body_len = word_of_nat len, fh_body_pad = pad\<rparr>"

text \<open>\<open>check(len - pos > sizeof(h), ...)\<close> in unsigned arithmetic, and the header behind it.\<close>

definition room :: "nat \<Rightarrow> bool" where
  "room pos \<longleftrightarrow> FCGI_HEADER_LEN < ulong (int FCGI_BUF - int pos)"

text \<open>
  The part before the body of the request: the start of the request, the parameters and the end of
  the parameters. \<open>None\<close> stands for the label \<open>error\<close>.
\<close>

definition prepare_head ::
  "fcgi_world \<Rightarrow> 16 word \<Rightarrow> bool \<Rightarrow> session_request \<Rightarrow> cstr \<Rightarrow> cerr + (cstr \<times> nat) option" where
  "prepare_head w req_id keep sr buf =
     (if \<not> room 0 then Inr None
      else bindE (fcgi_write_header buf 0 (fcgi_hdr FCGI_BEGIN_REQUEST req_id FCGI_BEGIN_BODY_LEN 0)) (\<lambda>(buf1, n1).
        if \<not> room n1 then Inr None
        else bindE (fcgi_write_begin_req_body buf1 n1
               \<lparr>fb_role = FCGI_RESPONDER, fb_flags = (if keep then FCGI_KEEP_CONN else 0)\<rparr>) (\<lambda>(buf2, n2).
          let tmp = n1 + n2; pos = tmp + FCGI_HEADER_LEN in
          bindE (fcgi_env_write (FCGI_BUF - pos) (fw_uri w) (fw_sockname w) (fw_peername w) sr pos buf2) (\<lambda>(buf3, ret).
            bindE (fcgi_write_header buf3 tmp (fcgi_hdr FCGI_PARAMS req_id ret (body_pad ret))) (\<lambda>(buf4, _).
              let pos2 = pos + (ret mod 65536 + unat (body_pad ret)) in
              if \<not> room pos2 then Inr None
              else bindE (fcgi_write_header buf4 pos2 (fcgi_hdr FCGI_PARAMS req_id 0 0)) (\<lambda>(buf5, n5).
                Inr (Some (buf5, pos2 + n5))))))))"

text \<open>
  The end without and with a body. In the second case the space for the body in the buffer is left
  out, the end of the stream is written behind it, and the last entry is as long as everything
  before it.
\<close>

definition prepare_empty :: "16 word \<Rightarrow> nat \<Rightarrow> cstr \<Rightarrow> nat \<Rightarrow> chunk_iov \<Rightarrow> cerr + (cstr \<times> chunk_iov) option" where
  "prepare_empty req_id b buf pos iov =
     (if \<not> room pos then Inr None
      else bindE (fcgi_write_header buf pos (fcgi_hdr FCGI_STDIN req_id 0 0)) (\<lambda>(buf1, n).
        let (ret, iov1) = chunk_iov_add_ptr (BBuf b 0) (pos + n) True iov in
        Inr (if ret \<noteq> 0 then None else Some (buf1, iov1))))"

definition prepare_body ::
  "16 word \<Rightarrow> nat \<Rightarrow> mk_pointer \<Rightarrow> cstr \<Rightarrow> nat \<Rightarrow> chunk_iov \<Rightarrow> cerr + bool \<times> cstr \<times> chunk_iov" where
  "prepare_body req_id b data buf pos iov =
     (let h = fcgi_hdr FCGI_STDIN req_id (p_len data) (body_pad (p_len data)) in
      if \<not> room pos then Inr (False, buf, iov)
      else bindE (fcgi_write_header buf pos h) (\<lambda>(buf1, n).
        let pos1 = pos + n; (ret1, iov1) = chunk_iov_add_ptr (BBuf b 0) pos1 True iov in
        if ret1 \<noteq> 0 then Inr (False, buf1, iov1)
        else
          let (ret2, iov2) = chunk_iov_add_ptr (BExt (view data)) (p_len data) False iov1 in
          if ret2 \<noteq> 0 then Inr (False, buf1, iov2)
          else
            let pos2 = pos1 + (unat (fh_body_len h) + unat (fh_body_pad h)) in
            if \<not> room pos2 then Inr (False, buf1, iov2)
            else bindE (fcgi_write_header buf1 pos2 (fcgi_hdr FCGI_STDIN req_id 0 0)) (\<lambda>(buf2, n2).
              let (ret3, iov3) = chunk_iov_add_ptr (BBuf b pos1) (pos2 + n2) False iov2 in
              Inr (ret3 = 0, buf2, iov3))))"

text \<open>The label \<open>error\<close>: what the vector holds is released; a buffer it does not hold is lost.\<close>

definition prepare_failed :: "nat \<Rightarrow> fcgi_context \<Rightarrow> cerr + int \<times> fcgi_context" where
  "prepare_failed r cx =
     bindE (chunk_iov_reset (rq_iov (req_of r cx)) (fx_mem cx)) (\<lambda>(iov, cm).
       Inr (-1, upd_req r (\<lambda>q. q\<lparr>rq_iov := iov\<rparr>) (cx\<lparr>fx_mem := cm\<rparr>)))"

definition put_buf :: "nat \<Rightarrow> cstr \<Rightarrow> fcgi_context \<Rightarrow> fcgi_context" where
  "put_buf b d cx = cx\<lparr>fx_mem := (fx_mem cx)\<lparr>cm_bufs := (cm_bufs (fx_mem cx))(b \<mapsto> d)\<rparr>\<rparr>"

definition prepare_stdin ::
  "nat \<Rightarrow> 16 word \<Rightarrow> nat \<Rightarrow> session_request \<Rightarrow> cstr \<Rightarrow> nat \<Rightarrow> fcgi_context \<Rightarrow> cerr + int \<times> fcgi_context" where
  "prepare_stdin r req_id b sr buf pos cx =
     (let set_iov = (\<lambda>iov. upd_req r (\<lambda>q. q\<lparr>rq_iov := iov\<rparr>)) in
      if 0 < p_len (sr_data sr) then
        bindE (prepare_body req_id b (sr_data sr) buf pos (rq_iov (req_of r cx))) (\<lambda>(ok, buf', iov').
          let cx' = set_iov iov' (put_buf b buf' cx) in
          if ok then Inr (0, cx') else prepare_failed r cx')
      else
        bindE (prepare_empty req_id b buf pos (rq_iov (req_of r cx))) (\<lambda>res.
          case res of
            None \<Rightarrow> prepare_failed r cx
          | Some (buf', iov') \<Rightarrow> Inr (0, set_iov iov' (put_buf b buf' cx))))"

definition fcgi_prepare_request :: "fcgi_world \<Rightarrow> fcgi_config \<Rightarrow> nat \<Rightarrow> fcgi_context \<Rightarrow> cerr + int \<times> fcgi_context" where
  "fcgi_prepare_request w config r cx =
     (let b = cm_next (fx_mem cx); cx0 = cx\<lparr>fx_mem := (fx_mem cx)\<lparr>cm_next := b + 1\<rparr>\<rparr> in
      case fw_alloc w b of
        None \<Rightarrow> prepare_failed r cx0
      | Some fill \<Rightarrow>
          let buf = map fill [0..<FCGI_BUF]; cx1 = put_buf b buf cx0; req_id = request_list_index_of (fx_rl cx1) r in
          if \<not> 0 < req_id then prepare_failed r cx1
          else
            case (fcgi_config_get_location config (rq_clock_id (req_of r cx1)), rq_sr (req_of r cx1)) of
              (None, _) \<Rightarrow> prepare_failed r cx1
            | (Some _, None) \<Rightarrow> Inl NullDeref
            | (Some loc, Some sr) \<Rightarrow>
                bindE (prepare_head w (word_of_nat req_id) (fl_keep_alive loc) sr buf) (\<lambda>res.
                  case res of
                    None \<Rightarrow> prepare_failed r cx1
                  | Some (buf', pos) \<Rightarrow> prepare_stdin r (word_of_nat req_id) b sr buf' pos cx1))"

text \<open>\<open>stack\<close> is the array on the stack, which is not initialised.\<close>

definition fcgi_send_abort_request :: "cstr \<Rightarrow> bool \<Rightarrow> nat \<Rightarrow> nat \<Rightarrow> fcgi_context \<Rightarrow> cerr + int \<times> fcgi_context" where
  "fcgi_send_abort_request stack sent r f cx =
     (let req_id = request_list_index_of (fx_rl cx) r in
      if \<not> 0 < req_id then Inr (-1, cx)
      else bindE (fcgi_write_header stack 0 (fcgi_hdr FCGI_ABORT_REQUEST (word_of_nat req_id) 0 0)) (\<lambda>(buf, _).
        Inr (if sent then 0 else -1, xemit (XSend (ff_fd (fd_of f cx)) (take FCGI_HEADER_LEN buf)) cx)))"

section \<open>What a call leaves alone\<close>

text \<open>Chunks keep their content, or are freed.\<close>

definition sub_mem :: "chunk_mem \<Rightarrow> chunk_mem \<Rightarrow> bool" where
  "sub_mem cm cm' \<longleftrightarrow>
     (\<forall>c ck'. cm_chunks cm' c = Some ck' \<longrightarrow> (\<exists>ck n. cm_chunks cm c = Some ck \<and> ck' = ck\<lparr>ck_refs := n\<rparr>))"

lemma sub_mem_same: "cm_chunks cm' = cm_chunks cm \<Longrightarrow> sub_mem cm cm'"
  using unrefs_refl [of cm] by (simp add: sub_mem_def unrefs_def)

lemma sub_mem_unrefs: "unrefs cm cm' \<Longrightarrow> sub_mem cm cm'"
  by (simp add: sub_mem_def unrefs_def)

lemma sub_mem_trans:
  assumes "sub_mem x y" "sub_mem y z"
  shows "sub_mem x z"
proof -
  have "\<exists>ck n. cm_chunks x c = Some ck \<and> ck2 = ck\<lparr>ck_refs := n\<rparr>" if "cm_chunks z c = Some ck2" for c ck2
  proof -
    obtain ck1 n where 1: "cm_chunks y c = Some ck1" "ck2 = ck1\<lparr>ck_refs := n\<rparr>" using assms(2) \<open>cm_chunks z c = Some ck2\<close> unfolding sub_mem_def by blast
    then obtain ck m where "cm_chunks x c = Some ck" "ck1 = ck\<lparr>ck_refs := m\<rparr>" using assms(1) unfolding sub_mem_def by blast
    with 1 show ?thesis by (intro exI [of _ ck] exI [of _ n]) simp
  qed
  then show ?thesis by (simp add: sub_mem_def)
qed

text \<open>
  The invariant holds afterwards; the chunks of the connections are the same, with their content; and
  no package was received.
\<close>

definition moves :: "fcgi_context \<Rightarrow> fcgi_context \<Rightarrow> bool" where
  "moves cx cx' \<longleftrightarrow>
     ctx_ok cx' \<and> map ff_chunk (fx_fdl cx') = map ff_chunk (fx_fdl cx) \<and> rl_size (fx_rl cx') = rl_size (fx_rl cx)
     \<and> pkgs (fx_trace cx') = pkgs (fx_trace cx) \<and> sub_mem (fx_mem cx) (fx_mem cx')"

lemma moves_refl: "ctx_ok cx \<Longrightarrow> moves cx cx"
  by (simp add: moves_def sub_mem_same)

lemma moves_trans: "moves x y \<Longrightarrow> moves y z \<Longrightarrow> moves x z"
  using sub_mem_trans by (auto simp: moves_def)

lemma moves_D:
  assumes "moves cx cx'"
  shows "ctx_ok cx'" "length (fx_fdl cx') = length (fx_fdl cx)" "rl_size (fx_rl cx') = rl_size (fx_rl cx)"
    "pkgs (fx_trace cx') = pkgs (fx_trace cx)" "f < length (fx_fdl cx) \<Longrightarrow> ff_chunk (fd_of f cx') = ff_chunk (fd_of f cx)"
proof -
  have m: "map ff_chunk (fx_fdl cx') = map ff_chunk (fx_fdl cx)" using assms by (simp add: moves_def)
  show l: "length (fx_fdl cx') = length (fx_fdl cx)" using m map_eq_imp_length_eq by blast
  show "f < length (fx_fdl cx) \<Longrightarrow> ff_chunk (fd_of f cx') = ff_chunk (fd_of f cx)"
    using m l by (metis fd_of_def nth_map)
qed (use assms in \<open>simp_all add: moves_def\<close>)

lemma moves_kept:
  assumes "moves cx cx'" "f < length (fx_fdl cx)" "ff_chunk (fd_of f cx) = Some c" "cm_chunks (fx_mem cx) c = Some ck"
  shows "kept f c ck cx cx'"
proof -
  have c: "ff_chunk (fd_of f cx') = Some c" "f < length (fx_fdl cx')" using moves_D [OF assms(1)] assms(2,3) by simp_all
  then have "CHUNK_REF_CHUNK c \<in># ctx_refs cx'" by (simp add: ctx_refs_fd fd_refs_def)
  then obtain ck' where ck': "cm_chunks (fx_mem cx') c = Some ck'" using counted_D(5) [OF ctx_ok_D(1) [OF moves_D(1) [OF assms(1)]]] by blast
  then obtain ck0 n where "cm_chunks (fx_mem cx) c = Some ck0" "ck' = ck0\<lparr>ck_refs := n\<rparr>"
    using assms(1) unfolding moves_def sub_mem_def by blast
  with ck' c assms(4) moves_D(1,2) [OF assms(1)] show ?thesis by (auto simp: kept_def)
qed

text \<open>A result that is an error of a kind \<open>E\<close> or such a change.\<close>

definition good :: "(cerr \<Rightarrow> bool) \<Rightarrow> fcgi_context \<Rightarrow> cerr + 'a \<times> fcgi_context \<Rightarrow> bool" where
  "good E cx res \<longleftrightarrow> (case res of Inl e \<Rightarrow> E e | Inr (x, cx') \<Rightarrow> moves cx cx')"

lemma good_Inr [simp]: "good E cx (Inr (x, cx')) \<longleftrightarrow> moves cx cx'"
  by (simp add: good_def)

lemma good_Inl [simp]: "good E cx (Inl e) \<longleftrightarrow> E e"
  by (simp add: good_def)

lemma good_bind:
  "good E cx m \<Longrightarrow> (\<And>x cx'. m = Inr (x, cx') \<Longrightarrow> moves cx cx' \<Longrightarrow> good E cx (f (x, cx'))) \<Longrightarrow> good E cx (bindE m f)"
  by (cases m) (auto simp: good_def)

lemma good_trans: "moves cx cx1 \<Longrightarrow> good E cx1 res \<Longrightarrow> good E cx res"
  by (auto simp: good_def split: sum.splits intro: moves_trans)

lemma good_weaken: "good E cx res \<Longrightarrow> (\<And>e. E e \<Longrightarrow> F e) \<Longrightarrow> good F cx res"
  by (auto simp: good_def split: sum.splits)

section \<open>Steps on requests and connections\<close>

lemma moves_xemit: "ctx_ok cx \<Longrightarrow> pkgs [e] = [] \<Longrightarrow> moves cx (xemit e cx)"
  by (simp add: moves_def sub_mem_same) (simp add: xemit_def)

lemma moves_upd_req:
  assumes "ctx_ok cx" "r < rl_size (fx_rl cx)" "rq_iov (g (req_of r cx)) = rq_iov (req_of r cx)"
  shows "moves cx (upd_req r g cx)"
  using ctx_ok_req_field [OF assms(1,2), of "g (req_of r cx)"] assms(3) by (simp add: upd_req_def moves_def sub_mem_same)

lemma moves_upd_fd:
  assumes "ctx_ok cx" "f < length (fx_fdl cx)" "ff_chunk fd = ff_chunk (fd_of f cx)"
    "\<forall>r. ff_begin_req fd = Some r \<longrightarrow> r < rl_size (fx_rl cx)"
  shows "moves cx (set_fd f fd cx)"
proof -
  have "map ff_chunk ((fx_fdl cx)[f := fd]) = map ff_chunk (fx_fdl cx)"
    using assms(2,3) by (simp add: map_update list_update_same_conv fd_of_def)
  with ctx_ok_fd_field [OF assms] show ?thesis by (simp add: moves_def sub_mem_same) (simp add: set_fd_def)
qed

lemma moves_fd_state: "ctx_ok cx \<Longrightarrow> f < length (fx_fdl cx) \<Longrightarrow> fd_set_state f st cx = (ret, cx') \<Longrightarrow> moves cx cx'"
  using moves_upd_fd [of cx f "snd (fcgi_fd_set_state st (fd_of f cx))"] ctx_ok_D(5)
  by (auto simp: fd_set_state_def fd_set_state_frame split: prod.splits)

text \<open>A change of the vector of a request, with the memory counted anew.\<close>

lemma moves_req_mem:
  assumes "ctx_ok cx" "r < rl_size (fx_rl cx)" "counted cm (req_refs req + rest_req r cx)" "iov_ok (rq_iov req)" "sub_mem (fx_mem cx) cm"
  shows "moves cx (set_req r req (cx\<lparr>fx_mem := cm\<rparr>))"
  using ctx_ok_set_req [OF assms(1-4)] assms(5) by (simp add: moves_def)

lemma req_counted:
  assumes "ctx_ok cx" "r < rl_size (fx_rl cx)"
  shows "counted (fx_mem cx) (mset (map ie_ref (ci_io (rq_iov (req_of r cx)))) + rest_req r cx)"
  using ctx_ok_D(1) [OF assms(1)] ctx_refs_req [of r cx] ctx_ok_D(4) [OF assms(1)] assms(2) by (simp add: req_refs_def)

lemma iov_reset_step:
  assumes "ctx_ok cx" "r < rl_size (fx_rl cx)"
  shows "\<exists>cm. chunk_iov_reset (rq_iov (req_of r cx)) (fx_mem cx) = Inr ((rq_iov (req_of r cx))\<lparr>ci_io := []\<rparr>, cm)
           \<and> (\<forall>req. ci_io (rq_iov req) = [] \<longrightarrow> moves cx (set_req r req (cx\<lparr>fx_mem := cm\<rparr>)))"
proof -
  obtain cm where cm: "chunk_iov_free_refs (ci_io (rq_iov (req_of r cx))) (fx_mem cx) = Inr cm" "counted cm (rest_req r cx)" "unrefs (fx_mem cx) cm"
    using chunk_iov_free_refs_counted [OF req_counted [OF assms]] by blast
  have "moves cx (set_req r req (cx\<lparr>fx_mem := cm\<rparr>))" if "ci_io (rq_iov req) = []" for req
    by (rule moves_req_mem [OF assms]) (use that cm sub_mem_unrefs in \<open>simp_all add: req_refs_def iov_ok_def\<close>)
  with cm(1) show ?thesis by (auto simp: chunk_iov_reset_def)
qed

lemma req_recycle_step:
  assumes "ctx_ok cx" "r < rl_size (fx_rl cx)"
  shows "\<exists>cx'. req_recycle r cx = Inr cx' \<and> moves cx cx'"
proof -
  obtain cm where "chunk_iov_reset (rq_iov (req_of r cx)) (fx_mem cx) = Inr ((rq_iov (req_of r cx))\<lparr>ci_io := []\<rparr>, cm)"
      "\<forall>req. ci_io (rq_iov req) = [] \<longrightarrow> moves cx (set_req r req (cx\<lparr>fx_mem := cm\<rparr>))"
    using iov_reset_step [OF assms] by blast
  then show ?thesis by (simp add: req_recycle_def request_recycle_def request_reset_def)
qed

lemma req_set_state_step:
  assumes "ctx_ok cx" "r < rl_size (fx_rl cx)" "st \<noteq> REQ_AVAILABLE"
  shows "\<exists>ret cx'. req_set_state r st cx = Inr (ret, cx') \<and> moves cx cx'"
  using moves_upd_req [OF assms(1,2), of "\<lambda>req. req\<lparr>rq_state := st\<rparr>"] moves_upd_req [OF assms(1,2), of "\<lambda>req. req"] assms(3)
  by (simp add: req_set_state_def request_set_state_def upd_req_def)

lemma wake_request_step:
  assumes "ctx_ok cx" "r < rl_size (fx_rl cx)"
  shows "moves cx (wake_request r cx)"
proof -
  let ?e = "xemit (XMode (rq_fd (req_of r cx)) MK_EPOLL_WAKEUP) cx"
  have e: "moves cx ?e" using assms(1) by (intro moves_xemit) simp_all
  have "moves ?e (upd_req r (\<lambda>req. snd (request_unset_flag REQ_SLEEPING req)) ?e)"
    using assms by (intro moves_upd_req) (simp_all add: request_unset_flag_def)
  with e assms show ?thesis using moves_refl moves_trans by (auto simp: wake_request_def)
qed

lemma fail_request_step:
  assumes "ctx_ok cx" "r < rl_size (fx_rl cx)"
  shows "\<exists>cx'. fail_request r cx = Inr cx' \<and> moves cx cx'"
proof -
  obtain ret cx1 where 1: "req_set_state r REQ_FAILED cx = Inr (ret, cx1)" "moves cx cx1" using req_set_state_step [OF assms] by blast
  have "moves cx1 (wake_request r cx1)" using moves_D [OF 1(2)] assms by (intro wake_request_step) simp_all
  with 1 moves_trans show ?thesis by (auto simp: fail_request_def)
qed

lemma pkg_failed_good: "ctx_ok cx \<Longrightarrow> r < rl_size (fx_rl cx) \<Longrightarrow> good E cx (pkg_failed r cx)"
  using fail_request_step [of cx r] by (auto simp: pkg_failed_def)

section \<open>The handler of packages keeps its contract\<close>

lemma resize_keeps: "chunk_iov_resize al n iov cm = (ret, iov', cm') \<Longrightarrow>
    ci_io iov' = ci_io iov \<and> cm_chunks cm' = cm_chunks cm \<and> (counted cm R \<longrightarrow> counted cm' R)"
  by (auto simp: chunk_iov_resize_def alloc_ok_def Let_def split: if_splits intro: counted_next)

lemma iov_add_step:
  assumes "counted cm (mset (map ie_ref (ci_io iov)) + R)" "iov_ok iov" "cp_parent cp = Some c" "cm_chunks cm c = Some ck"
  shows "\<exists>ret iov' cm'. chunk_iov_add cp iov cm = Inr (ret, iov', cm') \<and> counted cm' (mset (map ie_ref (ci_io iov')) + R)
           \<and> iov_ok iov' \<and> sub_mem cm cm' \<and> c \<in> dom (cm_chunks cm')"
  using chunk_iov_add_counted [OF assms(1,3,4)] chunk_iov_add_iov_ok assms(2,4) sub_mem_unrefs by blast

lemma request_add_pkg_step:
  assumes "ctx_ok cx" "r < rl_size (fx_rl cx)" "cp_parent read = Some c" "cm_chunks (fx_mem cx) c = Some ck"
  shows "\<exists>ret req cm. request_add_pkg al h read (req_of r cx) (fx_mem cx) = Inr (ret, req, cm) \<and> moves cx (set_req r req (cx\<lparr>fx_mem := cm\<rparr>))"
proof -
  let ?q = "req_of r cx" and ?cp = "read\<lparr>cp_data := cp_data read + FCGI_HEADER_LEN, cp_len := unat (fh_body_len h)\<rparr>"
  have cp: "cp_parent ?cp = Some c" using assms(3) by simp
  have fin: "moves cx (set_req r (?q\<lparr>rq_iov := iov\<rparr>) (cx\<lparr>fx_mem := cm\<rparr>))"
    if "counted cm (mset (map ie_ref (ci_io iov)) + rest_req r cx)" "iov_ok iov" "sub_mem (fx_mem cx) cm" for iov cm
    by (rule moves_req_mem [OF assms(1,2)]) (use that in \<open>simp_all add: req_refs_def\<close>)
  note c0 = req_counted [OF assms(1,2)] and i0 = ctx_ok_D(6) [OF assms(1,2)]
  obtain ret1 iov1 cm1 where 1: "chunk_iov_add ?cp (rq_iov ?q) (fx_mem cx) = Inr (ret1, iov1, cm1)"
      "counted cm1 (mset (map ie_ref (ci_io iov1)) + rest_req r cx)" "iov_ok iov1" "sub_mem (fx_mem cx) cm1" "c \<in> dom (cm_chunks cm1)"
    using iov_add_step [OF c0 i0 cp assms(4)] by blast
  obtain ret2 iov2 cm2 where 2: "chunk_iov_resize al (ci_size iov1 + 2) iov1 cm1 = (ret2, iov2, cm2)" by (metis prod_cases3)
  have r2: "ci_io iov2 = ci_io iov1" "cm_chunks cm2 = cm_chunks cm1" "counted cm2 (mset (map ie_ref (ci_io iov2)) + rest_req r cx)" "iov_ok iov2"
    using resize_keeps [OF 2] 1(2,3) by (auto simp: iov_ok_def)
  have s2: "sub_mem (fx_mem cx) cm2" using sub_mem_trans [OF 1(4) sub_mem_same [OF r2(2)]] .
  obtain ck2 where "cm_chunks cm2 c = Some ck2" using 1(5) r2(2) by auto
  then obtain ret3 iov3 cm3 where 3: "chunk_iov_add ?cp iov2 cm2 = Inr (ret3, iov3, cm3)"
      "counted cm3 (mset (map ie_ref (ci_io iov3)) + rest_req r cx)" "iov_ok iov3" "sub_mem cm2 cm3"
    using iov_add_step [OF r2(3,4) cp] by blast
  have same: "moves cx (set_req r ?q (cx\<lparr>fx_mem := fx_mem cx\<rparr>))" using fin [of "fx_mem cx" "rq_iov ?q"] c0 i0 sub_mem_same by simp
  show ?thesis
    using same fin [OF 1(2-4)] fin [OF r2(3,4) s2] fin [OF 3(2,3) sub_mem_trans [OF s2 3(4)]]
    by (simp add: request_add_pkg_def Let_def 1(1) 2 3(1) del: add_2_eq_Suc')
qed

lemma pkg_stdout_good:
  assumes "ctx_ok cx" "r < rl_size (fx_rl cx)" "cp_parent read = Some c" "cm_chunks (fx_mem cx) c = Some ck"
  shows "good E cx (pkg_stdout al r h read cx)"
proof -
  obtain ret cx1 where 1: "req_set_state r REQ_STREAM_CLOSED cx = Inr (ret, cx1)" "moves cx cx1"
    using req_set_state_step [OF assms(1,2)] by blast
  obtain ret2 req cm where 2: "request_add_pkg al h read (req_of r cx) (fx_mem cx) = Inr (ret2, req, cm)" "moves cx (set_req r req (cx\<lparr>fx_mem := cm\<rparr>))"
    using request_add_pkg_step [OF assms] by blast
  have "good E cx (pkg_failed r cx')" if "moves cx cx'" for cx'
    using good_trans [OF that pkg_failed_good] moves_D [OF that] assms(2) by simp
  then show ?thesis using 1 2 moves_refl [OF assms(1)] by (simp add: pkg_stdout_def Let_def)
qed

lemma pkg_end_good:
  assumes "handed f (Some r) h read c ck cx" "\<And>e. e = OutOfBounds \<Longrightarrow> E e"
  shows "good E cx (pkg_end f r read cx)"
proof -
  have cx: "ctx_ok cx" "f < length (fx_fdl cx)" "r < rl_size (fx_rl cx)" "cp_parent read = Some c" "cm_chunks (fx_mem cx) c = Some ck"
    using assms(1) by (simp_all add: handed_def)
  have view: "ptr_view (fx_mem cx) (ptr_add FCGI_HEADER_LEN read) = Inr (drop (cp_data read + FCGI_HEADER_LEN) (ck_data ck))"
    using cx(4,5) by (simp add: ptr_view_def ptr_add_def chunk_at_def)
  let ?cx1 = "upd_req r (request_set_fcgi_fd (-1)) cx"
  obtain ret cx2 where 2: "fd_set_state f FCGI_FD_READY ?cx1 = (ret, cx2)" by fastforce
  have m1: "moves cx ?cx1" using cx by (intro moves_upd_req) (simp_all add: request_set_fcgi_fd_def)
  have m2: "moves cx cx2" using moves_trans [OF m1 moves_fd_state [OF _ _ 2]] moves_D [OF m1] cx(2) by simp
  have ok2: "ctx_ok cx2" "r < rl_size (fx_rl cx2)" using moves_D [OF m2] cx(3) by simp_all
  obtain cx3 where 3: "req_recycle r cx2 = Inr cx3" "moves cx2 cx3" using req_recycle_step [OF ok2] by blast
  obtain ret4 cx4 where 4: "req_set_state r REQ_ENDED cx2 = Inr (ret4, cx4)" "moves cx2 cx4" using req_set_state_step [OF ok2] by blast
  have m4: "moves cx cx4" by (rule moves_trans [OF m2 4(2)])
  have f: "good E cx (pkg_failed r cx')" if "moves cx cx'" for cx'
    using good_trans [OF that pkg_failed_good] moves_D [OF that] cx(3) by simp
  have wake: "moves cx (wake_request r cx4)" using moves_trans [OF m4 wake_request_step] moves_D [OF m4] cx(3) by simp
  show ?thesis
  proof (cases "fcgi_read_end_req_body (drop (cp_data read + FCGI_HEADER_LEN) (ck_data ck))")
    case (Inl e)
    then have "e = OutOfBounds" by (simp add: fcgi_read_end_req_body_def split: if_splits)
    with Inl view assms(2) show ?thesis by (simp add: pkg_end_def)
  next
    case (Inr body)
    with view f [OF m2] f [OF m4] wake m2 moves_trans [OF m2 3(2)] show ?thesis
      by (simp add: pkg_end_def 2 3(1) 4(1))
  qed
qed

lemma fcgi_handle_pkg_good:
  assumes "handed f req h read c ck cx"
  shows "good (\<lambda>e. e = OutOfBounds) cx (fcgi_handle_pkg al f req h read cx)"
proof (cases req)
  case None
  then show ?thesis using assms moves_refl by (simp add: fcgi_handle_pkg_def handed_def)
next
  case (Some r)
  have cx: "ctx_ok cx" "r < rl_size (fx_rl cx)" "cp_parent read = Some c" "cm_chunks (fx_mem cx) c = Some ck"
    using assms Some by (simp_all add: handed_def)
  show ?thesis
    using pkg_stdout_good [OF cx] pkg_end_good [OF assms [unfolded Some], of "\<lambda>e. e = OutOfBounds"] pkg_failed_good [OF cx(1,2)] moves_refl [OF cx(1)]
    by (simp add: fcgi_handle_pkg_def Some)
qed

interpretation fcgi: pkg_contract "fcgi_handle_pkg al" for al
proof
  fix f :: nat and req h and read :: chunk_ptr and c ck cx e
  assume h: "handed f req h read c ck cx" and r: "fcgi_handle_pkg al f req h read cx = Inl e"
  show "e = OutOfBounds" using fcgi_handle_pkg_good [OF h, of al] r by simp
next
  fix f :: nat and req h and read :: chunk_ptr and c ck cx ret cx' a ca
  assume h: "handed f req h read c ck cx" and r: "fcgi_handle_pkg al f req h read cx = Inr (ret, cx')"
  have m: "moves cx cx'" using fcgi_handle_pkg_good [OF h, of al] r by simp
  show "kept f a ca cx cx'" if "ff_chunk (fd_of f cx) = Some a" "cm_chunks (fx_mem cx) a = Some ca"
    using h that by (intro moves_kept [OF m]) (simp_all add: handed_def)
  show "\<exists>ca0 n. cm_chunks (fx_mem cx) a = Some ca0 \<and> ca = ca0\<lparr>ck_refs := n\<rparr>" if "cm_chunks (fx_mem cx') a = Some ca"
    using m that by (simp add: moves_def sub_mem_def)
  show "pkgs (fx_trace cx') = pkgs (fx_trace cx)" by (rule moves_D(4) [OF m])
qed

text \<open>
  C35: which packages \<open>fcgi_recv_response\<close> hands to the handler, for every way the network cuts the
  bytes of a FastCGI server into portions, and every content of the chunk of the connection. From a
  context in which the invariant holds it ends, with the invariant kept, or with an access error: that of
  an end package without a body, or the use of a freed chunk, the latter only when unread bytes are in a
  chunk without room for another header and the first read has no data. The packages it has handled are
  a prefix of the packages of a byte stream \<open>u @ stream as\<close>: all of them when it returns 0, with the bytes
  of the incomplete package at the end unread in the chunk. The stream is that of the server, the bytes
  unread from before and then the new ones, with two exceptions, in which the code loses the bytes of
  an incomplete package: when the chunk has no room for another header, the unread bytes are dropped
  and \<open>u\<close> is empty; and when the call has no data to read at all (nothing has arrived, or the server has
  closed the connection), the bytes that are unread after it are none, although \<open>u\<close> may have been the
  start of a package.
\<close>

theorem fcgi_recv_response_frames:
  assumes "ctx_ok cx" "f < length (fx_fdl cx)" "u = (if can_read f cx \<or> stream as = [] then unread f cx else [])"
  shows "case fcgi_recv_response al (fcgi_handle_pkg al) f as cx of
           Inl e \<Rightarrow> e = OutOfBounds \<or> e = UseAfterFree \<and> \<not> can_read f cx \<and> stream as = []
         | Inr (ret, cx') \<Rightarrow>
             ctx_ok cx' \<and> length (fx_fdl cx') = length (fx_fdl cx)
             \<and> (\<exists>gs hs. fst (frames (u @ stream as)) = gs @ hs \<and> pkgs (fx_trace cx') = pkgs (fx_trace cx) @ gs
                  \<and> (ret = 0 \<longrightarrow> hs = [] \<and> unread f cx' = (if stream as = [] then [] else snd (frames (u @ stream as)))))"
  using fcgi.fcgi_recv_response_ok [OF assms(1,2), of as al al, folded assms(3)] unfolding received_def simp_thms .

definition demo_world_alloc :: alloc where
  "demo_world_alloc n = Some (\<lambda>i. NUL)"

definition demo_cx :: fcgi_context where
  "demo_cx = \<lparr>fx_thread_id = 0, fx_mem = \<lparr>cm_chunks = Map.empty, cm_bufs = Map.empty, cm_list = [], cm_next = 0\<rparr>,
              fx_rl = demo_list, fx_fdl = [(fcgi_fd_init FCGI_FD_UNIX 0 0)\<lparr>ff_state := FCGI_FD_RECEIVING, ff_fd := 9\<rparr>], fx_trace = []\<rparr>"

lemma demo_cx_ok: "ctx_ok demo_cx"
proof -
  have "ctx_refs demo_cx = {#}"
    by (simp add: ctx_refs_def demo_cx_def demo_list_def all_refs_def req_refs_def fd_refs_def new_request_def empty_iov_def fcgi_fd_init_def)
  moreover have "counted (fx_mem demo_cx) {#}" by (simp add: demo_cx_def counted_def mem_ok_def)
  moreover have "\<forall>req\<in>set (rl_rs (fx_rl demo_cx)). iov_ok (rq_iov req)" by (simp add: demo_cx_def demo_list_def new_request_def)
  moreover have "list_ok (fx_rl demo_cx)" using demo_list_ok by (simp add: demo_cx_def)
  ultimately show ?thesis by (simp add: ctx_ok_def) (simp add: demo_cx_def fcgi_fd_init_def)
qed

lemma demo_cx_unread: "unread 0 demo_cx = []"
  by (simp add: unread_def fd_of_def demo_cx_def fcgi_fd_init_def)

text \<open>A package of the standard error in two portions, and the start of another one.\<close>

definition demo_answers :: "sock_answer list" where
  "demo_answers = [SData (map mkchar [1, 7, 0, 1]), SData (map mkchar [0, 1, 0, 0, 65, 1, 7])]"

lemma demo_frames:
  "frames (stream demo_answers) =
     ([(\<lparr>fh_version = 1, fh_type = 7, fh_req_id = 1, fh_body_len = 1, fh_body_pad = 0\<rparr>, map mkchar [1, 7, 0, 1, 0, 1, 0, 0, 65])],
      map mkchar [1, 7])"
proof -
  let ?s = "map mkchar [1, 7, 0, 1, 0, 1, 0, 0, 65, 1, 7]"
  have s: "stream demo_answers = ?s" by (simp add: demo_answers_def)
  have h: "fcgi_read_header ?s = Inr \<lparr>fh_version = 1, fh_type = 7, fh_req_id = 1, fh_body_len = 1, fh_body_pad = 0\<rparr>"
    by (simp add: fcgi_read_header_def rd_byte_def byte_mkchar_mod)
  have "frames (map mkchar [1, 7]) = ([], map mkchar [1, 7])" by (rule frames_short) (simp add: FCGI_HEADER_LEN_def)
  then show ?thesis unfolding s using frames_step [OF h] by (simp add: pkg_length_def FCGI_HEADER_LEN_def)
qed

theorem fcgi_recv_response_frames_witness:
  "case fcgi_recv_response demo_world_alloc (fcgi_handle_pkg demo_world_alloc) 0 demo_answers demo_cx of
     Inl e \<Rightarrow> e = OutOfBounds
   | Inr (ret, cx') \<Rightarrow> ctx_ok cx' \<and> (ret = 0 \<longrightarrow> length (pkgs (fx_trace cx')) = 1 \<and> unread 0 cx' = map mkchar [1, 7])"
proof -
  have 0: "0 < length (fx_fdl demo_cx)" "pkgs (fx_trace demo_cx) = []" by (simp_all add: demo_cx_def)
  have r: "can_read 0 demo_cx" using demo_cx_unread by (simp add: can_read_def)
  have u: "[] = (if can_read 0 demo_cx \<or> stream demo_answers = [] then unread 0 demo_cx else [])" using demo_cx_unread by simp
  have s: "stream demo_answers \<noteq> []" by (simp add: demo_answers_def)
  note result = fcgi_recv_response_frames [OF demo_cx_ok 0(1) u, where al = demo_world_alloc]
  show ?thesis using result by (auto simp: demo_frames 0(2) s r split: sum.splits) (drule sym, simp)
qed

section \<open>Preparing a request\<close>

lemma put_bytes_mild: "put_bytes buf p bs = Inl e \<Longrightarrow> mild e"
  by (simp add: put_bytes_def mild_def split: if_splits)

lemma fcgi_write_header_mild: "fcgi_write_header buf p h = Inl e \<Longrightarrow> mild e"
  using put_bytes_mild by (auto simp: fcgi_write_header_def bindE_def split: sum.splits)

lemma fcgi_param_write_mild: "fcgi_param_write buf p k v = Inl e \<Longrightarrow> mild e"
  using put_bytes_mild
  by (fastforce simp: fcgi_param_write_def write_length_def copy_pointer_def bindE_def mild_def split: sum.splits if_splits)

lemma env_loop_mild:
  "env_loop len its start buf pos = Inl e \<Longrightarrow> \<forall>x. EFault x \<in> set its \<longrightarrow> mild x \<Longrightarrow> mild e"
proof (induction len its start buf pos rule: env_loop.induct)
  case (4 len k v its start buf pos)
  then show ?case using fcgi_param_write_mild by (auto simp: bindE_def split: if_splits sum.splits)
qed auto

lemma env_items_mild: "EFault x \<in> set (env_items fill sockname peername sr) \<Longrightarrow> mild x"
  by (auto simp: env_items_def env_set_def host_items_def sockname_items_def peername_items_def uri_item_def header_item_def
      mild_def Let_def split: option.splits if_splits)

lemma prepare_head_mild: "prepare_head w req_id keep sr buf = Inl e \<Longrightarrow> mild e"
  using env_loop_mild [OF _ allI [OF impI [OF env_items_mild]]] fcgi_write_header_mild put_bytes_mild
  by (fastforce simp: prepare_head_def fcgi_env_write_def fcgi_write_begin_req_body_def bindE_def Let_def split: if_splits sum.splits)

end
