(* ===== verification/Fcgi_Prepare.thy ===== *)
theory Fcgi_Prepare
  imports Fcgi_Response
begin

text \<open>
  What \<open>fcgi_prepare_request\<close> leaves: the references to chunks and buffers stay counted on every path.
\<close>

section \<open>Memory\<close>

lemma moves_mem: "ctx_ok cx \<Longrightarrow> counted cm (ctx_refs cx) \<Longrightarrow> sub_mem (fx_mem cx) cm \<Longrightarrow> moves cx (cx\<lparr>fx_mem := cm\<rparr>)"
  by (simp add: moves_def ctx_ok_def)

lemma counted_put_buf: "counted cm R \<Longrightarrow> b < cm_next cm \<Longrightarrow> counted (cm\<lparr>cm_bufs := (cm_bufs cm)(b \<mapsto> d)\<rparr>) R"
  by (auto simp: counted_def mem_ok_def)

lemma moves_put_buf: "ctx_ok cx \<Longrightarrow> b < cm_next (fx_mem cx) \<Longrightarrow> moves cx (put_buf b d cx)"
  unfolding put_buf_def by (rule moves_mem) (auto intro: counted_put_buf ctx_ok_D(1) sub_mem_same)

lemma moves_next: "ctx_ok cx \<Longrightarrow> moves cx (cx\<lparr>fx_mem := (fx_mem cx)\<lparr>cm_next := cm_next (fx_mem cx) + 1\<rparr>\<rparr>)"
  by (rule moves_mem) (auto intro: counted_next ctx_ok_D(1) sub_mem_same)

lemma counted_refs_below:
  assumes "counted cm R" "CHUNK_REF_UINT8 b \<in># R"
  shows "b < cm_next cm"
  using counted_D(7) [OF assms] counted_D(1) [OF assms(1)] by (auto simp: mem_ok_def)

section \<open>Entries for a buffer\<close>

text \<open>The first entry holds the buffer, the others hold nothing; they point to it or to other memory.\<close>

definition buf_entries :: "nat \<Rightarrow> iov_entry list \<Rightarrow> bool" where
  "buf_entries b es \<longleftrightarrow>
     es = [] \<or> (ie_ref (List.hd es) = CHUNK_REF_UINT8 b \<and> (\<forall>e\<in>set (tl es). ie_ref e = CHUNK_REF_NULL)
                \<and> (\<forall>e\<in>set es. case ie_base e of BBuf a off \<Rightarrow> a = b | BExt s \<Rightarrow> True | _ \<Rightarrow> False))"

lemma counted_buf_entries:
  assumes "counted cm R" "CHUNK_REF_UINT8 b \<notin># R" "b \<in> dom (cm_bufs cm)" "buf_entries b es"
  shows "counted cm (mset (map ie_ref es) + R)"
proof (cases es)
  case Nil
  with assms show ?thesis by simp
next
  case (Cons e es')
  have refs: "mset (map ie_ref es) = add_mset (CHUNK_REF_UINT8 b) (replicate_mset (length es') CHUNK_REF_NULL)"
  proof -
    have "map ie_ref es' = replicate (length es') CHUNK_REF_NULL"
      using assms(4) Cons by (auto simp: buf_entries_def intro: map_replicate_trivial replicate_eqI)
    then show ?thesis using assms(4) Cons by (simp add: buf_entries_def)
  qed
  show ?thesis unfolding refs using assms(1-3) by (auto simp: counted_def not_in_iff)
qed

lemma iov_ok_buf_entries:
  assumes "iov_ok iov" "buf_entries b es"
  shows "iov_ok (iov\<lparr>ci_io := ci_io iov @ es\<rparr>)"
proof (cases es)
  case Nil
  with assms show ?thesis by (simp add: iov_ok_def)
next
  case (Cons e es')
  let ?R = "ie_ref ` set (ci_io iov @ es)"
  have "CHUNK_REF_UINT8 b \<in> ?R" using assms(2) Cons by (auto simp: buf_entries_def)
  then have "base_ok ?R (ie_base x)" if "x \<in> set es" for x
    using assms(2) that Cons by (auto simp: buf_entries_def base_ok_def split: base.splits)
  moreover have "base_ok ?R (ie_base x)" if "x \<in> set (ci_io iov)" for x
    using assms(1) that base_ok_mono [of "ie_ref ` set (ci_io iov)" "ie_base x" ?R] by (auto simp: iov_ok_def)
  ultimately show ?thesis by (auto simp: iov_ok_def)
qed

lemma moves_buf_entries:
  assumes "ctx_ok cx" "r < rl_size (fx_rl cx)" "CHUNK_REF_UINT8 b \<notin># ctx_refs cx" "b \<in> dom (cm_bufs (fx_mem cx))" "buf_entries b es"
    "iov = (rq_iov (req_of r cx))\<lparr>ci_io := ci_io (rq_iov (req_of r cx)) @ es\<rparr>"
  shows "moves cx (upd_req r (\<lambda>q. q\<lparr>rq_iov := iov\<rparr>) cx)"
proof -
  let ?q = "(req_of r cx)\<lparr>rq_iov := iov\<rparr>"
  have refs: "ctx_refs cx = req_refs (req_of r cx) + rest_req r cx" using assms(1,2) ctx_ok_D(4) by (intro ctx_refs_req) simp
  have "counted (fx_mem cx) (mset (map ie_ref es) + ctx_refs cx)" by (rule counted_buf_entries [OF ctx_ok_D(1) [OF assms(1)] assms(3-5)])
  then have "counted (fx_mem cx) (req_refs ?q + rest_req r cx)" using refs assms(6) by (simp add: req_refs_def ac_simps)
  moreover have "iov_ok (rq_iov ?q)" using iov_ok_buf_entries [OF ctx_ok_D(6) [OF assms(1,2)] assms(5)] assms(6) by simp
  ultimately have "moves cx (set_req r ?q (cx\<lparr>fx_mem := fx_mem cx\<rparr>))"
    using moves_req_mem [OF assms(1,2)] sub_mem_same by blast
  then show ?thesis by (simp add: upd_req_def)
qed

lemma add_ptr_cases:
  "chunk_iov_add_ptr p n fr iov = (ret, iov') \<Longrightarrow>
     ret \<noteq> 0 \<and> iov' = iov
     \<or> ret = 0 \<and> (\<exists>e. iov' = iov\<lparr>ci_io := ci_io iov @ [e]\<rparr> \<and> ie_base e = p \<and> ie_len e = n
          \<and> ie_ref e = (if fr then (case p of BBuf b off \<Rightarrow> CHUNK_REF_UINT8 b | _ \<Rightarrow> CHUNK_REF_NULL) else CHUNK_REF_NULL))"
  by (auto simp: chunk_iov_add_ptr_def split: if_splits)

lemma prepare_empty_entries:
  assumes "prepare_empty req_id b buf pos iov = Inr (Some (buf', iov'))"
  shows "\<exists>es. buf_entries b es \<and> iov' = iov\<lparr>ci_io := ci_io iov @ es\<rparr>"
proof -
  obtain buf1 n where w: "room pos" "fcgi_write_header buf pos (fcgi_hdr FCGI_STDIN req_id 0 0) = Inr (buf1, n)"
    using assms by (auto simp: prepare_empty_def bindE_Inr_iff split: if_splits)
  obtain ret iov1 where a: "chunk_iov_add_ptr (BBuf b 0) (pos + n) True iov = (ret, iov1)" by fastforce
  have r: "ret = 0" "iov' = iov1" using assms w a by (auto simp: prepare_empty_def split: if_splits)
  then obtain e where e: "iov' = iov\<lparr>ci_io := ci_io iov @ [e]\<rparr>" "ie_base e = BBuf b 0" "ie_ref e = CHUNK_REF_UINT8 b"
    using add_ptr_cases [OF a] by auto
  have "buf_entries b [e]" using e by (simp add: buf_entries_def)
  with e(1) show ?thesis by blast
qed

lemma prepare_body_entries:
  assumes "prepare_body req_id b data buf pos iov = Inr (ok, buf', iov')"
  shows "\<exists>es. buf_entries b es \<and> iov' = iov\<lparr>ci_io := ci_io iov @ es\<rparr>"
proof -
  have none: "\<exists>es. buf_entries b es \<and> iov = iov\<lparr>ci_io := ci_io iov @ es\<rparr>" by (rule exI [of _ "[]"]) (simp add: buf_entries_def)
  show ?thesis
  proof (cases "room pos")
    case False
    with assms none show ?thesis by (auto simp: prepare_body_def Let_def)
  next
    case True
    obtain buf1 n where w: "fcgi_write_header buf pos (fcgi_hdr FCGI_STDIN req_id (p_len data) (body_pad (p_len data))) = Inr (buf1, n)"
      using assms True by (auto simp: prepare_body_def Let_def bindE_Inr_iff)
    obtain ret1 iov1 where "chunk_iov_add_ptr (BBuf b 0) (pos + n) True iov = (ret1, iov1)" by fastforce
    note 1 = w this
    obtain ret2 iov2 where 2: "chunk_iov_add_ptr (BExt (view data)) (p_len data) False iov1 = (ret2, iov2)" by fastforce
    show ?thesis
    proof (cases "ret1 = 0")
      case False
      with assms True 1 none add_ptr_cases [OF 1(2)] show ?thesis by (auto simp: prepare_body_def Let_def)
    next
      case ok1: True
      obtain e1 where e1: "iov1 = iov\<lparr>ci_io := ci_io iov @ [e1]\<rparr>" "ie_base e1 = BBuf b 0" "ie_ref e1 = CHUNK_REF_UINT8 b"
        using add_ptr_cases [OF 1(2)] ok1 by auto
      have one: "buf_entries b [e1]" using e1 by (simp add: buf_entries_def)
      show ?thesis
      proof (cases "ret2 = 0")
        case False
        with assms True 1 2 ok1 e1 one add_ptr_cases [OF 2] show ?thesis by (auto simp: prepare_body_def Let_def)
      next
        case ok2: True
        obtain e2 where e2: "iov2 = iov\<lparr>ci_io := ci_io iov @ [e1, e2]\<rparr>" "ie_base e2 = BExt (view data)" "ie_ref e2 = CHUNK_REF_NULL"
          using add_ptr_cases [OF 2] ok2 e1(1) by auto
        have two: "buf_entries b [e1, e2]" using e1 e2 by (simp add: buf_entries_def)
        have three: "buf_entries b [e1, e2, e3]" if "ie_base e3 = BBuf b m" "ie_ref e3 = CHUNK_REF_NULL" for e3 m
          using e1 e2 that by (simp add: buf_entries_def)
        let ?h = "fcgi_hdr FCGI_STDIN req_id (p_len data) (body_pad (p_len data))"
        define q where "q = pos + n + (unat (fh_body_len ?h) + unat (fh_body_pad ?h))"
        have rest: "prepare_body req_id b data buf pos iov = (if \<not> room q then Inr (False, buf1, iov2)
            else bindE (fcgi_write_header buf1 q (fcgi_hdr FCGI_STDIN req_id 0 0)) (\<lambda>(buf2, n2).
              let (ret3, iov3) = chunk_iov_add_ptr (BBuf b (pos + n)) (q + n2) False iov2 in Inr (ret3 = 0, buf2, iov3)))"
          using True 1 2 ok1 ok2 by (simp add: prepare_body_def Let_def q_def)
        show ?thesis
        proof (cases "room q")
          case False
          with rest assms two e2(1) show ?thesis by auto
        next
          case True
          then obtain buf2 n2 where "fcgi_write_header buf1 q (fcgi_hdr FCGI_STDIN req_id 0 0) = Inr (buf2, n2)"
            using rest assms by (cases "fcgi_write_header buf1 q (fcgi_hdr FCGI_STDIN req_id 0 0)") auto
          moreover obtain ret3 iov3 where a3: "chunk_iov_add_ptr (BBuf b (pos + n)) (q + n2) False iov2 = (ret3, iov3)" by fastforce
          ultimately have "iov' = iov3" using rest assms True by simp
          moreover have "iov3 = iov2 \<or> (\<exists>e3. iov3 = iov2\<lparr>ci_io := ci_io iov2 @ [e3]\<rparr> \<and> ie_base e3 = BBuf b (pos + n) \<and> ie_ref e3 = CHUNK_REF_NULL)"
            using add_ptr_cases [OF a3] by auto
          ultimately show ?thesis using e2(1) two three by auto
        qed
      qed
    qed
  qed
qed

lemma prepare_empty_mild: "prepare_empty req_id b buf pos iov = Inl e \<Longrightarrow> mild e"
  using fcgi_write_header_mild by (fastforce simp: prepare_empty_def bindE_def split: if_splits sum.splits prod.splits)

lemma prepare_body_mild: "prepare_body req_id b data buf pos iov = Inl e \<Longrightarrow> mild e"
  using fcgi_write_header_mild by (fastforce simp: prepare_body_def bindE_def Let_def split: if_splits sum.splits prod.splits)

section \<open>Every path keeps the references\<close>

lemma prepare_failed_good: "ctx_ok cx \<Longrightarrow> r < rl_size (fx_rl cx) \<Longrightarrow> good E cx (prepare_failed r cx)"
  using iov_reset_step [of cx r] by (auto simp: prepare_failed_def upd_req_def req_of_def)

lemma upd_req_put_buf: "put_buf b d (upd_req r g cx) = upd_req r g (put_buf b d cx)"
  by (simp add: put_buf_def upd_req_def set_req_def req_of_def)

lemma prepare_stdin_good:
  assumes "ctx_ok cx" "r < rl_size (fx_rl cx)" "CHUNK_REF_UINT8 b \<notin># ctx_refs cx" "b \<in> dom (cm_bufs (fx_mem cx))"
  shows "good mild cx (prepare_stdin r req_id b sr buf pos cx)"
proof -
  let ?iov = "rq_iov (req_of r cx)"
  have b: "b < cm_next (fx_mem cx)" using assms(1,4) ctx_ok_D(3) by (auto simp: mem_ok_def)
  have step: "moves cx (upd_req r (\<lambda>q. q\<lparr>rq_iov := iov'\<rparr>) (put_buf b d cx))"
    if "\<exists>es. buf_entries b es \<and> iov' = ?iov\<lparr>ci_io := ci_io ?iov @ es\<rparr>" for d iov'
  proof -
    have m: "moves cx (put_buf b d cx)" by (rule moves_put_buf [OF assms(1) b])
    have f: "req_of r (put_buf b d cx) = req_of r cx" "ctx_refs (put_buf b d cx) = ctx_refs cx" "b \<in> dom (cm_bufs (fx_mem (put_buf b d cx)))"
      by (simp_all add: put_buf_def req_of_def)
    from that show ?thesis
      using moves_trans [OF m moves_buf_entries [OF moves_D(1) [OF m]]] moves_D(3) [OF m] f assms(2,3) by metis
  qed
  show ?thesis
  proof (cases "0 < p_len (sr_data sr)")
    case True
    show ?thesis
    proof (cases "prepare_body req_id b (sr_data sr) buf pos ?iov")
      case (Inl e)
      with True prepare_body_mild show ?thesis by (simp add: prepare_stdin_def)
    next
      case (Inr p)
      obtain ok buf' iov' where p: "p = (ok, buf', iov')" by (cases p)
      let ?cx = "upd_req r (\<lambda>q. q\<lparr>rq_iov := iov'\<rparr>) (put_buf b buf' cx)"
      have m: "moves cx ?cx" using step prepare_body_entries Inr p by blast
      then have "good mild cx (prepare_failed r ?cx)"
        using good_trans [OF m prepare_failed_good] moves_D [OF m] assms(2) by simp
      with m True Inr p show ?thesis by (simp add: prepare_stdin_def Let_def)
    qed
  next
    case False
    then have d: "p_len (sr_data sr) = 0" by simp
    show ?thesis
    proof (cases "prepare_empty req_id b buf pos ?iov")
      case (Inl e)
      with d prepare_empty_mild show ?thesis by (simp add: prepare_stdin_def)
    next
      case (Inr res)
      then show ?thesis
        using d step prepare_empty_entries prepare_failed_good [OF assms(1,2)]
        by (cases res) (auto simp: prepare_stdin_def Let_def)
    qed
  qed
qed

lemma fcgi_prepare_request_good:
  assumes "ctx_ok cx" "r < rl_size (fx_rl cx)"
  shows "good mild cx (fcgi_prepare_request w config r cx)"
proof -
  let ?b = "cm_next (fx_mem cx)" let ?cx0 = "cx\<lparr>fx_mem := (fx_mem cx)\<lparr>cm_next := ?b + 1\<rparr>\<rparr>"
  have m0: "moves cx ?cx0" by (rule moves_next [OF assms(1)])
  have f: "good mild cx (prepare_failed r cx')" if "moves cx cx'" for cx'
    using good_trans [OF that prepare_failed_good] moves_D [OF that] assms(2) by simp
  show ?thesis
  proof (cases "fw_alloc w ?b")
    case None
    with f [OF m0] show ?thesis by (simp add: fcgi_prepare_request_def Let_def)
  next
    case (Some fill)
    let ?buf = "map fill [0..<FCGI_BUF]" let ?cx1 = "put_buf ?b ?buf ?cx0"
    have m1: "moves cx ?cx1" by (rule moves_trans [OF m0 moves_put_buf [OF moves_D(1) [OF m0]]]) simp
    have fresh: "CHUNK_REF_UINT8 ?b \<notin># ctx_refs ?cx1" "?b \<in> dom (cm_bufs (fx_mem ?cx1))"
      using counted_refs_below [OF ctx_ok_D(1) [OF assms(1)], of ?b] by (auto simp: put_buf_def)
    have ok1: "ctx_ok ?cx1" "r < rl_size (fx_rl ?cx1)" using moves_D [OF m1] assms(2) by simp_all
    have s: "good mild cx (prepare_stdin r i ?b sr buf' pos ?cx1)" for i sr buf' pos
      by (rule good_trans [OF m1 prepare_stdin_good [OF ok1 fresh]])
    have h: "good mild cx (bindE (prepare_head w i k sr ?buf) (\<lambda>res. case res of None \<Rightarrow> prepare_failed r ?cx1
        | Some (buf', pos) \<Rightarrow> prepare_stdin r i ?b sr buf' pos ?cx1))" for i k sr
      using prepare_head_mild f [OF m1] s by (cases "prepare_head w i k sr ?buf") (auto split: option.split)
    let ?loc = "fcgi_config_get_location config (rq_clock_id (req_of r ?cx1))" and ?sr = "rq_sr (req_of r ?cx1)"
    let ?id = "request_list_index_of (fx_rl ?cx1) r"
    show ?thesis
    proof (cases "0 < ?id \<and> ?loc \<noteq> None \<and> ?sr \<noteq> None")
      case True
      then obtain loc sr where "0 < ?id" "?loc = Some loc" "?sr = Some sr" by blast
      then have "fcgi_prepare_request w config r cx = bindE (prepare_head w (word_of_nat ?id) (fl_keep_alive loc) sr ?buf)
          (\<lambda>res. case res of None \<Rightarrow> prepare_failed r ?cx1 | Some (buf', pos) \<Rightarrow> prepare_stdin r (word_of_nat ?id) ?b sr buf' pos ?cx1)"
        unfolding fcgi_prepare_request_def Let_def Some option.case by (simp del: One_nat_def)
      with h show ?thesis by metis
    next
      case False
      have "mild NullDeref" by (simp add: mild_def)
      with False f [OF m1] show ?thesis unfolding fcgi_prepare_request_def Let_def Some option.case
        by (auto simp del: One_nat_def split: option.splits)
    qed
  qed
qed

end
