(* ===== verification/Fcgi_Event.thy ===== *)
theory Fcgi_Event
  imports Fcgi_Prepare
begin

text \<open>
  The rest of \<^verbatim>\<open>plugins/fastcgi/fastcgi.c\<close>: connections to the servers, the stage of the plugin and its
  events. The handlers run one after the other on the context of a worker thread. What the operating
  system answers is in the \<open>fcgi_world\<close> of the call, in the portions of data a socket has for a read,
  and in the result of a write.
\<close>

section \<open>Connections\<close>

definition fcgi_wake_connection :: "nat \<Rightarrow> fcgi_context \<Rightarrow> int \<times> fcgi_context" where
  "fcgi_wake_connection location_id cx =
     (case fcgi_fd_list_get {FCGI_FD_SLEEPING, FCGI_FD_READY} location_id (fx_fdl cx) of
        None \<Rightarrow> (-1, cx)
      | Some f \<Rightarrow>
          if ff_state (fd_of f cx) = FCGI_FD_SLEEPING
          then (0, snd (fd_set_state f FCGI_FD_READY (xemit (XMode (ff_fd (fd_of f cx)) MK_EPOLL_WAKEUP) cx)))
          else (0, cx))"

definition SUN_PATH_SIZE :: nat where [mk_const]: "SUN_PATH_SIZE = 108"

text \<open>A server with neither a path nor an address gets the descriptor \<open>-1\<close>.\<close>

definition fcgi_server_connect :: "fcgi_world \<Rightarrow> fcgi_server \<Rightarrow> fcgi_context \<Rightarrow> int \<times> fcgi_context" where
  "fcgi_server_connect w server cx =
     (let failed = (\<lambda>sock_fd. (-1, if sock_fd \<noteq> -1 then xemit (XClose sock_fd) cx else cx)) in
      case sv_path server of
        Some path \<Rightarrow>
          let sock_fd = fw_socket w in
          if sock_fd = -1 then failed sock_fd
          else if \<not> length (cstring path) + 1 < SUN_PATH_SIZE then failed sock_fd
          else if \<not> fw_unix_connect w (cstring path) then failed sock_fd
          else (sock_fd, cx)
      | None \<Rightarrow>
          (case sv_addr server of
             None \<Rightarrow> (-1, cx)
           | Some addr \<Rightarrow> (fw_inet_connect w addr (sv_port server), cx)))"

text \<open>\<open>XEventAdd\<close>: the socket is made non-blocking and added to the event queue.\<close>

definition fcgi_new_connection :: "fcgi_world \<Rightarrow> fcgi_config \<Rightarrow> nat \<Rightarrow> fcgi_context \<Rightarrow> int \<times> fcgi_context" where
  "fcgi_new_connection w config location_id cx =
     (case fcgi_fd_list_get {FCGI_FD_AVAILABLE} location_id (fx_fdl cx) of
        None \<Rightarrow> (0, cx)
      | Some f \<Rightarrow>
          (case fcgi_config_get_server config (ff_server_id (fd_of f cx)) of
             None \<Rightarrow> (-1, cx)
           | Some server \<Rightarrow>
               let (sock, cx1) = fcgi_server_connect w server cx; cx2 = set_fd f ((fd_of f cx1)\<lparr>ff_fd := sock\<rparr>) cx1 in
               if sock = -1 then (-1, cx2) else (0, snd (fd_set_state f FCGI_FD_READY (xemit (XEventAdd sock) cx2)))))"

section \<open>The stage\<close>

definition regex_match_location :: "fcgi_world \<Rightarrow> fcgi_config \<Rightarrow> cstr \<Rightarrow> nat option" where
  "regex_match_location w config uri = find_index (\<lambda>loc. fw_match w (fl_match_regex loc) uri) (fc_locations config)"

definition find_request :: "int \<Rightarrow> fcgi_context \<Rightarrow> cerr + nat option \<times> fcgi_context" where
  "find_request socket cx = bindE (request_list_get_by_fd socket (fx_rl cx)) (\<lambda>(r, rl). Inr (r, cx\<lparr>fx_rl := rl\<rparr>))"

text \<open>The path of the file as a text with an end; the memory for it is not checked.\<close>

definition stage_uri :: "fcgi_world \<Rightarrow> session_request \<Rightarrow> fcgi_context \<Rightarrow> cerr + cstr \<times> fcgi_context" where
  "stage_uri w sr cx =
     (let (ok, cm) = alloc_ok (fw_alloc w) (fx_mem cx) in
      if \<not> ok then Inl NullDeref
      else bindE (copy_pointer (replicate (p_len (sr_real_path sr) + 1) NUL) 0 (sr_real_path sr)) (\<lambda>uri.
        Inr (cstring uri, cx\<lparr>fx_mem := cm\<rparr>)))"

definition stage_failed :: "nat \<Rightarrow> fcgi_context \<Rightarrow> cerr + int \<times> fcgi_context" where
  "stage_failed r cx = bindE (fail_request r cx) (\<lambda>cx'. Inr (MK_PLUGIN_RET_CONTINUE, cx'))"

definition stage_connect :: "fcgi_world \<Rightarrow> fcgi_config \<Rightarrow> nat \<Rightarrow> nat \<Rightarrow> fcgi_context \<Rightarrow> cerr + int \<times> fcgi_context" where
  "stage_connect w config location_id r cx =
     (let (ret, cx1) = fcgi_wake_connection location_id cx;
          (ret2, cx2) = (if ret \<noteq> 0 then fcgi_new_connection w config location_id cx1 else (0, cx1))
      in if ret2 \<noteq> 0 then stage_failed r cx2
         else
           let cx3 = upd_req r (\<lambda>q. snd (request_set_flag REQ_SLEEPING q)) cx2
           in Inr (MK_PLUGIN_RET_CONTINUE, xemit (XMode (rq_fd (req_of r cx3)) MK_EPOLL_SLEEP) cx3))"

definition req_assign :: "nat \<Rightarrow> nat \<Rightarrow> client_session \<Rightarrow> session_request \<Rightarrow> fcgi_context \<Rightarrow> cerr + int \<times> fcgi_context" where
  "req_assign r location_id cs sr cx =
     bindE (request_assign (cs_socket cs) location_id cs sr (req_of r cx) (fx_mem cx)) (\<lambda>(ret, req, cm).
       Inr (ret, set_req r req (cx\<lparr>fx_mem := cm\<rparr>)))"

definition mkp_stage_30 ::
  "fcgi_world \<Rightarrow> fcgi_config \<Rightarrow> client_session \<Rightarrow> session_request \<Rightarrow> fcgi_context \<Rightarrow> cerr + int \<times> fcgi_context" where
  "mkp_stage_30 w config cs sr cx =
     bindE (find_request (cs_socket cs) cx) (\<lambda>(ghost, cx1).
       if ghost \<noteq> None then Inr (MK_PLUGIN_RET_CONTINUE, cx1)
       else bindE (stage_uri w sr cx1) (\<lambda>(uri, cx2).
         case regex_match_location w config uri of
           None \<Rightarrow> Inr (MK_PLUGIN_RET_NOT_ME, cx2)
         | Some location_id \<Rightarrow>
             bindE (request_list_next_available location_id (fx_rl cx2)) (\<lambda>req.
               case req of
                 None \<Rightarrow> Inr (MK_PLUGIN_RET_CONTINUE, cx2)
               | Some r \<Rightarrow>
                   bindE (req_assign r location_id cs sr cx2) (\<lambda>(ret, cx3).
                     if ret \<noteq> 0 then stage_failed r cx3
                     else bindE (fcgi_prepare_request w config r cx3) (\<lambda>(ret2, cx4).
                       if ret2 \<noteq> 0 then stage_failed r cx4 else stage_connect w config location_id r cx4)))))"

section \<open>The plugin and its threads\<close>

text \<open>
  The sizes of the structures are the ones of the protocol on every compiler, because their members are
  bytes and aligned pairs of bytes; \<open>fcgi_validate_struct_sizes\<close> never fails. The plugin finds itself in
  the list of plugins by its name.
\<close>

record fcgi_global =
  fg_plugin :: "nat option"
  fg_config :: fcgi_config
  fg_contexts :: fcgi_context_list

definition mkp_init :: "(cstr \<Rightarrow> bool) \<Rightarrow> mk_config_section list option \<Rightarrow> fcgi_global \<Rightarrow> cerr + int \<times> fcgi_global" where
  "mkp_init regcomp file g =
     bindE (fcgi_config_read regcomp file) (\<lambda>(ret, config). Inr (if ret \<noteq> 0 then -1 else 0, g\<lparr>fg_config := config\<rparr>))"

definition mkp_exit :: "fcgi_global \<Rightarrow> cerr + fcgi_global" where
  "mkp_exit g =
     bindE (fcgi_context_list_free (fg_contexts g)) (\<lambda>xl.
       Inr (g\<lparr>fg_contexts := xl, fg_config := fcgi_config_free (fg_config g)\<rparr>))"

definition mkp_core_prctx ::
  "alloc \<Rightarrow> cstr list \<Rightarrow> nat \<Rightarrow> nat \<Rightarrow> fcgi_context \<Rightarrow> fcgi_global \<Rightarrow> cerr + int \<times> fcgi_global" where
  "mkp_core_prctx al plugins nworkers capacity blank g =
     bindE (fcgi_context_list_init al (fg_config g) nworkers capacity blank) (\<lambda>(ret, xl).
       if ret \<noteq> 0 then Inr (-1, g\<lparr>fg_contexts := xl\<rparr>)
       else Inr (0, g\<lparr>fg_contexts := xl,
                      fg_plugin := (case filter (\<lambda>i. plugins ! i = ''fastcgi'') [0..<length plugins] of
                                      [] \<Rightarrow> fg_plugin g | is \<Rightarrow> Some (last is))\<rparr>))"

text \<open>The context of the thread; \<open>None\<close> when the process is aborted.\<close>

definition mkp_core_thctx :: "fcgi_global \<Rightarrow> fcgi_context option \<times> fcgi_global" where
  "mkp_core_thctx g =
     (let (tid, xl) = fcgi_context_list_assign_thread_id (fg_contexts g) in
      (if tid = -1 then None else fcgi_context_list_get tid xl, g\<lparr>fg_contexts := xl\<rparr>))"

section \<open>Events\<close>

text \<open>The connection is looked for first, then the client.\<close>

datatype owner = ONone | OServer nat | OClient nat

definition owner_of :: "int \<Rightarrow> fcgi_context \<Rightarrow> cerr + owner \<times> fcgi_context" where
  "owner_of socket cx =
     (case fcgi_fd_list_get_by_fd socket (fx_fdl cx) of
        Some f \<Rightarrow> Inr (OServer f, cx)
      | None \<Rightarrow> bindE (find_request socket cx) (\<lambda>(r, cx'). Inr (case r of None \<Rightarrow> ONone | Some r \<Rightarrow> OClient r, cx')))"

definition hangup_server :: "fcgi_world \<Rightarrow> fcgi_config \<Rightarrow> nat \<Rightarrow> fcgi_context \<Rightarrow> fcgi_context" where
  "hangup_server w config f cx =
     (let fd = fd_of f cx;
          cx1 = set_fd f (fd\<lparr>ff_fd := -1, ff_state := FCGI_FD_AVAILABLE\<rparr>) (xemit (XClose (ff_fd fd)) (xemit (XEventDel (ff_fd fd)) cx))
      in if ff_state fd = FCGI_FD_CLOSING then snd (fcgi_new_connection w config (ff_location_id fd) cx1) else cx1)"

definition hangup_client :: "nat \<Rightarrow> fcgi_context \<Rightarrow> cerr + fcgi_context" where
  "hangup_client r cx =
     bindE (if rq_state (req_of r cx) \<noteq> REQ_FAILED then req_set_state r REQ_FAILED cx else Inr (0, cx)) (\<lambda>(_, cx1).
       if rq_fcgi_fd (req_of r cx1) = -1 then req_recycle r cx1
       else Inr (upd_req r (\<lambda>q. q\<lparr>rq_fd := -1, rq_cs := None, rq_sr := None\<rparr>) cx1))"

definition hangup :: "fcgi_world \<Rightarrow> fcgi_config \<Rightarrow> int \<Rightarrow> fcgi_context \<Rightarrow> cerr + int \<times> fcgi_context" where
  "hangup w config socket cx =
     bindE (owner_of socket cx) (\<lambda>(own, cx1).
       case own of
         ONone \<Rightarrow> Inr (MK_PLUGIN_RET_EVENT_NEXT, cx1)
       | OServer f \<Rightarrow> Inr (MK_PLUGIN_RET_EVENT_OWNED, hangup_server w config f cx1)
       | OClient r \<Rightarrow> bindE (hangup_client r cx1) (\<lambda>cx2. Inr (MK_PLUGIN_RET_EVENT_CONTINUE, cx2)))"

definition mkp_event_close :: "fcgi_world \<Rightarrow> fcgi_config \<Rightarrow> int \<Rightarrow> fcgi_context \<Rightarrow> cerr + int \<times> fcgi_context" where
  "mkp_event_close w config socket cx = hangup w config socket cx"

definition mkp_event_error :: "fcgi_world \<Rightarrow> fcgi_config \<Rightarrow> int \<Rightarrow> fcgi_context \<Rightarrow> cerr + int \<times> fcgi_context" where
  "mkp_event_error w config socket cx = hangup w config socket cx"

text \<open>What \<open>writev\<close> answers.\<close>

datatype write_answer = WSent nat | WAgain | WError

fun sent_bytes :: "write_answer \<Rightarrow> nat option" where
  "sent_bytes (WSent n) = Some n"
| "sent_bytes WAgain = None"
| "sent_bytes WError = None"

definition write_failed :: "nat \<Rightarrow> fcgi_context \<Rightarrow> cerr + int \<times> fcgi_context" where
  "write_failed r cx = bindE (fail_request r cx) (\<lambda>cx'. Inr (MK_PLUGIN_RET_EVENT_CLOSE, cx'))"

definition write_ended :: "write_answer \<Rightarrow> nat \<Rightarrow> fcgi_context \<Rightarrow> cerr + int \<times> fcgi_context" where
  "write_ended ans r cx =
     bindE (fcgi_send_response_headers r cx) (\<lambda>(ret, cx1).
       if ret \<noteq> 0 then write_failed r cx1
       else bindE (fcgi_send_response (sent_bytes ans) r cx1) (\<lambda>(ret2, cx2).
         if ret2 \<noteq> 0 then write_failed r cx2 else Inr (MK_PLUGIN_RET_EVENT_OWNED, cx2)))"

definition MK_SERVER_INTERNAL_ERROR :: int where [mk_const]: "MK_SERVER_INTERNAL_ERROR = 500"

text \<open>\<open>http_request_error\<close> uses the sessions of the request.\<close>

definition write_error :: "int \<Rightarrow> nat \<Rightarrow> fcgi_context \<Rightarrow> cerr + int \<times> fcgi_context" where
  "write_error socket r cx =
     (let q = req_of r cx in
      if rq_cs q = None \<or> rq_sr q = None then Inl NullDeref
      else
        let cx1 = xemit (XRequestError MK_SERVER_INTERNAL_ERROR (rq_fd q)) cx in
        bindE (if rq_fcgi_fd q = -1 then req_recycle r cx1 else Inr cx1) (\<lambda>cx2.
          Inr (MK_PLUGIN_RET_EVENT_OWNED, xemit (XRequestEnd socket) cx2)))"

definition write_sending :: "write_answer \<Rightarrow> nat \<Rightarrow> fcgi_context \<Rightarrow> cerr + int \<times> fcgi_context" where
  "write_sending ans f cx =
     (case ff_begin_req (fd_of f cx) of
        None \<Rightarrow> Inr (MK_PLUGIN_RET_EVENT_CLOSE, cx)
      | Some r \<Rightarrow>
          let iov = rq_iov (req_of r cx) in
          bindE (chunk_iov_sendv (sent_bytes ans) (fx_mem cx) iov) (\<lambda>(ret, bs).
            if ret = -1 then Inr (if ans = WAgain then MK_PLUGIN_RET_EVENT_OWNED else MK_PLUGIN_RET_EVENT_CLOSE, cx)
            else
              let fd = fd_of f cx; fd1 = fd\<lparr>ff_begin_req_remain := ulong (int (ff_begin_req_remain fd) - ret)\<rparr>;
                  cx1 = set_fd f fd1 (xemit (XSendv (ff_fd fd) bs) cx)
              in if ff_begin_req_remain fd1 = 0 then
                   let cx2 = (if ff_type fd = FCGI_FD_INET then xemit (XCork (ff_fd fd) False) cx1 else cx1);
                       cx3 = snd (fd_set_state f FCGI_FD_RECEIVING cx2)
                   in bindE (chunk_iov_reset iov (fx_mem cx3)) (\<lambda>(iov', cm).
                        Inr (MK_PLUGIN_RET_EVENT_OWNED,
                             set_fd f ((fd_of f cx3)\<lparr>ff_begin_req := None\<rparr>)
                               (upd_req r (\<lambda>q. q\<lparr>rq_iov := iov'\<rparr>) (cx3\<lparr>fx_mem := cm\<rparr>))))
                 else bindE (chunk_iov_drop (nat ret) iov) (\<lambda>(_, iov').
                        Inr (MK_PLUGIN_RET_EVENT_OWNED, upd_req r (\<lambda>q. q\<lparr>rq_iov := iov'\<rparr>) cx1))))"

text \<open>A connection without work sleeps when it is kept alive.\<close>

definition write_idle :: "fcgi_config \<Rightarrow> nat \<Rightarrow> fcgi_context \<Rightarrow> int \<times> fcgi_context" where
  "write_idle config f cx =
     (case fcgi_config_get_location config (ff_location_id (fd_of f cx)) of
        None \<Rightarrow> (MK_PLUGIN_RET_EVENT_CLOSE, cx)
      | Some locp \<Rightarrow>
          if \<not> fl_keep_alive locp then (MK_PLUGIN_RET_EVENT_CLOSE, cx)
          else
            let (ret, cx1) = fd_set_state f FCGI_FD_SLEEPING (xemit (XMode (ff_fd (fd_of f cx)) MK_EPOLL_SLEEP) cx)
            in (if ret \<noteq> 0 then MK_PLUGIN_RET_EVENT_CLOSE else MK_PLUGIN_RET_EVENT_OWNED, cx1))"

text \<open>A connection takes a request; \<open>None\<close> when it can be sent, otherwise the result at the label \<open>error\<close>.\<close>

definition take_request :: "nat \<Rightarrow> nat \<Rightarrow> fcgi_context \<Rightarrow> cerr + int option \<times> fcgi_context" where
  "take_request f r cx =
     (let failed = (\<lambda>cx. bindE (write_failed r cx) (\<lambda>(ret, cx'). Inr (Some ret, cx')));
          fd = fd_of f cx;
          cx1 = upd_req r (request_set_fcgi_fd (ff_fd fd)) cx
      in bindE (req_set_state r REQ_SENT cx1) (\<lambda>(ret, cx2).
           if ret \<noteq> 0 then failed cx2
           else
             let (ret2, fd2) = fcgi_fd_set_begin_req_iov r (rq_iov (req_of r cx2)) (fd_of f cx2); cx3 = set_fd f fd2 cx2 in
             if ret2 \<noteq> 0 then failed cx3
             else
               let (ret3, cx4) = fd_set_state f FCGI_FD_SENDING cx3 in
               if ret3 \<noteq> 0 then failed cx4
               else Inr (None, if ff_type fd = FCGI_FD_INET then xemit (XCork (ff_fd fd) True) cx4 else cx4)))"

text \<open>
  \<open>_mkp_event_write\<close> calls itself when a connection has taken a request, and only then: the second call
  finds the connection in another state. \<open>n\<close> counts the calls; without any left the value is \<open>Diverges\<close>.
\<close>

fun event_write :: "nat \<Rightarrow> fcgi_config \<Rightarrow> write_answer \<Rightarrow> int \<Rightarrow> fcgi_context \<Rightarrow> cerr + int \<times> fcgi_context" where
  "event_write 0 config ans socket cx = Inl Diverges"
| "event_write (Suc n) config ans socket cx =
     bindE (owner_of socket cx) (\<lambda>(own, cx1).
       case own of
         ONone \<Rightarrow> Inr (MK_PLUGIN_RET_EVENT_NEXT, cx1)
       | OClient r \<Rightarrow>
           if rq_state (req_of r cx1) = REQ_ENDED then write_ended ans r cx1
           else if rq_state (req_of r cx1) = REQ_FAILED then write_error socket r cx1
           else Inr (MK_PLUGIN_RET_EVENT_CONTINUE, cx1)
       | OServer f \<Rightarrow>
           if ff_state (fd_of f cx1) = FCGI_FD_READY then
             bindE (request_list_next_assigned (ff_location_id (fd_of f cx1)) (fx_rl cx1)) (\<lambda>(req, rl).
               let cx2 = cx1\<lparr>fx_rl := rl\<rparr> in
               case req of
                 None \<Rightarrow> Inr (write_idle config f cx2)
               | Some r \<Rightarrow> bindE (take_request f r cx2) (\<lambda>(res, cx3).
                   case res of None \<Rightarrow> event_write n config ans (ff_fd (fd_of f cx3)) cx3 | Some ret \<Rightarrow> Inr (ret, cx3)))
           else if ff_state (fd_of f cx1) = FCGI_FD_SENDING then write_sending ans f cx1
           else Inr (MK_PLUGIN_RET_EVENT_CONTINUE, cx1))"

definition mkp_event_write :: "fcgi_config \<Rightarrow> write_answer \<Rightarrow> int \<Rightarrow> fcgi_context \<Rightarrow> cerr + int \<times> fcgi_context" where
  "mkp_event_write = event_write 2"

definition mkp_event_read :: "alloc \<Rightarrow> sock_answer list \<Rightarrow> int \<Rightarrow> fcgi_context \<Rightarrow> cerr + int \<times> fcgi_context" where
  "mkp_event_read al as socket cx =
     (case fcgi_fd_list_get_by_fd socket (fx_fdl cx) of
        None \<Rightarrow> Inr (MK_PLUGIN_RET_EVENT_NEXT, cx)
      | Some f \<Rightarrow>
          bindE (fcgi_recv_response al (fcgi_handle_pkg al) f as cx) (\<lambda>(ret, cx').
            Inr (if ret \<noteq> 0 \<or> ff_state (fd_of f cx') = FCGI_FD_CLOSING then MK_PLUGIN_RET_EVENT_CLOSE
                 else MK_PLUGIN_RET_EVENT_OWNED, cx')))"

end
