(* ===== verification/Fcgi_Safety.thy ===== *)
theory Fcgi_Safety
  imports Fcgi_Event Mk_Confine
begin

text \<open>
  The handlers of the FastCGI plugin one after the other: every reference to a chunk or a buffer stays
  counted, and every handler returns or stops at one of the access errors that are listed for it.
\<close>

section \<open>Lookups and connections\<close>

lemma moves_rl:
  "ctx_ok cx \<Longrightarrow> list_ok rl \<Longrightarrow> rl_rs rl = rl_rs (fx_rl cx) \<Longrightarrow> rl_size rl = rl_size (fx_rl cx) \<Longrightarrow> moves cx (cx\<lparr>fx_rl := rl\<rparr>)"
  using ctx_ok_set_cache by (simp add: moves_def sub_mem_same)

lemma find_request_step:
  assumes "ctx_ok cx" "socket \<noteq> -1"
  shows "\<exists>r cx'. find_request socket cx = Inr (r, cx') \<and> moves cx cx' \<and> fx_fdl cx' = fx_fdl cx \<and> (\<forall>i. req_of i cx' = req_of i cx)
           \<and> (\<forall>i. r = Some i \<longrightarrow> i < rl_size (fx_rl cx) \<and> rq_fd (req_of i cx) = socket)"
proof -
  obtain r c where "request_list_get_by_fd socket (fx_rl cx) = Inr (r, (fx_rl cx)\<lparr>rl_cache := c\<rparr>)" "list_ok ((fx_rl cx)\<lparr>rl_cache := c\<rparr>)"
      "\<forall>i. r = Some i \<longrightarrow> i < rl_size (fx_rl cx) \<and> rq_fd (rl_rs (fx_rl cx) ! i) = socket"
    using request_list_get_by_fd_spec [OF ctx_ok_D(2) [OF assms(1)] assms(2)] by (auto split: option.splits)
  then show ?thesis using moves_rl [OF assms(1)] by (simp add: find_request_def req_of_def)
qed








section \<open>The stage\<close>







section \<open>Hangups\<close>





section \<open>Sending the request\<close>









section \<open>The response\<close>







text \<open>There is something to send: the headers are sent already, or the vector has a first entry.\<close>

definition has_output :: "request \<Rightarrow> bool" where
  "has_output req \<longleftrightarrow> request_get_flag req REQ_HEADERS_SENT \<or> ci_io (rq_iov req) \<noteq> []"




text \<open>Without output the freed memory is used, whatever the operating system answers.\<close>

lemma write_ended_empty:
  assumes "\<not> has_output (req_of r cx)" "rq_sr (req_of r cx) = Some sr"
  shows "write_ended ans r cx = Inl UseAfterFree"
  using assms by (simp add: write_ended_def fcgi_send_response_headers_def has_output_def fcgi_parse_cgi_headers_def Let_def)


section \<open>Events\<close>







section \<open>The end of a thread\<close>





section \<open>Sequences of events\<close>

datatype fcgi_call =
    CStage fcgi_world client_session session_request
  | CClose fcgi_world int
  | CError fcgi_world int
  | CWrite write_answer int
  | CRead alloc "sock_answer list" int

fun run_call :: "fcgi_config \<Rightarrow> fcgi_call \<Rightarrow> fcgi_context \<Rightarrow> cerr + int \<times> fcgi_context" where
  "run_call config (CStage w cs sr) cx = mkp_stage_30 w config cs sr cx"
| "run_call config (CClose w socket) cx = mkp_event_close w config socket cx"
| "run_call config (CError w socket) cx = mkp_event_error w config socket cx"
| "run_call config (CWrite ans socket) cx = mkp_event_write config ans socket cx"
| "run_call config (CRead al as socket) cx = mkp_event_read al as socket cx"

text \<open>The socket of a call.\<close>

fun call_socket :: "fcgi_call \<Rightarrow> int" where
  "call_socket (CStage w cs sr) = cs_socket cs"
| "call_socket (CClose w socket) = socket"
| "call_socket (CError w socket) = socket"
| "call_socket (CWrite ans socket) = socket"
| "call_socket (CRead al as socket) = socket"


text \<open>The calls that have returned, one after the other.\<close>

inductive fcgi_run :: "fcgi_config \<Rightarrow> fcgi_context \<Rightarrow> fcgi_context \<Rightarrow> bool" for config where
  run_start: "fcgi_run config cx cx"
| run_step: "fcgi_run config cx cx1 \<Longrightarrow> call_socket c \<noteq> -1 \<Longrightarrow> run_call config c cx1 = Inr (ret, cx2) \<Longrightarrow> fcgi_run config cx cx2"

inductive_cases fcgi_run_cases: "fcgi_run config cx cx2"



text \<open>
  The use of freed memory on an ended response without output is not only possible: the write event of
  that client always ends with it.
\<close>

lemma write_event_without_output:
  assumes "ctx_ok cx" "fcgi_fd_list_get_by_fd socket (fx_fdl cx) = None" "find_request socket cx = Inr (Some r, cx1)" "socket \<noteq> -1"
    "rq_state (req_of r cx) = REQ_ENDED" "\<not> has_output (req_of r cx)" "rq_sr (req_of r cx) = Some sr"
  shows "run_call config (CWrite ans socket) cx = Inl UseAfterFree"
proof -
  have "req_of r cx1 = req_of r cx" using find_request_step [OF assms(1,4)] assms(3) by auto
  then show ?thesis using write_ended_empty [of r cx1 sr ans] assms(2,3,5-7)
    by (simp add: mkp_event_write_def eval_nat_numeral owner_of_def)
qed










end
