(* ===== verification/Spec2Isabelle.thy ===== *)
theory Spec2Isabelle
  imports Mk_List Mk_Path_Safety Mk_Request_Line Mk_Progress Mk_Capacity Mk_Auth Mk_Mandril Mk_Dirlist Mk_Cgi Fcgi_Safety
begin

text \<open>
  A verification development for the Monkey HTTP daemon, a web server for Linux in C, and for five of
  its plugins: authentication, the security rules (mandril), the directory listing, CGI and the FastCGI
  client.

  \<^bold>\<open>The program.\<close> The main thread accepts connections and hands each to a worker thread
  (\<^verbatim>\<open>src/mk_server.c\<close>, \<^verbatim>\<open>src/mk_scheduler.c\<close>). A worker waits for events with epoll
  (\<^verbatim>\<open>src/mk_epoll.c\<close>) and calls the handlers of \<^verbatim>\<open>src/mk_connection.c\<close>. The read handler collects the
  bytes of a request, the write handler parses the requests of a session (\<^verbatim>\<open>src/mk_request.c\<close>), chooses
  the virtual host (\<^verbatim>\<open>src/mk_config.c\<close>) and answers (\<^verbatim>\<open>src/mk_http.c\<close>): it decodes the URI, runs the
  plugins of stage 30, maps the URI to a file, and sends the response header (\<^verbatim>\<open>src/mk_header.c\<close>,
  \<^verbatim>\<open>src/mk_iov.c\<close>) and the file. Plugins are called at five stages and for events on the sockets
  (\<^verbatim>\<open>src/mk_plugin.c\<close>). A response may need several write events; idle connections time out.

  \<^bold>\<open>How it is modelled.\<close> Data are the structures of the code as records and datatypes, every function
  of the code is one definition of the same name (with a suffix where HOL uses the name; the entry points
  \<^verbatim>\<open>_mkp_\<close> of a plugin have the name of the plugin or no underscore in front), and loops are recursive
  functions. A pointer that is only read is the memory from its position on; a write goes through a store
  that is checked, so an access outside of an object, through a null pointer or to freed memory is the
  error value \<open>Inl\<close> of the type \<open>cerr\<close> and not a wrong result. Machine integers are words, or integers
  with the conversion (\<open>int32\<close>, \<open>ulong\<close>, \<open>mod 65536\<close>) written out where the code converts. The state of a
  handler is passed explicitly; the request path uses the state and error monad of \<open>Mk_Types\<close>
  (\<open>bindA\<close>, \<open>liftE\<close>), the FastCGI plugin the error monad \<open>bindE\<close> on the context of its thread. What the
  operating system, the C library, the network plugin and other plugins answer are the fields of the
  records \<open>env\<close>, \<open>worker_env\<close>, \<open>dir_world\<close>, \<open>cgi_world\<close> and \<open>fcgi_world\<close>, or arguments; theorems hold for every answer unless they
  say what they rely on. What the program does to the outside is a trace of effects.

  \<^bold>\<open>Theories and sources.\<close>
    \<^item> \<open>Mk_Prelude\<close>: bytes, C strings and integers, the routines of the C library that are used, the error
      monad, and lemmas on lists and searches that all components share.
    \<^item> \<open>Mk_List\<close> (\<^verbatim>\<open>mk_list.h\<close>), \<open>Mk_Memory\<close> (\<^verbatim>\<open>mk_memory.c\<close>), \<open>Mk_String\<close> (\<^verbatim>\<open>mk_string.c\<close>), \<open>Mk_Utils\<close>
      (URL decoding and buffers of \<^verbatim>\<open>mk_utils.c\<close>), \<open>Mk_Gmt\<close> (date texts of \<^verbatim>\<open>mk_utils.c\<close>, \<^verbatim>\<open>mk_clock.c\<close>),
      \<open>Mk_Config\<close> (\<^verbatim>\<open>mk_config.c\<close>), \<open>Mk_Mimetype\<close> (\<^verbatim>\<open>mk_mimetype.c\<close>): the base of the server.
    \<^item> \<open>Mk_Types\<close> (sessions, requests, the environment), \<open>Mk_Toc\<close> (the table of header lines), \<open>Mk_Http\<close>
      (decisions without system calls), \<open>Mk_Plugin\<close> (stages and event hooks), \<open>Mk_Header\<close> (vectors and the
      response header), \<open>Mk_Serve\<close> (\<open>mk_http_init\<close>, error pages, files), \<open>Mk_Request\<close> (the read and write
      handlers, parsing, sessions): a request from its bytes to its answer.
    \<^item> \<open>Mk_Epoll\<close>, \<open>Mk_Scheduler\<close>, \<open>Mk_Connection\<close>: the worker. \<open>Mk_Capacity\<close> puts the server loop and the
      workers together as a transition system.
    \<^item> \<open>Mk_Confine\<close>, \<open>Mk_Path_Safety\<close>, \<open>Mk_Request_Line\<close>, \<open>Mk_Progress\<close>: properties that span the request
      path.
    \<^item> \<open>Auth_Base64\<close>, \<open>Auth_Sha1\<close>, \<open>Mk_Auth\<close> (\<^verbatim>\<open>plugins/auth\<close>), \<open>Mk_Mandril\<close> (\<^verbatim>\<open>plugins/mandril\<close>), \<open>Mk_Dirlist\<close>
      (\<^verbatim>\<open>plugins/dirlisting\<close>) and \<open>Mk_Cgi\<close> (\<^verbatim>\<open>plugins/cgi\<close>); \<open>Mk_Chunked\<close> has what the last two share: the
      bytes that were sent to a socket, and a decoder of chunked bodies.
    \<^item> \<open>Fcgi_Protocol\<close>, \<open>Fcgi_Chunk\<close>, \<open>Fcgi_Request\<close>, \<open>Fcgi_Config\<close>, \<open>Fcgi_Fd\<close>, \<open>Fcgi_Context\<close>, \<open>Fcgi_Env\<close>:
      one theory for each file of \<^verbatim>\<open>plugins/fastcgi\<close>. \<open>Fcgi_Recv\<close>, \<open>Fcgi_Response\<close> and \<open>Fcgi_Event\<close> hold
      \<^verbatim>\<open>fastcgi.c\<close>, \<open>Fcgi_Prepare\<close> and \<open>Fcgi_Safety\<close> what is shown of it.

  \<^bold>\<open>What is shown.\<close>
    \<^item> Confinement and access: on a server without home directories and request plugins, a write event
      opens only error pages and files below a document root by a URI without \<open>..\<close>, whatever bytes the
      client has sent (\<open>Mk_Path_Safety\<close>); a request to a guarded location whose credentials are not accepted
      opens no file but error pages (\<open>Mk_Auth\<close>); a denied URL ends the connection (\<open>Mk_Mandril\<close>).
    \<^item> Parsing: the request line and headers a client prints are read back; pipelined requests are
      separated; ranges, methods and lengths are in bounds; configuration files are read back.
    \<^item> Responses: the header is sent whole and well formed; a file that is sent in pieces comes to an end
      and is complete.
    \<^item> The worker: the tables of descriptors behave like maps; the number of connections never exceeds
      the capacity, in every reachable state of the system of workers; exactly the idle connections are
      closed at a timeout.
    \<^item> The base: the intrusive list refines a list, the string search its specification, SHA-1 the
      standard, base64 round trips, the cache of date texts does not change them.
    \<^item> Directory listings: a theme is filled with every value in its place, and the chunks that are sent
      decode to the page (\<open>Mk_Dirlist\<close>).
    \<^item> CGI: when the first read has the headers of the program, the client gets the response header, the
      headers and chunks that decode to what was read (\<open>Mk_Cgi\<close>).
    \<^item> FastCGI: parameters round trip. The packages that are handled are those of the byte stream, however
      it is cut, but for two cases in which the code loses the start of a package, which the theorem
      states (\<open>Fcgi_Response\<close>). The connections of the servers are distributed evenly over the threads;
      when there are fewer than threads every thread gets one all the same, beyond the limits
      (\<open>Fcgi_Fd\<close>). Over every sequence of handler calls the references to chunks and buffers are
      counted exactly and the context can be freed; a call returns, or it stops at one of the access
      errors that are listed for it. The handlers are not free of such errors: accesses out of bounds and
      through null pointers are possible in the stage and the write and read events, and memory that
      was freed is used in two situations, which are named (\<open>Fcgi_Safety\<close>).

  \<^bold>\<open>Interfaces.\<close> Each is a locale, proved once and interpreted on the definitions of the code:
  \<open>dlink\<close> (a doubly linked list; \<open>Mk_List\<close>), \<open>fd_table\<close> (a table with descriptors as keys; the epoll index
  of \<open>Mk_Epoll\<close>, the sessions and the connections of \<open>Mk_Scheduler\<close>), \<open>response_inv\<close> and its extension
  \<open>serve_inv\<close> (an invariant every answer keeps; file confinement and error pages in \<open>Mk_Confine\<close>, the bytes
  of the connection in \<open>Mk_Path_Safety\<close>, protected locations in \<open>Mk_Auth\<close>), and \<open>pkg_contract\<close> (what
  \<open>fcgi_recv_response\<close> expects of a handler of packages; \<open>fcgi_handle_pkg\<close> in \<open>Fcgi_Response\<close>).

  \<^bold>\<open>Bounds and fuel.\<close> A traversal of the intrusive list takes the number of nodes as fuel, and what it
  returns with enough of it is proved. The loops \<open>do ... while (i != clock)\<close> of the FastCGI request list
  get \<open>mask + 2\<close> rounds: the index takes \<open>mask + 1\<close> values, so a loop that needs more never ends, and its
  value is then \<open>Diverges\<close>; for the sizes the code chooses, powers of two, that value is never
  reached. The search for a parameter gets the length of the buffer plus 2, since every step moves the
  position. \<open>_mkp_event_write\<close> calls itself at most once; it has fuel 2, and \<open>Diverges\<close> is excluded for
  every event. All other loops are total functions.

  Lengths and counters of the core that are \<open>int\<close> or \<open>unsigned int\<close> in the code are unbounded numbers
  where only texts of 2 GB and more would make a difference (the positions in
  \<open>mk_string_split_line\<close>, the length of an entry in \<open>mk_iov_add_entry\<close>). The counts of FastCGI connections
  are kept at 32 bits.

  \<^bold>\<open>Simplifications.\<close> \<open>strftime\<close> writes a year of four digits, and \<open>gmtime_r\<close> fails only without
  writing (\<open>mk_clock_header_s\<close>). Adding an accepted connection to epoll and counting it is one
  step of \<open>sys_step\<close>. \<open>qsort\<close> is a stable sort. \<open>sent\<close> counts every vector a call was given to send as
  a whole, also where the system answers with a partial write, as the directory listing tests only the sign of the answer. The
  specification of SHA-1 shares the constants and the order of bytes with the code. \<open>allowed\<close> in \<open>Mk_Confine\<close>
  is a document root followed by a text without \<open>..\<close>; that the text starts with a slash is tested in
  \<open>mk_request.c\<close> and not part of it.

  \<^bold>\<open>Not modelled.\<close> Signals, the options and the start of the process, thread caches and the library mode
  (\<^verbatim>\<open>mk_signals.c\<close>, \<^verbatim>\<open>monkey.c\<close>, \<^verbatim>\<open>mk_env.c\<close>, \<^verbatim>\<open>mk_cache.c\<close>, \<^verbatim>\<open>mk_lib.c\<close>) are system calls, allocation or
  an alternative front end. Of the plugins, the log writer and PALM move
  bytes between pipes or to external interpreters; the transport plugins wrap the socket calls
  and a TLS library, and their answers are parameters; the console prints the state. In the modelled
  files, functions that only print or release memory, the loading of shared objects and the threads
  themselves are left out. Sessions in the FastCGI model are values, so that a pointer to a session that
  outlives it is not seen. Running out of memory is modelled in the FastCGI plugin, where the code tests
  for it, and not in the core, where it does not.
\<close>

end
